(* ===== verification/Prelude.thy ===== *)
theory Prelude
  imports
    Complex_Main
    "HOL-Library.AList"
    "HOL-Library.Char_ord"
    "HOL-Library.List_Lexorder"
    "HOL-Library.Sublist"
begin

text \<open>
  The vocabulary every component theory shares: JavaScript values and numbers as the source
  handles them, thrown errors as the left side of a sum, the insertion-ordered \<open>Map\<close>, the
  stable \<open>Array.prototype.sort\<close>, closed string vocabularies, and the lemma collections.

  Conventions. A JavaScript string is a HOL \<open>string\<close>; the strings the modelled code accepts
  are ASCII. A finite JavaScript number is the rational it denotes, so comparisons are exact;
  arithmetic on amounts is exact where the source rounds to a double. A numeric instant
  (\<open>Date.parse\<close>) is \<open>int option\<close> with \<open>None\<close> for \<open>NaN\<close>. An optional property is an \<open>option\<close>,
  \<open>None\<close> when it is absent.
\<close>

section \<open>Lemma collections\<close>

named_theorems vocab_simps \<open>the printed form of each word of a closed vocabulary\<close>
named_theorems wf_simps \<open>unfolding of the well-formedness predicates\<close>
named_theorems op_defs \<open>the operations of a component, for proofs that open them\<close>

section \<open>Values\<close>

datatype jsnum = Fin rat | NaN | PosInf | NegInf

text \<open>A value of TypeScript type \<open>unknown\<close>, as \<open>JSON.parse\<close> or a reader hands it over. The own
  properties of an object are listed in insertion order.\<close>

datatype js =
    Undefined
  | Null
  | Bool bool
  | Num jsnum
  | Str string
  | Arr "js list"
  | Obj "(string \<times> js) list"

type_synonym ms = "int option"

text \<open>\<open>typeof v === "object" && v !== null && !Array.isArray(v)\<close>, written out in every file of
  the core package.\<close>

fun isRecord :: "js \<Rightarrow> bool" where
  "isRecord (Obj _) = True"
| "isRecord _ = False"

fun isArray :: "js \<Rightarrow> bool" where
  "isArray (Arr _) = True"
| "isArray _ = False"

text \<open>Property access: a missing property, and any property of a primitive the code reads, is
  \<open>undefined\<close>.\<close>

fun prop_of :: "js \<Rightarrow> string \<Rightarrow> js" where
  "prop_of (Obj ps) k = (case map_of ps k of None \<Rightarrow> Undefined | Some v \<Rightarrow> v)"
| "prop_of _ _ = Undefined"

text \<open>An object literal with spread optional properties,
  \<open>...(v === null ? {} : { k: v })\<close>: an absent one is left out.\<close>

definition opt_js :: "js option \<Rightarrow> js" where
  "opt_js v = (case v of None \<Rightarrow> Undefined | Some x \<Rightarrow> x)"

definition obj :: "(string \<times> js) list \<Rightarrow> js" where
  "obj ps = Obj (filter (\<lambda>(k, v). v \<noteq> Undefined) ps)"

lemma opt_js_simps [simp]: "opt_js None = Undefined" "opt_js (Some x) = x"
  by (simp_all add: opt_js_def)

lemma isRecord_obj [simp]: "isRecord (obj ps)"
  by (simp add: obj_def)

lemma obj_neq [simp]: "obj ps \<noteq> Undefined" "obj ps \<noteq> Null"
  by (simp_all add: obj_def)

lemma if_Undefined [simp]: "(if v = Undefined then Undefined else v) = v"
  by simp

lemma prop_of_obj [simp]:
  "prop_of (obj []) k = Undefined"
  "prop_of (obj ((k', v) # ps)) k = (if k = k' \<and> v \<noteq> Undefined then v else prop_of (obj ps) k)"
  by (simp_all add: obj_def)

section \<open>Thrown errors\<close>

datatype js_error = RangeError string | TypeError string | Error string

type_synonym 'a result = "js_error + 'a"

definition rbind :: "'a result \<Rightarrow> ('a \<Rightarrow> 'b result) \<Rightarrow> 'b result" where
  "rbind r f = (case r of Inl e \<Rightarrow> Inl e | Inr x \<Rightarrow> f x)"

lemma rbind_simps [simp]: "rbind (Inl e) f = Inl e" "rbind (Inr x) f = f x"
  by (simp_all add: rbind_def)

lemma rbind_Inr_iff: "rbind r f = Inr y \<longleftrightarrow> (\<exists>x. r = Inr x \<and> f x = Inr y)"
  by (cases r) simp_all

lemma map_sum_Inr_iff: "map_sum f g x = Inr y \<longleftrightarrow> (\<exists>z. x = Inr z \<and> y = g z)"
  by (cases x) auto

section \<open>Instants as numbers\<close>

text \<open>Comparisons of numbers that may be \<open>NaN\<close> are false when either side is.\<close>

fun ms_le :: "ms \<Rightarrow> ms \<Rightarrow> bool" where
  "ms_le (Some x) (Some y) = (x \<le> y)"
| "ms_le _ _ = False"

fun ms_lt :: "ms \<Rightarrow> ms \<Rightarrow> bool" where
  "ms_lt (Some x) (Some y) = (x < y)"
| "ms_lt _ _ = False"

lemma ms_le_iff: "ms_le a b \<longleftrightarrow> (\<exists>x y. a = Some x \<and> b = Some y \<and> x \<le> y)"
  by (cases a; cases b) simp_all

lemma ms_lt_iff: "ms_lt a b \<longleftrightarrow> (\<exists>x y. a = Some x \<and> b = Some y \<and> x < y)"
  by (cases a; cases b) simp_all

lemma ms_lt_trans: "ms_lt a b \<Longrightarrow> ms_lt b c \<Longrightarrow> ms_lt a c"
  by (auto simp: ms_lt_iff)

section \<open>Closed vocabularies\<close>

text \<open>
  Every enumeration of the source is a closed list of string literals, and reading one is a
  membership test (\<open>providerCodes.has(value)\<close>). The type of words is a datatype, \<open>code\<close> prints
  a word, \<open>decode\<close> is the membership test that returns the word.
\<close>

definition decode :: "('a \<Rightarrow> string) \<Rightarrow> 'a list \<Rightarrow> string \<Rightarrow> 'a option" where
  "decode code words s = find (\<lambda>w. code w = s) words"

locale vocabulary =
  fixes code :: "'a \<Rightarrow> string" and words :: "'a list"
  assumes code_inject: "code x = code y \<Longrightarrow> x = y"
    and words_complete: "x \<in> set words"
begin

lemma decode_code: "decode code words (code x) = Some x"
proof -
  have "decode code words (code x) \<noteq> None"
    using words_complete [of x] by (auto simp: decode_def find_None_iff)
  then obtain y where y: "decode code words (code x) = Some y" by blast
  then have "code y = code x"
    by (auto simp: decode_def find_Some_iff)
  with y show ?thesis using code_inject by blast
qed

lemma decode_eq_Some: "decode code words s = Some x \<longleftrightarrow> s = code x"
  using decode_code by (auto simp: decode_def find_Some_iff)

lemma decode_eq_None: "decode code words s = None \<longleftrightarrow> s \<notin> range code"
  using decode_eq_Some by (metis not_None_eq rangeE rangeI)

lemma code_eq_iff: "code x = code y \<longleftrightarrow> x = y"
  using code_inject by blast

end

text \<open>Reading a word out of an \<open>unknown\<close>: it has to be a string of the vocabulary.\<close>

definition read_word :: "('a \<Rightarrow> string) \<Rightarrow> 'a list \<Rightarrow> js \<Rightarrow> 'a option" where
  "read_word code words v = (case v of Str s \<Rightarrow> decode code words s | _ \<Rightarrow> None)"

lemma read_word_Str [simp]: "read_word code words (Str s) = decode code words s"
  by (simp add: read_word_def)

lemma read_word_not_Str [simp]:
  "read_word code words Undefined = None" "read_word code words Null = None"
  "read_word code words (Num n) = None" "read_word code words (Bool b) = None"
  "read_word code words (Arr xs) = None" "read_word code words (Obj ps) = None"
  by (simp_all add: read_word_def)

section \<open>Strings\<close>

definition is_digit :: "char \<Rightarrow> bool" where
  "is_digit c \<longleftrightarrow> CHR ''0'' \<le> c \<and> c \<le> CHR ''9''"

definition is_upper :: "char \<Rightarrow> bool" where
  "is_upper c \<longleftrightarrow> CHR ''A'' \<le> c \<and> c \<le> CHR ''Z''"

definition is_lower :: "char \<Rightarrow> bool" where
  "is_lower c \<longleftrightarrow> CHR ''a'' \<le> c \<and> c \<le> CHR ''z''"

definition startsWith :: "string \<Rightarrow> string \<Rightarrow> bool" where
  "startsWith s p \<longleftrightarrow> take (length p) s = p"

lemma startsWith_append [simp]: "startsWith (p @ s) p"
  by (simp add: startsWith_def)

text \<open>\<open>toUpperCase\<close> and \<open>toLowerCase\<close> on ASCII.\<close>

definition upper_char :: "char \<Rightarrow> char" where
  "upper_char c = (if is_lower c then char_of (of_char c - 32 :: nat) else c)"

definition lower_char :: "char \<Rightarrow> char" where
  "lower_char c = (if is_upper c then char_of (of_char c + 32 :: nat) else c)"

definition toUpperCase :: "string \<Rightarrow> string" where
  "toUpperCase s = map upper_char s"

definition toLowerCase :: "string \<Rightarrow> string" where
  "toLowerCase s = map lower_char s"

text \<open>Decimal digits of a non-negative integer: \<open>String(n)\<close>.\<close>

definition digit_char :: "nat \<Rightarrow> char" where
  "digit_char d = char_of (48 + d)"

fun show_nat :: "nat \<Rightarrow> string" where
  "show_nat n = (if n < 10 then [digit_char n] else show_nat (n div 10) @ [digit_char (n mod 10)])"

declare show_nat.simps [simp del]

lemma of_char_digit_char: "d < 10 \<Longrightarrow> (of_char (digit_char d) :: nat) = 48 + d"
  by (simp add: digit_char_def)

section \<open>The insertion-ordered Map\<close>

text \<open>
  A \<open>Map\<close> built by \<open>set\<close> keeps the position of a key it already holds and appends a new one:
  that is \<open>AList.update\<close>. \<open>values()\<close> lists the values in that order.
\<close>

definition map_values :: "('k \<times> 'v) list \<Rightarrow> 'v list" where
  "map_values m = map snd m"

definition keyed_by :: "('v \<Rightarrow> 'k) \<Rightarrow> ('k \<times> 'v) list \<Rightarrow> bool" where
  "keyed_by key m \<longleftrightarrow> distinct (map fst m) \<and> (\<forall>(k, v) \<in> set m. k = key v)"

lemma keyed_by_Nil [simp]: "keyed_by key []"
  by (simp add: keyed_by_def)

lemma set_alist_update: "set (AList.update k v m) \<subseteq> insert (k, v) (set m)"
  by (induction m) auto

lemma keyed_by_update: "keyed_by key m \<Longrightarrow> keyed_by key (AList.update (key v) v m)"
  using set_alist_update [of "key v" v m]
  by (fastforce simp: keyed_by_def distinct_update)

lemma keyed_by_lookup: "keyed_by key m \<Longrightarrow> map_of m k = Some v \<Longrightarrow> key v = k"
  by (auto simp: keyed_by_def dest!: map_of_SomeD)

lemma keyed_by_values: "keyed_by key m \<Longrightarrow> v \<in> set (map_values m) \<longleftrightarrow> map_of m (key v) = Some v"
  by (force simp: keyed_by_def map_values_def map_of_eq_Some_iff)

lemma keyed_by_distinct: "keyed_by key m \<Longrightarrow> distinct (map key (map_values m))"
proof -
  assume m: "keyed_by key m"
  then have "map key (map_values m) = map fst m"
    by (auto simp: keyed_by_def map_values_def)
  with m show ?thesis by (simp add: keyed_by_def)
qed

section \<open>Lists\<close>

lemma subseq_set: "subseq xs ys \<Longrightarrow> set xs \<subseteq> set ys"
  by (induction rule: list_emb.induct) auto

lemma subseq_distinct: "subseq xs ys \<Longrightarrow> distinct ys \<Longrightarrow> distinct xs"
proof (induction rule: list_emb.induct)
  case (list_emb_Cons2 x y xs ys)
  then show ?case using subseq_set [of xs ys] by auto
qed auto

lemma subseq_map_filter:
  "\<forall>x y. f x = Some y \<longrightarrow> g y = x \<Longrightarrow> subseq (map g (List.map_filter f xs)) xs"
  by (induction xs) (auto simp: List.map_filter_simps split: option.splits)

lemma set_map_filter: "set (List.map_filter f xs) = {y. \<exists>x \<in> set xs. f x = Some y}"
  by (force simp: List.map_filter_def)

lemma append_sep_inject:
  "a @ x # b = a' @ x # b' \<Longrightarrow> x \<notin> set a \<Longrightarrow> x \<notin> set a' \<Longrightarrow> a = a' \<and> b = b'"
proof (induction a arbitrary: a')
  case Nil
  then show ?case by (cases a') auto
next
  case (Cons y a)
  then show ?case by (cases a') auto
qed

lemma append_sep_inject_last:
  assumes "b @ x # c = b' @ x # c'" "x \<notin> set c" "x \<notin> set c'"
  shows "b = b' \<and> c = c'"
proof -
  have "rev c @ x # rev b = rev c' @ x # rev b'" using arg_cong [OF assms(1), of rev] by simp
  from append_sep_inject [OF this] assms(2,3) show ?thesis by simp
qed

end
