(* ===== verification/Dates.thy ===== *)
theory Dates
  imports Prelude "HOL-Library.Monad_Syntax"
begin

text \<open>
  The part of the JavaScript \<open>Date\<close> library the source uses: \<open>toISOString\<close> and \<open>Date.parse\<close>
  over the ECMAScript date time string format. Days are counted from 1970-01-01 with the
  \<open>DayFromYear\<close> arithmetic of the language specification; a time value outside
  \<open>\<plusminus>8.64e15\<close> milliseconds is no date, so printing it throws \<open>RangeError\<close>. A date time with
  no zone is read in UTC, and a string outside the specified format reads as \<open>NaN\<close> (the
  language leaves such strings to the implementation). The theory proves that parsing inverts
  printing, that a string is a canonical instant exactly when it is the printed form of a time,
  and that within four digit years the order of the strings is the order of the times.
\<close>

section \<open>Calendar arithmetic\<close>

definition day_from_year :: "int \<Rightarrow> int" where
  "day_from_year y = 365 * (y - 1970) + (y - 1969) div 4 - (y - 1901) div 100 + (y - 1601) div 400"

definition leap_year :: "int \<Rightarrow> bool" where
  "leap_year y \<longleftrightarrow> y mod 4 = 0 \<and> (y mod 100 \<noteq> 0 \<or> y mod 400 = 0)"

definition year_from_day :: "int \<Rightarrow> int" where
  "year_from_day d =
     (let y = 1970 + (400 * d) div 146097
      in if d < day_from_year y then y - 1
         else if day_from_year (y + 1) \<le> d then y + 1 else y)"

definition month_lengths :: "int \<Rightarrow> int list" where
  "month_lengths y = [31, if leap_year y then 29 else 28, 31, 30, 31, 30, 31, 31, 30, 31, 30, 31]"

text \<open>The month (counted from \<open>k\<close>) and the day of the month at a day of the year.\<close>

fun month_day :: "int list \<Rightarrow> int \<Rightarrow> nat \<Rightarrow> nat \<times> nat" where
  "month_day [] n k = (k, nat n + 1)"
| "month_day (l # ls) n k = (if n < l then (k, nat n + 1) else month_day ls (n - l) (Suc k))"

definition day_of_date :: "int \<Rightarrow> nat \<Rightarrow> nat \<Rightarrow> int" where
  "day_of_date y m d = day_from_year y + sum_list (take (m - 1) (month_lengths y)) + int d - 1"

lemma div_step:
  fixes x n :: int
  assumes "0 < n"
  shows "(x + 1) div n = x div n + (if n dvd x + 1 then 1 else 0)"
proof (cases "n dvd x + 1")
  case True
  then obtain k where "x + 1 = n * k" by blast
  then have x: "x = n * k - 1" by simp
  have "x div n = k - 1"
    using assms by (intro int_div_pos_eq [of _ _ _ "n - 1"]) (auto simp: x algebra_simps)
  with True assms \<open>x + 1 = n * k\<close> show ?thesis by simp
next
  case False
  then have "(x + 1) mod n \<noteq> 0" by (simp add: dvd_eq_mod_eq_0)
  then have "0 < (x + 1) mod n" "(x + 1) mod n < n"
    using assms by (simp_all add: order_le_neq_trans [OF pos_mod_sign])
  moreover have "x = n * ((x + 1) div n) + ((x + 1) mod n - 1)" by (simp add: algebra_simps)
  ultimately have "x div n = (x + 1) div n"
    by (intro int_div_pos_eq [of _ _ _ "(x + 1) mod n - 1"]) auto
  with False show ?thesis by simp
qed

lemma dvd_diff_iff_mod: "c dvd k \<Longrightarrow> c dvd y - k \<longleftrightarrow> y mod c = 0" for c k y :: int
  using dvd_add_left_iff [of c k "y - k"] by (metis diff_add_cancel mod_eq_0_iff_dvd)

lemma div_step_mod:
  fixes c k k' y :: int
  assumes "0 < c" "c dvd k" "k' = k + 1"
  shows "(y - k) div c = (y - k') div c + (if y mod c = 0 then 1 else 0)"
proof -
  have "y - k' + 1 = y - k" using assms(3) by simp
  with div_step [OF assms(1), of "y - k'"] show ?thesis
    by (simp only: dvd_diff_iff_mod [OF assms(2)])
qed

lemma day_from_year_step: "day_from_year (y + 1) = day_from_year y + (if leap_year y then 366 else 365)"
proof -
  have
    "(y - 1968) div 4 = (y - 1969) div 4 + (if y mod 4 = 0 then 1 else 0)"
    "(y - 1900) div 100 = (y - 1901) div 100 + (if y mod 100 = 0 then 1 else 0)"
    "(y - 1600) div 400 = (y - 1601) div 400 + (if y mod 400 = 0 then 1 else 0)"
    by (rule div_step_mod; simp)+
  moreover have "y mod 400 = 0 \<Longrightarrow> y mod 100 = 0"
    using mod_mod_cancel [of "100::int" 400 y] by auto
  moreover have "y mod 100 = 0 \<Longrightarrow> y mod 4 = 0"
    using mod_mod_cancel [of "4::int" 100 y] by auto
  moreover have "day_from_year (y + 1) =
    365 * (y - 1970) + 365 + (y - 1968) div 4 - (y - 1900) div 100 + (y - 1600) div 400"
    by (simp add: day_from_year_def)
  ultimately show ?thesis
    unfolding day_from_year_def [of y] leap_year_def
    by (cases "y mod 4 = 0"; cases "y mod 100 = 0"; cases "y mod 400 = 0")
      (simp_all only: if_True if_False simp_thms)
qed

lemma year_estimate_bounds:
  fixes d :: int
  defines "y \<equiv> 1970 + (400 * d) div 146097"
  shows "day_from_year (y - 1) \<le> d" and "d < day_from_year (y + 2)"
proof -
  define q where "q = (400 * d) div 146097"
  have "146097 * q \<le> 400 * d" "400 * d < 146097 * (q + 1)"
    unfolding q_def by simp_all
  note q = this
  have div_bounds: "c * (x div c) \<le> x \<and> x < c * (x div c) + c" if "0 < c" for x c :: int
    using that by (simp add: minus_mod_eq_mult_div [symmetric] pos_mod_bound)
  show "day_from_year (y - 1) \<le> d"
    using q div_bounds [of 4 "q"] div_bounds [of 100 "q + 68"] div_bounds [of 400 "q + 368"]
    unfolding y_def day_from_year_def q_def [symmetric] by simp
  show "d < day_from_year (y + 2)"
    using q div_bounds [of 4 "q + 3"] div_bounds [of 100 "q + 71"] div_bounds [of 400 "q + 371"]
    unfolding y_def day_from_year_def q_def [symmetric] by simp
qed

lemma year_from_day_spec:
  "day_from_year (year_from_day d) \<le> d" "d < day_from_year (year_from_day d + 1)"
  using year_estimate_bounds [of d] by (auto simp: year_from_day_def Let_def add.commute)

lemma day_from_year_mono: "y \<le> z \<Longrightarrow> day_from_year y \<le> day_from_year z"
proof (induction z rule: int_ge_induct)
  case base
  then show ?case by simp
next
  case (step i)
  then show ?case using day_from_year_step [of i] by (simp split: if_splits)
qed

lemma year_from_day_unique:
  assumes "day_from_year y \<le> d" "d < day_from_year (y + 1)"
  shows "year_from_day d = y"
proof (rule ccontr)
  assume "year_from_day d \<noteq> y"
  then have "year_from_day d + 1 \<le> y \<or> y + 1 \<le> year_from_day d" by linarith
  then show False
    using day_from_year_mono year_from_day_spec [of d] assms by (meson leD order_trans)
qed

lemma sum_month_lengths: "sum_list (month_lengths y) = (if leap_year y then 366 else 365)"
  by (simp add: month_lengths_def)

lemma month_day_spec:
  assumes "0 \<le> n" "n < sum_list ls" "month_day ls n k = (m, d)"
  shows "k \<le> m \<and> m < k + length ls \<and> 1 \<le> d \<and> int d \<le> ls ! (m - k) \<and>
    sum_list (take (m - k) ls) + int d - 1 = n"
  using assms
proof (induction ls arbitrary: n k)
  case Nil
  then show ?case by simp
next
  case (Cons l ls)
  show ?case
  proof (cases "n < l")
    case True
    with Cons.prems show ?thesis by auto
  next
    case False
    with Cons.prems Cons.IH [of "n - l" "Suc k"]
    have "Suc k \<le> m \<and> m < Suc k + length ls \<and> 1 \<le> d \<and> int d \<le> ls ! (m - Suc k) \<and>
      sum_list (take (m - Suc k) ls) + int d - 1 = n - l" by simp
    moreover from this have "m - k = Suc (m - Suc k)" by (simp add: Suc_diff_Suc)
    ultimately show ?thesis by simp
  qed
qed

lemma day_of_date_month_day:
  assumes "month_day (month_lengths y) (d - day_from_year y) 1 = (m, n)"
    and "day_from_year y \<le> d" "d < day_from_year (y + 1)"
  shows "1 \<le> m \<and> m \<le> 12 \<and> 1 \<le> n \<and> int n \<le> month_lengths y ! (m - 1) \<and> day_of_date y m n = d"
proof -
  have "d - day_from_year y < sum_list (month_lengths y)"
    using assms(3) by (simp add: sum_month_lengths day_from_year_step split: if_splits)
  with month_day_spec [OF _ this assms(1)] assms(2) show ?thesis
    by (auto simp: day_of_date_def) (simp add: month_lengths_def)
qed

lemma month_lengths_le: "m < 12 \<Longrightarrow> month_lengths y ! m \<le> 31"
  by (auto simp: month_lengths_def nth_Cons' split: if_splits)

section \<open>Fixed width numerals\<close>

fun pad :: "nat \<Rightarrow> nat \<Rightarrow> string" where
  "pad 0 n = []"
| "pad (Suc k) n = pad k (n div 10) @ [digit_char (n mod 10)]"

definition digit_value :: "char \<Rightarrow> nat" where
  "digit_value c = of_char c - 48"

definition number_of_digits :: "string \<Rightarrow> nat" where
  "number_of_digits s = foldl (\<lambda>a c. 10 * a + digit_value c) 0 s"

definition take_num :: "nat \<Rightarrow> string \<Rightarrow> (nat \<times> string) option" where
  "take_num k s =
     (if k \<le> length s \<and> list_all is_digit (take k s)
      then Some (number_of_digits (take k s), drop k s) else None)"

fun expect :: "char \<Rightarrow> string \<Rightarrow> string option" where
  "expect c [] = None"
| "expect c (x # xs) = (if x = c then Some xs else None)"

lemma is_digit_digit_char: "d < 10 \<Longrightarrow> is_digit (digit_char d)"
  by (simp add: is_digit_def less_eq_char_def of_char_digit_char)

lemma show_nat_digits: "list_all is_digit (show_nat n)"
proof (induction n rule: show_nat.induct)
  case (1 n)
  then show ?case by (subst show_nat.simps) (simp add: is_digit_digit_char)
qed

lemma digit_value_digit_char: "d < 10 \<Longrightarrow> digit_value (digit_char d) = d"
  by (simp add: digit_value_def of_char_digit_char)

lemma length_pad [simp]: "length (pad k n) = k"
  by (induction k arbitrary: n) auto

lemma pad_digits: "list_all is_digit (pad k n)"
  by (induction k arbitrary: n) (auto simp: is_digit_digit_char)

lemma number_of_digits_pad: "n < 10 ^ k \<Longrightarrow> number_of_digits (pad k n) = n"
proof (induction k arbitrary: n)
  case 0
  then show ?case by (simp add: number_of_digits_def)
next
  case (Suc k)
  from Suc.prems have "n div 10 < 10 ^ k" by (simp add: less_mult_imp_div_less mult.commute)
  from Suc.IH [OF this] show ?case
    by (simp add: number_of_digits_def digit_value_digit_char)
qed

lemma take_num_pad: "n < 10 ^ k \<Longrightarrow> take_num k (pad k n @ r) = Some (n, r)"
  by (simp add: take_num_def pad_digits number_of_digits_pad)

text \<open>Lexicographic order of equally long strings.\<close>

lemma less_append_iff:
  fixes xs :: "'a :: linorder list"
  assumes "length xs = length xs'"
  shows "xs @ ys < xs' @ ys' \<longleftrightarrow> xs < xs' \<or> xs = xs' \<and> ys < ys'"
  using assms by (induction xs xs' rule: list_induct2) auto

lemma digit_char_less_iff: "m < 10 \<Longrightarrow> n < 10 \<Longrightarrow> digit_char m < digit_char n \<longleftrightarrow> m < n"
  by (simp add: less_char_def of_char_digit_char)

lemma digit_char_eq_iff: "m < 10 \<Longrightarrow> n < 10 \<Longrightarrow> digit_char m = digit_char n \<longleftrightarrow> m = n"
  by (metis digit_value_digit_char)

lemma pad_eq_iff: "m < 10 ^ k \<Longrightarrow> n < 10 ^ k \<Longrightarrow> pad k m = pad k n \<longleftrightarrow> m = n"
  by (metis number_of_digits_pad)

lemma pad_less_iff: "m < 10 ^ k \<Longrightarrow> n < 10 ^ k \<Longrightarrow> pad k m < pad k n \<longleftrightarrow> m < n"
proof (induction k arbitrary: m n)
  case 0
  then show ?case by simp
next
  case (Suc k)
  from Suc.prems have b: "m div 10 < 10 ^ k" "n div 10 < 10 ^ k"
    by (simp_all add: less_mult_imp_div_less mult.commute)
  have "10 * a + b < 10 * c + d \<longleftrightarrow> a < c \<or> a = c \<and> b < d" if "b < 10" "d < 10" for a b c d :: nat
    using that by arith
  from this [of "m mod 10" "n mod 10" "m div 10" "n div 10"]
  have "m < n \<longleftrightarrow> m div 10 < n div 10 \<or> m div 10 = n div 10 \<and> m mod 10 < n mod 10" by simp
  with Suc.IH [OF b] pad_eq_iff [OF b] show ?case
    by (simp add: less_append_iff digit_char_less_iff)
qed

section \<open>Printing and parsing\<close>

text \<open>\<open>new Date(t).toISOString()\<close> for a time value in range; \<open>iso_text\<close> is the text, \<open>toISOString\<close>
  throws outside the range.\<close>

definition max_time :: int where
  "max_time = 8640000000000000"

definition show_year :: "int \<Rightarrow> string" where
  "show_year y =
     (if 0 \<le> y \<and> y \<le> 9999 then pad 4 (nat y)
      else (if y < 0 then CHR ''-'' else CHR ''+'') # pad 6 (nat \<bar>y\<bar>))"

definition show_time :: "int \<Rightarrow> string" where
  "show_time r =
     CHR ''T'' # pad 2 (nat (r div 3600000)) @ CHR '':'' # pad 2 (nat (r div 60000 mod 60)) @
     CHR '':'' # pad 2 (nat (r div 1000 mod 60)) @ CHR ''.'' # pad 3 (nat (r mod 1000)) @ ''Z''"

definition iso_text :: "int \<Rightarrow> string" where
  "iso_text t =
     (let d = t div 86400000; y = year_from_day d;
          (m, n) = month_day (month_lengths y) (d - day_from_year y) 1
      in show_year y @ CHR ''-'' # pad 2 m @ CHR ''-'' # pad 2 n @ show_time (t mod 86400000))"

definition toISOString :: "int \<Rightarrow> string result" where
  "toISOString t = (if \<bar>t\<bar> \<le> max_time then Inr (iso_text t) else Inl (RangeError ''Invalid time value''))"

definition parse_year :: "string \<Rightarrow> (int \<times> string) option" where
  "parse_year s =
     (case s of
        [] \<Rightarrow> None
      | c # r \<Rightarrow>
          if c = CHR ''+'' then map_option (map_prod int id) (take_num 6 r)
          else if c = CHR ''-'' then
            do { (y, r) \<leftarrow> take_num 6 r; if y = 0 then None else Some (- int y, r) }
          else map_option (map_prod int id) (take_num 4 s))"

text \<open>Month and day default to 1.\<close>

definition parse_field :: "char \<Rightarrow> nat \<Rightarrow> nat \<Rightarrow> string \<Rightarrow> (nat \<times> string) option" where
  "parse_field c k dflt s =
     (case s of
        [] \<Rightarrow> Some (dflt, [])
      | x # r \<Rightarrow> if x = c then take_num k r else Some (dflt, s))"

definition parse_zone :: "string \<Rightarrow> int option" where
  "parse_zone s =
     (case s of
        [] \<Rightarrow> Some 0
      | x # r \<Rightarrow>
          if x = CHR ''Z'' then (if r = [] then Some 0 else None)
          else if x = CHR ''+'' \<or> x = CHR ''-'' then
            do { (h, r) \<leftarrow> take_num 2 r; r \<leftarrow> expect CHR '':'' r; (i, r) \<leftarrow> take_num 2 r;
                 if r = [] \<and> h < 24 \<and> i < 60
                 then Some ((if x = CHR ''-'' then -1 else 1) * int (h * 60 + i) * 60000) else None }
          else None)"

text \<open>Milliseconds of the day minus the zone offset.\<close>

definition parse_time :: "string \<Rightarrow> int option" where
  "parse_time s =
     (if s = [] then Some 0 else
      do { r \<leftarrow> expect CHR ''T'' s; (h, r) \<leftarrow> take_num 2 r; r \<leftarrow> expect CHR '':'' r;
           (i, r) \<leftarrow> take_num 2 r; (sec, r) \<leftarrow> parse_field CHR '':'' 2 0 r;
           (f, r) \<leftarrow> parse_field CHR ''.'' 3 0 r; z \<leftarrow> parse_zone r;
           if i < 60 \<and> sec < 60 \<and> (h < 24 \<or> h = 24 \<and> i = 0 \<and> sec = 0 \<and> f = 0)
           then Some (int (((h * 60 + i) * 60 + sec) * 1000 + f) - z) else None })"

definition dateParse :: "string \<Rightarrow> ms" where
  "dateParse s =
     do { (y, r) \<leftarrow> parse_year s; (m, r) \<leftarrow> parse_field CHR ''-'' 2 1 r;
          (d, r) \<leftarrow> parse_field CHR ''-'' 2 1 r; t \<leftarrow> parse_time r;
          if 1 \<le> m \<and> m \<le> 12 \<and> 1 \<le> d \<and> int d \<le> month_lengths y ! (m - 1)
          then (let v = day_of_date y m d * 86400000 + t in if \<bar>v\<bar> \<le> max_time then Some v else None)
          else None }"

section \<open>Parsing inverts printing\<close>

lemma pad_Cons: "\<exists>c cs. pad (Suc k) n = c # cs \<and> is_digit c"
  using pad_digits [of "Suc k" n] length_pad [of "Suc k" n] by (cases "pad (Suc k) n") (simp_all del: pad.simps)

lemma is_digit_not_sign: "is_digit c \<Longrightarrow> c \<noteq> CHR ''+'' \<and> c \<noteq> CHR ''-''"
  by (auto simp: is_digit_def less_eq_char_def)

lemma parse_year_show_year: "\<bar>y\<bar> < 1000000 \<Longrightarrow> parse_year (show_year y @ r) = Some (y, r)"
proof (cases "0 \<le> y \<and> y \<le> 9999")
  case True
  obtain c cs where c: "pad 4 (nat y) = c # cs" "is_digit c"
    using pad_Cons [of 3 "nat y"] by auto
  from True have "take_num 4 (pad 4 (nat y) @ r) = Some (nat y, r)" by (intro take_num_pad) auto
  with True c is_digit_not_sign [of c] show ?thesis
    by (simp add: parse_year_def show_year_def)
next
  case False
  assume "\<bar>y\<bar> < 1000000"
  then have "take_num 6 (pad 6 (nat \<bar>y\<bar>) @ r) = Some (nat \<bar>y\<bar>, r)" by (intro take_num_pad) auto
  with False show ?thesis
    by (auto simp: parse_year_def show_year_def)
qed

lemma parse_field_pad: "n < 10 ^ k \<Longrightarrow> parse_field c k dflt (c # pad k n @ r) = Some (n, r)"
  by (simp add: parse_field_def take_num_pad)

lemma time_fields:
  fixes r :: int
  shows "((r div 3600000 * 60 + r div 60000 mod 60) * 60 + r div 1000 mod 60) * 1000 + r mod 1000 = r"
proof -
  have "r div 3600000 = r div 1000 div 60 div 60" "r div 60000 = r div 1000 div 60"
    using zdiv_zmult2_eq [of 3600 r 1000] zdiv_zmult2_eq [of 60 "r div 1000" 60]
      zdiv_zmult2_eq [of 60 r 1000] by simp_all
  then show ?thesis by (simp only: div_mult_mod_eq)
qed

lemma parse_time_fields:
  assumes "h < 24" "i < 60" "sec < 60" "f < 1000"
  shows "parse_time (CHR ''T'' # pad 2 h @ CHR '':'' # pad 2 i @ CHR '':'' # pad 2 sec @
    CHR ''.'' # pad 3 f @ ''Z'') = Some (int (((h * 60 + i) * 60 + sec) * 1000 + f))"
proof -
  have "h < 10 ^ 2" "i < 10 ^ 2" "sec < 10 ^ 2" "f < 10 ^ 3" using assms by simp_all
  with assms show ?thesis
    by (simp add: parse_time_def take_num_pad parse_field_pad parse_zone_def)
qed

lemma parse_time_show_time:
  assumes "0 \<le> r" "r < 86400000"
  shows "parse_time (show_time r) = Some r"
proof -
  have "nat (r div 3600000) < 24" "nat (r div 60000 mod 60) < 60" "nat (r div 1000 mod 60) < 60"
    "nat (r mod 1000) < 1000"
    using assms by (simp_all add: nat_less_iff)
  note t = parse_time_fields [OF this]
  have nonneg: "0 \<le> r div 3600000" "0 \<le> r div 60000 mod 60" "0 \<le> r div 1000 mod 60" "0 \<le> r mod 1000"
    using assms by (simp_all add: pos_imp_zdiv_nonneg_iff)
  have "int (((nat (r div 3600000) * 60 + nat (r div 60000 mod 60)) * 60 +
      nat (r div 1000 mod 60)) * 1000 + nat (r mod 1000)) = r"
    by (simp only: of_nat_add of_nat_mult int_nat_eq nonneg if_True of_nat_numeral time_fields)
  with t show ?thesis by (simp only: show_time_def)
qed

lemma year_range:
  assumes "\<bar>t\<bar> \<le> max_time"
  shows "\<bar>year_from_day (t div 86400000)\<bar> < 1000000"
proof -
  let ?d = "t div 86400000"
  let ?y = "year_from_day ?d"
  have d: "-100000000 \<le> ?d" "?d \<le> 100000000"
    using assms by (auto simp: max_time_def)
  have "\<not> 1000000 \<le> ?y"
    using day_from_year_mono [of 1000000 ?y] year_from_day_spec(1) [of ?d] d
    by (auto simp: day_from_year_def [of 1000000])
  moreover have "\<not> ?y \<le> -1000000"
    using day_from_year_mono [of "?y + 1" "-999999"] year_from_day_spec(2) [of ?d] d
    by (auto simp: day_from_year_def [of "-999999"])
  ultimately show ?thesis by simp
qed

text \<open>The printed date of a day, and what its parts are.\<close>

lemma date_parts:
  obtains y m n where
    "y = year_from_day (t div 86400000)"
    "iso_text t = show_year y @ CHR ''-'' # pad 2 m @ CHR ''-'' # pad 2 n @ show_time (t mod 86400000)"
    "1 \<le> m" "m \<le> 12" "1 \<le> n" "int n \<le> month_lengths y ! (m - 1)" "n < 32"
    "day_of_date y m n = t div 86400000"
proof -
  let ?y = "year_from_day (t div 86400000)"
  obtain m n where md: "month_day (month_lengths ?y) (t div 86400000 - day_from_year ?y) 1 = (m, n)"
    by (cases "month_day (month_lengths ?y) (t div 86400000 - day_from_year ?y) 1")
  note d = day_of_date_month_day [OF md year_from_day_spec]
  then have "m - 1 < 12" "int n \<le> month_lengths ?y ! (m - 1)" by auto
  with month_lengths_le [of "m - 1" ?y] have "int n \<le> 31" by linarith
  with d md show thesis by (intro that [of ?y m n]) (auto simp: iso_text_def Let_def)
qed

theorem dateParse_iso_text:
  assumes "\<bar>t\<bar> \<le> max_time"
  shows "dateParse (iso_text t) = Some t"
proof -
  obtain y m n where p: "y = year_from_day (t div 86400000)"
    "iso_text t = show_year y @ CHR ''-'' # pad 2 m @ CHR ''-'' # pad 2 n @ show_time (t mod 86400000)"
    "1 \<le> m" "m \<le> 12" "1 \<le> n" "int n \<le> month_lengths y ! (m - 1)" "n < 32"
    "day_of_date y m n = t div 86400000"
    by (rule date_parts)
  have "n < 10 ^ 2" "m < 10 ^ 2" using p by simp_all
  note fields = parse_field_pad [OF this(1)] parse_field_pad [OF this(2)]
  have "t div 86400000 * 86400000 + t mod 86400000 = t" by simp
  with p assms year_range [OF assms] show ?thesis
    by (simp add: dateParse_def parse_year_show_year fields parse_time_show_time)
qed

lemma iso_text_inject: "\<bar>s\<bar> \<le> max_time \<Longrightarrow> \<bar>t\<bar> \<le> max_time \<Longrightarrow> iso_text s = iso_text t \<longleftrightarrow> s = t"
  by (metis dateParse_iso_text option.inject)

section \<open>Canonical instants\<close>

text \<open>\<open>isIsoInstant\<close> of normalizer.ts and cadence.ts: a string that parses and prints back to
  itself.\<close>

definition isIsoInstant :: "js \<Rightarrow> bool" where
  "isIsoInstant v =
     (case v of
        Str s \<Rightarrow> (case dateParse s of None \<Rightarrow> False | Some t \<Rightarrow> toISOString t = Inr s)
      | _ \<Rightarrow> False)"

definition iso_instant :: "string \<Rightarrow> bool" where
  "iso_instant s \<longleftrightarrow> isIsoInstant (Str s)"

lemma dateParse_range: "dateParse s = Some t \<Longrightarrow> \<bar>t\<bar> \<le> max_time"
  by (auto simp: dateParse_def Let_def bind_eq_Some_conv split: prod.splits if_splits)

lemma isIsoInstant_iff: "isIsoInstant v \<longleftrightarrow> (\<exists>t. \<bar>t\<bar> \<le> max_time \<and> v = Str (iso_text t))"
proof (cases v)
  case (Str s)
  then show ?thesis
    by (auto simp: isIsoInstant_def toISOString_def dateParse_iso_text dest: dateParse_range
        split: option.splits)
qed (auto simp: isIsoInstant_def)

lemma iso_instantE:
  assumes "iso_instant s"
  obtains t where "\<bar>t\<bar> \<le> max_time" "s = iso_text t" "dateParse s = Some t"
  using assms by (auto simp: iso_instant_def isIsoInstant_iff dateParse_iso_text)

section \<open>The order of canonical instants\<close>

lemma month_prefix_mono:
  assumes "i \<le> j"
  shows "sum_list (take i (month_lengths y)) \<le> sum_list (take j (month_lengths y))"
proof -
  have "0 \<le> x" if "x \<in> set (month_lengths y)" for x
    using that by (auto simp: month_lengths_def split: if_splits)
  then have "0 \<le> sum_list (drop i (take j (month_lengths y)))"
    by (intro sum_list_nonneg) (meson in_set_dropD in_set_takeD)
  moreover have "take i (month_lengths y) @ drop i (take j (month_lengths y)) = take j (month_lengths y)"
    using append_take_drop_id [of i "take j (month_lengths y)"] assms by (simp add: min_absorb1)
  then have "sum_list (take j (month_lengths y)) =
    sum_list (take i (month_lengths y)) + sum_list (drop i (take j (month_lengths y)))"
    by (metis sum_list_append)
  ultimately show ?thesis by simp
qed

lemma day_of_date_less:
  assumes "1 \<le> m" "m < m'" "m' \<le> 12" "int n \<le> month_lengths y ! (m - 1)" "1 \<le> n'"
  shows "day_of_date y m n < day_of_date y m' n'"
proof -
  have "m - 1 < length (month_lengths y)" using assms by (simp add: month_lengths_def)
  from take_Suc_conv_app_nth [OF this] assms(1)
  have "sum_list (take m (month_lengths y)) = sum_list (take (m - 1) (month_lengths y)) + month_lengths y ! (m - 1)"
    by simp
  moreover have "sum_list (take m (month_lengths y)) \<le> sum_list (take (m' - 1) (month_lengths y))"
    using assms by (intro month_prefix_mono) simp
  ultimately show ?thesis using assms by (simp add: day_of_date_def)
qed

lemma div_mod_less_iff:
  fixes r r' k :: int
  assumes "0 < k"
  shows "r < r' \<longleftrightarrow> r div k < r' div k \<or> r div k = r' div k \<and> r mod k < r' mod k"
proof -
  have "r < r'" if "r div k < r' div k"
    using that zdiv_mono1 [of r' r k] assms by force
  moreover have "r div k \<le> r' div k" if "r < r'" using that assms zdiv_mono1 [of r r' k] by simp
  moreover have "r < r' \<longleftrightarrow> r mod k < r' mod k" if "r div k = r' div k"
    using that div_mult_mod_eq [of r k] div_mult_mod_eq [of r' k] by (metis add_less_cancel_left)
  ultimately show ?thesis by (metis less_le)
qed

lemma pad_nat_less_iff:
  "0 \<le> a \<Longrightarrow> a < 10 ^ k \<Longrightarrow> 0 \<le> b \<Longrightarrow> b < 10 ^ k \<Longrightarrow> pad k (nat a) < pad k (nat b) \<longleftrightarrow> a < b"
  "0 \<le> a \<Longrightarrow> a < 10 ^ k \<Longrightarrow> 0 \<le> b \<Longrightarrow> b < 10 ^ k \<Longrightarrow> pad k (nat a) = pad k (nat b) \<longleftrightarrow> a = b"
  by (auto simp: pad_less_iff pad_eq_iff nat_less_iff nat_eq_iff zless_nat_conj)

lemma show_time_less_iff:
  assumes "0 \<le> r" "r < 86400000" "0 \<le> r'" "r' < 86400000"
  shows "show_time r < show_time r' \<longleftrightarrow> r < r'"
proof -
  have q: "x div 3600000 = x div 1000 div 60 div 60" "x div 60000 = x div 1000 div 60" for x :: int
    using zdiv_zmult2_eq [of 3600 x 1000] zdiv_zmult2_eq [of 60 "x div 1000" 60]
      zdiv_zmult2_eq [of 60 x 1000] by simp_all
  have h: "x div 3600000 < 10 ^ 2" "0 \<le> x div 3600000" if "0 \<le> x" "x < 86400000" for x :: int
    using that by (simp_all add: pos_imp_zdiv_nonneg_iff)
  have m: "x mod 60 < 10 ^ 2" "0 \<le> x mod 60" "x mod 1000 < 10 ^ 3" "0 \<le> x mod 1000" for x :: int
    by (simp_all add: order.strict_trans [OF pos_mod_bound])
  have "r < r' \<longleftrightarrow> r div 3600000 < r' div 3600000 \<or> r div 3600000 = r' div 3600000 \<and>
      (r div 60000 mod 60 < r' div 60000 mod 60 \<or> r div 60000 mod 60 = r' div 60000 mod 60 \<and>
      (r div 1000 mod 60 < r' div 1000 mod 60 \<or> r div 1000 mod 60 = r' div 1000 mod 60 \<and>
      r mod 1000 < r' mod 1000))"
    unfolding q div_mod_less_iff [of 1000 r, simplified] div_mod_less_iff [of 60 "r div 1000", simplified]
      div_mod_less_iff [of 60 "r div 1000 div 60", simplified]
    by (metis div_mult_mod_eq)
  then show ?thesis
    unfolding show_time_def Cons_less_Cons
    by (simp only: less_append_iff length_pad Cons_less_Cons pad_nat_less_iff h m assms
        append_eq_append_conv list.inject less_irrefl simp_thms)
qed

text \<open>The years 0 to 9999, whose printed form has four digits and no sign.\<close>

definition four_digit_time :: "int \<Rightarrow> bool" where
  "four_digit_time t \<longleftrightarrow> -62167219200000 \<le> t \<and> t \<le> 253402300799999"

lemma four_digit_year:
  assumes "four_digit_time t"
  shows "0 \<le> year_from_day (t div 86400000)" "year_from_day (t div 86400000) \<le> 9999"
proof -
  let ?d = "t div 86400000"
  have d: "-719528 \<le> ?d" "?d \<le> 2932896" using assms by (auto simp: four_digit_time_def)
  show "0 \<le> year_from_day ?d"
    using day_from_year_mono [of "year_from_day ?d + 1" 0] year_from_day_spec(2) [of ?d] d
    by (cases "year_from_day ?d + 1 \<le> 0") (simp_all add: day_from_year_def [of 0])
  show "year_from_day ?d \<le> 9999"
    using day_from_year_mono [of 10000 "year_from_day ?d"] year_from_day_spec(1) [of ?d] d
    by (cases "10000 \<le> year_from_day ?d") (simp_all add: day_from_year_def [of 10000])
qed

lemma iso_text_mono:
  assumes "four_digit_time s" "four_digit_time t" "s < t"
  shows "iso_text s < iso_text t"
proof -
  obtain y m n where p: "y = year_from_day (s div 86400000)"
    "iso_text s = show_year y @ CHR ''-'' # pad 2 m @ CHR ''-'' # pad 2 n @ show_time (s mod 86400000)"
    "1 \<le> m" "m \<le> 12" "1 \<le> n" "int n \<le> month_lengths y ! (m - 1)" "n < 32"
    "day_of_date y m n = s div 86400000"
    by (rule date_parts)
  obtain y' m' n' where p': "y' = year_from_day (t div 86400000)"
    "iso_text t = show_year y' @ CHR ''-'' # pad 2 m' @ CHR ''-'' # pad 2 n' @ show_time (t mod 86400000)"
    "1 \<le> m'" "m' \<le> 12" "1 \<le> n'" "int n' \<le> month_lengths y' ! (m' - 1)" "n' < 32"
    "day_of_date y' m' n' = t div 86400000"
    by (rule date_parts)
  have y: "0 \<le> y" "y < 10 ^ 4" "0 \<le> y'" "y' < 10 ^ 4"
    using four_digit_year [OF assms(1)] four_digit_year [OF assms(2)] p(1) p'(1) by simp_all
  have b: "m < 10 ^ 2" "n < 10 ^ 2" "m' < 10 ^ 2" "n' < 10 ^ 2" using p p' by simp_all
  have show_y: "show_year y = pad 4 (nat y)" "show_year y' = pad 4 (nat y')"
    using y by (simp_all add: show_year_def)
  have less: "iso_text s < iso_text t \<longleftrightarrow> y < y' \<or> y = y' \<and> (m < m' \<or> m = m' \<and> (n < n' \<or>
      n = n' \<and> s mod 86400000 < t mod 86400000))"
    unfolding p(2) p'(2) show_y
    by (simp only: less_append_iff length_pad Cons_less_Cons pad_nat_less_iff y pad_less_iff pad_eq_iff b
        show_time_less_iff pos_mod_bound pos_mod_sign zero_less_numeral list.inject less_irrefl simp_thms)
  have "y \<le> y'"
    using assms(3) day_from_year_mono [of "y' + 1" y] year_from_day_spec [of "s div 86400000"]
      year_from_day_spec [of "t div 86400000"] zdiv_mono1 [of s t 86400000] p(1) p'(1)
    by force
  moreover have "m \<le> m' \<and> (m = m' \<longrightarrow> n \<le> n')" if "y = y'"
    using that day_of_date_less [of m' m n' y n] p p' zdiv_mono1 [of s t 86400000] assms(3)
    by (auto simp: not_less [symmetric] day_of_date_def)
  moreover have "s mod 86400000 < t mod 86400000" if "y = y'" "m = m'" "n = n'"
    using that p(8) p'(8) assms(3) div_mod_less_iff [of 86400000 s t] by simp
  ultimately show ?thesis unfolding less by (metis le_less)
qed

theorem iso_text_less_iff:
  assumes "four_digit_time s" "four_digit_time t"
  shows "iso_text s < iso_text t \<longleftrightarrow> s < t"
  using iso_text_mono assms by (metis less_asym not_less_iff_gr_or_eq)

section \<open>Evaluation on literals\<close>

text \<open>
  With \<open>bind_weak_cong\<close> the simplifier runs a parser step by step, and with the equations of
  \<open>date_eval\<close> it computes \<open>dateParse\<close> and \<open>iso_text\<close> on a literal.
\<close>

lemma bind_weak_cong: "x = y \<Longrightarrow> Option.bind x f = Option.bind y f"
  by simp

lemma pad_numeral: "pad (numeral k) n = pad (pred_numeral k) (n div 10) @ [digit_char (n mod 10)]"
  by (simp only: numeral_eq_Suc pad.simps)

lemma digit_char_simps:
  "digit_char 0 = CHR ''0''" "digit_char 1 = CHR ''1''" "digit_char (Suc 0) = CHR ''1''"
  "digit_char 2 = CHR ''2''" "digit_char 3 = CHR ''3''" "digit_char 4 = CHR ''4''"
  "digit_char 5 = CHR ''5''" "digit_char 6 = CHR ''6''" "digit_char 7 = CHR ''7''"
  "digit_char 8 = CHR ''8''" "digit_char 9 = CHR ''9''"
  by (simp_all add: digit_char_def char_of_eq_iff)

lemmas date_eval =
  dateParse_def parse_year_def take_num_def is_digit_def less_eq_char_def number_of_digits_def
  digit_value_def parse_field_def parse_time_def parse_zone_def month_lengths_def leap_year_def
  day_of_date_def day_from_year_def max_time_def isIsoInstant_def toISOString_def iso_text_def
  year_from_day_def show_year_def show_time_def pad_numeral digit_char_simps

end
