(* ===== verification/Types.thy ===== *)
theory Types
  imports Prelude Dates
begin

text \<open>
  The data of packages/core/src/types.ts (and the availability vocabulary of
  connection-state.ts): every union of string literals is a datatype with its printed form and
  an interpretation of the locale \<open>vocabulary\<close>, every interface a record. A \<open>Snapshot\<close> is
  built by normalizeMeter (or as the seed row of the cache), so its numeric fields are finite;
  they are rationals here. \<open>snapshot_js\<close> is a snapshot seen again as an \<open>unknown\<close>, which is
  how the cache revalidates and stores rows.
\<close>

section \<open>Closed vocabularies\<close>

datatype provider_code =
    CLAUDE | OPENROUTER | CODEX | ANTIGRAVITY
  | GEMINI_CLI | OPENCODE | GROK | KIMI
  | CURSOR | MANUAL

fun provider_str :: "provider_code \<Rightarrow> string" where
  "provider_str CLAUDE = ''CLAUDE''"
| "provider_str OPENROUTER = ''OPENROUTER''"
| "provider_str CODEX = ''CODEX''"
| "provider_str ANTIGRAVITY = ''ANTIGRAVITY''"
| "provider_str GEMINI_CLI = ''GEMINI_CLI''"
| "provider_str OPENCODE = ''OPENCODE''"
| "provider_str GROK = ''GROK''"
| "provider_str KIMI = ''KIMI''"
| "provider_str CURSOR = ''CURSOR''"
| "provider_str MANUAL = ''MANUAL''"

definition PROVIDER_CODES :: "provider_code list" where
  "PROVIDER_CODES =
     [CLAUDE, OPENROUTER, CODEX, ANTIGRAVITY, GEMINI_CLI,
      OPENCODE, GROK, KIMI, CURSOR, MANUAL]"

interpretation provider_code_words: vocabulary provider_str PROVIDER_CODES
proof unfold_locales
  show "provider_str x = provider_str y \<Longrightarrow> x = y" for x y by (cases x; cases y) simp_all
  show "x \<in> set PROVIDER_CODES" for x by (cases x) (simp_all add: PROVIDER_CODES_def)
qed

datatype snapshot_unit =
    PERCENT | CREDITS | TOKENS | REQUESTS

fun unit_str :: "snapshot_unit \<Rightarrow> string" where
  "unit_str PERCENT = ''PERCENT''"
| "unit_str CREDITS = ''CREDITS''"
| "unit_str TOKENS = ''TOKENS''"
| "unit_str REQUESTS = ''REQUESTS''"

definition SNAPSHOT_UNITS :: "snapshot_unit list" where
  "SNAPSHOT_UNITS =
     [PERCENT, CREDITS, TOKENS, REQUESTS]"

interpretation snapshot_unit_words: vocabulary unit_str SNAPSHOT_UNITS
proof unfold_locales
  show "unit_str x = unit_str y \<Longrightarrow> x = y" for x y by (cases x; cases y) simp_all
  show "x \<in> set SNAPSHOT_UNITS" for x by (cases x) (simp_all add: SNAPSHOT_UNITS_def)
qed

datatype snapshot_precision =
    Exact | Estimated | ManualPrecision

fun precision_str :: "snapshot_precision \<Rightarrow> string" where
  "precision_str Exact = ''exact''"
| "precision_str Estimated = ''estimated''"
| "precision_str ManualPrecision = ''manual''"

definition SNAPSHOT_PRECISIONS :: "snapshot_precision list" where
  "SNAPSHOT_PRECISIONS =
     [Exact, Estimated, ManualPrecision]"

interpretation snapshot_precision_words: vocabulary precision_str SNAPSHOT_PRECISIONS
proof unfold_locales
  show "precision_str x = precision_str y \<Longrightarrow> x = y" for x y by (cases x; cases y) simp_all
  show "x \<in> set SNAPSHOT_PRECISIONS" for x by (cases x) (simp_all add: SNAPSHOT_PRECISIONS_def)
qed

datatype snapshot_source =
    NativePayload | DocumentedApi | InternalPayload | AuthenticatedPage
  | ManualEntry

fun source_str :: "snapshot_source \<Rightarrow> string" where
  "source_str NativePayload = ''native_payload''"
| "source_str DocumentedApi = ''documented_api''"
| "source_str InternalPayload = ''internal_payload''"
| "source_str AuthenticatedPage = ''authenticated_page''"
| "source_str ManualEntry = ''manual_entry''"

definition SNAPSHOT_SOURCES :: "snapshot_source list" where
  "SNAPSHOT_SOURCES =
     [NativePayload, DocumentedApi, InternalPayload, AuthenticatedPage, ManualEntry]"

interpretation snapshot_source_words: vocabulary source_str SNAPSHOT_SOURCES
proof unfold_locales
  show "source_str x = source_str y \<Longrightarrow> x = y" for x y by (cases x; cases y) simp_all
  show "x \<in> set SNAPSHOT_SOURCES" for x by (cases x) (simp_all add: SNAPSHOT_SOURCES_def)
qed

datatype window_kind =
    Rolling | Fixed | Lifetime | UnknownWindow

fun window_kind_str :: "window_kind \<Rightarrow> string" where
  "window_kind_str Rolling = ''rolling''"
| "window_kind_str Fixed = ''fixed''"
| "window_kind_str Lifetime = ''lifetime''"
| "window_kind_str UnknownWindow = ''unknown''"

definition WINDOW_KINDS :: "window_kind list" where
  "WINDOW_KINDS =
     [Rolling, Fixed, Lifetime, UnknownWindow]"

interpretation window_kind_words: vocabulary window_kind_str WINDOW_KINDS
proof unfold_locales
  show "window_kind_str x = window_kind_str y \<Longrightarrow> x = y" for x y by (cases x; cases y) simp_all
  show "x \<in> set WINDOW_KINDS" for x by (cases x) (simp_all add: WINDOW_KINDS_def)
qed

datatype snapshot_currency =
    USD | CNY

fun currency_str :: "snapshot_currency \<Rightarrow> string" where
  "currency_str USD = ''USD''"
| "currency_str CNY = ''CNY''"

definition SNAPSHOT_CURRENCIES :: "snapshot_currency list" where
  "SNAPSHOT_CURRENCIES =
     [USD, CNY]"

interpretation snapshot_currency_words: vocabulary currency_str SNAPSHOT_CURRENCIES
proof unfold_locales
  show "currency_str x = currency_str y \<Longrightarrow> x = y" for x y by (cases x; cases y) simp_all
  show "x \<in> set SNAPSHOT_CURRENCIES" for x by (cases x) (simp_all add: SNAPSHOT_CURRENCIES_def)
qed

datatype snapshot_kind =
    QuotaPercent | MoneyBalance | Spend | TokenCount
  | RuntimeInfo

fun kind_str :: "snapshot_kind \<Rightarrow> string" where
  "kind_str QuotaPercent = ''quota_percent''"
| "kind_str MoneyBalance = ''money_balance''"
| "kind_str Spend = ''spend''"
| "kind_str TokenCount = ''token_count''"
| "kind_str RuntimeInfo = ''runtime_info''"

definition SNAPSHOT_KINDS :: "snapshot_kind list" where
  "SNAPSHOT_KINDS =
     [QuotaPercent, MoneyBalance, Spend, TokenCount, RuntimeInfo]"

interpretation snapshot_kind_words: vocabulary kind_str SNAPSHOT_KINDS
proof unfold_locales
  show "kind_str x = kind_str y \<Longrightarrow> x = y" for x y by (cases x; cases y) simp_all
  show "x \<in> set SNAPSHOT_KINDS" for x by (cases x) (simp_all add: SNAPSHOT_KINDS_def)
qed

datatype connector_verification =
    UNVERIFIED | VERIFIED_FIXTURES | VERIFIED_LIVE

fun verification_str :: "connector_verification \<Rightarrow> string" where
  "verification_str UNVERIFIED = ''UNVERIFIED''"
| "verification_str VERIFIED_FIXTURES = ''VERIFIED_FIXTURES''"
| "verification_str VERIFIED_LIVE = ''VERIFIED_LIVE''"

definition CONNECTOR_VERIFICATIONS :: "connector_verification list" where
  "CONNECTOR_VERIFICATIONS =
     [UNVERIFIED, VERIFIED_FIXTURES, VERIFIED_LIVE]"

interpretation connector_verification_words: vocabulary verification_str CONNECTOR_VERIFICATIONS
proof unfold_locales
  show "verification_str x = verification_str y \<Longrightarrow> x = y" for x y by (cases x; cases y) simp_all
  show "x \<in> set CONNECTOR_VERIFICATIONS" for x by (cases x) (simp_all add: CONNECTOR_VERIFICATIONS_def)
qed

datatype snapshot_source_kind =
    StatuslinePayload | ExplicitIngest | ManualDocument | RemoteApi
  | UnknownSourceKind

fun source_kind_str :: "snapshot_source_kind \<Rightarrow> string" where
  "source_kind_str StatuslinePayload = ''statusline_payload''"
| "source_kind_str ExplicitIngest = ''explicit_ingest''"
| "source_kind_str ManualDocument = ''manual_document''"
| "source_kind_str RemoteApi = ''remote_api''"
| "source_kind_str UnknownSourceKind = ''unknown''"

definition SNAPSHOT_SOURCE_KINDS :: "snapshot_source_kind list" where
  "SNAPSHOT_SOURCE_KINDS =
     [StatuslinePayload, ExplicitIngest, ManualDocument, RemoteApi, UnknownSourceKind]"

interpretation snapshot_source_kind_words: vocabulary source_kind_str SNAPSHOT_SOURCE_KINDS
proof unfold_locales
  show "source_kind_str x = source_kind_str y \<Longrightarrow> x = y" for x y by (cases x; cases y) simp_all
  show "x \<in> set SNAPSHOT_SOURCE_KINDS" for x by (cases x) (simp_all add: SNAPSHOT_SOURCE_KINDS_def)
qed

datatype snapshot_observed_via =
    ClaudeCodeStatusline | AntigravityCliStatusline | IngestCommand | ManualJson
  | LocalEvent | LocalFile | LocalCommand | RemoteHttp
  | UserEntry | UnknownVia

fun observed_via_str :: "snapshot_observed_via \<Rightarrow> string" where
  "observed_via_str ClaudeCodeStatusline = ''claude_code_statusline''"
| "observed_via_str AntigravityCliStatusline = ''antigravity_cli_statusline''"
| "observed_via_str IngestCommand = ''ingest_command''"
| "observed_via_str ManualJson = ''manual_json''"
| "observed_via_str LocalEvent = ''local_event''"
| "observed_via_str LocalFile = ''local_file''"
| "observed_via_str LocalCommand = ''local_command''"
| "observed_via_str RemoteHttp = ''remote_http''"
| "observed_via_str UserEntry = ''user_entry''"
| "observed_via_str UnknownVia = ''unknown''"

definition SNAPSHOT_OBSERVED_VIA :: "snapshot_observed_via list" where
  "SNAPSHOT_OBSERVED_VIA =
     [ClaudeCodeStatusline, AntigravityCliStatusline, IngestCommand, ManualJson, LocalEvent,
      LocalFile, LocalCommand, RemoteHttp, UserEntry, UnknownVia]"

interpretation snapshot_observed_via_words: vocabulary observed_via_str SNAPSHOT_OBSERVED_VIA
proof unfold_locales
  show "observed_via_str x = observed_via_str y \<Longrightarrow> x = y" for x y by (cases x; cases y) simp_all
  show "x \<in> set SNAPSHOT_OBSERVED_VIA" for x by (cases x) (simp_all add: SNAPSHOT_OBSERVED_VIA_def)
qed

datatype snapshot_writer =
    Desktop | Cli

fun writer_str :: "snapshot_writer \<Rightarrow> string" where
  "writer_str Desktop = ''desktop''"
| "writer_str Cli = ''cli''"

definition SNAPSHOT_WRITERS :: "snapshot_writer list" where
  "SNAPSHOT_WRITERS =
     [Desktop, Cli]"

interpretation snapshot_writer_words: vocabulary writer_str SNAPSHOT_WRITERS
proof unfold_locales
  show "writer_str x = writer_str y \<Longrightarrow> x = y" for x y by (cases x; cases y) simp_all
  show "x \<in> set SNAPSHOT_WRITERS" for x by (cases x) (simp_all add: SNAPSHOT_WRITERS_def)
qed

text \<open>The three unions of \<open>ConnectorLabels\<close>.\<close>

datatype credential_origin =
    OfficialLocalTool | UserKey | BrowserSession | UserEntered

fun credential_origin_str :: "credential_origin \<Rightarrow> string" where
  "credential_origin_str OfficialLocalTool = ''official-local-tool''"
| "credential_origin_str UserKey = ''user-key''"
| "credential_origin_str BrowserSession = ''browser-session''"
| "credential_origin_str UserEntered = ''user-entered''"

definition CREDENTIAL_ORIGINS :: "credential_origin list" where
  "CREDENTIAL_ORIGINS =
     [OfficialLocalTool, UserKey, BrowserSession, UserEntered]"

interpretation credential_origin_words: vocabulary credential_origin_str CREDENTIAL_ORIGINS
proof unfold_locales
  show "credential_origin_str x = credential_origin_str y \<Longrightarrow> x = y" for x y by (cases x; cases y) simp_all
  show "x \<in> set CREDENTIAL_ORIGINS" for x by (cases x) (simp_all add: CREDENTIAL_ORIGINS_def)
qed

datatype data_interface_status =
    NativeStatuslinePayload | DocumentedApiInterface | InternalEndpoint | AuthenticatedScrape
  | ManualInterface

fun interface_status_str :: "data_interface_status \<Rightarrow> string" where
  "interface_status_str NativeStatuslinePayload = ''native-statusline-payload''"
| "interface_status_str DocumentedApiInterface = ''documented-api''"
| "interface_status_str InternalEndpoint = ''internal-endpoint''"
| "interface_status_str AuthenticatedScrape = ''authenticated-scrape''"
| "interface_status_str ManualInterface = ''manual''"

definition DATA_INTERFACE_STATUSES :: "data_interface_status list" where
  "DATA_INTERFACE_STATUSES =
     [NativeStatuslinePayload, DocumentedApiInterface, InternalEndpoint, AuthenticatedScrape, ManualInterface]"

interpretation data_interface_status_words: vocabulary interface_status_str DATA_INTERFACE_STATUSES
proof unfold_locales
  show "interface_status_str x = interface_status_str y \<Longrightarrow> x = y" for x y by (cases x; cases y) simp_all
  show "x \<in> set DATA_INTERFACE_STATUSES" for x by (cases x) (simp_all add: DATA_INTERFACE_STATUSES_def)
qed

datatype automation_risk =
    LowRisk | HighRisk

fun automation_risk_str :: "automation_risk \<Rightarrow> string" where
  "automation_risk_str LowRisk = ''low''"
| "automation_risk_str HighRisk = ''high''"

definition AUTOMATION_RISKS :: "automation_risk list" where
  "AUTOMATION_RISKS =
     [LowRisk, HighRisk]"

interpretation automation_risk_words: vocabulary automation_risk_str AUTOMATION_RISKS
proof unfold_locales
  show "automation_risk_str x = automation_risk_str y \<Longrightarrow> x = y" for x y by (cases x; cases y) simp_all
  show "x \<in> set AUTOMATION_RISKS" for x by (cases x) (simp_all add: AUTOMATION_RISKS_def)
qed

text \<open>Why one meter is unavailable (connection-state.ts).\<close>

datatype snapshot_availability =
    MissingCredentials | ExpiredCredentials | AccessDenied | MissingSubscription
  | Unlimited | QuotaUnavailable | RateLimited | NetworkFailure
  | SchemaDrift

fun availability_str :: "snapshot_availability \<Rightarrow> string" where
  "availability_str MissingCredentials = ''missing_credentials''"
| "availability_str ExpiredCredentials = ''expired_credentials''"
| "availability_str AccessDenied = ''access_denied''"
| "availability_str MissingSubscription = ''missing_subscription''"
| "availability_str Unlimited = ''unlimited''"
| "availability_str QuotaUnavailable = ''quota_unavailable''"
| "availability_str RateLimited = ''rate_limited''"
| "availability_str NetworkFailure = ''network_failure''"
| "availability_str SchemaDrift = ''schema_drift''"

definition SNAPSHOT_AVAILABILITIES :: "snapshot_availability list" where
  "SNAPSHOT_AVAILABILITIES =
     [MissingCredentials, ExpiredCredentials, AccessDenied, MissingSubscription, Unlimited,
      QuotaUnavailable, RateLimited, NetworkFailure, SchemaDrift]"

interpretation snapshot_availability_words: vocabulary availability_str SNAPSHOT_AVAILABILITIES
proof unfold_locales
  show "availability_str x = availability_str y \<Longrightarrow> x = y" for x y by (cases x; cases y) simp_all
  show "x \<in> set SNAPSHOT_AVAILABILITIES" for x by (cases x) (simp_all add: SNAPSHOT_AVAILABILITIES_def)
qed

lemmas decode_codes [vocab_simps, simp] =
  provider_code_words.decode_code
  snapshot_unit_words.decode_code
  snapshot_precision_words.decode_code
  snapshot_source_words.decode_code
  window_kind_words.decode_code
  snapshot_currency_words.decode_code
  snapshot_kind_words.decode_code
  connector_verification_words.decode_code
  snapshot_source_kind_words.decode_code
  snapshot_observed_via_words.decode_code
  snapshot_writer_words.decode_code
  credential_origin_words.decode_code
  data_interface_status_words.decode_code
  automation_risk_words.decode_code
  snapshot_availability_words.decode_code

lemmas decode_iff [vocab_simps] =
  provider_code_words.decode_eq_Some
  snapshot_unit_words.decode_eq_Some
  snapshot_precision_words.decode_eq_Some
  snapshot_source_words.decode_eq_Some
  window_kind_words.decode_eq_Some
  snapshot_currency_words.decode_eq_Some
  snapshot_kind_words.decode_eq_Some
  connector_verification_words.decode_eq_Some
  snapshot_source_kind_words.decode_eq_Some
  snapshot_observed_via_words.decode_eq_Some
  snapshot_writer_words.decode_eq_Some
  credential_origin_words.decode_eq_Some
  data_interface_status_words.decode_eq_Some
  automation_risk_words.decode_eq_Some
  snapshot_availability_words.decode_eq_Some

lemmas code_iff [vocab_simps, simp] =
  provider_code_words.code_eq_iff
  snapshot_unit_words.code_eq_iff
  snapshot_precision_words.code_eq_iff
  snapshot_source_words.code_eq_iff
  window_kind_words.code_eq_iff
  snapshot_currency_words.code_eq_iff
  snapshot_kind_words.code_eq_iff
  connector_verification_words.code_eq_iff
  snapshot_source_kind_words.code_eq_iff
  snapshot_observed_via_words.code_eq_iff
  snapshot_writer_words.code_eq_iff
  credential_origin_words.code_eq_iff
  data_interface_status_words.code_eq_iff
  automation_risk_words.code_eq_iff
  snapshot_availability_words.code_eq_iff

section \<open>Records\<close>

record snapshot_window =
  win_kind :: window_kind
  win_durationSeconds :: "int option"

record verification_evidence =
  ev_providerVersion :: string
  ev_accountShape :: string
  ev_os :: string
  ev_date :: string

definition MAX_SNAPSHOT_AMOUNT :: rat where
  "MAX_SNAPSHOT_AMOUNT = 1000000"

record snapshot_amounts =
  am_usedAmount :: rat
  am_limitAmount :: rat
  am_currency :: snapshot_currency

record snapshot_provenance =
  prov_sourceKind :: snapshot_source_kind
  prov_observedVia :: snapshot_observed_via

definition UNKNOWN_PROVENANCE :: snapshot_provenance where
  "UNKNOWN_PROVENANCE = \<lparr>prov_sourceKind = UnknownSourceKind, prov_observedVia = UnknownVia\<rparr>"

record connector_labels =
  lab_credentialOrigin :: credential_origin
  lab_dataInterfaceStatus :: data_interface_status
  lab_automationRisk :: automation_risk
  lab_verification :: connector_verification
  lab_verificationEvidence :: "verification_evidence option"

record snapshot =
  sn_provider :: provider_code
  sn_meter :: string
  sn_value :: rat
  sn_unit :: snapshot_unit
  sn_window :: snapshot_window
  sn_resetAt :: "string option"
  sn_source :: snapshot_source
  sn_precision :: snapshot_precision
  sn_observedAt :: string
  sn_expiresAt :: string
  sn_labels :: connector_labels
  sn_usedAmount :: "rat option"
  sn_limitAmount :: "rat option"
  sn_currency :: "snapshot_currency option"
  sn_accountId :: "string option"
  sn_accountLabel :: "string option"
  sn_provenance :: "snapshot_provenance option"
  sn_writer :: "snapshot_writer option"
  sn_kind :: "snapshot_kind option"
  sn_availability :: "snapshot_availability option"
  sn_retryAt :: "string option"

text \<open>\<open>ACCOUNT_ID_PATTERN\<close>: \<open>/^[a-z0-9][a-z0-9-]{0,63}$/u\<close>.\<close>

definition account_id_pattern :: "string \<Rightarrow> bool" where
  "account_id_pattern s =
     (case s of
        [] \<Rightarrow> False
      | c # cs \<Rightarrow> (is_lower c \<or> is_digit c) \<and> length cs \<le> 63 \<and>
          list_all (\<lambda>x. is_lower x \<or> is_digit x \<or> x = CHR ''-'') cs)"

section \<open>A snapshot as an unknown value\<close>

definition num_js :: "rat \<Rightarrow> js" where
  "num_js r = Num (Fin r)"

definition int_js :: "int \<Rightarrow> js" where
  "int_js n = Num (Fin (of_int n))"

definition window_js :: "snapshot_window \<Rightarrow> js" where
  "window_js w =
     obj [(''kind'', Str (window_kind_str (win_kind w))),
          (''durationSeconds'', opt_js (map_option int_js (win_durationSeconds w)))]"

definition evidence_js :: "verification_evidence \<Rightarrow> js" where
  "evidence_js e =
     Obj [(''providerVersion'', Str (ev_providerVersion e)), (''accountShape'', Str (ev_accountShape e)),
          (''os'', Str (ev_os e)), (''date'', Str (ev_date e))]"

definition labels_js :: "connector_labels \<Rightarrow> js" where
  "labels_js l =
     obj [(''credentialOrigin'', Str (credential_origin_str (lab_credentialOrigin l))),
          (''dataInterfaceStatus'', Str (interface_status_str (lab_dataInterfaceStatus l))),
          (''automationRisk'', Str (automation_risk_str (lab_automationRisk l))),
          (''verification'', Str (verification_str (lab_verification l))),
          (''verificationEvidence'', opt_js (map_option evidence_js (lab_verificationEvidence l)))]"

definition provenance_js :: "snapshot_provenance \<Rightarrow> js" where
  "provenance_js p =
     Obj [(''sourceKind'', Str (source_kind_str (prov_sourceKind p))),
          (''observedVia'', Str (observed_via_str (prov_observedVia p)))]"

definition snapshot_js :: "snapshot \<Rightarrow> js" where
  "snapshot_js s =
     obj [(''provider'', Str (provider_str (sn_provider s))),
          (''meter'', Str (sn_meter s)),
          (''value'', num_js (sn_value s)),
          (''unit'', Str (unit_str (sn_unit s))),
          (''window'', window_js (sn_window s)),
          (''resetAt'', case sn_resetAt s of None \<Rightarrow> Null | Some r \<Rightarrow> Str r),
          (''source'', Str (source_str (sn_source s))),
          (''precision'', Str (precision_str (sn_precision s))),
          (''observedAt'', Str (sn_observedAt s)),
          (''expiresAt'', Str (sn_expiresAt s)),
          (''labels'', labels_js (sn_labels s)),
          (''usedAmount'', opt_js (map_option num_js (sn_usedAmount s))),
          (''limitAmount'', opt_js (map_option num_js (sn_limitAmount s))),
          (''currency'', opt_js (map_option (Str \<circ> currency_str) (sn_currency s))),
          (''accountId'', opt_js (map_option Str (sn_accountId s))),
          (''accountLabel'', opt_js (map_option Str (sn_accountLabel s))),
          (''provenance'', opt_js (map_option provenance_js (sn_provenance s))),
          (''writer'', opt_js (map_option (Str \<circ> writer_str) (sn_writer s))),
          (''kind'', opt_js (map_option (Str \<circ> kind_str) (sn_kind s))),
          (''availability'', opt_js (map_option (Str \<circ> availability_str) (sn_availability s))),
          (''retryAt'', opt_js (map_option Str (sn_retryAt s)))]"

lemma part_js_neq [simp]:
  "window_js w \<noteq> Undefined" "evidence_js e \<noteq> Undefined" "labels_js l \<noteq> Undefined"
  "provenance_js p \<noteq> Undefined" "num_js r \<noteq> Undefined" "int_js n \<noteq> Undefined"
  by (simp_all add: window_js_def evidence_js_def labels_js_def provenance_js_def num_js_def int_js_def)

end
