(* ===== verification/Normalizer.thy ===== *)
theory Normalizer
  imports Types
begin

text \<open>
  packages/core/src/normalizer.ts: the boundary where an \<open>unknown\<close> becomes a \<open>Snapshot\<close> or is
  refused. The readers follow the code's checks in order; \<open>wf_snapshot\<close> is what they enforce.
  The lemmas show that normalizeMeter returns exactly the well-formed snapshots
  (soundness, and completeness by the round trip through \<open>snapshot_js\<close>), and that a report
  accounts for every input. \<open>canonicalJson\<close> is represented by the JSON value its text denotes.
\<close>

section \<open>Readers\<close>

definition is_integer :: "rat \<Rightarrow> bool" where
  "is_integer r \<longleftrightarrow> of_int \<lfloor>r\<rfloor> = r"

text \<open>\<open>/^[A-Z][A-Z0-9_]{0,31}$/u\<close>\<close>

definition safeMeter :: "string \<Rightarrow> bool" where
  "safeMeter s =
     (case s of
        [] \<Rightarrow> False
      | c # cs \<Rightarrow> is_upper c \<and> length cs \<le> 31 \<and>
          list_all (\<lambda>x. is_upper x \<or> is_digit x \<or> x = CHR ''_'') cs)"

text \<open>An optional enumerated property: absent, or a word of the vocabulary, or refused.\<close>

definition read_optional :: "('a \<Rightarrow> string) \<Rightarrow> 'a list \<Rightarrow> js \<Rightarrow> 'a option option" where
  "read_optional code words v =
     (case v of Undefined \<Rightarrow> Some None | _ \<Rightarrow> map_option Some (read_word code words v))"

definition normalizeWindow :: "js \<Rightarrow> snapshot_window option" where
  "normalizeWindow v =
     (if \<not> isRecord v then None else
      do { kind \<leftarrow> read_word window_kind_str WINDOW_KINDS (prop_of v ''kind'');
           case prop_of v ''durationSeconds'' of
             Undefined \<Rightarrow> Some \<lparr>win_kind = kind, win_durationSeconds = None\<rparr>
           | Num (Fin r) \<Rightarrow>
               if is_integer r \<and> 0 < r \<and> r \<le> 31536000
               then Some \<lparr>win_kind = kind, win_durationSeconds = Some \<lfloor>r\<rfloor>\<rparr> else None
           | _ \<Rightarrow> None })"

definition is_space :: "char \<Rightarrow> bool" where
  "is_space c \<longleftrightarrow> (of_char c :: nat) \<in> {9, 10, 11, 12, 13, 32, 160}"

text \<open>\<open>typeof v === "string" && v.trim()\<close> is truthy: the string has a character that is no
  white space.\<close>

definition read_nonblank :: "js \<Rightarrow> string option" where
  "read_nonblank v =
     (case v of Str s \<Rightarrow> if list_all is_space s then None else Some s | _ \<Rightarrow> None)"

definition read_instant :: "js \<Rightarrow> string option" where
  "read_instant v = (case v of Str s \<Rightarrow> if isIsoInstant v then Some s else None | _ \<Rightarrow> None)"

definition read_evidence :: "js \<Rightarrow> verification_evidence option" where
  "read_evidence v =
     (if \<not> isRecord v then None else
      do { version \<leftarrow> read_nonblank (prop_of v ''providerVersion'');
           shape \<leftarrow> read_nonblank (prop_of v ''accountShape'');
           os \<leftarrow> read_nonblank (prop_of v ''os'');
           date \<leftarrow> read_instant (prop_of v ''date'');
           Some \<lparr>ev_providerVersion = version, ev_accountShape = shape, ev_os = os, ev_date = date\<rparr> })"

definition normalizeLabels :: "js \<Rightarrow> connector_labels option" where
  "normalizeLabels v =
     (if \<not> isRecord v then None else
      do { verification \<leftarrow> read_word verification_str CONNECTOR_VERIFICATIONS (prop_of v ''verification'');
           evidence \<leftarrow>
             (let e = prop_of v ''verificationEvidence'' in
              if e = Undefined then Some None
              else if verification \<noteq> VERIFIED_LIVE then None
              else map_option Some (read_evidence e));
           origin \<leftarrow> read_word credential_origin_str CREDENTIAL_ORIGINS (prop_of v ''credentialOrigin'');
           status \<leftarrow> read_word interface_status_str DATA_INTERFACE_STATUSES (prop_of v ''dataInterfaceStatus'');
           risk \<leftarrow> read_word automation_risk_str AUTOMATION_RISKS (prop_of v ''automationRisk'');
           Some \<lparr>lab_credentialOrigin = origin, lab_dataInterfaceStatus = status,
                 lab_automationRisk = risk, lab_verification = verification,
                 lab_verificationEvidence = evidence\<rparr> })"

text \<open>The three money fields, as one unit or not at all.\<close>

definition read_amount :: "js \<Rightarrow> rat option" where
  "read_amount v =
     (case v of
        Num (Fin r) \<Rightarrow> if 0 \<le> r \<and> r \<le> MAX_SNAPSHOT_AMOUNT then Some r else None
      | _ \<Rightarrow> None)"

definition normalizeAmounts :: "js \<Rightarrow> snapshot_amounts option" where
  "normalizeAmounts raw =
     do { used \<leftarrow> read_amount (prop_of raw ''usedAmount'');
          limit \<leftarrow> read_amount (prop_of raw ''limitAmount'');
          currency \<leftarrow> read_word currency_str SNAPSHOT_CURRENCIES (prop_of raw ''currency'');
          Some \<lparr>am_usedAmount = used, am_limitAmount = limit, am_currency = currency\<rparr> }"

text \<open>\<open>None\<close> is \<open>{ ok: false }\<close>: an account that is present and malformed refuses the row.\<close>

definition readAccountId :: "js \<Rightarrow> string option option" where
  "readAccountId v =
     (case v of
        Undefined \<Rightarrow> Some None
      | Str s \<Rightarrow> if account_id_pattern s then Some (Some s) else None
      | _ \<Rightarrow> None)"

definition MAX_ACCOUNT_LABEL_CHARS :: nat where
  "MAX_ACCOUNT_LABEL_CHARS = 64"

definition account_label :: "string \<Rightarrow> bool" where
  "account_label s \<longleftrightarrow> s \<noteq> [] \<and> length s \<le> MAX_ACCOUNT_LABEL_CHARS \<and>
     list_all (\<lambda>c. CHR '' '' \<le> c \<and> c \<le> CHR ''~'') s"

definition readAccountLabel :: "js \<Rightarrow> string option" where
  "readAccountLabel v = (case v of Str s \<Rightarrow> if account_label s then Some s else None | _ \<Rightarrow> None)"

definition readProvenance :: "js \<Rightarrow> snapshot_provenance option" where
  "readProvenance v =
     (if v = Undefined then None
      else if \<not> isRecord v then Some UNKNOWN_PROVENANCE
      else
        case (read_word source_kind_str SNAPSHOT_SOURCE_KINDS (prop_of v ''sourceKind''),
              read_word observed_via_str SNAPSHOT_OBSERVED_VIA (prop_of v ''observedVia'')) of
          (Some kind, Some via) \<Rightarrow> Some \<lparr>prov_sourceKind = kind, prov_observedVia = via\<rparr>
        | _ \<Rightarrow> Some UNKNOWN_PROVENANCE)"

definition readWriter :: "js \<Rightarrow> snapshot_writer option" where
  "readWriter v = read_word writer_str SNAPSHOT_WRITERS v"

section \<open>normalizeMeter\<close>

definition read_retry_at :: "snapshot_availability option \<Rightarrow> js \<Rightarrow> string option option" where
  "read_retry_at availability v =
     (case v of
        Undefined \<Rightarrow> Some None
      | _ \<Rightarrow> if availability = Some RateLimited then map_option Some (read_instant v) else None)"

definition read_meter :: "js \<Rightarrow> string option" where
  "read_meter v = (case v of Str s \<Rightarrow> if safeMeter s then Some s else None | _ \<Rightarrow> None)"

definition read_value :: "js \<Rightarrow> rat option" where
  "read_value v = (case v of Num (Fin r) \<Rightarrow> if 0 \<le> r then Some r else None | _ \<Rightarrow> None)"

definition read_reset_at :: "js \<Rightarrow> string option option" where
  "read_reset_at v = (case v of Null \<Rightarrow> Some None | _ \<Rightarrow> map_option Some (read_instant v))"

text \<open>\<open>unit === "PERCENT" && value > 100 || value > 1_000_000_000_000\<close>\<close>

definition above_range :: "snapshot_unit \<Rightarrow> rat \<Rightarrow> bool" where
  "above_range unit val \<longleftrightarrow> unit = PERCENT \<and> 100 < val \<or> 1000000000000 < val"

text \<open>A label without an id names nothing, so it goes with it.\<close>

definition read_label_of :: "string option \<Rightarrow> js \<Rightarrow> string option" where
  "read_label_of account v = (if account = None then None else readAccountLabel v)"

definition normalizeMeter :: "js \<Rightarrow> snapshot option" where
  "normalizeMeter raw =
     (if \<not> isRecord raw then None else
      do { kind \<leftarrow> read_optional kind_str SNAPSHOT_KINDS (prop_of raw ''kind'');
           availability \<leftarrow> read_optional availability_str SNAPSHOT_AVAILABILITIES (prop_of raw ''availability'');
           retryAt \<leftarrow> read_retry_at availability (prop_of raw ''retryAt'');
           provider \<leftarrow> read_word provider_str PROVIDER_CODES (prop_of raw ''provider'');
           meter \<leftarrow> read_meter (prop_of raw ''meter'');
           val \<leftarrow> read_value (prop_of raw ''value'');
           unit \<leftarrow> read_word unit_str SNAPSHOT_UNITS (prop_of raw ''unit'');
           (if above_range unit val then None else
            do { window \<leftarrow> normalizeWindow (prop_of raw ''window'');
                 labels \<leftarrow> normalizeLabels (prop_of raw ''labels'');
                 resetAt \<leftarrow> read_reset_at (prop_of raw ''resetAt'');
                 source \<leftarrow> read_word source_str SNAPSHOT_SOURCES (prop_of raw ''source'');
                 precision \<leftarrow> read_word precision_str SNAPSHOT_PRECISIONS (prop_of raw ''precision'');
                 observedAt \<leftarrow> read_instant (prop_of raw ''observedAt'');
                 expiresAt \<leftarrow> read_instant (prop_of raw ''expiresAt'');
                 (if ms_lt (dateParse expiresAt) (dateParse observedAt) then None else
                  do { account \<leftarrow> readAccountId (prop_of raw ''accountId'');
                       let amounts = normalizeAmounts raw;
                       Some \<lparr>sn_provider = provider, sn_meter = meter, sn_value = val, sn_unit = unit,
                             sn_window = window, sn_resetAt = resetAt, sn_source = source,
                             sn_precision = precision, sn_observedAt = observedAt,
                             sn_expiresAt = expiresAt, sn_labels = labels,
                             sn_usedAmount = map_option am_usedAmount amounts,
                             sn_limitAmount = map_option am_limitAmount amounts,
                             sn_currency = map_option am_currency amounts,
                             sn_accountId = account,
                             sn_accountLabel = read_label_of account (prop_of raw ''accountLabel''),
                             sn_provenance = readProvenance (prop_of raw ''provenance''),
                             sn_writer = readWriter (prop_of raw ''writer''),
                             sn_kind = kind, sn_availability = availability, sn_retryAt = retryAt\<rparr> }) }) })"

definition normalizeMeters :: "js list \<Rightarrow> snapshot list" where
  "normalizeMeters raws = List.map_filter normalizeMeter raws"

record normalize_report =
  nr_snapshots :: "snapshot list"
  nr_rejected :: "provider_code list"
  nr_dropped :: nat

text \<open>One turn of the loop. The set of rejected providers keeps its insertion order.\<close>

definition report_step :: "normalize_report \<Rightarrow> js \<Rightarrow> normalize_report" where
  "report_step r raw =
     (case normalizeMeter raw of
        Some s \<Rightarrow> r\<lparr>nr_snapshots := nr_snapshots r @ [s]\<rparr>
      | None \<Rightarrow>
          (let r' = r\<lparr>nr_dropped := Suc (nr_dropped r)\<rparr>
           in case (if isRecord raw then read_word provider_str PROVIDER_CODES (prop_of raw ''provider'')
                    else None) of
                Some p \<Rightarrow>
                  if p \<in> set (nr_rejected r) then r' else r'\<lparr>nr_rejected := nr_rejected r @ [p]\<rparr>
              | None \<Rightarrow> r'))"

definition normalizeMetersReport :: "js list \<Rightarrow> normalize_report" where
  "normalizeMetersReport raws =
     foldl report_step \<lparr>nr_snapshots = [], nr_rejected = [], nr_dropped = 0\<rparr> raws"

section \<open>Canonical JSON\<close>

primrec sortDeep :: "js \<Rightarrow> js" where
  "sortDeep Undefined = Undefined"
| "sortDeep Null = Null"
| "sortDeep (Bool b) = Bool b"
| "sortDeep (Num n) = Num n"
| "sortDeep (Str s) = Str s"
| "sortDeep (Arr xs) = Arr (map sortDeep xs)"
| "sortDeep (Obj ps) = Obj (sort_key fst (map (map_prod id sortDeep) ps))"

text \<open>What \<open>JSON.stringify\<close> keeps of a value: an undefined property is left out, an undefined
  element and a number that is not finite become \<open>null\<close>.\<close>

primrec json_value :: "js \<Rightarrow> js" where
  "json_value Undefined = Undefined"
| "json_value Null = Null"
| "json_value (Bool b) = Bool b"
| "json_value (Num n) = (case n of Fin r \<Rightarrow> Num n | _ \<Rightarrow> Null)"
| "json_value (Str s) = Str s"
| "json_value (Arr xs) = Arr (map (\<lambda>v. if v = Undefined then Null else v) (map json_value xs))"
| "json_value (Obj ps) = Obj (filter (\<lambda>(k, v). v \<noteq> Undefined) (map (map_prod id json_value) ps))"

definition canonicalJson :: "js \<Rightarrow> js" where
  "canonicalJson v = json_value (sortDeep v)"

section \<open>Well-formed snapshots\<close>

definition wf_window :: "snapshot_window \<Rightarrow> bool" where
  "wf_window w \<longleftrightarrow>
     (case win_durationSeconds w of None \<Rightarrow> True | Some n \<Rightarrow> 0 < n \<and> n \<le> 31536000)"

definition wf_evidence :: "verification_evidence \<Rightarrow> bool" where
  "wf_evidence e \<longleftrightarrow> \<not> list_all is_space (ev_providerVersion e) \<and>
     \<not> list_all is_space (ev_accountShape e) \<and> \<not> list_all is_space (ev_os e) \<and>
     iso_instant (ev_date e)"

definition wf_labels :: "connector_labels \<Rightarrow> bool" where
  "wf_labels l \<longleftrightarrow>
     (case lab_verificationEvidence l of
        None \<Rightarrow> True
      | Some e \<Rightarrow> lab_verification l = VERIFIED_LIVE \<and> wf_evidence e)"

definition wf_amount :: "rat \<Rightarrow> bool" where
  "wf_amount r \<longleftrightarrow> 0 \<le> r \<and> r \<le> MAX_SNAPSHOT_AMOUNT"

definition wf_amounts :: "snapshot \<Rightarrow> bool" where
  "wf_amounts s \<longleftrightarrow>
     (case (sn_usedAmount s, sn_limitAmount s, sn_currency s) of
        (None, None, None) \<Rightarrow> True
      | (Some u, Some l, Some c) \<Rightarrow> wf_amount u \<and> wf_amount l
      | _ \<Rightarrow> False)"

definition wf_account :: "snapshot \<Rightarrow> bool" where
  "wf_account s \<longleftrightarrow>
     (case sn_accountId s of
        None \<Rightarrow> sn_accountLabel s = None
      | Some a \<Rightarrow> account_id_pattern a \<and>
          (case sn_accountLabel s of None \<Rightarrow> True | Some l \<Rightarrow> account_label l))"

definition wf_instants :: "snapshot \<Rightarrow> bool" where
  "wf_instants s \<longleftrightarrow> iso_instant (sn_observedAt s) \<and> iso_instant (sn_expiresAt s) \<and>
     ms_le (dateParse (sn_observedAt s)) (dateParse (sn_expiresAt s)) \<and>
     (case sn_resetAt s of None \<Rightarrow> True | Some r \<Rightarrow> iso_instant r) \<and>
     (case sn_retryAt s of None \<Rightarrow> True
      | Some r \<Rightarrow> sn_availability s = Some RateLimited \<and> iso_instant r)"

definition wf_value :: "snapshot \<Rightarrow> bool" where
  "wf_value s \<longleftrightarrow> 0 \<le> sn_value s \<and> sn_value s \<le> 1000000000000 \<and>
     (sn_unit s = PERCENT \<longrightarrow> sn_value s \<le> 100)"

definition wf_snapshot :: "snapshot \<Rightarrow> bool" where
  "wf_snapshot s \<longleftrightarrow> safeMeter (sn_meter s) \<and> wf_value s \<and> wf_window (sn_window s) \<and>
     wf_labels (sn_labels s) \<and> wf_instants s \<and> wf_account s \<and> wf_amounts s"

lemmas wf_defs [wf_simps] =
  wf_snapshot_def wf_value_def wf_instants_def wf_account_def wf_amounts_def wf_amount_def
  wf_labels_def wf_evidence_def wf_window_def

subsection \<open>Each reader is exact\<close>

lemma is_integer_of_int [simp]: "is_integer (of_int n)"
  by (simp add: is_integer_def)

lemma read_instant_eq_Some: "read_instant v = Some s \<longleftrightarrow> v = Str s \<and> iso_instant s"
  by (auto simp: read_instant_def iso_instant_def split: js.splits if_splits)

lemma read_instant_Str [simp]: "iso_instant s \<Longrightarrow> read_instant (Str s) = Some s"
  by (simp add: read_instant_eq_Some)

lemma read_nonblank_eq_Some: "read_nonblank v = Some s \<longleftrightarrow> v = Str s \<and> \<not> list_all is_space s"
  by (auto simp: read_nonblank_def split: js.splits if_splits)

lemma read_word_eq_Some: "read_word code words v = Some x \<longleftrightarrow> (\<exists>s. v = Str s \<and> decode code words s = Some x)"
  by (auto simp: read_word_def split: js.splits)

lemma read_optional_simps [simp]:
  "read_optional code words Undefined = Some None"
  "read_optional code words (Str s) = map_option Some (decode code words s)"
  by (simp_all add: read_optional_def)

lemma is_integer_bounds:
  assumes "is_integer r" "0 < r" "r \<le> of_int n"
  shows "0 < \<lfloor>r\<rfloor> \<and> \<lfloor>r\<rfloor> \<le> n"
proof -
  obtain k where "r = of_int k" using assms(1) unfolding is_integer_def by metis
  with assms show ?thesis by simp
qed

lemma normalizeWindow_wf:
  assumes "normalizeWindow v = Some w"
  shows "wf_window w"
proof (cases "prop_of v ''durationSeconds''")
  case (Num n)
  then obtain r where "n = Fin r" "is_integer r" "0 < r" "r \<le> of_int 31536000"
      "win_durationSeconds w = Some \<lfloor>r\<rfloor>"
    using assms by (cases n) (auto simp: normalizeWindow_def bind_eq_Some_conv split: if_splits)
  then have "0 < \<lfloor>r\<rfloor> \<and> \<lfloor>r\<rfloor> \<le> 31536000" by (intro is_integer_bounds)
  with \<open>win_durationSeconds w = Some \<lfloor>r\<rfloor>\<close> show ?thesis
    unfolding wf_window_def by (metis option.simps(5))
qed (use assms in \<open>auto simp: normalizeWindow_def wf_window_def bind_eq_Some_conv split: if_splits\<close>)

lemma normalizeWindow_js: "wf_window w \<Longrightarrow> normalizeWindow (window_js w) = Some w"
  by (cases "win_durationSeconds w")
     (auto simp: normalizeWindow_def window_js_def wf_window_def int_js_def
       split: option.splits)

lemma read_evidence_wf: "read_evidence v = Some e \<Longrightarrow> wf_evidence e"
  by (auto simp: read_evidence_def wf_evidence_def bind_eq_Some_conv read_nonblank_eq_Some
      read_instant_eq_Some split: if_splits)

lemma read_evidence_js: "wf_evidence e \<Longrightarrow> read_evidence (evidence_js e) = Some e"
  by (simp add: read_evidence_def evidence_js_def wf_evidence_def read_nonblank_def)

lemma evidence_js_cases: "\<exists>ps. evidence_js e = Obj ps"
  by (simp add: evidence_js_def)

lemma normalizeLabels_wf: "normalizeLabels v = Some l \<Longrightarrow> wf_labels l"
  by (auto simp: normalizeLabels_def Let_def wf_labels_def bind_eq_Some_conv dest: read_evidence_wf
      split: if_splits)

lemma normalizeLabels_js: "wf_labels l \<Longrightarrow> normalizeLabels (labels_js l) = Some l"
proof -
  assume wf: "wf_labels l"
  show ?thesis
  proof (cases "lab_verificationEvidence l")
    case None
    then show ?thesis by (simp add: normalizeLabels_def labels_js_def)
  next
    case (Some e)
    then have "lab_verification l = VERIFIED_LIVE" "read_evidence (evidence_js e) = Some e"
      using wf by (auto simp: wf_labels_def read_evidence_js)
    moreover obtain ps where "evidence_js e = Obj ps" using evidence_js_cases by blast
    moreover have "decode verification_str CONNECTOR_VERIFICATIONS ''VERIFIED_LIVE'' = Some VERIFIED_LIVE"
      using connector_verification_words.decode_code [of VERIFIED_LIVE] by simp
    ultimately show ?thesis using Some by (simp add: normalizeLabels_def labels_js_def)
  qed
qed

lemma readAccountId_wf: "readAccountId v = Some (Some a) \<Longrightarrow> account_id_pattern a"
  by (auto simp: readAccountId_def split: js.splits if_splits)

lemma readAccountLabel_wf: "readAccountLabel v = Some l \<Longrightarrow> account_label l"
  by (auto simp: readAccountLabel_def split: js.splits if_splits)

lemma read_amount_wf: "read_amount v = Some r \<Longrightarrow> wf_amount r"
  by (auto simp: read_amount_def wf_amount_def split: js.splits jsnum.splits if_splits)

lemma normalizeAmounts_wf:
  "normalizeAmounts v = Some a \<Longrightarrow> wf_amount (am_usedAmount a) \<and> wf_amount (am_limitAmount a)"
  by (auto simp: normalizeAmounts_def bind_eq_Some_conv dest: read_amount_wf)

lemma readProvenance_Undefined [simp]: "readProvenance Undefined = None"
  by (simp add: readProvenance_def)

lemma readProvenance_js [simp]: "readProvenance (provenance_js p) = Some p"
  by (simp add: readProvenance_def provenance_js_def)

lemma read_retry_at_wf: "read_retry_at a v = Some (Some r) \<Longrightarrow> a = Some RateLimited \<and> iso_instant r"
  by (auto simp: read_retry_at_def read_instant_eq_Some split: js.splits if_splits)

lemma read_reset_at_wf: "read_reset_at v = Some (Some r) \<Longrightarrow> iso_instant r"
  by (auto simp: read_reset_at_def read_instant_eq_Some split: js.splits)

lemma ms_le_not_less:
  "iso_instant s \<Longrightarrow> iso_instant t \<Longrightarrow> \<not> ms_lt (dateParse t) (dateParse s) \<longleftrightarrow> ms_le (dateParse s) (dateParse t)"
  by (auto elim!: iso_instantE)

subsection \<open>normalizeMeter returns exactly the well-formed snapshots\<close>

lemma read_meter_eq_Some: "read_meter v = Some s \<longleftrightarrow> v = Str s \<and> safeMeter s"
  by (auto simp: read_meter_def split: js.splits if_splits)

lemma read_meter_Str: "safeMeter s \<Longrightarrow> read_meter (Str s) = Some s"
  by (simp add: read_meter_def)

lemma read_value_nonneg: "read_value v = Some r \<Longrightarrow> 0 \<le> r"
  by (auto simp: read_value_def split: js.splits jsnum.splits if_splits)

lemma normalizeMeter_amounts:
  "wf_amounts s" if "sn_usedAmount s = map_option am_usedAmount (normalizeAmounts v)"
    "sn_limitAmount s = map_option am_limitAmount (normalizeAmounts v)"
    "sn_currency s = map_option am_currency (normalizeAmounts v)"
  using that normalizeAmounts_wf [of v] by (cases "normalizeAmounts v") (auto simp: wf_amounts_def)

lemma normalizeMeter_account:
  "wf_account s" if "readAccountId v = Some (sn_accountId s)"
    "sn_accountLabel s = read_label_of (sn_accountId s) v'"
  using that readAccountId_wf [of v] readAccountLabel_wf [of v']
  by (auto simp: wf_account_def read_label_of_def split: option.splits)

lemma if_None_eq_Some: "(if c then None else x) = Some y \<longleftrightarrow> \<not> c \<and> x = Some y"
  by simp

lemma normalizeMeter_parts:
  assumes "normalizeMeter v = Some s"
  shows
    "isRecord v \<and>
     read_optional kind_str SNAPSHOT_KINDS (prop_of v ''kind'') = Some (sn_kind s) \<and>
     read_optional availability_str SNAPSHOT_AVAILABILITIES (prop_of v ''availability'') = Some (sn_availability s) \<and>
     read_retry_at (sn_availability s) (prop_of v ''retryAt'') = Some (sn_retryAt s) \<and>
     read_word provider_str PROVIDER_CODES (prop_of v ''provider'') = Some (sn_provider s) \<and>
     read_meter (prop_of v ''meter'') = Some (sn_meter s) \<and>
     read_value (prop_of v ''value'') = Some (sn_value s) \<and>
     read_word unit_str SNAPSHOT_UNITS (prop_of v ''unit'') = Some (sn_unit s) \<and>
     \<not> above_range (sn_unit s) (sn_value s) \<and>
     normalizeWindow (prop_of v ''window'') = Some (sn_window s) \<and>
     normalizeLabels (prop_of v ''labels'') = Some (sn_labels s) \<and>
     read_reset_at (prop_of v ''resetAt'') = Some (sn_resetAt s) \<and>
     read_instant (prop_of v ''observedAt'') = Some (sn_observedAt s) \<and>
     read_instant (prop_of v ''expiresAt'') = Some (sn_expiresAt s) \<and>
     \<not> ms_lt (dateParse (sn_expiresAt s)) (dateParse (sn_observedAt s)) \<and>
     readAccountId (prop_of v ''accountId'') = Some (sn_accountId s) \<and>
     sn_accountLabel s = read_label_of (sn_accountId s) (prop_of v ''accountLabel'') \<and>
     sn_usedAmount s = map_option am_usedAmount (normalizeAmounts v) \<and>
     sn_limitAmount s = map_option am_limitAmount (normalizeAmounts v) \<and>
     sn_currency s = map_option am_currency (normalizeAmounts v)"
  using assms unfolding normalizeMeter_def Let_def
  by (clarsimp simp: bind_eq_Some_conv if_None_eq_Some)

lemma normalizeMeterD:
  assumes "normalizeMeter v = Some s"
  shows "isRecord v"
    and "read_optional kind_str SNAPSHOT_KINDS (prop_of v ''kind'') = Some (sn_kind s)"
    and "read_optional availability_str SNAPSHOT_AVAILABILITIES (prop_of v ''availability'') = Some (sn_availability s)"
    and "read_retry_at (sn_availability s) (prop_of v ''retryAt'') = Some (sn_retryAt s)"
    and "read_word provider_str PROVIDER_CODES (prop_of v ''provider'') = Some (sn_provider s)"
    and "read_meter (prop_of v ''meter'') = Some (sn_meter s)"
    and "read_value (prop_of v ''value'') = Some (sn_value s)"
    and "read_word unit_str SNAPSHOT_UNITS (prop_of v ''unit'') = Some (sn_unit s)"
    and "\<not> above_range (sn_unit s) (sn_value s)"
    and "normalizeWindow (prop_of v ''window'') = Some (sn_window s)"
    and "normalizeLabels (prop_of v ''labels'') = Some (sn_labels s)"
    and "read_reset_at (prop_of v ''resetAt'') = Some (sn_resetAt s)"
    and "read_instant (prop_of v ''observedAt'') = Some (sn_observedAt s)"
    and "read_instant (prop_of v ''expiresAt'') = Some (sn_expiresAt s)"
    and "\<not> ms_lt (dateParse (sn_expiresAt s)) (dateParse (sn_observedAt s))"
    and "readAccountId (prop_of v ''accountId'') = Some (sn_accountId s)"
    and "sn_accountLabel s = read_label_of (sn_accountId s) (prop_of v ''accountLabel'')"
    and "sn_usedAmount s = map_option am_usedAmount (normalizeAmounts v)"
    and "sn_limitAmount s = map_option am_limitAmount (normalizeAmounts v)"
    and "sn_currency s = map_option am_currency (normalizeAmounts v)"
  using normalizeMeter_parts [OF assms] by - (elim conjE, assumption)+

lemma normalizeMeter_wf: "normalizeMeter v = Some s \<Longrightarrow> wf_snapshot s"
proof -
  assume s: "normalizeMeter v = Some s"
  note d = normalizeMeterD [OF s]
  have "wf_value s" using d(9) read_value_nonneg [OF d(7)] by (auto simp: wf_value_def above_range_def)
  moreover have "wf_instants s"
    using d(4,12,13,14,15) ms_le_not_less
    by (auto simp: wf_instants_def read_instant_eq_Some split: option.splits
        dest: read_reset_at_wf read_retry_at_wf)
  moreover have "wf_account s" using d(16,17) by (rule normalizeMeter_account)
  moreover have "wf_amounts s" using d(18-20) by (rule normalizeMeter_amounts)
  ultimately show ?thesis
    using d(6) normalizeWindow_wf [OF d(10)] normalizeLabels_wf [OF d(11)]
    by (simp add: wf_snapshot_def read_meter_eq_Some)
qed

text \<open>Property access of a snapshot seen as an \<open>unknown\<close>.\<close>

lemma snapshot_js_props [simp]:
  "isRecord (snapshot_js s)"
  "prop_of (snapshot_js s) ''provider'' = Str (provider_str (sn_provider s))"
  "prop_of (snapshot_js s) ''meter'' = Str (sn_meter s)"
  "prop_of (snapshot_js s) ''value'' = num_js (sn_value s)"
  "prop_of (snapshot_js s) ''unit'' = Str (unit_str (sn_unit s))"
  "prop_of (snapshot_js s) ''window'' = window_js (sn_window s)"
  "prop_of (snapshot_js s) ''resetAt'' = (case sn_resetAt s of None \<Rightarrow> Null | Some r \<Rightarrow> Str r)"
  "prop_of (snapshot_js s) ''source'' = Str (source_str (sn_source s))"
  "prop_of (snapshot_js s) ''precision'' = Str (precision_str (sn_precision s))"
  "prop_of (snapshot_js s) ''observedAt'' = Str (sn_observedAt s)"
  "prop_of (snapshot_js s) ''expiresAt'' = Str (sn_expiresAt s)"
  "prop_of (snapshot_js s) ''labels'' = labels_js (sn_labels s)"
  by (simp_all add: snapshot_js_def split: option.splits)

lemma snapshot_js_optional [simp]:
  "prop_of (snapshot_js s) ''usedAmount'' = opt_js (map_option num_js (sn_usedAmount s))"
  "prop_of (snapshot_js s) ''limitAmount'' = opt_js (map_option num_js (sn_limitAmount s))"
  "prop_of (snapshot_js s) ''currency'' = opt_js (map_option (Str \<circ> currency_str) (sn_currency s))"
  "prop_of (snapshot_js s) ''accountId'' = opt_js (map_option Str (sn_accountId s))"
  "prop_of (snapshot_js s) ''accountLabel'' = opt_js (map_option Str (sn_accountLabel s))"
  "prop_of (snapshot_js s) ''provenance'' = opt_js (map_option provenance_js (sn_provenance s))"
  "prop_of (snapshot_js s) ''writer'' = opt_js (map_option (Str \<circ> writer_str) (sn_writer s))"
  "prop_of (snapshot_js s) ''kind'' = opt_js (map_option (Str \<circ> kind_str) (sn_kind s))"
  "prop_of (snapshot_js s) ''availability'' = opt_js (map_option (Str \<circ> availability_str) (sn_availability s))"
  "prop_of (snapshot_js s) ''retryAt'' = opt_js (map_option Str (sn_retryAt s))"
  by (simp_all add: snapshot_js_def)

subsection \<open>The round trip\<close>

lemma read_optional_js [simp]:
  "read_optional kind_str SNAPSHOT_KINDS (opt_js (map_option (Str \<circ> kind_str) k)) = Some k"
  "read_optional availability_str SNAPSHOT_AVAILABILITIES (opt_js (map_option (Str \<circ> availability_str) a)) = Some a"
  by (cases k; simp) (cases a; simp)

lemma optional_js [simp]:
  "readProvenance (opt_js (map_option provenance_js p)) = p"
  "readWriter (opt_js (map_option (Str \<circ> writer_str) w)) = w"
  by (cases p; simp) (cases w; simp add: readWriter_def)

lemma read_account_js:
  assumes "wf_account s"
  shows "readAccountId (opt_js (map_option Str (sn_accountId s))) = Some (sn_accountId s)"
    and "read_label_of (sn_accountId s) (opt_js (map_option Str (sn_accountLabel s))) = sn_accountLabel s"
  using assms
  by (auto simp: wf_account_def readAccountId_def read_label_of_def readAccountLabel_def
      split: option.splits)

lemma read_instants_js:
  assumes "wf_instants s"
  shows "read_reset_at (case sn_resetAt s of None \<Rightarrow> Null | Some r \<Rightarrow> Str r) = Some (sn_resetAt s)"
    and "read_retry_at (sn_availability s) (opt_js (map_option Str (sn_retryAt s))) = Some (sn_retryAt s)"
    and "\<not> ms_lt (dateParse (sn_expiresAt s)) (dateParse (sn_observedAt s))"
    and "read_instant (Str (sn_observedAt s)) = Some (sn_observedAt s)"
    and "read_instant (Str (sn_expiresAt s)) = Some (sn_expiresAt s)"
  using assms ms_le_not_less
  by (auto simp: wf_instants_def read_reset_at_def read_retry_at_def split: option.splits)

lemma normalizeAmounts_js:
  assumes "wf_amounts s"
  shows "map_option am_usedAmount (normalizeAmounts (snapshot_js s)) = sn_usedAmount s"
    and "map_option am_limitAmount (normalizeAmounts (snapshot_js s)) = sn_limitAmount s"
    and "map_option am_currency (normalizeAmounts (snapshot_js s)) = sn_currency s"
  using assms
  by (auto simp: wf_amounts_def wf_amount_def normalizeAmounts_def read_amount_def num_js_def
      split: option.splits)

lemma read_value_js: "wf_value s \<Longrightarrow> read_value (num_js (sn_value s)) = Some (sn_value s)"
  by (simp add: wf_value_def read_value_def num_js_def)

lemma above_range_wf: "wf_value s \<Longrightarrow> \<not> above_range (sn_unit s) (sn_value s)"
  by (auto simp: wf_value_def above_range_def)

lemma normalizeMeter_snapshot_js: "wf_snapshot s \<Longrightarrow> normalizeMeter (snapshot_js s) = Some s"
  by (simp add: normalizeMeter_def wf_snapshot_def read_meter_Str read_value_js above_range_wf
      read_instants_js read_account_js normalizeAmounts_js normalizeWindow_js normalizeLabels_js)

subsection \<open>A report accounts for every input\<close>

definition rejected_provider :: "js \<Rightarrow> provider_code option" where
  "rejected_provider raw =
     (if isRecord raw then read_word provider_str PROVIDER_CODES (prop_of raw ''provider'') else None)"

lemma report_step_simps:
  "normalizeMeter raw = Some s \<Longrightarrow> report_step r raw = r\<lparr>nr_snapshots := nr_snapshots r @ [s]\<rparr>"
  "normalizeMeter raw = None \<Longrightarrow> report_step r raw =
     r\<lparr>nr_dropped := Suc (nr_dropped r),
       nr_rejected := (case rejected_provider raw of
         None \<Rightarrow> nr_rejected r | Some p \<Rightarrow> if p \<in> set (nr_rejected r) then nr_rejected r else nr_rejected r @ [p])\<rparr>"
  by (simp_all add: report_step_def rejected_provider_def split: option.splits)

definition accounts_for :: "normalize_report \<Rightarrow> js list \<Rightarrow> normalize_report \<Rightarrow> bool" where
  "accounts_for r raws r' \<longleftrightarrow>
     nr_snapshots r' = nr_snapshots r @ normalizeMeters raws \<and>
     nr_dropped r' + length (normalizeMeters raws) = nr_dropped r + length raws \<and>
     distinct (nr_rejected r') \<and>
     set (nr_rejected r') = set (nr_rejected r) \<union>
       {p. \<exists>raw \<in> set raws. normalizeMeter raw = None \<and> rejected_provider raw = Some p}"

lemma report_step_accounts:
  assumes "distinct (nr_rejected r)" "accounts_for (report_step r raw) raws r'"
  shows "accounts_for r (raw # raws) r'"
  using assms
  by (cases "normalizeMeter raw")
     (auto simp: accounts_for_def report_step_simps normalizeMeters_def List.map_filter_simps
       split: option.splits if_splits)

lemma foldl_report_step:
  "distinct (nr_rejected r) \<Longrightarrow> accounts_for r raws (foldl report_step r raws)"
proof (induction raws arbitrary: r)
  case Nil
  then show ?case by (simp add: accounts_for_def normalizeMeters_def List.map_filter_simps)
next
  case (Cons raw raws)
  have "distinct (nr_rejected (report_step r raw))"
    using Cons.prems by (cases "normalizeMeter raw") (auto simp: report_step_simps split: option.splits)
  then show ?case using Cons report_step_accounts by simp
qed

lemma normalizeMetersReport_exact:
  "nr_snapshots (normalizeMetersReport raws) = normalizeMeters raws"
  "nr_dropped (normalizeMetersReport raws) + length (normalizeMeters raws) = length raws"
  "distinct (nr_rejected (normalizeMetersReport raws))"
  "set (nr_rejected (normalizeMetersReport raws)) =
     {p. \<exists>raw \<in> set raws. normalizeMeter raw = None \<and> rejected_provider raw = Some p}"
  using foldl_report_step [of "\<lparr>nr_snapshots = [], nr_rejected = [], nr_dropped = 0\<rparr>" raws]
  by (simp_all add: normalizeMetersReport_def accounts_for_def)

lemma normalizeMeters_js:
  "\<forall>s \<in> set ss. wf_snapshot s \<Longrightarrow> normalizeMeters (map snapshot_js ss) = ss"
  by (induction ss) (simp_all add: normalizeMeters_def List.map_filter_simps normalizeMeter_snapshot_js)

lemma set_normalizeMeters: "set (normalizeMeters raws) = {s. \<exists>raw \<in> set raws. normalizeMeter raw = Some s}"
  by (force simp: normalizeMeters_def List.map_filter_def)

lemma normalizeMeters_wf: "s \<in> set (normalizeMeters raws) \<Longrightarrow> wf_snapshot s"
  by (auto simp: set_normalizeMeters intro: normalizeMeter_wf)

subsection \<open>A value survives its canonical text\<close>

text \<open>Values JSON can carry: distinct keys, finite numbers, nothing undefined inside.\<close>

primrec json_clean :: "js \<Rightarrow> bool" where
  "json_clean Undefined = False"
| "json_clean Null = True"
| "json_clean (Bool b) = True"
| "json_clean (Num n) = (case n of Fin r \<Rightarrow> True | _ \<Rightarrow> False)"
| "json_clean (Str s) = True"
| "json_clean (Arr xs) = list_all id (map json_clean xs)"
| "json_clean (Obj ps) = (distinct (map fst ps) \<and> list_all snd (map (map_prod id json_clean) ps))"

lemma distinct_sort_key_fst: "distinct (map fst ps) \<Longrightarrow> distinct (map fst (sort_key fst ps))"
  by (simp add: distinct_map)

lemma map_of_sort_key: "distinct (map fst ps) \<Longrightarrow> map_of (sort_key fst ps) = map_of ps"
proof -
  assume d: "distinct (map fst ps)"
  then have "distinct (map fst (sort_key fst ps))" by (rule distinct_sort_key_fst)
  with d have "map_of (sort_key fst ps) k = map_of ps k" for k
    by (metis (no_types) map_of_eq_None_iff map_of_eq_Some_iff not_None_eq set_map set_sort)
  then show ?thesis by blast
qed

lemma json_clean_Obj [simp]:
  "json_clean (Obj ps) \<longleftrightarrow> distinct (map fst ps) \<and> (\<forall>(k, v) \<in> set ps. json_clean v)"
  by (auto simp: list_all_iff)

lemma json_clean_Arr [simp]: "json_clean (Arr xs) \<longleftrightarrow> (\<forall>v \<in> set xs. json_clean v)"
  by (auto simp: list_all_iff)

declare json_clean.simps(6,7) [simp del]

lemma json_value_clean: "json_clean v \<Longrightarrow> json_value v = v"
proof (induction v)
  case (Num n)
  then show ?case by (cases n) simp_all
next
  case (Arr xs)
  then have "map json_value xs = xs" by (auto intro: map_idI)
  moreover have "map (\<lambda>v. if v = Undefined then Null else v) xs = xs"
    using Arr.prems by (intro map_idI) (metis json_clean.simps(1) json_clean_Arr)
  ultimately show ?case by simp
next
  case (Obj ps)
  have "map (map_prod id json_value) ps = ps"
    using Obj by (fastforce intro!: map_idI simp: map_prod_def)
  moreover have "filter (\<lambda>(k, v). v \<noteq> Undefined) ps = ps"
    using Obj.prems by (auto intro!: filter_True)
  ultimately show ?case by simp
qed simp_all

lemma sortDeep_clean: "json_clean v \<Longrightarrow> json_clean (sortDeep v)"
proof (induction v)
  case (Obj ps)
  have "map fst (map (map_prod id sortDeep) ps) = map fst ps" by (simp add: comp_def)
  then have "distinct (map fst (sort_key fst (map (map_prod id sortDeep) ps)))"
    using Obj.prems by (metis distinct_sort_key_fst json_clean_Obj)
  with Obj show ?case by fastforce
qed simp_all

lemma canonicalJson_clean: "json_clean v \<Longrightarrow> canonicalJson v = sortDeep v"
  by (simp add: canonicalJson_def json_value_clean sortDeep_clean)

lemma prop_of_sortDeep: "json_clean v \<Longrightarrow> prop_of (sortDeep v) k = sortDeep (prop_of v k)"
proof (cases v)
  case (Obj ps)
  assume "json_clean v"
  then have "distinct (map fst (map (map_prod id sortDeep) ps))" by (simp add: Obj comp_def)
  moreover have "map_of (map (map_prod id sortDeep) ps) k = map_option sortDeep (map_of ps k)"
    by (induction ps) auto
  ultimately show ?thesis
    by (simp add: Obj map_of_sort_key del: sort_key_simps split: option.splits)
qed simp_all

lemma read_word_sortDeep [simp]: "read_word code words (sortDeep v) = read_word code words v"
  by (cases v) simp_all

lemma sortDeep_eq_iff [simp]:
  "sortDeep v = Undefined \<longleftrightarrow> v = Undefined" "sortDeep v = Null \<longleftrightarrow> v = Null"
  "sortDeep v = Str s \<longleftrightarrow> v = Str s" "sortDeep v = Num n \<longleftrightarrow> v = Num n"
  by (cases v; simp)+

lemma scalar_sortDeep [simp]:
  "isRecord (sortDeep v) = isRecord v"
  "read_optional code words (sortDeep v) = read_optional code words v"
  "read_instant (sortDeep v) = read_instant v"
  "read_nonblank (sortDeep v) = read_nonblank v"
  "read_amount (sortDeep v) = read_amount v"
  "read_meter (sortDeep v) = read_meter v"
  "read_value (sortDeep v) = read_value v"
  "read_reset_at (sortDeep v) = read_reset_at v"
  "read_retry_at a (sortDeep v) = read_retry_at a v"
  "readAccountId (sortDeep v) = readAccountId v"
  "readAccountLabel (sortDeep v) = readAccountLabel v"
  "read_label_of acc (sortDeep v) = read_label_of acc v"
  "readWriter (sortDeep v) = readWriter v"
  by (cases v; simp add: read_optional_def read_instant_def read_nonblank_def read_amount_def
      read_meter_def read_value_def read_reset_at_def read_retry_at_def readAccountId_def
      readAccountLabel_def read_label_of_def readWriter_def; fail)+

lemma json_clean_prop: "json_clean v \<Longrightarrow> prop_of v k = Undefined \<or> json_clean (prop_of v k)"
  by (cases v) (auto dest!: map_of_SomeD split: option.splits)

lemma case_Num_sortDeep:
  "(case sortDeep v of Undefined \<Rightarrow> a | Num n \<Rightarrow> f n | _ \<Rightarrow> b) = (case v of Undefined \<Rightarrow> a | Num n \<Rightarrow> f n | _ \<Rightarrow> b)"
  by (cases v) simp_all

lemma normalizeWindow_sortDeep: "json_clean v \<Longrightarrow> normalizeWindow (sortDeep v) = normalizeWindow v"
  by (simp add: normalizeWindow_def prop_of_sortDeep case_Num_sortDeep)

lemma read_evidence_sortDeep: "json_clean v \<Longrightarrow> read_evidence (sortDeep v) = read_evidence v"
  by (simp add: read_evidence_def prop_of_sortDeep)

lemma normalizeLabels_sortDeep:
  assumes "json_clean v"
  shows "normalizeLabels (sortDeep v) = normalizeLabels v"
proof -
  let ?e = "prop_of v ''verificationEvidence''"
  have "?e = Undefined \<or> read_evidence (sortDeep ?e) = read_evidence ?e"
    using json_clean_prop [OF assms] read_evidence_sortDeep by blast
  then show ?thesis using assms by (auto simp: normalizeLabels_def prop_of_sortDeep Let_def cong: if_cong)
qed

lemma readProvenance_sortDeep: "json_clean v \<Longrightarrow> readProvenance (sortDeep v) = readProvenance v"
  by (simp add: readProvenance_def prop_of_sortDeep)

lemma normalizeAmounts_sortDeep: "json_clean v \<Longrightarrow> normalizeAmounts (sortDeep v) = normalizeAmounts v"
  by (simp add: normalizeAmounts_def prop_of_sortDeep)

lemma normalizeWindow_prop_sortDeep:
  "json_clean v \<Longrightarrow> normalizeWindow (sortDeep (prop_of v k)) = normalizeWindow (prop_of v k)"
  "json_clean v \<Longrightarrow> normalizeLabels (sortDeep (prop_of v k)) = normalizeLabels (prop_of v k)"
  "json_clean v \<Longrightarrow> readProvenance (sortDeep (prop_of v k)) = readProvenance (prop_of v k)"
  using json_clean_prop [of v k] normalizeWindow_sortDeep normalizeLabels_sortDeep
    readProvenance_sortDeep by auto

lemma normalizeMeter_sortDeep: "json_clean v \<Longrightarrow> normalizeMeter (sortDeep v) = normalizeMeter v"
  by (simp add: normalizeMeter_def prop_of_sortDeep normalizeWindow_prop_sortDeep
      normalizeAmounts_sortDeep cong: if_cong)

lemma json_clean_obj:
  "distinct (map fst ps) \<Longrightarrow> \<forall>(k, v) \<in> set ps. v = Undefined \<or> json_clean v \<Longrightarrow> json_clean (obj ps)"
  by (auto simp: obj_def distinct_map_filter)

lemma opt_js_clean [simp]: "\<forall>x. json_clean (f x) \<Longrightarrow> opt_js (map_option f v) = Undefined \<or> json_clean (opt_js (map_option f v))"
  by (cases v) simp_all

lemma part_js_clean [simp]:
  "json_clean (num_js r)" "json_clean (int_js n)" "json_clean (window_js w)"
  "json_clean (evidence_js e)" "json_clean (labels_js l)" "json_clean (provenance_js p)"
  by (simp_all add: num_js_def int_js_def window_js_def evidence_js_def labels_js_def
      provenance_js_def json_clean_obj)

lemma snapshot_js_clean: "json_clean (snapshot_js s)"
  unfolding snapshot_js_def by (rule json_clean_obj) (simp_all split: option.split)

lemma normalizeMeter_canonicalJson:
  "wf_snapshot s \<Longrightarrow> normalizeMeter (canonicalJson (snapshot_js s)) = Some s"
  by (simp add: canonicalJson_clean snapshot_js_clean normalizeMeter_sortDeep normalizeMeter_snapshot_js)

section \<open>The boundary as a whole\<close>

text \<open>C6: normalizeMeter lets through exactly the well-formed snapshots: whatever it is handed, the
  snapshot it returns has a safe meter name, a value in range for its unit, ordered instants,
  a believable window, label evidence only for a live verification, money as one unit, a label
  only with an account; and every such snapshot is returned for some value.\<close>

theorem normalizeMeter_range: "(\<exists>v. normalizeMeter v = Some s) \<longleftrightarrow> wf_snapshot s"
  using normalizeMeter_wf normalizeMeter_snapshot_js by blast

text \<open>A reading of one provider, for evaluation.\<close>

definition sample_labels :: connector_labels where
  "sample_labels = \<lparr>lab_credentialOrigin = hd CREDENTIAL_ORIGINS, lab_dataInterfaceStatus = hd DATA_INTERFACE_STATUSES,
     lab_automationRisk = hd AUTOMATION_RISKS, lab_verification = hd CONNECTOR_VERIFICATIONS,
     lab_verificationEvidence = None\<rparr>"

definition sample_row :: snapshot where
  "sample_row =
     \<lparr>sn_provider = GROK, sn_meter = ''WEEKLY'', sn_value = 50, sn_unit = PERCENT,
      sn_window = \<lparr>win_kind = Rolling, win_durationSeconds = Some 604800\<rparr>, sn_resetAt = None,
      sn_source = DocumentedApi, sn_precision = Exact,
      sn_observedAt = ''2026-07-01T10:00:00.000Z'', sn_expiresAt = ''2026-07-01T10:19:00.000Z'',
      sn_labels = sample_labels, sn_usedAmount = None, sn_limitAmount = None, sn_currency = None,
      sn_accountId = None, sn_accountLabel = None, sn_provenance = None, sn_writer = None,
      sn_kind = None, sn_availability = None, sn_retryAt = None\<rparr>"

lemma sample_dates:
  "dateParse ''2026-07-01T10:00:00.000Z'' = Some 1782900000000"
  "dateParse ''2026-07-01T10:19:00.000Z'' = Some 1782901140000"
  "iso_instant ''2026-07-01T10:00:00.000Z''" "iso_instant ''2026-07-01T10:19:00.000Z''"
  by (simp_all add: iso_instant_def isIsoInstant_def toISOString_def max_time_def date_eval cong: bind_weak_cong)

lemma wf_sample_row: "wf_snapshot sample_row"
  by (simp add: sample_row_def wf_snapshot_def wf_value_def wf_window_def wf_labels_def sample_labels_def
      wf_instants_def sample_dates wf_account_def wf_amounts_def safeMeter_def is_upper_def)

text \<open>C37: a well-formed snapshot survives the cache file: the canonical JSON of the row, read back
  and normalized again, is the same snapshot.\<close>

theorem snapshot_survives_canonicalJson:
  assumes "wf_snapshot s"
  shows "normalizeMeter (canonicalJson (snapshot_js s)) = Some s"
  using assms by (rule normalizeMeter_canonicalJson)

theorem snapshot_survives_canonicalJson_witness:
  "normalizeMeter (canonicalJson (snapshot_js sample_row)) = Some sample_row"
  by (rule snapshot_survives_canonicalJson [OF wf_sample_row])

text \<open>A report accounts for every input: the accepted rows in order, a count of the others that
  adds up to the input, and exactly the providers that sent a refused row, each once.\<close>

theorem normalizeMetersReport_accounts:
  "nr_snapshots (normalizeMetersReport raws) = normalizeMeters raws \<and>
   nr_dropped (normalizeMetersReport raws) + length (nr_snapshots (normalizeMetersReport raws)) = length raws \<and>
   distinct (nr_rejected (normalizeMetersReport raws)) \<and>
   set (nr_rejected (normalizeMetersReport raws)) =
     {p. \<exists>raw \<in> set raws. normalizeMeter raw = None \<and> rejected_provider raw = Some p}"
  using normalizeMetersReport_exact [of raws] by simp

end
