(* ===== verification/ConnectionState.thy ===== *)
theory ConnectionState
  imports Normalizer
begin

text \<open>
  packages/core/src/connection-state.ts: the connection lifecycle as one total transition
  function, the tables that turn a state or a reason into a sentence and an instruction, and
  the provider catalogue, which joins a generated document to the closed state model.

  A connection is replayed as the file's header describes: \<open>advance\<close> applies an event and keeps
  the one-way fact \<open>everConnected\<close> that \<open>ConnectionContext\<close> carries; \<open>reachable\<close> is what any
  history of events can lead to. The states named \<open>MANUAL\<close> and \<open>ERROR\<close> are \<open>CS_MANUAL\<close>
  and \<open>CS_ERROR\<close> here, because a provider has the first name. An HTTP status and a count of
  failures are integers.
\<close>

section \<open>States and events\<close>

datatype connection_state =
    NOT_CONFIGURED | DETECTED | NEEDS_AUTH | READY_TO_ENABLE | CONNECTING
  | CONNECTED | DEGRADED | STALE | AUTH_EXPIRED | IMPORT_ONLY
  | CS_MANUAL | UNSUPPORTED | CS_ERROR

fun state_str :: "connection_state \<Rightarrow> string" where
  "state_str NOT_CONFIGURED = ''NOT_CONFIGURED''"
| "state_str DETECTED = ''DETECTED''"
| "state_str NEEDS_AUTH = ''NEEDS_AUTH''"
| "state_str READY_TO_ENABLE = ''READY_TO_ENABLE''"
| "state_str CONNECTING = ''CONNECTING''"
| "state_str CONNECTED = ''CONNECTED''"
| "state_str DEGRADED = ''DEGRADED''"
| "state_str STALE = ''STALE''"
| "state_str AUTH_EXPIRED = ''AUTH_EXPIRED''"
| "state_str IMPORT_ONLY = ''IMPORT_ONLY''"
| "state_str CS_MANUAL = ''MANUAL''"
| "state_str UNSUPPORTED = ''UNSUPPORTED''"
| "state_str CS_ERROR = ''ERROR''"

definition CONNECTION_STATES :: "connection_state list" where
  "CONNECTION_STATES =
     [NOT_CONFIGURED, DETECTED, NEEDS_AUTH, READY_TO_ENABLE, CONNECTING,
      CONNECTED, DEGRADED, STALE, AUTH_EXPIRED, IMPORT_ONLY,
      CS_MANUAL, UNSUPPORTED, CS_ERROR]"

interpretation connection_state_words: vocabulary state_str CONNECTION_STATES
proof unfold_locales
  show "state_str x = state_str y \<Longrightarrow> x = y" for x y by (cases x; cases y) simp_all
  show "x \<in> set CONNECTION_STATES" for x by (cases x) (simp_all add: CONNECTION_STATES_def)
qed

lemmas connection_state_simps [vocab_simps, simp] = connection_state_words.decode_code connection_state_words.code_eq_iff

definition NETWORK_FAILURE_ERROR_THRESHOLD :: int where
  "NETWORK_FAILURE_ERROR_THRESHOLD = 3"

datatype connection_event =
    Detected
  | CredentialRequired
  | CredentialStored
  | EnableRequested
  | HttpResponse (status: int) (response_parsed: bool)
  | LocalRead (read_parsed: bool)
  | NetworkFailureEvent (consecutive: int)
  | ExpiryPassed
  | Disconnected
  | DeclaredImportOnly
  | DeclaredManual
  | DeclaredUnsupported

definition declaredStates :: "connection_state list" where
  "declaredStates = [NOT_CONFIGURED, IMPORT_ONLY, CS_MANUAL, UNSUPPORTED]"

record connection_context =
  everConnected :: bool

definition afterResponse ::
  "connection_state \<Rightarrow> int \<Rightarrow> bool \<Rightarrow> connection_context \<Rightarrow> connection_state" where
  "afterResponse state stat parsed context =
     (if state \<in> set declaredStates then state
      else if stat = 401 \<or> stat = 403 then
        (if everConnected context then AUTH_EXPIRED else NEEDS_AUTH)
      else if stat = 429 \<or> 500 \<le> stat \<and> stat \<le> 599 then DEGRADED
      else if stat < 200 \<or> 299 < stat then CS_ERROR
      else if parsed then CONNECTED else CS_ERROR)"

fun nextConnectionState ::
  "connection_state \<Rightarrow> connection_event \<Rightarrow> connection_context \<Rightarrow> connection_state" where
  "nextConnectionState state Disconnected context = NOT_CONFIGURED"
| "nextConnectionState state DeclaredImportOnly context = IMPORT_ONLY"
| "nextConnectionState state DeclaredManual context = CS_MANUAL"
| "nextConnectionState state DeclaredUnsupported context = UNSUPPORTED"
| "nextConnectionState state Detected context =
     (if state = NOT_CONFIGURED then DETECTED else state)"
| "nextConnectionState state CredentialRequired context =
     (if state \<in> {NOT_CONFIGURED, DETECTED, READY_TO_ENABLE} then NEEDS_AUTH else state)"
| "nextConnectionState state CredentialStored context =
     (if state \<in> {NEEDS_AUTH, AUTH_EXPIRED, DETECTED} then READY_TO_ENABLE else state)"
| "nextConnectionState state EnableRequested context =
     (if state = NEEDS_AUTH \<or> state = AUTH_EXPIRED \<or> state \<in> set declaredStates then state
      else CONNECTING)"
| "nextConnectionState state (HttpResponse stat parsed) context =
     afterResponse state stat parsed context"
| "nextConnectionState state (LocalRead parsed) context =
     (if state \<in> set declaredStates then state else if parsed then CONNECTED else CS_ERROR)"
| "nextConnectionState state (NetworkFailureEvent n) context =
     (if state \<in> set declaredStates then state
      else if n \<ge> NETWORK_FAILURE_ERROR_THRESHOLD then CS_ERROR else DEGRADED)"
| "nextConnectionState state ExpiryPassed context =
     (if state = CONNECTED \<or> state = DEGRADED then STALE else state)"

section \<open>Sentences and instructions\<close>

fun connectionSentence :: "connection_state \<Rightarrow> string" where
  "connectionSentence NOT_CONFIGURED = ''Not connected.''"
| "connectionSentence DETECTED = ''Found on this machine but not collecting yet.''"
| "connectionSentence NEEDS_AUTH = ''Waiting for a credential.''"
| "connectionSentence READY_TO_ENABLE = ''Ready to start collecting.''"
| "connectionSentence CONNECTING = ''Connecting.''"
| "connectionSentence CONNECTED = ''Connected and collecting.''"
| "connectionSentence DEGRADED = ''The provider is refusing reads for now.''"
| "connectionSentence STALE = ''The last reading is older than it should be.''"
| "connectionSentence AUTH_EXPIRED = ''The stored credential stopped working.''"
| "connectionSentence IMPORT_ONLY = ''Reads only what you import. Nothing is collected automatically.''"
| "connectionSentence CS_MANUAL = ''Shows the plan you entered yourself.''"
| "connectionSentence UNSUPPORTED = ''No safe automatic source exists for this product yet.''"
| "connectionSentence CS_ERROR = ''This connection failed and needs a look.''"

fun connectionNextAction :: "connection_state \<Rightarrow> string" where
  "connectionNextAction NOT_CONFIGURED = ''Connect''"
| "connectionNextAction DETECTED = ''Enable local integration''"
| "connectionNextAction NEEDS_AUTH = ''Add credential''"
| "connectionNextAction READY_TO_ENABLE = ''Enable''"
| "connectionNextAction CONNECTING = ''Wait''"
| "connectionNextAction CONNECTED = ''Refresh now''"
| "connectionNextAction DEGRADED = ''Wait for the next retry''"
| "connectionNextAction STALE = ''Refresh now''"
| "connectionNextAction AUTH_EXPIRED = ''Reconnect''"
| "connectionNextAction IMPORT_ONLY = ''Import a payload''"
| "connectionNextAction CS_MANUAL = ''Edit plan''"
| "connectionNextAction UNSUPPORTED = ''Add manual plan''"
| "connectionNextAction CS_ERROR = ''View diagnostics''"

datatype connection_reason =
    TokenExpired | ReadingExpired | ToolNotRunning | ProviderRefusing | ShapeMismatch
  | NetworkUnreachable | NoCredential

fun reason_str :: "connection_reason \<Rightarrow> string" where
  "reason_str TokenExpired = ''token_expired''"
| "reason_str ReadingExpired = ''reading_expired''"
| "reason_str ToolNotRunning = ''tool_not_running''"
| "reason_str ProviderRefusing = ''provider_refusing''"
| "reason_str ShapeMismatch = ''shape_mismatch''"
| "reason_str NetworkUnreachable = ''network_unreachable''"
| "reason_str NoCredential = ''no_credential''"

definition CONNECTION_REASONS :: "connection_reason list" where
  "CONNECTION_REASONS =
     [TokenExpired, ReadingExpired, ToolNotRunning, ProviderRefusing, ShapeMismatch,
      NetworkUnreachable, NoCredential]"

interpretation connection_reason_words: vocabulary reason_str CONNECTION_REASONS
proof unfold_locales
  show "reason_str x = reason_str y \<Longrightarrow> x = y" for x y by (cases x; cases y) simp_all
  show "x \<in> set CONNECTION_REASONS" for x by (cases x) (simp_all add: CONNECTION_REASONS_def)
qed

lemmas connection_reason_simps [vocab_simps, simp] = connection_reason_words.decode_code connection_reason_words.code_eq_iff

fun availabilityConnectionReason :: "snapshot_availability \<Rightarrow> connection_reason option" where
  "availabilityConnectionReason MissingCredentials = Some NoCredential"
| "availabilityConnectionReason ExpiredCredentials = Some TokenExpired"
| "availabilityConnectionReason AccessDenied = Some ProviderRefusing"
| "availabilityConnectionReason MissingSubscription = None"
| "availabilityConnectionReason Unlimited = None"
| "availabilityConnectionReason QuotaUnavailable = None"
| "availabilityConnectionReason RateLimited = Some ProviderRefusing"
| "availabilityConnectionReason NetworkFailure = Some NetworkUnreachable"
| "availabilityConnectionReason SchemaDrift = Some ShapeMismatch"

fun connectionReasonSentence :: "connection_reason \<Rightarrow> string" where
  "connectionReasonSentence TokenExpired = ''The credential this connection uses stopped working.''"
| "connectionReasonSentence ReadingExpired = ''The newest reading is older than the window it describes.''"
| "connectionReasonSentence ToolNotRunning = ''The local tool has not written a reading yet.''"
| "connectionReasonSentence ProviderRefusing = ''The provider refused the last read.''"
| "connectionReasonSentence ShapeMismatch = ''The answer did not match the shape this build reads.''"
| "connectionReasonSentence NetworkUnreachable = ''The last read never reached the provider.''"
| "connectionReasonSentence NoCredential = ''No credential has been stored for this connection.''"

record connection_status =
  st_state :: connection_state
  st_reason :: "connection_reason option"
  st_instruction :: string

fun reasonInstruction :: "connection_reason \<Rightarrow> string option \<Rightarrow> string" where
  "reasonInstruction TokenExpired tool =
     (case tool of None \<Rightarrow> ''Sign in again where this credential was created.''
      | Some t \<Rightarrow> ''Open '' @ t @ '' to refresh'')"
| "reasonInstruction ReadingExpired tool =
     (case tool of None \<Rightarrow> ''Refresh to read this connection again.''
      | Some t \<Rightarrow> ''Open '' @ t @ '' to refresh'')"
| "reasonInstruction ToolNotRunning tool =
     (case tool of None \<Rightarrow> ''Start the tool that writes this reading.''
      | Some t \<Rightarrow> ''Open '' @ t @ '' once so it writes a reading'')"
| "reasonInstruction ProviderRefusing tool = ''Wait for the next retry.''"
| "reasonInstruction ShapeMismatch tool =
     (case tool of None \<Rightarrow> ''Reconnect, then report this if it keeps happening.''
      | Some t \<Rightarrow> ''Reconnect '' @ t @ '', then report this if it keeps happening'')"
| "reasonInstruction NetworkUnreachable tool = ''Check the network, then retry.''"
| "reasonInstruction NoCredential tool = ''Add the credential this connection needs.''"

definition connectionStatus ::
  "connection_state \<Rightarrow> connection_reason option \<Rightarrow> string option \<Rightarrow> connection_status" where
  "connectionStatus state reason tool =
     \<lparr>st_state = state, st_reason = reason,
      st_instruction = (case reason of None \<Rightarrow> connectionNextAction state
                        | Some r \<Rightarrow> reasonInstruction r tool)\<rparr>"

section \<open>The catalogue\<close>

datatype catalogue_id =
    C_Claude | C_Openrouter | C_Codex | C_Antigravity | C_Opencode
  | C_Grok | C_Kimi

fun catalogue_str :: "catalogue_id \<Rightarrow> string" where
  "catalogue_str C_Claude = ''claude''"
| "catalogue_str C_Openrouter = ''openrouter''"
| "catalogue_str C_Codex = ''codex''"
| "catalogue_str C_Antigravity = ''antigravity''"
| "catalogue_str C_Opencode = ''opencode''"
| "catalogue_str C_Grok = ''grok''"
| "catalogue_str C_Kimi = ''kimi''"

definition CATALOGUE_PROVIDER_IDS :: "catalogue_id list" where
  "CATALOGUE_PROVIDER_IDS =
     [C_Claude, C_Openrouter, C_Codex, C_Antigravity, C_Opencode,
      C_Grok, C_Kimi]"

interpretation catalogue_id_words: vocabulary catalogue_str CATALOGUE_PROVIDER_IDS
proof unfold_locales
  show "catalogue_str x = catalogue_str y \<Longrightarrow> x = y" for x y by (cases x; cases y) simp_all
  show "x \<in> set CATALOGUE_PROVIDER_IDS" for x by (cases x) (simp_all add: CATALOGUE_PROVIDER_IDS_def)
qed

lemmas catalogue_id_simps [vocab_simps, simp] = catalogue_id_words.decode_code catalogue_id_words.code_eq_iff

datatype catalogue_platform =
    Windows | Macos | Linux

fun platform_str :: "catalogue_platform \<Rightarrow> string" where
  "platform_str Windows = ''windows''"
| "platform_str Macos = ''macos''"
| "platform_str Linux = ''linux''"

definition CATALOGUE_PLATFORMS :: "catalogue_platform list" where
  "CATALOGUE_PLATFORMS =
     [Windows, Macos, Linux]"

interpretation catalogue_platform_words: vocabulary platform_str CATALOGUE_PLATFORMS
proof unfold_locales
  show "platform_str x = platform_str y \<Longrightarrow> x = y" for x y by (cases x; cases y) simp_all
  show "x \<in> set CATALOGUE_PLATFORMS" for x by (cases x) (simp_all add: CATALOGUE_PLATFORMS_def)
qed

lemmas catalogue_platform_simps [vocab_simps, simp] = catalogue_platform_words.decode_code catalogue_platform_words.code_eq_iff

datatype catalogue_auth_mode =
    ExistingLocalCli | ApiKey | ManualAuth

fun auth_mode_str :: "catalogue_auth_mode \<Rightarrow> string" where
  "auth_mode_str ExistingLocalCli = ''existing_local_cli''"
| "auth_mode_str ApiKey = ''api_key''"
| "auth_mode_str ManualAuth = ''manual''"

definition CATALOGUE_AUTH_MODES :: "catalogue_auth_mode list" where
  "CATALOGUE_AUTH_MODES =
     [ExistingLocalCli, ApiKey, ManualAuth]"

interpretation catalogue_auth_mode_words: vocabulary auth_mode_str CATALOGUE_AUTH_MODES
proof unfold_locales
  show "auth_mode_str x = auth_mode_str y \<Longrightarrow> x = y" for x y by (cases x; cases y) simp_all
  show "x \<in> set CATALOGUE_AUTH_MODES" for x by (cases x) (simp_all add: CATALOGUE_AUTH_MODES_def)
qed

lemmas catalogue_auth_mode_simps [vocab_simps, simp] = catalogue_auth_mode_words.decode_code catalogue_auth_mode_words.code_eq_iff

datatype capability_mode = Automatic | ManualMode | EventDriven

datatype capability_maturity = Supported | Experimental

record platform_capability =
  cap_mode :: capability_mode
  cap_maturity :: capability_maturity
  cap_label :: string

definition cap_supported :: platform_capability where
  "cap_supported = \<lparr>cap_mode = Automatic, cap_maturity = Supported, cap_label = ''Supported''\<rparr>"

definition cap_eventDriven :: platform_capability where
  "cap_eventDriven = \<lparr>cap_mode = EventDriven, cap_maturity = Supported, cap_label = ''Event driven''\<rparr>"

definition cap_manual :: platform_capability where
  "cap_manual = \<lparr>cap_mode = ManualMode, cap_maturity = Supported, cap_label = ''Manual''\<rparr>"

definition cap_manualExperimental :: platform_capability where
  "cap_manualExperimental =
     \<lparr>cap_mode = ManualMode, cap_maturity = Experimental, cap_label = ''Manual experimental''\<rparr>"

fun catalogueCapabilities :: "catalogue_id \<Rightarrow> catalogue_platform \<Rightarrow> platform_capability" where
  "catalogueCapabilities C_Claude _ = cap_eventDriven"
| "catalogueCapabilities C_Antigravity p = (if p = Windows then cap_manualExperimental else cap_manual)"
| "catalogueCapabilities _ _ = cap_supported"

record catalogue_entry =
  ce_providerId :: catalogue_id
  ce_displayName :: string
  ce_connectionState :: connection_state
  ce_capabilities :: "catalogue_platform \<Rightarrow> platform_capability"
  ce_authMode :: catalogue_auth_mode
  ce_action :: string

text \<open>\<open>isCatalogueProviderId\<close> and \<open>isCatalogueAuthMode\<close>, with the word they recognise.\<close>

definition isCatalogueProviderId :: "js \<Rightarrow> catalogue_id option" where
  "isCatalogueProviderId v = read_word catalogue_str CATALOGUE_PROVIDER_IDS v"

definition isCatalogueAuthMode :: "js \<Rightarrow> catalogue_auth_mode option" where
  "isCatalogueAuthMode v = read_word auth_mode_str CATALOGUE_AUTH_MODES v"

definition catalogueState :: "js \<Rightarrow> connection_state" where
  "catalogueState v =
     (case read_word state_str CONNECTION_STATES v of Some s \<Rightarrow> s | None \<Rightarrow> NOT_CONFIGURED)"

definition actionFor :: "catalogue_id \<Rightarrow> connection_state \<Rightarrow> string" where
  "actionFor providerId state =
     (if providerId = C_Codex \<and> (state = NEEDS_AUTH \<or> state = AUTH_EXPIRED) then ''Run codex login''
      else if providerId = C_Grok \<and> (state = NEEDS_AUTH \<or> state = AUTH_EXPIRED) then ''Run grok login''
      else if providerId = C_Kimi \<and> (state = NEEDS_AUTH \<or> state = AUTH_EXPIRED) then ''Run kimi login''
      else connectionNextAction state)"

text \<open>\<open>entry.honesty?.connectorId\<close>, and the object test of the loop (\<open>typeof [] === "object"\<close>,
  and an array has none of the properties read).\<close>

definition connectorId :: "js \<Rightarrow> js" where
  "connectorId entry = prop_of (prop_of entry ''honesty'') ''connectorId''"

definition is_object :: "js \<Rightarrow> bool" where
  "is_object v \<longleftrightarrow> isRecord v \<or> isArray v"

text \<open>\<open>found.set(providerId, entry)\<close> over the document: the last entry of an id stays.\<close>

definition found_step :: "(catalogue_id \<times> js) list \<Rightarrow> js \<Rightarrow> (catalogue_id \<times> js) list" where
  "found_step found candidate =
     (if \<not> is_object candidate then found else
        case isCatalogueProviderId (connectorId candidate) of
          None \<Rightarrow> found | Some p \<Rightarrow> AList.update p candidate found)"

definition entry_row :: "js \<Rightarrow> (catalogue_id \<Rightarrow> js) \<Rightarrow> catalogue_id \<Rightarrow> catalogue_entry option" where
  "entry_row source states providerId =
     (case (prop_of source ''displayName'', prop_of source ''authModes'', prop_of source ''platforms'') of
        (Str name, Arr (mode # _), Arr platforms) \<Rightarrow>
          (case isCatalogueAuthMode mode of
             None \<Rightarrow> None
           | Some authMode \<Rightarrow>
               if \<not> list_all (\<lambda>p. Str (platform_str p) \<in> set platforms) [Windows, Macos, Linux] then None
               else
                 (let state = catalogueState (states providerId) in
                  Some \<lparr>ce_providerId = providerId, ce_displayName = name, ce_connectionState = state,
                        ce_capabilities = catalogueCapabilities providerId, ce_authMode = authMode,
                        ce_action = actionFor providerId state\<rparr>))
      | _ \<Rightarrow> None)"

definition catalogue_row :: "(catalogue_id \<times> js) list \<Rightarrow> (catalogue_id \<Rightarrow> js) \<Rightarrow> catalogue_id \<Rightarrow>
  catalogue_entry option" where
  "catalogue_row found states providerId =
     (case map_of found providerId of
        None \<Rightarrow> None
      | Some source \<Rightarrow> entry_row source states providerId)"

definition queryProviderCatalogue :: "js \<Rightarrow> (catalogue_id \<Rightarrow> js) \<Rightarrow> catalogue_entry list" where
  "queryProviderCatalogue generated states =
     (case prop_of generated ''providers'' of
        Arr candidates \<Rightarrow>
          List.map_filter (catalogue_row (foldl found_step [] candidates) states) CATALOGUE_PROVIDER_IDS
      | _ \<Rightarrow> [])"

datatype catalogue_item =
    Connectable catalogue_entry
  | Planned (specId: string) (planned_displayName: string)

definition planned_row :: "js \<Rightarrow> catalogue_item option" where
  "planned_row candidate =
     (if \<not> is_object candidate then None
      else if connectorId candidate = Str ''manual'' then None
      else if isCatalogueProviderId (connectorId candidate) \<noteq> None then None
      else
        case (prop_of candidate ''id'', prop_of candidate ''displayName'') of
          (Str i, Str name) \<Rightarrow> Some (Planned i name)
        | _ \<Rightarrow> None)"

definition queryCatalogueRows :: "js \<Rightarrow> (catalogue_id \<Rightarrow> js) \<Rightarrow> catalogue_item list" where
  "queryCatalogueRows generated states =
     map Connectable (queryProviderCatalogue generated states) @
     (case prop_of generated ''providers'' of
        Arr candidates \<Rightarrow> List.map_filter planned_row candidates
      | _ \<Rightarrow> [])"

section \<open>The lifecycle\<close>

text \<open>A connection record: its state, and whether it has ever been connected. \<open>advance\<close> applies one
  event with the context the record carries; the fact is never set back.\<close>

record connection =
  con_state :: connection_state
  con_ever :: bool

definition advance :: "connection \<Rightarrow> connection_event \<Rightarrow> connection" where
  "advance c e =
     (let s = nextConnectionState (con_state c) e \<lparr>everConnected = con_ever c\<rparr>
      in \<lparr>con_state = s, con_ever = con_ever c \<or> s = CONNECTED\<rparr>)"

definition fresh_connection :: connection where
  "fresh_connection = \<lparr>con_state = NOT_CONFIGURED, con_ever = False\<rparr>"

definition replay :: "connection_event list \<Rightarrow> connection" where
  "replay es = foldl advance fresh_connection es"

inductive connection_step :: "connection \<Rightarrow> connection_event \<Rightarrow> connection \<Rightarrow> bool" where
  "advance c e = c' \<Longrightarrow> connection_step c e c'"

inductive_simps connection_step_iff: "connection_step c e c'"

inductive reachable :: "connection \<Rightarrow> bool" where
  start: "reachable fresh_connection"
| step: "reachable c \<Longrightarrow> connection_step c e c' \<Longrightarrow> reachable c'"


text \<open>Events that report an attempt, as opposed to a decision of the user or the product.\<close>

fun attempt :: "connection_event \<Rightarrow> bool" where
  "attempt (HttpResponse _ _) = True"
| "attempt (LocalRead _) = True"
| "attempt (NetworkFailureEvent _) = True"
| "attempt ExpiryPassed = True"
| "attempt _ = False"

lemma replay_snoc [simp]: "replay (es @ [e]) = advance (replay es) e"
  by (simp add: replay_def)

lemma replay_Nil [simp]: "replay [] = fresh_connection"
  by (simp add: replay_def)

lemma reachable_replay: "reachable (replay es)"
  by (induction es rule: rev_induct) (auto simp: connection_step_iff intro: reachable.intros)

lemma reachable_iff_replay: "reachable c \<longleftrightarrow> (\<exists>es. c = replay es)"
proof
  show "reachable c \<Longrightarrow> \<exists>es. c = replay es"
  proof (induction rule: reachable.induct)
    case (step c e c')
    then show ?case by (metis connection_step_iff replay_snoc)
  qed (metis replay_Nil)
qed (auto simp: reachable_replay)

lemma con_ever_mono: "con_ever (replay es) \<Longrightarrow> con_ever (replay (es @ fs))"
  by (induction fs rule: rev_induct) (simp_all add: advance_def Let_def flip: append_assoc)

lemma con_ever_connected: "con_state (replay es) = CONNECTED \<Longrightarrow> con_ever (replay es)"
  by (cases es rule: rev_cases) (auto simp: advance_def Let_def fresh_connection_def)







text \<open>A declared state (not configured, import only, manual, unsupported) is left only by a
  decision: no response, local read, network failure or expiry moves it, and neither does a
  request to enable it.\<close>

theorem declared_states_hold:
  assumes "con_state c \<in> set declaredStates"
    and "attempt e \<or> e = EnableRequested"
  shows "con_state (advance c e) = con_state c \<and> con_ever (advance c e) = con_ever c"
  using assms by (cases e) (auto simp: advance_def Let_def afterResponse_def declaredStates_def)

theorem declared_states_hold_witness:
  "con_state (advance \<lparr>con_state = IMPORT_ONLY, con_ever = False\<rparr> (HttpResponse 200 True)) = IMPORT_ONLY"
  using declared_states_hold [of "\<lparr>con_state = IMPORT_ONLY, con_ever = False\<rparr>" "HttpResponse 200 True"]
  by (simp add: declaredStates_def)

text \<open>Once a connection has been connected, whatever happens in between, an authentication
  refusal that reaches it says that the credential stopped working, never that there was none.\<close>

theorem refusal_after_success:
  assumes "con_state (replay es) = CONNECTED"
    and "con_state (replay (es @ fs)) \<notin> set declaredStates"
    and "stat = 401 \<or> stat = 403"
  shows "con_state (replay (es @ fs @ [HttpResponse stat parsed])) = AUTH_EXPIRED"
proof -
  have "con_ever (replay (es @ fs))"
    using assms(1) con_ever_connected con_ever_mono by blast
  with assms(2,3) show ?thesis
    by (auto simp: advance_def Let_def afterResponse_def simp flip: append_assoc)
qed

theorem refusal_after_success_witness:
  "con_state (replay ([Detected, EnableRequested, LocalRead True] @
     [HttpResponse 404 False] @ [HttpResponse 401 False])) = AUTH_EXPIRED"
  by (rule refusal_after_success)
     (simp_all add: replay_def fresh_connection_def advance_def Let_def afterResponse_def declaredStates_def)

text \<open>A network failure counts its run: below the threshold it degrades, from the threshold on it
  breaks the connection.\<close>

fun failure_run :: "nat \<Rightarrow> connection_event list" where
  "failure_run 0 = []"
| "failure_run (Suc n) = failure_run n @ [NetworkFailureEvent (int (Suc n))]"

lemma failure_run_state:
  assumes "con_state c \<notin> set declaredStates" and "0 < n"
  shows "con_state (foldl advance c (failure_run n)) = (if n \<ge> 3 then CS_ERROR else DEGRADED)"
  using assms(2)
proof (induction n rule: nat_induct_non_zero)
  case 1
  then show ?case
    using assms(1) by (simp add: advance_def Let_def NETWORK_FAILURE_ERROR_THRESHOLD_def)
next
  case (Suc n)
  then show ?case
    by (auto simp: advance_def Let_def NETWORK_FAILURE_ERROR_THRESHOLD_def declaredStates_def)
qed

section \<open>The catalogue joins by id\<close>

definition names_catalogue_id :: "catalogue_id \<Rightarrow> js \<Rightarrow> bool" where
  "names_catalogue_id p candidate \<longleftrightarrow>
     is_object candidate \<and> isCatalogueProviderId (connectorId candidate) = Some p"

lemma found_lookup:
  "map_of (foldl found_step m candidates) p =
     (case filter (names_catalogue_id p) candidates of [] \<Rightarrow> map_of m p | xs \<Rightarrow> Some (last xs))"
proof (induction candidates arbitrary: m)
  case (Cons c cs)
  have "map_of (found_step m c) p = (if names_catalogue_id p c then Some c else map_of m p)"
    by (auto simp: found_step_def names_catalogue_id_def update_conv' split: option.splits)
  then show ?case using Cons.IH [of "found_step m c"] by (auto split: list.splits)
qed simp

lemma entry_row_id: "entry_row source states p = Some e \<Longrightarrow> ce_providerId e = p"
  by (auto simp: entry_row_def Let_def split: option.splits js.splits list.splits if_splits)

lemma catalogue_row_id: "catalogue_row found states p = Some e \<Longrightarrow> ce_providerId e = p"
  by (auto simp: catalogue_row_def entry_row_id split: option.splits)

lemma catalogue_row_found:
  "catalogue_row (foldl found_step [] cs) states p =
     (case filter (names_catalogue_id p) cs of [] \<Rightarrow> None | xs \<Rightarrow> entry_row (last xs) states p)"
  using found_lookup [of "[]" cs p] by (simp add: catalogue_row_def split: list.split)

text \<open>The catalogue lists its providers in the fixed order of \<open>CATALOGUE_PROVIDER_IDS\<close>, each at
  most once, and each entry is the one the last candidate of that id in the document gives, under
  the state stored for it.\<close>

theorem catalogue_exact:
  "subseq (map ce_providerId (queryProviderCatalogue (Obj [(''providers'', Arr cs)]) states)) CATALOGUE_PROVIDER_IDS
   \<and> distinct (map ce_providerId (queryProviderCatalogue (Obj [(''providers'', Arr cs)]) states))
   \<and> set (queryProviderCatalogue (Obj [(''providers'', Arr cs)]) states) =
       {e. \<exists>p c. filter (names_catalogue_id p) cs \<noteq> [] \<and> c = last (filter (names_catalogue_id p) cs) \<and>
           entry_row c states p = Some e}"
proof -
  let ?f = "catalogue_row (foldl found_step [] cs) states"
  have q: "queryProviderCatalogue (Obj [(''providers'', Arr cs)]) states =
      List.map_filter ?f CATALOGUE_PROVIDER_IDS"
    by (simp add: queryProviderCatalogue_def)
  have sub: "subseq (map ce_providerId (List.map_filter ?f CATALOGUE_PROVIDER_IDS)) CATALOGUE_PROVIDER_IDS"
    by (rule subseq_map_filter) (auto dest: catalogue_row_id)
  have "distinct CATALOGUE_PROVIDER_IDS" by (simp add: CATALOGUE_PROVIDER_IDS_def)
  with sub have d: "distinct (map ce_providerId (List.map_filter ?f CATALOGUE_PROVIDER_IDS))"
    by (rule subseq_distinct)
  have row: "?f p = Some e \<longleftrightarrow> filter (names_catalogue_id p) cs \<noteq> [] \<and>
      entry_row (last (filter (names_catalogue_id p) cs)) states p = Some e" for p e
    unfolding catalogue_row_found by (cases "filter (names_catalogue_id p) cs") simp_all
  have "set (List.map_filter ?f CATALOGUE_PROVIDER_IDS) = {e. \<exists>p. ?f p = Some e}"
    using catalogue_id_words.words_complete by (force simp: set_map_filter)
  then show ?thesis unfolding q row using sub d by blast
qed

end
