(* ===== verification/Presentation.thy ===== *)
theory Presentation
  imports ConnectionState
begin

text \<open>
  packages/core/src/provider-presentation.ts with contracts/claude-presentation.json: the name,
  order and meaning of each meter. Codes are matched in upper case. \<open>Number.isSafeInteger\<close>
  bounds the ordinals and durations the KIMI codes carry. A code of the model has no \<open>$\<close>, the one
  character \<open>replaceAll\<close> would read specially (\<open>safeMeter\<close> admits none).
\<close>

section \<open>Claude\<close>

datatype label_key =
    ClaudeCurrentSession | ClaudeWeeklyAllModels | ClaudeWeeklyOAuthApps
  | ClaudeWeeklyFable | ClaudeWeeklyModel | ClaudeExtraUsage
  | AntigravityFiveHourQuota | AntigravityWeeklyQuota | AntigravityThirdPartySession
  | AntigravityThirdPartyWeekly | CodexMonthlyCreditLimit | CodexCredits
  | OpenrouterKeyAllowance | OpenrouterAccountBalance | KimiWeeklyUsed
  | KimiFiveHourUsed | KimiFiveMinuteUsed | KimiDailyUsed
  | KimiSevenDayUsed | KimiUsageUsed | OpencodeFiveHour
  | OpencodeWeekly | OpencodeMonthly | CursorLegacyHidden

record claude_presentation =
  cp_labelKey :: label_key
  cp_defaultLabel :: string
  cp_compactLabel :: string
  cp_order :: int
  cp_model :: "string option"
  cp_modelScoped :: bool

fun CLAUDE_METER_ENGLISH :: "label_key \<Rightarrow> string" where
  "CLAUDE_METER_ENGLISH ClaudeCurrentSession = ''Current session''"
| "CLAUDE_METER_ENGLISH ClaudeWeeklyAllModels = ''Weekly, all models''"
| "CLAUDE_METER_ENGLISH ClaudeWeeklyOAuthApps = ''Weekly, OAuth Apps''"
| "CLAUDE_METER_ENGLISH ClaudeWeeklyFable = ''Weekly, Fable''"
| "CLAUDE_METER_ENGLISH ClaudeWeeklyModel = ''Weekly, {model}''"
| "CLAUDE_METER_ENGLISH ClaudeExtraUsage = ''Extra usage''"
| "CLAUDE_METER_ENGLISH _ = []"

definition MODEL_WEEKLY_PREFIX :: string where
  "MODEL_WEEKLY_PREFIX = ''SEVEN_DAY_''"

definition model_families :: "string list" where
  "model_families = [''Fable'', ''Opus'', ''Sonnet'', ''Haiku'']"

text \<open>\<open>split(/[_\s-]+/u).filter(Boolean)\<close>: the maximal runs of other characters.\<close>

definition is_separator :: "char \<Rightarrow> bool" where
  "is_separator c \<longleftrightarrow> c = CHR ''_'' \<or> c = CHR ''-'' \<or> is_space c"

fun split_parts :: "string \<Rightarrow> string \<Rightarrow> string list" where
  "split_parts acc [] = (if acc = [] then [] else [acc])"
| "split_parts acc (c # cs) =
     (if is_separator c then (if acc = [] then split_parts [] cs else acc # split_parts [] cs)
      else split_parts (acc @ [c]) cs)"

text \<open>One turn of the loop that builds the words of a model name.\<close>

definition capitalise :: "string \<Rightarrow> string" where
  "capitalise part =
     (let lower = toLowerCase part in
      if lower = ''oauth'' then ''OAuth''
      else if lower = ''api'' then ''API''
      else toUpperCase (take 1 lower) @ drop 1 lower)"

definition add_part :: "string list \<Rightarrow> string \<Rightarrow> string list" where
  "add_part words part =
     (if part \<noteq> [] \<and> list_all is_digit part \<and> words \<noteq> [] \<and> last words \<noteq> [] \<and> is_digit (last (last words))
      then butlast words @ [last words @ ''.'' @ part]
      else words @ [capitalise part])"

fun join :: "string \<Rightarrow> string list \<Rightarrow> string" where
  "join sep [] = []"
| "join sep [w] = w"
| "join sep (w # ws) = w @ sep @ join sep ws"

definition in_family :: "string \<Rightarrow> string \<Rightarrow> bool" where
  "in_family family model \<longleftrightarrow> model = family \<or> startsWith model (family @ '' '')"

definition modelName :: "string \<Rightarrow> string option" where
  "modelName code =
     (if \<not> startsWith code MODEL_WEEKLY_PREFIX then None else
        let parts = split_parts [] (drop (length MODEL_WEEKLY_PREFIX) code) in
        if parts = [] then None else
          let model = join '' '' (foldl add_part [] parts) in
          if list_ex (\<lambda>family. in_family family model) model_families then Some model else None)"

text \<open>\<open>template.replaceAll("{model}", model ?? "")\<close>\<close>

fun replace_model :: "string \<Rightarrow> string \<Rightarrow> string" where
  "replace_model m [] = []"
| "replace_model m (c # cs) =
     (if startsWith (c # cs) ''{model}'' then m @ replace_model m (drop 6 cs)
      else c # replace_model m cs)"

definition labelOf :: "label_key \<Rightarrow> string option \<Rightarrow> (label_key \<Rightarrow> string option) \<Rightarrow> string" where
  "labelOf key model copy =
     replace_model (case model of None \<Rightarrow> [] | Some m \<Rightarrow> m)
       (case copy key of None \<Rightarrow> CLAUDE_METER_ENGLISH key | Some t \<Rightarrow> t)"

text \<open>\<open>model.toLowerCase().split(" ")[0]\<close>\<close>

definition first_word :: "string \<Rightarrow> string" where
  "first_word model = takeWhile (\<lambda>c. c \<noteq> CHR '' '') (toLowerCase model)"

definition compactModelLabel :: "string \<Rightarrow> string list \<Rightarrow> string" where
  "compactModelLabel model familyCodes =
     (let familyModels =
        remdups (filter (\<lambda>m. startsWith m ''Fable'') (List.map_filter (modelName \<circ> toUpperCase) familyCodes))
      in if length familyModels \<le> 1 then ''fable7d'' else first_word model @ ''7d'')"

definition isClaudeModelScopedMeter :: "string \<Rightarrow> bool" where
  "isClaudeModelScopedMeter code \<longleftrightarrow> modelName (toUpperCase code) \<noteq> None"

definition claude_fixed :: "label_key \<Rightarrow> string \<Rightarrow> int \<Rightarrow> claude_presentation" where
  "claude_fixed key short order =
     \<lparr>cp_labelKey = key, cp_defaultLabel = CLAUDE_METER_ENGLISH key, cp_compactLabel = short,
      cp_order = order, cp_model = None, cp_modelScoped = False\<rparr>"

definition claude_model_presentation :: "string \<Rightarrow> string list \<Rightarrow> claude_presentation" where
  "claude_model_presentation model familyCodes =
     (let fable = in_family ''Fable'' model;
          order = (if fable then 30 else if model = ''Opus'' then 40 else if model = ''Sonnet'' then 41 else 42);
          key = (if fable then ClaudeWeeklyFable else ClaudeWeeklyModel)
      in \<lparr>cp_labelKey = key, cp_defaultLabel = labelOf key (Some model) (\<lambda>_. None),
          cp_compactLabel =
            (if fable then compactModelLabel model familyCodes else first_word model @ ''7d''),
          cp_order = order, cp_model = Some model, cp_modelScoped = True\<rparr>)"

definition claudeMeterPresentation :: "string \<Rightarrow> string list \<Rightarrow> claude_presentation option" where
  "claudeMeterPresentation code familyCodes =
     (let meter = toUpperCase code in
      if meter \<in> set [''FIVE_HOUR'', ''SESSION''] then Some (claude_fixed ClaudeCurrentSession ''5h'' 10)
      else if meter \<in> set [''SEVEN_DAY''] then Some (claude_fixed ClaudeWeeklyAllModels ''7d'' 20)
      else if meter \<in> set [''SEVEN_DAY_OAUTH_APPS''] then
        Some (claude_fixed ClaudeWeeklyOAuthApps ''oauth7d'' 21)
      else
        case modelName meter of
          Some model \<Rightarrow> Some (claude_model_presentation model familyCodes)
        | None \<Rightarrow>
            if meter \<in> set [''EXTRA_USAGE''] then Some (claude_fixed ClaudeExtraUsage ''extra'' 50)
            else None)"

definition claudeMeterLabel :: "string \<Rightarrow> (label_key \<Rightarrow> string option) \<Rightarrow> string option" where
  "claudeMeterLabel code copy =
     map_option (\<lambda>p. labelOf (cp_labelKey p) (cp_model p) copy) (claudeMeterPresentation code [])"

definition claudeMeterRank :: "string \<Rightarrow> int option" where
  "claudeMeterRank code = map_option cp_order (claudeMeterPresentation code [])"

definition claudeMeterCompactLabel :: "string \<Rightarrow> string option" where
  "claudeMeterCompactLabel code = map_option cp_compactLabel (claudeMeterPresentation code [])"

section \<open>Antigravity\<close>

record antigravity_presentation =
  ap_labelKey :: label_key
  ap_defaultLabel :: string
  ap_compactLabel :: string
  ap_order :: int

definition antigravity_entry :: "label_key \<Rightarrow> string \<Rightarrow> string \<Rightarrow> int \<Rightarrow> antigravity_presentation" where
  "antigravity_entry key label short order =
     \<lparr>ap_labelKey = key, ap_defaultLabel = label, ap_compactLabel = short, ap_order = order\<rparr>"

definition ANTIGRAVITY_PRESENTATION :: "(string \<times> antigravity_presentation) list" where
  "ANTIGRAVITY_PRESENTATION =
     [(''FIVE_HOUR'', antigravity_entry AntigravityFiveHourQuota ''5 hour quota'' ''5h'' 10),
      (''SEVEN_DAY'', antigravity_entry AntigravityWeeklyQuota ''Weekly quota'' ''7d'' 20),
      (''THIRD_PARTY_SESSION'',
         antigravity_entry AntigravityThirdPartySession ''Third party 5 hour quota'' ''3p5h'' 30),
      (''THIRD_PARTY_WEEKLY'',
         antigravity_entry AntigravityThirdPartyWeekly ''Third party weekly quota'' ''3p7d'' 40)]"

definition antigravityMeterPresentation :: "string \<Rightarrow> antigravity_presentation option" where
  "antigravityMeterPresentation code = map_of ANTIGRAVITY_PRESENTATION (toUpperCase code)"

definition antigravityMeterLabel :: "string \<Rightarrow> string option" where
  "antigravityMeterLabel code = map_option ap_defaultLabel (antigravityMeterPresentation code)"

definition antigravityMeterRank :: "string \<Rightarrow> int option" where
  "antigravityMeterRank code = map_option ap_order (antigravityMeterPresentation code)"

definition antigravityMeterCompactLabel :: "string \<Rightarrow> string option" where
  "antigravityMeterCompactLabel code = map_option ap_compactLabel (antigravityMeterPresentation code)"

section \<open>Every provider\<close>

datatype value_semantics = UsedValue | BalanceValue

record meter_presentation =
  mp_labelKey :: label_key
  mp_defaultLabel :: string
  mp_compactLabel :: string
  mp_order :: int
  mp_valueSemantics :: value_semantics
  mp_visible :: bool
  mp_displayAvailability :: bool

definition presentation ::
  "label_key \<Rightarrow> string \<Rightarrow> string \<Rightarrow> int \<Rightarrow> value_semantics \<Rightarrow> bool \<Rightarrow> bool \<Rightarrow> meter_presentation" where
  "presentation key label short order semantics visible displayAvailability =
     \<lparr>mp_labelKey = key, mp_defaultLabel = label, mp_compactLabel = short, mp_order = order,
      mp_valueSemantics = semantics, mp_visible = visible,
      mp_displayAvailability = displayAvailability\<rparr>"

text \<open>With the default arguments \<open>"used"\<close>, \<open>true\<close>, \<open>false\<close>.\<close>

definition presentation_of :: "label_key \<Rightarrow> string \<Rightarrow> string \<Rightarrow> int \<Rightarrow> meter_presentation" where
  "presentation_of key label short order = presentation key label short order UsedValue True False"

definition FIXED_PRESENTATION :: "(string \<times> meter_presentation) list" where
  "FIXED_PRESENTATION =
     [(''CODEX:MONTHLY_CREDIT_LIMIT'', presentation_of CodexMonthlyCreditLimit ''Monthly credit limit'' ''Monthly'' 40),
      (''CODEX:CREDITS'', presentation CodexCredits ''Credits'' ''Credits'' 100 BalanceValue True True),
      (''OPENROUTER:KEY_LIMIT'', presentation OpenrouterKeyAllowance ''Key allowance'' ''key'' 10 UsedValue True True),
      (''OPENROUTER:ACCOUNT_BALANCE'', presentation OpenrouterAccountBalance ''Account balance'' ''Balance'' 100 BalanceValue True True),
      (''KIMI:WEEKLY'', presentation_of KimiWeeklyUsed ''Weekly limit'' ''Weekly used'' 10),
      (''KIMI:FIVE_HOUR'', presentation_of KimiFiveHourUsed ''5 hour limit'' ''5h used'' 20),
      (''KIMI:FIVE_MINUTE'', presentation_of KimiFiveMinuteUsed ''5 minute limit'' ''5m used'' 24),
      (''KIMI:DAILY'', presentation_of KimiDailyUsed ''Daily limit'' ''1d used'' 25),
      (''KIMI:SEVEN_DAY'', presentation_of KimiSevenDayUsed ''7 day limit'' ''7d used'' 30),
      (''OPENCODE:FIVE_HOUR'', presentation_of OpencodeFiveHour ''5 hour limit'' ''5h'' 10),
      (''OPENCODE:SEVEN_DAY'', presentation_of OpencodeWeekly ''Weekly limit'' ''7d'' 20),
      (''OPENCODE:MONTHLY'', presentation_of OpencodeMonthly ''Monthly limit'' ''Monthly'' 30),
      (''CURSOR:AUTO'', presentation CursorLegacyHidden [] [] 90 UsedValue False False),
      (''CURSOR:API'', presentation CursorLegacyHidden [] [] 90 UsedValue False False),
      (''CURSOR:INCLUDED'', presentation CursorLegacyHidden [] [] 90 UsedValue False False)]"

definition claudeProviderPresentation :: "string \<Rightarrow> string list \<Rightarrow> meter_presentation option" where
  "claudeProviderPresentation code familyCodes =
     map_option (\<lambda>p. presentation_of (cp_labelKey p) (cp_defaultLabel p) (cp_compactLabel p) (cp_order p))
       (claudeMeterPresentation code familyCodes)"

definition antigravityProviderPresentation :: "string \<Rightarrow> meter_presentation option" where
  "antigravityProviderPresentation code =
     map_option (\<lambda>p. presentation_of (ap_labelKey p) (ap_defaultLabel p) (ap_compactLabel p) (ap_order p))
       (antigravityMeterPresentation code)"

text \<open>\<open>[1-9]\d*\<close> to the end of the text, as its digits.\<close>

definition ordinal_digits :: "string \<Rightarrow> string option" where
  "ordinal_digits s =
     (case s of [] \<Rightarrow> None
      | c # cs \<Rightarrow> if is_digit c \<and> c \<noteq> CHR ''0'' \<and> list_all is_digit cs then Some s else None)"

definition MAX_SAFE_INTEGER :: nat where
  "MAX_SAFE_INTEGER = 9007199254740991"

definition kimi_bases :: "string list" where
  "kimi_bases = [''WEEKLY'', ''FIVE_HOUR'', ''FIVE_MINUTE'', ''DAILY'', ''SEVEN_DAY'']"

text \<open>\<open>/^(WEEKLY|FIVE_HOUR|FIVE_MINUTE|DAILY|SEVEN_DAY)_([1-9]\d*)$/u\<close>\<close>

definition match_repeated :: "string \<Rightarrow> (string \<times> string) option" where
  "match_repeated meter =
     (case find (\<lambda>b. startsWith meter (b @ ''_'')) kimi_bases of
        None \<Rightarrow> None
      | Some b \<Rightarrow> map_option (Pair b) (ordinal_digits (drop (length b + 1) meter)))"

text \<open>\<open>/^WINDOW_([1-9]\d*)(?:_([1-9]\d*))?$/u\<close>\<close>

definition match_window :: "string \<Rightarrow> (string \<times> string option) option" where
  "match_window meter =
     (if \<not> startsWith meter ''WINDOW_'' then None else
        let rest = drop 7 meter; ds = takeWhile is_digit rest; after = dropWhile is_digit rest in
        case ordinal_digits ds of
          None \<Rightarrow> None
        | Some ds \<Rightarrow>
            (case after of
               [] \<Rightarrow> Some (ds, None)
             | c # cs \<Rightarrow>
                 if c = CHR ''_'' then map_option (\<lambda>os. (ds, Some os)) (ordinal_digits cs) else None))"

definition kimi_repeated :: "string \<Rightarrow> meter_presentation option" where
  "kimi_repeated meter =
     (case match_repeated meter of
        None \<Rightarrow> None
      | Some (b, ds) \<Rightarrow>
          (case map_of FIXED_PRESENTATION (''KIMI:'' @ b) of
             None \<Rightarrow> None
           | Some base \<Rightarrow>
               let ordinal = number_of_digits ds in
               if ordinal \<le> MAX_SAFE_INTEGER \<and> 2 \<le> ordinal
               then Some (base\<lparr>mp_defaultLabel := mp_defaultLabel base @ '' '' @ show_nat ordinal,
                               mp_compactLabel := mp_compactLabel base @ '' '' @ show_nat ordinal,
                               mp_order := mp_order base + int ordinal - 1\<rparr>)
               else None))"

text \<open>The unit a duration is shown in: the count, its name and its abbreviation.\<close>

definition duration_unit :: "nat \<Rightarrow> nat \<times> string \<times> string" where
  "duration_unit seconds =
     (if seconds mod 86400 = 0 then (seconds div 86400, ''day'', ''d'')
      else if seconds mod 3600 = 0 then (seconds div 3600, ''hour'', ''h'')
      else if seconds mod 60 = 0 then (seconds div 60, ''minute'', ''m'')
      else (seconds, ''second'', ''s''))"

definition kimi_window :: "string \<Rightarrow> meter_presentation option" where
  "kimi_window meter =
     (case match_window meter of
        None \<Rightarrow> None
      | Some (ds, os) \<Rightarrow>
          let seconds = number_of_digits ds;
              ordinal = (case os of None \<Rightarrow> 1 | Some o' \<Rightarrow> number_of_digits o')
          in if seconds \<le> MAX_SAFE_INTEGER \<and> ordinal \<le> MAX_SAFE_INTEGER \<and> 1 \<le> ordinal
             then
               (case duration_unit seconds of
                  (count, name, short) \<Rightarrow>
                    let suffix = (if ordinal = 1 then [] else '' '' @ show_nat ordinal)
                    in Some (presentation_of KimiUsageUsed
                         (show_nat count @ '' '' @ name @ '' limit'' @ suffix)
                         (show_nat count @ short @ '' used'' @ suffix)
                         (40 + int ordinal - 1)))
             else None)"

definition providerMeterPresentation ::
  "string \<Rightarrow> string \<Rightarrow> string list \<Rightarrow> meter_presentation option" where
  "providerMeterPresentation provider code familyCodes =
     (let normalizedProvider = toUpperCase provider; meter = toUpperCase code in
      if normalizedProvider = ''CLAUDE'' then claudeProviderPresentation meter familyCodes
      else if normalizedProvider = ''ANTIGRAVITY'' then antigravityProviderPresentation meter
      else
        case map_of FIXED_PRESENTATION (normalizedProvider @ '':'' @ meter) of
          Some fixed \<Rightarrow> Some fixed
        | None \<Rightarrow>
            if normalizedProvider = ''KIMI'' then
              (case kimi_repeated meter of
                 Some p \<Rightarrow> Some p
               | None \<Rightarrow>
                   (case kimi_window meter of
                      Some p \<Rightarrow> Some p
                    | None \<Rightarrow> Some (presentation_of KimiUsageUsed ''Usage limit'' ''Used'' 40)))
            else None)"

text \<open>\<open>found.compactLabel.split(" used", 1)[0]\<close>\<close>

fun before_used :: "string \<Rightarrow> string" where
  "before_used [] = []"
| "before_used (c # cs) = (if startsWith (c # cs) '' used'' then [] else c # before_used cs)"

definition providerMeterLabel :: "string \<Rightarrow> string \<Rightarrow> (label_key \<Rightarrow> string option) \<Rightarrow> string option" where
  "providerMeterLabel provider code copy =
     (if toUpperCase provider = ''CLAUDE'' then claudeMeterLabel code copy
      else
        case providerMeterPresentation provider code [] of
          None \<Rightarrow> None
        | Some found \<Rightarrow>
            let kimi = (toUpperCase provider = ''KIMI'');
                repeated = (if kimi then match_repeated (toUpperCase code) else None);
                dynamic = (if kimi then match_window (toUpperCase code) else None)
            in Some
              (case copy (mp_labelKey found) of
                 None \<Rightarrow> mp_defaultLabel found
               | Some localized \<Rightarrow>
                   (case repeated of
                      Some (_, ds) \<Rightarrow> localized @ '' '' @ ds
                    | None \<Rightarrow>
                        (case dynamic of
                           Some (_, os) \<Rightarrow>
                             localized @ '' ('' @ before_used (mp_compactLabel found) @ '')'' @
                             (case os of None \<Rightarrow> [] | Some o' \<Rightarrow> '' '' @ o')
                         | None \<Rightarrow> localized))))"

definition providerMeterRank :: "string \<Rightarrow> string \<Rightarrow> int option" where
  "providerMeterRank provider code = map_option mp_order (providerMeterPresentation provider code [])"

definition providerMeterCompactLabel :: "string \<Rightarrow> string \<Rightarrow> string option" where
  "providerMeterCompactLabel provider code =
     map_option mp_compactLabel (providerMeterPresentation provider code [])"

definition providerMeterVisible :: "string \<Rightarrow> string \<Rightarrow> bool" where
  "providerMeterVisible provider code =
     (case providerMeterPresentation provider code [] of None \<Rightarrow> True | Some p \<Rightarrow> mp_visible p)"


section \<open>Codes are matched in upper case\<close>

lemma upper_char_idem [simp]: "upper_char (upper_char c) = upper_char c"
proof (cases "is_lower c")
  case True
  then have "97 \<le> (of_char c :: nat)" "(of_char c :: nat) \<le> 122"
    by (simp_all add: is_lower_def less_eq_char_def)
  then have "(of_char (upper_char c) :: nat) < 97"
    using True by (simp add: upper_char_def)
  then have "\<not> is_lower (upper_char c)" by (simp add: is_lower_def less_eq_char_def)
  then show ?thesis by (simp add: upper_char_def [of "upper_char c"])
qed (simp add: upper_char_def)

lemma toUpperCase_idem [simp]: "toUpperCase (toUpperCase s) = toUpperCase s"
  by (simp add: toUpperCase_def)

lemma startsWithE: assumes "startsWith s p" obtains r where "s = p @ r"
  using assms unfolding startsWith_def by (metis append_take_drop_id)

lemma lower_char_Fable:
  "lower_char (CHR ''F'') = CHR ''f''" "lower_char (CHR ''a'') = CHR ''a''"
  "lower_char (CHR ''b'') = CHR ''b''" "lower_char (CHR ''l'') = CHR ''l''"
  "lower_char (CHR ''e'') = CHR ''e''" "lower_char (CHR '' '') = CHR '' ''"
  by code_simp+

lemma first_word_fable: "in_family ''Fable'' m \<Longrightarrow> first_word m = ''fable''"
  unfolding in_family_def
proof (elim disjE)
  assume "startsWith m (''Fable'' @ '' '')"
  then obtain r where "m = (''Fable'' @ '' '') @ r" by (rule startsWithE)
  then show ?thesis by (simp add: first_word_def toLowerCase_def lower_char_Fable)
qed (simp add: first_word_def toLowerCase_def lower_char_Fable)

text \<open>The compact label of a Claude model meter does not depend on the other meters of the
  family: the branch for several Fable models gives the text of the branch for one.\<close>

theorem familyCodes_irrelevant:
  "providerMeterPresentation provider code familyCodes = providerMeterPresentation provider code []"
proof -
  have "claude_model_presentation m familyCodes = claude_model_presentation m []" for m
    using first_word_fable [of m] by (simp add: claude_model_presentation_def compactModelLabel_def Let_def)
  then show ?thesis
    by (simp add: providerMeterPresentation_def claudeProviderPresentation_def claudeMeterPresentation_def
        Let_def split: option.splits)
qed

lemma presentation_case_insensitive:
  "providerMeterPresentation provider (toUpperCase code) f = providerMeterPresentation provider code f"
  "providerMeterPresentation (toUpperCase provider) code f = providerMeterPresentation provider code f"
  by (simp_all add: providerMeterPresentation_def)

section \<open>Model scope\<close>

lemma modelName_fixed:
  "modelName ''FIVE_HOUR'' = None" "modelName ''SESSION'' = None" "modelName ''SEVEN_DAY'' = None"
  "modelName ''SEVEN_DAY_OAUTH_APPS'' = None" "modelName ''EXTRA_USAGE'' = None"
  by code_simp+

text \<open>A Claude meter counts as scoped to a model exactly when its presentation says so, and the
  presentation then carries the model's name, its place after the allowances of the whole account
  and before extra usage.\<close>

theorem model_scope_agrees:
  "isClaudeModelScopedMeter code \<longleftrightarrow>
     (\<exists>p. claudeMeterPresentation code f = Some p \<and> cp_modelScoped p \<and> cp_model p \<noteq> None \<and>
          21 < cp_order p \<and> cp_order p < 50)"
  using modelName_fixed
  by (auto simp: isClaudeModelScopedMeter_def claudeMeterPresentation_def Let_def claude_fixed_def
      claude_model_presentation_def split: option.splits)

section \<open>KIMI\<close>

lemma number_of_digits_snoc: "number_of_digits (s @ [c]) = 10 * number_of_digits s + digit_value c"
  by (simp add: number_of_digits_def)

lemma number_of_digits_show_nat: "number_of_digits (show_nat n) = n"
proof (induction n rule: show_nat.induct)
  case (1 n)
  then show ?case
    by (subst show_nat.simps)
       (simp add: number_of_digits_snoc digit_value_digit_char number_of_digits_def [of "[_]"])
qed

lemma digit_char_0: "digit_char 0 = CHR ''0''"
  by code_simp

lemma digit_char_not_0: "0 < d \<Longrightarrow> d < 10 \<Longrightarrow> digit_char d \<noteq> CHR ''0''"
  using digit_char_eq_iff [of d 0] digit_char_0 by simp

lemma show_nat_Cons: "0 < n \<Longrightarrow> \<exists>c cs. show_nat n = c # cs \<and> c \<noteq> CHR ''0''"
proof (induction n rule: show_nat.induct)
  case (1 n)
  show ?case
  proof (cases "n < 10")
    case True
    with 1 show ?thesis by (subst show_nat.simps) (simp add: digit_char_not_0)
  next
    case False
    then have "0 < n div 10" by (simp add: div_greater_zero_iff)
    with False 1 obtain c cs where "show_nat (n div 10) = c # cs" "c \<noteq> CHR ''0''" by metis
    with False show ?thesis by (subst show_nat.simps) simp
  qed
qed

lemma ordinal_digits_show_nat: "0 < n \<Longrightarrow> ordinal_digits (show_nat n) = Some (show_nat n)"
  using show_nat_Cons [of n] show_nat_digits [of n] by (auto simp: ordinal_digits_def)

lemma match_window_show:
  assumes "0 < s" "0 < k"
  shows "match_window (''WINDOW_'' @ show_nat s) = Some (show_nat s, None)"
    and "match_window (''WINDOW_'' @ show_nat s @ ''_'' @ show_nat k) = Some (show_nat s, Some (show_nat k))"
proof -
  have t: "takeWhile is_digit (show_nat s @ r) = show_nat s @ takeWhile is_digit r"
    "dropWhile is_digit (show_nat s @ r) = dropWhile is_digit r" for r
    using show_nat_digits [of s] by (simp_all add: list_all_iff)
  have "startsWith (''WINDOW_'' @ r) ''WINDOW_''" for r by (rule startsWith_append)
  moreover have "\<not> is_digit (CHR ''_'')" by code_simp
  ultimately show
    "match_window (''WINDOW_'' @ show_nat s) = Some (show_nat s, None)"
    "match_window (''WINDOW_'' @ show_nat s @ ''_'' @ show_nat k) = Some (show_nat s, Some (show_nat k))"
    using assms t show_nat_digits [of s]
    by (simp_all add: match_window_def ordinal_digits_show_nat Let_def list_all_iff
        takeWhile_eq_all_conv [THEN iffD2] dropWhile_eq_Nil_conv [THEN iffD2])
qed

definition kimi_window_code :: "nat \<Rightarrow> nat \<Rightarrow> string" where
  "kimi_window_code s k = ''WINDOW_'' @ show_nat s @ (if k = 1 then [] else ''_'' @ show_nat k)"

lemma toUpperCase_digits: "list_all is_digit s \<Longrightarrow> toUpperCase s = s"
proof -
  have "is_digit c \<Longrightarrow> \<not> is_lower c" for c
    by (simp add: is_digit_def is_lower_def less_eq_char_def)
  then show "list_all is_digit s \<Longrightarrow> toUpperCase s = s"
    by (simp add: toUpperCase_def list_all_iff upper_char_def map_idI)
qed

lemma upper_kimi:
  "upper_char (CHR ''W'') = CHR ''W''" "upper_char (CHR ''I'') = CHR ''I''"
  "upper_char (CHR ''N'') = CHR ''N''" "upper_char (CHR ''D'') = CHR ''D''"
  "upper_char (CHR ''O'') = CHR ''O''" "upper_char (CHR ''_'') = CHR ''_''"
  "toUpperCase ''KIMI'' = ''KIMI''"
  by code_simp+

lemma kimi_window_code_upper: "toUpperCase (kimi_window_code s k) = kimi_window_code s k"
  using toUpperCase_digits [OF show_nat_digits]
  by (simp add: kimi_window_code_def toUpperCase_def upper_kimi)

lemma kimi_window_presentation:
  assumes "0 < s" "0 < k" "s \<le> MAX_SAFE_INTEGER" "k \<le> MAX_SAFE_INTEGER"
    and "duration_unit s = (n, name, short)"
  shows "kimi_window (kimi_window_code s k) =
    Some (presentation_of KimiUsageUsed
      (show_nat n @ '' '' @ name @ '' limit'' @ (if k = 1 then [] else '' '' @ show_nat k))
      (show_nat n @ short @ '' used'' @ (if k = 1 then [] else '' '' @ show_nat k)) (39 + int k))"
  using assms match_window_show [of s k]
  by (auto simp: kimi_window_def kimi_window_code_def number_of_digits_show_nat Let_def)

lemma kimi_window_not_fixed:
  "map_of FIXED_PRESENTATION (''KIMI'' @ '':'' @ kimi_window_code s k) = None"
  "kimi_repeated (kimi_window_code s k) = None"
  by (simp_all add: kimi_window_code_def FIXED_PRESENTATION_def kimi_repeated_def match_repeated_def
      kimi_bases_def startsWith_def)

lemma provider_kimi_window:
  "kimi_window (kimi_window_code s k) = Some p \<Longrightarrow>
     providerMeterPresentation ''KIMI'' (kimi_window_code s k) f = Some p"
  unfolding providerMeterPresentation_def Let_def kimi_window_code_upper upper_kimi kimi_window_not_fixed
  by simp

lemma duration_unit_exact:
  assumes "duration_unit s = (n, name, short)"
  shows "\<exists>u. (name, u) \<in> set [(''day'', 86400), (''hour'', 3600), (''minute'', 60), (''second'', 1)] \<and> s = n * u"
proof -
  have e: "s = (s div u) * u" if "s mod u = 0" for u :: nat using that by auto
  consider "s mod 86400 = 0" "n = s div 86400" "name = ''day''"
    | "s mod 3600 = 0" "n = s div 3600" "name = ''hour''"
    | "s mod 60 = 0" "n = s div 60" "name = ''minute''"
    | "n = s" "name = ''second''"
    using assms unfolding duration_unit_def by (metis prod.inject)
  then show ?thesis
  proof cases
    case 1 then show ?thesis using e by (intro exI [of _ 86400]) simp
  next
    case 2 then show ?thesis using e by (intro exI [of _ 3600]) simp
  next
    case 3 then show ?thesis using e by (intro exI [of _ 60]) simp
  qed simp
qed

text \<open>A KIMI window of any length is shown with its exact duration: the unit shown times the
  count is the number of seconds, the label carries the count, and repeated windows of one length
  keep their order after each other.\<close>

theorem kimi_window_exact:
  assumes "0 < s" "0 < k" "s \<le> MAX_SAFE_INTEGER" "k \<le> MAX_SAFE_INTEGER"
  shows "\<exists>n name short u p. (name, u) \<in> set [(''day'', 86400), (''hour'', 3600), (''minute'', 60), (''second'', 1)] \<and>
    s = n * u \<and>
    providerMeterPresentation ''KIMI'' (kimi_window_code s k) f = Some p \<and>
    mp_defaultLabel p = show_nat n @ '' '' @ name @ '' limit'' @ (if k = 1 then [] else '' '' @ show_nat k) \<and>
    mp_order p = 39 + int k \<and> mp_visible p"
proof -
  obtain n name short where d: "duration_unit s = (n, name, short)" by (cases "duration_unit s")
  then obtain u where u: "(name, u) \<in> set [(''day'', 86400), (''hour'', 3600), (''minute'', 60), (''second'', 1)]" "s = n * u"
    using duration_unit_exact by blast
  let ?p = "presentation_of KimiUsageUsed
      (show_nat n @ '' '' @ name @ '' limit'' @ (if k = 1 then [] else '' '' @ show_nat k))
      (show_nat n @ short @ '' used'' @ (if k = 1 then [] else '' '' @ show_nat k)) (39 + int k)"
  have "providerMeterPresentation ''KIMI'' (kimi_window_code s k) f = Some ?p"
    by (rule provider_kimi_window [OF kimi_window_presentation [OF assms d]])
  moreover have "mp_defaultLabel ?p = show_nat n @ '' '' @ name @ '' limit'' @ (if k = 1 then [] else '' '' @ show_nat k)"
    "mp_order ?p = 39 + int k" "mp_visible ?p"
    by (simp_all only: presentation_of_def presentation_def meter_presentation.simps)
  ultimately show ?thesis using u by blast
qed

theorem kimi_window_exact_witness:
  "\<exists>n name short u p. (name, u) \<in> set [(''day'', 86400), (''hour'', 3600), (''minute'', 60), (''second'', 1)] \<and>
    18000 = n * u \<and>
    providerMeterPresentation ''KIMI'' (kimi_window_code 18000 2) [] = Some p \<and>
    mp_defaultLabel p = show_nat n @ '' '' @ name @ '' limit'' @ (if (2::nat) = 1 then [] else '' '' @ show_nat 2) \<and>
    mp_order p = 39 + int 2 \<and> mp_visible p"
  by (rule kimi_window_exact) (simp_all add: MAX_SAFE_INTEGER_def)
end
