(* ===== verification/DataRules.thy ===== *)
theory DataRules
  imports Presentation
begin

text \<open>
  packages/core/src/data-rules.ts and freshness.ts: which rows a surface may show, how long a
  reading stays fresh, and the projection of the cache into shown rows and connection flags.

  \<open>freshnessPolicy\<close> renders a deadline with \<open>toISOString\<close>, which throws \<open>RangeError\<close> beyond the last
  date; the error propagates to its callers, so they return a \<open>result\<close>. The intervals times 1.2
  are integers in the source's arithmetic too. A row's optional account is absent or a string,
  and the code's truthiness test treats the empty string as absent.
\<close>

section \<open>Freshness\<close>

datatype snapshot_state = FreshState | StaleState | UnknownState

definition freshness :: "string \<Rightarrow> string \<Rightarrow> string \<Rightarrow> snapshot_state" where
  "freshness observedAt expiresAt now =
     (case (dateParse observedAt, dateParse expiresAt, dateParse now) of
        (Some observed, Some expires, Some current) \<Rightarrow>
          if expires < observed \<or> current < observed then UnknownState
          else if current \<le> expires then FreshState else StaleState
      | _ \<Rightarrow> UnknownState)"

definition RETENTION_MILLISECONDS :: int where
  "RETENTION_MILLISECONDS = 7 * 86400000"

definition CLAUDE_WEEK_SECONDS :: int where
  "CLAUDE_WEEK_SECONDS = 604800"

text \<open>\<open>/^SEVEN_DAY_(FABLE|OPUS|SONNET|HAIKU)(?:_|$)/u\<close>\<close>

definition weekly_model_meter :: "string \<Rightarrow> bool" where
  "weekly_model_meter meter \<longleftrightarrow>
     list_ex (\<lambda>f. meter = ''SEVEN_DAY_'' @ f \<or> startsWith meter (''SEVEN_DAY_'' @ f @ ''_''))
       [''FABLE'', ''OPUS'', ''SONNET'', ''HAIKU'']"

definition source_kind_of :: "snapshot \<Rightarrow> snapshot_source_kind option" where
  "source_kind_of row = map_option prov_sourceKind (sn_provenance row)"

definition presentation_for :: "snapshot \<Rightarrow> meter_presentation option" where
  "presentation_for row = providerMeterPresentation (provider_str (sn_provider row)) (sn_meter row) []"

definition isSnapshotDisplayEligible :: "snapshot \<Rightarrow> bool" where
  "isSnapshotDisplayEligible row =
     (if sn_provider row \<noteq> CLAUDE then True
      else if sn_meter row = ''ACQUISITION'' then True
      else if presentation_for row = None then False
      else if \<not> startsWith (sn_meter row) ''SEVEN_DAY'' then True
      else
        let weeklyMeter = sn_meter row = ''SEVEN_DAY'' \<or> sn_meter row = ''SEVEN_DAY_OAUTH_APPS'' \<or>
              weekly_model_meter (sn_meter row)
        in if \<not> weeklyMeter \<or> source_kind_of row = Some StatuslinePayload then False
           else (case win_durationSeconds (sn_window row) of None \<Rightarrow> CLAUDE_WEEK_SECONDS | Some d \<Rightarrow> d)
                  = CLAUDE_WEEK_SECONDS)"

definition CLAUDE_FRESHNESS_SECONDS :: int where
  "CLAUDE_FRESHNESS_SECONDS = 300 + 300 div 5 + 60 + 2 * 15 + 15"

definition desktopIntervals :: "(string \<times> int) list" where
  "desktopIntervals =
     [(''CLAUDE'', 900), (''GEMINI_CLI'', 900), (''ANTIGRAVITY'', 600), (''CODEX'', 300), (''CURSOR'', 300),
      (''GROK'', 300), (''KIMI'', 300), (''OPENROUTER'', 300), (''OPENCODE'', 300)]"

datatype policy_availability = PolicyUnavailable | PolicyFresh | PolicyStale

record freshness_result =
  fr_ttlSeconds :: int
  fr_expiresAt :: string
  fr_availability :: policy_availability

record freshness_input =
  fi_sourceClass :: string
  fi_observedAt :: string
  fi_now :: string
  fi_provider :: "string option"
  fi_writer :: "string option"

definition policy_interval :: "freshness_input \<Rightarrow> int" where
  "policy_interval input =
     (if fi_sourceClass input = ''native_payload'' then 60
      else if fi_writer input = Some ''desktop'' then
        (case map_of desktopIntervals (case fi_provider input of None \<Rightarrow> [] | Some p \<Rightarrow> p) of
           None \<Rightarrow> 900 | Some i \<Rightarrow> i)
      else 900)"

definition policy_ttl :: "freshness_input \<Rightarrow> int" where
  "policy_ttl input =
     (if fi_provider input = Some ''CLAUDE'' \<and> fi_sourceClass input \<noteq> ''native_payload''
      then CLAUDE_FRESHNESS_SECONDS
      else policy_interval input * 12 div 10 + 60)"

definition freshnessPolicy :: "freshness_input \<Rightarrow> freshness_result result" where
  "freshnessPolicy input =
     (let ttlSeconds = policy_ttl input;
          observed = dateParse (fi_observedAt input);
          now = dateParse (fi_now input);
          deadline = map_option (\<lambda>o'. o' + ttlSeconds * 1000) observed
      in rbind (case deadline of Some d \<Rightarrow> toISOString d | None \<Rightarrow> Inr (fi_observedAt input))
           (\<lambda>expiresAt. Inr
             \<lparr>fr_ttlSeconds = ttlSeconds, fr_expiresAt = expiresAt,
              fr_availability =
                (if now = None \<or> observed = None \<or> ms_lt now observed then PolicyUnavailable
                 else if ms_lt now deadline then PolicyFresh else PolicyStale)\<rparr>))"

text \<open>\<open>freshnessPolicy({ ...row, sourceClass: row.source, now })\<close>\<close>

definition policy_input :: "snapshot \<Rightarrow> string \<Rightarrow> freshness_input" where
  "policy_input row now =
     \<lparr>fi_sourceClass = source_str (sn_source row), fi_observedAt = sn_observedAt row, fi_now = now,
      fi_provider = Some (provider_str (sn_provider row)), fi_writer = map_option writer_str (sn_writer row)\<rparr>"

definition row_policy :: "snapshot \<Rightarrow> string \<Rightarrow> freshness_result result" where
  "row_policy row now = freshnessPolicy (policy_input row now)"

definition resetPassed :: "snapshot \<Rightarrow> string \<Rightarrow> bool" where
  "resetPassed row now =
     ms_le (dateParse (case sn_resetAt row of None \<Rightarrow> [] | Some r \<Rightarrow> r)) (dateParse now)"

definition retainSnapshots :: "snapshot list \<Rightarrow> ms \<Rightarrow> snapshot list" where
  "retainSnapshots rows now =
     filter (\<lambda>row. ms_le (map_option (\<lambda>n. n - RETENTION_MILLISECONDS) now) (dateParse (sn_observedAt row))) rows"

section \<open>Reasons\<close>

datatype fix_kind = Reconnect | OpenApp | SignIn | SwitchOn | UnsupportedFix

record connection_flag =
  fl_provider :: provider_code
  fl_accountId :: "string option"
  fl_reason :: string
  fl_fixKind :: fix_kind

definition fixKind :: "string \<Rightarrow> fix_kind" where
  "fixKind reason =
     (if reason = ''disabled'' then SwitchOn
      else if reason = ''missing_credentials'' \<or> reason = ''account_unresolved'' then SignIn
      else if reason \<in> set [''expired_credentials'', ''stale'', ''rate_limited'', ''network_failure'',
                            ''not_measured'', ''awaiting_statusline''] then OpenApp
      else if reason \<in> set [''quota_unavailable'', ''unlimited'', ''placeholder'', ''schema_drift'']
        then UnsupportedFix
      else Reconnect)"

definition bounded_spend :: "snapshot \<Rightarrow> bool" where
  "bounded_spend row \<longleftrightarrow>
     (case sn_usedAmount row of Some u \<Rightarrow> 0 \<le> u | None \<Rightarrow> False) \<and>
     (case sn_limitAmount row of Some l \<Rightarrow> 0 < l | None \<Rightarrow> False) \<and>
     map_option currency_str (sn_currency row) = Some ''USD''"

definition displayReason :: "snapshot \<Rightarrow> string \<Rightarrow> string option result" where
  "displayReason row now =
     (case sn_availability row of
        Some a \<Rightarrow> Inr (Some (availability_str a))
      | None \<Rightarrow>
          if win_kind (sn_window row) = UnknownWindow \<and> \<not> bounded_spend row \<or>
             sn_kind row = Some RuntimeInfo \<or> sn_meter row = ''ACQUISITION''
          then Inr (Some ''placeholder'')
          else if sn_value row < 0 \<or> sn_unit row = PERCENT \<and> 100 < sn_value row
          then Inr (Some ''quota_unavailable'')
          else rbind (row_policy row now)
            (\<lambda>p. Inr (if fr_availability p \<noteq> PolicyFresh then Some ''stale'' else None)))"

definition claudeStatusline :: "snapshot \<Rightarrow> bool" where
  "claudeStatusline row \<longleftrightarrow> sn_provider row = CLAUDE \<and>
     (case sn_provenance row of
        None \<Rightarrow> False
      | Some p \<Rightarrow> prov_sourceKind p = StatuslinePayload \<and>
          observed_via_str (prov_observedVia p) = ''claude_code_statusline'')"

definition heldReason :: "snapshot \<Rightarrow> string option \<Rightarrow> string \<Rightarrow> string option" where
  "heldReason row reason now =
     (let current = dateParse now; observed = dateParse (sn_observedAt row) in
      if reason \<noteq> Some ''stale'' \<or> \<not> ms_le observed current then reason
      else if claudeStatusline row then
        (if ms_lt current (dateParse (case sn_resetAt row of None \<Rightarrow> [] | Some r \<Rightarrow> r)) then None
         else Some ''awaiting_statusline'')
      else if (case (current, observed) of
                 (Some c, Some o') \<Rightarrow> c - o' \<le> RETENTION_MILLISECONDS | _ \<Rightarrow> False)
      then None else reason)"

section \<open>The projection\<close>

text \<open>The accounts known to be active for a provider, when the caller passes any.\<close>

type_synonym active_accounts = "(provider_code \<Rightarrow> string list option) option"

definition no_account :: "snapshot \<Rightarrow> bool" where
  "no_account row \<longleftrightarrow> sn_accountId row = None \<or> sn_accountId row = Some []"

definition not_connected :: "snapshot \<Rightarrow> active_accounts \<Rightarrow> bool" where
  "not_connected row active \<longleftrightarrow>
     (case Option.bind active (\<lambda>f. f (sn_provider row)) of
        None \<Rightarrow> False
      | Some accounts \<Rightarrow> no_account row \<or>
          (case sn_accountId row of None \<Rightarrow> True | Some a \<Rightarrow> a \<notin> set accounts))"

definition shows_availability :: "snapshot \<Rightarrow> bool" where
  "shows_availability row =
     (case presentation_for row of None \<Rightarrow> False | Some p \<Rightarrow> mp_displayAvailability p)"

text \<open>Why a row is not shown; \<open>None\<close> shows it.\<close>

definition row_reason :: "snapshot \<Rightarrow> string \<Rightarrow> active_accounts \<Rightarrow> string option result" where
  "row_reason row now active =
     (case sn_availability row of
        Some a \<Rightarrow>
          if \<not> shows_availability row then Inr (Some (availability_str a))
          else if not_connected row active
          then Inr (Some (if no_account row \<and> claudeStatusline row then ''account_unresolved''
                          else ''account_not_connected''))
          else Inr (heldReason row None now)
      | None \<Rightarrow>
          if not_connected row active
          then Inr (Some (if no_account row \<and> claudeStatusline row then ''account_unresolved''
                          else ''account_not_connected''))
          else rbind (displayReason row now) (\<lambda>r. Inr (heldReason row r now)))"

definition shown_reason :: "snapshot \<Rightarrow> string \<Rightarrow> active_accounts \<Rightarrow> string option result" where
  "shown_reason row now active =
     rbind (row_reason row now active) (\<lambda>reason. Inr
       (if reason = None \<and> resetPassed row now
        then Some (if claudeStatusline row then ''awaiting_statusline'' else ''stale'')
        else reason))"

definition flag_of :: "snapshot \<Rightarrow> string \<Rightarrow> connection_flag" where
  "flag_of row shown =
     \<lparr>fl_provider = sn_provider row,
      fl_accountId = (if no_account row then None else sn_accountId row),
      fl_reason = shown, fl_fixKind = fixKind shown\<rparr>"

text \<open>\<open>[row.provider, row.accountId, shown].join(":")\<close>\<close>

definition flag_key :: "snapshot \<Rightarrow> string \<Rightarrow> string" where
  "flag_key row shown =
     provider_str (sn_provider row) @ '':'' @ (case sn_accountId row of None \<Rightarrow> [] | Some a \<Rightarrow> a) @ '':'' @ shown"

definition projectable :: "snapshot \<Rightarrow> bool" where
  "projectable row \<longleftrightarrow> isSnapshotDisplayEligible row \<and>
     (case presentation_for row of None \<Rightarrow> True | Some p \<Rightarrow> mp_visible p)"

record projection =
  pj_snapshots :: "snapshot list"
  pj_flags :: "(string \<times> connection_flag) list"

definition project_step ::
  "string \<Rightarrow> active_accounts \<Rightarrow> projection \<Rightarrow> snapshot \<Rightarrow> projection result" where
  "project_step now active acc row =
     (if \<not> projectable row then Inr acc
      else rbind (shown_reason row now active) (\<lambda>shown.
        case shown of
          None \<Rightarrow> rbind (row_policy row now) (\<lambda>p. Inr
            (acc\<lparr>pj_snapshots := pj_snapshots acc @ [row\<lparr>sn_expiresAt := fr_expiresAt p\<rparr>]\<rparr>))
        | Some s \<Rightarrow> Inr
            (acc\<lparr>pj_flags := AList.update (flag_key row s) (flag_of row s) (pj_flags acc)\<rparr>)))"

fun project_rows ::
  "string \<Rightarrow> active_accounts \<Rightarrow> projection \<Rightarrow> snapshot list \<Rightarrow> projection result" where
  "project_rows now active acc [] = Inr acc"
| "project_rows now active acc (row # rows) =
     rbind (project_step now active acc row) (\<lambda>acc'. project_rows now active acc' rows)"

definition projectSnapshots ::
  "snapshot list \<Rightarrow> string \<Rightarrow> active_accounts \<Rightarrow> (snapshot list \<times> connection_flag list) result" where
  "projectSnapshots rows now active =
     rbind (project_rows now active \<lparr>pj_snapshots = [], pj_flags = []\<rparr> rows)
       (\<lambda>p. Inr (pj_snapshots p, map_values (pj_flags p)))"

section \<open>What the freshness rules promise\<close>

lemma policy_interval_cases: "policy_interval input \<in> {60, 300, 600, 900}"
  by (auto simp: policy_interval_def desktopIntervals_def split: option.splits if_splits)

lemma policy_ttl_bounds: "120 < policy_ttl input \<and> policy_ttl input \<le> 1140"
  using policy_interval_cases [of input] by (auto simp: policy_ttl_def CLAUDE_FRESHNESS_SECONDS_def)

lemma freshnessPolicy_Inr:
  assumes "freshnessPolicy input = Inr p"
  shows "fr_ttlSeconds p = policy_ttl input"
    and "fr_availability p = PolicyFresh \<longleftrightarrow>
      (\<exists>o' c. dateParse (fi_observedAt input) = Some o' \<and> dateParse (fi_now input) = Some c \<and>
        o' \<le> c \<and> c < o' + policy_ttl input * 1000)"
    and "fr_availability p = PolicyStale \<longleftrightarrow>
      (\<exists>o' c. dateParse (fi_observedAt input) = Some o' \<and> dateParse (fi_now input) = Some c \<and>
        o' + policy_ttl input * 1000 \<le> c)"
  using assms policy_ttl_bounds [of input]
  by (auto simp: freshnessPolicy_def Let_def rbind_Inr_iff ms_lt_iff split: if_splits)

lemma toISOString_Inr: "toISOString t = Inr s \<longleftrightarrow> \<bar>t\<bar> \<le> max_time \<and> s = iso_text t"
  by (auto simp: toISOString_def)

text \<open>The freshness of a reading under its own policy and the freshness of the row that
  carries the policy's deadline are the same thing at every instant but one: at the deadline
  itself the policy already says stale and the row still says fresh.\<close>

theorem policy_agrees_with_freshness:
  assumes "freshnessPolicy input = Inr p"
    and "dateParse (fi_observedAt input) = Some observed"
    and "dateParse (fi_now input) = Some now"
  shows "freshness (fi_observedAt input) (fr_expiresAt p) (fi_now input) =
    (if now = observed + fr_ttlSeconds p * 1000 then FreshState
     else case fr_availability p of
       PolicyUnavailable \<Rightarrow> UnknownState | PolicyFresh \<Rightarrow> FreshState | PolicyStale \<Rightarrow> StaleState)"
proof -
  have "toISOString (observed + policy_ttl input * 1000) = Inr (fr_expiresAt p)"
    using assms by (auto simp: freshnessPolicy_def Let_def rbind_Inr_iff)
  then have "dateParse (fr_expiresAt p) = Some (observed + policy_ttl input * 1000)"
    by (simp add: toISOString_Inr dateParse_iso_text)
  with assms policy_ttl_bounds [of input] show ?thesis
    by (auto simp: freshness_def freshnessPolicy_def Let_def rbind_Inr_iff)
qed

section \<open>What a shown row promises\<close>

lemma heldReason_None:
  assumes "heldReason row (Some ''stale'') now = None"
  shows "\<exists>o' c. dateParse (sn_observedAt row) = Some o' \<and> dateParse now = Some c \<and> o' \<le> c \<and>
    (c - o' \<le> RETENTION_MILLISECONDS \<or>
     claudeStatusline row \<and> ms_lt (Some c) (dateParse (case sn_resetAt row of None \<Rightarrow> [] | Some r \<Rightarrow> r)))"
  using assms
  by (auto simp: heldReason_def Let_def ms_le_iff split: if_splits option.splits)

lemma heldReason_other: "r \<noteq> Some ''stale'' \<Longrightarrow> heldReason row r now = r"
  by (simp add: heldReason_def)

definition timely :: "snapshot \<Rightarrow> string \<Rightarrow> bool" where
  "timely row now \<longleftrightarrow>
     (\<exists>o' c. dateParse (sn_observedAt row) = Some o' \<and> dateParse now = Some c \<and> o' \<le> c \<and>
       (c - o' \<le> RETENTION_MILLISECONDS \<or>
        claudeStatusline row \<and> ms_lt (Some c) (dateParse (case sn_resetAt row of None \<Rightarrow> [] | Some r \<Rightarrow> r))))"

lemma displayReason_None:
  assumes "displayReason row now = Inr None"
  shows "timely row now"
proof -
  from assms obtain p where p: "row_policy row now = Inr p" "fr_availability p = PolicyFresh"
    by (auto simp: displayReason_def rbind_Inr_iff split: option.splits if_splits)
  then obtain o' c where "dateParse (sn_observedAt row) = Some o'" "dateParse now = Some c" "o' \<le> c"
      "c < o' + policy_ttl (policy_input row now) * 1000"
    unfolding row_policy_def using freshnessPolicy_Inr(2) [of "policy_input row now" p]
    by (auto simp: policy_input_def)
  moreover have "policy_ttl (policy_input row now) \<le> 1140" using policy_ttl_bounds by blast
  ultimately show ?thesis by (auto simp: timely_def RETENTION_MILLISECONDS_def)
qed

lemma row_reason_None:
  assumes "row_reason row now active = Inr None"
  shows "\<not> not_connected row active"
    and "if sn_availability row = None then timely row now else shows_availability row"
proof -
  show "\<not> not_connected row active"
    using assms by (auto simp: row_reason_def split: option.splits if_splits)
  show "if sn_availability row = None then timely row now else shows_availability row"
  proof (cases "sn_availability row")
    case None
    with assms obtain r where "displayReason row now = Inr r" "heldReason row r now = None"
      by (auto simp: row_reason_def rbind_Inr_iff split: if_splits)
    with None show ?thesis
      using displayReason_None [of row now] heldReason_None [of row now] heldReason_other [of r row now]
      by (cases "r = Some ''stale''") (auto simp: timely_def)
  next
    case (Some a)
    with assms show ?thesis by (auto simp: row_reason_def split: if_splits)
  qed
qed

lemma shown_reason_None:
  "shown_reason row now active = Inr None \<longleftrightarrow> row_reason row now active = Inr None \<and> \<not> resetPassed row now"
  by (auto simp: shown_reason_def rbind_Inr_iff)

text \<open>The rows a projection shows, in the order of the input.\<close>

definition shown_row :: "string \<Rightarrow> active_accounts \<Rightarrow> snapshot \<Rightarrow> snapshot option" where
  "shown_row now active row =
     (if projectable row \<and> shown_reason row now active = Inr None
      then (case row_policy row now of Inr p \<Rightarrow> Some (row\<lparr>sn_expiresAt := fr_expiresAt p\<rparr>) | Inl _ \<Rightarrow> None)
      else None)"

definition flagged_row :: "string \<Rightarrow> active_accounts \<Rightarrow> snapshot \<Rightarrow> (string \<times> connection_flag) option" where
  "flagged_row now active row =
     (if projectable row
      then (case shown_reason row now active of Inr (Some s) \<Rightarrow> Some (flag_key row s, flag_of row s) | _ \<Rightarrow> None)
      else None)"

lemma project_step_Inr:
  assumes "project_step now active acc row = Inr acc'"
  shows "pj_snapshots acc' = pj_snapshots acc @ (case shown_row now active row of None \<Rightarrow> [] | Some x \<Rightarrow> [x])"
    and "pj_flags acc' = (case flagged_row now active row of
      None \<Rightarrow> pj_flags acc | Some (k, f) \<Rightarrow> AList.update k f (pj_flags acc))"
proof -
  have "pj_snapshots acc' = pj_snapshots acc @ (case shown_row now active row of None \<Rightarrow> [] | Some x \<Rightarrow> [x]) \<and>
    pj_flags acc' = (case flagged_row now active row of
      None \<Rightarrow> pj_flags acc | Some (k, f) \<Rightarrow> AList.update k f (pj_flags acc))"
  proof (cases "projectable row")
    case True
    with assms obtain r where r: "shown_reason row now active = Inr r"
      by (auto simp: project_step_def rbind_Inr_iff)
    with True assms show ?thesis
      by (cases r) (auto simp: project_step_def rbind_Inr_iff shown_row_def flagged_row_def)
  qed (use assms in \<open>auto simp: project_step_def shown_row_def flagged_row_def\<close>)
  then show "pj_snapshots acc' = pj_snapshots acc @ (case shown_row now active row of None \<Rightarrow> [] | Some x \<Rightarrow> [x])"
    "pj_flags acc' = (case flagged_row now active row of
      None \<Rightarrow> pj_flags acc | Some (k, f) \<Rightarrow> AList.update k f (pj_flags acc))"
    by blast+
qed

definition set_flag :: "(string \<times> connection_flag) list \<Rightarrow> string \<times> connection_flag \<Rightarrow> (string \<times> connection_flag) list" where
  "set_flag m kf = AList.update (fst kf) (snd kf) m"

lemma project_rows_Inr:
  "project_rows now active acc rows = Inr acc' \<Longrightarrow>
     pj_snapshots acc' = pj_snapshots acc @ List.map_filter (shown_row now active) rows \<and>
     pj_flags acc' = foldl set_flag (pj_flags acc) (List.map_filter (flagged_row now active) rows)"
proof (induction rows arbitrary: acc)
  case (Cons row rows)
  then obtain a where a: "project_step now active acc row = Inr a" "project_rows now active a rows = Inr acc'"
    by (auto simp: rbind_Inr_iff)
  with Cons.IH [OF a(2)] project_step_Inr [OF a(1)] show ?case
    by (simp add: List.map_filter_simps set_flag_def split: option.splits prod.splits)
qed (simp add: List.map_filter_simps)

lemma map_of_set_flags:
  "map_of (foldl set_flag m kfs) k = (case filter (\<lambda>kf. fst kf = k) kfs of [] \<Rightarrow> map_of m k | xs \<Rightarrow> Some (snd (last xs)))"
proof (induction kfs arbitrary: m)
  case (Cons kf kfs)
  then show ?case by (auto simp: set_flag_def update_conv' split: list.splits)
qed simp

lemma distinct_set_flags: "distinct (map fst m) \<Longrightarrow> distinct (map fst (foldl set_flag m kfs))"
  by (induction kfs arbitrary: m) (simp_all add: set_flag_def distinct_update)

lemma projectSnapshots_Inr:
  assumes "projectSnapshots rows now active = Inr (snapshots, flags)"
  obtains m where "snapshots = List.map_filter (shown_row now active) rows" "flags = map_values m"
    "m = foldl set_flag [] (List.map_filter (flagged_row now active) rows)"
  using assms project_rows_Inr [of now active "\<lparr>pj_snapshots = [], pj_flags = []\<rparr>" rows]
  by (auto simp: projectSnapshots_def rbind_Inr_iff)

text \<open>C18: every row a projection shows is a row of the cache with its own policy deadline; it is
  eligible, its window has not been reset, its account is one of the connected ones wherever those
  are known (so an anonymous row is never shown then), and either it is a reading taken in the
  past, at most seven days ago or handed over by Claude Code inside its window, or it is a state
  the presentation of its meter says to display.\<close>

theorem shown_rows_are_safe:
  assumes "projectSnapshots rows now active = Inr (snapshots, flags)" and "s \<in> set snapshots"
  shows "\<exists>row \<in> set rows. \<exists>p. s = row\<lparr>sn_expiresAt := fr_expiresAt p\<rparr> \<and> row_policy row now = Inr p \<and>
    isSnapshotDisplayEligible row \<and> \<not> resetPassed row now \<and> \<not> not_connected row active \<and>
    (if sn_availability row = None then timely row now else shows_availability row)"
proof -
  from assms(1) obtain m where "snapshots = List.map_filter (shown_row now active) rows"
    by (rule projectSnapshots_Inr)
  with assms(2) obtain row where "row \<in> set rows" "shown_row now active row = Some s"
    by (auto simp: set_map_filter)
  moreover from this obtain p where "row_policy row now = Inr p" "s = row\<lparr>sn_expiresAt := fr_expiresAt p\<rparr>"
      "projectable row" "row_reason row now active = Inr None" "\<not> resetPassed row now"
    by (auto simp: shown_row_def shown_reason_None split: if_splits sum.splits)
  ultimately show ?thesis
    using row_reason_None [of row now active] unfolding projectable_def by blast
qed

lemma availability_str_no_colon: "CHR '':'' \<notin> set (availability_str a)"
  by (cases a) simp_all

lemma provider_str_no_colon: "CHR '':'' \<notin> set (provider_str p)"
  by (cases p) simp_all

lemma displayReason_no_colon: "displayReason row now = Inr (Some s) \<Longrightarrow> CHR '':'' \<notin> set s"
  by (auto simp: displayReason_def rbind_Inr_iff availability_str_no_colon split: option.splits if_splits)

lemma heldReason_no_colon:
  "heldReason row r now = Some s \<Longrightarrow> (\<forall>t. r = Some t \<longrightarrow> CHR '':'' \<notin> set t) \<Longrightarrow> CHR '':'' \<notin> set s"
  by (auto simp: heldReason_def Let_def split: if_splits)

lemma row_reason_no_colon: "row_reason row now active = Inr (Some s) \<Longrightarrow> CHR '':'' \<notin> set s"
  by (auto simp: row_reason_def rbind_Inr_iff availability_str_no_colon split: option.splits if_splits
      dest!: heldReason_no_colon dest: displayReason_no_colon)

lemma shown_reason_no_colon: "shown_reason row now active = Inr (Some s) \<Longrightarrow> CHR '':'' \<notin> set s"
  by (auto simp: shown_reason_def rbind_Inr_iff split: if_splits dest: row_reason_no_colon)

lemma flag_key_inject:
  assumes "flag_key row s = flag_key row' s'" "CHR '':'' \<notin> set s" "CHR '':'' \<notin> set s'"
  shows "flag_of row s = flag_of row' s'"
proof -
  let ?acc = "\<lambda>r. case sn_accountId r of None \<Rightarrow> [] | Some a \<Rightarrow> a"
  have "provider_str (sn_provider row) = provider_str (sn_provider row') \<and>
      ?acc row @ CHR '':'' # s = ?acc row' @ CHR '':'' # s'"
    using assms(1) provider_str_no_colon by (intro append_sep_inject) (simp_all add: flag_key_def)
  moreover from this have "?acc row = ?acc row' \<and> s = s'"
    using append_sep_inject_last [OF _ assms(2,3)] by blast
  ultimately have "sn_provider row = sn_provider row'" "?acc row = ?acc row'" "s = s'"
    by simp_all
  then show ?thesis by (auto simp: flag_of_def no_account_def split: option.splits)
qed

lemma flagged_row_iff:
  "flagged_row now active row = Some (k, f) \<longleftrightarrow>
     (\<exists>s. projectable row \<and> shown_reason row now active = Inr (Some s) \<and> k = flag_key row s \<and> f = flag_of row s)"
  by (auto simp: flagged_row_def split: sum.splits option.splits)

lemma project_rows_ok:
  "project_rows now active acc rows = Inr acc' \<Longrightarrow> row \<in> set rows \<Longrightarrow> projectable row \<Longrightarrow>
     shown_row now active row \<noteq> None \<or> flagged_row now active row \<noteq> None"
proof (induction rows arbitrary: acc)
  case (Cons r rows)
  from Cons.prems(1) obtain a where a: "project_step now active acc r = Inr a" "project_rows now active a rows = Inr acc'"
    by (auto simp: rbind_Inr_iff)
  show ?case
  proof (cases "row = r")
    case True
    with a(1) Cons.prems(3) show ?thesis
      by (auto simp: project_step_def rbind_Inr_iff shown_row_def flagged_row_def split: option.splits)
  next
    case False
    with Cons a(2) show ?thesis by auto
  qed
qed simp

lemma flagged_row_mem:
  "kf \<in> set (List.map_filter (flagged_row now active) rows) \<Longrightarrow>
     \<exists>row s. row \<in> set rows \<and> projectable row \<and> shown_reason row now active = Inr (Some s) \<and>
       kf = (flag_key row s, flag_of row s)"
  by (cases kf) (auto simp: set_map_filter flagged_row_iff)

lemma flagged_row_in:
  "row \<in> set rows \<Longrightarrow> projectable row \<Longrightarrow> shown_reason row now active = Inr (Some s) \<Longrightarrow>
     (flag_key row s, flag_of row s) \<in> set (List.map_filter (flagged_row now active) rows)"
  by (force simp: set_map_filter flagged_row_iff)

lemma flags_of_rows:
  assumes "kfs = List.map_filter (flagged_row now active) rows"
  shows "set (map_values (foldl set_flag [] kfs)) = snd ` set kfs"
proof -
  let ?m = "foldl set_flag [] kfs"
  have same: "snd kf = snd kf'" if "kf \<in> set kfs" "kf' \<in> set kfs" "fst kf = fst kf'" for kf kf'
    using flagged_row_mem [OF that(1) [unfolded assms]] flagged_row_mem [OF that(2) [unfolded assms]]
      that(3) flag_key_inject shown_reason_no_colon by (metis fst_conv snd_conv)
  have d: "distinct (map fst ?m)" by (rule distinct_set_flags) simp
  have look: "map_of ?m k = (if filter (\<lambda>kf. fst kf = k) kfs = [] then None
      else Some (snd (last (filter (\<lambda>kf. fst kf = k) kfs))))" for k
    using map_of_set_flags [of "[]" kfs k] by (auto split: list.split)
  have last: "filter (\<lambda>kf. fst kf = k) kfs \<noteq> [] \<Longrightarrow> last (filter (\<lambda>kf. fst kf = k) kfs) \<in> set kfs \<and>
      fst (last (filter (\<lambda>kf. fst kf = k) kfs)) = k" for k
    using last_in_set by fastforce
  have "f \<in> set (map_values ?m) \<longleftrightarrow> (\<exists>k. map_of ?m k = Some f)" for f
    using d by (force simp: map_values_def map_of_eq_Some_iff)
  moreover have "(\<exists>k. map_of ?m k = Some f) \<longleftrightarrow> f \<in> snd ` set kfs" for f
  proof
    assume "\<exists>k. map_of ?m k = Some f"
    then show "f \<in> snd ` set kfs" using last by (auto simp: look split: if_splits)
  next
    assume "f \<in> snd ` set kfs"
    then obtain kf where kf: "kf \<in> set kfs" "f = snd kf" by blast
    then have "filter (\<lambda>x. fst x = fst kf) kfs \<noteq> []" by (auto simp: filter_empty_conv)
    with last [OF this] same [OF _ kf(1)] kf(2) have "map_of ?m (fst kf) = Some f"
      by (auto simp: look)
    then show "\<exists>k. map_of ?m k = Some f" by blast
  qed
  ultimately show ?thesis by blast
qed

text \<open>Nothing disappears: a projection keeps the order of the rows it shows, every row that may
  be projected is either shown or flagged with its reason and the fix for it, and every flag comes
  from such a row.\<close>

theorem projection_accounts_for_rows:
  assumes "projectSnapshots rows now active = Inr (snapshots, flags)"
  shows "snapshots = List.map_filter (shown_row now active) rows \<and>
    set flags = {flag_of row s | row s. row \<in> set rows \<and> projectable row \<and>
      shown_reason row now active = Inr (Some s)} \<and>
    (\<forall>row \<in> set rows. projectable row \<longrightarrow>
      (\<exists>s \<in> set snapshots. shown_row now active row = Some s) \<or>
      (\<exists>s. shown_reason row now active = Inr (Some s) \<and> flag_of row s \<in> set flags))"
proof -
  let ?kfs = "List.map_filter (flagged_row now active) rows"
  from assms obtain m where m: "snapshots = List.map_filter (shown_row now active) rows"
      "flags = map_values m" "m = foldl set_flag [] ?kfs"
    by (rule projectSnapshots_Inr)
  then have flags: "set flags = snd ` set ?kfs" using flags_of_rows by simp
  have all: "set flags = {flag_of row s | row s. row \<in> set rows \<and> projectable row \<and>
      shown_reason row now active = Inr (Some s)}" (is "_ = ?F")
  proof
    show "set flags \<subseteq> ?F" unfolding flags using flagged_row_mem by fastforce
    show "?F \<subseteq> set flags" unfolding flags using flagged_row_in by (force simp: image_iff)
  qed
  moreover have "(\<exists>s \<in> set snapshots. shown_row now active row = Some s) \<or>
      (\<exists>s. shown_reason row now active = Inr (Some s) \<and> flag_of row s \<in> set flags)"
    if row: "row \<in> set rows" "projectable row" for row
  proof (cases "shown_row now active row")
    case None
    from assms obtain acc where "project_rows now active \<lparr>pj_snapshots = [], pj_flags = []\<rparr> rows = Inr acc"
      by (auto simp: projectSnapshots_def rbind_Inr_iff)
    from project_rows_ok [OF this row] None have "flagged_row now active row \<noteq> None" by blast
    then obtain s where "shown_reason row now active = Inr (Some s)"
      using flagged_row_iff by (metis not_None_eq surj_pair)
    with row all show ?thesis by blast
  next
    case (Some s)
    then have "s \<in> set snapshots" using m(1) row(1) set_map_filter by fast
    with Some show ?thesis by blast
  qed
  ultimately show ?thesis using m(1) by blast
qed

section \<open>When the projection returns\<close>

lemma row_policy_total:
  assumes "\<forall>t. dateParse (sn_observedAt row) = Some t \<longrightarrow> t + 1140000 \<le> max_time"
  shows "\<exists>p. row_policy row now = Inr p"
proof (cases "dateParse (sn_observedAt row)")
  case None
  then show ?thesis by (simp add: row_policy_def freshnessPolicy_def policy_input_def Let_def)
next
  case (Some t)
  have "120 < policy_ttl (policy_input row now)" "policy_ttl (policy_input row now) \<le> 1140"
    using policy_ttl_bounds by blast+
  moreover have "- max_time \<le> t" using dateParse_range [OF Some] by simp
  ultimately have "\<bar>t + policy_ttl (policy_input row now) * 1000\<bar> \<le> max_time"
    using assms Some by (auto simp: max_time_def)
  then have "toISOString (t + policy_ttl (policy_input row now) * 1000) =
      Inr (iso_text (t + policy_ttl (policy_input row now) * 1000))"
    by (simp add: toISOString_Inr)
  moreover have "fi_observedAt (policy_input row now) = sn_observedAt row" by (simp add: policy_input_def)
  ultimately show ?thesis using Some by (simp add: row_policy_def freshnessPolicy_def Let_def)
qed

lemma shown_reason_total:
  "row_policy row now = Inr p \<Longrightarrow> \<exists>r. shown_reason row now active = Inr r"
  by (auto simp: shown_reason_def row_reason_def displayReason_def rbind_def split: option.splits sum.splits)

lemma project_rows_total:
  assumes "\<forall>row \<in> set rows. \<exists>p. row_policy row now = Inr p"
  shows "\<exists>acc'. project_rows now active acc rows = Inr acc'"
  using assms
proof (induction rows arbitrary: acc)
  case (Cons row rows)
  then obtain p r where "row_policy row now = Inr p" "shown_reason row now active = Inr r"
    using shown_reason_total by fastforce
  then have "\<exists>a. project_step now active acc row = Inr a"
    by (cases r) (auto simp: project_step_def)
  with Cons show ?case by fastforce
qed simp

text \<open>C40: the projection returns, whatever the clock and the accounts, for every list of rows observed
  at least nineteen minutes (the longest freshness) before the last instant a date can hold.\<close>

theorem projection_total:
  assumes "\<forall>row \<in> set rows. \<forall>t. dateParse (sn_observedAt row) = Some t \<longrightarrow> t + 1140000 \<le> max_time"
  shows "\<exists>r. projectSnapshots rows now active = Inr r"
  using assms row_policy_total project_rows_total [of rows now active "\<lparr>pj_snapshots = [], pj_flags = []\<rparr>"]
  by (fastforce simp: projectSnapshots_def)

theorem projection_total_witness:
  "\<exists>r. projectSnapshots [sample_row] ''2026-07-01T10:05:00.000Z'' None = Inr r"
  by (rule projection_total) (simp add: sample_row_def sample_dates max_time_def)

section \<open>A projection evaluated\<close>

lemma sample_now: "dateParse ''2026-07-01T10:05:00.000Z'' = Some 1782900300000"
  by (simp add: date_eval cong: bind_weak_cong)

lemma sample_deadline: "toISOString 1782901140000 = Inr ''2026-07-01T10:19:00.000Z''"
  by (simp add: toISOString_def max_time_def date_eval)

lemma sample_policy:
  "row_policy sample_row ''2026-07-01T10:05:00.000Z'' =
     Inr \<lparr>fr_ttlSeconds = 1140, fr_expiresAt = ''2026-07-01T10:19:00.000Z'', fr_availability = PolicyFresh\<rparr>"
  by (simp add: row_policy_def freshnessPolicy_def policy_input_def sample_row_def sample_dates sample_now
      Let_def policy_ttl_def policy_interval_def sample_deadline)

lemma sample_presentation: "presentation_for sample_row = None"
  by (simp add: presentation_for_def sample_row_def providerMeterPresentation_def FIXED_PRESENTATION_def
      toUpperCase_def upper_char_def is_lower_def Let_def)

lemma sample_shown: "shown_reason sample_row ''2026-07-01T10:05:00.000Z'' None = Inr None"
proof -
  have "sn_availability sample_row = None" "\<not> not_connected sample_row None"
    "win_kind (sn_window sample_row) = Rolling" "sn_kind sample_row = None" "sn_meter sample_row = ''WEEKLY''"
    "sn_value sample_row = 50" "\<not> resetPassed sample_row ''2026-07-01T10:05:00.000Z''"
    by (simp_all add: sample_row_def not_connected_def resetPassed_def sample_now date_eval cong: bind_weak_cong)
  then show ?thesis
    by (simp add: shown_reason_def row_reason_def displayReason_def sample_policy heldReason_def)
qed

lemma sample_projection:
  "projectSnapshots [sample_row] ''2026-07-01T10:05:00.000Z'' None = Inr ([sample_row], [])"
proof -
  have "isSnapshotDisplayEligible sample_row"
      "sample_row\<lparr>sn_expiresAt := ''2026-07-01T10:19:00.000Z''\<rparr> = sample_row"
    by (simp_all add: isSnapshotDisplayEligible_def sample_row_def)
  moreover from this have "projectable sample_row" by (simp add: projectable_def sample_presentation)
  ultimately have "projectable sample_row" "sample_row\<lparr>sn_expiresAt := ''2026-07-01T10:19:00.000Z''\<rparr> = sample_row"
    by simp_all
  then show ?thesis
    by (simp add: projectSnapshots_def project_step_def sample_shown sample_policy map_values_def)
qed

theorem shown_rows_are_safe_witness:
  "\<exists>row \<in> set [sample_row]. \<exists>p. sample_row = row\<lparr>sn_expiresAt := fr_expiresAt p\<rparr> \<and>
    row_policy row ''2026-07-01T10:05:00.000Z'' = Inr p \<and>
    isSnapshotDisplayEligible row \<and> \<not> resetPassed row ''2026-07-01T10:05:00.000Z'' \<and> \<not> not_connected row None \<and>
    (if sn_availability row = None then timely row ''2026-07-01T10:05:00.000Z'' else shows_availability row)"
  by (rule shown_rows_are_safe [OF sample_projection]) simp

theorem projection_accounts_for_rows_witness:
  "[sample_row] = List.map_filter (shown_row ''2026-07-01T10:05:00.000Z'' None) [sample_row]"
  using projection_accounts_for_rows [OF sample_projection] by blast

theorem policy_agrees_with_freshness_witness:
  "freshness ''2026-07-01T10:00:00.000Z'' ''2026-07-01T10:19:00.000Z'' ''2026-07-01T10:05:00.000Z'' = FreshState"
  using policy_agrees_with_freshness [OF sample_policy [unfolded row_policy_def], of 1782900000000 1782900300000]
  by (simp add: policy_input_def sample_row_def sample_dates sample_now)

end
