(* ===== verification/Merge.thy ===== *)
theory Merge
  imports DataRules
begin

text \<open>
  packages/core/src/merge.ts: one row per provider, meter and account, the newest one, bounded by
  dropping the least recently observed. \<open>mergeSnapshots\<close> builds an insertion-ordered map, filters,
  sorts and cuts as the code does; \<open>merged_row\<close> says which row an identity ends up with, and the
  lemmas show that the result is the sorted, bounded list of exactly those rows.
\<close>

section \<open>The merge\<close>

definition MAX_CACHE_ENTRIES :: nat where
  "MAX_CACHE_ENTRIES = 64"

definition snapshotIdentity :: "snapshot \<Rightarrow> string" where
  "snapshotIdentity s =
     (let base = provider_str (sn_provider s) @ '' '' @ sn_meter s in
      case sn_accountId s of None \<Rightarrow> base | Some a \<Rightarrow> base @ '' '' @ a)"

definition observedMilliseconds :: "snapshot \<Rightarrow> int" where
  "observedMilliseconds s = (case dateParse (sn_observedAt s) of Some t \<Rightarrow> t | None \<Rightarrow> 0)"

definition isClaudeStatuslineFallback :: "snapshot \<Rightarrow> bool" where
  "isClaudeStatuslineFallback s \<longleftrightarrow> sn_provider s = CLAUDE \<and> sn_accountId s = None \<and>
     (case sn_provenance s of
        None \<Rightarrow> False
      | Some p \<Rightarrow> prov_sourceKind p = StatuslinePayload \<and>
          observed_via_str (prov_observedVia p) = ''claude_code_statusline'')"

definition isClaudePayloadWeekly :: "snapshot \<Rightarrow> bool" where
  "isClaudePayloadWeekly s \<longleftrightarrow> sn_provider s = CLAUDE \<and> startsWith (sn_meter s) ''SEVEN_DAY'' \<and>
     source_kind_of s = Some StatuslinePayload"

definition scopedClaudeCoversFallback :: "snapshot \<Rightarrow> snapshot list \<Rightarrow> bool" where
  "scopedClaudeCoversFallback candidate snapshots \<longleftrightarrow>
     isClaudeStatuslineFallback candidate \<and>
     list_ex (\<lambda>s. sn_provider s = CLAUDE \<and> sn_meter s = sn_meter candidate \<and> sn_accountId s \<noteq> None \<and>
                  ms_lt (Some (observedMilliseconds candidate)) (dateParse (sn_expiresAt s))) snapshots"

definition set_existing :: "(string \<times> snapshot) list \<Rightarrow> snapshot \<Rightarrow> (string \<times> snapshot) list" where
  "set_existing m s = (if isClaudePayloadWeekly s then m else AList.update (snapshotIdentity s) s m)"

definition set_incoming :: "(string \<times> snapshot) list \<Rightarrow> snapshot \<Rightarrow> (string \<times> snapshot) list" where
  "set_incoming m s =
     (if isClaudePayloadWeekly s then m else
        case map_of m (snapshotIdentity s) of
          None \<Rightarrow> AList.update (snapshotIdentity s) s m
        | Some previous \<Rightarrow>
            if observedMilliseconds s \<ge> observedMilliseconds previous
            then AList.update (snapshotIdentity s) s m else m)"

definition byIdentity :: "snapshot list \<Rightarrow> snapshot list \<Rightarrow> (string \<times> snapshot) list" where
  "byIdentity existing incoming = foldl set_incoming (foldl set_existing [] existing) incoming"

definition merged_rows :: "snapshot list \<Rightarrow> snapshot list \<Rightarrow> snapshot list" where
  "merged_rows existing incoming =
     (let combined = map_values (byIdentity existing incoming)
      in filter (\<lambda>s. \<not> scopedClaudeCoversFallback s combined) combined)"

definition mergeSnapshots :: "snapshot list \<Rightarrow> snapshot list \<Rightarrow> nat \<Rightarrow> snapshot list" where
  "mergeSnapshots existing incoming limit =
     (let merged = merged_rows existing incoming in
      if length merged \<le> limit then sort_key snapshotIdentity merged
      else sort_key snapshotIdentity (take limit (sort_key (\<lambda>s. - observedMilliseconds s) merged)))"

section \<open>Identities do not collide\<close>

lemma provider_str_no_space: "CHR '' '' \<notin> set (provider_str p)"
  by (cases p) simp_all

lemma safeMeter_no_space: "safeMeter m \<Longrightarrow> CHR '' '' \<notin> set m"
  by (cases m) (auto simp: safeMeter_def list_all_iff is_upper_def is_digit_def less_eq_char_def)

text \<open>Two snapshots with safe meter names have the same identity exactly when provider, meter and
  account agree; in particular a row without an account is never the row of an account.\<close>

theorem snapshotIdentity_inject:
  assumes "safeMeter (sn_meter s)" "safeMeter (sn_meter t)"
  shows "snapshotIdentity s = snapshotIdentity t \<longleftrightarrow>
    sn_provider s = sn_provider t \<and> sn_meter s = sn_meter t \<and> sn_accountId s = sn_accountId t"
proof
  let ?rest = "\<lambda>s. sn_meter s @ (case sn_accountId s of None \<Rightarrow> [] | Some a \<Rightarrow> CHR '' '' # a)"
  have split: "snapshotIdentity s = provider_str (sn_provider s) @ CHR '' '' # ?rest s" for s
    by (simp add: snapshotIdentity_def Let_def split: option.splits)
  assume "snapshotIdentity s = snapshotIdentity t"
  then have *: "provider_str (sn_provider s) = provider_str (sn_provider t)" "?rest s = ?rest t"
    using append_sep_inject [of "provider_str (sn_provider s)" "CHR '' ''" "?rest s"] provider_str_no_space
    unfolding split by blast+
  moreover have "CHR '' '' \<notin> set (sn_meter s)" "CHR '' '' \<notin> set (sn_meter t)"
    using assms safeMeter_no_space by blast+
  moreover from this have "sn_meter s = sn_meter t \<and> sn_accountId s = sn_accountId t"
  proof (cases "sn_accountId s"; cases "sn_accountId t")
    fix a b assume "sn_accountId s = Some a" "sn_accountId t = Some b"
    with calculation show ?thesis
      using append_sep_inject [of "sn_meter s" "CHR '' ''" a "sn_meter t" b] by simp
  qed (use calculation in \<open>simp_all, (metis in_set_conv_decomp)+\<close>)
  ultimately show "sn_provider s = sn_provider t \<and> sn_meter s = sn_meter t \<and> sn_accountId s = sn_accountId t"
    by simp
qed (simp add: snapshotIdentity_def)

section \<open>Which row an identity ends up with\<close>

definition rows_of :: "string \<Rightarrow> snapshot list \<Rightarrow> snapshot list" where
  "rows_of k rows = filter (\<lambda>s. snapshotIdentity s = k \<and> \<not> isClaudePayloadWeekly s) rows"

fun newest :: "snapshot \<Rightarrow> snapshot list \<Rightarrow> snapshot" where
  "newest best [] = best"
| "newest best (t # ts) = newest (if observedMilliseconds t \<ge> observedMilliseconds best then t else best) ts"

text \<open>The last cached row of the identity, or else the first incoming one, replaced by every incoming
  row that is at least as new.\<close>

definition merged_row :: "snapshot list \<Rightarrow> snapshot list \<Rightarrow> string \<Rightarrow> snapshot option" where
  "merged_row existing incoming k =
     (if rows_of k existing \<noteq> [] then Some (newest (last (rows_of k existing)) (rows_of k incoming))
      else if rows_of k incoming \<noteq> [] then Some (newest (hd (rows_of k incoming)) (tl (rows_of k incoming)))
      else None)"

lemma newest_mem: "newest best ts \<in> insert best (set ts)"
  by (induction best ts rule: newest.induct) auto

lemma newest_ge: "t \<in> insert best (set ts) \<Longrightarrow> observedMilliseconds t \<le> observedMilliseconds (newest best ts)"
proof (induction best ts arbitrary: t rule: newest.induct)
  case (2 best u ts)
  let ?b = "if observedMilliseconds u \<ge> observedMilliseconds best then u else best"
  have "observedMilliseconds ?b \<le> observedMilliseconds (newest ?b ts)" by (rule "2.IH") simp
  moreover have "t \<in> insert ?b (set ts) \<or> observedMilliseconds t \<le> observedMilliseconds ?b"
    using "2.prems" by auto
  ultimately show ?case using "2.IH" [of t] by fastforce
qed simp

lemma lookup_existing:
  "map_of (foldl set_existing m existing) k =
     (if rows_of k existing = [] then map_of m k else Some (last (rows_of k existing)))"
  by (induction existing arbitrary: m) (auto simp: set_existing_def rows_of_def update_conv')

lemma lookup_incoming:
  "map_of (foldl set_incoming m incoming) k =
     (case map_of m k of
        Some best \<Rightarrow> Some (newest best (rows_of k incoming))
      | None \<Rightarrow> if rows_of k incoming = [] then None
          else Some (newest (hd (rows_of k incoming)) (tl (rows_of k incoming))))"
proof (induction incoming arbitrary: m)
  case (Cons s incoming)
  have "map_of (set_incoming m s) k =
      (if snapshotIdentity s = k \<and> \<not> isClaudePayloadWeekly s then
         (case map_of m k of None \<Rightarrow> Some s | Some best \<Rightarrow> Some (newest best [s]))
       else map_of m k)"
    by (auto simp: set_incoming_def update_conv' split: option.splits)
  with Cons.IH [of "set_incoming m s"] show ?case
    by (auto simp: rows_of_def split: option.splits)
qed (simp add: rows_of_def split: option.split)

lemma byIdentity_lookup: "map_of (byIdentity existing incoming) k = merged_row existing incoming k"
  by (simp add: byIdentity_def lookup_incoming lookup_existing merged_row_def)

lemma keyed_existing: "keyed_by snapshotIdentity m \<Longrightarrow> keyed_by snapshotIdentity (foldl set_existing m rows)"
  by (induction rows arbitrary: m) (simp_all add: set_existing_def keyed_by_update)

lemma keyed_incoming: "keyed_by snapshotIdentity m \<Longrightarrow> keyed_by snapshotIdentity (foldl set_incoming m rows)"
  by (induction rows arbitrary: m) (simp_all add: set_incoming_def keyed_by_update split: option.split)

lemma keyed_byIdentity: "keyed_by snapshotIdentity (byIdentity existing incoming)"
  by (simp add: byIdentity_def keyed_incoming keyed_existing)

lemma set_byIdentity:
  "set (map_values (byIdentity existing incoming)) =
     {s. merged_row existing incoming (snapshotIdentity s) = Some s}"
  using keyed_by_values [OF keyed_byIdentity] by (auto simp: byIdentity_lookup)

lemma distinct_merged_rows: "distinct (map snapshotIdentity (merged_rows existing incoming))"
  using keyed_by_distinct [OF keyed_byIdentity] by (simp add: merged_rows_def Let_def distinct_map_filter)

section \<open>The result of a merge\<close>

definition covered :: "snapshot list \<Rightarrow> snapshot list \<Rightarrow> snapshot \<Rightarrow> bool" where
  "covered existing incoming s \<longleftrightarrow>
     scopedClaudeCoversFallback s (map_values (byIdentity existing incoming))"

lemma set_merged_rows:
  "set (merged_rows existing incoming) =
     {s. merged_row existing incoming (snapshotIdentity s) = Some s \<and> \<not> covered existing incoming s}"
  using set_byIdentity [of existing incoming] by (auto simp: merged_rows_def Let_def covered_def)

lemma set_mergeSnapshots: "set (mergeSnapshots existing incoming limit) \<subseteq> set (merged_rows existing incoming)"
  by (auto simp: mergeSnapshots_def Let_def dest: in_set_takeD)

lemma set_mergeSnapshots_fits:
  "length (merged_rows existing incoming) \<le> limit \<Longrightarrow>
     set (mergeSnapshots existing incoming limit) = set (merged_rows existing incoming)"
  by (simp add: mergeSnapshots_def Let_def)

lemma length_mergeSnapshots:
  "length (mergeSnapshots existing incoming limit) = min limit (length (merged_rows existing incoming))"
  by (simp add: mergeSnapshots_def Let_def)

lemma distinct_sort_key_map: "distinct (map f xs) \<Longrightarrow> distinct (map f (sort_key g xs))"
  by (simp add: distinct_map)

lemma strictly_sorted_mergeSnapshots:
  "sorted_wrt (<) (map snapshotIdentity (mergeSnapshots existing incoming limit))"
proof -
  have "distinct (map snapshotIdentity (merged_rows existing incoming))" by (rule distinct_merged_rows)
  moreover from this have "distinct (map snapshotIdentity
      (take limit (sort_key (\<lambda>s. - observedMilliseconds s) (merged_rows existing incoming))))"
    unfolding take_map [symmetric] by (intro distinct_take distinct_sort_key_map)
  ultimately show ?thesis
    unfolding strict_sorted_iff mergeSnapshots_def Let_def by (simp add: distinct_sort_key_map)
qed

lemma merge_exact:
  "sorted_wrt (<) (map snapshotIdentity (mergeSnapshots existing incoming limit)) \<and>
   length (mergeSnapshots existing incoming limit) = min limit (length (merged_rows existing incoming)) \<and>
   set (mergeSnapshots existing incoming limit) \<subseteq>
     {s. merged_row existing incoming (snapshotIdentity s) = Some s \<and> \<not> covered existing incoming s \<and>
         s \<in> set existing \<union> set incoming \<and> \<not> isClaudePayloadWeekly s}"
proof -
  have "merged_row existing incoming k = Some s \<Longrightarrow> s \<in> set (rows_of k existing) \<union> set (rows_of k incoming)" for k s
    using newest_mem [of "last (rows_of k existing)" "rows_of k incoming"]
      newest_mem [of "hd (rows_of k incoming)" "tl (rows_of k incoming)"]
    by (auto simp: merged_row_def split: if_splits dest: list.set_sel(2))
  then show ?thesis
    using strictly_sorted_mergeSnapshots length_mergeSnapshots set_mergeSnapshots [of existing incoming limit]
    unfolding set_merged_rows by (fastforce simp: rows_of_def)
qed

text \<open>A merge returns at most \<open>limit\<close> rows, strictly sorted by identity (so one row per provider,
  meter and account), and exactly as many as fit; every row is the one its identity ends up with,
  never an uncovered status line fallback of a scoped account or a weekly status line payload.\<close>

theorem merge_result:
  "sorted_wrt (<) (map snapshotIdentity (mergeSnapshots existing incoming limit)) \<and>
   length (mergeSnapshots existing incoming limit) = min limit (length (merged_rows existing incoming)) \<and>
   set (mergeSnapshots existing incoming limit) \<subseteq>
     {s. merged_row existing incoming (snapshotIdentity s) = Some s \<and> \<not> covered existing incoming s \<and>
         s \<in> set existing \<union> set incoming \<and> \<not> isClaudePayloadWeekly s}"
  by (rule merge_exact)

text \<open>A merge that has to cut keeps the most recently observed rows: no row it leaves out was
  observed after a row it keeps; a merge that does not have to cut leaves no row out.\<close>

theorem merge_keeps_newest:
  assumes "t \<in> set (merged_rows existing incoming)"
    and "t \<notin> set (mergeSnapshots existing incoming limit)"
  shows "limit < length (merged_rows existing incoming) \<and>
    (\<forall>s \<in> set (mergeSnapshots existing incoming limit). observedMilliseconds t \<le> observedMilliseconds s)"
proof -
  let ?m = "merged_rows existing incoming" and ?f = "\<lambda>s. - observedMilliseconds s"
  let ?xs = "sort_key ?f ?m"
  have long: "limit < length ?m"
    using assms set_mergeSnapshots_fits [of existing incoming limit] by force
  then have set: "set (mergeSnapshots existing incoming limit) = set (take limit ?xs)"
    by (simp add: mergeSnapshots_def Let_def)
  have "t \<in> set (take limit ?xs @ drop limit ?xs)" using assms(1) by simp
  then have t: "t \<in> set (drop limit ?xs)" using assms(2) set by (auto simp del: append_take_drop_id)
  have "sorted (map ?f (take limit ?xs @ drop limit ?xs))" by simp
  then have "\<forall>s \<in> set (take limit ?xs). \<forall>u \<in> set (drop limit ?xs). ?f s \<le> ?f u"
    unfolding map_append sorted_append by (auto simp del: append_take_drop_id)
  with t set long show ?thesis by force
qed

lemma newest_wins:
  assumes "s \<in> set (mergeSnapshots existing incoming limit)"
    and "distinct (map snapshotIdentity existing)"
    and "t \<in> set existing \<union> set incoming"
    and "snapshotIdentity t = snapshotIdentity s" and "\<not> isClaudePayloadWeekly t"
  shows "observedMilliseconds t \<le> observedMilliseconds s"
proof -
  let ?k = "snapshotIdentity s"
  have row: "merged_row existing incoming ?k = Some s"
    using assms(1) merge_exact [of existing incoming limit] by blast
  have t: "t \<in> set (rows_of ?k existing) \<or> t \<in> set (rows_of ?k incoming)"
    using assms(3-5) by (auto simp: rows_of_def)
  have one: "x = y" if "x \<in> set (rows_of ?k existing)" "y \<in> set (rows_of ?k existing)" for x y
    using that assms(2) by (auto simp: rows_of_def distinct_map inj_on_def)
  show ?thesis
  proof (cases "rows_of ?k existing = []")
    case True
    with t row have "t \<in> insert (hd (rows_of ?k incoming)) (set (tl (rows_of ?k incoming)))"
      by (cases "rows_of ?k incoming") auto
    with True row newest_ge [OF this] show ?thesis by (auto simp: merged_row_def split: if_splits)
  next
    case False
    then have "t \<in> insert (last (rows_of ?k existing)) (set (rows_of ?k incoming))"
      using t one last_in_set by blast
    with False row newest_ge [OF this] show ?thesis by (auto simp: merged_row_def split: if_splits)
  qed
qed

text \<open>The newest observation wins: no row that was merged in, and no cached row when the cache has one row
  per identity, is newer than the row the merge returns for its identity.\<close>

theorem merge_newest_wins:
  assumes "s \<in> set (mergeSnapshots existing incoming limit)"
    and "distinct (map snapshotIdentity existing)"
    and "t \<in> set existing \<union> set incoming"
    and "snapshotIdentity t = snapshotIdentity s" and "\<not> isClaudePayloadWeekly t"
  shows "observedMilliseconds t \<le> observedMilliseconds s"
  using assms by (rule newest_wins)

section \<open>A merged cache is stable\<close>

lemma update_new: "k \<notin> fst ` set m \<Longrightarrow> AList.update k v m = m @ [(k, v)]"
  by (induction m) auto

lemma foldl_set_existing:
  "distinct (map snapshotIdentity rows) \<Longrightarrow> \<forall>s \<in> set rows. \<not> isClaudePayloadWeekly s \<Longrightarrow>
   set (map fst m) \<inter> set (map snapshotIdentity rows) = {} \<Longrightarrow>
   foldl set_existing m rows = m @ map (\<lambda>s. (snapshotIdentity s, s)) rows"
proof (induction rows arbitrary: m)
  case (Cons s rows)
  then have "set_existing m s = m @ [(snapshotIdentity s, s)]"
    by (simp add: set_existing_def update_new)
  with Cons show ?case by auto
qed simp

lemma scopedClaudeCoversFallback_mono:
  "scopedClaudeCoversFallback s xs \<Longrightarrow> set xs \<subseteq> set ys \<Longrightarrow> scopedClaudeCoversFallback s ys"
  by (auto simp: scopedClaudeCoversFallback_def list_ex_iff)

text \<open>Merging nothing into a merged cache changes nothing.\<close>

theorem merge_idempotent:
  "mergeSnapshots (mergeSnapshots existing incoming limit) [] limit = mergeSnapshots existing incoming limit"
proof -
  let ?res = "mergeSnapshots existing incoming limit"
  have sorted: "sorted (map snapshotIdentity ?res)" "distinct (map snapshotIdentity ?res)"
    using strictly_sorted_mergeSnapshots [of existing incoming limit] by (simp_all add: strict_sorted_iff)
  have res: "set ?res \<subseteq> {s. \<not> covered existing incoming s \<and> \<not> isClaudePayloadWeekly s}"
    using merge_exact [of existing incoming limit] by blast
  have "foldl set_existing [] ?res = map (\<lambda>s. (snapshotIdentity s, s)) ?res"
    using foldl_set_existing [of ?res "[]"] sorted(2) res by auto
  then have vals: "map_values (byIdentity ?res []) = ?res"
    by (simp add: byIdentity_def map_values_def comp_def)
  have sub: "set ?res \<subseteq> set (map_values (byIdentity existing incoming))"
    using set_mergeSnapshots [of existing incoming limit] by (auto simp: merged_rows_def Let_def)
  have "\<not> scopedClaudeCoversFallback s ?res" if "s \<in> set ?res" for s
    using that res scopedClaudeCoversFallback_mono [OF _ sub] by (auto simp: covered_def)
  then have "merged_rows ?res [] = ?res"
    unfolding merged_rows_def Let_def vals by (rule filter_True [OF ballI])
  moreover have "length ?res \<le> limit" by (simp add: length_mergeSnapshots)
  ultimately show ?thesis
    unfolding mergeSnapshots_def [of ?res] Let_def by (simp add: sort_key_id_if_sorted [OF sorted(1)])
qed

section \<open>Merges evaluated\<close>

definition older_row :: snapshot where
  "older_row = sample_row\<lparr>sn_meter := ''DAILY'', sn_observedAt := ''2026-07-01T09:00:00.000Z''\<rparr>"

lemma sample_identities:
  "snapshotIdentity sample_row = ''GROK WEEKLY''" "snapshotIdentity older_row = ''GROK DAILY''"
  by (simp_all add: snapshotIdentity_def sample_row_def older_row_def)

lemma sample_observed:
  "observedMilliseconds sample_row = 1782900000000" "observedMilliseconds older_row = 1782896400000"
  by (simp_all add: observedMilliseconds_def sample_row_def older_row_def sample_dates date_eval cong: bind_weak_cong)

lemma sample_not_claude: "sn_provider sample_row = GROK" "sn_provider older_row = GROK"
  by (simp_all add: sample_row_def older_row_def)

lemma sample_merged:
  "merged_rows [] [older_row, sample_row] = [older_row, sample_row]"
  "merged_rows [sample_row] [] = [sample_row]"
  by (simp_all add: merged_rows_def byIdentity_def set_incoming_def set_existing_def isClaudePayloadWeekly_def
      sample_not_claude sample_identities map_values_def scopedClaudeCoversFallback_def
      isClaudeStatuslineFallback_def)

lemma sample_cut: "mergeSnapshots [] [older_row, sample_row] 1 = [sample_row]"
  by (simp add: mergeSnapshots_def sample_merged sample_observed)

theorem merge_keeps_newest_witness: "1 < length (merged_rows [] [older_row, sample_row])"
proof -
  have "older_row \<noteq> sample_row" using sample_identities by fastforce
  then have "older_row \<notin> set (mergeSnapshots [] [older_row, sample_row] 1)" unfolding sample_cut by simp
  moreover have "older_row \<in> set (merged_rows [] [older_row, sample_row])" by (simp add: sample_merged)
  ultimately show ?thesis using merge_keeps_newest by blast
qed

theorem merge_newest_wins_witness: "observedMilliseconds sample_row \<le> observedMilliseconds sample_row"
proof (rule merge_newest_wins)
  show "sample_row \<in> set (mergeSnapshots [sample_row] [] 64)"
    by (simp add: mergeSnapshots_def sample_merged)
qed (simp_all add: isClaudePayloadWeekly_def sample_not_claude)

theorem snapshotIdentity_inject_witness: "snapshotIdentity sample_row \<noteq> snapshotIdentity older_row"
proof -
  have "safeMeter (sn_meter sample_row)" "safeMeter (sn_meter older_row)"
    by (simp_all add: sample_row_def older_row_def safeMeter_def is_upper_def)
  from snapshotIdentity_inject [OF this] show ?thesis by (simp add: sample_row_def older_row_def)
qed

end
