(* ===== verification/Collection.thy ===== *)
theory Collection
  imports Merge
begin

text \<open>
  packages/core/src/collection.ts: what a collection run does to the cache. A successful report
  replaces the rows of its identity and clears its suppression, a drift report removes them and
  leaves a suppression, any other failure keeps the rows; \<open>visibleSnapshots\<close> is the one door to a
  surface. The lemmas give the effect of each outcome, the invariant of the document, and what a
  suppression guarantees across reports (and where it does not).
\<close>

section \<open>Reports, suppressions, state\<close>

datatype collection_failure =
    Drift | NetworkFail | Authentication | RateLimit | RemoteError
  | LocalIo

fun collection_failure_str :: "collection_failure \<Rightarrow> string" where
  "collection_failure_str Drift = ''drift''"
| "collection_failure_str NetworkFail = ''network''"
| "collection_failure_str Authentication = ''authentication''"
| "collection_failure_str RateLimit = ''rate_limited''"
| "collection_failure_str RemoteError = ''remote_error''"
| "collection_failure_str LocalIo = ''local_io''"

definition COLLECTION_FAILURE_REASONS :: "collection_failure list" where
  "COLLECTION_FAILURE_REASONS =
     [Drift, NetworkFail, Authentication, RateLimit, RemoteError,
      LocalIo]"

interpretation collection_failure_words: vocabulary collection_failure_str COLLECTION_FAILURE_REASONS
proof unfold_locales
  show "collection_failure_str x = collection_failure_str y \<Longrightarrow> x = y" for x y by (cases x; cases y) simp_all
  show "x \<in> set COLLECTION_FAILURE_REASONS" for x by (cases x) (simp_all add: COLLECTION_FAILURE_REASONS_def)
qed

lemmas collection_failure_simps [vocab_simps, simp] = collection_failure_words.decode_code collection_failure_words.code_eq_iff

datatype collection_report =
    ReportOk (rp_provider: provider_code) (rp_accountId: "string option") (rp_observedAt: string)
      (rp_snapshots: "snapshot list") (rp_complete: "bool option")
  | ReportFailed (rp_provider: provider_code) (rp_accountId: "string option") (rp_observedAt: string)
      (rp_reason: collection_failure)

record cache_suppression =
  su_provider :: provider_code
  su_accountId :: "string option"
  su_suppressedAt :: string

definition MAX_CACHE_SUPPRESSIONS :: nat where
  "MAX_CACHE_SUPPRESSIONS = MAX_CACHE_ENTRIES"

record cache_state =
  cs_snapshots :: "snapshot list"
  cs_suppressions :: "cache_suppression list"

definition collectionIdentity :: "provider_code \<Rightarrow> string option \<Rightarrow> string" where
  "collectionIdentity provider accountId =
     (case accountId of None \<Rightarrow> provider_str provider | Some a \<Rightarrow> provider_str provider @ '' '' @ a)"

definition snapshotBelongsTo :: "snapshot \<Rightarrow> provider_code \<Rightarrow> string option \<Rightarrow> bool" where
  "snapshotBelongsTo s provider accountId \<longleftrightarrow>
     sn_provider s = provider \<and>
     collectionIdentity provider (sn_accountId s) = collectionIdentity provider accountId"

text \<open>\<open>None\<close> is \<open>{ ok: false }\<close>: one entry that cannot be read refuses the whole list.\<close>

definition read_suppression :: "js \<Rightarrow> cache_suppression option" where
  "read_suppression entry =
     (if \<not> isRecord entry then None else
      do { provider \<leftarrow> read_word provider_str PROVIDER_CODES (prop_of entry ''provider'');
           (if prop_of entry ''reason'' \<noteq> Str ''drift'' then None else
            do { suppressedAt \<leftarrow>
                   (case prop_of entry ''suppressedAt'' of
                      Str s \<Rightarrow> if dateParse s = None then None else Some s | _ \<Rightarrow> None);
                 accountId \<leftarrow> readAccountId (prop_of entry ''accountId'');
                 Some \<lparr>su_provider = provider, su_accountId = accountId, su_suppressedAt = suppressedAt\<rparr> }) })"

definition readSuppressions :: "js \<Rightarrow> cache_suppression list option" where
  "readSuppressions v =
     (case v of
        Undefined \<Rightarrow> Some []
      | Null \<Rightarrow> Some []
      | Arr entries \<Rightarrow>
          if length entries > MAX_CACHE_SUPPRESSIONS then None else those (map read_suppression entries)
      | _ \<Rightarrow> None)"

definition claudeRowCounts :: "snapshot \<Rightarrow> bool \<Rightarrow> bool" where
  "claudeRowCounts row pollOn =
     (if sn_provider row \<noteq> CLAUDE then True
      else if sn_meter row = ''ACQUISITION'' then pollOn
      else
        let remote = (source_kind_of row = Some RemoteApi) in
        if pollOn then remote else \<not> remote \<and> \<not> startsWith (sn_meter row) ''SEVEN_DAY'')"

section \<open>Folding a report into the cache\<close>

definition suppressedMilliseconds :: "cache_suppression \<Rightarrow> int" where
  "suppressedMilliseconds s = (case dateParse (su_suppressedAt s) of Some t \<Rightarrow> t | None \<Rightarrow> 0)"

definition boundSuppressions :: "cache_suppression list \<Rightarrow> cache_suppression list" where
  "boundSuppressions suppressions =
     (if length suppressions \<le> MAX_CACHE_SUPPRESSIONS then suppressions
      else take MAX_CACHE_SUPPRESSIONS (sort_key (\<lambda>s. - suppressedMilliseconds s) suppressions))"

definition suppressionMatches :: "cache_suppression \<Rightarrow> collection_report \<Rightarrow> bool" where
  "suppressionMatches suppression report \<longleftrightarrow>
     su_provider suppression = rp_provider report \<and>
     collectionIdentity (rp_provider report) (su_accountId suppression) =
       collectionIdentity (rp_provider report) (rp_accountId report)"

definition belongs :: "collection_report \<Rightarrow> snapshot \<Rightarrow> bool" where
  "belongs report s \<longleftrightarrow> snapshotBelongsTo s (rp_provider report) (rp_accountId report)"

text \<open>\<open>report.snapshots.length > 0 && every(... "statusline_payload")\<close>\<close>

definition partial_report :: "snapshot list \<Rightarrow> bool" where
  "partial_report snapshots \<longleftrightarrow>
     snapshots \<noteq> [] \<and> list_all (\<lambda>s. source_kind_of s = Some StatuslinePayload) snapshots"

definition newer_rows :: "snapshot list \<Rightarrow> snapshot list \<Rightarrow> snapshot list" where
  "newer_rows held snapshots =
     filter (\<lambda>s.
        case find (\<lambda>row. snapshotIdentity row = snapshotIdentity s) held of
          None \<Rightarrow> True
        | Some current \<Rightarrow> ms_lt (dateParse (sn_observedAt current)) (dateParse (sn_observedAt s)))
       (filter (\<lambda>s. \<not> isClaudePayloadWeekly s) snapshots)"

definition retained_rows :: "collection_report \<Rightarrow> snapshot list \<Rightarrow> snapshot list \<Rightarrow> snapshot list" where
  "retained_rows report held snapshots =
     (if partial_report snapshots then held
      else filter (\<lambda>s. \<not> belongs report s \<or>
             list_ex (\<lambda>i. snapshotIdentity i = snapshotIdentity s) snapshots) held)"

definition applyCollectionReport :: "cache_state \<Rightarrow> collection_report \<Rightarrow> cache_state" where
  "applyCollectionReport state0 report =
     (let instant = dateParse (rp_observedAt report) in
      if instant = None then state0 else
      let state = state0\<lparr>cs_snapshots := retainSnapshots (cs_snapshots state0) instant\<rparr> in
      if list_ex (\<lambda>entry. suppressionMatches entry report \<and> ms_lt instant (dateParse (su_suppressedAt entry)))
           (cs_suppressions state)
      then state
      else
        case report of
          ReportFailed provider accountId observedAt reason \<Rightarrow>
            if reason = Drift \<and>
               list_ex (\<lambda>s. belongs report s \<and> ms_lt instant (dateParse (sn_observedAt s))) (cs_snapshots state)
            then state
            else if reason \<noteq> Drift then state
            else
              \<lparr>cs_snapshots = filter (\<lambda>s. \<not> belongs report s) (cs_snapshots state),
               cs_suppressions = boundSuppressions
                 (filter (\<lambda>existing. \<not> suppressionMatches existing report) (cs_suppressions state) @
                  [\<lparr>su_provider = provider, su_accountId = accountId, su_suppressedAt = observedAt\<rparr>])\<rparr>
        | ReportOk provider accountId observedAt snapshots whole \<Rightarrow>
            \<lparr>cs_snapshots = mergeSnapshots (retained_rows report (cs_snapshots state) snapshots)
                (newer_rows (cs_snapshots state) snapshots) MAX_CACHE_ENTRIES,
             cs_suppressions =
               filter (\<lambda>s. \<not> suppressionMatches s report) (cs_suppressions state)\<rparr>)"

section \<open>The door to a surface\<close>

definition suppressed_by :: "snapshot \<Rightarrow> cache_suppression \<Rightarrow> bool" where
  "suppressed_by s suppression \<longleftrightarrow>
     snapshotBelongsTo s (su_provider suppression) (su_accountId suppression) \<and>
     (case dateParse (sn_observedAt s) of
        None \<Rightarrow> True | Some observed \<Rightarrow> observed \<le> suppressedMilliseconds suppression)"

definition visibleSnapshots :: "cache_state \<Rightarrow> snapshot list" where
  "visibleSnapshots state =
     (if cs_suppressions state = [] then filter isSnapshotDisplayEligible (cs_snapshots state)
      else filter (\<lambda>s. isSnapshotDisplayEligible s \<and> \<not> list_ex (suppressed_by s) (cs_suppressions state))
             (cs_snapshots state))"

section \<open>Identities\<close>

lemma collectionIdentity_eq [simp]: "collectionIdentity p a = collectionIdentity p b \<longleftrightarrow> a = b"
  by (auto simp: collectionIdentity_def split: option.splits)

lemma snapshotBelongsTo_iff: "snapshotBelongsTo s p a \<longleftrightarrow> sn_provider s = p \<and> sn_accountId s = a"
  by (auto simp: snapshotBelongsTo_def)

lemma suppressionMatches_iff:
  "suppressionMatches s report \<longleftrightarrow> su_provider s = rp_provider report \<and> su_accountId s = rp_accountId report"
  by (auto simp: suppressionMatches_def)

lemma belongs_iff: "belongs report s \<longleftrightarrow> sn_provider s = rp_provider report \<and> sn_accountId s = rp_accountId report"
  by (simp add: belongs_def snapshotBelongsTo_iff)

definition su_identity :: "cache_suppression \<Rightarrow> provider_code \<times> string option" where
  "su_identity s = (su_provider s, su_accountId s)"

section \<open>Reading suppressions\<close>

lemma those_eq_Some: "those xs = Some ys \<longleftrightarrow> xs = map Some ys"
proof (induction xs arbitrary: ys)
  case (Cons x xs)
  then show ?case by (cases ys) (auto split: option.splits)
qed auto

definition suppression_js :: "cache_suppression \<Rightarrow> js" where
  "suppression_js s =
     obj [(''provider'', Str (provider_str (su_provider s))), (''reason'', Str ''drift''),
          (''suppressedAt'', Str (su_suppressedAt s)),
          (''accountId'', opt_js (map_option Str (su_accountId s)))]"

definition wf_suppression :: "cache_suppression \<Rightarrow> bool" where
  "wf_suppression s \<longleftrightarrow> dateParse (su_suppressedAt s) \<noteq> None \<and>
     (case su_accountId s of None \<Rightarrow> True | Some a \<Rightarrow> account_id_pattern a)"

lemma read_suppression_js: "wf_suppression s \<Longrightarrow> read_suppression (suppression_js s) = Some s"
  by (cases "su_accountId s")
     (auto simp: read_suppression_def suppression_js_def wf_suppression_def readAccountId_def)

lemma read_suppression_wf: "read_suppression v = Some s \<Longrightarrow> wf_suppression s"
  by (auto simp: read_suppression_def wf_suppression_def bind_eq_Some_conv readAccountId_def
      split: if_splits js.splits option.splits)

text \<open>A suppression list is read whole or refused whole: what comes back has an entry for every
  entry of the document, each well formed, at most sixty-four of them.\<close>

theorem readSuppressions_whole:
  assumes "readSuppressions (Arr entries) = Some ss"
  shows "length ss = length entries \<and> length ss \<le> MAX_CACHE_SUPPRESSIONS \<and>
    (\<forall>i < length entries. read_suppression (entries ! i) = Some (ss ! i)) \<and> (\<forall>s \<in> set ss. wf_suppression s)"
proof -
  from assms have m: "map read_suppression entries = map Some ss" "length entries \<le> MAX_CACHE_SUPPRESSIONS"
    by (auto simp: readSuppressions_def those_eq_Some split: if_splits)
  then have l: "length ss = length entries" by (metis length_map)
  moreover have i: "read_suppression (entries ! i) = Some (ss ! i)" if "i < length entries" for i
    using that l m(1) by (metis nth_map)
  moreover have "wf_suppression s" if "s \<in> set ss" for s
    using that l i read_suppression_wf by (metis in_set_conv_nth)
  ultimately show ?thesis using m(2) by simp
qed

lemma readSuppressions_js:
  "length ss \<le> MAX_CACHE_SUPPRESSIONS \<Longrightarrow> \<forall>s \<in> set ss. wf_suppression s \<Longrightarrow>
     readSuppressions (Arr (map suppression_js ss)) = Some ss"
  by (auto simp: readSuppressions_def those_eq_Some read_suppression_js)

section \<open>Visible rows\<close>

lemma set_visibleSnapshots:
  "s \<in> set (visibleSnapshots state) \<longleftrightarrow> s \<in> set (cs_snapshots state) \<and> isSnapshotDisplayEligible s \<and>
     (\<forall>su \<in> set (cs_suppressions state). \<not> suppressed_by s su)"
  by (auto simp: visibleSnapshots_def list_ex_iff)

lemma visible_newer:
  assumes "s \<in> set (visibleSnapshots state)" "su \<in> set (cs_suppressions state)"
    and "sn_provider s = su_provider su" "sn_accountId s = su_accountId su"
  shows "\<exists>t. dateParse (sn_observedAt s) = Some t \<and> suppressedMilliseconds su < t"
  using assms by (auto simp: set_visibleSnapshots suppressed_by_def snapshotBelongsTo_iff split: option.splits)

section \<open>The effect of a report\<close>

definition overtaken :: "cache_state \<Rightarrow> collection_report \<Rightarrow> bool" where
  "overtaken state report \<longleftrightarrow>
     list_ex (\<lambda>entry. suppressionMatches entry report \<and>
       ms_lt (dateParse (rp_observedAt report)) (dateParse (su_suppressedAt entry))) (cs_suppressions state)"

lemma apply_unreadable: "dateParse (rp_observedAt report) = None \<Longrightarrow> applyCollectionReport state report = state"
  by (simp add: applyCollectionReport_def Let_def)

lemma apply_cases:
  assumes "dateParse (rp_observedAt report) = Some instant"
  obtains
    (kept) "applyCollectionReport state report = state\<lparr>cs_snapshots := retainSnapshots (cs_snapshots state) (Some instant)\<rparr>"
      "overtaken state report \<or> (\<exists>p a o' r. report = ReportFailed p a o' r)"
  | (drift) p a o' where "report = ReportFailed p a o' Drift" "\<not> overtaken state report"
      "applyCollectionReport state report =
         \<lparr>cs_snapshots = filter (\<lambda>s. \<not> belongs report s) (retainSnapshots (cs_snapshots state) (Some instant)),
          cs_suppressions = boundSuppressions
            (filter (\<lambda>existing. \<not> suppressionMatches existing report) (cs_suppressions state) @
             [\<lparr>su_provider = p, su_accountId = a, su_suppressedAt = o'\<rparr>])\<rparr>"
      "\<forall>s \<in> set (retainSnapshots (cs_snapshots state) (Some instant)). belongs report s \<longrightarrow>
         \<not> ms_lt (Some instant) (dateParse (sn_observedAt s))"
  | (ok) p a o' ss c where "report = ReportOk p a o' ss c" "\<not> overtaken state report"
      "applyCollectionReport state report =
         \<lparr>cs_snapshots = mergeSnapshots
            (retained_rows report (retainSnapshots (cs_snapshots state) (Some instant)) ss)
            (newer_rows (retainSnapshots (cs_snapshots state) (Some instant)) ss) MAX_CACHE_ENTRIES,
          cs_suppressions = filter (\<lambda>s. \<not> suppressionMatches s report) (cs_suppressions state)\<rparr>"
proof (cases "overtaken state report")
  case True
  then have "applyCollectionReport state report = state\<lparr>cs_snapshots := retainSnapshots (cs_snapshots state) (Some instant)\<rparr>"
    using assms by (simp add: applyCollectionReport_def Let_def overtaken_def)
  with True kept show ?thesis by blast
next
  case False
  show ?thesis
  proof (cases report)
    case (ReportOk p a o' ss c)
    with False assms ok [OF ReportOk False] show ?thesis
      by (simp add: applyCollectionReport_def Let_def overtaken_def)
  next
    case (ReportFailed p a o' r)
    show ?thesis
    proof (cases "r = Drift \<and> \<not> list_ex (\<lambda>s. belongs report s \<and> ms_lt (Some instant) (dateParse (sn_observedAt s)))
        (retainSnapshots (cs_snapshots state) (Some instant))")
      case True
      then have r: "r = Drift" by simp
      have "applyCollectionReport state report =
         \<lparr>cs_snapshots = filter (\<lambda>s. \<not> belongs report s) (retainSnapshots (cs_snapshots state) (Some instant)),
          cs_suppressions = boundSuppressions
            (filter (\<lambda>existing. \<not> suppressionMatches existing report) (cs_suppressions state) @
             [\<lparr>su_provider = p, su_accountId = a, su_suppressedAt = o'\<rparr>])\<rparr>"
        using True [THEN conjunct2] False assms
        by (simp add: applyCollectionReport_def Let_def overtaken_def ReportFailed r)
      moreover have "\<forall>s \<in> set (retainSnapshots (cs_snapshots state) (Some instant)). belongs report s \<longrightarrow>
         \<not> ms_lt (Some instant) (dateParse (sn_observedAt s))"
        using True by (auto simp: list_ex_iff)
      ultimately show ?thesis using drift [OF ReportFailed [unfolded r] False] by blast
    next
      case other: False
      with False assms ReportFailed have "applyCollectionReport state report =
          state\<lparr>cs_snapshots := retainSnapshots (cs_snapshots state) (Some instant)\<rparr>"
        by (auto simp: applyCollectionReport_def Let_def overtaken_def)
      with kept ReportFailed show ?thesis by blast
    qed
  qed
qed

section \<open>The invariant of the document\<close>

definition wf_state :: "cache_state \<Rightarrow> bool" where
  "wf_state state \<longleftrightarrow>
     distinct (map snapshotIdentity (cs_snapshots state)) \<and>
     distinct (map su_identity (cs_suppressions state)) \<and>
     length (cs_suppressions state) \<le> MAX_CACHE_SUPPRESSIONS \<and>
     (\<forall>su \<in> set (cs_suppressions state). dateParse (su_suppressedAt su) \<noteq> None)"

lemma set_boundSuppressions: "set (boundSuppressions ss) \<subseteq> set ss"
  by (auto simp: boundSuppressions_def dest: in_set_takeD)

lemma length_boundSuppressions: "length (boundSuppressions ss) \<le> MAX_CACHE_SUPPRESSIONS"
  by (simp add: boundSuppressions_def)

lemma distinct_boundSuppressions: "distinct (map f ss) \<Longrightarrow> distinct (map f (boundSuppressions ss))"
proof -
  assume "distinct (map f ss)"
  then have "distinct (map f (sort_key (\<lambda>s. - suppressedMilliseconds s) ss))" by (rule distinct_sort_key_map)
  then have "distinct (map f (take MAX_CACHE_SUPPRESSIONS (sort_key (\<lambda>s. - suppressedMilliseconds s) ss)))"
    unfolding take_map [symmetric] by (rule distinct_take)
  with \<open>distinct (map f ss)\<close> show ?thesis by (simp add: boundSuppressions_def)
qed

lemma bound_keeps_recent:
  assumes "su \<in> set ss" "su \<notin> set (boundSuppressions ss)"
  shows "length (boundSuppressions ss) = MAX_CACHE_SUPPRESSIONS \<and>
    (\<forall>kept \<in> set (boundSuppressions ss). suppressedMilliseconds su \<le> suppressedMilliseconds kept)"
proof -
  let ?f = "\<lambda>s. - suppressedMilliseconds s" and ?n = MAX_CACHE_SUPPRESSIONS
  let ?xs = "sort_key ?f ss"
  have long: "?n < length ss" using assms by (auto simp: boundSuppressions_def split: if_splits)
  then have b: "boundSuppressions ss = take ?n ?xs" by (simp add: boundSuppressions_def)
  have "su \<in> set (take ?n ?xs @ drop ?n ?xs)" using assms(1) by simp
  then have "su \<in> set (drop ?n ?xs)" using assms(2) b by (auto simp del: append_take_drop_id)
  moreover have "sorted (map ?f (take ?n ?xs @ drop ?n ?xs))" by simp
  then have "\<forall>s \<in> set (take ?n ?xs). \<forall>u \<in> set (drop ?n ?xs). ?f s \<le> ?f u"
    unfolding map_append sorted_append by (auto simp del: append_take_drop_id)
  ultimately show ?thesis using b long by force
qed

lemma retain_subset: "set (retainSnapshots rows now) \<subseteq> set rows"
  by (auto simp: retainSnapshots_def)

lemma distinct_retain: "distinct (map f rows) \<Longrightarrow> distinct (map f (retainSnapshots rows now))"
  by (simp add: retainSnapshots_def distinct_map_filter)

lemma distinct_mergeSnapshots: "distinct (map snapshotIdentity (mergeSnapshots e i n))"
  using strictly_sorted_mergeSnapshots [of e i n] by (simp add: strict_sorted_iff)

lemma apply_wf:
  assumes "wf_state state"
  shows "wf_state (applyCollectionReport state report)"
proof (cases "dateParse (rp_observedAt report)")
  case None
  then show ?thesis using assms by (simp add: apply_unreadable)
next
  case (Some instant)
  then show ?thesis
  proof (cases rule: apply_cases [where state = state])
    case kept
    then show ?thesis using assms by (simp add: wf_state_def distinct_retain)
  next
    case (drift p a o')
    let ?ss = "filter (\<lambda>existing. \<not> suppressionMatches existing report) (cs_suppressions state) @
      [\<lparr>su_provider = p, su_accountId = a, su_suppressedAt = o'\<rparr>]"
    have "distinct (map su_identity ?ss)"
      using assms drift(1) by (auto simp: wf_state_def distinct_map_filter su_identity_def suppressionMatches_iff)
    moreover have "\<forall>su \<in> set ?ss. dateParse (su_suppressedAt su) \<noteq> None"
      using assms drift(1) Some by (auto simp: wf_state_def)
    moreover have "distinct (map snapshotIdentity
        (filter (\<lambda>s. \<not> belongs report s) (retainSnapshots (cs_snapshots state) (Some instant))))"
      using assms by (simp add: wf_state_def distinct_map_filter distinct_retain)
    ultimately show ?thesis
      unfolding drift(3) wf_state_def
      using set_boundSuppressions [of ?ss] length_boundSuppressions [of ?ss] distinct_boundSuppressions [of su_identity ?ss]
      by auto
  next
    case (ok p a o' ss c)
    then show ?thesis
      using assms
      by (auto simp: wf_state_def distinct_mergeSnapshots distinct_map_filter intro: order_trans [OF length_filter_le])
  qed
qed

lemma apply_rows_bounded:
  assumes "length (cs_snapshots state) \<le> MAX_CACHE_ENTRIES"
  shows "length (cs_snapshots (applyCollectionReport state report)) \<le> MAX_CACHE_ENTRIES"
proof (cases "dateParse (rp_observedAt report)")
  case None
  then show ?thesis using assms by (simp add: apply_unreadable)
next
  case (Some instant)
  have retained: "length (filter P (retainSnapshots (cs_snapshots state) (Some instant))) \<le> MAX_CACHE_ENTRIES" for P
    using assms by (intro order_trans [OF length_filter_le]) (simp add: retainSnapshots_def order_trans [OF length_filter_le])
  from Some show ?thesis
  proof (cases rule: apply_cases [where state = state])
    case kept
    then show ?thesis using retained [of "\<lambda>_. True"] by simp
  qed (simp_all add: retained length_mergeSnapshots)
qed

text \<open>C38: every report leaves the document well formed and within its bounds: one row per identity and at most
  sixty-four rows, one suppression per identity and at most sixty-four suppressions, each with a readable instant.\<close>

theorem applyCollectionReport_wf:
  assumes "wf_state state" and "length (cs_snapshots state) \<le> MAX_CACHE_ENTRIES"
  shows "wf_state (applyCollectionReport state report) \<and>
    length (cs_snapshots (applyCollectionReport state report)) \<le> MAX_CACHE_ENTRIES"
  using apply_wf [OF assms(1)] apply_rows_bounded [OF assms(2)] by blast

theorem applyCollectionReport_wf_witness:
  "wf_state (applyCollectionReport \<lparr>cs_snapshots = [sample_row], cs_suppressions = []\<rparr>
     (ReportFailed GROK None ''2026-07-01T11:00:00.000Z'' Drift))"
  using applyCollectionReport_wf [of "\<lparr>cs_snapshots = [sample_row], cs_suppressions = []\<rparr>"]
  by (simp add: wf_state_def MAX_CACHE_ENTRIES_def)

section \<open>The effect of each outcome\<close>

text \<open>A failure other than drift keeps the suppressions and every row that is not more than seven
  days older than the report: those older rows, and only those, it does remove.\<close>

theorem failure_keeps_recent_rows:
  assumes "r \<noteq> Drift"
  shows "cs_suppressions (applyCollectionReport state (ReportFailed p a o' r)) = cs_suppressions state \<and>
    cs_snapshots (applyCollectionReport state (ReportFailed p a o' r)) =
      (if dateParse o' = None then cs_snapshots state else retainSnapshots (cs_snapshots state) (dateParse o'))"
proof (cases "dateParse o'")
  case None
  then show ?thesis by (simp add: apply_unreadable)
next
  case (Some instant)
  then have "dateParse (rp_observedAt (ReportFailed p a o' r)) = Some instant" by simp
  then show ?thesis by (cases rule: apply_cases [where state = state]) (use assms Some in auto)
qed

theorem failure_keeps_recent_rows_witness:
  "cs_snapshots (applyCollectionReport \<lparr>cs_snapshots = [sample_row], cs_suppressions = []\<rparr>
     (ReportFailed GROK None ''2026-07-09T10:00:00.000Z'' NetworkFail)) = []"
proof -
  have "dateParse ''2026-07-09T10:00:00.000Z'' = Some 1783591200000" by (simp add: date_eval cong: bind_weak_cong)
  then show ?thesis
    using failure_keeps_recent_rows [of NetworkFail "\<lparr>cs_snapshots = [sample_row], cs_suppressions = []\<rparr>"
        GROK None "''2026-07-09T10:00:00.000Z''"]
    by (simp add: retainSnapshots_def RETENTION_MILLISECONDS_def sample_row_def sample_dates)
qed

text \<open>A drift report that is not overtaken by a later suppression or a later row removes every row of
  its identity, and leaves a suppression with its instant unless the document is full of
  suppressions at least as recent.\<close>

theorem drift_withdraws:
  assumes "dateParse o' = Some instant" and "\<not> overtaken state (ReportFailed p a o' Drift)"
    and "\<forall>s \<in> set (cs_snapshots state). sn_provider s = p \<and> sn_accountId s = a \<longrightarrow>
      \<not> ms_lt (Some instant) (dateParse (sn_observedAt s))"
  shows "(\<forall>s \<in> set (cs_snapshots (applyCollectionReport state (ReportFailed p a o' Drift))).
      \<not> (sn_provider s = p \<and> sn_accountId s = a)) \<and>
    (let ss = cs_suppressions (applyCollectionReport state (ReportFailed p a o' Drift)) in
      \<lparr>su_provider = p, su_accountId = a, su_suppressedAt = o'\<rparr> \<in> set ss \<or>
      length ss = MAX_CACHE_SUPPRESSIONS \<and> (\<forall>su \<in> set ss. instant \<le> suppressedMilliseconds su))"
proof -
  let ?report = "ReportFailed p a o' Drift"
  let ?new = "\<lparr>su_provider = p, su_accountId = a, su_suppressedAt = o'\<rparr>"
  let ?all = "filter (\<lambda>existing. \<not> suppressionMatches existing ?report) (cs_suppressions state) @ [?new]"
  have "dateParse (rp_observedAt ?report) = Some instant" using assms(1) by simp
  then have eq: "applyCollectionReport state ?report =
      \<lparr>cs_snapshots = filter (\<lambda>s. \<not> belongs ?report s) (retainSnapshots (cs_snapshots state) (Some instant)),
       cs_suppressions = boundSuppressions ?all\<rparr>"
    using assms(2,3) retain_subset [of "cs_snapshots state" "Some instant"]
    by (simp add: applyCollectionReport_def Let_def overtaken_def list_ex_iff belongs_iff) blast
  have "suppressedMilliseconds ?new = instant" using assms(1) by (simp add: suppressedMilliseconds_def)
  with bound_keeps_recent [of ?new ?all] show ?thesis
    unfolding eq Let_def by (auto simp: belongs_iff)
qed

theorem drift_withdraws_witness:
  "sample_row \<notin> set (cs_snapshots (applyCollectionReport \<lparr>cs_snapshots = [sample_row], cs_suppressions = []\<rparr>
     (ReportFailed GROK None ''2026-07-01T10:05:00.000Z'' Drift)))"
  using drift_withdraws [OF sample_now, of "\<lparr>cs_snapshots = [sample_row], cs_suppressions = []\<rparr>" GROK None]
  by (auto simp: overtaken_def sample_row_def sample_dates)

text \<open>A successful report that is applied clears the suppression of its identity and only that one; unless it
  carries nothing but status line payloads, every row of its identity that is left is one the
  report names; and no row gives way to an older observation.\<close>

theorem success_replaces:
  assumes "wf_state state" and "dateParse o' = Some instant"
    and "\<not> overtaken state (ReportOk p a o' ss c)"
  shows "cs_suppressions (applyCollectionReport state (ReportOk p a o' ss c)) =
      filter (\<lambda>su. su_identity su \<noteq> (p, a)) (cs_suppressions state) \<and>
    (\<not> partial_report ss \<longrightarrow>
      (\<forall>s \<in> set (cs_snapshots (applyCollectionReport state (ReportOk p a o' ss c))).
        sn_provider s = p \<and> sn_accountId s = a \<longrightarrow> (\<exists>i \<in> set ss. snapshotIdentity i = snapshotIdentity s))) \<and>
    (\<forall>s \<in> set (cs_snapshots (applyCollectionReport state (ReportOk p a o' ss c))).
      \<forall>t \<in> set (retainSnapshots (cs_snapshots state) (Some instant)).
        snapshotIdentity t = snapshotIdentity s \<and> \<not> isClaudePayloadWeekly t \<longrightarrow>
        observedMilliseconds t \<le> observedMilliseconds s)"
proof -
  let ?report = "ReportOk p a o' ss c"
  let ?held = "retainSnapshots (cs_snapshots state) (Some instant)"
  let ?kept = "retained_rows ?report ?held ss" and ?new = "newer_rows ?held ss"
  have eq: "applyCollectionReport state ?report =
      \<lparr>cs_snapshots = mergeSnapshots ?kept ?new MAX_CACHE_ENTRIES,
       cs_suppressions = filter (\<lambda>su. \<not> suppressionMatches su ?report) (cs_suppressions state)\<rparr>"
    using assms(2,3) by (simp add: applyCollectionReport_def Let_def overtaken_def)
  have held: "distinct (map snapshotIdentity ?held)" using assms(1) by (simp add: wf_state_def distinct_retain)
  then have kept: "distinct (map snapshotIdentity ?kept)" by (simp add: retained_rows_def distinct_map_filter)
  have mem: "s \<in> set ?kept \<union> set ?new" if "s \<in> set (mergeSnapshots ?kept ?new MAX_CACHE_ENTRIES)" for s
    using that merge_exact [of ?kept ?new MAX_CACHE_ENTRIES] by blast
  have named: "\<exists>i \<in> set ss. snapshotIdentity i = snapshotIdentity s"
    if "s \<in> set (mergeSnapshots ?kept ?new MAX_CACHE_ENTRIES)" "\<not> partial_report ss" "belongs ?report s" for s
    using mem [OF that(1)] that(2,3) by (auto simp: retained_rows_def newer_rows_def list_ex_iff)
  have fresh: "observedMilliseconds t \<le> observedMilliseconds s"
    if s: "s \<in> set (mergeSnapshots ?kept ?new MAX_CACHE_ENTRIES)" and t: "t \<in> set ?held"
      and id: "snapshotIdentity t = snapshotIdentity s" and w: "\<not> isClaudePayloadWeekly t" for s t
  proof (cases "t \<in> set ?kept")
    case True
    then show ?thesis using newest_wins [OF s kept _ id w] by blast
  next
    case False
    have "s \<notin> set ?kept"
    proof
      assume "s \<in> set ?kept"
      then have "s \<in> set ?held" by (auto simp: retained_rows_def split: if_splits)
      then have "s = t" using held t id by (auto simp: distinct_map inj_on_def)
      with False \<open>s \<in> set ?kept\<close> show False by blast
    qed
    with mem [OF s] have "s \<in> set ss" by (auto simp: newer_rows_def)
    with t id have "t \<in> set ?kept" by (auto simp: retained_rows_def list_ex_iff split: if_splits)
    with False show ?thesis by blast
  qed
  show ?thesis unfolding eq
    using named fresh by (auto simp: suppressionMatches_iff su_identity_def belongs_iff intro!: filter_cong)
qed

section \<open>What a suppression guarantees over time\<close>

definition report_identity :: "collection_report \<Rightarrow> provider_code \<times> string option" where
  "report_identity report = (rp_provider report, rp_accountId report)"

definition apply_reports :: "cache_state \<Rightarrow> collection_report list \<Rightarrow> cache_state" where
  "apply_reports state reports = foldl applyCollectionReport state reports"

definition protects :: "cache_state \<Rightarrow> provider_code \<times> string option \<Rightarrow> int \<Rightarrow> bool" where
  "protects state i t \<longleftrightarrow>
     (\<exists>su \<in> set (cs_suppressions state). su_identity su = i \<and> t \<le> suppressedMilliseconds su)"

fun successful :: "collection_report \<Rightarrow> bool" where
  "successful (ReportOk _ _ _ _ _) = True"
| "successful (ReportFailed _ _ _ _) = False"

lemma suppressionMatches_identity: "suppressionMatches su report \<longleftrightarrow> su_identity su = report_identity report"
  by (auto simp: suppressionMatches_iff su_identity_def report_identity_def)

lemma bound_all: "length ss \<le> MAX_CACHE_SUPPRESSIONS \<Longrightarrow> boundSuppressions ss = ss"
  by (simp add: boundSuppressions_def)

lemma identities_step:
  "su_identity ` set (cs_suppressions (applyCollectionReport state report)) \<subseteq>
     insert (report_identity report) (su_identity ` set (cs_suppressions state))"
proof (cases "dateParse (rp_observedAt report)")
  case None
  then show ?thesis by (auto simp: apply_unreadable)
next
  case (Some instant)
  then show ?thesis
  proof (cases rule: apply_cases [where state = state])
    case (drift p a o')
    then show ?thesis
      using set_boundSuppressions by (fastforce simp: report_identity_def su_identity_def)
  qed auto
qed

lemma protects_step:
  assumes wf: "wf_state state" and su: "protects state i t"
    and not_ok: "\<not> (successful report \<and> report_identity report = i)"
    and few: "card (insert (report_identity report) (su_identity ` set (cs_suppressions state))) \<le> MAX_CACHE_SUPPRESSIONS"
  shows "protects (applyCollectionReport state report) i t"
proof (cases "dateParse (rp_observedAt report)")
  case None
  then show ?thesis using su by (simp add: apply_unreadable)
next
  case (Some instant)
  from su obtain su' where su': "su' \<in> set (cs_suppressions state)" "su_identity su' = i" "t \<le> suppressedMilliseconds su'"
    by (auto simp: protects_def)
  from Some show ?thesis
  proof (cases rule: apply_cases [where state = state])
    case kept
    then show ?thesis using su by (simp add: protects_def)
  next
    case (ok p a o' ss c)
    then show ?thesis using su' not_ok by (auto simp: protects_def suppressionMatches_identity)
  next
    case (drift p a o')
    let ?new = "\<lparr>su_provider = p, su_accountId = a, su_suppressedAt = o'\<rparr>"
    let ?others = "filter (\<lambda>existing. \<not> suppressionMatches existing report) (cs_suppressions state)"
    have "distinct (map su_identity (?others @ [?new]))"
      using wf drift(1) by (auto simp: wf_state_def distinct_map_filter suppressionMatches_identity
          report_identity_def su_identity_def)
    then have "length (?others @ [?new]) = card (su_identity ` set (?others @ [?new]))"
      by (metis distinct_card length_map set_map)
    also have "\<dots> \<le> card (insert (report_identity report) (su_identity ` set (cs_suppressions state)))"
      using drift(1) by (intro card_mono) (auto simp: report_identity_def su_identity_def)
    finally have all: "boundSuppressions (?others @ [?new]) = ?others @ [?new]" using few bound_all by simp
    show ?thesis
    proof (cases "suppressionMatches su' report")
      case True
      then have "\<not> ms_lt (Some instant) (dateParse (su_suppressedAt su'))"
        using drift(2) su'(1) Some by (auto simp: overtaken_def list_ex_iff)
      then have "suppressedMilliseconds su' \<le> instant"
        using wf su'(1) by (auto simp: suppressedMilliseconds_def wf_state_def)
      moreover have "suppressedMilliseconds ?new = instant"
        using Some drift(1) by (simp add: suppressedMilliseconds_def)
      moreover have "su_identity ?new = i"
        using True su'(2) drift(1) by (simp add: suppressionMatches_identity report_identity_def su_identity_def)
      ultimately show ?thesis using su'(3) unfolding drift(3) protects_def by (auto simp: all)
    next
      case False
      then show ?thesis using su' unfolding drift(3) protects_def by (auto simp: all)
    qed
  qed
qed

lemma protects_reports:
  "wf_state state \<Longrightarrow> protects state i t \<Longrightarrow>
   \<forall>report \<in> set reports. \<not> (successful report \<and> report_identity report = i) \<Longrightarrow>
   card (report_identity ` set reports \<union> su_identity ` set (cs_suppressions state)) \<le> MAX_CACHE_SUPPRESSIONS \<Longrightarrow>
   protects (apply_reports state reports) i t"
proof (induction reports arbitrary: state)
  case (Cons report reports)
  let ?ids = "\<lambda>s. su_identity ` set (cs_suppressions s)"
  have "card (insert (report_identity report) (?ids state)) \<le> MAX_CACHE_SUPPRESSIONS"
    using Cons.prems(4) by (rule order_trans [rotated]) (auto intro!: card_mono)
  then have "protects (applyCollectionReport state report) i t"
    using Cons.prems by (intro protects_step) auto
  moreover have "card (report_identity ` set reports \<union> ?ids (applyCollectionReport state report)) \<le> MAX_CACHE_SUPPRESSIONS"
    using identities_step [of state report]
    by (intro order_trans [OF _ Cons.prems(4)] card_mono) auto
  ultimately show ?case
    using Cons.IH [of "applyCollectionReport state report"] Cons.prems apply_wf
    by (simp add: apply_reports_def)
qed (simp add: apply_reports_def)

text \<open>C14: drift stays: once an identity is suppressed, no sequence of reports that holds no success for that identity
  makes a row of it visible that was not observed strictly after the suppression, as long as the
  reports and the suppressions concern at most sixty-four identities, the bound of the document.\<close>

theorem suppression_persists:
  assumes "wf_state state" and "su \<in> set (cs_suppressions state)"
    and "\<forall>report \<in> set reports. \<not> (successful report \<and> report_identity report = su_identity su)"
    and "card (report_identity ` set reports \<union> su_identity ` set (cs_suppressions state)) \<le> MAX_CACHE_SUPPRESSIONS"
    and "s \<in> set (visibleSnapshots (apply_reports state reports))"
    and "sn_provider s = su_provider su" and "sn_accountId s = su_accountId su"
  shows "\<exists>t. dateParse (sn_observedAt s) = Some t \<and> suppressedMilliseconds su < t"
proof -
  have "protects state (su_identity su) (suppressedMilliseconds su)"
    using assms(2) by (auto simp: protects_def)
  then have "protects (apply_reports state reports) (su_identity su) (suppressedMilliseconds su)"
    using assms(1,3,4) by (intro protects_reports)
  then obtain su' where su': "su' \<in> set (cs_suppressions (apply_reports state reports))"
      "su_identity su' = su_identity su" "suppressedMilliseconds su \<le> suppressedMilliseconds su'"
    by (auto simp: protects_def)
  then show ?thesis
    using visible_newer [OF assms(5) su'(1)] assms(6,7) by (force simp: su_identity_def)
qed

section \<open>Histories evaluated\<close>

definition sample_suppression :: cache_suppression where
  "sample_suppression = \<lparr>su_provider = GROK, su_accountId = None, su_suppressedAt = ''2026-07-01T09:00:00.000Z''\<rparr>"

definition sample_state :: cache_state where
  "sample_state = \<lparr>cs_snapshots = [sample_row], cs_suppressions = [sample_suppression]\<rparr>"

definition sample_failure :: collection_report where
  "sample_failure = ReportFailed GROK None ''2026-07-01T10:05:00.000Z'' NetworkFail"

lemma nine_oclock: "dateParse ''2026-07-01T09:00:00.000Z'' = Some 1782896400000"
  by (simp add: date_eval cong: bind_weak_cong)

lemma wf_sample_state: "wf_state sample_state"
  by (simp add: wf_state_def sample_state_def sample_suppression_def MAX_CACHE_SUPPRESSIONS_def
      MAX_CACHE_ENTRIES_def nine_oclock)

lemma sample_row_fields:
  "sn_provider sample_row = GROK" "sn_accountId sample_row = None"
  "dateParse (sn_observedAt sample_row) = Some 1782900000000"
  by (simp_all add: sample_row_def sample_dates)

lemma sample_history: "apply_reports sample_state [sample_failure] = sample_state"
  by (simp add: apply_reports_def applyCollectionReport_def sample_failure_def sample_state_def sample_now
      retainSnapshots_def RETENTION_MILLISECONDS_def sample_row_fields sample_suppression_def nine_oclock Let_def)

lemma sample_visible: "sample_row \<in> set (visibleSnapshots sample_state)"
  by (simp add: set_visibleSnapshots sample_state_def isSnapshotDisplayEligible_def sample_row_fields
      suppressed_by_def sample_suppression_def suppressedMilliseconds_def nine_oclock)

theorem suppression_persists_witness:
  "\<exists>t. dateParse (sn_observedAt sample_row) = Some t \<and> suppressedMilliseconds sample_suppression < t"
proof (rule suppression_persists [OF wf_sample_state])
  show "sample_suppression \<in> set (cs_suppressions sample_state)" by (simp add: sample_state_def)
  show "sample_row \<in> set (visibleSnapshots (apply_reports sample_state [sample_failure]))"
    using sample_visible by (simp add: sample_history)
qed (simp_all add: sample_failure_def sample_state_def sample_suppression_def sample_row_fields
      report_identity_def su_identity_def MAX_CACHE_SUPPRESSIONS_def MAX_CACHE_ENTRIES_def)

theorem success_replaces_witness:
  "cs_suppressions (applyCollectionReport sample_state (ReportOk GROK None ''2026-07-01T10:05:00.000Z'' [] None)) = []"
proof -
  have "\<not> overtaken sample_state (ReportOk GROK None ''2026-07-01T10:05:00.000Z'' [] None)"
    by (simp add: overtaken_def sample_state_def sample_suppression_def sample_now nine_oclock)
  from success_replaces [OF wf_sample_state sample_now this] show ?thesis
    by (simp add: sample_state_def sample_suppression_def su_identity_def)
qed

theorem readSuppressions_whole_witness:
  "length [sample_suppression] = length [suppression_js sample_suppression]"
proof -
  have "wf_suppression sample_suppression"
    by (simp add: wf_suppression_def sample_suppression_def nine_oclock)
  then have "readSuppressions (Arr [suppression_js sample_suppression]) = Some [sample_suppression]"
    using readSuppressions_js [of "[sample_suppression]"] by (simp add: MAX_CACHE_SUPPRESSIONS_def MAX_CACHE_ENTRIES_def)
  from readSuppressions_whole [OF this] show ?thesis by blast
qed

section \<open>Where a suppressed row comes back\<close>

text \<open>A status line report is a success too: it clears the suppression, and because it is partial it
  keeps every held row, those from before the drift included.\<close>

definition stale_claude_row :: snapshot where
  "stale_claude_row = sample_row\<lparr>sn_provider := CLAUDE, sn_meter := ''FIVE_HOUR'',
     sn_provenance := Some \<lparr>prov_sourceKind = RemoteApi, prov_observedVia = prov_observedVia UNKNOWN_PROVENANCE\<rparr>\<rparr>"

definition claude_drift :: cache_suppression where
  "claude_drift = \<lparr>su_provider = CLAUDE, su_accountId = None, su_suppressedAt = ''2026-07-01T10:05:00.000Z''\<rparr>"

definition statusline_report :: collection_report where
  "statusline_report = ReportOk CLAUDE None ''2026-07-01T11:00:00.000Z''
     [sample_row\<lparr>sn_provider := CLAUDE, sn_meter := ''EXTRA_USAGE'',
        sn_observedAt := ''2026-07-01T11:00:00.000Z'', sn_expiresAt := ''2026-07-01T11:00:00.000Z'',
        sn_provenance := Some \<lparr>prov_sourceKind = StatuslinePayload, prov_observedVia = prov_observedVia UNKNOWN_PROVENANCE\<rparr>\<rparr>] None"

lemma eleven_oclock: "dateParse ''2026-07-01T11:00:00.000Z'' = Some 1782903600000"
  by (simp add: date_eval cong: bind_weak_cong)

lemma stale_claude_fields:
  "sn_provider stale_claude_row = CLAUDE" "sn_meter stale_claude_row = ''FIVE_HOUR''"
  "sn_accountId stale_claude_row = None" "sn_observedAt stale_claude_row = ''2026-07-01T10:00:00.000Z''"
  "source_kind_of stale_claude_row = Some RemoteApi"
  "snapshotIdentity stale_claude_row = ''CLAUDE FIVE_HOUR''"
  by (simp_all add: stale_claude_row_def sample_row_def source_kind_of_def snapshotIdentity_def)

lemma stale_claude_eligible: "isSnapshotDisplayEligible stale_claude_row"
proof -
  have "presentation_for stale_claude_row \<noteq> None" unfolding presentation_for_def stale_claude_fields by code_simp
  then show ?thesis by (simp add: isSnapshotDisplayEligible_def stale_claude_fields startsWith_def)
qed

lemma eleven_row:
  obtains r where "rp_snapshots statusline_report = [r]" "sn_provider r = CLAUDE" "sn_meter r = ''EXTRA_USAGE''"
    "sn_accountId r = None" "source_kind_of r = Some StatuslinePayload" "snapshotIdentity r = ''CLAUDE EXTRA_USAGE''"
  by (rule that [of "hd (rp_snapshots statusline_report)"])
     (simp_all add: statusline_report_def sample_row_def source_kind_of_def snapshotIdentity_def)

lemma statusline_applied:
  "cs_suppressions (applyCollectionReport \<lparr>cs_snapshots = [stale_claude_row], cs_suppressions = [claude_drift]\<rparr>
     statusline_report) = [] \<and>
   stale_claude_row \<in> set (cs_snapshots (applyCollectionReport
     \<lparr>cs_snapshots = [stale_claude_row], cs_suppressions = [claude_drift]\<rparr> statusline_report))"
proof -
  obtain r where r: "rp_snapshots statusline_report = [r]" "sn_provider r = CLAUDE" "sn_meter r = ''EXTRA_USAGE''"
    "sn_accountId r = None" "source_kind_of r = Some StatuslinePayload" "snapshotIdentity r = ''CLAUDE EXTRA_USAGE''"
    by (rule eleven_row)
  then have rep: "statusline_report = ReportOk CLAUDE None ''2026-07-01T11:00:00.000Z'' [r] None"
    by (simp add: statusline_report_def)
  have held: "retainSnapshots [stale_claude_row] (Some 1782903600000) = [stale_claude_row]"
    by (simp add: retainSnapshots_def RETENTION_MILLISECONDS_def stale_claude_fields sample_dates)
  have weekly: "\<not> isClaudePayloadWeekly r" "\<not> isClaudePayloadWeekly stale_claude_row"
    using r by (simp_all add: isClaudePayloadWeekly_def stale_claude_fields startsWith_def)
  then have "newer_rows [stale_claude_row] [r] = [r]"
    using r by (simp add: newer_rows_def stale_claude_fields)
  moreover have "partial_report [r]" using r by (simp add: partial_report_def)
  moreover have "mergeSnapshots [stale_claude_row] [r] MAX_CACHE_ENTRIES =
      sort_key snapshotIdentity [stale_claude_row, r]"
    using r weekly
    by (simp add: mergeSnapshots_def merged_rows_def byIdentity_def set_existing_def set_incoming_def
        stale_claude_fields map_values_def scopedClaudeCoversFallback_def MAX_CACHE_ENTRIES_def)
  ultimately show ?thesis
    unfolding rep
    by (simp add: applyCollectionReport_def Let_def eleven_oclock held claude_drift_def sample_now
        suppressionMatches_iff retained_rows_def del: sort_key_simps)
qed

text \<open>The claim that a row from before a drift can never become visible again does not hold: there is a document
  in which a suppression hides a row, and a successful report that brings that very row back.\<close>

theorem suppressed_row_resurfaces:
  "\<exists>state report s su. su \<in> set (cs_suppressions state) \<and> s \<in> set (cs_snapshots state) \<and>
     snapshotBelongsTo s (su_provider su) (su_accountId su) \<and>
     observedMilliseconds s \<le> suppressedMilliseconds su \<and>
     s \<notin> set (visibleSnapshots state) \<and> s \<in> set (visibleSnapshots (applyCollectionReport state report))"
proof (intro exI conjI)
  let ?state = "\<lparr>cs_snapshots = [stale_claude_row], cs_suppressions = [claude_drift]\<rparr>"
  show "claude_drift \<in> set (cs_suppressions ?state)" "stale_claude_row \<in> set (cs_snapshots ?state)" by simp_all
  show "snapshotBelongsTo stale_claude_row (su_provider claude_drift) (su_accountId claude_drift)"
    by (simp add: snapshotBelongsTo_iff claude_drift_def stale_claude_fields)
  then show "stale_claude_row \<notin> set (visibleSnapshots ?state)"
    by (simp add: set_visibleSnapshots suppressed_by_def stale_claude_fields sample_dates claude_drift_def
        suppressedMilliseconds_def sample_now)
  show "observedMilliseconds stale_claude_row \<le> suppressedMilliseconds claude_drift"
    by (simp add: observedMilliseconds_def stale_claude_fields sample_dates claude_drift_def
        suppressedMilliseconds_def sample_now)
  show "stale_claude_row \<in> set (visibleSnapshots (applyCollectionReport ?state statusline_report))"
    using statusline_applied stale_claude_eligible by (simp add: set_visibleSnapshots)
qed

end
