(* ===== verification/Advice.thy ===== *)
theory Advice
  imports Collection
begin

text \<open>
  packages/core/src/policy.ts, forecast.ts and failures.ts: what is told to an agent. Advice is
  drawn from fresh quota readings only, the worst meter of a provider speaks for it, and the
  recommendation is the first provider of lowest usage under eighty percent. The forecast is
  exact arithmetic on rationals where the source divides doubles.
\<close>

section \<open>Advice\<close>

datatype advice_reason = HEALTHY | NEAR_CAP | AT_CAP | UNKNOWN

datatype none_reason = NO_FRESH_DATA | NO_HEALTHY_PROVIDER | NO_KNOWN_PROVIDER

datatype prefer_reason = LOWEST_USAGE | ORDERED_TIE_BREAK

datatype advice_recommendation =
    RecommendNone none_reason
  | Prefer (preferred: provider_code) (prefer_why: prefer_reason)

record advice_provider =
  ap_provider :: provider_code
  ap_meter :: string
  ap_state :: snapshot_state
  ap_usagePercent :: rat
  ap_resetAt :: "string option"

record advice =
  ad_inject :: bool
  ad_reason :: advice_reason
  ad_recommendation :: advice_recommendation
  ad_providers :: "advice_provider list"
  ad_unknownProviders :: "provider_code list"

definition reasonFor :: "rat \<Rightarrow> advice_reason" where
  "reasonFor percent = (if percent \<ge> 100 then AT_CAP else if percent \<ge> 80 then NEAR_CAP else HEALTHY)"

fun priority :: "advice_reason \<Rightarrow> nat" where
  "priority UNKNOWN = 0"
| "priority HEALTHY = 1"
| "priority NEAR_CAP = 2"
| "priority AT_CAP = 3"

definition lower_usage :: "advice_provider \<Rightarrow> advice_provider \<Rightarrow> advice_provider" where
  "lower_usage best candidate =
     (if ap_usagePercent candidate < ap_usagePercent best then candidate else best)"

definition recommendationFor :: "advice_provider list \<Rightarrow> advice_recommendation" where
  "recommendationFor known =
     (let fresh = filter (\<lambda>p. ap_state p = FreshState) known in
      if fresh = [] then RecommendNone NO_FRESH_DATA
      else
        let usable = filter (\<lambda>p. ap_usagePercent p < 80) fresh in
        if usable = [] then RecommendNone NO_HEALTHY_PROVIDER
        else
          let best = foldl lower_usage (hd usable) (tl usable);
              tied = length (filter (\<lambda>c. ap_usagePercent c = ap_usagePercent best) usable) > 1
          in Prefer (ap_provider best) (if tied then ORDERED_TIE_BREAK else LOWEST_USAGE))"

definition isAdviceQuota :: "snapshot \<Rightarrow> bool" where
  "isAdviceQuota s \<longleftrightarrow> isSnapshotDisplayEligible s \<and> sn_unit s = PERCENT \<and>
     map_option mp_valueSemantics (presentation_for s) \<noteq> Some BalanceValue \<and>
     sn_availability s = None \<and>
     (sn_kind s = None \<or> sn_kind s = Some QuotaPercent) \<and>
     sn_meter s \<noteq> ''ACQUISITION'' \<and>
     win_kind (sn_window s) \<noteq> UnknownWindow"

text \<open>The rows that speak for a provider: quota readings whose window has not been reset, fresh now,
  the highest value first (the sort is stable).\<close>

definition advice_candidates :: "snapshot list \<Rightarrow> string \<Rightarrow> provider_code \<Rightarrow> snapshot list" where
  "advice_candidates snapshots now provider =
     sort_key (\<lambda>s. - sn_value s)
       (filter (\<lambda>s. freshness (sn_observedAt s) (sn_expiresAt s) now = FreshState)
         (filter (\<lambda>s. sn_provider s = provider \<and> isAdviceQuota s \<and> \<not> resetPassed s now) snapshots))"

definition advice_entry :: "snapshot list \<Rightarrow> string \<Rightarrow> provider_code \<Rightarrow> advice_provider option" where
  "advice_entry snapshots now provider =
     (case advice_candidates snapshots now provider of
        [] \<Rightarrow> None
      | worst # _ \<Rightarrow> Some
          \<lparr>ap_provider = provider, ap_meter = sn_meter worst,
           ap_state = freshness (sn_observedAt worst) (sn_expiresAt worst) now,
           ap_usagePercent = sn_value worst, ap_resetAt = sn_resetAt worst\<rparr>)"

definition worse_reason :: "advice_reason \<Rightarrow> advice_reason \<Rightarrow> advice_reason" where
  "worse_reason worst current = (if priority current > priority worst then current else worst)"

definition buildAdvice :: "snapshot list \<Rightarrow> string \<Rightarrow> provider_code list \<Rightarrow> advice" where
  "buildAdvice snapshots now expectedProviders =
     (let known = List.map_filter (advice_entry snapshots now) expectedProviders in
      if known = [] then
        \<lparr>ad_inject = False, ad_reason = UNKNOWN, ad_recommendation = RecommendNone NO_KNOWN_PROVIDER,
         ad_providers = [], ad_unknownProviders = expectedProviders\<rparr>
      else
        \<lparr>ad_inject = True,
         ad_reason = foldl worse_reason HEALTHY (map (\<lambda>e. reasonFor (ap_usagePercent e)) known),
         ad_recommendation = recommendationFor known, ad_providers = known,
         ad_unknownProviders =
           filter (\<lambda>p. \<not> list_ex (\<lambda>e. ap_provider e = p) known) expectedProviders\<rparr>)"

section \<open>Forecast\<close>

record forecast_result =
  fo_burnRatePerHour :: rat
  fo_hoursToExhaustion :: rat

definition elapsed_hours :: "snapshot \<Rightarrow> snapshot \<Rightarrow> rat option" where
  "elapsed_hours previous current =
     (case (dateParse (sn_observedAt previous), dateParse (sn_observedAt current)) of
        (Some p, Some c) \<Rightarrow> Some (of_int (c - p) / 3600000)
      | _ \<Rightarrow> None)"

definition forecast :: "snapshot \<Rightarrow> snapshot \<Rightarrow> forecast_result option" where
  "forecast previous current =
     (if sn_provider previous \<noteq> sn_provider current \<or> sn_meter previous \<noteq> sn_meter current \<or>
         sn_unit previous \<noteq> PERCENT \<or> sn_unit current \<noteq> PERCENT \<or>
         sn_value previous < 0 \<or> 100 < sn_value previous \<or>
         sn_value current < 0 \<or> 100 < sn_value current then None
      else
        case elapsed_hours previous current of
          None \<Rightarrow> None
        | Some elapsedHours \<Rightarrow>
            if elapsedHours \<le> 0 then None
            else
              let burn = (sn_value current - sn_value previous) / elapsedHours in
              if burn \<le> 0 then None
              else
                let remaining = max 0 (100 - sn_value current) in
                Some \<lparr>fo_burnRatePerHour = burn,
                      fo_hoursToExhaustion = (if remaining = 0 then 0 else remaining / burn)\<rparr>)"

section \<open>Failures\<close>

datatype failure_category =
    FC_NOT_CONFIGURED | FC_SESSION_EXPIRED | FC_PAYLOAD_UNREADABLE | FC_VALIDATION_REJECTED | FC_PROVIDER_DRIFT

definition FAILURE_CATEGORIES :: "failure_category list" where
  "FAILURE_CATEGORIES =
     [FC_NOT_CONFIGURED, FC_SESSION_EXPIRED, FC_PAYLOAD_UNREADABLE, FC_VALIDATION_REJECTED, FC_PROVIDER_DRIFT]"

fun failureSentence :: "failure_category \<Rightarrow> string" where
  "failureSentence FC_NOT_CONFIGURED = ''Not set up yet, so nothing was read.''"
| "failureSentence FC_SESSION_EXPIRED = ''Session expired.''"
| "failureSentence FC_PAYLOAD_UNREADABLE = ''Payload could not be read, so nothing is claimed.''"
| "failureSentence FC_VALIDATION_REJECTED = ''Payload failed validation, kept the last good reading.''"
| "failureSentence FC_PROVIDER_DRIFT = ''Provider response changed, so usage is unknown.''"

record provider_failure =
  pf_provider :: provider_code
  pf_category :: failure_category

definition failureFromConnectorReason :: "string \<Rightarrow> failure_category" where
  "failureFromConnectorReason reason =
     (if reason = ''not_configured'' then FC_NOT_CONFIGURED
      else if reason = ''unavailable'' then FC_SESSION_EXPIRED
      else FC_PAYLOAD_UNREADABLE)"

fun severity :: "failure_category \<Rightarrow> nat" where
  "severity FC_NOT_CONFIGURED = 0"
| "severity FC_PAYLOAD_UNREADABLE = 1"
| "severity FC_SESSION_EXPIRED = 2"
| "severity FC_VALIDATION_REJECTED = 3"
| "severity FC_PROVIDER_DRIFT = 4"

definition hold_failure ::
  "(provider_code \<times> provider_failure) list \<Rightarrow> provider_failure \<Rightarrow> (provider_code \<times> provider_failure) list" where
  "hold_failure m failure =
     (case map_of m (pf_provider failure) of
        None \<Rightarrow> AList.update (pf_provider failure) failure m
      | Some held \<Rightarrow>
          if severity (pf_category failure) > severity (pf_category held)
          then AList.update (pf_provider failure) failure m else m)"

definition dedupeFailures :: "provider_failure list \<Rightarrow> provider_failure list" where
  "dedupeFailures failures = map_values (foldl hold_failure [] failures)"

section \<open>Only fresh quota readings speak\<close>

definition speaks :: "snapshot list \<Rightarrow> string \<Rightarrow> provider_code \<Rightarrow> snapshot \<Rightarrow> bool" where
  "speaks snapshots now p s \<longleftrightarrow> s \<in> set snapshots \<and> sn_provider s = p \<and> isAdviceQuota s \<and>
     \<not> resetPassed s now \<and> freshness (sn_observedAt s) (sn_expiresAt s) now = FreshState"

lemma set_advice_candidates: "s \<in> set (advice_candidates snapshots now p) \<longleftrightarrow> speaks snapshots now p s"
  by (auto simp: advice_candidates_def speaks_def)

lemma sorted_candidates: "sorted (map (\<lambda>s. - sn_value s) (advice_candidates snapshots now p))"
  by (simp add: advice_candidates_def)

lemma advice_entry_None: "advice_entry snapshots now p = None \<longleftrightarrow> (\<nexists>s. speaks snapshots now p s)"
proof -
  have "advice_entry snapshots now p = None \<longleftrightarrow> advice_candidates snapshots now p = []"
    by (simp add: advice_entry_def split: list.split)
  then show ?thesis using set_advice_candidates [of _ snapshots now p] by (metis empty_iff list.set(1) list.set_intros(1) neq_Nil_conv)
qed

lemma advice_entry_Some:
  assumes "advice_entry snapshots now p = Some e"
  shows "ap_provider e = p \<and> ap_state e = FreshState \<and>
    (\<exists>s. speaks snapshots now p s \<and> ap_meter e = sn_meter s \<and> ap_usagePercent e = sn_value s \<and>
      ap_resetAt e = sn_resetAt s) \<and>
    (\<forall>s. speaks snapshots now p s \<longrightarrow> sn_value s \<le> ap_usagePercent e)"
proof -
  from assms obtain w ws where w: "advice_candidates snapshots now p = w # ws"
      "e = \<lparr>ap_provider = p, ap_meter = sn_meter w,
           ap_state = freshness (sn_observedAt w) (sn_expiresAt w) now,
           ap_usagePercent = sn_value w, ap_resetAt = sn_resetAt w\<rparr>"
    by (auto simp: advice_entry_def split: list.splits)
  then have "speaks snapshots now p w" using set_advice_candidates [of w snapshots now p] by simp
  moreover have "sn_value s \<le> sn_value w" if "speaks snapshots now p s" for s
    using that sorted_candidates [of snapshots now p] set_advice_candidates [of s snapshots now p] w(1) by auto
  ultimately show ?thesis using w(2) by (auto simp: speaks_def)
qed

definition known_entries :: "snapshot list \<Rightarrow> string \<Rightarrow> provider_code list \<Rightarrow> advice_provider list" where
  "known_entries snapshots now expected = List.map_filter (advice_entry snapshots now) expected"

lemma ad_providers: "ad_providers (buildAdvice snapshots now expected) = known_entries snapshots now expected"
  by (auto simp: buildAdvice_def Let_def known_entries_def)

lemma known_names:
  "map ap_provider (known_entries snapshots now expected) =
     filter (\<lambda>p. \<exists>s. speaks snapshots now p s) expected"
proof (induction expected)
  case (Cons p ps)
  then show ?case
    using advice_entry_None [of snapshots now p] advice_entry_Some [of snapshots now p]
    by (cases "advice_entry snapshots now p") (auto simp: known_entries_def List.map_filter_simps)
qed (simp add: known_entries_def List.map_filter_simps)

text \<open>Advice is drawn from fresh quota readings only: the known providers are, in the expected
  order, exactly those with such a reading, the others are unknown, and each known provider is
  represented by its own reading of highest usage.\<close>

theorem advice_from_fresh_readings:
  "map ap_provider (ad_providers (buildAdvice snapshots now expected)) =
     filter (\<lambda>p. \<exists>s. speaks snapshots now p s) expected \<and>
   ad_unknownProviders (buildAdvice snapshots now expected) =
     filter (\<lambda>p. \<nexists>s. speaks snapshots now p s) expected \<and>
   set (ad_providers (buildAdvice snapshots now expected)) \<subseteq>
     {e. ap_state e = FreshState \<and>
         (\<exists>s. speaks snapshots now (ap_provider e) s \<and> ap_meter e = sn_meter s \<and>
            ap_usagePercent e = sn_value s \<and> ap_resetAt e = sn_resetAt s) \<and>
         ap_usagePercent e = Max {sn_value s | s. speaks snapshots now (ap_provider e) s}}"
proof -
  let ?known = "known_entries snapshots now expected"
  have ex: "list_ex (\<lambda>e. ap_provider e = p) ?known \<longleftrightarrow> (\<exists>s. speaks snapshots now p s)" if "p \<in> set expected" for p
  proof -
    have "list_ex (\<lambda>e. ap_provider e = p) ?known \<longleftrightarrow> p \<in> set (map ap_provider ?known)"
      by (auto simp: list_ex_iff)
    then show ?thesis using that known_names [of snapshots now expected] by auto
  qed
  have unknown: "ad_unknownProviders (buildAdvice snapshots now expected) =
      filter (\<lambda>p. \<nexists>s. speaks snapshots now p s) expected"
  proof (cases "?known = []")
    case True
    then have "filter (\<lambda>p. \<exists>s. speaks snapshots now p s) expected = []"
      using known_names [of snapshots now expected] by simp
    then have "filter (\<lambda>p. \<nexists>s. speaks snapshots now p s) expected = expected"
      by (intro filter_True) (simp add: filter_empty_conv)
    with True show ?thesis by (simp add: buildAdvice_def Let_def known_entries_def)
  next
    case False
    then show ?thesis using ex by (auto simp: buildAdvice_def Let_def known_entries_def intro: filter_cong)
  qed
  have entry: "ap_state e = FreshState \<and>
         (\<exists>s. speaks snapshots now (ap_provider e) s \<and> ap_meter e = sn_meter s \<and>
            ap_usagePercent e = sn_value s \<and> ap_resetAt e = sn_resetAt s) \<and>
         ap_usagePercent e = Max {sn_value s | s. speaks snapshots now (ap_provider e) s}"
    if "e \<in> set ?known" for e
  proof -
    from that obtain p where "advice_entry snapshots now p = Some e"
      by (auto simp: known_entries_def set_map_filter)
    note e = advice_entry_Some [OF this]
    let ?V = "{sn_value s | s. speaks snapshots now (ap_provider e) s}"
    have "?V \<subseteq> sn_value ` set snapshots" by (auto simp: speaks_def)
    then have "finite ?V" by (rule finite_subset) simp
    then have "Max ?V = ap_usagePercent e"
      by (rule Max_eqI) (use e in auto)
    with e show ?thesis by auto
  qed
  show ?thesis unfolding ad_providers using known_names unknown entry by blast
qed

section \<open>The recommendation\<close>

lemma foldl_lower_usage:
  "foldl lower_usage b xs \<in> insert b (set xs) \<and>
   (\<forall>x \<in> insert b (set xs). ap_usagePercent (foldl lower_usage b xs) \<le> ap_usagePercent x)"
proof (induction xs arbitrary: b)
  case (Cons x xs)
  then show ?case using Cons.IH [of "lower_usage b x"] by (auto simp: lower_usage_def split: if_splits) fastforce+
qed simp

text \<open>A recommendation names a known provider with a fresh usage under eighty percent that no
  known provider undercuts, and says whether it broke a tie; there is none exactly when no known
  provider is under eighty percent.\<close>

theorem recommendation_correct:
  "case ad_recommendation (buildAdvice snapshots now expected) of
      RecommendNone why \<Rightarrow>
        (why = NO_KNOWN_PROVIDER \<longleftrightarrow> ad_providers (buildAdvice snapshots now expected) = []) \<and>
        (\<forall>e \<in> set (ad_providers (buildAdvice snapshots now expected)). 80 \<le> ap_usagePercent e)
    | Prefer p why \<Rightarrow>
        (\<exists>e \<in> set (ad_providers (buildAdvice snapshots now expected)).
          ap_provider e = p \<and> ap_usagePercent e < 80 \<and>
          (\<forall>e' \<in> set (ad_providers (buildAdvice snapshots now expected)). ap_usagePercent e \<le> ap_usagePercent e') \<and>
          (why = LOWEST_USAGE \<longleftrightarrow>
            length (filter (\<lambda>e'. ap_usagePercent e' = ap_usagePercent e)
              (ad_providers (buildAdvice snapshots now expected))) = 1))"
proof -
  let ?known = "ad_providers (buildAdvice snapshots now expected)"
  let ?usable = "filter (\<lambda>p. ap_usagePercent p < 80) ?known"
  let ?best = "foldl lower_usage (hd ?usable) (tl ?usable)"
  have fresh: "filter (\<lambda>p. ap_state p = FreshState) ?known = ?known"
    using advice_entry_Some by (fastforce simp: ad_providers known_entries_def set_map_filter intro: filter_True)
  have rec: "ad_recommendation (buildAdvice snapshots now expected) =
      (if ?known = [] then RecommendNone NO_KNOWN_PROVIDER else recommendationFor ?known)"
    by (simp add: buildAdvice_def Let_def)
  show ?thesis
  proof (cases "?usable = []")
    case True
    with fresh show ?thesis unfolding rec
      by (auto simp: recommendationFor_def Let_def filter_empty_conv not_less)
  next
    case False
    then have known: "?known \<noteq> []" by auto
    have us: "insert (hd ?usable) (set (tl ?usable)) = set ?usable" using False by (cases ?usable) simp_all
    have best: "?best \<in> set ?usable" "\<forall>x \<in> set ?usable. ap_usagePercent ?best \<le> ap_usagePercent x"
      using foldl_lower_usage [of "hd ?usable" "tl ?usable"] unfolding us by blast+
    then have low: "ap_usagePercent ?best < 80" "?best \<in> set ?known" by auto
    have all: "ap_usagePercent ?best \<le> ap_usagePercent x" if "x \<in> set ?known" for x
      using that best(2) low by (cases "ap_usagePercent x < 80") auto
    define n where "n = length (filter (\<lambda>c. ap_usagePercent c = ap_usagePercent ?best) ?known)"
    have "filter (\<lambda>c. ap_usagePercent c = ap_usagePercent ?best) ?usable =
        filter (\<lambda>c. ap_usagePercent c = ap_usagePercent ?best) ?known"
      using low(1) by (auto simp: filter_filter intro: filter_cong)
    then have "recommendationFor ?known = Prefer (ap_provider ?best) (if n > 1 then ORDERED_TIE_BREAK else LOWEST_USAGE)"
      unfolding recommendationFor_def Let_def fresh n_def using False known by simp
    moreover have "n \<noteq> 0" using low(2) by (auto simp: n_def filter_empty_conv)
    then have "(n > 1) = (n \<noteq> 1)" by linarith
    ultimately have "ad_recommendation (buildAdvice snapshots now expected) =
        Prefer (ap_provider ?best) (if n = 1 then LOWEST_USAGE else ORDERED_TIE_BREAK)"
      using known unfolding rec by simp
    with low all show ?thesis unfolding n_def by (auto intro!: bexI [of _ ?best])
  qed
qed

theorem recommendation_correct_witness:
  "ad_recommendation (buildAdvice [] ''2026-07-01T10:05:00.000Z'' [GROK]) = RecommendNone NO_KNOWN_PROVIDER"
proof -
  have "advice_entry [] ''2026-07-01T10:05:00.000Z'' GROK = None"
    by (simp add: advice_entry_def advice_candidates_def)
  then have "ad_providers (buildAdvice [] ''2026-07-01T10:05:00.000Z'' [GROK]) = []"
    by (simp add: ad_providers known_entries_def List.map_filter_simps)
  then show ?thesis
    using recommendation_correct [of "[]" "''2026-07-01T10:05:00.000Z''" "[GROK]"]
    by (auto split: advice_recommendation.splits)
qed

lemma foldl_worse_reason:
  "foldl worse_reason r rs =
     (if AT_CAP \<in> insert r (set rs) then AT_CAP else if NEAR_CAP \<in> insert r (set rs) then NEAR_CAP
      else if HEALTHY \<in> insert r (set rs) then HEALTHY else UNKNOWN)"
proof (induction rs arbitrary: r)
  case Nil
  then show ?case by (cases r) simp_all
next
  case (Cons x rs)
  then show ?case by (cases r; cases x) (simp_all add: worse_reason_def)
qed

text \<open>The level of an advice is the worst level of its known providers: at the cap when one of
  them is at a hundred percent or more, near it when one is at eighty or more, healthy otherwise;
  unknown, and not injected, exactly when no provider is known.\<close>

theorem advice_level:
  "ad_inject (buildAdvice snapshots now expected) = (ad_providers (buildAdvice snapshots now expected) \<noteq> []) \<and>
   ad_reason (buildAdvice snapshots now expected) =
     (if ad_providers (buildAdvice snapshots now expected) = [] then UNKNOWN
      else if \<exists>e \<in> set (ad_providers (buildAdvice snapshots now expected)). 100 \<le> ap_usagePercent e then AT_CAP
      else if \<exists>e \<in> set (ad_providers (buildAdvice snapshots now expected)). 80 \<le> ap_usagePercent e then NEAR_CAP
      else HEALTHY)"
proof -
  have "reasonFor u = AT_CAP \<longleftrightarrow> 100 \<le> u" "reasonFor u = NEAR_CAP \<longleftrightarrow> 80 \<le> u \<and> \<not> 100 \<le> u" for u
    by (auto simp: reasonFor_def)
  then have "AT_CAP \<in> reasonFor ` U \<longleftrightarrow> (\<exists>u \<in> U. 100 \<le> u)"
    "\<not> (\<exists>u \<in> U. 100 \<le> u) \<Longrightarrow> NEAR_CAP \<in> reasonFor ` U \<longleftrightarrow> (\<exists>u \<in> U. 80 \<le> u)" for U
    by (metis image_iff)+
  note lev = this
  let ?known = "ad_providers (buildAdvice snapshots now expected)"
  have "ad_reason (buildAdvice snapshots now expected) =
      (if ?known = [] then UNKNOWN else foldl worse_reason HEALTHY (map (\<lambda>e. reasonFor (ap_usagePercent e)) ?known))"
    by (simp add: buildAdvice_def Let_def)
  moreover have "set (map (\<lambda>e. reasonFor (ap_usagePercent e)) ?known) = reasonFor ` (ap_usagePercent ` set ?known)"
    by auto
  moreover have "ad_inject (buildAdvice snapshots now expected) = (?known \<noteq> [])"
    by (simp add: buildAdvice_def Let_def)
  ultimately show ?thesis unfolding foldl_worse_reason using lev [of "ap_usagePercent ` set ?known"] by auto
qed

section \<open>The forecast is exact\<close>

text \<open>A forecast exists only for two readings of one percent meter with the later one higher; its
  rate is positive and reproduces the later reading from the earlier one, and burning at that rate
  for the hours it gives ends at exactly one hundred percent.\<close>

theorem forecast_exact:
  assumes "forecast previous current = Some f"
  shows "\<exists>h. elapsed_hours previous current = Some h \<and> 0 < h \<and> 0 < fo_burnRatePerHour f \<and>
    sn_value previous + fo_burnRatePerHour f * h = sn_value current \<and>
    0 \<le> fo_hoursToExhaustion f \<and>
    sn_value current + fo_burnRatePerHour f * fo_hoursToExhaustion f = 100"
proof -
  from assms obtain h where h: "elapsed_hours previous current = Some h" "0 < h"
      "\<not> (sn_value current - sn_value previous) / h \<le> 0" "sn_value current \<le> 100"
      "f = \<lparr>fo_burnRatePerHour = (sn_value current - sn_value previous) / h,
            fo_hoursToExhaustion = (if max 0 (100 - sn_value current) = 0 then 0
              else max 0 (100 - sn_value current) / ((sn_value current - sn_value previous) / h))\<rparr>"
    by (auto simp: forecast_def Let_def not_le split: if_splits option.splits)
  then have "max 0 (100 - sn_value current) = 100 - sn_value current" by simp
  with h show ?thesis by (auto simp: field_simps)
qed

definition later_row :: snapshot where
  "later_row = sample_row\<lparr>sn_value := 60, sn_observedAt := ''2026-07-01T11:00:00.000Z''\<rparr>"

lemma sample_elapsed: "elapsed_hours sample_row later_row = Some 1"
  by (simp add: elapsed_hours_def sample_row_def later_row_def sample_dates eleven_oclock)

lemma sample_forecast:
  "forecast sample_row later_row = Some \<lparr>fo_burnRatePerHour = 10, fo_hoursToExhaustion = 4\<rparr>"
  using sample_elapsed by (simp add: forecast_def sample_row_def later_row_def)

theorem forecast_exact_witness: "sn_value later_row + (10::rat) * 4 = 100"
  using forecast_exact [OF sample_forecast] by auto

section \<open>Failures\<close>

lemma hold_failure_lookup:
  "map_of (hold_failure m f) p =
     (if pf_provider f = p then
        (case map_of m p of
           None \<Rightarrow> Some f
         | Some held \<Rightarrow> Some (if severity (pf_category f) > severity (pf_category held) then f else held))
      else map_of m p)"
  by (auto simp: hold_failure_def update_conv' split: option.splits)

lemma keyed_hold: "keyed_by pf_provider m \<Longrightarrow> keyed_by pf_provider (foldl hold_failure m fs)"
  by (induction fs arbitrary: m) (simp_all add: hold_failure_def keyed_by_update split: option.split)

lemma held_worst:
  assumes "map_of (foldl hold_failure m fs) p = Some f"
  shows "(f \<in> set fs \<or> map_of m p = Some f) \<and>
    (\<forall>g. g \<in> set fs \<and> pf_provider g = p \<or> map_of m p = Some g \<longrightarrow>
       severity (pf_category g) \<le> severity (pf_category f))"
  using assms
proof (induction fs arbitrary: m)
  case (Cons x fs)
  then have IH: "(f \<in> set fs \<or> map_of (hold_failure m x) p = Some f) \<and>
    (\<forall>g. g \<in> set fs \<and> pf_provider g = p \<or> map_of (hold_failure m x) p = Some g \<longrightarrow>
       severity (pf_category g) \<le> severity (pf_category f))" by simp
  then show ?case
    by (auto simp: hold_failure_lookup split: if_splits option.splits)
qed simp

lemma held_domain:
  "map_of (foldl hold_failure m fs) p \<noteq> None \<longleftrightarrow> map_of m p \<noteq> None \<or> p \<in> pf_provider ` set fs"
  by (induction fs arbitrary: m) (auto simp: hold_failure_lookup split: option.splits if_splits)

text \<open>Deduplication leaves each failing provider exactly one failure, one that was reported and
  that none of its others exceeds in severity.\<close>

theorem dedupeFailures_worst:
  "distinct (map pf_provider (dedupeFailures fs)) \<and>
   pf_provider ` set (dedupeFailures fs) = pf_provider ` set fs \<and>
   set (dedupeFailures fs) \<subseteq>
     {f \<in> set fs. severity (pf_category f) = Max {severity (pf_category g) | g. g \<in> set fs \<and> pf_provider g = pf_provider f}}"
proof -
  let ?m = "foldl hold_failure [] fs"
  have k: "keyed_by pf_provider ?m" by (rule keyed_hold) simp
  have mem: "f \<in> set (dedupeFailures fs) \<longleftrightarrow> map_of ?m (pf_provider f) = Some f" for f
    using keyed_by_values [OF k] by (simp add: dedupeFailures_def)
  have "distinct (map pf_provider (dedupeFailures fs))"
    using keyed_by_distinct [OF k] by (simp add: dedupeFailures_def)
  moreover have "pf_provider ` set (dedupeFailures fs) = pf_provider ` set fs"
  proof
    show "pf_provider ` set (dedupeFailures fs) \<subseteq> pf_provider ` set fs"
      using held_worst [of "[]" fs] by (auto simp: mem)
    show "pf_provider ` set fs \<subseteq> pf_provider ` set (dedupeFailures fs)"
    proof
      fix p assume "p \<in> pf_provider ` set fs"
      then obtain f where f: "map_of ?m p = Some f" using held_domain [of "[]" fs p] by auto
      then have "pf_provider f = p" using keyed_by_lookup [OF k] by blast
      with f show "p \<in> pf_provider ` set (dedupeFailures fs)" using mem by force
    qed
  qed
  moreover have "f \<in> set fs \<and> severity (pf_category f) =
      Max {severity (pf_category g) | g. g \<in> set fs \<and> pf_provider g = pf_provider f}"
    if "f \<in> set (dedupeFailures fs)" for f
  proof -
    from that have w: "map_of ?m (pf_provider f) = Some f" by (simp add: mem)
    let ?S = "{severity (pf_category g) | g. g \<in> set fs \<and> pf_provider g = pf_provider f}"
    have "?S \<subseteq> (\<lambda>g. severity (pf_category g)) ` set fs" by auto
    then have "finite ?S" by (rule finite_subset) simp
    then have "Max ?S = severity (pf_category f)"
      by (rule Max_eqI) (use held_worst [OF w] in auto)
    with held_worst [OF w] show ?thesis by simp
  qed
  ultimately show ?thesis by blast
qed

end
