(* ===== verification/Files.thy ===== *)
theory Files
  imports Normalizer
begin

text \<open>
  The state directory as the core package sees it (cache.ts): a safe read of one JSON document
  and its replacement. What the operating system answers to \<open>open\<close>, \<open>fstat\<close>, \<open>lstat\<close> and
  \<open>read\<close> is the argument of \<open>readJsonFileSafely\<close>; above that line a file is known only by the
  result of reading it, and writing it atomically stores the canonical text of a value. The two
  locales state what every document kept there relies on.
\<close>

section \<open>Reading one document\<close>

definition MAX_JSON_FILE_BYTES :: nat where
  "MAX_JSON_FILE_BYTES = 1048576"

text \<open>\<open>JsonFileResult\<close>.\<close>

datatype read_failure = MissingFile | CorruptFile | UnsafeFile

datatype json_file = FileOk js | FileError read_failure

text \<open>What the calls on the open handle answer: \<open>fstat\<close>, \<open>lstat\<close> of the path (\<open>None\<close> when it
  fails; otherwise whether the path is a symbolic link and whether device and inode are those of
  the handle), and the value \<open>JSON.parse\<close> reads from the bytes.\<close>

record opened_file =
  of_isFile :: bool
  of_size :: nat
  of_linked :: "(bool \<times> bool) option"
  of_parsed :: "js option option"

text \<open>The outer option of \<open>of_parsed\<close> is the read of the bytes, the inner one the parse.\<close>

datatype open_result = OpenFails "string option" | OpenOk opened_file

definition readJsonFileSafely :: "open_result \<Rightarrow> nat \<Rightarrow> json_file" where
  "readJsonFileSafely opened maximumBytes =
     (case opened of
        OpenFails errno \<Rightarrow>
          if errno = Some ''ENOENT'' \<or> errno = Some ''ENOTDIR'' then FileError MissingFile
          else FileError UnsafeFile
      | OpenOk h \<Rightarrow>
          if \<not> of_isFile h then FileError UnsafeFile
          else if maximumBytes < of_size h then FileError CorruptFile
          else (case of_linked h of
                  None \<Rightarrow> FileError UnsafeFile
                | Some (symlink, same) \<Rightarrow>
                    if symlink \<or> \<not> same then FileError UnsafeFile
                    else (case of_parsed h of
                            None \<Rightarrow> FileError UnsafeFile
                          | Some None \<Rightarrow> FileError CorruptFile
                          | Some (Some v) \<Rightarrow> FileOk v)))"

lemma readJsonFileSafely_ok:
  "readJsonFileSafely opened maximumBytes = FileOk v \<longleftrightarrow>
     (\<exists>h. opened = OpenOk h \<and> of_isFile h \<and> of_size h \<le> maximumBytes \<and>
        of_linked h = Some (False, True) \<and> of_parsed h = Some (Some v))"
  by (auto simp: readJsonFileSafely_def split: open_result.splits option.splits if_splits)

section \<open>The state directory\<close>

text \<open>The documents of the directory by file name. A write goes through a temporary file and one
  rename, so a reader sees the old document or the new one.\<close>

type_synonym directory = "string \<Rightarrow> json_file"

definition writeFileAtomically :: "string \<Rightarrow> js \<Rightarrow> directory \<Rightarrow> directory" where
  "writeFileAtomically file v dir = dir(file := FileOk (canonicalJson v))"

locale document_store =
  fixes load :: "'s \<Rightarrow> string \<Rightarrow> json_file"
    and save :: "string \<Rightarrow> js \<Rightarrow> 's \<Rightarrow> 's"
  assumes load_save: "load (save f v s) f = FileOk (canonicalJson v)"
    and load_save_other: "g \<noteq> f \<Longrightarrow> load (save f v s) g = load s g"
begin

lemma load_save_if: "load (save f v s) g = (if g = f then FileOk (canonicalJson v) else load s g)"
  by (simp add: load_save load_save_other)

lemma last_save_counts: "load (save f v (save f w s)) g = load (save f v s) g"
  by (simp add: load_save_if)

lemma saves_commute: "f \<noteq> g \<Longrightarrow> load (save f v (save g w s)) h = load (save g w (save f v s)) h"
  by (simp add: load_save_if)

end

text \<open>A document with a reader and a writer: reading the canonical text of a well-formed
  document gives it back.\<close>

locale stored_document = document_store load save
  for load :: "'s \<Rightarrow> string \<Rightarrow> json_file" and save :: "string \<Rightarrow> js \<Rightarrow> 's \<Rightarrow> 's" +
  fixes doc :: string and wf :: "'d \<Rightarrow> bool" and encode :: "'d \<Rightarrow> js" and read :: "json_file \<Rightarrow> 'e"
    and view :: "'d \<Rightarrow> 'e"
  assumes read_encode: "wf d \<Longrightarrow> read (FileOk (canonicalJson (encode d))) = view d"
begin

lemma read_saved: "wf d \<Longrightarrow> read (load (save doc (encode d) s) doc) = view d"
  by (simp add: load_save read_encode)

lemma read_keeps: "g \<noteq> doc \<Longrightarrow> read (load (save g v s) doc) = read (load s doc)"
  by (simp add: load_save_other)

lemma read_last: "wf d \<Longrightarrow> g \<noteq> doc \<Longrightarrow> read (load (save g v (save doc (encode d) s)) doc) = view d"
  by (simp add: read_keeps read_saved)

end

interpretation state_directory: document_store "\<lambda>dir. dir" writeFileAtomically
  by unfold_locales (simp_all add: writeFileAtomically_def)

lemmas load_simps [simp] = state_directory.load_save state_directory.load_save_other

end
