(* ===== verification/Schedule.thy ===== *)
theory Schedule
  imports Files DataRules
begin

text \<open>
  When a provider may next be asked: the refresh delay with its backoff, jitter and Retry-After
  floor (schedule.ts), the acquisition cadence and its schedule file (acquire/cadence.ts), and
  the retry, lease and freshness policies cache.ts shares with the desktop. The clock and the
  random source are arguments. A delay is the exact rational the double denotes, rounded where
  the source rounds it to milliseconds.
\<close>

section \<open>The refresh delay (schedule.ts)\<close>

definition REFRESH_BACKOFF_CEILING_SECONDS :: rat where
  "REFRESH_BACKOFF_CEILING_SECONDS = 3600"

definition REFRESH_RETRY_AFTER_CEILING_SECONDS :: rat where
  "REFRESH_RETRY_AFTER_CEILING_SECONDS = 86400"

definition REFRESH_JITTER_RATIO :: rat where
  "REFRESH_JITTER_RATIO = 1 / 5"

definition SCHEDULE_EXEMPT_BASE_SECONDS :: rat where
  "SCHEDULE_EXEMPT_BASE_SECONDS = 0"

definition REFRESH_FALLBACK_BASE_SECONDS :: rat where
  "REFRESH_FALLBACK_BASE_SECONDS = 300"

definition SCHEDULE_EXEMPT_INSTANT :: string where
  "SCHEDULE_EXEMPT_INSTANT = ''9999-12-31T23:59:59.999Z''"

text \<open>\<open>ri_random\<close> is what the injected source answers, \<open>None\<close> when it throws;
  \<open>ri_retryAfterSeconds\<close> is \<open>Undefined\<close> when the property is absent.\<close>

record refresh_input =
  ri_attempt :: jsnum
  ri_baseSeconds :: jsnum
  ri_retryAfterSeconds :: js
  ri_random :: "js option"

definition usableRandom :: "js option \<Rightarrow> rat" where
  "usableRandom random =
     (case random of
        Some (Num (Fin v)) \<Rightarrow> min (max v 0) 1
      | _ \<Rightarrow> 1 / 2)"

text \<open>\<open>None\<close> is the positive infinity of a connection that only refreshes by hand.\<close>

definition usableBase :: "jsnum \<Rightarrow> rat option" where
  "usableBase baseSeconds =
     (case baseSeconds of
        Fin b \<Rightarrow>
          if b < 0 then Some REFRESH_FALLBACK_BASE_SECONDS
          else if b = SCHEDULE_EXEMPT_BASE_SECONDS then None
          else Some (min b REFRESH_BACKOFF_CEILING_SECONDS)
      | _ \<Rightarrow> Some REFRESH_FALLBACK_BASE_SECONDS)"

definition usableAttempt :: "jsnum \<Rightarrow> nat" where
  "usableAttempt tries =
     (case tries of
        Fin a \<Rightarrow> if a \<le> 0 then 0 else nat (min \<lfloor>a\<rfloor> 32)
      | _ \<Rightarrow> 0)"

definition usableRetryAfter :: "js \<Rightarrow> rat option" where
  "usableRetryAfter v =
     (case v of
        Num (Fin r) \<Rightarrow> if r \<le> 0 then None else Some (min r REFRESH_RETRY_AFTER_CEILING_SECONDS)
      | _ \<Rightarrow> None)"

definition refreshDelaySeconds :: "refresh_input \<Rightarrow> jsnum" where
  "refreshDelaySeconds input =
     (case usableBase (ri_baseSeconds input) of
        None \<Rightarrow> PosInf
      | Some base \<Rightarrow>
          let tries = usableAttempt (ri_attempt input);
              backoff = min (base * 2 ^ tries) REFRESH_BACKOFF_CEILING_SECONDS;
              jitter = 1 + (usableRandom (ri_random input) * 2 - 1) * REFRESH_JITTER_RATIO;
              jittered = backoff * jitter
          in (case usableRetryAfter (ri_retryAfterSeconds input) of
                None \<Rightarrow> Fin jittered
              | Some retryAfter \<Rightarrow> Fin (max jittered retryAfter)))"

text \<open>\<open>new Date(ms)\<close> and \<open>toISOString\<close> guarded by a finiteness test; a fraction of a
  millisecond is cut off.\<close>

definition time_clip :: "rat \<Rightarrow> int" where
  "time_clip r = (if r < 0 then \<lceil>r\<rceil> else \<lfloor>r\<rfloor>)"

definition date_text :: "rat \<Rightarrow> string option" where
  "date_text r = (case toISOString (time_clip r) of Inl _ \<Rightarrow> None | Inr s \<Rightarrow> Some s)"

text \<open>\<open>Math.round\<close>.\<close>

definition math_round :: "rat \<Rightarrow> int" where
  "math_round r = \<lfloor>r + 1 / 2\<rfloor>"

definition nextRefreshAt :: "string \<Rightarrow> refresh_input \<Rightarrow> string option" where
  "nextRefreshAt now input =
     (case dateParse now of
        None \<Rightarrow> None
      | Some current \<Rightarrow>
          if ri_baseSeconds input = Fin SCHEDULE_EXEMPT_BASE_SECONDS then Some SCHEDULE_EXEMPT_INSTANT
          else (case refreshDelaySeconds input of
                  Fin d \<Rightarrow> date_text (of_int (current + math_round (d * 1000)))
                | _ \<Rightarrow> None))"

definition isDue :: "string option \<Rightarrow> string \<Rightarrow> bool" where
  "isDue nextAt now =
     (case dateParse now of
        None \<Rightarrow> False
      | Some current \<Rightarrow>
          (case nextAt of
             None \<Rightarrow> True
           | Some at_text \<Rightarrow>
               (case dateParse at_text of None \<Rightarrow> True | Some scheduled \<Rightarrow> scheduled \<le> current)))"

section \<open>The policies of cache.ts\<close>

definition MAX_POLICY_TIMESTAMP :: int where
  "MAX_POLICY_TIMESTAMP = 253402300799999"

record retry_input =
  rt_attemptCount :: int
  rt_retryAfter :: "string option"
  rt_now :: string
  rt_jitterSeconds :: rat
  rt_layer :: string

record retry_decision =
  rd_localDelaySeconds :: rat
  rd_serverDeadline :: "string option"
  rd_nextAllowedAt :: string
  rd_blockedUntil :: "string option"

text \<open>\<open>String.prototype.trim\<close> on ASCII, and the shape test of an HTTP date
  (\<open>/^[A-Za-z]{3}, /u\<close>). What \<open>Date.parse\<close> makes of an HTTP date is outside the format
  \<open>Dates\<close> specifies: it is the parameter \<open>httpDate\<close>.\<close>

definition trim :: "string \<Rightarrow> string" where
  "trim s = rev (dropWhile is_space (rev (dropWhile is_space s)))"

definition http_date_shape :: "string \<Rightarrow> bool" where
  "http_date_shape s \<longleftrightarrow> 5 \<le> length s \<and> list_all (\<lambda>c. is_upper c \<or> is_lower c) (take 3 s) \<and>
     take 2 (drop 3 s) = '', ''"

definition server_instant :: "(string \<Rightarrow> ms) \<Rightarrow> int \<Rightarrow> string option \<Rightarrow> ms" where
  "server_instant httpDate now retryAfter =
     (case map_option trim retryAfter of
        None \<Rightarrow> None
      | Some raw \<Rightarrow>
          if raw \<noteq> [] \<and> list_all is_digit raw
          then Some (min MAX_POLICY_TIMESTAMP (now + int (number_of_digits raw) * 1000))
          else if http_date_shape raw then httpDate raw else None)"

definition local_delay :: "int \<Rightarrow> rat \<Rightarrow> rat" where
  "local_delay attemptCount jitterSeconds =
     min (60 * 2 powi (min attemptCount 4)) 900 + max 0 jitterSeconds"

definition retry_ceiling :: "int \<Rightarrow> string \<Rightarrow> int" where
  "retry_ceiling now layer = now + (if layer = ''collector'' then 86400 else 604800) * 1000"

text \<open>A clock that does not parse makes the last \<open>toISOString\<close> throw, whatever the header says.\<close>

definition retryPolicy :: "(string \<Rightarrow> ms) \<Rightarrow> retry_input \<Rightarrow> retry_decision result" where
  "retryPolicy httpDate input =
     (case dateParse (rt_now input) of
        None \<Rightarrow> Inl (RangeError ''Invalid time value'')
      | Some now \<Rightarrow>
          let server = server_instant httpDate now (rt_retryAfter input);
              delay = local_delay (rt_attemptCount input) (rt_jitterSeconds input);
              ceiling = retry_ceiling now (rt_layer input)
          in rbind (case server of
                      None \<Rightarrow> Inr None
                    | Some t \<Rightarrow> map_sum id Some (toISOString (min t ceiling)))
               (\<lambda>deadline.
                  rbind (toISOString (time_clip (max (of_int now + delay * 1000)
                           (case server of None \<Rightarrow> 0 | Some t \<Rightarrow> of_int (min t ceiling)))))
                    (\<lambda>nextAllowed.
                       Inr \<lparr>rd_localDelaySeconds = delay, rd_serverDeadline = deadline,
                            rd_nextAllowedAt = nextAllowed,
                            rd_blockedUntil = (case server of
                                None \<Rightarrow> None
                              | Some t \<Rightarrow> if ceiling < t then deadline else None)\<rparr>)))"

record lease_input =
  li_now :: string
  li_requester :: string
  li_owner :: "string option"
  li_expiresAt :: "string option"
  li_leaseSeconds :: int

record lease_decision =
  ld_acquired :: bool
  ld_takeover :: bool
  ld_owner :: "string option"
  ld_expiresAt :: "string option"

definition leasePolicy :: "lease_input \<Rightarrow> lease_decision result" where
  "leasePolicy input =
     (let acquired = (li_owner input = None \<or> li_expiresAt input = None \<or>
            ms_le (Option.bind (li_expiresAt input) dateParse) (dateParse (li_now input)));
          expires = (if acquired
            then (case dateParse (li_now input) of
                    None \<Rightarrow> Inl (RangeError ''Invalid time value'')
                  | Some now \<Rightarrow> map_sum id Some (toISOString (now + li_leaseSeconds input * 1000)))
            else Inr (li_expiresAt input))
      in rbind expires (\<lambda>expiresAt.
           Inr \<lparr>ld_acquired = acquired,
                ld_takeover = (acquired \<and> li_owner input \<noteq> None \<and> li_owner input \<noteq> Some (li_requester input)),
                ld_owner = (if acquired then Some (li_requester input) else li_owner input),
                ld_expiresAt = expiresAt\<rparr>))"

definition POLICY_SOURCES :: "string list" where
  "POLICY_SOURCES = [''native_payload'', ''documented_api'', ''internal_payload'', ''local_file'']"

definition withPolicyFreshness :: "snapshot \<Rightarrow> snapshot result" where
  "withPolicyFreshness row =
     (if source_str (sn_source row) \<notin> set POLICY_SOURCES then Inr row
      else map_sum id (\<lambda>p. row\<lparr>sn_expiresAt := fr_expiresAt p\<rparr>) (row_policy row (sn_observedAt row)))"

section \<open>The acquisition cadence (acquire/cadence.ts)\<close>

definition ACQUISITION_INTERVAL_SECONDS :: rat where
  "ACQUISITION_INTERVAL_SECONDS = 900"

definition CLAUDE_ACQUISITION_INTERVAL_SECONDS :: int where
  "CLAUDE_ACQUISITION_INTERVAL_SECONDS = 300"

definition ACQUISITION_BLOCKED_BACKOFF_SECONDS :: rat where
  "ACQUISITION_BLOCKED_BACKOFF_SECONDS = 86400"

definition ACQUISITION_STATE_FILE_NAME :: string where
  "ACQUISITION_STATE_FILE_NAME = ''openlimiter-acquisition.json''"

definition ACQUISITION_STATE_VERSION :: int where
  "ACQUISITION_STATE_VERSION = 1"

text \<open>\<open>ACQUISITION_OUTCOMES\<close> (acquire/transport.ts).\<close>

datatype acquisition_outcome =
    AcqOk | Unauthorized | AcqRateLimited | Blocked | RemoteError
  | Transport | TooLarge | AcqDrift | IdentityRefused | AcqQuotaUnavailable
  | NotRunning

fun outcome_str :: "acquisition_outcome \<Rightarrow> string" where
  "outcome_str AcqOk = ''ok''"
| "outcome_str Unauthorized = ''unauthorized''"
| "outcome_str AcqRateLimited = ''rate_limited''"
| "outcome_str Blocked = ''blocked''"
| "outcome_str RemoteError = ''remote_error''"
| "outcome_str Transport = ''transport''"
| "outcome_str TooLarge = ''too_large''"
| "outcome_str AcqDrift = ''drift''"
| "outcome_str IdentityRefused = ''identity_refused''"
| "outcome_str AcqQuotaUnavailable = ''quota_unavailable''"
| "outcome_str NotRunning = ''not_running''"

definition ACQUISITION_OUTCOMES :: "acquisition_outcome list" where
  "ACQUISITION_OUTCOMES =
     [AcqOk, Unauthorized, AcqRateLimited, Blocked, RemoteError,
      Transport, TooLarge, AcqDrift, IdentityRefused, AcqQuotaUnavailable,
      NotRunning]"

interpretation acquisition_outcome_words: vocabulary outcome_str ACQUISITION_OUTCOMES
proof unfold_locales
  show "outcome_str x = outcome_str y \<Longrightarrow> x = y" for x y by (cases x; cases y) simp_all
  show "x \<in> set ACQUISITION_OUTCOMES" for x by (cases x) (simp_all add: ACQUISITION_OUTCOMES_def)
qed

lemmas acquisition_outcome_simps [vocab_simps, simp] = acquisition_outcome_words.decode_code acquisition_outcome_words.code_eq_iff

datatype acquisition_phase =
    LeasePhase | CredentialPhase | ProbePhase | RequestPhase | ParsePhase
  | PersistPhase

fun phase_str :: "acquisition_phase \<Rightarrow> string" where
  "phase_str LeasePhase = ''lease''"
| "phase_str CredentialPhase = ''credential''"
| "phase_str ProbePhase = ''probe''"
| "phase_str RequestPhase = ''request''"
| "phase_str ParsePhase = ''parse''"
| "phase_str PersistPhase = ''persist''"

definition ACQUISITION_PHASES :: "acquisition_phase list" where
  "ACQUISITION_PHASES =
     [LeasePhase, CredentialPhase, ProbePhase, RequestPhase, ParsePhase,
      PersistPhase]"

interpretation acquisition_phase_words: vocabulary phase_str ACQUISITION_PHASES
proof unfold_locales
  show "phase_str x = phase_str y \<Longrightarrow> x = y" for x y by (cases x; cases y) simp_all
  show "x \<in> set ACQUISITION_PHASES" for x by (cases x) (simp_all add: ACQUISITION_PHASES_def)
qed

lemmas acquisition_phase_simps [vocab_simps, simp] = acquisition_phase_words.decode_code acquisition_phase_words.code_eq_iff


record schedule_entry =
  se_refusalRevision :: "string option"
  se_attempts :: "int option"
  se_lastAttemptAt :: string
  se_nextAttemptAt :: string
  se_outcome :: acquisition_outcome
  se_phase :: "acquisition_phase option"
  se_errorClass :: "string option"

type_synonym acquisition_schedule = "(string \<times> schedule_entry) list"

definition transient_outcome :: "acquisition_outcome \<Rightarrow> bool" where
  "transient_outcome r \<longleftrightarrow> r = AcqRateLimited \<or> r = RemoteError \<or> r = Transport"

definition refusal_outcome :: "acquisition_outcome \<Rightarrow> bool" where
  "refusal_outcome r \<longleftrightarrow>
     r = Unauthorized \<or> r = Blocked \<or> r = IdentityRefused \<or> r = AcqQuotaUnavailable"

definition backoffSecondsFor ::
  "(string \<Rightarrow> ms) \<Rightarrow> acquisition_outcome \<Rightarrow> jsnum option \<Rightarrow> int \<Rightarrow> rat result" where
  "backoffSecondsFor httpDate outcome retryAfterSeconds attemptCount =
     rbind (if transient_outcome outcome
            then map_sum id rd_localDelaySeconds (retryPolicy httpDate
              \<lparr>rt_attemptCount = attemptCount, rt_retryAfter = None, rt_now = ''1970-01-01T00:00:00.000Z'',
               rt_jitterSeconds = 0, rt_layer = ''policy''\<rparr>)
            else if refusal_outcome outcome then Inr ACQUISITION_BLOCKED_BACKOFF_SECONDS
            else Inr ACQUISITION_INTERVAL_SECONDS)
       (\<lambda>base.
          case retryAfterSeconds of
            Some (Fin r) \<Rightarrow>
              if r \<le> 0 \<or> refusal_outcome outcome then Inr base
              else Inr (max base (min (7 * 86400) r))
          | _ \<Rightarrow> Inr base)"

definition nextAttemptInstant ::
  "(string \<Rightarrow> ms) \<Rightarrow> acquisition_outcome \<Rightarrow> string \<Rightarrow> jsnum option \<Rightarrow> int \<Rightarrow> string option result" where
  "nextAttemptInstant httpDate outcome now retryAfterSeconds attemptCount =
     (case dateParse now of
        None \<Rightarrow> Inr None
      | Some current \<Rightarrow>
          rbind (backoffSecondsFor httpDate outcome retryAfterSeconds attemptCount) (\<lambda>backoff.
            Inr (date_text (min (of_int MAX_POLICY_TIMESTAMP) (of_int current + backoff * 1000)))))"

definition resets_ahead :: "int \<Rightarrow> string option list \<Rightarrow> int list" where
  "resets_ahead current resetAts =
     filter (\<lambda>t. current < t) (List.map_filter (\<lambda>r. Option.bind r dateParse) resetAts)"

definition nextSuccessInstant ::
  "(string \<Rightarrow> ms) \<Rightarrow> provider_code \<Rightarrow> string \<Rightarrow> string option list \<Rightarrow> string option result" where
  "nextSuccessInstant httpDate provider now resetAts =
     (case (provider = CLAUDE, dateParse now) of
        (True, Some current) \<Rightarrow>
          map_sum id Some (toISOString
            (fold min (resets_ahead current resetAts) (current + CLAUDE_ACQUISITION_INTERVAL_SECONDS * 1000)))
      | _ \<Rightarrow> nextAttemptInstant httpDate AcqOk now None 0)"

definition isProviderDue :: "schedule_entry option \<Rightarrow> string \<Rightarrow> bool" where
  "isProviderDue schedule now =
     (case dateParse now of
        None \<Rightarrow> False
      | Some current \<Rightarrow>
          (case schedule of
             None \<Rightarrow> True
           | Some entry \<Rightarrow>
               (case dateParse (se_nextAttemptAt entry) of
                  None \<Rightarrow> True
                | Some scheduled \<Rightarrow> scheduled \<le> current)))"

subsection \<open>The schedule file\<close>

text \<open>\<open>outcomeNames\<close>: the words the reader accepts.\<close>

definition outcomeNames :: "acquisition_outcome list" where
  "outcomeNames =
     [AcqOk, Unauthorized, AcqRateLimited, Blocked, RemoteError, Transport, TooLarge, AcqDrift,
      IdentityRefused, NotRunning]"

definition MAX_SCHEDULE_ENTRIES :: nat where
  "MAX_SCHEDULE_ENTRIES = 32"

text \<open>\<open>/^[a-f0-9]{64}$/u\<close>\<close>

definition revision_pattern :: "string \<Rightarrow> bool" where
  "revision_pattern s \<longleftrightarrow> length s = 64 \<and>
     list_all (\<lambda>c. is_digit c \<or> CHR ''a'' \<le> c \<and> c \<le> CHR ''f'') s"

text \<open>\<open>ERROR_CLASS\<close>: \<open>/^[A-Za-z][A-Za-z0-9_]{0,31}$/u\<close>\<close>

definition error_class_pattern :: "string \<Rightarrow> bool" where
  "error_class_pattern s =
     (case s of
        [] \<Rightarrow> False
      | c # cs \<Rightarrow> (is_upper c \<or> is_lower c) \<and> length cs \<le> 31 \<and>
          list_all (\<lambda>x. is_upper x \<or> is_lower x \<or> is_digit x \<or> x = CHR ''_'') cs)"

text \<open>\<open>Number.isSafeInteger\<close>.\<close>

definition safe_integer :: "rat \<Rightarrow> bool" where
  "safe_integer r \<longleftrightarrow> is_integer r \<and> \<bar>r\<bar> \<le> 9007199254740991"

definition read_matching :: "(string \<Rightarrow> bool) \<Rightarrow> js \<Rightarrow> string option" where
  "read_matching pattern v = (case v of Str s \<Rightarrow> if pattern s then Some s else None | _ \<Rightarrow> None)"

definition read_attempts :: "js \<Rightarrow> int option" where
  "read_attempts v =
     (case v of Num (Fin r) \<Rightarrow> if safe_integer r then Some (max 0 \<lfloor>r\<rfloor>) else None | _ \<Rightarrow> None)"

definition read_schedule_entry :: "js \<Rightarrow> schedule_entry option" where
  "read_schedule_entry entry =
     (if \<not> isRecord entry then None else
      do { lastAt \<leftarrow> read_instant (prop_of entry ''lastAttemptAt'');
           nextAt \<leftarrow> read_instant (prop_of entry ''nextAttemptAt'');
           outcome \<leftarrow> read_word outcome_str outcomeNames (prop_of entry ''outcome'');
           Some \<lparr>se_refusalRevision = read_matching revision_pattern (prop_of entry ''refusalRevision''),
                 se_attempts = read_attempts (prop_of entry ''attempts''),
                 se_lastAttemptAt = lastAt, se_nextAttemptAt = nextAt, se_outcome = outcome,
                 se_phase = read_word phase_str ACQUISITION_PHASES (prop_of entry ''phase''),
                 se_errorClass = read_matching error_class_pattern (prop_of entry ''errorClass'')\<rparr> })"

definition readAcquisitionSchedule :: "json_file \<Rightarrow> acquisition_schedule" where
  "readAcquisitionSchedule document =
     (case document of
        FileError _ \<Rightarrow> []
      | FileOk v \<Rightarrow>
          if \<not> isRecord v then []
          else if prop_of v ''version'' \<noteq> Undefined \<and>
                  prop_of v ''version'' \<noteq> int_js ACQUISITION_STATE_VERSION then []
          else (case prop_of v ''providers'' of
                  Obj ps \<Rightarrow>
                    List.map_filter (\<lambda>(key, entry). map_option (Pair key) (read_schedule_entry entry))
                      (take MAX_SCHEDULE_ENTRIES ps)
                | _ \<Rightarrow> []))"

definition schedule_entry_js :: "schedule_entry \<Rightarrow> js" where
  "schedule_entry_js e =
     obj [(''refusalRevision'', opt_js (map_option Str (se_refusalRevision e))),
          (''attempts'', opt_js (map_option int_js (se_attempts e))),
          (''lastAttemptAt'', Str (se_lastAttemptAt e)),
          (''nextAttemptAt'', Str (se_nextAttemptAt e)),
          (''outcome'', Str (outcome_str (se_outcome e))),
          (''phase'', opt_js (map_option (Str \<circ> phase_str) (se_phase e))),
          (''errorClass'', opt_js (map_option Str (se_errorClass e)))]"

definition schedule_js :: "acquisition_schedule \<Rightarrow> js" where
  "schedule_js schedule =
     obj [(''providers'', Obj (map (\<lambda>(key, e). (key, schedule_entry_js e)) schedule)),
          (''version'', int_js ACQUISITION_STATE_VERSION)]"

definition writeAcquisitionSchedule :: "acquisition_schedule \<Rightarrow> directory \<Rightarrow> directory" where
  "writeAcquisitionSchedule schedule dir =
     writeFileAtomically ACQUISITION_STATE_FILE_NAME (schedule_js schedule) dir"

section \<open>Lemmas\<close>

subsection \<open>The delay\<close>

lemma usableRandom_range: "0 \<le> usableRandom r \<and> usableRandom r \<le> 1"
  by (auto simp: usableRandom_def split: option.splits js.splits jsnum.splits)

lemma usableBase_range: "usableBase b = Some base \<Longrightarrow> 0 < base \<and> base \<le> 3600"
  by (auto simp: usableBase_def REFRESH_FALLBACK_BASE_SECONDS_def SCHEDULE_EXEMPT_BASE_SECONDS_def
      REFRESH_BACKOFF_CEILING_SECONDS_def split: jsnum.splits if_splits)

lemma usableRetryAfter_range: "usableRetryAfter v = Some r \<Longrightarrow> 0 < r \<and> r \<le> 86400"
  by (auto simp: usableRetryAfter_def REFRESH_RETRY_AFTER_CEILING_SECONDS_def
      split: js.splits jsnum.splits if_splits)

definition backoff_of :: "refresh_input \<Rightarrow> rat" where
  "backoff_of input =
     (case usableBase (ri_baseSeconds input) of
        None \<Rightarrow> 0
      | Some base \<Rightarrow> min (base * 2 ^ usableAttempt (ri_attempt input)) REFRESH_BACKOFF_CEILING_SECONDS)"

definition jittered_of :: "refresh_input \<Rightarrow> rat" where
  "jittered_of input =
     backoff_of input * (1 + (usableRandom (ri_random input) * 2 - 1) * REFRESH_JITTER_RATIO)"

lemma refreshDelaySeconds_eq:
  "refreshDelaySeconds input =
     (if usableBase (ri_baseSeconds input) = None then PosInf
      else case usableRetryAfter (ri_retryAfterSeconds input) of
        None \<Rightarrow> Fin (jittered_of input) | Some r \<Rightarrow> Fin (max (jittered_of input) r))"
  by (auto simp: refreshDelaySeconds_def backoff_of_def jittered_of_def Let_def split: option.splits)

lemma backoff_of_range: "0 \<le> backoff_of input \<and> backoff_of input \<le> 3600"
  using usableBase_range [of "ri_baseSeconds input"]
  by (auto simp: backoff_of_def REFRESH_BACKOFF_CEILING_SECONDS_def min_def split: option.splits)

lemma jittered_of_range: "4 / 5 * backoff_of input \<le> jittered_of input \<and> jittered_of input \<le> 6 / 5 * backoff_of input"
proof -
  have "4 / 5 \<le> 1 + (usableRandom (ri_random input) * 2 - 1) * REFRESH_JITTER_RATIO"
    "1 + (usableRandom (ri_random input) * 2 - 1) * REFRESH_JITTER_RATIO \<le> 6 / 5"
    using usableRandom_range [of "ri_random input"] by (simp_all add: REFRESH_JITTER_RATIO_def field_simps)
  with backoff_of_range [of input] show ?thesis
    unfolding jittered_of_def by (metis mult.commute mult_left_mono)
qed

lemma delay_bounds:
  assumes "refreshDelaySeconds input = Fin d"
  shows "4 / 5 * backoff_of input \<le> d"
    and "case usableRetryAfter (ri_retryAfterSeconds input) of
      None \<Rightarrow> d \<le> 6 / 5 * backoff_of input | Some r \<Rightarrow> r \<le> d \<and> d \<le> max (6 / 5 * backoff_of input) r"
    and "d \<le> 86400"
  using assms jittered_of_range [of input] backoff_of_range [of input]
    usableRetryAfter_range [of "ri_retryAfterSeconds input"]
  by (auto simp: refreshDelaySeconds_eq split: if_splits option.splits)

lemma time_clip_of_int [simp]: "time_clip (of_int n) = n"
  by (simp add: time_clip_def)

lemma time_clip_bounds: "of_int (time_clip r) - 1 < r \<and> r < of_int (time_clip r) + 1" for r :: rat
  by (simp add: time_clip_def) linarith

lemma time_clip_nonneg: "0 \<le> r \<Longrightarrow> time_clip r = \<lfloor>r\<rfloor>"
  by (simp add: time_clip_def)

lemma date_text_eq_Some: "date_text r = Some s \<longleftrightarrow> \<bar>time_clip r\<bar> \<le> max_time \<and> s = iso_text (time_clip r)"
  by (auto simp: date_text_def toISOString_def)

lemma date_text_parse: "date_text r = Some s \<Longrightarrow> dateParse s = Some (time_clip r)"
  by (simp add: date_text_eq_Some dateParse_iso_text)

lemma toISOString_parse: "toISOString t = Inr s \<Longrightarrow> dateParse s = Some t"
  by (simp add: toISOString_Inr dateParse_iso_text)

lemma nextRefreshAt_parse:
  assumes "nextRefreshAt now input = Some t" "dateParse now = Some c" "refreshDelaySeconds input = Fin d"
  shows "dateParse t = Some (c + math_round (d * 1000))"
proof -
  have "ri_baseSeconds input \<noteq> Fin SCHEDULE_EXEMPT_BASE_SECONDS"
    using assms(3) by (auto simp: refreshDelaySeconds_def usableBase_def SCHEDULE_EXEMPT_BASE_SECONDS_def)
  with assms have "date_text (of_int (c + math_round (d * 1000))) = Some t"
    by (simp add: nextRefreshAt_def)
  then have "dateParse t = Some (time_clip (of_int (c + math_round (d * 1000))))" by (rule date_text_parse)
  then show ?thesis by (simp only: time_clip_of_int)
qed

lemma math_round_bounds: "r - 1 / 2 \<le> of_int (math_round r)" "of_int (math_round r) \<le> r + 1 / 2"
  unfolding math_round_def by linarith+

subsection \<open>The retry and lease policies\<close>

lemma local_delay_bounds:
  assumes "0 \<le> n" "0 \<le> j"
  shows "60 + j \<le> local_delay n j \<and> local_delay n j \<le> 900 + j"
proof -
  have "(2 :: rat) powi 0 \<le> 2 powi (min n 4)"
    using assms by (intro power_int_increasing) auto
  then show ?thesis using assms by (simp add: local_delay_def)
qed

lemma local_delay_mono: "n \<le> m \<Longrightarrow> local_delay n j \<le> local_delay m j"
proof -
  assume "n \<le> m"
  then have "(2 :: rat) powi (min n 4) \<le> 2 powi (min m 4)" by (intro power_int_increasing) auto
  then show ?thesis by (simp add: local_delay_def)
qed

definition allowed_at :: "(string \<Rightarrow> ms) \<Rightarrow> retry_input \<Rightarrow> int \<Rightarrow> int" where
  "allowed_at httpDate input now =
     time_clip (max (of_int now + local_delay (rt_attemptCount input) (rt_jitterSeconds input) * 1000)
       (case server_instant httpDate now (rt_retryAfter input) of
          None \<Rightarrow> 0 | Some t \<Rightarrow> of_int (min t (retry_ceiling now (rt_layer input)))))"

lemma retryPolicy_Inr:
  assumes "retryPolicy httpDate input = Inr p" "dateParse (rt_now input) = Some now"
  shows "rd_localDelaySeconds p = local_delay (rt_attemptCount input) (rt_jitterSeconds input)"
    and "dateParse (rd_nextAllowedAt p) = Some (allowed_at httpDate input now)"
    and "Option.bind (rd_serverDeadline p) dateParse =
      map_option (\<lambda>t. min t (retry_ceiling now (rt_layer input))) (server_instant httpDate now (rt_retryAfter input))"
    and "rd_blockedUntil p =
      (if ms_lt (Some (retry_ceiling now (rt_layer input))) (server_instant httpDate now (rt_retryAfter input))
       then rd_serverDeadline p else None)"
  using assms
  by (auto simp: retryPolicy_def rbind_Inr_iff Let_def allowed_at_def map_sum_def toISOString_parse
      split: option.splits sum.splits)

lemma time_clip_mono: "r \<le> s \<Longrightarrow> time_clip r \<le> time_clip s" for r s :: rat
proof (cases "r < 0 \<and> \<not> s < 0")
  case True
  then have "\<lceil>r\<rceil> \<le> 0" "0 \<le> \<lfloor>s\<rfloor>" by (simp_all add: ceiling_le_zero)
  then have "\<lceil>r\<rceil> \<le> \<lfloor>s\<rfloor>" by (rule order_trans)
  with True show ?thesis by (simp add: time_clip_def)
next
  case False
  assume "r \<le> s"
  with False show ?thesis by (auto simp: time_clip_def floor_mono ceiling_mono)
qed

lemma allowed_at_floor:
  "of_int now + local_delay (rt_attemptCount input) (rt_jitterSeconds input) * 1000 - 1 < of_int (allowed_at httpDate input now)"
  "server_instant httpDate now (rt_retryAfter input) = Some t \<Longrightarrow>
     min t (retry_ceiling now (rt_layer input)) \<le> allowed_at httpDate input now"
proof -
  let ?m = "max (of_int now + local_delay (rt_attemptCount input) (rt_jitterSeconds input) * 1000)
       (case server_instant httpDate now (rt_retryAfter input) of
          None \<Rightarrow> 0 | Some t \<Rightarrow> of_int (min t (retry_ceiling now (rt_layer input))))"
  show "of_int now + local_delay (rt_attemptCount input) (rt_jitterSeconds input) * 1000 - 1 < of_int (allowed_at httpDate input now)"
    using time_clip_bounds [of ?m] unfolding allowed_at_def by linarith
  assume "server_instant httpDate now (rt_retryAfter input) = Some t"
  then have "time_clip (of_int (min t (retry_ceiling now (rt_layer input)))) \<le> allowed_at httpDate input now"
    unfolding allowed_at_def by (intro time_clip_mono) simp
  then show "min t (retry_ceiling now (rt_layer input)) \<le> allowed_at httpDate input now"
    by (simp only: time_clip_of_int)
qed

lemma leasePolicy_Inr:
  assumes "leasePolicy input = Inr d"
  shows "ld_acquired d \<longleftrightarrow> li_owner input = None \<or> li_expiresAt input = None \<or>
      ms_le (Option.bind (li_expiresAt input) dateParse) (dateParse (li_now input))"
    and "ld_owner d = (if ld_acquired d then Some (li_requester input) else li_owner input)"
    and "ld_takeover d \<longleftrightarrow> ld_acquired d \<and> li_owner input \<noteq> None \<and> li_owner input \<noteq> Some (li_requester input)"
    and "\<not> ld_acquired d \<Longrightarrow> ld_expiresAt d = li_expiresAt input"
    and "ld_acquired d \<Longrightarrow> dateParse (li_now input) = Some now \<Longrightarrow>
      \<exists>s. ld_expiresAt d = Some s \<and> dateParse s = Some (now + li_leaseSeconds input * 1000)"
  using assms
  by (auto simp: leasePolicy_def Let_def rbind_Inr_iff map_sum_def split: if_splits option.splits sum.splits
      dest: toISOString_parse)

subsection \<open>The cadence\<close>

lemma epoch: "dateParse ''1970-01-01T00:00:00.000Z'' = Some 0"
  by (simp add: date_eval cong: bind_weak_cong)

lemma local_delay_le: "local_delay n 0 \<le> 900"
  by (simp add: local_delay_def)

lemma local_delay_pos: "0 < local_delay n 0"
  by (simp add: local_delay_def)

lemma retryPolicy_epoch:
  "map_sum id rd_localDelaySeconds (retryPolicy httpDate
     \<lparr>rt_attemptCount = n, rt_retryAfter = None, rt_now = ''1970-01-01T00:00:00.000Z'',
      rt_jitterSeconds = 0, rt_layer = layer\<rparr>) = Inr (local_delay n 0)"
proof -
  let ?t = "time_clip (max (local_delay n 0 * 1000) 0)"
  have "0 \<le> ?t" "?t \<le> 900000"
    using time_clip_mono [of 0 "max (local_delay n 0 * 1000) 0"]
      time_clip_mono [of "max (local_delay n 0 * 1000) 0" 900000] local_delay_le [of n]
      time_clip_of_int [of 900000] time_clip_of_int [of 0] by simp_all
  then show ?thesis by (simp add: retryPolicy_def epoch server_instant_def Let_def toISOString_def max_time_def)
qed

text \<open>The wait after an outcome, as a table.\<close>

definition outcome_wait :: "acquisition_outcome \<Rightarrow> jsnum option \<Rightarrow> int \<Rightarrow> rat" where
  "outcome_wait outcome retryAfter n =
     (let base = (if transient_outcome outcome then local_delay n 0
                  else if refusal_outcome outcome then 86400 else 900)
      in case retryAfter of
           Some (Fin r) \<Rightarrow> if 0 < r \<and> \<not> refusal_outcome outcome then max base (min 604800 r) else base
         | _ \<Rightarrow> base)"

lemma backoffSecondsFor_eq: "backoffSecondsFor httpDate outcome retryAfter n = Inr (outcome_wait outcome retryAfter n)"
  by (auto simp: backoffSecondsFor_def retryPolicy_epoch outcome_wait_def ACQUISITION_BLOCKED_BACKOFF_SECONDS_def
      ACQUISITION_INTERVAL_SECONDS_def rbind_def Let_def not_less split: option.splits jsnum.splits)

lemma outcome_wait_bounds: "0 < outcome_wait outcome retryAfter n \<and> outcome_wait outcome retryAfter n \<le> 604800"
  using local_delay_le [of n] local_delay_pos [of n]
  by (auto simp: outcome_wait_def Let_def split: option.splits jsnum.splits)

lemma nextAttemptInstant_eq:
  assumes "dateParse now = Some c"
  shows "nextAttemptInstant httpDate outcome now retryAfter n =
    Inr (Some (iso_text (time_clip (min (of_int MAX_POLICY_TIMESTAMP)
      (of_int c + outcome_wait outcome retryAfter n * 1000)))))" (is "_ = Inr (Some (iso_text ?t))")
proof -
  let ?w = "outcome_wait outcome retryAfter n"
  have w: "0 < ?w" "?w \<le> 604800" using outcome_wait_bounds by blast+
  have "- max_time \<le> c" using dateParse_range [OF assms] by simp
  then have "- of_int max_time \<le> (of_int c :: rat)" by (metis of_int_le_iff of_int_minus)
  with w(1) have "of_int (- max_time) \<le> min (of_int MAX_POLICY_TIMESTAMP) (of_int c + ?w * 1000)"
    by (simp add: MAX_POLICY_TIMESTAMP_def max_time_def)
  then have "- max_time \<le> ?t" using time_clip_mono time_clip_of_int by metis
  moreover have "?t \<le> MAX_POLICY_TIMESTAMP"
    using time_clip_mono [of "min (of_int MAX_POLICY_TIMESTAMP) (of_int c + ?w * 1000)" "of_int MAX_POLICY_TIMESTAMP"]
    by (simp only: time_clip_of_int min.cobounded1)
  ultimately show ?thesis
    by (simp add: nextAttemptInstant_def assms backoffSecondsFor_eq date_text_def toISOString_def
        MAX_POLICY_TIMESTAMP_def max_time_def)
qed

lemma nextAttemptInstant_parse:
  assumes "dateParse now = Some c" "nextAttemptInstant httpDate outcome now retryAfter n = Inr (Some t)"
  shows "dateParse t = Some (time_clip (min (of_int MAX_POLICY_TIMESTAMP)
    (of_int c + outcome_wait outcome retryAfter n * 1000)))"
  using nextAttemptInstant_eq [OF assms(1), of httpDate outcome retryAfter n] assms
  by (simp add: nextAttemptInstant_def backoffSecondsFor_eq date_text_parse)

lemma fold_min_int: "fold min xs (m :: int) = Min (insert m (set xs))"
  using Min.set_eq_fold [of m xs] by simp

lemma set_resets_ahead:
  "t \<in> set (resets_ahead c resetAts) \<longleftrightarrow> c < t \<and> (\<exists>r. Some r \<in> set resetAts \<and> dateParse r = Some t)"
  by (auto simp: resets_ahead_def set_map_filter bind_eq_Some_conv)

subsection \<open>The schedule file\<close>

definition wf_entry :: "schedule_entry \<Rightarrow> bool" where
  "wf_entry e \<longleftrightarrow> iso_instant (se_lastAttemptAt e) \<and> iso_instant (se_nextAttemptAt e) \<and>
     (case se_refusalRevision e of None \<Rightarrow> True | Some r \<Rightarrow> revision_pattern r) \<and>
     (case se_attempts e of None \<Rightarrow> True | Some n \<Rightarrow> 0 \<le> n \<and> n \<le> 9007199254740991) \<and>
     (case se_errorClass e of None \<Rightarrow> True | Some c \<Rightarrow> error_class_pattern c)"

definition wf_schedule :: "acquisition_schedule \<Rightarrow> bool" where
  "wf_schedule d \<longleftrightarrow> distinct (map fst d) \<and> length d \<le> MAX_SCHEDULE_ENTRIES \<and> (\<forall>(k, e) \<in> set d. wf_entry e)"

definition readable_entry :: "schedule_entry \<Rightarrow> bool" where
  "readable_entry e \<longleftrightarrow> se_outcome e \<noteq> AcqQuotaUnavailable"

lemma decode_outcomeNames:
  "decode outcome_str outcomeNames (outcome_str r) = (if r = AcqQuotaUnavailable then None else Some r)"
  by (cases r) (simp_all add: decode_def outcomeNames_def)

lemma read_matching_simps [simp]:
  "read_matching p Undefined = None" "read_matching p (Str s) = (if p s then Some s else None)"
  "read_matching p (sortDeep v) = read_matching p v"
  by (simp_all add: read_matching_def split: js.split)

lemma read_attempts_simps [simp]:
  "read_attempts Undefined = None" "0 \<le> n \<Longrightarrow> n \<le> 9007199254740991 \<Longrightarrow> read_attempts (int_js n) = Some n"
  "read_attempts (sortDeep v) = read_attempts v"
proof -
  show "read_attempts Undefined = None" by (simp add: read_attempts_def)
  show "read_attempts (sortDeep v) = read_attempts v" by (cases v) (simp_all add: read_attempts_def)
  assume "0 \<le> n" "n \<le> 9007199254740991"
  moreover from this have "\<bar>of_int n :: rat\<bar> \<le> of_int 9007199254740991"
    by (simp only: abs_of_nonneg of_int_0_le_iff of_int_le_iff)
  ultimately show "read_attempts (int_js n) = Some n"
    by (simp add: read_attempts_def int_js_def safe_integer_def)
qed

lemma schedule_entry_js_props [simp]:
  "isRecord (schedule_entry_js e)"
  "prop_of (schedule_entry_js e) ''refusalRevision'' = opt_js (map_option Str (se_refusalRevision e))"
  "prop_of (schedule_entry_js e) ''attempts'' = opt_js (map_option int_js (se_attempts e))"
  "prop_of (schedule_entry_js e) ''lastAttemptAt'' = Str (se_lastAttemptAt e)"
  "prop_of (schedule_entry_js e) ''nextAttemptAt'' = Str (se_nextAttemptAt e)"
  "prop_of (schedule_entry_js e) ''outcome'' = Str (outcome_str (se_outcome e))"
  "prop_of (schedule_entry_js e) ''phase'' = opt_js (map_option (Str \<circ> phase_str) (se_phase e))"
  "prop_of (schedule_entry_js e) ''errorClass'' = opt_js (map_option Str (se_errorClass e))"
  by (simp_all add: schedule_entry_js_def)

lemma schedule_entry_js_clean: "json_clean (schedule_entry_js e)"
  unfolding schedule_entry_js_def by (rule json_clean_obj) simp_all

lemma read_schedule_entry_sortDeep: "json_clean v \<Longrightarrow> read_schedule_entry (sortDeep v) = read_schedule_entry v"
  by (simp add: read_schedule_entry_def prop_of_sortDeep cong: if_cong)

lemma read_schedule_entry_js:
  assumes "wf_entry e"
  shows "read_schedule_entry (schedule_entry_js e) = (if readable_entry e then Some e else None)"
proof -
  have "read_matching revision_pattern (opt_js (map_option Str (se_refusalRevision e))) = se_refusalRevision e"
    "read_attempts (opt_js (map_option int_js (se_attempts e))) = se_attempts e"
    "read_matching error_class_pattern (opt_js (map_option Str (se_errorClass e))) = se_errorClass e"
    using assms by (simp_all add: wf_entry_def split: option.splits)
  moreover have "read_word phase_str ACQUISITION_PHASES (opt_js (map_option (Str \<circ> phase_str) (se_phase e))) = se_phase e"
    by (cases "se_phase e") simp_all
  ultimately show ?thesis using assms
    by (simp add: read_schedule_entry_def wf_entry_def decode_outcomeNames readable_entry_def)
qed

lemma insort_key_map: "insort_key f (g x) (map g xs) = map g (insort_key (\<lambda>x. f (g x)) x xs)"
  by (induction xs) simp_all

lemma sort_key_map: "sort_key f (map g xs) = map g (sort_key (\<lambda>x. f (g x)) xs)"
  by (induction xs) (simp_all add: insort_key_map)

text \<open>What a written schedule reads as: its entries in key order, less the ones whose outcome
  the reader does not know.\<close>

definition readable_schedule :: "acquisition_schedule \<Rightarrow> acquisition_schedule" where
  "readable_schedule d = filter (\<lambda>(k, e). readable_entry e) (sort_key fst d)"

lemma schedule_js_clean:
  assumes "wf_schedule d"
  shows "json_clean (schedule_js d)"
proof -
  have "json_clean (Obj (map (\<lambda>(k, e). (k, schedule_entry_js e)) d))"
    using assms by (auto simp: wf_schedule_def schedule_entry_js_clean comp_def case_prod_beta)
  then show ?thesis unfolding schedule_js_def by (intro json_clean_obj) simp_all
qed

lemma map_filter_readable:
  "\<forall>x \<in> set d. wf_entry (snd x) \<Longrightarrow>
   List.map_filter (\<lambda>(k, v). map_option (Pair k) (read_schedule_entry v))
     (map (\<lambda>x. (fst x, sortDeep (schedule_entry_js (snd x)))) d) = filter (\<lambda>(k, e). readable_entry e) d"
  by (induction d)
     (auto simp: List.map_filter_simps read_schedule_entry_sortDeep schedule_entry_js_clean read_schedule_entry_js)

lemma readAcquisitionSchedule_written:
  assumes "wf_schedule d"
  shows "readAcquisitionSchedule (FileOk (canonicalJson (schedule_js d))) = readable_schedule d"
proof -
  let ?f = "\<lambda>x. (fst x, sortDeep (schedule_entry_js (snd x)))"
  have ps: "prop_of (schedule_js d) ''providers'' = Obj (map (\<lambda>(k, e). (k, schedule_entry_js e)) d)"
    "prop_of (schedule_js d) ''version'' = int_js ACQUISITION_STATE_VERSION" "isRecord (schedule_js d)"
    by (simp_all add: schedule_js_def)
  have "sortDeep (Obj (map (\<lambda>(k, e). (k, schedule_entry_js e)) d)) = Obj (map ?f (sort_key fst d))"
    by (simp add: sort_key_map case_prod_beta comp_def map_prod_def)
  moreover have "length (sort_key fst d) \<le> MAX_SCHEDULE_ENTRIES" "\<forall>x \<in> set (sort_key fst d). wf_entry (snd x)"
    using assms by (auto simp: wf_schedule_def)
  ultimately show ?thesis
    by (simp add: readAcquisitionSchedule_def canonicalJson_clean schedule_js_clean assms prop_of_sortDeep ps
        readable_schedule_def map_filter_readable int_js_def del: sortDeep.simps(7))
qed

interpretation schedule_file: stored_document "\<lambda>dir. dir" writeFileAtomically
    ACQUISITION_STATE_FILE_NAME wf_schedule schedule_js readAcquisitionSchedule readable_schedule
  by unfold_locales (rule readAcquisitionSchedule_written)

section \<open>What the schedules promise\<close>

text \<open>Every finite refresh delay is at least four fifths of the doubled and capped backoff, is
  never under a Retry-After the provider sent, is never over both the jittered backoff and that
  header, and never exceeds a day. Jitter may move our own number, never the provider's.\<close>

theorem refresh_delay_bounds:
  assumes "refreshDelaySeconds input = Fin d"
  shows "4 / 5 * backoff_of input \<le> d \<and> d \<le> 86400 \<and>
    (case usableRetryAfter (ri_retryAfterSeconds input) of
       None \<Rightarrow> d \<le> 6 / 5 * backoff_of input
     | Some r \<Rightarrow> r \<le> d \<and> d \<le> max (6 / 5 * backoff_of input) r)"
  using delay_bounds [OF assms] by blast

text \<open>A connection that failed three times, told to stay away for a day, with the lowest jitter.\<close>

definition sample_refresh :: refresh_input where
  "sample_refresh =
     \<lparr>ri_attempt = Fin 3, ri_baseSeconds = Fin 300, ri_retryAfterSeconds = num_js 86400,
      ri_random = Some (num_js 0)\<rparr>"

lemma sample_refresh_delay: "refreshDelaySeconds sample_refresh = Fin 86400"
  by (simp add: sample_refresh_def refreshDelaySeconds_def usableBase_def usableAttempt_def usableRandom_def
      usableRetryAfter_def num_js_def SCHEDULE_EXEMPT_BASE_SECONDS_def REFRESH_BACKOFF_CEILING_SECONDS_def
      REFRESH_JITTER_RATIO_def REFRESH_RETRY_AFTER_CEILING_SECONDS_def)

theorem refresh_delay_bounds_witness:
  "4 / 5 * backoff_of sample_refresh \<le> 86400 \<and> (86400 :: rat) \<le> 86400 \<and>
    (case usableRetryAfter (ri_retryAfterSeconds sample_refresh) of
       None \<Rightarrow> 86400 \<le> 6 / 5 * backoff_of sample_refresh
     | Some r \<Rightarrow> r \<le> 86400 \<and> 86400 \<le> max (6 / 5 * backoff_of sample_refresh) r)"
  by (rule refresh_delay_bounds [OF sample_refresh_delay])

text \<open>The instant a refresh is scheduled for comes due exactly when the delay, rounded to a
  millisecond, has passed; so a connection is never asked again before the Retry-After it was
  given, nor before four fifths of its backoff.\<close>

theorem scheduled_refresh_waits:
  assumes "nextRefreshAt now input = Some t" "refreshDelaySeconds input = Fin d"
    and "dateParse now = Some c" "dateParse later = Some c'"
  shows "(isDue (Some t) later \<longleftrightarrow> c + math_round (d * 1000) \<le> c') \<and>
    (800 * backoff_of input - 1 / 2 \<le> of_int (math_round (d * 1000))) \<and>
    (case usableRetryAfter (ri_retryAfterSeconds input) of
       None \<Rightarrow> True | Some r \<Rightarrow> 1000 * r - 1 / 2 \<le> of_int (math_round (d * 1000)))"
proof (intro conjI)
  show "isDue (Some t) later \<longleftrightarrow> c + math_round (d * 1000) \<le> c'"
    using assms(4) nextRefreshAt_parse [OF assms(1,3,2)] by (simp add: isDue_def)
  show "800 * backoff_of input - 1 / 2 \<le> of_int (math_round (d * 1000))"
    using delay_bounds(1) [OF assms(2)] math_round_bounds(1) [of "d * 1000"] by linarith
  show "case usableRetryAfter (ri_retryAfterSeconds input) of
       None \<Rightarrow> True | Some r \<Rightarrow> 1000 * r - 1 / 2 \<le> of_int (math_round (d * 1000))"
    using delay_bounds(2) [OF assms(2)] math_round_bounds(1) [of "d * 1000"]
    by (auto split: option.splits)
qed

lemma tomorrow: "dateParse ''2026-07-02T10:00:00.000Z'' = Some 1782986400000"
  by (simp add: date_eval cong: bind_weak_cong)

lemma tomorrow_text: "iso_text 1782986400000 = ''2026-07-02T10:00:00.000Z''"
  by (simp add: date_eval digit_char_simps(4) [unfolded numeral_2_eq_2])

lemma sample_refresh_next:
  "nextRefreshAt ''2026-07-01T10:00:00.000Z'' sample_refresh = Some ''2026-07-02T10:00:00.000Z''"
proof -
  have r: "math_round (86400 * 1000) = 86400000" by (simp add: math_round_def floor_eq_iff)
  have c: "time_clip 1782986400000 = 1782986400000" using time_clip_of_int [of 1782986400000] by simp
  have "ri_baseSeconds sample_refresh \<noteq> Fin SCHEDULE_EXEMPT_BASE_SECONDS"
    by (simp add: sample_refresh_def SCHEDULE_EXEMPT_BASE_SECONDS_def)
  then show ?thesis
    using r c by (simp add: nextRefreshAt_def sample_dates sample_refresh_delay date_text_def toISOString_def
        max_time_def tomorrow_text)
qed

theorem scheduled_refresh_waits_witness:
  "(isDue (Some ''2026-07-02T10:00:00.000Z'') ''2026-07-01T10:05:00.000Z'' \<longleftrightarrow>
      1782900000000 + math_round (86400 * 1000) \<le> 1782900300000) \<and>
    (800 * backoff_of sample_refresh - 1 / 2 \<le> of_int (math_round (86400 * 1000))) \<and>
    (case usableRetryAfter (ri_retryAfterSeconds sample_refresh) of
       None \<Rightarrow> True | Some r \<Rightarrow> 1000 * r - 1 / 2 \<le> of_int (math_round (86400 * 1000)))"
  by (rule scheduled_refresh_waits [OF sample_refresh_next sample_refresh_delay sample_dates(1) sample_now])

text \<open>A lease taken at one instant is refused to every other requester until it expires, and
  from then on is given to whoever asks, a takeover exactly when the owner changes. The owner
  of a refused request stays the holder.\<close>

theorem lease_excludes:
  assumes "leasePolicy \<lparr>li_now = now, li_requester = a, li_owner = owner, li_expiresAt = expires,
      li_leaseSeconds = secs\<rparr> = Inr d"
    and "ld_acquired d" "dateParse now = Some n" "dateParse later = Some m"
    and "leasePolicy \<lparr>li_now = later, li_requester = b, li_owner = ld_owner d, li_expiresAt = ld_expiresAt d,
      li_leaseSeconds = secs'\<rparr> = Inr d'"
  shows "(ld_acquired d' \<longleftrightarrow> n + secs * 1000 \<le> m) \<and> (ld_takeover d' \<longleftrightarrow> ld_acquired d' \<and> a \<noteq> b) \<and>
    ld_owner d' = Some (if ld_acquired d' then b else a)"
proof -
  obtain s where "ld_expiresAt d = Some s" "dateParse s = Some (n + secs * 1000)"
    using leasePolicy_Inr(5) [OF assms(1,2), of n] assms(3) by auto
  moreover have "ld_owner d = Some a" using leasePolicy_Inr(2) [OF assms(1)] assms(2) by simp
  ultimately show ?thesis
    using leasePolicy_Inr(1,2,3) [OF assms(5)] assms(4) by auto
qed

lemma lease_evaluated:
  "leasePolicy \<lparr>li_now = ''2026-07-01T10:00:00.000Z'', li_requester = ''cli'', li_owner = None,
      li_expiresAt = None, li_leaseSeconds = 60\<rparr> =
    Inr \<lparr>ld_acquired = True, ld_takeover = False, ld_owner = Some ''cli'',
      ld_expiresAt = Some ''2026-07-01T10:01:00.000Z''\<rparr>"
  "leasePolicy \<lparr>li_now = ''2026-07-01T10:05:00.000Z'', li_requester = ''desktop'', li_owner = Some ''cli'',
      li_expiresAt = Some ''2026-07-01T10:01:00.000Z'', li_leaseSeconds = 60\<rparr> =
    Inr \<lparr>ld_acquired = True, ld_takeover = True, ld_owner = Some ''desktop'',
      ld_expiresAt = Some ''2026-07-01T10:06:00.000Z''\<rparr>"
proof -
  have "iso_text 1782900060000 = ''2026-07-01T10:01:00.000Z''" "iso_text 1782900360000 = ''2026-07-01T10:06:00.000Z''"
    "dateParse ''2026-07-01T10:01:00.000Z'' = Some 1782900060000"
    by (simp_all add: date_eval cong: bind_weak_cong)
  then show "leasePolicy \<lparr>li_now = ''2026-07-01T10:00:00.000Z'', li_requester = ''cli'', li_owner = None,
      li_expiresAt = None, li_leaseSeconds = 60\<rparr> =
    Inr \<lparr>ld_acquired = True, ld_takeover = False, ld_owner = Some ''cli'',
      ld_expiresAt = Some ''2026-07-01T10:01:00.000Z''\<rparr>"
   and "leasePolicy \<lparr>li_now = ''2026-07-01T10:05:00.000Z'', li_requester = ''desktop'', li_owner = Some ''cli'',
      li_expiresAt = Some ''2026-07-01T10:01:00.000Z'', li_leaseSeconds = 60\<rparr> =
    Inr \<lparr>ld_acquired = True, ld_takeover = True, ld_owner = Some ''desktop'',
      ld_expiresAt = Some ''2026-07-01T10:06:00.000Z''\<rparr>"
    by (simp_all add: leasePolicy_def sample_dates sample_now Let_def toISOString_def max_time_def)
qed

theorem lease_excludes_witness:
  "(True \<longleftrightarrow> 1782900000000 + 60 * 1000 \<le> (1782900300000 :: int)) \<and>
   (True \<longleftrightarrow> True \<and> ''cli'' \<noteq> ''desktop'') \<and> Some ''desktop'' = Some (if True then ''desktop'' else ''cli'')"
  using lease_excludes [OF lease_evaluated(1) _ sample_dates(1) sample_now, of "''desktop''" 60]
    lease_evaluated(2) by simp

text \<open>After an attempt with any outcome the provider is due exactly when the wait of that outcome
  has passed (up to the cap of the last four digit year): between a minute and fifteen for a
  transient failure, a day for a refusal whatever header came with it, fifteen minutes otherwise,
  and a Retry-After only ever lengthens a wait, to a week at most.\<close>

theorem provider_waits:
  assumes "nextAttemptInstant httpDate outcome now retryAfter n = Inr (Some t)"
    and "dateParse now = Some c" "dateParse later = Some c'" "se_nextAttemptAt entry = t"
    and "c \<le> MAX_POLICY_TIMESTAMP - 604800000" "0 \<le> c"
  shows "(isProviderDue (Some entry) later \<longleftrightarrow> c + \<lfloor>outcome_wait outcome retryAfter n * 1000\<rfloor> \<le> c') \<and>
    0 < outcome_wait outcome retryAfter n \<and> outcome_wait outcome retryAfter n \<le> 604800"
proof -
  let ?w = "outcome_wait outcome retryAfter n"
  have w: "0 < ?w" "?w \<le> 604800" using outcome_wait_bounds by blast+
  have "(of_int c :: rat) \<le> of_int (MAX_POLICY_TIMESTAMP - 604800000)" using assms(5) by (simp only: of_int_le_iff)
  with w have "min (of_int MAX_POLICY_TIMESTAMP) (of_int c + ?w * 1000) = of_int c + ?w * 1000"
    by (simp add: min_def MAX_POLICY_TIMESTAMP_def)
  moreover have "time_clip (of_int c + ?w * 1000) = c + \<lfloor>?w * 1000\<rfloor>"
    using w assms(6) by (simp add: time_clip_nonneg)
  ultimately have "dateParse t = Some (c + \<lfloor>?w * 1000\<rfloor>)"
    using nextAttemptInstant_parse [OF assms(2,1)] by simp
  with assms(3,4) w show ?thesis by (simp add: isProviderDue_def)
qed

definition sample_entry :: schedule_entry where
  "sample_entry =
     \<lparr>se_refusalRevision = None, se_attempts = Some 2, se_lastAttemptAt = ''2026-07-01T10:00:00.000Z'',
      se_nextAttemptAt = ''2026-07-02T10:00:00.000Z'', se_outcome = AcqQuotaUnavailable,
      se_phase = Some RequestPhase, se_errorClass = None\<rparr>"

lemma sample_entry_instant:
  "nextAttemptInstant dateParse AcqQuotaUnavailable ''2026-07-01T10:00:00.000Z'' None 2 =
     Inr (Some ''2026-07-02T10:00:00.000Z'')"
proof -
  have w: "outcome_wait AcqQuotaUnavailable None 2 = 86400"
    by (simp add: outcome_wait_def transient_outcome_def refusal_outcome_def)
  have "time_clip (min (of_int MAX_POLICY_TIMESTAMP) (of_int 1782900000000 + 86400 * 1000)) = 1782986400000"
    using time_clip_of_int [of 1782986400000] by (simp add: MAX_POLICY_TIMESTAMP_def)
  then show ?thesis
    using nextAttemptInstant_eq [OF sample_dates(1), of dateParse AcqQuotaUnavailable None 2]
    by (simp add: w tomorrow_text)
qed

theorem provider_waits_witness:
  "(isProviderDue (Some sample_entry) ''2026-07-01T10:05:00.000Z'' \<longleftrightarrow>
      1782900000000 + \<lfloor>outcome_wait AcqQuotaUnavailable None 2 * 1000\<rfloor> \<le> 1782900300000) \<and>
    0 < outcome_wait AcqQuotaUnavailable None 2 \<and> outcome_wait AcqQuotaUnavailable None 2 \<le> 604800"
  by (rule provider_waits [OF sample_entry_instant sample_dates(1) sample_now])
     (simp_all add: sample_entry_def MAX_POLICY_TIMESTAMP_def)

text \<open>C36: a schedule that is written reads back as its entries in key order, every field as it
  was, less the entries whose outcome is \<open>quota_unavailable\<close>; writes of other documents of the
  directory do not disturb it.\<close>

theorem schedule_round_trip:
  assumes "wf_schedule d" "other \<noteq> ACQUISITION_STATE_FILE_NAME"
  shows "readAcquisitionSchedule
      (writeFileAtomically other v (writeAcquisitionSchedule d dir) ACQUISITION_STATE_FILE_NAME) =
    readable_schedule d"
  unfolding writeAcquisitionSchedule_def by (rule schedule_file.read_last [OF assms])

lemma wf_sample_schedule: "wf_schedule [(''gemini-cli'', sample_entry)]"
proof -
  have "iso_instant ''2026-07-02T10:00:00.000Z''"
    by (simp add: iso_instant_def isIsoInstant_def tomorrow toISOString_def max_time_def tomorrow_text)
  then show ?thesis
    by (simp add: wf_schedule_def wf_entry_def sample_entry_def sample_dates MAX_SCHEDULE_ENTRIES_def)
qed

theorem schedule_round_trip_witness:
  "readAcquisitionSchedule
      (writeFileAtomically ''claude-poll.json'' Null
        (writeAcquisitionSchedule [(''gemini-cli'', sample_entry)] (\<lambda>_. FileError MissingFile))
        ACQUISITION_STATE_FILE_NAME) =
    readable_schedule [(''gemini-cli'', sample_entry)]"
  by (rule schedule_round_trip [OF wf_sample_schedule]) (simp add: ACQUISITION_STATE_FILE_NAME_def)

text \<open>C34: the day a \<open>quota_unavailable\<close> outcome is meant to be waited is lost with the file: the
  reader drops the entry, so a provider recorded with it is due at every readable instant, even
  one before its next attempt.\<close>

theorem quota_wait_is_forgotten:
  assumes "wf_schedule d" "map_of d provider = Some entry" "se_outcome entry = AcqQuotaUnavailable"
    and "dateParse now = Some c"
  shows "isProviderDue (map_of (readAcquisitionSchedule
      (writeAcquisitionSchedule d dir ACQUISITION_STATE_FILE_NAME)) provider) now"
proof -
  have "map_of (readable_schedule d) provider = None"
  proof (rule ccontr)
    assume "map_of (readable_schedule d) provider \<noteq> None"
    then obtain e where "(provider, e) \<in> set d" "readable_entry e"
      by (auto simp: readable_schedule_def dest!: map_of_SomeD)
    moreover have "map_of d provider = Some e"
      using \<open>(provider, e) \<in> set d\<close> assms(1) by (simp add: wf_schedule_def)
    ultimately show False using assms(2,3) by (simp add: readable_entry_def)
  qed
  moreover have "readAcquisitionSchedule (writeAcquisitionSchedule d dir ACQUISITION_STATE_FILE_NAME) = readable_schedule d"
    unfolding writeAcquisitionSchedule_def by (rule schedule_file.read_saved [OF assms(1)])
  ultimately show ?thesis using assms(4) by (simp add: isProviderDue_def)
qed

theorem quota_wait_is_forgotten_witness:
  "isProviderDue (map_of (readAcquisitionSchedule (writeAcquisitionSchedule [(''gemini-cli'', sample_entry)]
      (\<lambda>_. FileError MissingFile) ACQUISITION_STATE_FILE_NAME)) ''gemini-cli'') ''2026-07-01T10:05:00.000Z''"
  by (rule quota_wait_is_forgotten [OF wf_sample_schedule _ _ sample_now, where entry = sample_entry])
     (simp_all add: sample_entry_def)

text \<open>A successful Claude read is next due no later than five minutes on, strictly after the
  read itself, and never past a reset still ahead of it; every instant it may be due at is that
  fifth minute or one of those resets.\<close>

theorem claude_reads_at_reset:
  assumes "nextSuccessInstant httpDate CLAUDE now resets = Inr (Some t)" "dateParse now = Some c"
  shows "\<exists>m. dateParse t = Some m \<and> m = Min (insert (c + 300000) (set (resets_ahead c resets))) \<and>
    c < m \<and> m \<le> c + 300000 \<and> (m = c + 300000 \<or> m \<in> set (resets_ahead c resets))"
proof -
  let ?m = "Min (insert (c + 300000) (set (resets_ahead c resets)))"
  have "toISOString ?m = Inr t"
    using assms by (simp add: nextSuccessInstant_def fold_min_int CLAUDE_ACQUISITION_INTERVAL_SECONDS_def map_sum_def
        split: sum.splits)
  then have "dateParse t = Some ?m" by (rule toISOString_parse)
  moreover have "?m \<in> insert (c + 300000) (set (resets_ahead c resets))" by (rule Min_in) simp_all
  moreover have "\<forall>r \<in> set (resets_ahead c resets). c < r" by (simp add: set_resets_ahead)
  ultimately show ?thesis by (intro exI [of _ ?m]) (auto intro: Min_le)
qed

theorem claude_reads_at_reset_witness:
  "\<exists>m. dateParse ''2026-07-01T10:05:00.000Z'' = Some m \<and>
    m = Min (insert (1782900000000 + 300000) (set (resets_ahead 1782900000000 [None]))) \<and>
    1782900000000 < m \<and> m \<le> 1782900000000 + 300000 \<and>
    (m = 1782900000000 + 300000 \<or> m \<in> set (resets_ahead 1782900000000 [None]))"
proof (rule claude_reads_at_reset [OF _ sample_dates(1)])
  have "iso_text 1782900300000 = ''2026-07-01T10:05:00.000Z''" by (simp add: date_eval)
  then show "nextSuccessInstant dateParse CLAUDE ''2026-07-01T10:00:00.000Z'' [None] =
      Inr (Some ''2026-07-01T10:05:00.000Z'')"
    by (simp add: nextSuccessInstant_def sample_dates resets_ahead_def List.map_filter_simps toISOString_def
        max_time_def CLAUDE_ACQUISITION_INTERVAL_SECONDS_def)
qed

end
