(* ===== verification/Cache.thy ===== *)
theory Cache
  imports Collection Schedule
begin

text \<open>
  The snapshot cache on disk (cache.ts): what a surface reads, what a writer reads, and every
  operation that replaces one of the two snapshot documents. Each writer runs under the state
  lock, so it is one function from the directory to the directory; a rejected write is an error
  and leaves the directory as it was. The lock protocol itself is in \<open>Lock\<close>.
\<close>

section \<open>The state directory and its lock\<close>

text \<open>Which paths are symbolic links is the operating system's answer to \<open>lstat\<close>.\<close>

record state_dir =
  sd_linked :: bool
  sd_link :: "string \<Rightarrow> bool"
  sd_docs :: directory

type_synonym 'a action = "state_dir \<Rightarrow> ('a \<times> state_dir) result"

definition CACHE_FILE_NAME :: string where
  "CACHE_FILE_NAME = ''openlimiter-cache.json''"

definition AUTHORITATIVE_CACHE_FILE_NAME :: string where
  "AUTHORITATIVE_CACHE_FILE_NAME = ''openlimiter-authoritative.json''"

definition CLAUDE_POLL_FILE_NAME :: string where
  "CLAUDE_POLL_FILE_NAME = ''claude-poll.json''"

definition CACHE_LOCK_NAME :: string where
  "CACHE_LOCK_NAME = ''openlimiter.lock''"

definition rejectSymlink :: "bool \<Rightarrow> unit result" where
  "rejectSymlink linked = (if linked then Inl (Error ''State path is a symbolic link'') else Inr ())"

definition withStateLock :: "'a action \<Rightarrow> 'a action" where
  "withStateLock act dir =
     rbind (rejectSymlink (sd_linked dir)) (\<lambda>_.
       rbind (rejectSymlink (sd_link dir CACHE_LOCK_NAME)) (\<lambda>_. act dir))"

definition write_document :: "string \<Rightarrow> js \<Rightarrow> state_dir \<Rightarrow> state_dir result" where
  "write_document f v dir =
     rbind (rejectSymlink (sd_link dir f)) (\<lambda>_. Inr (dir\<lparr>sd_docs := writeFileAtomically f v (sd_docs dir)\<rparr>))"

section \<open>Reading\<close>

definition readClaudePoll :: "state_dir \<Rightarrow> bool" where
  "readClaudePoll dir =
     (case sd_docs dir CLAUDE_POLL_FILE_NAME of
        FileOk v \<Rightarrow> isRecord v \<and> prop_of v ''version'' = int_js 1 \<and> prop_of v ''enabled'' = Bool True
      | FileError _ \<Rightarrow> False)"

definition CACHE_DOCUMENT_VERSION :: int where
  "CACHE_DOCUMENT_VERSION = 3"

definition known_version :: "js \<Rightarrow> bool" where
  "known_version v \<longleftrightarrow> v = Undefined \<or> v = int_js 1 \<or> v = int_js 2 \<or> v = int_js CACHE_DOCUMENT_VERSION"

definition migrateLegacyMeterIdentities :: "js list \<Rightarrow> js \<Rightarrow> js list" where
  "migrateLegacyMeterIdentities rows version =
     (if version = int_js CACHE_DOCUMENT_VERSION then rows
      else filter (\<lambda>v.
        \<not> isRecord v \<or>
        \<not> (version = int_js 2 \<and> prop_of v ''provider'' = Str ''ANTIGRAVITY'') \<and>
        \<not> (prop_of v ''provider'' = Str ''OPENROUTER'' \<and> prop_of v ''meter'' = Str ''CREDITS'')) rows)"

record cache_read =
  cr_snapshots :: "snapshot list"
  cr_dropped :: nat
  cr_suppressed :: nat
  cr_suppressions :: "cache_suppression list"

text \<open>\<open>document.value["snapshots"]\<close> where it is an array.\<close>

definition raw_snapshots :: "js \<Rightarrow> js list option" where
  "raw_snapshots v =
     (if \<not> isRecord v then None
      else case prop_of v ''snapshots'' of Arr rows \<Rightarrow> Some rows | _ \<Rightarrow> None)"

text \<open>The main document is missing: the authoritative one alone is shown.\<close>

definition read_authoritative_only :: "json_file \<Rightarrow> bool \<Rightarrow> read_failure + cache_read" where
  "read_authoritative_only authoritative pollOn =
     (case authoritative of
        FileError e \<Rightarrow> Inl e
      | FileOk v \<Rightarrow>
          (case raw_snapshots v of
             None \<Rightarrow> Inl CorruptFile
           | Some raws \<Rightarrow>
               let rows = normalizeMeters raws in
               Inr \<lparr>cr_snapshots = filter (\<lambda>row. claudeRowCounts row pollOn) (filter isSnapshotDisplayEligible rows),
                    cr_dropped = length raws - length rows, cr_suppressed = 0, cr_suppressions = []\<rparr>))"

definition authoritative_rows :: "json_file \<Rightarrow> bool \<Rightarrow> snapshot list" where
  "authoritative_rows authoritative pollOn =
     (case authoritative of
        FileError _ \<Rightarrow> []
      | FileOk v \<Rightarrow>
          (case raw_snapshots v of
             None \<Rightarrow> []
           | Some raws \<Rightarrow>
               if length raws \<le> MAX_CACHE_ENTRIES
               then filter (\<lambda>row. claudeRowCounts row pollOn) (normalizeMeters raws) else []))"

definition read_main :: "js \<Rightarrow> snapshot list \<Rightarrow> bool \<Rightarrow> read_failure + cache_read" where
  "read_main v authoritativeRows pollOn =
     (case raw_snapshots v of
        None \<Rightarrow> Inl CorruptFile
      | Some raws \<Rightarrow>
          if length raws > MAX_CACHE_ENTRIES then Inl CorruptFile
          else if \<not> known_version (prop_of v ''version'') then Inl CorruptFile
          else
            let mainValidated = normalizeMeters (migrateLegacyMeterIdentities raws (prop_of v ''version''));
                mainCounted = filter (\<lambda>row. claudeRowCounts row pollOn) mainValidated;
                validated = (if authoritativeRows \<noteq> []
                  then mergeSnapshots mainCounted authoritativeRows MAX_CACHE_ENTRIES else mainCounted);
                dropped = length raws - length mainValidated
            in (case readSuppressions (prop_of v ''suppressions'') of
                  None \<Rightarrow> Inr \<lparr>cr_snapshots = [], cr_dropped = dropped, cr_suppressed = length validated,
                               cr_suppressions = []\<rparr>
                | Some suppressions \<Rightarrow>
                    let shown = visibleSnapshots \<lparr>cs_snapshots = validated,
                          cs_suppressions = filter (\<lambda>entry. su_provider entry \<noteq> CLAUDE) suppressions\<rparr>
                    in Inr \<lparr>cr_snapshots = shown, cr_dropped = dropped,
                            cr_suppressed = length validated - length shown, cr_suppressions = suppressions\<rparr>))"

definition readSnapshotCache :: "state_dir \<Rightarrow> bool option \<Rightarrow> read_failure + cache_read" where
  "readSnapshotCache dir selected =
     (if sd_linked dir then Inl UnsafeFile
      else
        let pollOn = (case selected of None \<Rightarrow> readClaudePoll dir | Some b \<Rightarrow> b);
            document = sd_docs dir CACHE_FILE_NAME;
            authoritative = sd_docs dir AUTHORITATIVE_CACHE_FILE_NAME
        in (case document of
              FileError MissingFile \<Rightarrow> read_authoritative_only authoritative pollOn
            | FileError e \<Rightarrow> Inl e
            | FileOk v \<Rightarrow>
                (case authoritative of
                   FileError CorruptFile \<Rightarrow> Inl CorruptFile
                 | FileError UnsafeFile \<Rightarrow> Inl UnsafeFile
                 | _ \<Rightarrow> read_main v (authoritative_rows authoritative pollOn) pollOn)))"

text \<open>The document as stored, for a writer.\<close>

definition read_state_document :: "json_file \<Rightarrow> read_failure + cache_state" where
  "read_state_document document =
     (case document of
        FileError e \<Rightarrow> Inl e
      | FileOk v \<Rightarrow>
          (case raw_snapshots v of
             None \<Rightarrow> Inl CorruptFile
           | Some raws \<Rightarrow>
               if length raws > MAX_CACHE_ENTRIES then Inl CorruptFile
               else if \<not> known_version (prop_of v ''version'') then Inl CorruptFile
               else (case readSuppressions (prop_of v ''suppressions'') of
                       None \<Rightarrow> Inl CorruptFile
                     | Some suppressions \<Rightarrow>
                         Inr \<lparr>cs_snapshots =
                                normalizeMeters (migrateLegacyMeterIdentities raws (prop_of v ''version'')),
                              cs_suppressions = suppressions\<rparr>)))"

definition readCacheState :: "state_dir \<Rightarrow> string \<Rightarrow> read_failure + cache_state" where
  "readCacheState dir fileName =
     (if sd_linked dir then Inl UnsafeFile else read_state_document (sd_docs dir fileName))"

definition empty_state :: cache_state where
  "empty_state = \<lparr>cs_snapshots = [], cs_suppressions = []\<rparr>"

text \<open>\<open>cached.ok ? cached.state : { snapshots: [], suppressions: [] }\<close>\<close>

definition state_or_empty :: "read_failure + cache_state \<Rightarrow> cache_state" where
  "state_or_empty cached = (case cached of Inl _ \<Rightarrow> empty_state | Inr state \<Rightarrow> state)"

section \<open>Writing\<close>

definition rejectOutOfBounds :: "snapshot list \<Rightarrow> unit result" where
  "rejectOutOfBounds snapshots =
     (if length snapshots > MAX_CACHE_ENTRIES \<or> list_ex (\<lambda>s. normalizeMeter (snapshot_js s) = None) snapshots
      then Inl (Error ''Snapshot bounds rejected'') else Inr ())"

definition rows_js :: "snapshot list \<Rightarrow> js" where
  "rows_js rows = Arr (map snapshot_js rows)"

definition state_js :: "cache_state \<Rightarrow> js" where
  "state_js state =
     obj [(''snapshots'', rows_js (cs_snapshots state)),
          (''suppressions'', if cs_suppressions state = [] then Undefined
             else Arr (map suppression_js (cs_suppressions state))),
          (''version'', int_js CACHE_DOCUMENT_VERSION)]"

definition replaceCache :: "cache_state \<Rightarrow> state_dir \<Rightarrow> state_dir result" where
  "replaceCache state dir = write_document CACHE_FILE_NAME (state_js state) dir"

definition writeSnapshotCache :: "snapshot list \<Rightarrow> unit action" where
  "writeSnapshotCache snapshots dir =
     rbind (rejectOutOfBounds snapshots) (\<lambda>_.
       withStateLock (\<lambda>dir. map_sum id (Pair ())
         (replaceCache \<lparr>cs_snapshots = snapshots, cs_suppressions = []\<rparr> dir)) dir)"

text \<open>Whether two states have the same canonical text; suppressions are compared as documents.\<close>

definition same_rows :: "snapshot list \<Rightarrow> snapshot list \<Rightarrow> bool" where
  "same_rows rows rows' \<longleftrightarrow> canonicalJson (rows_js rows) = canonicalJson (rows_js rows')"

definition full_state_js :: "cache_state \<Rightarrow> js" where
  "full_state_js state =
     Obj [(''snapshots'', rows_js (cs_snapshots state)),
          (''suppressions'', Arr (map suppression_js (cs_suppressions state)))]"

definition same_state :: "cache_state \<Rightarrow> cache_state \<Rightarrow> bool" where
  "same_state state state' \<longleftrightarrow> canonicalJson (full_state_js state) = canonicalJson (full_state_js state')"

text \<open>The common end of every writer: nothing to do, a rejection, or the new document.\<close>

definition commit_state :: "bool \<Rightarrow> cache_state \<Rightarrow> bool action" where
  "commit_state unchanged state dir =
     (if unchanged then Inr (False, dir)
      else rbind (rejectOutOfBounds (cs_snapshots state)) (\<lambda>_. map_sum id (Pair True) (replaceCache state dir)))"

record weekly_set =
  ws_provider :: provider_code
  ws_accountId :: "string option"
  ws_observedAt :: string

definition leaves_with_set :: "weekly_set \<Rightarrow> string set \<Rightarrow> snapshot \<Rightarrow> bool" where
  "leaves_with_set weeklySet reported row \<longleftrightarrow>
     sn_provider row = ws_provider weeklySet \<and> sn_accountId row = ws_accountId weeklySet \<and>
     startsWith (sn_meter row) ''SEVEN_DAY'' \<and> snapshotIdentity row \<notin> reported \<and>
     ms_le (dateParse (sn_observedAt row)) (dateParse (ws_observedAt weeklySet))"

definition take_newer :: "(string \<times> snapshot) list \<Rightarrow> snapshot \<Rightarrow> (string \<times> snapshot) list" where
  "take_newer m row =
     (case map_of m (snapshotIdentity row) of
        None \<Rightarrow> AList.update (snapshotIdentity row) row m
      | Some previous \<Rightarrow>
          if ms_le (dateParse (sn_observedAt previous)) (dateParse (sn_observedAt row))
          then AList.update (snapshotIdentity row) row m else m)"

definition latest_observed :: "snapshot list \<Rightarrow> int" where
  "latest_observed rows = fold max (List.map_filter (\<lambda>row. dateParse (sn_observedAt row)) rows) 0"

definition fold_authoritative ::
  "snapshot list \<Rightarrow> snapshot list \<Rightarrow> string option \<Rightarrow> weekly_set option \<Rightarrow> snapshot list" where
  "fold_authoritative cached incoming now weeklySet =
     (let reported = set (map snapshotIdentity incoming);
          existing = filter (\<lambda>row. case weeklySet of
            None \<Rightarrow> True | Some ws \<Rightarrow> \<not> leaves_with_set ws reported row) cached;
          start = foldl (\<lambda>m row. AList.update (snapshotIdentity row) row m) [] existing;
          retentionNow = (case now of None \<Rightarrow> Some (latest_observed incoming) | Some n \<Rightarrow> dateParse n)
      in retainSnapshots (map_values (foldl take_newer start incoming)) retentionNow)"

definition mergeAuthoritativeSnapshotCache ::
  "snapshot list \<Rightarrow> string option \<Rightarrow> weekly_set option \<Rightarrow> snapshot list action" where
  "mergeAuthoritativeSnapshotCache incoming now weeklySet dir =
     rbind (rejectOutOfBounds incoming) (\<lambda>_.
       withStateLock (\<lambda>dir.
         let cached = state_or_empty (readCacheState dir AUTHORITATIVE_CACHE_FILE_NAME);
             rows = fold_authoritative (cs_snapshots cached) incoming now weeklySet
         in rbind (rejectOutOfBounds rows) (\<lambda>_. map_sum id (Pair rows)
              (write_document AUTHORITATIVE_CACHE_FILE_NAME
                (state_js \<lparr>cs_snapshots = rows, cs_suppressions = []\<rparr>) dir))) dir)"

definition mergeSnapshotCache :: "snapshot list \<Rightarrow> int \<Rightarrow> (snapshot list \<times> bool) action" where
  "mergeSnapshotCache incoming now dir =
     rbind (rejectOutOfBounds incoming) (\<lambda>_.
       withStateLock (\<lambda>dir.
         let state = state_or_empty (readCacheState dir CACHE_FILE_NAME);
             merged = retainSnapshots (mergeSnapshots (cs_snapshots state) incoming MAX_CACHE_ENTRIES) (Some now)
         in map_sum id (map_prod (Pair merged) id)
              (commit_state (same_rows merged (cs_snapshots state)) (state\<lparr>cs_snapshots := merged\<rparr>) dir)) dir)"

record merge_counts =
  mc_written :: bool
  mc_taken :: nat
  mc_deferred :: nat

text \<open>The failure flag of the read's own account that the read clears.\<close>

definition own_flag :: "collection_report \<Rightarrow> snapshot \<Rightarrow> bool" where
  "own_flag report row \<longleftrightarrow> sn_provider row = rp_provider report \<and> sn_accountId row = rp_accountId report \<and>
     sn_meter row = ''ACQUISITION'' \<and> sn_availability row \<noteq> None \<and> sn_observedAt row \<le> rp_observedAt report"

text \<open>\<open>new Map(rows.map(...)).get(identity)\<close>: the last row of an identity.\<close>

definition held_row :: "snapshot list \<Rightarrow> string \<Rightarrow> snapshot option" where
  "held_row rows k = map_of (rev (map (\<lambda>row. (snapshotIdentity row, row)) rows)) k"

definition loses :: "snapshot list \<Rightarrow> snapshot \<Rightarrow> bool" where
  "loses rows incoming =
     (case held_row rows (snapshotIdentity incoming) of
        None \<Rightarrow> False
      | Some existing \<Rightarrow> ms_le (dateParse (sn_observedAt incoming)) (dateParse (sn_observedAt existing)))"

definition claude_replaced :: "collection_report \<Rightarrow> snapshot \<Rightarrow> bool" where
  "claude_replaced report row \<longleftrightarrow>
     snapshotBelongsTo row CLAUDE (rp_accountId report) \<and>
     (sn_meter row = ''ACQUISITION'' \<or> source_kind_of row = Some RemoteApi) \<and>
     ms_le (dateParse (sn_observedAt row)) (dateParse (rp_observedAt report)) \<and>
     snapshotIdentity row \<notin> set (map snapshotIdentity (rp_snapshots report))"

definition fold_claude :: "cache_state \<Rightarrow> collection_report \<Rightarrow> snapshot list \<Rightarrow> cache_state" where
  "fold_claude stored report taken =
     \<lparr>cs_snapshots = retainSnapshots
        (mergeSnapshots (filter (\<lambda>row. \<not> claude_replaced report row) (cs_snapshots stored)) taken MAX_CACHE_ENTRIES)
        (dateParse (rp_observedAt report)),
      cs_suppressions = filter (\<lambda>entry. \<not> (su_provider entry = CLAUDE \<and> su_accountId entry = rp_accountId report \<and>
        ms_lt (dateParse (su_suppressedAt entry)) (dateParse (rp_observedAt report)))) (cs_suppressions stored)\<rparr>"

definition foreign_row :: "collection_report \<Rightarrow> snapshot \<Rightarrow> bool" where
  "foreign_row report row \<longleftrightarrow>
     snapshotBelongsTo row (rp_provider report) (rp_accountId report) \<and> sn_writer row \<noteq> Some Cli \<and>
     snapshotIdentity row \<notin> set (map snapshotIdentity (rp_snapshots report))"

definition fold_acquired :: "cache_state \<Rightarrow> collection_report \<Rightarrow> bool \<times> cache_state" where
  "fold_acquired stored report =
     (let before = stored\<lparr>cs_snapshots := filter (\<lambda>row. \<not> own_flag report row) (cs_snapshots stored)\<rparr>;
          taken = filter (\<lambda>row. \<not> loses (cs_snapshots before) row) (rp_snapshots report)
      in if rp_provider report = CLAUDE
         then let after = fold_claude stored report taken in (same_state after stored, after)
         else if length taken = length (rp_snapshots report) \<and> \<not> list_ex (foreign_row report) (cs_snapshots before)
         then let after = applyCollectionReport before report in (same_state after stored, after)
         else let merged = retainSnapshots (mergeSnapshots (cs_snapshots before) taken MAX_CACHE_ENTRIES)
                    (dateParse (rp_observedAt report))
              in (same_rows merged (cs_snapshots stored), before\<lparr>cs_snapshots := merged\<rparr>))"

definition acquired_rows :: "cache_state \<Rightarrow> collection_report \<Rightarrow> snapshot list" where
  "acquired_rows stored report =
     filter (\<lambda>row. \<not> loses (filter (\<lambda>row. \<not> own_flag report row) (cs_snapshots stored)) row) (rp_snapshots report)"

text \<open>The report is a successful one here and in \<open>persistAcquiredReport\<close>.\<close>

definition mergeAcquiredSnapshots :: "collection_report \<Rightarrow> merge_counts action" where
  "mergeAcquiredSnapshots report dir =
     rbind (rejectOutOfBounds (rp_snapshots report)) (\<lambda>_.
       withStateLock (\<lambda>dir.
         let stored = state_or_empty (readCacheState dir CACHE_FILE_NAME);
             taken = length (acquired_rows stored report);
             (unchanged, after) = fold_acquired stored report
         in map_sum id (map_prod (\<lambda>written. \<lparr>mc_written = written, mc_taken = taken,
                mc_deferred = length (rp_snapshots report) - taken\<rparr>) id)
              (commit_state unchanged after dir)) dir)"

definition poll_row :: "snapshot \<Rightarrow> bool" where
  "poll_row row \<longleftrightarrow> sn_provider row = CLAUDE \<and>
     (sn_meter row = ''FIVE_HOUR'' \<or> startsWith (sn_meter row) ''SEVEN_DAY'')"

definition persistAcquiredReport :: "collection_report \<Rightarrow> string option \<Rightarrow> merge_counts action" where
  "persistAcquiredReport report now dir =
     (let now' = (case now of None \<Rightarrow> rp_observedAt report | Some n \<Rightarrow> n);
          rest = ReportOk (rp_provider report) (rp_accountId report) (rp_observedAt report)
            (filter (\<lambda>row. \<not> poll_row row) (rp_snapshots report)) (rp_complete report);
          first = (if rp_provider report = CLAUDE
            then map_sum id snd (mergeAuthoritativeSnapshotCache (filter poll_row (rp_snapshots report)) (Some now')
              (if rp_complete report = Some True
               then Some \<lparr>ws_provider = CLAUDE, ws_accountId = rp_accountId report, ws_observedAt = rp_observedAt report\<rparr>
               else None) dir)
            else Inr dir)
      in rbind first (mergeAcquiredSnapshots rest))"

definition applyCollectionReportToCache :: "collection_report \<Rightarrow> (cache_state \<times> bool) action" where
  "applyCollectionReportToCache report dir =
     rbind (case report of ReportOk _ _ _ snapshots _ \<Rightarrow> rejectOutOfBounds snapshots | ReportFailed _ _ _ _ \<Rightarrow> Inr ())
       (\<lambda>_. withStateLock (\<lambda>dir.
         let before = state_or_empty (readCacheState dir CACHE_FILE_NAME);
             after = applyCollectionReport before report
         in map_sum id (map_prod (Pair after) id) (commit_state (same_state after before) after dir)) dir)"

definition pruneSnapshotCache :: "int \<Rightarrow> nat action" where
  "pruneSnapshotCache now dir =
     (case readCacheState dir CACHE_FILE_NAME of
        Inl _ \<Rightarrow> Inr (0, dir)
      | Inr _ \<Rightarrow>
          withStateLock (\<lambda>dir.
            case readCacheState dir CACHE_FILE_NAME of
              Inl _ \<Rightarrow> Inr (0, dir)
            | Inr state \<Rightarrow>
                let rows = retainSnapshots (cs_snapshots state) (Some now);
                    count = length (cs_snapshots state) - length rows
                in if count = 0 then Inr (0, dir)
                   else map_sum id (Pair count) (replaceCache (state\<lparr>cs_snapshots := rows\<rparr>) dir)) dir)"







section \<open>Documents read back\<close>

lemma raw_snapshots_obj: "prop_of v ''snapshots'' = Arr rows \<Longrightarrow> raw_snapshots v = Some rows"
  by (cases v) (simp_all add: raw_snapshots_def)

lemma rows_js_clean [simp]: "json_clean (rows_js rows)"
  by (simp add: rows_js_def snapshot_js_clean)

lemma suppression_js_clean [simp]: "json_clean (suppression_js s)"
  unfolding suppression_js_def by (rule json_clean_obj) simp_all

lemma rows_js_neq [simp]: "rows_js rows \<noteq> Undefined"
  by (simp add: rows_js_def)

lemma state_js_clean: "json_clean (state_js state)"
  unfolding state_js_def by (rule json_clean_obj) simp_all

lemma full_state_js_clean: "json_clean (full_state_js state)"
  by (simp add: full_state_js_def)

lemma sortDeep_Arr: "sortDeep (Arr xs) = Arr (map sortDeep xs)"
  by simp

lemma normalizeMeters_sorted:
  "\<forall>s \<in> set rows. wf_snapshot s \<Longrightarrow> normalizeMeters (map (sortDeep \<circ> snapshot_js) rows) = rows"
  by (induction rows)
     (simp_all add: normalizeMeters_def List.map_filter_simps normalizeMeter_sortDeep snapshot_js_clean
       normalizeMeter_snapshot_js)

lemma read_suppression_sorted: "wf_suppression s \<Longrightarrow> read_suppression (sortDeep (suppression_js s)) = Some s"
proof -
  assume "wf_suppression s"
  then have "read_suppression (suppression_js s) = Some s" by (rule read_suppression_js)
  moreover have "(case sortDeep v of Str s \<Rightarrow> f s | _ \<Rightarrow> None) = (case v of Str s \<Rightarrow> f s | _ \<Rightarrow> None)"
    for v and f :: "string \<Rightarrow> string option" by (cases v) simp_all
  moreover have "readAccountId (sortDeep v) = readAccountId v" for v by (cases v) (simp_all add: readAccountId_def)
  ultimately show ?thesis
    by (simp add: read_suppression_def prop_of_sortDeep cong: if_cong)
qed

lemma readSuppressions_sorted:
  "length ss \<le> MAX_CACHE_SUPPRESSIONS \<Longrightarrow> \<forall>s \<in> set ss. wf_suppression s \<Longrightarrow>
     readSuppressions (Arr (map (sortDeep \<circ> suppression_js) ss)) = Some ss"
  by (auto simp: readSuppressions_def those_eq_Some read_suppression_sorted)

text \<open>A state the cache can hold: every row is what \<open>normalizeMeter\<close> accepts, every suppression what
  \<open>readSuppressions\<close> accepts, and both lists are within their bounds.\<close>

definition storable :: "cache_state \<Rightarrow> bool" where
  "storable state \<longleftrightarrow> length (cs_snapshots state) \<le> MAX_CACHE_ENTRIES \<and>
     (\<forall>s \<in> set (cs_snapshots state). wf_snapshot s) \<and>
     length (cs_suppressions state) \<le> MAX_CACHE_SUPPRESSIONS \<and>
     (\<forall>s \<in> set (cs_suppressions state). wf_suppression s)"

lemma prop_of_canonical: "json_clean v \<Longrightarrow> prop_of (canonicalJson v) k = sortDeep (prop_of v k)"
  by (simp add: canonicalJson_clean prop_of_sortDeep)

lemma state_js_props:
  "prop_of (canonicalJson (state_js state)) ''snapshots'' = Arr (map (sortDeep \<circ> snapshot_js) (cs_snapshots state))"
  "prop_of (canonicalJson (state_js state)) ''version'' = int_js CACHE_DOCUMENT_VERSION"
  "prop_of (canonicalJson (state_js state)) ''suppressions'' =
     (if cs_suppressions state = [] then Undefined else Arr (map (sortDeep \<circ> suppression_js) (cs_suppressions state)))"
  by (simp_all add: prop_of_canonical [OF state_js_clean]) (simp_all add: state_js_def rows_js_def int_js_def)

lemma readSuppressions_state_js:
  "length (cs_suppressions state) \<le> MAX_CACHE_SUPPRESSIONS \<Longrightarrow> \<forall>s \<in> set (cs_suppressions state). wf_suppression s \<Longrightarrow>
    readSuppressions (prop_of (canonicalJson (state_js state)) ''suppressions'') = Some (cs_suppressions state)"
  using readSuppressions_sorted [of "cs_suppressions state"]
  by (simp add: state_js_props) (simp add: readSuppressions_def)

lemma read_state_document_written:
  "storable state \<Longrightarrow> read_state_document (FileOk (canonicalJson (state_js state))) = Inr state"
  using readSuppressions_state_js [of state]
  by (simp add: read_state_document_def raw_snapshots_obj [OF state_js_props(1)] state_js_props(2)
      known_version_def migrateLegacyMeterIdentities_def storable_def normalizeMeters_sorted)

interpretation cache_file: stored_document "\<lambda>dir. dir" writeFileAtomically
    CACHE_FILE_NAME storable state_js read_state_document Inr
  by unfold_locales (rule read_state_document_written)

interpretation authoritative_file: stored_document "\<lambda>dir. dir" writeFileAtomically
    AUTHORITATIVE_CACHE_FILE_NAME storable state_js read_state_document Inr
  by unfold_locales (rule read_state_document_written)

lemma length_normalizeMeters: "length (normalizeMeters raws) \<le> length raws"
  by (induction raws) (simp_all add: normalizeMeters_def List.map_filter_simps split: option.split)

lemma readSuppressions_wf:
  assumes "readSuppressions v = Some ss"
  shows "length ss \<le> MAX_CACHE_SUPPRESSIONS \<and> (\<forall>s \<in> set ss. wf_suppression s)"
proof (cases v)
  case (Arr entries)
  with assms have m: "map read_suppression entries = map Some ss" "length entries \<le> MAX_CACHE_SUPPRESSIONS"
    by (auto simp: readSuppressions_def those_eq_Some split: if_splits)
  then have "length ss = length entries" by (metis length_map)
  moreover have "wf_suppression s" if "s \<in> set ss" for s
  proof -
    from that have "Some s \<in> set (map read_suppression entries)" by (simp add: m(1))
    then show ?thesis by (auto dest: sym intro: read_suppression_wf)
  qed
  ultimately show ?thesis using m(2) by simp
qed (use assms in \<open>auto simp: readSuppressions_def\<close>)

lemma read_state_storable: "read_state_document document = Inr state \<Longrightarrow> storable state"
proof -
  assume r: "read_state_document document = Inr state"
  then obtain v raws ss where v: "document = FileOk v" "raw_snapshots v = Some raws" "length raws \<le> MAX_CACHE_ENTRIES"
    "readSuppressions (prop_of v ''suppressions'') = Some ss"
    "state = \<lparr>cs_snapshots = normalizeMeters (migrateLegacyMeterIdentities raws (prop_of v ''version'')),
       cs_suppressions = ss\<rparr>"
    by (auto simp: read_state_document_def split: json_file.splits option.splits if_splits)
  have "length (migrateLegacyMeterIdentities raws (prop_of v ''version'')) \<le> length raws"
    by (simp add: migrateLegacyMeterIdentities_def)
  then have "length (cs_snapshots state) \<le> MAX_CACHE_ENTRIES"
    using v(3,5) length_normalizeMeters order_trans by fastforce
  with v(5) readSuppressions_wf [OF v(4)] show ?thesis by (auto simp: storable_def normalizeMeters_wf)
qed

lemma storable_empty [simp]: "storable empty_state"
  by (simp add: storable_def empty_state_def)

lemma storable_read: "storable (state_or_empty (readCacheState dir f))"
  by (auto simp: state_or_empty_def readCacheState_def split: sum.split intro: read_state_storable)

lemma full_state_js_inject:
  assumes "same_state a b" "storable a" "storable b"
  shows "a = b"
proof -
  have eq: "canonicalJson (full_state_js a) = canonicalJson (full_state_js b)"
    using assms(1) by (simp add: same_state_def)
  have p: "prop_of (canonicalJson (full_state_js s)) ''snapshots'' = Arr (map (sortDeep \<circ> snapshot_js) (cs_snapshots s))"
    "prop_of (canonicalJson (full_state_js s)) ''suppressions'' = Arr (map (sortDeep \<circ> suppression_js) (cs_suppressions s))" for s
    by (simp_all add: prop_of_canonical [OF full_state_js_clean]) (simp_all add: full_state_js_def rows_js_def)
  have "map (sortDeep \<circ> snapshot_js) (cs_snapshots a) = map (sortDeep \<circ> snapshot_js) (cs_snapshots b)"
    using p(1) [of a] p(1) [of b] eq by (metis js.inject(4))
  then have "cs_snapshots a = cs_snapshots b"
    using assms(2,3) normalizeMeters_sorted unfolding storable_def by metis
  moreover have "map (sortDeep \<circ> suppression_js) (cs_suppressions a) = map (sortDeep \<circ> suppression_js) (cs_suppressions b)"
    using p(2) [of a] p(2) [of b] eq by (metis js.inject(4))
  then have "cs_suppressions a = cs_suppressions b"
    using assms(2,3) readSuppressions_sorted unfolding storable_def by (metis option.inject)
  ultimately show ?thesis by simp
qed

lemma same_rows_inject:
  assumes "same_rows xs ys" "\<forall>s \<in> set xs. wf_snapshot s" "\<forall>s \<in> set ys. wf_snapshot s"
  shows "xs = ys"
proof -
  have "map (sortDeep \<circ> snapshot_js) xs = map (sortDeep \<circ> snapshot_js) ys"
    using assms(1) unfolding same_rows_def canonicalJson_clean [OF rows_js_clean]
    by (simp add: rows_js_def del: map_eq_conv)
  then show ?thesis using normalizeMeters_sorted [OF assms(2)] normalizeMeters_sorted [OF assms(3)] by metis
qed

lemma rejectOutOfBounds_Inr:
  "rejectOutOfBounds rows = Inr u \<Longrightarrow> length rows \<le> MAX_CACHE_ENTRIES"
  by (auto simp: rejectOutOfBounds_def split: if_splits)

section \<open>The file refines the state\<close>

text \<open>The abstraction: the state a writer finds in the main document.\<close>

definition cache_of :: "state_dir \<Rightarrow> cache_state" where
  "cache_of dir = state_or_empty (readCacheState dir CACHE_FILE_NAME)"

lemma storable_cache_of [simp]: "storable (cache_of dir)"
  by (simp add: cache_of_def storable_read)

lemma rejectSymlink_Inr: "rejectSymlink l = Inr u \<longleftrightarrow> \<not> l"
  by (simp add: rejectSymlink_def)

lemma withStateLock_Inr:
  "withStateLock act dir = Inr r \<longleftrightarrow> \<not> sd_linked dir \<and> \<not> sd_link dir CACHE_LOCK_NAME \<and> act dir = Inr r"
  by (auto simp: withStateLock_def rbind_Inr_iff rejectSymlink_Inr)

lemma write_document_Inr:
  "write_document f v dir = Inr dir' \<longleftrightarrow>
     \<not> sd_link dir f \<and> dir' = dir\<lparr>sd_docs := writeFileAtomically f v (sd_docs dir)\<rparr>"
  by (auto simp: write_document_def rbind_Inr_iff rejectSymlink_Inr)

lemma cache_of_written:
  assumes "storable state" "\<not> sd_linked dir" "replaceCache state dir = Inr dir'"
  shows "cache_of dir' = state"
    and "sd_docs dir' = (sd_docs dir)(CACHE_FILE_NAME := sd_docs dir' CACHE_FILE_NAME)"
    and "sd_linked dir' = sd_linked dir" "sd_link dir' = sd_link dir"
  using assms cache_file.read_saved [OF assms(1), of "sd_docs dir"]
  by (auto simp: replaceCache_def write_document_Inr cache_of_def readCacheState_def state_or_empty_def
      writeFileAtomically_def)

lemma commit_state_Inr:
  assumes "commit_state unchanged state dir = Inr (written, dir')" "storable state" "\<not> sd_linked dir"
    and "unchanged \<Longrightarrow> state = cache_of dir"
  shows "cache_of dir' = state" "written \<longleftrightarrow> \<not> unchanged"
    and "sd_docs dir' = (sd_docs dir)(CACHE_FILE_NAME := sd_docs dir' CACHE_FILE_NAME)"
    and "sd_linked dir' = sd_linked dir" "sd_link dir' = sd_link dir"
  using assms cache_of_written [OF assms(2,3)]
  by (auto simp: commit_state_def rbind_Inr_iff map_sum_Inr_iff split: if_splits)

text \<open>A report a collector makes: rows as \<open>normalizeMeters\<close> returns them, and an account id of the
  form the cache can hold.\<close>

definition good_report :: "collection_report \<Rightarrow> bool" where
  "good_report report \<longleftrightarrow>
     (case report of ReportOk _ _ _ rows _ \<Rightarrow> \<forall>s \<in> set rows. wf_snapshot s | ReportFailed _ _ _ _ \<Rightarrow> True) \<and>
     (case rp_accountId report of None \<Rightarrow> True | Some a \<Rightarrow> account_id_pattern a)"

lemma retain_storable:
  "storable state \<Longrightarrow> storable (state\<lparr>cs_snapshots := retainSnapshots (cs_snapshots state) now\<rparr>)"
  by (auto simp: storable_def retainSnapshots_def intro: order_trans [OF length_filter_le])

lemma filter_storable:
  "storable state \<Longrightarrow> storable \<lparr>cs_snapshots = filter P (cs_snapshots state), cs_suppressions = filter Q (cs_suppressions state)\<rparr>"
  by (auto simp: storable_def intro: order_trans [OF length_filter_le])

lemma mergeSnapshots_mem: "set (mergeSnapshots existing incoming limit) \<subseteq> set existing \<union> set incoming"
  using merge_exact [of existing incoming limit] by blast

lemma mergeSnapshots_bound: "length (mergeSnapshots existing incoming limit) \<le> limit"
  by (simp add: length_mergeSnapshots)

lemma storable_apply:
  assumes "storable state" "good_report report"
  shows "storable (applyCollectionReport state report)"
proof (cases "dateParse (rp_observedAt report)")
  case None
  then show ?thesis using assms by (simp add: apply_unreadable)
next
  case (Some instant)
  let ?state = "state\<lparr>cs_snapshots := retainSnapshots (cs_snapshots state) (Some instant)\<rparr>"
  have st: "storable ?state" using assms(1) by (rule retain_storable)
  show ?thesis
  proof (cases report)
    case (ReportOk p a o' rows c)
    let ?m = "mergeSnapshots (retained_rows report (cs_snapshots ?state) rows) (newer_rows (cs_snapshots ?state) rows) MAX_CACHE_ENTRIES"
    have "set (retained_rows report (cs_snapshots ?state) rows) \<subseteq> set (cs_snapshots ?state)"
      by (auto simp: retained_rows_def)
    moreover have "set (newer_rows (cs_snapshots ?state) rows) \<subseteq> set rows" by (auto simp: newer_rows_def)
    ultimately have "\<forall>s \<in> set ?m. wf_snapshot s"
      using mergeSnapshots_mem st assms(2) ReportOk unfolding storable_def good_report_def
      by (simp del: select_convs update_convs) blast
    then have "storable \<lparr>cs_snapshots = ?m, cs_suppressions = filter (\<lambda>s. \<not> suppressionMatches s report) (cs_suppressions state)\<rparr>"
      using st mergeSnapshots_bound
      by (auto simp: storable_def intro: order_trans [OF length_filter_le])
    with st ReportOk Some show ?thesis by (simp add: applyCollectionReport_def Let_def)
  next
    case (ReportFailed p a o' r)
    have "wf_suppression \<lparr>su_provider = p, su_accountId = a, su_suppressedAt = o'\<rparr>"
      using assms(2) Some ReportFailed by (simp add: wf_suppression_def good_report_def)
    then have "storable \<lparr>cs_snapshots = filter (\<lambda>s. \<not> belongs report s) (cs_snapshots ?state),
        cs_suppressions = boundSuppressions (filter (\<lambda>e. \<not> suppressionMatches e report) (cs_suppressions ?state) @
          [\<lparr>su_provider = p, su_accountId = a, su_suppressedAt = o'\<rparr>])\<rparr>"
      using st length_boundSuppressions set_boundSuppressions
      by (fastforce simp: storable_def intro: order_trans [OF length_filter_le])
    with st ReportFailed Some show ?thesis
      by (cases "r = Drift") (simp_all add: applyCollectionReport_def Let_def)
  qed
qed

lemma applyCollectionReportToCache_Inr:
  assumes "applyCollectionReportToCache report dir = Inr ((after, written), dir')" "good_report report"
  shows "cache_of dir' = applyCollectionReport (cache_of dir) report" "after = cache_of dir'"
    and "written \<longleftrightarrow> cache_of dir' \<noteq> cache_of dir"
    and "sd_docs dir' = (sd_docs dir)(CACHE_FILE_NAME := sd_docs dir' CACHE_FILE_NAME)"
    and "sd_linked dir' = sd_linked dir" "sd_link dir' = sd_link dir" "\<not> sd_linked dir"
proof -
  let ?before = "cache_of dir"
  let ?after = "applyCollectionReport ?before report"
  have st: "storable ?after" using assms(2) by (simp add: storable_apply)
  have c: "commit_state (same_state ?after ?before) ?after dir = Inr (written, dir')" "after = ?after" "\<not> sd_linked dir"
    using assms(1)
    by (auto simp: applyCollectionReportToCache_def rbind_Inr_iff withStateLock_Inr map_sum_Inr_iff Let_def
        cache_of_def)
  have same: "same_state ?after ?before \<longleftrightarrow> ?after = ?before"
    using full_state_js_inject [OF _ st storable_cache_of] by (auto simp: same_state_def)
  note r = commit_state_Inr [OF c(1) st c(3)]
  show "cache_of dir' = ?after" using r(1) same by simp
  then show "after = cache_of dir'" "written \<longleftrightarrow> cache_of dir' \<noteq> ?before" using c(2) r(2) same by simp_all
  show "sd_docs dir' = (sd_docs dir)(CACHE_FILE_NAME := sd_docs dir' CACHE_FILE_NAME)"
    "sd_linked dir' = sd_linked dir" "sd_link dir' = sd_link dir" "\<not> sd_linked dir"
    using r(3-5) same c(3) by simp_all
qed

text \<open>C1: the file operation refines the pure one: whenever it succeeds, the state in the main
  document afterwards is \<open>applyCollectionReport\<close> of the state before it, that state is returned,
  the document is written exactly when the state changed, and no other document is touched.\<close>

theorem report_to_cache_refines:
  assumes "applyCollectionReportToCache report dir = Inr ((after, written), dir')" "good_report report"
  shows "cache_of dir' = applyCollectionReport (cache_of dir) report \<and> after = cache_of dir' \<and>
    (written \<longleftrightarrow> cache_of dir' \<noteq> cache_of dir) \<and>
    sd_docs dir' = (sd_docs dir)(CACHE_FILE_NAME := sd_docs dir' CACHE_FILE_NAME)"
  using applyCollectionReportToCache_Inr [OF assms] by blast

definition empty_dir :: state_dir where
  "empty_dir = \<lparr>sd_linked = False, sd_link = (\<lambda>_. False), sd_docs = (\<lambda>_. FileError MissingFile)\<rparr>"

definition sample_ok :: collection_report where
  "sample_ok = ReportOk GROK None ''2026-07-01T10:00:00.000Z'' [sample_row] None"

lemma good_sample_ok: "good_report sample_ok"
  by (simp add: good_report_def sample_ok_def wf_sample_row)

lemma empty_dir_cache: "cache_of empty_dir = empty_state"
  by (simp add: cache_of_def readCacheState_def empty_dir_def read_state_document_def state_or_empty_def)

lemma sample_applied:
  "applyCollectionReport empty_state sample_ok = \<lparr>cs_snapshots = [sample_row], cs_suppressions = []\<rparr>"
proof -
  have "mergeSnapshots [] [sample_row] MAX_CACHE_ENTRIES = [sample_row]"
    by (simp add: mergeSnapshots_def MAX_CACHE_ENTRIES_def merged_rows_def byIdentity_def set_incoming_def
        isClaudePayloadWeekly_def sample_row_fields map_values_def scopedClaudeCoversFallback_def
        isClaudeStatuslineFallback_def)
  then show ?thesis
    by (simp add: applyCollectionReport_def sample_ok_def sample_dates empty_state_def Let_def retainSnapshots_def
        retained_rows_def newer_rows_def isClaudePayloadWeekly_def sample_row_fields)
qed

lemma rejectOutOfBounds_wf:
  "length rows \<le> MAX_CACHE_ENTRIES \<Longrightarrow> \<forall>s \<in> set rows. wf_snapshot s \<Longrightarrow> rejectOutOfBounds rows = Inr ()"
  by (auto simp: rejectOutOfBounds_def list_ex_iff normalizeMeter_snapshot_js)

definition sample_dir :: state_dir where
  "sample_dir = empty_dir\<lparr>sd_docs := writeFileAtomically CACHE_FILE_NAME
     (state_js \<lparr>cs_snapshots = [sample_row], cs_suppressions = []\<rparr>) (sd_docs empty_dir)\<rparr>"

lemma sample_committed:
  "applyCollectionReportToCache sample_ok empty_dir =
     Inr ((\<lparr>cs_snapshots = [sample_row], cs_suppressions = []\<rparr>, True), sample_dir)"
proof -
  have "rejectOutOfBounds [sample_row] = Inr ()"
    by (rule rejectOutOfBounds_wf) (simp_all add: MAX_CACHE_ENTRIES_def wf_sample_row)
  moreover have "storable \<lparr>cs_snapshots = [sample_row], cs_suppressions = []\<rparr>"
    by (simp add: storable_def MAX_CACHE_ENTRIES_def wf_sample_row)
  then have "\<not> same_state \<lparr>cs_snapshots = [sample_row], cs_suppressions = []\<rparr> empty_state"
    using full_state_js_inject storable_empty by (fastforce simp: empty_state_def)
  ultimately show ?thesis
    using sample_applied empty_dir_cache
    by (simp add: applyCollectionReportToCache_def sample_ok_def cache_of_def withStateLock_def rejectSymlink_def
        empty_dir_def commit_state_def replaceCache_def write_document_def sample_dir_def Let_def)
qed

theorem report_to_cache_refines_witness:
  "cache_of sample_dir = applyCollectionReport (cache_of empty_dir) sample_ok \<and>
    \<lparr>cs_snapshots = [sample_row], cs_suppressions = []\<rparr> = cache_of sample_dir \<and>
    (True \<longleftrightarrow> cache_of sample_dir \<noteq> cache_of empty_dir) \<and>
    sd_docs sample_dir = (sd_docs empty_dir)(CACHE_FILE_NAME := sd_docs sample_dir CACHE_FILE_NAME)"
  by (rule report_to_cache_refines [OF sample_committed good_sample_ok])

section \<open>What a surface reads\<close>

definition poll_switch :: "state_dir \<Rightarrow> bool option \<Rightarrow> bool" where
  "poll_switch dir selected = (case selected of None \<Rightarrow> readClaudePoll dir | Some b \<Rightarrow> b)"

lemma readSnapshotCache_cases:
  assumes "readSnapshotCache dir selected = Inr r"
  obtains
    (authoritative) "sd_docs dir CACHE_FILE_NAME = FileError MissingFile"
      "read_authoritative_only (sd_docs dir AUTHORITATIVE_CACHE_FILE_NAME) (poll_switch dir selected) = Inr r"
  | (main) v where "sd_docs dir CACHE_FILE_NAME = FileOk v"
      "read_main v (authoritative_rows (sd_docs dir AUTHORITATIVE_CACHE_FILE_NAME) (poll_switch dir selected))
         (poll_switch dir selected) = Inr r"
  using assms
  by (auto simp: readSnapshotCache_def Let_def poll_switch_def split: if_splits json_file.splits read_failure.splits)

lemma authoritative_rows_mem:
  "s \<in> set (authoritative_rows document pollOn) \<Longrightarrow> wf_snapshot s \<and> claudeRowCounts s pollOn"
  by (auto simp: authoritative_rows_def normalizeMeters_wf split: json_file.splits option.splits if_splits)

lemma read_main_Inr:
  assumes "read_main v rows pollOn = Inr r"
  obtains
    (unreadable) "readSuppressions (prop_of v ''suppressions'') = None" "cr_snapshots r = []" "cr_suppressions r = []"
  | (shown) validated where "readSuppressions (prop_of v ''suppressions'') = Some (cr_suppressions r)"
      "cr_snapshots r = visibleSnapshots \<lparr>cs_snapshots = validated,
         cs_suppressions = filter (\<lambda>entry. su_provider entry \<noteq> CLAUDE) (cr_suppressions r)\<rparr>"
      "set validated \<subseteq> {s. wf_snapshot s \<and> claudeRowCounts s pollOn} \<union> set rows"
proof -
  from assms obtain raws where raws: "raw_snapshots v = Some raws" "\<not> length raws > MAX_CACHE_ENTRIES"
      "known_version (prop_of v ''version'')"
    by (auto simp: read_main_def split: option.splits if_splits)
  let ?counted = "filter (\<lambda>row. claudeRowCounts row pollOn)
    (normalizeMeters (migrateLegacyMeterIdentities raws (prop_of v ''version'')))"
  let ?validated = "if rows \<noteq> [] then mergeSnapshots ?counted rows MAX_CACHE_ENTRIES else ?counted"
  have "set ?counted \<subseteq> {s. wf_snapshot s \<and> claudeRowCounts s pollOn}" by (auto intro: normalizeMeters_wf)
  moreover have "set ?validated \<subseteq> set ?counted \<union> set rows"
    using mergeSnapshots_mem [of ?counted rows MAX_CACHE_ENTRIES] by (cases "rows = []") auto
  ultimately have "set ?validated \<subseteq> {s. wf_snapshot s \<and> claudeRowCounts s pollOn} \<union> set rows" by blast
  with assms raws that show ?thesis
    by (cases "readSuppressions (prop_of v ''suppressions'')") (auto simp: read_main_def Let_def)
qed

text \<open>C10: every row a surface is given is a valid snapshot, may be displayed, counts under the Claude
  switch of that read, and is covered by no standing suppression of a provider other than Claude
  (a suppression of Claude, whose failures are flags, hides nothing). Rows are
  given only when the main document is absent or its suppression list was read whole: a list
  that cannot be believed shows nothing.\<close>

theorem cache_shows_only_valid:
  assumes "readSnapshotCache dir selected = Inr r" "s \<in> set (cr_snapshots r)"
  shows "wf_snapshot s \<and> isSnapshotDisplayEligible s \<and> claudeRowCounts s (poll_switch dir selected) \<and>
    (\<forall>su \<in> set (cr_suppressions r). su_provider su \<noteq> CLAUDE \<longrightarrow> \<not> suppressed_by s su) \<and>
    (case sd_docs dir CACHE_FILE_NAME of
       FileError e \<Rightarrow> e = MissingFile
     | FileOk v \<Rightarrow> readSuppressions (prop_of v ''suppressions'') = Some (cr_suppressions r))"
  using assms(1)
proof (cases rule: readSnapshotCache_cases)
  case authoritative
  then show ?thesis using assms(2)
    by (auto simp: read_authoritative_only_def Let_def normalizeMeters_wf split: json_file.splits option.splits)
next
  case (main v)
  from main(2) show ?thesis
  proof (cases rule: read_main_Inr)
    case unreadable
    then show ?thesis using assms(2) by simp
  next
    case (shown validated)
    with assms(2) main(1) show ?thesis
      using authoritative_rows_mem [of s "sd_docs dir AUTHORITATIVE_CACHE_FILE_NAME" "poll_switch dir selected"]
      by (auto simp: set_visibleSnapshots)
  qed
qed

lemma sample_dir_docs:
  "sd_docs sample_dir CACHE_FILE_NAME =
     FileOk (canonicalJson (state_js \<lparr>cs_snapshots = [sample_row], cs_suppressions = []\<rparr>))"
  "sd_docs sample_dir AUTHORITATIVE_CACHE_FILE_NAME = FileError MissingFile"
  by (simp_all add: sample_dir_def)
     (simp add: writeFileAtomically_def CACHE_FILE_NAME_def AUTHORITATIVE_CACHE_FILE_NAME_def empty_dir_def)

lemma sample_row_shown: "claudeRowCounts sample_row False" "isSnapshotDisplayEligible sample_row"
  by (simp_all add: claudeRowCounts_def isSnapshotDisplayEligible_def sample_row_fields)

lemma sample_read:
  "readSnapshotCache sample_dir (Some False) =
     Inr \<lparr>cr_snapshots = [sample_row], cr_dropped = 0, cr_suppressed = 0, cr_suppressions = []\<rparr>"
proof -
  let ?st = "\<lparr>cs_snapshots = [sample_row], cs_suppressions = []\<rparr>"
  have "normalizeMeters [sortDeep (snapshot_js sample_row)] = [sample_row]"
    using normalizeMeters_sorted [of "[sample_row]"] wf_sample_row by (simp add: comp_def)
  then show ?thesis
    using raw_snapshots_obj [OF state_js_props(1) [of ?st]] state_js_props(2,3) [of ?st]
    by (simp add: readSnapshotCache_def sample_dir_docs read_main_def authoritative_rows_def MAX_CACHE_ENTRIES_def
        known_version_def migrateLegacyMeterIdentities_def readSuppressions_def visibleSnapshots_def sample_row_shown)
       (simp add: sample_dir_def empty_dir_def)
qed

theorem cache_shows_only_valid_witness:
  "wf_snapshot sample_row \<and> claudeRowCounts sample_row (poll_switch sample_dir (Some False))"
  using cache_shows_only_valid [OF sample_read, of sample_row] by simp

section \<open>A drift on disk\<close>

primrec run_reports :: "collection_report list \<Rightarrow> state_dir \<Rightarrow> state_dir result" where
  "run_reports [] dir = Inr dir"
| "run_reports (report # reports) dir =
     rbind (applyCollectionReportToCache report dir) (\<lambda>(_, dir'). run_reports reports dir')"

lemma run_reports_refines:
  "run_reports reports dir = Inr dir' \<Longrightarrow> \<forall>report \<in> set reports. good_report report \<Longrightarrow>
     cache_of dir' = apply_reports (cache_of dir) reports \<and> sd_linked dir' = sd_linked dir"
proof (induction reports arbitrary: dir)
  case (Cons report reports)
  then obtain after written dir1 where d: "applyCollectionReportToCache report dir = Inr ((after, written), dir1)"
    "run_reports reports dir1 = Inr dir'"
    by (auto simp: rbind_Inr_iff)
  have "good_report report" using Cons.prems(2) by simp
  note r = applyCollectionReportToCache_Inr [OF d(1) this]
  from Cons.IH [OF d(2)] Cons.prems(2) r(1,5) show ?case by (simp add: apply_reports_def)
qed (simp add: apply_reports_def)

lemma read_state_suppressions:
  "read_state_document document = Inr state \<Longrightarrow>
     \<exists>v. document = FileOk v \<and> readSuppressions (prop_of v ''suppressions'') = Some (cs_suppressions state)"
  by (auto simp: read_state_document_def split: json_file.splits option.splits if_splits)

lemma cache_of_main:
  assumes "readSnapshotCache dir selected = Inr r" "cs_suppressions (cache_of dir) \<noteq> []"
  obtains v where "sd_docs dir CACHE_FILE_NAME = FileOk v"
    "readSuppressions (prop_of v ''suppressions'') = Some (cs_suppressions (cache_of dir))"
proof -
  have l: "\<not> sd_linked dir" using assms(1) by (auto simp: readSnapshotCache_def)
  show ?thesis
  proof (cases "read_state_document (sd_docs dir CACHE_FILE_NAME)")
    case (Inl e)
    with assms(2) l show ?thesis by (simp add: cache_of_def readCacheState_def state_or_empty_def empty_state_def)
  next
    case (Inr state)
    with l have "cache_of dir = state" by (simp add: cache_of_def readCacheState_def state_or_empty_def)
    with read_state_suppressions [OF Inr] that show ?thesis by blast
  qed
qed

text \<open>C4: once a drift of a provider other than Claude is on disk, no sequence of valid reports without a
  success for its identity makes a surface show a row of that account that was not observed after
  the drift, as long as the reports and the suppressions concern at most sixty-four identities, the
  bound of the document: what the pure fold promises survives the write, the read back and the
  filters of the read. Claude is the documented exception, whose failures are flags.\<close>

theorem drift_reaches_the_surface:
  assumes "wf_state (cache_of dir)" "su \<in> set (cs_suppressions (cache_of dir))" "su_provider su \<noteq> CLAUDE"
    and "\<forall>report \<in> set reports. good_report report \<and> \<not> (successful report \<and> report_identity report = su_identity su)"
    and "card (report_identity ` set reports \<union> su_identity ` set (cs_suppressions (cache_of dir))) \<le> MAX_CACHE_SUPPRESSIONS"
    and "run_reports reports dir = Inr dir'" "readSnapshotCache dir' selected = Inr r"
    and "s \<in> set (cr_snapshots r)" "sn_provider s = su_provider su" "sn_accountId s = su_accountId su"
  shows "\<exists>t. dateParse (sn_observedAt s) = Some t \<and> suppressedMilliseconds su < t"
proof -
  have "cache_of dir' = apply_reports (cache_of dir) reports"
    using run_reports_refines [OF assms(6)] assms(4) by blast
  moreover have "protects (cache_of dir) (su_identity su) (suppressedMilliseconds su)"
    using assms(2) by (auto simp: protects_def)
  then have "protects (apply_reports (cache_of dir) reports) (su_identity su) (suppressedMilliseconds su)"
    using protects_reports assms(1,4,5) by blast
  ultimately obtain su' where su': "su' \<in> set (cs_suppressions (cache_of dir'))" "su_identity su' = su_identity su"
    "suppressedMilliseconds su \<le> suppressedMilliseconds su'"
    by (auto simp: protects_def)
  then have "cs_suppressions (cache_of dir') \<noteq> []" by auto
  with assms(7) obtain v where v: "sd_docs dir' CACHE_FILE_NAME = FileOk v"
    "readSuppressions (prop_of v ''suppressions'') = Some (cs_suppressions (cache_of dir'))"
    by (rule cache_of_main)
  have "\<exists>state. s \<in> set (visibleSnapshots state) \<and>
      cs_suppressions state = filter (\<lambda>entry. su_provider entry \<noteq> CLAUDE) (cs_suppressions (cache_of dir'))"
    using assms(7)
  proof (cases rule: readSnapshotCache_cases)
    case authoritative
    with v(1) show ?thesis by simp
  next
    case (main w)
    with v(1) have "w = v" by simp
    from main(2) show ?thesis
    proof (cases rule: read_main_Inr)
      case (shown validated)
      let ?state = "\<lparr>cs_snapshots = validated,
        cs_suppressions = filter (\<lambda>entry. su_provider entry \<noteq> CLAUDE) (cr_suppressions r)\<rparr>"
      have "s \<in> set (visibleSnapshots ?state)" using assms(8) shown(2) by simp
      moreover have "cr_suppressions r = cs_suppressions (cache_of dir')" using shown(1) v(2) \<open>w = v\<close> by simp
      ultimately show ?thesis by (intro exI [of _ ?state]) simp
    qed (use assms(8) in simp)
  qed
  then obtain state where state: "s \<in> set (visibleSnapshots state)"
    "cs_suppressions state = filter (\<lambda>entry. su_provider entry \<noteq> CLAUDE) (cs_suppressions (cache_of dir'))" by blast
  have same: "su_provider su' = su_provider su" "su_accountId su' = su_accountId su"
    using su'(2) by (simp_all add: su_identity_def)
  have "su' \<in> set (cs_suppressions state)" using state(2) su'(1) same(1) assms(3) by simp
  then obtain t where "dateParse (sn_observedAt s) = Some t" "suppressedMilliseconds su' < t"
    using visible_newer [OF state(1)] same assms(9,10) by metis
  with su'(3) show ?thesis by (intro exI [of _ t]) simp
qed

definition drifted_dir :: state_dir where
  "drifted_dir = empty_dir\<lparr>sd_docs := writeFileAtomically CACHE_FILE_NAME (state_js sample_state) (sd_docs empty_dir)\<rparr>"

lemma storable_sample_state: "storable sample_state"
  by (simp add: storable_def sample_state_def wf_sample_row MAX_CACHE_ENTRIES_def MAX_CACHE_SUPPRESSIONS_def
      sample_suppression_def wf_suppression_def nine_oclock)

lemma drifted_dir_cache: "cache_of drifted_dir = sample_state"
  using cache_file.read_saved [OF storable_sample_state, of "sd_docs empty_dir"]
  by (simp add: cache_of_def readCacheState_def drifted_dir_def state_or_empty_def) (simp add: empty_dir_def)

lemma drifted_read:
  "readSnapshotCache drifted_dir (Some False) =
     Inr \<lparr>cr_snapshots = [sample_row], cr_dropped = 0, cr_suppressed = 0, cr_suppressions = [sample_suppression]\<rparr>"
proof -
  have d: "sd_docs drifted_dir CACHE_FILE_NAME = FileOk (canonicalJson (state_js sample_state))"
    "sd_docs drifted_dir AUTHORITATIVE_CACHE_FILE_NAME = FileError MissingFile" "\<not> sd_linked drifted_dir"
    by (simp_all add: drifted_dir_def)
       (simp_all add: writeFileAtomically_def CACHE_FILE_NAME_def AUTHORITATIVE_CACHE_FILE_NAME_def empty_dir_def)
  have rows: "cs_snapshots sample_state = [sample_row]" "cs_suppressions sample_state = [sample_suppression]"
    by (simp_all add: sample_state_def)
  have n: "normalizeMeters [sortDeep (snapshot_js sample_row)] = [sample_row]"
    using normalizeMeters_sorted [of "[sample_row]"] wf_sample_row by (simp add: comp_def)
  have p: "su_provider sample_suppression = GROK" by (simp add: sample_suppression_def)
  have "readSuppressions (prop_of (canonicalJson (state_js sample_state)) ''suppressions'') = Some [sample_suppression]"
    using readSuppressions_state_js [of sample_state] storable_sample_state by (simp add: storable_def rows)
  moreover have "visibleSnapshots \<lparr>cs_snapshots = [sample_row], cs_suppressions = [sample_suppression]\<rparr> = [sample_row]"
    by (simp add: visibleSnapshots_def sample_row_shown suppressed_by_def sample_row_fields snapshotBelongsTo_def
        sample_suppression_def suppressedMilliseconds_def nine_oclock)
  ultimately show ?thesis
    using raw_snapshots_obj [OF state_js_props(1) [of sample_state]] state_js_props(2) [of sample_state]
    by (simp add: readSnapshotCache_def d read_main_def authoritative_rows_def MAX_CACHE_ENTRIES_def rows n p
        known_version_def migrateLegacyMeterIdentities_def sample_row_shown)
qed

theorem drift_reaches_the_surface_witness:
  "\<exists>t. dateParse (sn_observedAt sample_row) = Some t \<and> suppressedMilliseconds sample_suppression < t"
proof (rule drift_reaches_the_surface [of drifted_dir sample_suppression "[]" drifted_dir])
  show "readSnapshotCache drifted_dir (Some False) =
     Inr \<lparr>cr_snapshots = [sample_row], cr_dropped = 0, cr_suppressed = 0, cr_suppressions = [sample_suppression]\<rparr>"
    by (rule drifted_read)
qed (simp_all add: drifted_dir_cache wf_sample_state sample_state_def sample_suppression_def sample_row_fields
    MAX_CACHE_SUPPRESSIONS_def MAX_CACHE_ENTRIES_def wf_sample_state [unfolded sample_state_def sample_suppression_def])

section \<open>An acquired report never loses a newer row\<close>

lemma length_update_le: "length (AList.update k v m) \<le> Suc (length m)"
  by (induction m) auto

lemma length_foldl_le:
  "(\<And>m x. length (f m x) \<le> Suc (length m)) \<Longrightarrow> length (foldl f m xs) \<le> length m + length xs"
proof (induction xs arbitrary: m)
  case (Cons x xs)
  have "length (foldl f (f m x) xs) \<le> length (f m x) + length xs" by (rule Cons.IH [OF Cons.prems])
  also have "\<dots> \<le> Suc (length m) + length xs" using Cons.prems by simp
  finally show ?case by simp
qed simp

lemma length_merged_rows: "length (merged_rows existing incoming) \<le> length existing + length incoming"
proof -
  have e: "length (set_existing m x) \<le> Suc (length m)" for m x
    using length_update_le [of _ _ m] by (simp add: set_existing_def)
  have i: "length (set_incoming m x) \<le> Suc (length m)" for m x
    using length_update_le [of _ _ m] by (auto simp: set_incoming_def le_SucI split: option.split)
  have "length (byIdentity existing incoming) \<le> length (foldl set_existing [] existing) + length incoming"
    unfolding byIdentity_def by (rule length_foldl_le [where f = set_incoming, OF i])
  also have "\<dots> \<le> length existing + length incoming" using length_foldl_le [where f = set_existing and m = "[]" and xs = existing, OF e] by simp
  finally have "length (byIdentity existing incoming) \<le> length existing + length incoming" .
  then show ?thesis
    by (simp add: merged_rows_def Let_def map_values_def) (meson length_filter_le order_trans length_map le_trans)
qed

text \<open>A row that is no status line payload.\<close>

definition acquired :: "snapshot \<Rightarrow> bool" where
  "acquired s \<longleftrightarrow> source_kind_of s \<noteq> Some StatuslinePayload"

lemma acquired_rules:
  assumes "acquired s"
  shows "\<not> isClaudePayloadWeekly s" "\<not> isClaudeStatuslineFallback s"
  using assms by (auto simp: acquired_def isClaudePayloadWeekly_def isClaudeStatuslineFallback_def source_kind_of_def
      split: option.splits)

lemma rows_of_distinct:
  "distinct (map snapshotIdentity rows) \<Longrightarrow> s \<in> set rows \<Longrightarrow> \<not> isClaudePayloadWeekly s \<Longrightarrow>
     rows_of (snapshotIdentity s) rows = [s]"
proof (induction rows)
  case (Cons t rows)
  show ?case
  proof (cases "s = t")
    case True
    with Cons.prems have "snapshotIdentity s \<notin> snapshotIdentity ` set rows" by simp
    then have "rows_of (snapshotIdentity s) rows = []"
      by (auto simp: rows_of_def filter_empty_conv image_iff)
    with True Cons.prems show ?thesis by (simp add: rows_of_def)
  next
    case False
    with Cons.prems have "snapshotIdentity t \<noteq> snapshotIdentity s" by force
    with False Cons show ?thesis by (simp add: rows_of_def)
  qed
qed simp

lemma newest_identity:
  "\<forall>t \<in> set ts. snapshotIdentity t = snapshotIdentity best \<Longrightarrow> snapshotIdentity (newest best ts) = snapshotIdentity best"
  using newest_mem [of best ts] by auto

text \<open>A merge with room keeps an identity, at a row at least as new.\<close>

lemma merge_keeps_identity:
  assumes "distinct (map snapshotIdentity existing)" "s \<in> set existing" "acquired s"
    and "\<forall>i \<in> set incoming. acquired i" "length existing + length incoming \<le> limit"
  shows "\<exists>s' \<in> set (mergeSnapshots existing incoming limit).
    snapshotIdentity s' = snapshotIdentity s \<and> observedMilliseconds s \<le> observedMilliseconds s' \<and>
    s' \<in> insert s (set incoming)"
proof -
  let ?k = "snapshotIdentity s" and ?s' = "newest s (rows_of (snapshotIdentity s) incoming)"
  have "rows_of ?k existing = [s]" using assms(1-3) acquired_rules by (intro rows_of_distinct)
  then have m: "merged_row existing incoming ?k = Some ?s'" by (simp add: merged_row_def)
  have mem: "?s' \<in> insert s (set incoming)" using newest_mem [of s] by (force simp: rows_of_def)
  have id: "snapshotIdentity ?s' = ?k" by (rule newest_identity) (auto simp: rows_of_def)
  have "acquired ?s'" using mem assms(3,4) by auto
  then have "\<not> covered existing incoming ?s'"
    using acquired_rules by (simp add: covered_def scopedClaudeCoversFallback_def)
  then have "?s' \<in> set (merged_rows existing incoming)" using m id by (simp add: set_merged_rows)
  moreover have "length (merged_rows existing incoming) \<le> limit"
    using length_merged_rows assms(5) order_trans by blast
  ultimately have "?s' \<in> set (mergeSnapshots existing incoming limit)" by (simp add: set_mergeSnapshots_fits)
  moreover have "observedMilliseconds s \<le> observedMilliseconds ?s'" by (rule newest_ge) simp
  ultimately show ?thesis using id mem by blast
qed

lemma observed_parse: "wf_snapshot s \<Longrightarrow> dateParse (sn_observedAt s) = Some (observedMilliseconds s)"
  by (auto simp: wf_snapshot_def wf_instants_def observedMilliseconds_def ms_le_iff)

definition kept_by :: "snapshot \<Rightarrow> snapshot list \<Rightarrow> bool" where
  "kept_by s rows \<longleftrightarrow>
     (\<exists>s' \<in> set rows. snapshotIdentity s' = snapshotIdentity s \<and> observedMilliseconds s \<le> observedMilliseconds s')"

lemma retained_merge_keeps:
  assumes "distinct (map snapshotIdentity existing)" "s \<in> set existing" "acquired s"
    and "\<forall>i \<in> set incoming. acquired i" "length existing + length incoming \<le> MAX_CACHE_ENTRIES"
    and "\<forall>i \<in> insert s (set incoming). wf_snapshot i" "readAt \<le> observedMilliseconds s"
  shows "kept_by s (retainSnapshots (mergeSnapshots existing incoming MAX_CACHE_ENTRIES) (Some readAt))"
    and "kept_by s (mergeSnapshots existing incoming MAX_CACHE_ENTRIES)"
proof -
  obtain s' where s': "s' \<in> set (mergeSnapshots existing incoming MAX_CACHE_ENTRIES)"
    "snapshotIdentity s' = snapshotIdentity s" "observedMilliseconds s \<le> observedMilliseconds s'"
    "s' \<in> insert s (set incoming)"
    using merge_keeps_identity [OF assms(1-5)] by blast
  then show "kept_by s (mergeSnapshots existing incoming MAX_CACHE_ENTRIES)" by (auto simp: kept_by_def)
  have "dateParse (sn_observedAt s') = Some (observedMilliseconds s')" using s'(4) assms(6) observed_parse by blast
  then have "s' \<in> set (retainSnapshots (mergeSnapshots existing incoming MAX_CACHE_ENTRIES) (Some readAt))"
    using s'(1,3) assms(7) by (simp add: retainSnapshots_def RETENTION_MILLISECONDS_def)
  with s'(2,3) show "kept_by s (retainSnapshots (mergeSnapshots existing incoming MAX_CACHE_ENTRIES) (Some readAt))"
    by (auto simp: kept_by_def)
qed

lemma apply_keeps_newer:
  assumes "distinct (map snapshotIdentity (cs_snapshots state))" "s \<in> set (cs_snapshots state)" "acquired s" "wf_snapshot s"
    and "\<forall>i \<in> set rows. acquired i \<and> wf_snapshot i"
    and "length (cs_snapshots state) + length rows \<le> MAX_CACHE_ENTRIES"
    and "dateParse o' = Some readAt" "readAt \<le> observedMilliseconds s"
    and "belongs (ReportOk p a o' rows c) s \<longrightarrow> snapshotIdentity s \<in> set (map snapshotIdentity rows)"
  shows "kept_by s (cs_snapshots (applyCollectionReport state (ReportOk p a o' rows c)))"
proof -
  let ?r = "ReportOk p a o' rows c" and ?held = "retainSnapshots (cs_snapshots state) (Some readAt)"
  have held: "s \<in> set ?held" "distinct (map snapshotIdentity ?held)"
    using assms(1,2,8) observed_parse [OF assms(4)]
    by (simp_all add: retainSnapshots_def RETENTION_MILLISECONDS_def distinct_map_filter)
  have ret: "s \<in> set (retained_rows ?r ?held rows)"
    using held(1) assms(9) by (auto simp: retained_rows_def list_ex_iff)
  have "distinct (map snapshotIdentity (retained_rows ?r ?held rows))"
    using held(2) by (simp add: retained_rows_def distinct_map_filter)
  moreover have "length (retained_rows ?r ?held rows) \<le> length (cs_snapshots state)"
    by (auto simp: retained_rows_def retainSnapshots_def intro: order_trans [OF length_filter_le])
  moreover have "length (newer_rows ?held rows) \<le> length rows"
    by (auto simp: newer_rows_def intro: order_trans [OF length_filter_le])
  moreover have "set (newer_rows ?held rows) \<subseteq> set rows" by (auto simp: newer_rows_def)
  ultimately have "kept_by s (mergeSnapshots (retained_rows ?r ?held rows) (newer_rows ?held rows) MAX_CACHE_ENTRIES)"
    using ret assms(3-6,8) by (intro retained_merge_keeps(2) [where readAt = readAt]) auto
  moreover have "kept_by s ?held" using held(1) by (auto simp: kept_by_def)
  ultimately show ?thesis using assms(7) by (simp add: applyCollectionReport_def Let_def)
qed

lemma own_flag_not: "sn_meter s \<noteq> ''ACQUISITION'' \<Longrightarrow> \<not> own_flag report s"
  by (simp add: own_flag_def)

lemma fold_acquired_keeps:
  assumes "storable stored" "distinct (map snapshotIdentity (cs_snapshots stored))"
    and "\<forall>i \<in> set rows. acquired i \<and> wf_snapshot i"
    and "length (cs_snapshots stored) + length rows \<le> MAX_CACHE_ENTRIES"
    and "s \<in> set (cs_snapshots stored)" "acquired s" "sn_writer s \<noteq> Some Cli" "sn_meter s \<noteq> ''ACQUISITION''"
    and "dateParse o' = Some readAt" "readAt < observedMilliseconds s"
  shows "kept_by s (cs_snapshots (snd (fold_acquired stored (ReportOk p a o' rows c))))"
proof -
  let ?r = "ReportOk p a o' rows c"
  let ?before = "filter (\<lambda>row. \<not> own_flag ?r row) (cs_snapshots stored)"
  let ?taken = "filter (\<lambda>row. \<not> loses ?before row) rows"
  have wf: "wf_snapshot s" using assms(1,5) by (simp add: storable_def)
  have before: "s \<in> set ?before" "distinct (map snapshotIdentity ?before)"
    "length ?before \<le> length (cs_snapshots stored)"
    using assms(2,5,8) own_flag_not by (simp_all add: distinct_map_filter)
  have taken: "set ?taken \<subseteq> set rows" "length ?taken \<le> length rows" by auto
  show ?thesis
  proof (cases "p = CLAUDE")
    case True
    let ?kept = "filter (\<lambda>row. \<not> claude_replaced ?r row) (cs_snapshots stored)"
    have "s \<in> set ?kept"
      using assms(5,9,10) observed_parse [OF wf] by (simp add: claude_replaced_def)
    moreover have room: "length ?kept + length ?taken \<le> MAX_CACHE_ENTRIES"
      by (rule order_trans [OF add_mono [OF length_filter_le length_filter_le] assms(4)])
    moreover have "distinct (map snapshotIdentity ?kept)" using assms(2) by (simp add: distinct_map_filter)
    ultimately have "kept_by s (retainSnapshots (mergeSnapshots ?kept ?taken MAX_CACHE_ENTRIES) (Some readAt))"
      using assms(3,6,10) wf taken by (intro retained_merge_keeps(1) [OF _ _ _ _ room]) auto
    with True assms(9) show ?thesis by (simp add: fold_acquired_def fold_claude_def Let_def)
  next
    case False
    have "kept_by s (cs_snapshots (applyCollectionReport (stored\<lparr>cs_snapshots := ?before\<rparr>) ?r))"
      if "\<not> list_ex (foreign_row ?r) ?before"
    proof (rule apply_keeps_newer [OF _ _ assms(6) wf assms(3) _ assms(9)])
      show "belongs ?r s \<longrightarrow> snapshotIdentity s \<in> set (map snapshotIdentity rows)"
        using that before(1) assms(7) by (auto simp: list_ex_iff foreign_row_def belongs_def)
      show "length (cs_snapshots (stored\<lparr>cs_snapshots := ?before\<rparr>)) + length rows \<le> MAX_CACHE_ENTRIES"
        using order_trans [OF add_mono [OF length_filter_le order_refl] assms(4)] by simp
    qed (use before(1,2) assms(10) in auto)
    moreover have room: "length ?before + length ?taken \<le> MAX_CACHE_ENTRIES"
      by (rule order_trans [OF add_mono [OF length_filter_le length_filter_le] assms(4)])
    moreover have "kept_by s (retainSnapshots (mergeSnapshots ?before ?taken MAX_CACHE_ENTRIES) (Some readAt))"
      using before(1,2) taken assms(3,6,10) wf by (intro retained_merge_keeps(1) [OF _ _ _ _ room]) auto
    ultimately show ?thesis using False assms(9) by (simp add: fold_acquired_def Let_def)
  qed
qed


lemma mergeAcquiredSnapshots_Inr:
  assumes "mergeAcquiredSnapshots (ReportOk p a o' rows c) dir = Inr (counts, dir')"
    and "\<forall>s \<in> set rows. wf_snapshot s"
    and "case a of None \<Rightarrow> True | Some x \<Rightarrow> account_id_pattern x"
  shows "cs_snapshots (cache_of dir') = cs_snapshots (snd (fold_acquired (cache_of dir) (ReportOk p a o' rows c)))"
    and "mc_taken counts + mc_deferred counts = length rows" "sd_linked dir' = sd_linked dir"
proof -
  let ?r = "ReportOk p a o' rows c" and ?stored = "cache_of dir"
  let ?before = "?stored\<lparr>cs_snapshots := filter (\<lambda>row. \<not> own_flag ?r row) (cs_snapshots ?stored)\<rparr>"
  obtain unchanged after where f: "fold_acquired ?stored ?r = (unchanged, after)" by fastforce
  with assms(1) obtain written where c: "commit_state unchanged after dir = Inr (written, dir')"
    "\<not> sd_linked dir" "mc_taken counts = length (acquired_rows ?stored ?r)"
    "mc_deferred counts = length rows - mc_taken counts"
    by (auto simp: mergeAcquiredSnapshots_def rbind_Inr_iff withStateLock_Inr map_sum_Inr_iff Let_def cache_of_def)
  have st: "storable ?stored" "storable ?before"
    using storable_cache_of [of dir] by (auto simp: storable_def intro: order_trans [OF length_filter_le])
  have merged: "storable (x\<lparr>cs_snapshots := retainSnapshots (mergeSnapshots xs ys MAX_CACHE_ENTRIES) n\<rparr>)"
    if "storable x" "set xs \<subseteq> set (cs_snapshots ?stored)" "set ys \<subseteq> set rows" for x xs ys n
  proof -
    have "\<forall>s \<in> set (mergeSnapshots xs ys MAX_CACHE_ENTRIES). wf_snapshot s"
      using mergeSnapshots_mem [of xs ys MAX_CACHE_ENTRIES] that st(1) assms(2) unfolding storable_def by blast
    then have "storable (x\<lparr>cs_snapshots := mergeSnapshots xs ys MAX_CACHE_ENTRIES\<rparr>)"
      using that(1) mergeSnapshots_bound by (simp add: storable_def)
    from retain_storable [OF this, of n] show ?thesis by simp
  qed
  have kept: "storable \<lparr>cs_snapshots = cs_snapshots ?stored, cs_suppressions = filter Q (cs_suppressions ?stored)\<rparr>" for Q
    using filter_storable [OF st(1), of "\<lambda>_. True" Q] by simp
  have "storable after"
    using f merged [OF st(1)] merged [OF st(2)] merged [OF kept] storable_apply [OF st(2), of ?r] assms(2,3)
    by (auto simp: fold_acquired_def fold_claude_def Let_def good_report_def split: if_splits)
  moreover have "cs_snapshots after = cs_snapshots ?stored" if unchanged
    using that f calculation st full_state_js_inject [OF _ calculation st(1)]
      same_rows_inject [of "cs_snapshots after" "cs_snapshots ?stored"]
    by (auto simp: fold_acquired_def Let_def storable_def split: if_splits)
  ultimately show "cs_snapshots (cache_of dir') = cs_snapshots (snd (fold_acquired ?stored ?r))"
    "sd_linked dir' = sd_linked dir"
    using c(1,2) f commit_state_Inr(1,4) [of False after dir written dir']
    by (auto simp: commit_state_def split: if_splits)
  show "mc_taken counts + mc_deferred counts = length rows"
    using c(3,4) by (simp add: acquired_rows_def)
qed

text \<open>C25: folding a successful read into a shared cache with room for its rows and one row per identity
  keeps the newer readings others wrote: an acquired row of the main document that a writer other
  than the CLI observed after the read, and that is not the flag of an acquisition, keeps its
  identity in the document, at a row at least as new, whatever the read reports and whichever
  branch the fold takes. The rows of the read are accounted for, taken or deferred.\<close>

theorem newer_foreign_row_kept:
  assumes "mergeAcquiredSnapshots (ReportOk p a o' rows c) dir = Inr (counts, dir')"
    and "\<forall>i \<in> set rows. acquired i \<and> wf_snapshot i"
    and "case a of None \<Rightarrow> True | Some x \<Rightarrow> account_id_pattern x"
    and "distinct (map snapshotIdentity (cs_snapshots (cache_of dir)))"
    and "length (cs_snapshots (cache_of dir)) + length rows \<le> MAX_CACHE_ENTRIES"
    and "s \<in> set (cs_snapshots (cache_of dir))" "acquired s" "sn_writer s \<noteq> Some Cli" "sn_meter s \<noteq> ''ACQUISITION''"
    and "dateParse o' = Some readAt" "readAt < observedMilliseconds s"
  shows "(\<exists>s' \<in> set (cs_snapshots (cache_of dir')).
      snapshotIdentity s' = snapshotIdentity s \<and> observedMilliseconds s \<le> observedMilliseconds s') \<and>
    mc_taken counts + mc_deferred counts = length rows"
proof -
  have "\<forall>i \<in> set rows. wf_snapshot i" using assms(2) by blast
  note r = mergeAcquiredSnapshots_Inr [OF assms(1) this assms(3)]
  have "kept_by s (cs_snapshots (cache_of dir'))"
    unfolding r(1) by (rule fold_acquired_keeps [OF storable_cache_of assms(4,2,5-11)])
  with r(2) show ?thesis by (simp add: kept_by_def)
qed


definition acquired_row :: snapshot where
  "acquired_row = sample_row\<lparr>sn_writer := Some Desktop\<rparr>"

definition acquired_dir :: state_dir where
  "acquired_dir = empty_dir\<lparr>sd_docs := writeFileAtomically CACHE_FILE_NAME
     (state_js \<lparr>cs_snapshots = [acquired_row], cs_suppressions = []\<rparr>) (sd_docs empty_dir)\<rparr>"

lemma wf_acquired_row: "wf_snapshot acquired_row"
  by (simp add: acquired_row_def sample_row_def wf_simps sample_labels_def sample_dates safeMeter_def is_upper_def)

lemma acquired_dir_cache: "cache_of acquired_dir = \<lparr>cs_snapshots = [acquired_row], cs_suppressions = []\<rparr>"
proof -
  have "storable \<lparr>cs_snapshots = [acquired_row], cs_suppressions = []\<rparr>"
    by (simp add: storable_def wf_acquired_row MAX_CACHE_ENTRIES_def)
  from cache_file.read_saved [OF this, of "sd_docs empty_dir"] show ?thesis
    by (simp add: cache_of_def readCacheState_def acquired_dir_def state_or_empty_def) (simp add: empty_dir_def)
qed

lemma acquired_row_fields:
  "sn_provider acquired_row = GROK" "sn_accountId acquired_row = None" "sn_writer acquired_row = Some Desktop"
  "sn_meter acquired_row = ''WEEKLY''" "dateParse (sn_observedAt acquired_row) = Some 1782900000000"
  "observedMilliseconds acquired_row = 1782900000000" "acquired acquired_row" "sn_availability acquired_row = None"
  by (simp_all add: acquired_row_def sample_row_def sample_dates observedMilliseconds_def acquired_def source_kind_of_def)

text \<open>A read made at nine that reports nothing.\<close>

lemma sample_acquired:
  "mergeAcquiredSnapshots (ReportOk GROK None ''2026-07-01T09:00:00.000Z'' [] None) acquired_dir =
     Inr (\<lparr>mc_written = False, mc_taken = 0, mc_deferred = 0\<rparr>, acquired_dir)"
proof -
  let ?r = "ReportOk GROK None ''2026-07-01T09:00:00.000Z'' [] None"
  have l: "\<not> sd_linked acquired_dir" "\<not> sd_link acquired_dir CACHE_LOCK_NAME"
    by (simp_all add: acquired_dir_def empty_dir_def)
  have own: "\<not> own_flag ?r acquired_row" by (simp add: own_flag_def acquired_row_fields)
  have "foreign_row ?r acquired_row"
    by (simp add: foreign_row_def snapshotBelongsTo_def acquired_row_fields)
  moreover have "retainSnapshots (mergeSnapshots [acquired_row] [] MAX_CACHE_ENTRIES) (Some 1782896400000) = [acquired_row]"
    by (simp add: mergeSnapshots_def MAX_CACHE_ENTRIES_def merged_rows_def byIdentity_def set_existing_def
        isClaudePayloadWeekly_def acquired_row_fields map_values_def scopedClaudeCoversFallback_def
        isClaudeStatuslineFallback_def retainSnapshots_def RETENTION_MILLISECONDS_def)
  ultimately show ?thesis
    using acquired_dir_cache own
    by (simp add: mergeAcquiredSnapshots_def rejectOutOfBounds_def MAX_CACHE_ENTRIES_def withStateLock_def l
        rejectSymlink_def cache_of_def acquired_rows_def fold_acquired_def nine_oclock same_rows_def commit_state_def
        Let_def)
qed

theorem newer_foreign_row_kept_witness:
  "(\<exists>s' \<in> set (cs_snapshots (cache_of acquired_dir)).
      snapshotIdentity s' = snapshotIdentity acquired_row \<and>
      observedMilliseconds acquired_row \<le> observedMilliseconds s') \<and>
    mc_taken \<lparr>mc_written = False, mc_taken = 0, mc_deferred = 0\<rparr> +
      mc_deferred \<lparr>mc_written = False, mc_taken = 0, mc_deferred = 0\<rparr> = length ([] :: snapshot list)"
  by (rule newer_foreign_row_kept [OF sample_acquired, where readAt = 1782896400000])
     (simp_all add: acquired_dir_cache acquired_row_fields nine_oclock MAX_CACHE_ENTRIES_def)

section \<open>The authoritative file\<close>

lemma keyed_start:
  "keyed_by snapshotIdentity m \<Longrightarrow>
     keyed_by snapshotIdentity (foldl (\<lambda>m row. AList.update (snapshotIdentity row) row m) m rows)"
  by (induction rows arbitrary: m) (simp_all add: keyed_by_update)

lemma keyed_take_newer: "keyed_by snapshotIdentity m \<Longrightarrow> keyed_by snapshotIdentity (foldl take_newer m rows)"
  by (induction rows arbitrary: m) (simp_all add: take_newer_def keyed_by_update split: option.split)

lemma find_identity:
  "distinct (map f rows) \<Longrightarrow> find (\<lambda>row. f row = k) rows = Some r \<longleftrightarrow> r \<in> set rows \<and> f r = k"
proof (induction rows)
  case (Cons row rows)
  then show ?case by (auto simp: image_iff)
qed simp

lemma find_identity_None: "find (\<lambda>row. f row = k) rows = None \<longleftrightarrow> k \<notin> f ` set rows"
  by (auto simp: find_None_iff)

lemma lookup_start:
  "distinct (map snapshotIdentity rows) \<Longrightarrow>
     map_of (foldl (\<lambda>m row. AList.update (snapshotIdentity row) row m) m rows) k =
       (case find (\<lambda>row. snapshotIdentity row = k) rows of None \<Rightarrow> map_of m k | Some row \<Rightarrow> Some row)"
proof (induction rows arbitrary: m)
  case (Cons row rows)
  have "find (\<lambda>r. snapshotIdentity r = snapshotIdentity row) rows = None"
    using Cons.prems by (simp add: find_identity_None)
  with Cons show ?case by (auto simp: update_conv' split: option.split)
qed simp

definition newer_of :: "snapshot option \<Rightarrow> snapshot \<Rightarrow> snapshot" where
  "newer_of old row =
     (case old of
        None \<Rightarrow> row
      | Some previous \<Rightarrow> if ms_le (dateParse (sn_observedAt previous)) (dateParse (sn_observedAt row)) then row else previous)"

lemma lookup_take_newer:
  "distinct (map snapshotIdentity rows) \<Longrightarrow>
     map_of (foldl take_newer m rows) k =
       (case find (\<lambda>row. snapshotIdentity row = k) rows of
          None \<Rightarrow> map_of m k | Some row \<Rightarrow> Some (newer_of (map_of m k) row))"
proof (induction rows arbitrary: m)
  case (Cons row rows)
  have "find (\<lambda>r. snapshotIdentity r = snapshotIdentity row) rows = None"
    using Cons.prems by (simp add: find_identity_None)
  moreover have "map_of (take_newer m row) k =
      (if k = snapshotIdentity row then Some (newer_of (map_of m k) row) else map_of m k)"
    by (auto simp: take_newer_def newer_of_def update_conv' split: option.split)
  ultimately show ?case using Cons by (auto split: option.split)
qed simp

lemma fold_authoritative_mem:
  assumes "distinct (map snapshotIdentity existing)" "distinct (map snapshotIdentity incoming)"
    and "\<forall>r \<in> set existing \<union> set incoming. wf_snapshot r"
  shows "s \<in> set (map_values (foldl take_newer
      (foldl (\<lambda>m row. AList.update (snapshotIdentity row) row m) [] existing) incoming)) \<longleftrightarrow>
    s \<in> set incoming \<and> (\<forall>t \<in> set existing. snapshotIdentity t = snapshotIdentity s \<longrightarrow>
      observedMilliseconds t \<le> observedMilliseconds s) \<or>
    s \<in> set existing \<and> (\<forall>i \<in> set incoming. snapshotIdentity i = snapshotIdentity s \<longrightarrow>
      observedMilliseconds i < observedMilliseconds s)"
    (is "s \<in> set (map_values (foldl take_newer ?start incoming)) \<longleftrightarrow> _")
proof -
  let ?k = "snapshotIdentity s"
  let ?old = "find (\<lambda>row. snapshotIdentity row = ?k) existing"
  let ?new = "find (\<lambda>row. snapshotIdentity row = ?k) incoming"
  have "keyed_by snapshotIdentity (foldl take_newer ?start incoming)"
    by (intro keyed_take_newer keyed_start) simp
  then have "s \<in> set (map_values (foldl take_newer ?start incoming)) \<longleftrightarrow>
      map_of (foldl take_newer ?start incoming) ?k = Some s"
    by (rule keyed_by_values)
  also have "\<dots> \<longleftrightarrow> (case ?new of None \<Rightarrow> ?old = Some s | Some row \<Rightarrow> newer_of ?old row = s)"
    by (simp add: lookup_take_newer [OF assms(2)] lookup_start [OF assms(1)] split: option.split)
  also have "\<dots> \<longleftrightarrow> s \<in> set incoming \<and> (\<forall>t \<in> set existing. snapshotIdentity t = ?k \<longrightarrow>
      observedMilliseconds t \<le> observedMilliseconds s) \<or>
    s \<in> set existing \<and> (\<forall>i \<in> set incoming. snapshotIdentity i = ?k \<longrightarrow>
      observedMilliseconds i < observedMilliseconds s)"
  proof (cases ?new)
    case None
    then have "\<forall>i \<in> set incoming. snapshotIdentity i \<noteq> ?k" by (auto simp: find_None_iff)
    with None show ?thesis by (auto simp: find_identity [OF assms(1)])
  next
    case (Some row)
    then have row: "row \<in> set incoming" "snapshotIdentity row = ?k" by (simp_all add: find_identity [OF assms(2)])
    have uniq_new: "i = row" if "i \<in> set incoming" "snapshotIdentity i = ?k" for i
      using that row assms(2) by (metis find_identity option.inject)
    show ?thesis
    proof (cases ?old)
      case None
      then have "\<forall>t \<in> set existing. snapshotIdentity t \<noteq> ?k" by (auto simp: find_None_iff)
      moreover have "s \<in> set incoming \<longleftrightarrow> s = row" using row(1) uniq_new by blast
      ultimately show ?thesis using None Some by (auto simp: newer_of_def)
    next
      case (Some old)
      then have old: "old \<in> set existing" "snapshotIdentity old = ?k" by (simp_all add: find_identity [OF assms(1)])
      have uniq_old: "t = old" if "t \<in> set existing" "snapshotIdentity t = ?k" for t
        using that old assms(1) by (metis find_identity option.inject)
      have "newer_of ?old row = (if observedMilliseconds old \<le> observedMilliseconds row then row else old)"
        using Some row(1) old(1) assms(3) by (simp add: newer_of_def observed_parse)
      moreover have "s \<in> set incoming \<longleftrightarrow> s = row" "s \<in> set existing \<longleftrightarrow> s = old"
        using row(1) old(1) uniq_new uniq_old by blast+
      moreover have "(\<forall>t \<in> set existing. snapshotIdentity t = ?k \<longrightarrow> observedMilliseconds t \<le> observedMilliseconds s) \<longleftrightarrow>
          observedMilliseconds old \<le> observedMilliseconds s"
        "(\<forall>i \<in> set incoming. snapshotIdentity i = ?k \<longrightarrow> observedMilliseconds i < observedMilliseconds s) \<longleftrightarrow>
          observedMilliseconds row < observedMilliseconds s"
        using row old uniq_new uniq_old by blast+
      ultimately show ?thesis using \<open>?new = Some row\<close> Some by (auto simp only: option.case split: if_splits)
    qed
  qed
  finally show ?thesis .
qed

text \<open>What a complete poll leaves in the authoritative file, row by row: a reported row that no newer
  held row of its identity outdates, and a held row that no report of its identity at least as
  new replaces and that does not leave with the weekly set, each while it is at most a week
  old. A weekly of the account the poll did not report leaves; a newer one, another account's
  and every row that is no weekly stay.\<close>

theorem weekly_set_exact:
  assumes "distinct (map snapshotIdentity cached)" "distinct (map snapshotIdentity incoming)"
    and "\<forall>r \<in> set cached \<union> set incoming. wf_snapshot r" "dateParse now = Some n"
  shows "s \<in> set (fold_authoritative cached incoming (Some now) (Some ws)) \<longleftrightarrow>
    n - RETENTION_MILLISECONDS \<le> observedMilliseconds s \<and>
    (s \<in> set incoming \<and> (\<forall>t \<in> set cached. snapshotIdentity t = snapshotIdentity s \<longrightarrow>
       observedMilliseconds t \<le> observedMilliseconds s) \<or>
     s \<in> set cached \<and>
       \<not> (sn_provider s = ws_provider ws \<and> sn_accountId s = ws_accountId ws \<and> startsWith (sn_meter s) ''SEVEN_DAY'' \<and>
          snapshotIdentity s \<notin> snapshotIdentity ` set incoming \<and>
          ms_le (Some (observedMilliseconds s)) (dateParse (ws_observedAt ws))) \<and>
       (\<forall>i \<in> set incoming. snapshotIdentity i = snapshotIdentity s \<longrightarrow>
          observedMilliseconds i < observedMilliseconds s))"
proof -
  let ?reported = "set (map snapshotIdentity incoming)"
  let ?existing = "filter (\<lambda>row. \<not> leaves_with_set ws ?reported row) cached"
  have d: "distinct (map snapshotIdentity ?existing)" using assms(1) by (simp add: distinct_map_filter)
  have wf: "\<forall>r \<in> set ?existing \<union> set incoming. wf_snapshot r" using assms(3) by auto
  have same: "t \<in> set ?existing \<longleftrightarrow> t \<in> set cached" if "snapshotIdentity t \<in> ?reported" for t
    using that by (auto simp: leaves_with_set_def)
  have A: "s \<in> set (fold_authoritative cached incoming (Some now) (Some ws)) \<longleftrightarrow>
      ms_le (Some (n - RETENTION_MILLISECONDS)) (dateParse (sn_observedAt s)) \<and>
      (s \<in> set incoming \<and> (\<forall>t \<in> set ?existing. snapshotIdentity t = snapshotIdentity s \<longrightarrow>
         observedMilliseconds t \<le> observedMilliseconds s) \<or>
       s \<in> set ?existing \<and> (\<forall>i \<in> set incoming. snapshotIdentity i = snapshotIdentity s \<longrightarrow>
         observedMilliseconds i < observedMilliseconds s))"
    using fold_authoritative_mem [OF d assms(2) wf, of s] assms(4)
    by (auto simp: fold_authoritative_def Let_def retainSnapshots_def)
  have B: "s \<in> set incoming \<Longrightarrow>
      (\<forall>t \<in> set ?existing. snapshotIdentity t = snapshotIdentity s \<longrightarrow> observedMilliseconds t \<le> observedMilliseconds s) \<longleftrightarrow>
      (\<forall>t \<in> set cached. snapshotIdentity t = snapshotIdentity s \<longrightarrow> observedMilliseconds t \<le> observedMilliseconds s)"
  proof -
    assume "s \<in> set incoming"
    then have "snapshotIdentity s \<in> ?reported" by simp
    then show ?thesis using same by metis
  qed
  have C: "s \<in> set cached \<union> set incoming \<Longrightarrow> dateParse (sn_observedAt s) = Some (observedMilliseconds s)"
    using assms(3) observed_parse by blast
  have D: "s \<in> set ?existing \<longleftrightarrow> s \<in> set cached \<and>
       \<not> (sn_provider s = ws_provider ws \<and> sn_accountId s = ws_accountId ws \<and> startsWith (sn_meter s) ''SEVEN_DAY'' \<and>
          snapshotIdentity s \<notin> snapshotIdentity ` set incoming \<and>
          ms_le (Some (observedMilliseconds s)) (dateParse (ws_observedAt ws)))"
    using C by (auto simp: leaves_with_set_def)
  show ?thesis
  proof (cases "s \<in> set cached \<union> set incoming")
    case True
    have "ms_le (Some (n - RETENTION_MILLISECONDS)) (dateParse (sn_observedAt s)) \<longleftrightarrow>
        n - RETENTION_MILLISECONDS \<le> observedMilliseconds s" by (simp add: C [OF True])
    with B show ?thesis unfolding A D by blast
  next
    case False
    then have "s \<notin> set cached" "s \<notin> set incoming" by simp_all
    then show ?thesis unfolding A D by blast
  qed
qed

definition weekly_row :: snapshot where
  "weekly_row = sample_row\<lparr>sn_provider := CLAUDE, sn_meter := ''SEVEN_DAY_OPUS''\<rparr>"

lemma wf_weekly_row: "wf_snapshot weekly_row"
  by (simp add: weekly_row_def sample_row_def wf_simps sample_labels_def sample_dates safeMeter_def is_upper_def)

theorem weekly_set_exact_witness:
  "weekly_row \<notin> set (fold_authoritative [weekly_row] [] (Some ''2026-07-01T10:05:00.000Z'')
     (Some \<lparr>ws_provider = CLAUDE, ws_accountId = None, ws_observedAt = ''2026-07-01T10:05:00.000Z''\<rparr>))"
proof -
  have "observedMilliseconds weekly_row = 1782900000000"
    by (simp add: weekly_row_def sample_row_def observedMilliseconds_def sample_dates)
  then show ?thesis
    using weekly_set_exact [of "[weekly_row]" "[]", OF _ _ _ sample_now, of weekly_row
        "\<lparr>ws_provider = CLAUDE, ws_accountId = None, ws_observedAt = ''2026-07-01T10:05:00.000Z''\<rparr>"] wf_weekly_row
    by (simp add: sample_now) (simp add: weekly_row_def sample_row_def startsWith_def)
qed

section \<open>Failure flags\<close>











end
