(* ===== verification/Lock.thy ===== *)
theory Lock
  imports Cache
begin

text \<open>
  The state lock of cache.ts: a directory created by \<open>mkdir\<close>, stamped with its owner, released by
  its token and reclaimed when abandoned. A process is a program counter, and \<open>advance\<close> is the
  next operating system call it makes and \<open>fail_call\<close> that call failing, so any interleaving of
  processes is a sequence of \<open>advance\<close> and \<open>fail_call\<close> steps, clock ticks and crashes. The write of the stamp
  (a temporary file and a rename) and the check of what was moved (a read and a removal of a path
  no other process knows) are one step each. A token (\<open>randomUUID\<close>) is a fresh number. Within one
  process the writers queue (\<open>processLockQueues\<close>), so a process competes for one turn at a time.
\<close>

section \<open>The lock directory\<close>

definition LOCK_STALE_MILLISECONDS :: int where
  "LOCK_STALE_MILLISECONDS = 60000"

record lock_owner =
  lo_pid :: nat
  lo_startedAt :: int
  lo_token :: nat

text \<open>The directory and the owner stamp inside it, absent until it is written.\<close>

record lock_dir =
  lk_mtime :: int
  lk_owner :: "lock_owner option"

definition stale_lock :: "int \<Rightarrow> (nat \<Rightarrow> bool) \<Rightarrow> int \<Rightarrow> lock_owner option \<Rightarrow> bool" where
  "stale_lock now alive mtime owner =
     (case owner of
        None \<Rightarrow> LOCK_STALE_MILLISECONDS \<le> now - mtime
      | Some o' \<Rightarrow> LOCK_STALE_MILLISECONDS \<le> now - lo_startedAt o' \<or> \<not> alive (lo_pid o'))"

text \<open>Whether the directory that was moved away is the one whose owner was read.\<close>

definition still_observed :: "lock_owner option \<Rightarrow> lock_dir \<Rightarrow> bool" where
  "still_observed seen displaced =
     (case seen of
        None \<Rightarrow> lk_owner displaced = None
      | Some o' \<Rightarrow> map_option lo_token (lk_owner displaced) = Some (lo_token o'))"

section \<open>The processes\<close>

text \<open>Where a process is: outside the lock, before \<open>mkdir\<close>, before the owner stamp, before the removal
  after a stamp that failed (with a transient error code or not), before the \<open>lstat\<close> of
  \<open>lockPathExists\<close>, in \<open>reclaimStaleLock\<close> before its own \<open>lstat\<close>, before reading the stamp, before \<open>rename\<close> and before the
  check of what was moved, inside the action with its token, between the token check and
  the removal of a release, and with an error that ends its turn.\<close>

datatype lock_pc =
    Idle | Try | Made | Cleaning bool
  | Exists | Inspect | Seen int | Moving "lock_owner option" | Checking "lock_owner option" lock_dir
  | Critical nat | Releasing nat | Failed

record lock_state =
  ls_now :: int
  ls_lock :: "lock_dir option"
  ls_litter :: nat
  ls_pc :: "nat \<Rightarrow> lock_pc"
  ls_alive :: "nat \<Rightarrow> bool"
  ls_fresh :: nat

definition goto :: "nat \<Rightarrow> lock_pc \<Rightarrow> lock_state \<Rightarrow> lock_state" where
  "goto p c s = s\<lparr>ls_pc := (ls_pc s)(p := c)\<rparr>"

definition lockOwned :: "nat \<Rightarrow> lock_state \<Rightarrow> bool" where
  "lockOwned token s =
     (case ls_lock s of
        None \<Rightarrow> False
      | Some l \<Rightarrow> map_option lo_token (lk_owner l) = Some token)"

text \<open>\<open>mkdir\<close>, then the stamp. When the directory is gone by then, the write fails with \<open>ENOENT\<close>, no
  transient code: the handler removes whatever is at the path and throws.\<close>

definition make_lock :: "nat \<Rightarrow> lock_state \<Rightarrow> lock_state" where
  "make_lock p s =
     (case ls_lock s of
        None \<Rightarrow> goto p Made (s\<lparr>ls_lock := Some \<lparr>lk_mtime = ls_now s, lk_owner = None\<rparr>\<rparr>)
      | Some _ \<Rightarrow> goto p Exists s)"

definition stamp_lock :: "nat \<Rightarrow> lock_state \<Rightarrow> lock_state" where
  "stamp_lock p s =
     (case ls_lock s of
        None \<Rightarrow> goto p (Cleaning False) s
      | Some _ \<Rightarrow>
          goto p (Critical (ls_fresh s))
            (s\<lparr>ls_lock := Some \<lparr>lk_mtime = ls_now s,
                 lk_owner = Some \<lparr>lo_pid = p, lo_startedAt = ls_now s, lo_token = ls_fresh s\<rparr>\<rparr>,
               ls_fresh := Suc (ls_fresh s)\<rparr>))"

definition clean_lock :: "nat \<Rightarrow> bool \<Rightarrow> lock_state \<Rightarrow> lock_state" where
  "clean_lock p transient s = goto p (if transient then Exists else Failed) (s\<lparr>ls_lock := None\<rparr>)"

text \<open>\<open>lockPathExists\<close> after a transient error: without a lock the error is thrown.\<close>

definition lockPathExists :: "nat \<Rightarrow> lock_state \<Rightarrow> lock_state" where
  "lockPathExists p s = goto p (case ls_lock s of None \<Rightarrow> Failed | Some _ \<Rightarrow> Inspect) s"

text \<open>\<open>reclaimStaleLock\<close>, call by call; every way out of it but a live owner retries at once, and a
  live owner retries after a pause.\<close>

definition inspect_lock :: "nat \<Rightarrow> lock_state \<Rightarrow> lock_state" where
  "inspect_lock p s =
     (case ls_lock s of None \<Rightarrow> goto p Try s | Some l \<Rightarrow> goto p (Seen (lk_mtime l)) s)"

definition read_owner :: "nat \<Rightarrow> int \<Rightarrow> lock_state \<Rightarrow> lock_state" where
  "read_owner p mtime s =
     (let owner = (case ls_lock s of None \<Rightarrow> None | Some l \<Rightarrow> lk_owner l)
      in goto p (if stale_lock (ls_now s) (ls_alive s) mtime owner then Moving owner else Try) s)"

definition move_lock :: "nat \<Rightarrow> lock_owner option \<Rightarrow> lock_state \<Rightarrow> lock_state" where
  "move_lock p seen s =
     (case ls_lock s of
        None \<Rightarrow> goto p Try s
      | Some l \<Rightarrow> goto p (Checking seen l) (s\<lparr>ls_lock := None\<rparr>))"

definition check_moved :: "nat \<Rightarrow> lock_owner option \<Rightarrow> lock_dir \<Rightarrow> lock_state \<Rightarrow> lock_state" where
  "check_moved p seen displaced s =
     goto p Try (if still_observed seen displaced then s else s\<lparr>ls_litter := Suc (ls_litter s)\<rparr>)"

definition leave_lock :: "nat \<Rightarrow> nat \<Rightarrow> lock_state \<Rightarrow> lock_state" where
  "leave_lock p token s = goto p (if lockOwned token s then Releasing token else Idle) s"

definition remove_lock :: "nat \<Rightarrow> lock_state \<Rightarrow> lock_state" where
  "remove_lock p s = goto p Idle (s\<lparr>ls_lock := None\<rparr>)"

definition advance :: "nat \<Rightarrow> lock_state \<Rightarrow> lock_state" where
  "advance p s =
     (case ls_pc s p of
        Idle \<Rightarrow> goto p Try s
      | Try \<Rightarrow> make_lock p s
      | Made \<Rightarrow> stamp_lock p s
      | Cleaning transient \<Rightarrow> clean_lock p transient s
      | Exists \<Rightarrow> lockPathExists p s
      | Inspect \<Rightarrow> inspect_lock p s
      | Seen mtime \<Rightarrow> read_owner p mtime s
      | Moving seen \<Rightarrow> move_lock p seen s
      | Checking seen displaced \<Rightarrow> check_moved p seen displaced s
      | Critical token \<Rightarrow> leave_lock p token s
      | Releasing _ \<Rightarrow> remove_lock p s
      | Failed \<Rightarrow> goto p Idle s)"

text \<open>The next call of a process fails. The flag chooses between a transient and another error code
  where the source asks, and between the two calls of a check.\<close>

definition fail_call :: "nat \<Rightarrow> bool \<Rightarrow> lock_state \<Rightarrow> lock_state" where
  "fail_call p b s =
     (case ls_pc s p of
        Idle \<Rightarrow> s
      | Try \<Rightarrow> goto p (if b then Exists else Failed) s
      | Made \<Rightarrow> goto p (Cleaning b) s
      | Cleaning transient \<Rightarrow> goto p (if transient then Exists else Failed) s
      | Exists \<Rightarrow> goto p Failed s
      | Inspect \<Rightarrow> goto p Failed s
      | Seen mtime \<Rightarrow> goto p (if stale_lock (ls_now s) (ls_alive s) mtime None then Moving None else Try) s
      | Moving seen \<Rightarrow> goto p Try s
      | Checking seen displaced \<Rightarrow>
          goto p (if \<not> b \<and> still_observed seen displaced then Failed else Try) (s\<lparr>ls_litter := Suc (ls_litter s)\<rparr>)
      | Critical token \<Rightarrow> goto p Idle s
      | Releasing _ \<Rightarrow> goto p Idle s
      | Failed \<Rightarrow> s)"

inductive lock_step :: "lock_state \<Rightarrow> lock_state \<Rightarrow> bool" where
  advance: "ls_alive s p \<Longrightarrow> lock_step s (Lock.advance p s)"
| fail: "ls_alive s p \<Longrightarrow> lock_step s (fail_call p b s)"
| tick: "0 \<le> d \<Longrightarrow> lock_step s (s\<lparr>ls_now := ls_now s + d\<rparr>)"
| crash: "lock_step s (s\<lparr>ls_alive := (ls_alive s)(p := False)\<rparr>)"

inductive_cases lock_stepE: "lock_step s t"

definition initial_lock :: lock_state where
  "initial_lock =
     \<lparr>ls_now = 0, ls_lock = None, ls_litter = 0, ls_pc = (\<lambda>_. Idle), ls_alive = (\<lambda>_. True), ls_fresh = 0\<rparr>"

inductive reachable_lock :: "lock_state \<Rightarrow> bool" where
  initial: "reachable_lock initial_lock"
| step: "reachable_lock s \<Longrightarrow> lock_step s t \<Longrightarrow> reachable_lock t"

definition inside :: "lock_state \<Rightarrow> nat \<Rightarrow> bool" where
  "inside s p \<longleftrightarrow> (\<exists>token. ls_pc s p = Critical token \<or> ls_pc s p = Releasing token)"

section \<open>Tokens\<close>

text \<open>The token a process holds.\<close>

fun token_of :: "lock_pc \<Rightarrow> nat option" where
  "token_of (Critical t) = Some t"
| "token_of (Releasing t) = Some t"
| "token_of _ = None"

definition tokens_unique :: "lock_state \<Rightarrow> bool" where
  "tokens_unique s \<longleftrightarrow>
     (\<forall>p q t. token_of (ls_pc s p) = Some t \<longrightarrow> t < ls_fresh s \<and> (token_of (ls_pc s q) = Some t \<longrightarrow> p = q))"

lemmas advance_defs = advance_def goto_def make_lock_def stamp_lock_def clean_lock_def lockPathExists_def inspect_lock_def read_owner_def
  move_lock_def check_moved_def leave_lock_def remove_lock_def

lemma advance_frame:
  "ls_now (advance p s) = ls_now s" "ls_alive (advance p s) = ls_alive s"
  "q \<noteq> p \<Longrightarrow> ls_pc (advance p s) q = ls_pc s q" "ls_fresh s \<le> ls_fresh (advance p s)"
  by (cases "ls_pc s p"; simp add: advance_defs Let_def split: option.split)+

lemma advance_token:
  "token_of (ls_pc (advance p s) p) = token_of (ls_pc s p) \<or> token_of (ls_pc (advance p s) p) = None \<or>
   token_of (ls_pc (advance p s) p) = Some (ls_fresh s) \<and> ls_fresh (advance p s) = Suc (ls_fresh s)"
  by (cases "ls_pc s p") (simp_all add: advance_defs Let_def split: option.split)

lemma fail_frame:
  "ls_now (fail_call p b s) = ls_now s" "ls_alive (fail_call p b s) = ls_alive s" "ls_fresh (fail_call p b s) = ls_fresh s"
  "ls_lock (fail_call p b s) = ls_lock s" "q \<noteq> p \<Longrightarrow> ls_pc (fail_call p b s) q = ls_pc s q"
  by (cases "ls_pc s p"; simp add: fail_call_def goto_def)+

lemma fail_token: "token_of (ls_pc (fail_call p b s) q) = Some x \<Longrightarrow> token_of (ls_pc s q) = Some x"
  by (cases "q = p"; cases "ls_pc s p") (auto simp: fail_call_def goto_def split: if_splits)

lemma tokens_unique_step: "lock_step s t \<Longrightarrow> tokens_unique s \<Longrightarrow> tokens_unique t"
proof (induction rule: lock_step.induct)
  case (advance s p)
  let ?t = "Lock.advance p s"
  show ?case unfolding tokens_unique_def
  proof (intro allI impI)
    fix q r x
    assume x: "token_of (ls_pc ?t q) = Some x"
    have old: "token_of (ls_pc s y) = Some x \<or> y = p \<and> x = ls_fresh s \<and> ls_fresh ?t = Suc (ls_fresh s)"
      if "token_of (ls_pc ?t y) = Some x" for y
      using that advance_token [of p s] advance_frame(3) [of y p s] by (cases "y = p") auto
    show "x < ls_fresh ?t \<and> (token_of (ls_pc ?t r) = Some x \<longrightarrow> q = r)"
      using old [OF x] old [of r] advance.prems advance_frame(4) [of s p]
      unfolding tokens_unique_def by (metis less_irrefl less_le_trans lessI)
  qed
next
  case (fail s p b)
  then show ?case unfolding tokens_unique_def fail_frame(3) using fail_token by meson
qed (auto simp: tokens_unique_def)

lemma tokens_unique_reachable: "reachable_lock s \<Longrightarrow> tokens_unique s"
proof (induction rule: reachable_lock.induct)
  case initial
  then show ?case by (simp add: tokens_unique_def initial_lock_def)
qed (rule tokens_unique_step)

text \<open>In every reachable state at most one process owns the lock by its token, whatever crashes,
  delays and reclaims came before; an action that asks \<open>owned\<close> before it writes is never one of
  two.\<close>

theorem one_owner_by_token:
  assumes "reachable_lock s" "ls_pc s p = Critical a" "ls_pc s q = Critical b" "lockOwned a s" "lockOwned b s"
  shows "p = q"
proof -
  have "a = b" using assms(4,5) by (auto simp: lockOwned_def split: option.splits)
  with assms(1-3) tokens_unique_reachable show ?thesis by (fastforce simp: tokens_unique_def)
qed

section \<open>Mutual exclusion\<close>

text \<open>While nobody crashes and less than a minute passes, no lock is stale. Then a process inside the
  lock, or between \<open>mkdir\<close> and the stamp, is the only one, and the directory is its own.\<close>

fun holding :: "lock_pc \<Rightarrow> bool" where
  "holding Made = True"
| "holding (Cleaning _) = True"
| "holding (Critical _) = True"
| "holding (Releasing _) = True"
| "holding _ = False"

fun calm_pc :: "lock_pc \<Rightarrow> bool" where
  "calm_pc (Seen mtime) = (0 \<le> mtime)"
| "calm_pc (Moving _) = False"
| "calm_pc (Checking _ _) = False"
| "calm_pc _ = True"

definition exclusive :: "lock_state \<Rightarrow> bool" where
  "exclusive s \<longleftrightarrow> 0 \<le> ls_now s \<and> (\<forall>p. calm_pc (ls_pc s p)) \<and>
     (\<forall>p q. holding (ls_pc s p) \<and> holding (ls_pc s q) \<longrightarrow> p = q) \<and>
     (case ls_lock s of
        None \<Rightarrow> \<forall>p. \<not> holding (ls_pc s p)
      | Some l \<Rightarrow> 0 \<le> lk_mtime l \<and> (case lk_owner l of None \<Rightarrow> True | Some o' \<Rightarrow> 0 \<le> lo_startedAt o'))"

lemma not_stale:
  assumes "now < LOCK_STALE_MILLISECONDS" "0 \<le> mtime" "\<forall>p. alive p"
    and "case owner of None \<Rightarrow> True | Some o' \<Rightarrow> 0 \<le> lo_startedAt o'"
  shows "\<not> stale_lock now alive mtime owner"
  using assms by (auto simp: stale_lock_def split: option.splits)

lemma exclusive_advance:
  assumes "exclusive s" "ls_now s < LOCK_STALE_MILLISECONDS" "\<forall>p. ls_alive s p"
  shows "exclusive (advance p s)"
proof (cases "ls_pc s p")
  case (Seen mtime)
  let ?owner = "case ls_lock s of None \<Rightarrow> None | Some l \<Rightarrow> lk_owner l"
  have "0 \<le> mtime" using assms(1) Seen by (metis calm_pc.simps(1) exclusive_def)
  moreover have "case ?owner of None \<Rightarrow> True | Some o' \<Rightarrow> 0 \<le> lo_startedAt o'"
    using assms(1) by (auto simp: exclusive_def split: option.splits)
  ultimately have "\<not> stale_lock (ls_now s) (ls_alive s) mtime ?owner"
    using not_stale assms(2,3) by blast
  then have "advance p s = goto p Try s" using Seen by (simp add: advance_def read_owner_def Let_def)
  then show ?thesis using assms(1) Seen by (auto simp: exclusive_def goto_def split: option.splits)
next
  case (Moving seen)
  then show ?thesis using assms(1) by (metis calm_pc.simps(2) exclusive_def)
next
  case (Checking seen displaced)
  then show ?thesis using assms(1) by (metis calm_pc.simps(3) exclusive_def)
next
  case Made
  have "\<not> holding (ls_pc s p)" if "ls_lock s = None" using assms(1) that by (simp add: exclusive_def)
  with Made obtain l where "ls_lock s = Some l" by (cases "ls_lock s") auto
  with Made show ?thesis using assms(1)
    by (auto simp: exclusive_def advance_def stamp_lock_def goto_def)
next
  case Try
  then show ?thesis using assms(1)
    by (cases "ls_lock s") (auto simp: exclusive_def advance_def make_lock_def goto_def)
next
  case (Cleaning transient)
  then have h: "\<forall>q. holding (ls_pc s q) \<longrightarrow> q = p" using assms(1) by (auto simp: exclusive_def)
  show ?thesis using assms(1) Cleaning h
    by (cases "ls_lock s") (auto simp: exclusive_def advance_def clean_lock_def goto_def)
next
  case Exists
  then show ?thesis using assms(1)
    by (cases "ls_lock s") (auto simp: exclusive_def advance_def lockPathExists_def goto_def)
next
  case Inspect
  then show ?thesis using assms(1)
    by (cases "ls_lock s") (auto simp: exclusive_def advance_def inspect_lock_def goto_def)
next
  case (Critical token)
  then have h: "\<forall>q. holding (ls_pc s q) \<longrightarrow> q = p" using assms(1) by (auto simp: exclusive_def)
  show ?thesis using assms(1) Critical h
    by (cases "ls_lock s") (auto simp: exclusive_def advance_def leave_lock_def goto_def lockOwned_def)
next
  case (Releasing token)
  then have h: "\<forall>q. holding (ls_pc s q) \<longrightarrow> q = p" using assms(1) by (auto simp: exclusive_def)
  show ?thesis using assms(1) Releasing h
    by (cases "ls_lock s") (auto simp: exclusive_def advance_def remove_lock_def goto_def)
qed (use assms(1) in \<open>auto simp: exclusive_def advance_def goto_def split: option.splits\<close>)

lemma exclusive_fail:
  assumes "exclusive s" "ls_now s < LOCK_STALE_MILLISECONDS" "\<forall>p. ls_alive s p"
  shows "exclusive (fail_call p b s)"
proof -
  have calm: "calm_pc (ls_pc s p)" using assms(1) by (simp add: exclusive_def)
  have "holding (ls_pc (fail_call p b s) q) \<Longrightarrow> holding (ls_pc s q)" for q
    by (cases "q = p"; cases "ls_pc s p") (auto simp: fail_call_def goto_def split: if_splits)
  moreover have "calm_pc (ls_pc (fail_call p b s) p)"
    using calm assms(2) by (cases "ls_pc s p") (auto simp: fail_call_def goto_def stale_lock_def)
  then have "calm_pc (ls_pc (fail_call p b s) q)" for q
    using assms(1) fail_frame(5) [of q p b s] by (cases "q = p") (simp_all add: exclusive_def)
  ultimately show ?thesis
    using assms(1) unfolding exclusive_def fail_frame by (cases "ls_lock s") (simp_all, blast+)
qed

lemma exclusive_reachable:
  "reachable_lock s \<Longrightarrow> ls_now s < LOCK_STALE_MILLISECONDS \<Longrightarrow> \<forall>p. ls_alive s p \<Longrightarrow> exclusive s"
proof (induction rule: reachable_lock.induct)
  case initial
  then show ?case by (simp add: exclusive_def initial_lock_def)
next
  case (step s t)
  from step.hyps(2) show ?case
  proof (cases rule: lock_step.cases)
    case (advance p)
    with step show ?thesis by (simp add: exclusive_advance advance_frame)
  next
    case (fail p b)
    with step show ?thesis by (simp add: exclusive_fail fail_frame)
  next
    case (tick d)
    with step have "exclusive s" by simp
    with tick show ?thesis by (cases "ls_lock s") (simp_all add: exclusive_def)
  next
    case (crash p)
    then have "\<not> ls_alive t p" by simp
    with step.prems(2) show ?thesis by blast
  qed
qed

text \<open>C8: mutual exclusion: while no process has crashed and less than a minute has passed, at most
  one process is inside the lock, however their calls interleave and whichever of them fail.\<close>

theorem lock_excludes:
  assumes "reachable_lock s" "ls_now s < LOCK_STALE_MILLISECONDS" "\<forall>p. ls_alive s p" "inside s p" "inside s q"
  shows "p = q"
proof -
  have "exclusive s" using exclusive_reachable assms(1-3) by blast
  moreover have "holding (ls_pc s p)" "holding (ls_pc s q)" using assms(4,5) by (auto simp: inside_def)
  ultimately show ?thesis by (simp add: exclusive_def)
qed

text \<open>A run of calls, and a crash in between.\<close>

definition run_calls :: "nat list \<Rightarrow> lock_state \<Rightarrow> lock_state" where
  "run_calls ps s = foldl (\<lambda>s p. advance p s) s ps"

lemma run_calls_simps [simp]: "run_calls [] s = s" "run_calls (p # ps) s = run_calls ps (advance p s)"
  by (simp_all add: run_calls_def)

lemma run_calls_alive: "ls_alive (run_calls ps s) = ls_alive s"
  by (induction ps arbitrary: s) (simp_all add: advance_frame)

lemma reachable_calls: "reachable_lock s \<Longrightarrow> \<forall>p \<in> set ps. ls_alive s p \<Longrightarrow> reachable_lock (run_calls ps s)"
proof (induction ps arbitrary: s)
  case (Cons p ps)
  then have "reachable_lock (advance p s)" by (auto intro: reachable_lock.step lock_step.advance)
  with Cons show ?case by (simp add: advance_frame)
qed simp

lemma initial_calls:
  "reachable_lock (run_calls ps initial_lock)" "ls_alive (run_calls ps initial_lock) p"
  using reachable_calls [OF reachable_lock.initial, of ps] by (simp_all add: run_calls_alive initial_lock_def)

theorem lock_excludes_witness: "reachable_lock (run_calls [1, 1, 1, 2, 2] initial_lock) \<and> (1 :: nat) = 1"
proof -
  let ?s = "run_calls [1, 1, 1, 2, 2] initial_lock"
  have "inside ?s 1" "ls_now ?s < LOCK_STALE_MILLISECONDS"
    by (simp_all add: inside_def advance_defs initial_lock_def LOCK_STALE_MILLISECONDS_def)
  then show ?thesis using lock_excludes [of ?s 1 1] initial_calls by blast
qed

theorem one_owner_by_token_witness: "lockOwned 0 (run_calls [1, 1, 1] initial_lock) \<and> (1 :: nat) = 1"
proof -
  let ?s = "run_calls [1, 1, 1] initial_lock"
  have s: "ls_pc ?s 1 = Critical 0" "lockOwned 0 ?s"
    by (simp_all add: lockOwned_def advance_defs initial_lock_def)
  from one_owner_by_token [OF initial_calls(1) s(1) s(1) s(2) s(2)] s(2) show ?thesis by blast
qed

section \<open>Reclaiming\<close>

text \<open>C24: an abandoned lock stops nobody: a process before \<open>mkdir\<close> that finds no lock, or one whose owner is
  dead or that is a minute old, is inside the lock after at most eight of its calls, as the model
  counts them, when no other process acts and no call fails meanwhile.\<close>

theorem abandoned_lock_is_taken:
  assumes "ls_pc s p = Try"
    and "case ls_lock s of None \<Rightarrow> True
         | Some l \<Rightarrow>
             (case lk_owner l of
                None \<Rightarrow> 60000 \<le> ls_now s - lk_mtime l
              | Some owner \<Rightarrow> 60000 \<le> ls_now s - lo_startedAt owner \<or> \<not> ls_alive s (lo_pid owner))"
  shows "\<exists>n \<le> 8. inside (run_calls (replicate n p) s) p"
proof (cases "ls_lock s")
  case None
  have "inside (run_calls (replicate 2 p) s) p"
    using assms None by (simp add: numeral_2_eq_2 inside_def advance_defs)
  then show ?thesis by (intro exI [of _ 2]) simp
next
  case (Some l)
  then have "stale_lock (ls_now s) (ls_alive s) (lk_mtime l) (lk_owner l)"
    using assms(2) by (simp add: stale_lock_def LOCK_STALE_MILLISECONDS_def split: option.splits)
  then have "inside (run_calls (replicate 8 p) s) p"
    using assms(1) Some by (simp add: eval_nat_numeral inside_def advance_defs Let_def)
  then show ?thesis by (intro exI [of _ 8]) simp
qed

text \<open>Process 1 took the lock and crashed inside it; 2 and 3 both find its stamp stale.\<close>

definition both_saw_stale :: lock_state where
  "both_saw_stale =
     (let s = run_calls [1, 1, 1] initial_lock
      in run_calls [2, 2, 2, 2, 2, 3, 3, 3, 3, 3] (s\<lparr>ls_alive := (ls_alive s)(1 := False)\<rparr>))"

lemma both_saw_stale_reachable: "reachable_lock both_saw_stale"
proof -
  let ?s = "run_calls [1, 1, 1] initial_lock"
  have "reachable_lock (?s\<lparr>ls_alive := (ls_alive ?s)(1 := False)\<rparr>)"
    by (rule reachable_lock.step [OF initial_calls(1) lock_step.crash])
  then show ?thesis
    unfolding both_saw_stale_def Let_def
    by (rule reachable_calls) (simp add: run_calls_alive del: run_calls_simps, simp add: initial_lock_def)
qed

text \<open>C31: with one crash the exclusion is lost. Two processes that both read the stamp of a dead owner
  can both end up inside, alive and with no time passed: the second moves away the lock the first
  has just taken, the check of what was moved finds it is another lock, and it is not put back.
  Only the first then no longer owns the lock by its token.\<close>

theorem reclaim_breaks_exclusion:
  "\<exists>s p q a b. reachable_lock s \<and> p \<noteq> q \<and> ls_alive s p \<and> ls_alive s q \<and> ls_now s = 0 \<and>
     ls_pc s p = Critical a \<and> ls_pc s q = Critical b \<and> \<not> lockOwned a s \<and> lockOwned b s"
proof -
  let ?s = "run_calls [2, 2, 2, 2, 3, 3, 3, 3] both_saw_stale"
  have "reachable_lock ?s"
    by (rule reachable_calls [OF both_saw_stale_reachable])
       (simp add: both_saw_stale_def Let_def run_calls_alive del: run_calls_simps, simp add: initial_lock_def)
  moreover have "ls_pc ?s 2 = Critical 1 \<and> ls_pc ?s 3 = Critical 2 \<and> ls_now ?s = 0 \<and> ls_alive ?s 2 \<and> ls_alive ?s 3 \<and>
      \<not> lockOwned 1 ?s \<and> lockOwned 2 ?s"
    by code_simp
  ultimately show ?thesis
    by (intro exI [of _ ?s] exI [of _ 2] exI [of _ 3] exI [of _ 1]) (simp del: run_calls_simps)
qed

text \<open>C35: a writer can lose its write although nothing went wrong. Whenever the owner of the lock releases it
  between another writer's \<open>mkdir\<close> and its \<open>lstat\<close>, that writer's turn ends with the error of the
  \<open>mkdir\<close> instead of a new try: nobody has crashed, no time has passed, no call has failed for
  another reason, and the path is free.\<close>

theorem released_lock_fails_writer:
  assumes "ls_pc s p = Try" and "ls_pc s q = Critical token" and "lockOwned token s"
  shows "ls_pc (run_calls [p, q, q, p] s) p = Failed \<and> ls_pc (run_calls [p, q, q, p] s) q = Idle \<and>
    ls_lock (run_calls [p, q, q, p] s) = None"
proof -
  have "p \<noteq> q" using assms(1,2) by auto
  moreover obtain l where "ls_lock s = Some l" using assms(3) by (cases "ls_lock s") (simp_all add: lockOwned_def)
  ultimately show ?thesis using assms by (simp add: advance_defs lockOwned_def)
qed

text \<open>At a reachable state: the first process has taken the lock, the second is about to.\<close>

theorem released_lock_fails_writer_witness:
  "\<exists>s. reachable_lock s \<and> ls_pc (run_calls [2, 1, 1, 2] s) 2 = Failed \<and> ls_lock (run_calls [2, 1, 1, 2] s) = None"
proof -
  let ?s = "run_calls [1, 1, 1, 2] initial_lock"
  have "ls_pc ?s 2 = Try" "ls_pc ?s 1 = Critical 0" "lockOwned 0 ?s"
    by (simp_all add: advance_defs initial_lock_def lockOwned_def)
  from released_lock_fails_writer [OF this] initial_calls(1) show ?thesis by blast
qed

theorem abandoned_lock_is_taken_witness:
  "\<exists>n \<le> 8. inside (run_calls (replicate n 2) (run_calls [2] initial_lock)) 2"
  by (rule abandoned_lock_is_taken) (simp_all add: advance_defs initial_lock_def)

end
