(* ===== verification/Lease.thy ===== *)
theory Lease
  imports Cache
begin

text \<open>
  The machine lease of cache.ts: one small document per provider that says who is asking it, until
  when, and when it may next be asked. \<open>acquireMachineLease\<close> takes it under the state lock; the
  holder then extends, completes and releases it by its token. Its document is read into a record
  of the fields \<open>MachinePolicy\<close> declares. The token is an argument (\<open>randomUUID\<close>), as are the
  clock readings.
\<close>

section \<open>The document\<close>

record machine_policy =
  mp_refusalRevision :: js
  mp_lastAccount :: js
  mp_owner :: "string option"
  mp_expiresAt :: int
  mp_token :: string
  mp_nextAllowedAt :: int
  mp_attempts :: int

definition unheld_policy :: machine_policy where
  "unheld_policy =
     \<lparr>mp_refusalRevision = Undefined, mp_lastAccount = Undefined, mp_owner = None, mp_expiresAt = 0,
      mp_token = [], mp_nextAllowedAt = 0, mp_attempts = 0\<rparr>"

definition read_safe_integer :: "js \<Rightarrow> int option" where
  "read_safe_integer v =
     (case v of Num (Fin r) \<Rightarrow> if safe_integer r then Some \<lfloor>r\<rfloor> else None | _ \<Rightarrow> None)"

definition read_lease_owner :: "js \<Rightarrow> string option option" where
  "read_lease_owner v =
     (case v of
        Null \<Rightarrow> Some None
      | Str s \<Rightarrow> if s = ''desktop'' \<or> s = ''cli'' then Some (Some s) else None
      | _ \<Rightarrow> None)"

definition parse_policy :: "js \<Rightarrow> machine_policy option" where
  "parse_policy v =
     (if \<not> isRecord v then None else
      do { expiresAt \<leftarrow> read_safe_integer (prop_of v ''expiresAt'');
           nextAllowedAt \<leftarrow> read_safe_integer (prop_of v ''nextAllowedAt'');
           attempts \<leftarrow> read_safe_integer (prop_of v ''attempts'');
           token \<leftarrow> (case prop_of v ''token'' of Str s \<Rightarrow> Some s | _ \<Rightarrow> None);
           owner \<leftarrow> read_lease_owner (prop_of v ''owner'');
           Some \<lparr>mp_refusalRevision = prop_of v ''refusalRevision'', mp_lastAccount = prop_of v ''lastAccount'',
                 mp_owner = owner, mp_expiresAt = expiresAt, mp_token = token,
                 mp_nextAllowedAt = nextAllowedAt, mp_attempts = attempts\<rparr> })"

definition read_policy :: "json_file \<Rightarrow> machine_policy result" where
  "read_policy document =
     (case document of
        FileError MissingFile \<Rightarrow> Inr unheld_policy
      | FileError _ \<Rightarrow> Inl (Error ''Unreadable acquisition policy'')
      | FileOk v \<Rightarrow>
          (case parse_policy v of
             None \<Rightarrow> Inl (Error ''Invalid acquisition policy'')
           | Some p \<Rightarrow> Inr p))"

definition policy_js :: "machine_policy \<Rightarrow> js" where
  "policy_js p =
     obj [(''refusalRevision'', mp_refusalRevision p), (''lastAccount'', mp_lastAccount p),
          (''owner'', case mp_owner p of None \<Rightarrow> Null | Some s \<Rightarrow> Str s),
          (''expiresAt'', int_js (mp_expiresAt p)), (''token'', Str (mp_token p)),
          (''nextAllowedAt'', int_js (mp_nextAllowedAt p)), (''attempts'', int_js (mp_attempts p))]"

section \<open>Operations\<close>

definition replace_underscores :: "string \<Rightarrow> string" where
  "replace_underscores s = map (\<lambda>c. if c = CHR ''_'' then CHR ''-'' else c) s"

text \<open>\<open>/^[a-z][a-z-]{0,31}$/u\<close>\<close>

definition slug_pattern :: "string \<Rightarrow> bool" where
  "slug_pattern s =
     (case s of
        [] \<Rightarrow> False
      | c # cs \<Rightarrow> is_lower c \<and> length cs \<le> 31 \<and> list_all (\<lambda>x. is_lower x \<or> x = CHR ''-'') cs)"

definition lease_slug :: "string \<Rightarrow> string result" where
  "lease_slug provider =
     (let named = replace_underscores (toLowerCase provider);
          slug = (if named = ''gemini-cli'' \<or> named = ''antigravity'' then ''code-assist'' else named)
      in if slug_pattern slug then Inr slug else Inl (Error ''Invalid provider''))"

definition lease_file :: "string \<Rightarrow> string" where
  "lease_file slug = ''acquisition-'' @ slug @ ''.json''"

text \<open>A refusal names the credential it refused; another credential ends that refusal.\<close>

definition changed_refusal :: "machine_policy \<Rightarrow> string option \<Rightarrow> bool" where
  "changed_refusal current credentialRevision =
     (case (mp_refusalRevision current, credentialRevision) of
        (Str refused, Some revision) \<Rightarrow> refused \<noteq> revision
      | _ \<Rightarrow> False)"

definition taken_policy :: "machine_policy \<Rightarrow> bool \<Rightarrow> int \<Rightarrow> string \<Rightarrow> machine_policy" where
  "taken_policy current changed now token =
     (if changed then current\<lparr>mp_nextAllowedAt := 0, mp_attempts := 0, mp_refusalRevision := Null\<rparr> else current)
       \<lparr>mp_lastAccount := Null, mp_owner := Some ''cli'', mp_expiresAt := now + 60000, mp_token := token\<rparr>"

definition lease_decision_at :: "machine_policy \<Rightarrow> int \<Rightarrow> lease_decision result" where
  "lease_decision_at current now =
     rbind (toISOString now) (\<lambda>nowText.
       rbind (toISOString (mp_expiresAt current)) (\<lambda>expiresText.
         leasePolicy \<lparr>li_now = nowText, li_requester = ''cli'', li_owner = mp_owner current,
           li_expiresAt = Some expiresText, li_leaseSeconds = 60\<rparr>))"

text \<open>\<open>None\<close> is the refused request, which leaves the document alone.\<close>

definition acquireMachineLease ::
  "string \<Rightarrow> int \<Rightarrow> string option \<Rightarrow> string \<Rightarrow> machine_policy option action" where
  "acquireMachineLease provider now credentialRevision token dir =
     rbind (lease_slug provider) (\<lambda>slug.
       withStateLock (\<lambda>dir.
         rbind (read_policy (sd_docs dir (lease_file slug))) (\<lambda>current.
           rbind (lease_decision_at current now) (\<lambda>decision.
             let changed = changed_refusal current credentialRevision;
                 new = taken_policy current changed now token
             in if \<not> ld_acquired decision \<or> now < mp_nextAllowedAt current \<and> \<not> changed then Inr (None, dir)
                else Inr (Some new, dir\<lparr>sd_docs := writeFileAtomically (lease_file slug) (policy_js new) (sd_docs dir)\<rparr>)))) dir)"

text \<open>\<open>mutate\<close>: an operation of the holder, by its token.\<close>

definition mutate_lease ::
  "string \<Rightarrow> string \<Rightarrow> (machine_policy \<Rightarrow> machine_policy result) \<Rightarrow> unit action" where
  "mutate_lease slug token act =
     withStateLock (\<lambda>dir.
       rbind (read_policy (sd_docs dir (lease_file slug))) (\<lambda>current.
         if mp_token current \<noteq> token then Inl (Error ''Acquisition lease lost'')
         else rbind (act current) (\<lambda>new.
           Inr ((), dir\<lparr>sd_docs := writeFileAtomically (lease_file slug) (policy_js new) (sd_docs dir)\<rparr>))))"

definition heartbeat :: "int \<Rightarrow> machine_policy \<Rightarrow> machine_policy result" where
  "heartbeat at_ms current =
     (if mp_owner current \<noteq> Some ''cli'' \<or> mp_expiresAt current \<le> at_ms then Inl (Error ''Acquisition lease expired'')
      else Inr (current\<lparr>mp_expiresAt := at_ms + 60000\<rparr>))"

definition complete_lease :: "int \<Rightarrow> int \<Rightarrow> string option \<Rightarrow> machine_policy \<Rightarrow> machine_policy result" where
  "complete_lease nextAllowedAt attempts refusalRevision current =
     Inr (current\<lparr>mp_nextAllowedAt := nextAllowedAt, mp_attempts := attempts,
       mp_refusalRevision := (case refusalRevision of None \<Rightarrow> Null | Some r \<Rightarrow> Str r)\<rparr>)"

text \<open>A release that fails is swallowed.\<close>

definition release_lease :: "string \<Rightarrow> string \<Rightarrow> state_dir \<Rightarrow> state_dir" where
  "release_lease slug token dir =
     (case mutate_lease slug token (\<lambda>current. Inr (current\<lparr>mp_owner := None, mp_expiresAt := 0\<rparr>)) dir of
        Inl _ \<Rightarrow> dir
      | Inr (_, dir') \<Rightarrow> dir')"

definition stillOwned :: "string \<Rightarrow> string \<Rightarrow> int \<Rightarrow> state_dir \<Rightarrow> bool result" where
  "stillOwned slug token at_ms dir =
     rbind (read_policy (sd_docs dir (lease_file slug))) (\<lambda>current.
       Inr (mp_token current = token \<and> mp_owner current = Some ''cli'' \<and> at_ms < mp_expiresAt current))"

section \<open>Reading back\<close>

definition scalar :: "js \<Rightarrow> bool" where
  "scalar v \<longleftrightarrow> v = Undefined \<or> v = Null \<or> (\<exists>s. v = Str s)"

definition safe_int :: "int \<Rightarrow> bool" where
  "safe_int n \<longleftrightarrow> \<bar>n\<bar> \<le> 9007199254740991"

definition wf_policy :: "machine_policy \<Rightarrow> bool" where
  "wf_policy p \<longleftrightarrow> scalar (mp_refusalRevision p) \<and> scalar (mp_lastAccount p) \<and>
     mp_owner p \<in> {None, Some ''desktop'', Some ''cli''} \<and>
     safe_int (mp_expiresAt p) \<and> safe_int (mp_nextAllowedAt p) \<and> safe_int (mp_attempts p)"

lemma scalar_clean: "scalar v \<Longrightarrow> v = Undefined \<or> json_clean v"
  by (auto simp: scalar_def)

lemma scalar_sortDeep_id: "scalar v \<Longrightarrow> sortDeep v = v"
  by (auto simp: scalar_def)

lemma policy_js_clean: "wf_policy p \<Longrightarrow> json_clean (policy_js p)"
  unfolding policy_js_def
  by (rule json_clean_obj) (auto simp: wf_policy_def dest: scalar_clean split: option.split)

lemma read_safe_integer_js: "safe_int n \<Longrightarrow> read_safe_integer (int_js n) = Some n"
proof -
  assume "safe_int n"
  then have "\<bar>n\<bar> \<le> 9007199254740991" by (simp add: safe_int_def)
  then have "of_int \<bar>n\<bar> \<le> (of_int 9007199254740991 :: rat)" by (simp only: of_int_le_iff)
  then show ?thesis by (simp add: read_safe_integer_def int_js_def safe_integer_def)
qed

lemma read_safe_integer_sortDeep [simp]: "read_safe_integer (sortDeep v) = read_safe_integer v"
  by (cases v) (simp_all add: read_safe_integer_def)

lemma policy_js_props [simp]:
  "isRecord (policy_js p)"
  "prop_of (policy_js p) ''refusalRevision'' = mp_refusalRevision p"
  "prop_of (policy_js p) ''lastAccount'' = mp_lastAccount p"
  "prop_of (policy_js p) ''owner'' = (case mp_owner p of None \<Rightarrow> Null | Some s \<Rightarrow> Str s)"
  "prop_of (policy_js p) ''expiresAt'' = int_js (mp_expiresAt p)"
  "prop_of (policy_js p) ''token'' = Str (mp_token p)"
  "prop_of (policy_js p) ''nextAllowedAt'' = int_js (mp_nextAllowedAt p)"
  "prop_of (policy_js p) ''attempts'' = int_js (mp_attempts p)"
  by (simp_all add: policy_js_def split: option.split)

lemma read_policy_written: "wf_policy p \<Longrightarrow> read_policy (FileOk (canonicalJson (policy_js p))) = Inr p"
proof -
  assume wf: "wf_policy p"
  then have "read_lease_owner (sortDeep (case mp_owner p of None \<Rightarrow> Null | Some s \<Rightarrow> Str s)) = Some (mp_owner p)"
    by (auto simp: wf_policy_def read_lease_owner_def)
  with wf show ?thesis
    by (simp add: read_policy_def parse_policy_def canonicalJson_clean policy_js_clean prop_of_sortDeep
        scalar_sortDeep_id read_safe_integer_js wf_policy_def)
qed

interpretation lease_document: stored_document "\<lambda>dir. dir" writeFileAtomically
    "lease_file slug" wf_policy policy_js read_policy Inr for slug
  by unfold_locales (rule read_policy_written)

section \<open>Exclusion\<close>

lemma decision_acquired:
  assumes "lease_decision_at current now = Inr decision"
  shows "ld_acquired decision \<longleftrightarrow> mp_owner current = None \<or> mp_expiresAt current \<le> now"
proof -
  obtain nowText expiresText where t: "toISOString now = Inr nowText" "toISOString (mp_expiresAt current) = Inr expiresText"
    "leasePolicy \<lparr>li_now = nowText, li_requester = ''cli'', li_owner = mp_owner current,
       li_expiresAt = Some expiresText, li_leaseSeconds = 60\<rparr> = Inr decision"
    using assms by (auto simp: lease_decision_at_def rbind_Inr_iff)
  show ?thesis
    using leasePolicy_Inr(1) [OF t(3)] toISOString_parse [OF t(1)] toISOString_parse [OF t(2)] by simp
qed

lemma acquire_Inr:
  assumes "acquireMachineLease provider now credentialRevision token dir = Inr (lease, dir')"
  obtains slug current where "lease_slug provider = Inr slug"
    "read_policy (sd_docs dir (lease_file slug)) = Inr current"
    "(lease = None \<and> dir' = dir \<and> \<not> ((mp_owner current = None \<or> mp_expiresAt current \<le> now) \<and>
        (mp_nextAllowedAt current \<le> now \<or> changed_refusal current credentialRevision))) \<or>
     (lease = Some (taken_policy current (changed_refusal current credentialRevision) now token) \<and>
      (mp_owner current = None \<or> mp_expiresAt current \<le> now) \<and>
      (mp_nextAllowedAt current \<le> now \<or> changed_refusal current credentialRevision) \<and>
      dir' = dir\<lparr>sd_docs := writeFileAtomically (lease_file slug)
        (policy_js (taken_policy current (changed_refusal current credentialRevision) now token)) (sd_docs dir)\<rparr>)"
proof -
  from assms obtain slug current decision where
    a: "lease_slug provider = Inr slug" "read_policy (sd_docs dir (lease_file slug)) = Inr current"
      "lease_decision_at current now = Inr decision"
    by (auto simp: acquireMachineLease_def rbind_Inr_iff withStateLock_Inr)
  from assms a decision_acquired [OF a(3)] show ?thesis
    by (intro that [OF a(1,2)]) (auto simp: acquireMachineLease_def rbind_def withStateLock_Inr Let_def split: if_splits)
qed

lemma wf_taken: "wf_policy current \<Longrightarrow> safe_int (now + 60000) \<Longrightarrow> wf_policy (taken_policy current changed now token)"
  by (auto simp: wf_policy_def taken_policy_def scalar_def safe_int_def)

text \<open>C17: the lease is given only when it is free: when a request for it succeeds, the document named no
  owner, neither this tool nor the desktop, or its time had run out, so no token owned it any
  longer at that instant, the provider's next allowed instant had come (or the refusal it
  belongs to was for another credential), and afterwards exactly the new token owns it, for a
  minute.\<close>

theorem lease_taken_only_when_free:
  assumes "acquireMachineLease provider now credentialRevision token dir = Inr (Some lease, dir')"
    and "lease_slug provider = Inr slug" "read_policy (sd_docs dir (lease_file slug)) = Inr current"
    and "wf_policy current" "safe_int (now + 60000)"
  shows "(mp_owner current = None \<or> mp_expiresAt current \<le> now) \<and> stillOwned slug other now dir = Inr False \<and>
    (mp_nextAllowedAt current \<le> now \<or> changed_refusal current credentialRevision) \<and>
    stillOwned slug other later dir' = Inr (other = token \<and> later < now + 60000)"
  using assms(1)
proof (cases rule: acquire_Inr)
  case (1 slug' current')
  then have same: "slug' = slug" "current' = current" using assms(2,3) by simp_all
  let ?new = "taken_policy current (changed_refusal current credentialRevision) now token"
  have "read_policy (sd_docs dir' (lease_file slug)) = Inr ?new"
    using 1(3) same lease_document.read_saved [OF wf_taken [OF assms(4,5)], where slug = slug and s = "sd_docs dir"] by auto
  then have "stillOwned slug other later dir' = Inr (other = token \<and> later < now + 60000)"
    by (auto simp: stillOwned_def taken_policy_def)
  with 1(3) same assms(3) show ?thesis by (auto simp: stillOwned_def)
qed

text \<open>A holder that lost the lease changes nothing: every operation by a token that is not the
  document's fails, and a release by it leaves the directory as it is.\<close>

theorem lost_lease_is_powerless:
  assumes "read_policy (sd_docs dir (lease_file slug)) = Inr current" "mp_token current \<noteq> token"
  shows "(\<exists>e. mutate_lease slug token act dir = Inl e) \<and> release_lease slug token dir = dir"
  using assms by (auto simp: mutate_lease_def release_lease_def withStateLock_def rejectSymlink_def rbind_def
      split: sum.split)

lemma sample_lease:
  "acquireMachineLease ''GEMINI_CLI'' 1782900000000 None ''t'' empty_dir =
     Inr (Some (taken_policy unheld_policy False 1782900000000 ''t''),
       empty_dir\<lparr>sd_docs := writeFileAtomically (lease_file ''code-assist'')
         (policy_js (taken_policy unheld_policy False 1782900000000 ''t'')) (sd_docs empty_dir)\<rparr>)"
  "lease_slug ''GEMINI_CLI'' = Inr ''code-assist''"
proof -
  show slug: "lease_slug ''GEMINI_CLI'' = Inr ''code-assist''" by code_simp
  have d: "lease_decision_at unheld_policy 1782900000000 = Inr \<lparr>ld_acquired = True, ld_takeover = False,
      ld_owner = Some ''cli'', ld_expiresAt = Some (iso_text 1782900060000)\<rparr>"
    by (simp add: lease_decision_at_def unheld_policy_def toISOString_def max_time_def leasePolicy_def
        dateParse_iso_text Let_def)
  show "acquireMachineLease ''GEMINI_CLI'' 1782900000000 None ''t'' empty_dir =
     Inr (Some (taken_policy unheld_policy False 1782900000000 ''t''),
       empty_dir\<lparr>sd_docs := writeFileAtomically (lease_file ''code-assist'')
         (policy_js (taken_policy unheld_policy False 1782900000000 ''t'')) (sd_docs empty_dir)\<rparr>)"
    using d by (simp add: acquireMachineLease_def slug withStateLock_def rejectSymlink_def read_policy_def Let_def
        empty_dir_def changed_refusal_def) (simp add: unheld_policy_def)
qed

lemma empty_dir_policy: "read_policy (sd_docs empty_dir f) = Inr unheld_policy"
  by (simp add: empty_dir_def read_policy_def)

lemma wf_unheld: "wf_policy unheld_policy"
  by (simp add: wf_policy_def unheld_policy_def scalar_def safe_int_def)

theorem lease_taken_only_when_free_witness:
  "stillOwned ''code-assist'' ''t'' 1782900000000 empty_dir = Inr False"
  using lease_taken_only_when_free [OF sample_lease empty_dir_policy wf_unheld, of "''t''" 0]
  by (simp add: safe_int_def)

theorem lost_lease_is_powerless_witness: "release_lease ''codex'' ''t'' empty_dir = empty_dir"
  using lost_lease_is_powerless [OF empty_dir_policy, of "''t''" "''codex''" Inr] by (simp add: unheld_policy_def)

end
