(* ===== verification/Coordination.thy ===== *)
theory Coordination
  imports Cache
begin

text \<open>
  Who refreshes the cache (acquire/coordination.ts): the age of the rows, the writer markers that
  reserve a provider for a running desktop, the decision of a render whether to start a refresh
  behind itself, and the start tokens that let one render per window start it.
\<close>

section \<open>Age and ownership\<close>

definition CACHE_REFRESH_STALE_SECONDS :: rat where
  "CACHE_REFRESH_STALE_SECONDS = 60"

definition DESKTOP_OWNERSHIP_SECONDS :: int where
  "DESKTOP_OWNERSHIP_SECONDS = 900"

definition newest_step :: "ms \<Rightarrow> snapshot \<Rightarrow> ms" where
  "newest_step best row =
     (case dateParse (sn_observedAt row) of
        None \<Rightarrow> best
      | Some observed \<Rightarrow>
          (case best of None \<Rightarrow> Some observed | Some n \<Rightarrow> if n < observed then Some observed else best))"

definition newestObservedMilliseconds :: "snapshot list \<Rightarrow> ms" where
  "newestObservedMilliseconds rows = foldl newest_step None rows"

definition cacheAgeSeconds :: "snapshot list \<Rightarrow> string \<Rightarrow> rat option" where
  "cacheAgeSeconds rows now =
     (case (dateParse now, newestObservedMilliseconds rows) of
        (Some current, Some observed) \<Rightarrow> Some (of_int (current - observed) / 1000)
      | _ \<Rightarrow> None)"

definition writerHoldsCache :: "snapshot list \<Rightarrow> snapshot_writer \<Rightarrow> string \<Rightarrow> int \<Rightarrow> bool" where
  "writerHoldsCache rows writer now withinSeconds =
     (case dateParse now of
        None \<Rightarrow> False
      | Some current \<Rightarrow>
          list_ex (\<lambda>row. sn_writer row = Some writer \<and>
            (case dateParse (sn_observedAt row) of
               None \<Rightarrow> False
             | Some observed \<Rightarrow> observed \<le> current \<and> current - observed \<le> withinSeconds * 1000)) rows)"

definition desktopHoldsCache :: "snapshot list \<Rightarrow> string \<Rightarrow> int \<Rightarrow> bool" where
  "desktopHoldsCache rows now withinSeconds = writerHoldsCache rows Desktop now withinSeconds"

definition withWriter :: "snapshot list \<Rightarrow> snapshot_writer \<Rightarrow> snapshot list" where
  "withWriter rows writer = map (\<lambda>row. row\<lparr>sn_writer := Some writer\<rparr>) rows"

definition isClaudeWeeklyPoll :: "snapshot \<Rightarrow> bool" where
  "isClaudeWeeklyPoll row \<longleftrightarrow> sn_provider row = CLAUDE \<and> startsWith (sn_meter row) ''SEVEN_DAY'' \<and>
     source_kind_of row \<noteq> Some StatuslinePayload \<and> sn_availability row = None"

section \<open>The decision of a render\<close>

datatype hold_reason = HoldFresh | HoldDesktopRunning

text \<open>\<open>RefreshDecision\<close>: \<open>None\<close> is \<open>{ refresh: true }\<close>.\<close>

type_synonym refresh_decision = "hold_reason option"

datatype provider_decision = ProviderDue | ProviderHeld hold_reason

text \<open>\<open>[...new Set(...)]\<close> keeps the first occurrence of each value.\<close>

definition distinct_providers :: "snapshot list \<Rightarrow> provider_code list" where
  "distinct_providers rows = rev (remdups (rev (map sn_provider rows)))"

definition decide_provider :: "snapshot list \<Rightarrow> string \<Rightarrow> rat \<Rightarrow> bool \<Rightarrow> provider_code \<Rightarrow> provider_decision" where
  "decide_provider snapshots now staleSeconds claudePoll provider =
     (let all_rows = filter (\<lambda>row. sn_provider row = provider) snapshots;
          leased = (provider = CLAUDE \<and> claudePoll);
          rows = (if leased then filter isClaudeWeeklyPoll all_rows else all_rows)
      in if \<not> leased \<and> desktopHoldsCache rows now DESKTOP_OWNERSHIP_SECONDS then ProviderHeld HoldDesktopRunning
         else (case cacheAgeSeconds rows now of
                 None \<Rightarrow> ProviderDue
               | Some age \<Rightarrow> if 0 \<le> age \<and> age \<le> staleSeconds then ProviderHeld HoldFresh else ProviderDue))"

definition shouldStartRefresh :: "snapshot list \<Rightarrow> string \<Rightarrow> rat \<Rightarrow> bool \<Rightarrow> refresh_decision" where
  "shouldStartRefresh snapshots now staleSeconds claudePoll =
     (let providers = distinct_providers snapshots;
          decisions = map (decide_provider snapshots now staleSeconds claudePoll) providers
      in if providers = [] then None
         else if ProviderDue \<in> set decisions then None
         else if list_all (\<lambda>d. d = ProviderHeld HoldDesktopRunning) decisions then Some HoldDesktopRunning
         else Some HoldFresh)"

lemma newest_step_mem:
  "foldl newest_step m rows = Some n \<Longrightarrow> m = Some n \<or> (\<exists>row \<in> set rows. dateParse (sn_observedAt row) = Some n)"
proof (induction rows arbitrary: m)
  case (Cons row rows)
  then have "newest_step m row = Some n \<or> (\<exists>row \<in> set rows. dateParse (sn_observedAt row) = Some n)" by simp
  then show ?case by (auto simp: newest_step_def split: option.splits if_splits)
qed simp

lemma newestObserved_mem:
  "newestObservedMilliseconds rows = Some n \<Longrightarrow> \<exists>row \<in> set rows. dateParse (sn_observedAt row) = Some n"
  using newest_step_mem [of None rows n] by (simp add: newestObservedMilliseconds_def)

lemma set_distinct_providers [simp]: "set (distinct_providers rows) = sn_provider ` set rows"
  by (simp add: distinct_providers_def)

lemma cacheAge_Some:
  assumes "cacheAgeSeconds rows now = Some age"
  shows "\<exists>c n. dateParse now = Some c \<and> newestObservedMilliseconds rows = Some n \<and> age = of_int (c - n) / 1000"
proof -
  from assms obtain c n where c: "dateParse now = Some c" "newestObservedMilliseconds rows = Some n"
    by (auto simp: cacheAgeSeconds_def split: option.splits)
  then have "Some (of_int (c - n) / 1000) = Some age"
    using assms by (simp only: cacheAgeSeconds_def prod.case option.case)
  then have "age = of_int (c - n) / 1000" by (simp only: option.inject)
  with c show ?thesis by blast
qed

lemma decide_held:
  assumes "decide_provider snapshots now staleSeconds claudePoll provider = ProviderHeld reason"
  shows "\<exists>row \<in> set snapshots. \<exists>o' c. sn_provider row = provider \<and> dateParse (sn_observedAt row) = Some o' \<and>
    dateParse now = Some c \<and> o' \<le> c \<and>
    (provider = CLAUDE \<and> claudePoll \<longrightarrow> isClaudeWeeklyPoll row) \<and>
    (of_int (c - o') \<le> staleSeconds * 1000 \<or>
     \<not> (provider = CLAUDE \<and> claudePoll) \<and> sn_writer row = Some Desktop \<and> c - o' \<le> 900000)"
proof -
  let ?leased = "provider = CLAUDE \<and> claudePoll"
  let ?all = "filter (\<lambda>row. sn_provider row = provider) snapshots"
  let ?rows = "if ?leased then filter isClaudeWeeklyPoll ?all else ?all"
  show ?thesis
  proof (cases "\<not> ?leased \<and> desktopHoldsCache ?rows now DESKTOP_OWNERSHIP_SECONDS")
    case True
    then obtain row c o' where "row \<in> set ?rows" "dateParse now = Some c" "dateParse (sn_observedAt row) = Some o'"
      "o' \<le> c" "c - o' \<le> 900000" "sn_writer row = Some Desktop"
      by (auto simp: desktopHoldsCache_def writerHoldsCache_def list_ex_iff DESKTOP_OWNERSHIP_SECONDS_def
          split: option.splits)
    with True show ?thesis by (intro bexI [of _ row]) auto
  next
    case False
    with assms obtain age where age: "cacheAgeSeconds ?rows now = Some age" "0 \<le> age" "age \<le> staleSeconds"
      by (auto simp: decide_provider_def Let_def split: if_splits option.splits)
    then obtain c n where c: "dateParse now = Some c" "newestObservedMilliseconds ?rows = Some n"
      "age = of_int (c - n) / 1000"
      using cacheAge_Some by blast
    from newestObserved_mem [OF c(2)] obtain row where row: "row \<in> set ?rows" "dateParse (sn_observedAt row) = Some n"
      by blast
    have "0 \<le> (of_int (c - n) :: rat)" "of_int (c - n) \<le> staleSeconds * 1000"
      using age(2,3) c(3) by (simp_all add: field_simps)
    then have "n \<le> c" by simp
    with row c(1) \<open>of_int (c - n) \<le> staleSeconds * 1000\<close> show ?thesis
      by (intro bexI [of _ row]) (auto split: if_splits)
  qed
qed

text \<open>A render starts no refresh only if every provider of the cache has a reading of the near past:
  within the stale bound, or written by a desktop inside its quarter of an hour. A row stamped in
  the future holds nothing back, and when this tool polls Claude only a weekly reading of a poll
  speaks for Claude.\<close>

theorem render_waits_only_for_recent_rows:
  assumes "shouldStartRefresh snapshots now staleSeconds claudePoll = Some reason" "s \<in> set snapshots"
  shows "\<exists>row \<in> set snapshots. \<exists>o' c. sn_provider row = sn_provider s \<and>
    dateParse (sn_observedAt row) = Some o' \<and> dateParse now = Some c \<and> o' \<le> c \<and>
    (sn_provider s = CLAUDE \<and> claudePoll \<longrightarrow> isClaudeWeeklyPoll row) \<and>
    (of_int (c - o') \<le> staleSeconds * 1000 \<or>
     \<not> (sn_provider s = CLAUDE \<and> claudePoll) \<and> sn_writer row = Some Desktop \<and> c - o' \<le> 900000)"
proof -
  have "ProviderDue \<notin> decide_provider snapshots now staleSeconds claudePoll ` sn_provider ` set snapshots"
    using assms(1) by (auto simp: shouldStartRefresh_def Let_def split: if_splits)
  then have "decide_provider snapshots now staleSeconds claudePoll (sn_provider s) \<noteq> ProviderDue"
    using assms(2) by force
  then obtain reason' where "decide_provider snapshots now staleSeconds claudePoll (sn_provider s) = ProviderHeld reason'"
    by (cases "decide_provider snapshots now staleSeconds claudePoll (sn_provider s)") auto
  then show ?thesis by (rule decide_held)
qed

lemma sample_fresh:
  "shouldStartRefresh [sample_row] ''2026-07-01T10:00:00.000Z'' 60 False = Some HoldFresh"
  by (simp add: shouldStartRefresh_def distinct_providers_def decide_provider_def sample_row_fields
      desktopHoldsCache_def writerHoldsCache_def cacheAgeSeconds_def newestObservedMilliseconds_def newest_step_def
      sample_dates) (simp add: sample_row_def)

theorem render_waits_only_for_recent_rows_witness:
  "\<exists>o' c. dateParse (sn_observedAt sample_row) = Some o' \<and> dateParse ''2026-07-01T10:00:00.000Z'' = Some c \<and> o' \<le> c"
  using render_waits_only_for_recent_rows [OF sample_fresh, of sample_row] by auto

section \<open>Starting a refresh\<close>

definition REFRESH_START_INTERVAL_MILLISECONDS :: int where
  "REFRESH_START_INTERVAL_MILLISECONDS = 120000"

definition REFRESH_LOCK_STALE_MILLISECONDS :: int where
  "REFRESH_LOCK_STALE_MILLISECONDS = 60000"

text \<open>What \<open>lstat\<close> of the refresh lock answers: its modification time (\<open>None\<close> when it is no finite
  number), or an error with its code.\<close>

datatype lock_stat = LockStat ms | LockError "string option"

definition refreshLockHeld :: "lock_stat \<Rightarrow> int \<Rightarrow> bool" where
  "refreshLockHeld observed now =
     (case observed of
        LockStat None \<Rightarrow> True
      | LockStat (Some mtime) \<Rightarrow> now - mtime < REFRESH_LOCK_STALE_MILLISECONDS
      | LockError code \<Rightarrow> code \<noteq> Some ''ENOENT'')"

text \<open>The windows whose token file exists; \<open>None\<close> is the window of a clock that cannot be read.
  \<open>start_refresh\<close> is the exclusive creation of this window's token with the removal of tokens
  more than two windows behind, and says whether the token was created.\<close>

definition start_window :: "ms \<Rightarrow> ms" where
  "start_window now = map_option (\<lambda>n. n div REFRESH_START_INTERVAL_MILLISECONDS) now"

definition old_token :: "ms \<Rightarrow> ms \<Rightarrow> bool" where
  "old_token window token = (case (window, token) of (Some v, Some w) \<Rightarrow> 2 < v - w | _ \<Rightarrow> False)"

definition removeOldStartTokens :: "ms list \<Rightarrow> ms \<Rightarrow> ms list" where
  "removeOldStartTokens tokens window = filter (\<lambda>w. \<not> old_token window w) tokens"

definition start_refresh :: "ms \<Rightarrow> ms list \<Rightarrow> bool \<times> ms list" where
  "start_refresh now tokens =
     (let window = start_window now
      in if window \<in> set tokens then (False, tokens)
         else (True, removeOldStartTokens (window # tokens) window))"

record spawn_options =
  so_snapshots :: "snapshot list"
  so_now :: string
  so_openLimiterScript :: string
  so_staleSeconds :: "rat option"
  so_claudePoll :: "bool option"

datatype spawn_result = Spawned | HeldBack hold_reason | AlreadyRunning | NoScript | SpawnFailed

text \<open>The arguments after the options are what the machine answers: the lock, whether the directory
  can be written, and whether the spawn call itself throws. A failure is recorded in a file of its
  own, the last component.\<close>

definition spawnDetachedRefresh ::
  "spawn_options \<Rightarrow> bool \<Rightarrow> bool \<Rightarrow> bool \<Rightarrow> ms list \<Rightarrow> spawn_result \<times> ms list \<times> bool" where
  "spawnDetachedRefresh opts lockHeld writable spawnThrows tokens =
     (case shouldStartRefresh (so_snapshots opts) (so_now opts)
             (case so_staleSeconds opts of None \<Rightarrow> CACHE_REFRESH_STALE_SECONDS | Some n \<Rightarrow> n)
             (so_claudePoll opts = Some True) of
        Some reason \<Rightarrow> (HeldBack reason, tokens, False)
      | None \<Rightarrow>
          if so_openLimiterScript opts = [] then (NoScript, tokens, False)
          else if lockHeld then (AlreadyRunning, tokens, False)
          else if \<not> writable then (SpawnFailed, tokens, True)
          else (case start_refresh (dateParse (so_now opts)) tokens of
                  (False, tokens') \<Rightarrow> (AlreadyRunning, tokens', False)
                | (True, tokens') \<Rightarrow>
                    if spawnThrows then (SpawnFailed, tokens', True) else (Spawned, tokens', False)))"

text \<open>The renders of all processes in the order of their token creation, each with its window and
  what it did.\<close>

record render =
  re_options :: spawn_options
  re_lockHeld :: bool
  re_writable :: bool
  re_spawnThrows :: bool

definition spawn_of :: "render \<Rightarrow> ms list \<Rightarrow> spawn_result \<times> ms list" where
  "spawn_of r tokens =
     (let (result, tokens', _) =
        spawnDetachedRefresh (re_options r) (re_lockHeld r) (re_writable r) (re_spawnThrows r) tokens
      in (result, tokens'))"

definition render_window :: "render \<Rightarrow> ms" where
  "render_window r = start_window (dateParse (so_now (re_options r)))"

primrec run_renders :: "render list \<Rightarrow> ms list \<Rightarrow> (ms \<times> spawn_result) list" where
  "run_renders [] tokens = []"
| "run_renders (r # rs) tokens =
     (let (result, tokens') = spawn_of r tokens in (render_window r, result) # run_renders rs tokens')"

text \<open>A render either leaves the tokens alone and spawns nothing, or creates its token.\<close>

lemma spawn_of_cases:
  obtains (kept) result where "spawn_of r tokens = (result, tokens)" "result \<noteq> Spawned"
  | (created) result where "render_window r \<notin> set tokens"
      "spawn_of r tokens = (result, removeOldStartTokens (render_window r # tokens) (render_window r))"
proof -
  have "(\<exists>result. spawn_of r tokens = (result, tokens) \<and> result \<noteq> Spawned) \<or>
    render_window r \<notin> set tokens \<and>
    (\<exists>result. spawn_of r tokens = (result, removeOldStartTokens (render_window r # tokens) (render_window r)))"
    by (simp add: spawn_of_def spawnDetachedRefresh_def start_refresh_def render_window_def Let_def split: option.split)
  then show ?thesis using kept created by blast
qed

text \<open>Whether a window lets a token of window \<open>w\<close> be created again.\<close>

definition ahead :: "ms \<Rightarrow> ms \<Rightarrow> bool" where
  "ahead w v \<longleftrightarrow> (\<exists>m n. w = Some m \<and> v = Some n \<and> m + 2 < n)"

lemma token_kept: "w \<in> set tokens \<Longrightarrow> \<not> ahead w v \<Longrightarrow> w \<in> set (removeOldStartTokens (v # tokens) v)"
  by (auto simp: removeOldStartTokens_def old_token_def ahead_def split: option.splits)

lemma token_created: "v \<in> set (removeOldStartTokens (v # tokens) v)"
  by (auto simp: removeOldStartTokens_def old_token_def split: option.splits)

lemma run_renders_Cons:
  "spawn_of r tokens = (result, tokens') \<Longrightarrow> run_renders (r # rs) tokens = (render_window r, result) # run_renders rs tokens'"
  by simp

lemma run_renders_held:
  assumes "w \<in> set tokens" "i < length (run_renders rs tokens)" "run_renders rs tokens ! i = (w, Spawned)"
  shows "\<exists>j < i. ahead w (fst (run_renders rs tokens ! j))"
  using assms
proof (induction rs arbitrary: tokens i)
  case (Cons r rs)
  show ?case
  proof (cases rule: spawn_of_cases [of r tokens])
    case (kept result)
    note all = run_renders_Cons [OF kept(1), of rs]
    with Cons.prems kept(2) obtain k where k: "i = Suc k" by (cases i) auto
    then obtain j where "j < k" "ahead w (fst (run_renders rs tokens ! j))"
      using Cons.IH [of tokens k] Cons.prems all by auto
    then show ?thesis unfolding all using k by (intro exI [of _ "Suc j"]) simp
  next
    case (created result)
    note all = run_renders_Cons [OF created(2), of rs]
    from created(1) Cons.prems(1) have "render_window r \<noteq> w" by blast
    with Cons.prems all obtain k where k: "i = Suc k" by (cases i) auto
    show ?thesis
    proof (cases "ahead w (render_window r)")
      case True
      then show ?thesis unfolding all using k by (intro exI [of _ 0]) simp
    next
      case False
      from token_kept [OF Cons.prems(1) False] obtain j where
        "j < k" "ahead w (fst (run_renders rs (removeOldStartTokens (render_window r # tokens) (render_window r)) ! j))"
        using Cons.IH [of _ k] Cons.prems all k by auto
      then show ?thesis unfolding all using k by (intro exI [of _ "Suc j"]) simp
    qed
  qed
qed simp

text \<open>One start per window, across every process: two renders of the same window can both spawn a
  refresh only if in between a render whose clock was more than two windows ahead came and the
  old tokens were cleared.\<close>

theorem one_start_per_window:
  assumes "i < k" "k < length (run_renders rs tokens)"
    and "run_renders rs tokens ! i = (w, Spawned)" "run_renders rs tokens ! k = (w, Spawned)"
  shows "\<exists>j. i < j \<and> j < k \<and> ahead w (fst (run_renders rs tokens ! j))"
  using assms
proof (induction rs arbitrary: tokens i k)
  case (Cons r rs)
  obtain result tokens' where s: "spawn_of r tokens = (result, tokens')" by fastforce
  note all = run_renders_Cons [OF s, of rs]
  from Cons.prems(1) obtain k' where k: "k = Suc k'" by (cases k) auto
  show ?case
  proof (cases i)
    case 0
    with Cons.prems(3) all have w: "render_window r = w" "result = Spawned" by auto
    have "w \<in> set tokens'"
      using s w by (cases rule: spawn_of_cases [of r tokens]) (auto simp: token_created)
    then obtain j where "j < k'" "ahead w (fst (run_renders rs tokens' ! j))"
      using run_renders_held [of w tokens' k' rs] Cons.prems k all by auto
    then show ?thesis unfolding all using 0 k by (intro exI [of _ "Suc j"]) simp
  next
    case (Suc i')
    then obtain j where "i' < j" "j < k'" "ahead w (fst (run_renders rs tokens' ! j))"
      using Cons.IH [of i' k' tokens'] Cons.prems k all by auto
    then show ?thesis unfolding all using Suc k by (intro exI [of _ "Suc j"]) simp
  qed
qed simp

text \<open>Three renders over an empty cache: one of the window, one six minutes ahead, one of the first
  window again.\<close>

definition sample_render :: "string \<Rightarrow> render" where
  "sample_render now =
     \<lparr>re_options = \<lparr>so_snapshots = [], so_now = now, so_openLimiterScript = ''cli.js'', so_staleSeconds = None,
        so_claudePoll = None\<rparr>, re_lockHeld = False, re_writable = True, re_spawnThrows = False\<rparr>"

lemma sample_renders:
  "run_renders [sample_render ''2026-07-01T10:00:00.000Z'', sample_render ''2026-07-01T11:00:00.000Z'',
     sample_render ''2026-07-01T10:00:00.000Z''] [] =
   [(Some 14857500, Spawned), (Some 14857530, Spawned), (Some 14857500, Spawned)]"
  by (simp add: spawn_of_def spawnDetachedRefresh_def sample_render_def shouldStartRefresh_def distinct_providers_def
      start_refresh_def start_window_def removeOldStartTokens_def old_token_def REFRESH_START_INTERVAL_MILLISECONDS_def
      render_window_def sample_dates eleven_oclock Let_def)

theorem one_start_per_window_witness:
  "\<exists>j. 0 < j \<and> j < 2 \<and> ahead (Some 14857500) (fst ([(Some 14857500, Spawned), (Some 14857530, Spawned),
     (Some 14857500, Spawned)] ! j))"
  using one_start_per_window [of 0 2 "[sample_render ''2026-07-01T10:00:00.000Z'',
     sample_render ''2026-07-01T11:00:00.000Z'', sample_render ''2026-07-01T10:00:00.000Z'']" "[]" "Some 14857500"]
  unfolding sample_renders by simp

end
