(* ===== verification/Connector.thy ===== *)
theory Connector
  imports Schedule
begin

text \<open>
  The vocabulary of the connectors (connectors/shared.ts): bounded numbers, reset instants in the
  three encodings providers use, the lifetime of a row, and the raw meter a parser hands to the
  normalizer. A value of a payload is a \<open>js\<close>; a reader answers \<open>None\<close> where the source answers
  \<open>null\<close>. Printing an instant past the last date throws, so \<open>shortExpiry\<close> is a result.
\<close>

section \<open>Readers of values\<close>

definition record_of :: "js \<Rightarrow> js option" where
  "record_of v = (if isRecord v then Some v else None)"

definition boundedNumber :: "js \<Rightarrow> rat \<Rightarrow> rat option" where
  "boundedNumber v maximum =
     (case v of Num (Fin r) \<Rightarrow> if 0 \<le> r \<and> r \<le> maximum then Some r else None | _ \<Rightarrow> None)"

definition boundedFraction :: "js \<Rightarrow> rat option" where
  "boundedFraction v =
     (case v of Num (Fin r) \<Rightarrow> if 0 \<le> r \<and> r \<le> 1 then Some r else None | _ \<Rightarrow> None)"

definition MAX_WINDOW_SECONDS :: rat where
  "MAX_WINDOW_SECONDS = 31536000"

definition windowSeconds :: "js \<Rightarrow> rat option" where
  "windowSeconds v =
     (case v of
        Num (Fin r) \<Rightarrow> if is_integer r \<and> 0 < r \<and> r \<le> MAX_WINDOW_SECONDS then Some r else None
      | _ \<Rightarrow> None)"

fun keys_of :: "js \<Rightarrow> string list" where
  "keys_of (Obj ps) = map fst ps"
| "keys_of _ = []"

text \<open>Every run of other characters becomes one underscore.\<close>

function collapse :: "(char \<Rightarrow> bool) \<Rightarrow> string \<Rightarrow> string" where
  "collapse keep [] = []"
| "collapse keep (c # cs) =
     (if keep c then c # collapse keep cs else CHR ''_'' # collapse keep (dropWhile (\<lambda>x. \<not> keep x) cs))"
  by pat_completeness auto
termination by (relation "measure (length \<circ> snd)") (auto intro: le_imp_less_Suc length_dropWhile_le)

definition strip_underscores :: "string \<Rightarrow> string" where
  "strip_underscores s =
     rev (dropWhile (\<lambda>c. c = CHR ''_'') (rev (dropWhile (\<lambda>c. c = CHR ''_'') s)))"

section \<open>Numbers in strings\<close>

text \<open>The value of \<open>digits\<close> or \<open>digits.digits\<close>.\<close>

definition decimal_value :: "string \<Rightarrow> string \<Rightarrow> rat" where
  "decimal_value whole decimals = of_nat (number_of_digits whole) + of_nat (number_of_digits decimals) / 10 ^ length decimals"

text \<open>At and above half a unit in the last place over the largest double, a literal is infinite.\<close>

definition infinite_from :: rat where
  "infinite_from = 2 ^ 1024 - 2 ^ 970"

definition TRILLION :: rat where
  "TRILLION = 1000000000000"

fun hex_value :: "char \<Rightarrow> nat" where
  "hex_value c =
     (if is_digit c then digit_value c
      else if is_lower c then of_char c - 87
      else if is_upper c then of_char c - 55 else 99)"

definition radix_number :: "nat \<Rightarrow> string \<Rightarrow> rat option" where
  "radix_number base s =
     (if s \<noteq> [] \<and> list_all (\<lambda>c. hex_value c < base) s
      then Some (of_nat (foldl (\<lambda>n c. base * n + hex_value c) 0 s)) else None)"

definition scaled :: "rat \<Rightarrow> string \<Rightarrow> rat option" where
  "scaled v s =
     (let negative = startsWith s ''-''; digits = (if negative \<or> startsWith s ''+'' then tl s else s)
      in if digits = [] \<or> \<not> list_all is_digit digits then None
         else Some (if negative then v / 10 ^ number_of_digits digits else v * 10 ^ number_of_digits digits))"

text \<open>An unsigned decimal literal: digits with an optional point and exponent.\<close>

definition unsigned_number :: "string \<Rightarrow> rat option" where
  "unsigned_number s =
     (let whole = takeWhile is_digit s; rest = dropWhile is_digit s; point = startsWith rest ''.'';
          decimals = (if point then takeWhile is_digit (tl rest) else []);
          tail = (if point then dropWhile is_digit (tl rest) else rest);
          v = decimal_value whole decimals
      in if whole = [] \<and> decimals = [] then None
         else case tail of [] \<Rightarrow> Some v | c # exponent \<Rightarrow> if c = CHR ''e'' \<or> c = CHR ''E'' then scaled v exponent else None)"

text \<open>\<open>Number\<close> of a string: \<open>None\<close> where it is \<open>NaN\<close> or infinite.\<close>

definition js_number :: "string \<Rightarrow> rat option" where
  "js_number text =
     (let s = trim text; prefix = toLowerCase (take 2 s); digits = drop 2 s;
          negative = startsWith s ''-''; unsigned = (if negative \<or> startsWith s ''+'' then tl s else s)
      in if s = [] then Some 0
         else case (if prefix = ''0x'' then radix_number 16 digits
                    else if prefix = ''0o'' then radix_number 8 digits
                    else if prefix = ''0b'' then radix_number 2 digits
                    else unsigned_number unsigned) of
                None \<Rightarrow> None
              | Some v \<Rightarrow> if v < infinite_from then Some (if negative then - v else v) else None)"

definition nullish :: "js \<Rightarrow> bool" where
  "nullish v \<longleftrightarrow> v = Undefined \<or> v = Null"

definition meters_or_null :: "js list \<Rightarrow> js list option" where
  "meters_or_null meters = (if meters = [] then None else Some meters)"

section \<open>Instants\<close>

definition MAX_EPOCH_SECONDS :: rat where
  "MAX_EPOCH_SECONDS = 1000000000000"

definition CLOCK_SKEW_SECONDS :: rat where
  "CLOCK_SKEW_SECONDS = 3600"

definition plausibleResetHorizon :: "rat \<Rightarrow> rat" where
  "plausibleResetHorizon seconds = seconds * 2 + CLOCK_SKEW_SECONDS"

definition futureInstant :: "js \<Rightarrow> string \<Rightarrow> string option" where
  "futureInstant v now =
     (case v of
        Str s \<Rightarrow>
          (case (dateParse s, dateParse now) of
             (Some parsed, Some current) \<Rightarrow> if current < parsed then date_text (of_int parsed) else None
           | _ \<Rightarrow> None)
      | _ \<Rightarrow> None)"

text \<open>The optional plausibility bound of the two readers below.\<close>

definition too_far :: "rat option \<Rightarrow> rat \<Rightarrow> rat \<Rightarrow> bool" where
  "too_far maxAhead current ms =
     (case maxAhead of None \<Rightarrow> False | Some ahead \<Rightarrow> 0 < ahead \<and> current + ahead * 1000 < ms)"

definition futureInstantFromEpochSeconds :: "js \<Rightarrow> string \<Rightarrow> rat option \<Rightarrow> string option" where
  "futureInstantFromEpochSeconds v now maxAhead =
     (case v of
        Num (Fin r) \<Rightarrow>
          if r \<le> 0 \<or> MAX_EPOCH_SECONDS \<le> r then None
          else
            (case dateParse now of
               None \<Rightarrow> None
             | Some current \<Rightarrow>
                 let ms = math_round (r * 1000)
                 in if ms \<le> current \<or> too_far maxAhead (of_int current) (of_int ms) then None
                    else date_text (of_int ms))
      | _ \<Rightarrow> None)"

text \<open>The first point followed by digits, with its fraction brought to three of at most nine digits.\<close>

fun three_digits :: "string \<Rightarrow> string" where
  "three_digits [] = []"
| "three_digits (c # cs) =
     (let ds = take 9 (takeWhile is_digit cs)
      in if c = CHR ''.'' \<and> ds \<noteq> [] then c # take 3 (ds @ ''000'') @ drop (length ds) cs
         else c # three_digits cs)"

text \<open>\<open>(Z|[+-]dd:?dd)$\<close>, read from the end.\<close>

definition states_zone :: "string \<Rightarrow> bool" where
  "states_zone s =
     (case rev s of
        [] \<Rightarrow> False
      | c # cs \<Rightarrow>
          c = CHR ''Z'' \<or>
          (case rev s of
             d4 # d3 # x # d2 # d1 # sign # _ \<Rightarrow>
               list_all is_digit [d1, d2, d3, d4] \<and> x = CHR '':'' \<and> sign \<in> {CHR ''+'', CHR ''-''}
           | _ \<Rightarrow> False) \<or>
          (case rev s of
             d4 # d3 # d2 # d1 # sign # _ \<Rightarrow>
               list_all is_digit [d1, d2, d3, d4] \<and> sign \<in> {CHR ''+'', CHR ''-''}
           | _ \<Rightarrow> False))"

definition futureInstantFromRfc3339 :: "js \<Rightarrow> string \<Rightarrow> rat option \<Rightarrow> string option" where
  "futureInstantFromRfc3339 v now maxAhead =
     (case v of
        Str s \<Rightarrow>
          if 64 < length s then None
          else
            let normalized = three_digits (trim s);
                withZone = (if states_zone normalized then normalized else normalized @ ''Z'')
            in (case (dateParse withZone, dateParse now) of
                  (Some parsed, Some current) \<Rightarrow>
                    if parsed \<le> current \<or> too_far maxAhead (of_int current) (of_int parsed) then None
                    else date_text (of_int parsed)
                | _ \<Rightarrow> None)
      | _ \<Rightarrow> None)"

definition instantAfter :: "string \<Rightarrow> rat \<Rightarrow> string option" where
  "instantAfter now seconds =
     (case dateParse now of None \<Rightarrow> None | Some current \<Rightarrow> date_text (of_int current + seconds * 1000))"

definition shortExpiry :: "string \<Rightarrow> string option result" where
  "shortExpiry now =
     (case dateParse now of
        None \<Rightarrow> Inr None
      | Some parsed \<Rightarrow> rbind (toISOString (parsed + 60000)) (\<lambda>s. Inr (Some s)))"

section \<open>Raw meters\<close>

record raw_input =
  ri_provider :: provider_code
  ri_meter :: string
  ri_value :: rat
  ri_window :: snapshot_window
  ri_resetAt :: "string option"
  ri_source :: snapshot_source
  ri_precision :: snapshot_precision
  ri_observedAt :: string
  ri_expiresAt :: string
  ri_labels :: connector_labels
  ri_amounts :: "snapshot_amounts option"

definition amounts_js :: "snapshot_amounts option \<Rightarrow> (string \<times> js) list" where
  "amounts_js amounts =
     (case amounts of
        None \<Rightarrow> []
      | Some a \<Rightarrow> [(''usedAmount'', num_js (am_usedAmount a)), (''limitAmount'', num_js (am_limitAmount a)),
                   (''currency'', Str (currency_str (am_currency a)))])"

text \<open>A meter written as an object literal; \<open>rawMeter\<close> writes the unit and spreads the amounts behind the
  fields it was given.\<close>

definition meter_literal ::
  "raw_input \<Rightarrow> js \<Rightarrow> snapshot_unit \<Rightarrow> snapshot_kind option \<Rightarrow> snapshot_availability option \<Rightarrow> js" where
  "meter_literal input window unit kind availability =
     obj ([(''provider'', Str (provider_str (ri_provider input))), (''meter'', Str (ri_meter input)),
           (''value'', num_js (ri_value input)), (''window'', window),
           (''resetAt'', case ri_resetAt input of None \<Rightarrow> Null | Some r \<Rightarrow> Str r),
           (''source'', Str (source_str (ri_source input))),
           (''precision'', Str (precision_str (ri_precision input))),
           (''observedAt'', Str (ri_observedAt input)), (''expiresAt'', Str (ri_expiresAt input)),
           (''labels'', labels_js (ri_labels input)), (''unit'', Str (unit_str unit)),
           (''kind'', opt_js (map_option (Str \<circ> kind_str) kind)),
           (''availability'', opt_js (map_option (Str \<circ> availability_str) availability))] @
          amounts_js (ri_amounts input))"

definition rawMeter :: "raw_input \<Rightarrow> js" where
  "rawMeter input = meter_literal input (window_js (ri_window input)) PERCENT None None"

text \<open>The connection a reader reports beside its meters; an absent payload is \<open>undefined\<close> or null.\<close>

definition connectorConnection :: "bool \<Rightarrow> js \<Rightarrow> string option \<Rightarrow> connection_status" where
  "connectorConnection parsed payload tool =
     (if parsed then connectionStatus CONNECTED None tool
      else if payload = Undefined \<or> payload = Null then connectionStatus DETECTED (Some ToolNotRunning) tool
      else connectionStatus CS_ERROR (Some ShapeMismatch) tool)"

datatype connector_result = ConnectorMeters "js list" connection_status | ConnectorUnknown connection_status

text \<open>The reader of a connector: its parser's answer and the connection beside it.\<close>

definition connector_read :: "(js \<Rightarrow> string \<Rightarrow> js list option result) \<Rightarrow> string option \<Rightarrow> js \<Rightarrow> string \<Rightarrow> connector_result result" where
  "connector_read parse tool payload now =
     rbind (parse payload now) (\<lambda>meters.
       let connection = connectorConnection (meters \<noteq> None) payload tool
       in Inr (case meters of None \<Rightarrow> ConnectorUnknown connection | Some ms \<Rightarrow> ConnectorMeters ms connection))"

section \<open>Facts\<close>

text \<open>What a reader of a reset instant promises: a canonical instant after the clock and within the bound.\<close>

definition ahead_of :: "string \<Rightarrow> rat option \<Rightarrow> string \<Rightarrow> bool" where
  "ahead_of now bound r \<longleftrightarrow>
     iso_instant r \<and>
     (\<exists>current t. dateParse now = Some current \<and> dateParse r = Some t \<and> current < t \<and>
        \<not> too_far bound (of_int current) (of_int t))"

lemma time_clip_numeral [simp]: "time_clip (numeral k) = numeral k"
  using time_clip_of_int [of "numeral k"] by simp

lemma math_round_int [simp]: "math_round (of_int n) = n"
  unfolding math_round_def by linarith

lemma math_round_numeral [simp]: "math_round (numeral k) = numeral k"
  using math_round_int [of "numeral k"] by simp

lemma normalizeMeter_unsafe: "prop_of raw ''meter'' = Str m \<Longrightarrow> \<not> safeMeter m \<Longrightarrow> normalizeMeter raw = None"
  by (simp add: normalizeMeter_def read_meter_def read_retry_at_def read_optional_def split: option.splits)

lemma iso_instant_iso_text: "\<bar>t\<bar> \<le> max_time \<Longrightarrow> iso_instant (iso_text t)"
  by (auto simp: iso_instant_def isIsoInstant_iff)

lemma date_text_ahead:
  assumes "date_text (of_int t) = Some r" "dateParse now = Some current" "current < t"
    "\<not> too_far bound (of_int current) (of_int t)"
  shows "ahead_of now bound r"
proof -
  have "\<bar>t\<bar> \<le> max_time" "r = iso_text t" using assms(1) by (simp_all add: date_text_eq_Some)
  then show ?thesis using assms by (auto simp: ahead_of_def iso_instant_iso_text dateParse_iso_text)
qed

lemma epoch_ahead: "futureInstantFromEpochSeconds v now bound = Some r \<Longrightarrow> ahead_of now bound r"
  by (auto simp: futureInstantFromEpochSeconds_def Let_def not_le intro: date_text_ahead
      split: js.splits jsnum.splits if_splits option.splits)

lemma rfc3339_ahead: "futureInstantFromRfc3339 v now bound = Some r \<Longrightarrow> ahead_of now bound r"
  by (auto simp: futureInstantFromRfc3339_def Let_def not_le intro: date_text_ahead
      split: js.splits if_splits option.splits)

lemma shortExpiry_Some:
  assumes "shortExpiry now = Inr (Some e)"
  obtains current where "dateParse now = Some current" "iso_instant e" "dateParse e = Some (current + 60000)"
  using assms by (auto simp: shortExpiry_def toISOString_Inr rbind_Inr_iff iso_instant_iso_text dateParse_iso_text
      split: option.splits)

lemma boundedNumber_range: "boundedNumber v m = Some r \<Longrightarrow> 0 \<le> r \<and> r \<le> m"
  by (auto simp: boundedNumber_def split: js.splits jsnum.splits if_splits)

subsection \<open>Raw meters and the normalizer\<close>

definition kept_amounts :: "raw_input \<Rightarrow> snapshot_amounts option" where
  "kept_amounts input =
     (case ri_amounts input of
        None \<Rightarrow> None
      | Some a \<Rightarrow> if wf_amount (am_usedAmount a) \<and> wf_amount (am_limitAmount a) then Some a else None)"

definition raw_row :: "raw_input \<Rightarrow> snapshot" where
  "raw_row input =
     \<lparr>sn_provider = ri_provider input, sn_meter = ri_meter input, sn_value = ri_value input, sn_unit = PERCENT,
      sn_window = ri_window input, sn_resetAt = ri_resetAt input, sn_source = ri_source input,
      sn_precision = ri_precision input, sn_observedAt = ri_observedAt input, sn_expiresAt = ri_expiresAt input,
      sn_labels = ri_labels input, sn_usedAmount = map_option am_usedAmount (kept_amounts input),
      sn_limitAmount = map_option am_limitAmount (kept_amounts input),
      sn_currency = map_option am_currency (kept_amounts input), sn_accountId = None, sn_accountLabel = None,
      sn_provenance = None, sn_writer = None, sn_kind = None, sn_availability = None, sn_retryAt = None\<rparr>"

lemma prop_of_amounts:
  "prop_of (obj (amounts_js a)) ''usedAmount'' = opt_js (map_option (num_js \<circ> am_usedAmount) a)"
  "prop_of (obj (amounts_js a)) ''limitAmount'' = opt_js (map_option (num_js \<circ> am_limitAmount) a)"
  "prop_of (obj (amounts_js a)) ''currency'' = opt_js (map_option (Str \<circ> currency_str \<circ> am_currency) a)"
  "k \<noteq> ''usedAmount'' \<Longrightarrow> k \<noteq> ''limitAmount'' \<Longrightarrow> k \<noteq> ''currency'' \<Longrightarrow> prop_of (obj (amounts_js a)) k = Undefined"
  by (cases a; simp add: amounts_js_def num_js_def)+

lemma meter_literal_props [simp]:
  "isRecord (meter_literal i w u k a)"
  "prop_of (meter_literal i w u k a) ''provider'' = Str (provider_str (ri_provider i))"
  "prop_of (meter_literal i w u k a) ''meter'' = Str (ri_meter i)"
  "prop_of (meter_literal i w u k a) ''value'' = num_js (ri_value i)"
  "prop_of (meter_literal i w u k a) ''unit'' = Str (unit_str u)"
  "prop_of (meter_literal i w u k a) ''resetAt'' = (case ri_resetAt i of None \<Rightarrow> Null | Some r \<Rightarrow> Str r)"
  "prop_of (meter_literal i w u k a) ''source'' = Str (source_str (ri_source i))"
  "prop_of (meter_literal i w u k a) ''precision'' = Str (precision_str (ri_precision i))"
  "prop_of (meter_literal i w u k a) ''observedAt'' = Str (ri_observedAt i)"
  "prop_of (meter_literal i w u k a) ''expiresAt'' = Str (ri_expiresAt i)"
  "prop_of (meter_literal i w u k a) ''labels'' = labels_js (ri_labels i)"
  "prop_of (meter_literal i w u k a) ''kind'' = opt_js (map_option (Str \<circ> kind_str) k)"
  "prop_of (meter_literal i w u k a) ''availability'' = opt_js (map_option (Str \<circ> availability_str) a)"
  "prop_of (meter_literal i w u k a) ''usedAmount'' = opt_js (map_option (num_js \<circ> am_usedAmount) (ri_amounts i))"
  "prop_of (meter_literal i w u k a) ''limitAmount'' = opt_js (map_option (num_js \<circ> am_limitAmount) (ri_amounts i))"
  "prop_of (meter_literal i w u k a) ''currency'' = opt_js (map_option (Str \<circ> currency_str \<circ> am_currency) (ri_amounts i))"
  "prop_of (meter_literal i w u k a) ''accountId'' = Undefined" "prop_of (meter_literal i w u k a) ''accountLabel'' = Undefined"
  "prop_of (meter_literal i w u k a) ''provenance'' = Undefined" "prop_of (meter_literal i w u k a) ''writer'' = Undefined"
  "prop_of (meter_literal i w u k a) ''retryAt'' = Undefined"
  by (simp_all add: meter_literal_def num_js_def labels_js_def prop_of_amounts split: option.splits)

lemma meter_literal_window: "w \<noteq> Undefined \<Longrightarrow> prop_of (meter_literal i w u k a) ''window'' = w"
  by (simp add: meter_literal_def num_js_def labels_js_def prop_of_amounts split: option.splits)

lemma normalizeAmounts_literal: "normalizeAmounts (meter_literal i w u k a) = kept_amounts i"
  by (cases "ri_amounts i")
    (auto simp: normalizeAmounts_def kept_amounts_def read_amount_def num_js_def wf_amount_def)

lemma read_optional_code [simp]:
  "read_optional kind_str SNAPSHOT_KINDS (opt_js (map_option (Str \<circ> kind_str) k)) = Some k"
  "read_optional availability_str SNAPSHOT_AVAILABILITIES (opt_js (map_option (Str \<circ> availability_str) a)) = Some a"
  by (cases k; simp add: read_optional_def) (cases a; simp add: read_optional_def)

text \<open>The normalizer on a meter whose fields a parser got right: the code, the range of the value and the
  window decide, and the row has every field the parser gave it; the amounts are kept when both are in range.\<close>

definition wf_fields :: "raw_input \<Rightarrow> bool" where
  "wf_fields input \<longleftrightarrow>
     0 \<le> ri_value input \<and> wf_labels (ri_labels input) \<and>
     iso_instant (ri_observedAt input) \<and> iso_instant (ri_expiresAt input) \<and>
     ms_le (dateParse (ri_observedAt input)) (dateParse (ri_expiresAt input)) \<and>
     (case ri_resetAt input of None \<Rightarrow> True | Some r \<Rightarrow> iso_instant r)"

definition literal_row ::
  "raw_input \<Rightarrow> snapshot_unit \<Rightarrow> snapshot_kind option \<Rightarrow> snapshot_availability option \<Rightarrow> snapshot_window \<Rightarrow> snapshot" where
  "literal_row i u k a w = (raw_row i)\<lparr>sn_unit := u, sn_window := w, sn_kind := k, sn_availability := a\<rparr>"

lemma normalizeMeter_literal:
  assumes "wf_fields i" "w \<noteq> Undefined"
  shows "normalizeMeter (meter_literal i w u k a) =
    (if safeMeter (ri_meter i) \<and> \<not> above_range u (ri_value i) then map_option (literal_row i u k a) (normalizeWindow w) else None)"
proof -
  have reset: "read_reset_at (case ri_resetAt i of None \<Rightarrow> Null | Some r \<Rightarrow> Str r) = Some (ri_resetAt i)"
    using assms by (auto simp: wf_fields_def read_reset_at_def read_instant_def iso_instant_def split: option.splits)
  have late: "\<not> ms_lt (dateParse (ri_expiresAt i)) (dateParse (ri_observedAt i))"
    using assms by (simp add: wf_fields_def ms_le_not_less)
  have num: "read_value (num_js (ri_value i)) = Some (ri_value i)"
    using assms by (simp add: wf_fields_def read_value_def num_js_def)
  have retry: "read_retry_at a Undefined = Some None" by (simp add: read_retry_at_def)
  show ?thesis
  proof (cases "safeMeter (ri_meter i)")
    case True
    then show ?thesis
      using assms
      by (cases "normalizeWindow w")
        (simp_all add: normalizeMeter_def read_meter_Str num reset late retry wf_fields_def meter_literal_window normalizeLabels_js
          normalizeAmounts_literal raw_row_def literal_row_def readAccountId_def readWriter_def read_label_of_def Let_def
          del: unit_str.simps)
  next
    case False
    then show ?thesis by (simp add: normalizeMeter_def read_meter_def retry)
  qed
qed

lemma rawMeter_props [simp]:
  "isRecord (rawMeter i)" "prop_of (rawMeter i) ''provider'' = Str (provider_str (ri_provider i))"
  "prop_of (rawMeter i) ''meter'' = Str (ri_meter i)" "prop_of (rawMeter i) ''value'' = num_js (ri_value i)"
  by (simp_all add: rawMeter_def)

text \<open>A raw meter is kept, with every field a parser gave it, exactly when its code is short enough.\<close>

definition wf_raw :: "raw_input \<Rightarrow> bool" where
  "wf_raw input \<longleftrightarrow> wf_fields input \<and> ri_value input \<le> 100 \<and> wf_window (ri_window input)"

lemma normalizeMeter_raw:
  assumes "wf_raw i"
  shows "normalizeMeter (rawMeter i) = (if safeMeter (ri_meter i) then Some (raw_row i) else None)"
proof -
  have "literal_row i PERCENT None None (ri_window i) = raw_row i" by (simp add: literal_row_def raw_row_def)
  moreover have "window_js (ri_window i) \<noteq> Undefined" by (simp add: window_js_def)
  ultimately show ?thesis
    using assms by (simp add: rawMeter_def normalizeMeter_literal wf_raw_def normalizeWindow_js above_range_def)
qed

lemma meters_or_null_Some: "meters_or_null ms = Some raws \<longleftrightarrow> raws = ms \<and> ms \<noteq> []"
  by (auto simp: meters_or_null_def)

lemma window_js_defined: "window_js w \<noteq> Undefined"
  by (simp add: window_js_def)

lemma instantAfter_ahead: "instantAfter now s = Some r \<Longrightarrow> 0 < s \<Longrightarrow> iso_instant r"
  by (auto simp: instantAfter_def date_text_eq_Some iso_instant_iso_text split: option.splits)

lemma ahead_weaken: "ahead_of now bound r \<Longrightarrow> ahead_of now None r"
  by (auto simp: ahead_of_def too_far_def)

section \<open>The contract of a parser\<close>

text \<open>A meter a parser may hand on: it names its provider, and the row the normalizer makes of it, if any, is
  that provider's, observed at the clock of the read, with the code and the value of the meter.\<close>

definition parsed_row :: "provider_code \<Rightarrow> string \<Rightarrow> js \<Rightarrow> snapshot \<Rightarrow> bool" where
  "parsed_row provider now raw row \<longleftrightarrow>
     sn_provider row = provider \<and> sn_observedAt row = now \<and> Str (sn_meter row) = prop_of raw ''meter'' \<and>
     num_js (sn_value row) = prop_of raw ''value'' \<and> sn_accountId row = None \<and> sn_writer row = None"

locale payload_reader =
  fixes parse :: "js \<Rightarrow> string \<Rightarrow> js list option result" and provider :: provider_code
  assumes rows_parsed:
    "parse payload now = Inr (Some raws) \<Longrightarrow> iso_instant now \<Longrightarrow> raw \<in> set raws \<Longrightarrow>
     normalizeMeter raw = Some row \<Longrightarrow> parsed_row provider now raw row"
    and never_empty: "parse payload now = Inr (Some raws) \<Longrightarrow> raws \<noteq> []"
begin

lemma rows_of_provider:
  "parse payload now = Inr (Some raws) \<Longrightarrow> iso_instant now \<Longrightarrow> row \<in> set (normalizeMeters raws) \<Longrightarrow>
   sn_provider row = provider \<and> sn_observedAt row = now \<and> sn_accountId row = None \<and> sn_writer row = None"
  using rows_parsed by (fastforce simp: normalizeMeters_def map_filter_def parsed_row_def)

end

text \<open>A parser the normalizer never refuses, on a clock of the years since 1970: every meter it hands on
  becomes a row.\<close>

definition live_clock :: "string \<Rightarrow> bool" where
  "live_clock now \<longleftrightarrow> iso_instant now \<and> (case dateParse now of None \<Rightarrow> False | Some t \<Rightarrow> 0 \<le> t)"

locale kept_reader = payload_reader +
  assumes all_kept: "parse payload now = Inr (Some raws) \<Longrightarrow> live_clock now \<Longrightarrow> raw \<in> set raws \<Longrightarrow> normalizeMeter raw \<noteq> None"
begin

lemma kept_count: "parse payload now = Inr (Some raws) \<Longrightarrow> live_clock now \<Longrightarrow> length (normalizeMeters raws) = length raws"
  using all_kept by (auto simp: normalizeMeters_def map_filter_def intro!: filter_True)

lemma kept_some: "parse payload now = Inr (Some raws) \<Longrightarrow> live_clock now \<Longrightarrow> normalizeMeters raws \<noteq> []"
  using kept_count never_empty by fastforce

end

text \<open>How the parsers that hand on nothing but good \<open>rawMeter\<close> values meet both contracts.\<close>

definition plain_input :: "provider_code \<Rightarrow> string \<Rightarrow> raw_input \<Rightarrow> bool" where
  "plain_input provider now i \<longleftrightarrow>
     ri_provider i = provider \<and> ri_observedAt i = now \<and> safeMeter (ri_meter i) \<and> (iso_instant now \<longrightarrow> wf_raw i)"

definition plain_rows :: "provider_code \<Rightarrow> string \<Rightarrow> js list \<Rightarrow> bool" where
  "plain_rows provider now raws \<longleftrightarrow>
     raws \<noteq> [] \<and>
     (\<forall>raw \<in> set raws. \<exists>i. raw = rawMeter i \<and> plain_input provider now i)"

lemma plain_kept_reader:
  assumes "\<And>payload now raws. parse payload now = Inr (Some raws) \<Longrightarrow> plain_rows provider now raws"
  shows "kept_reader parse provider"
proof unfold_locales
  fix payload now raws raw row
  assume p: "parse payload now = Inr (Some raws)" and now: "iso_instant now" and raw: "raw \<in> set raws"
    and row: "normalizeMeter raw = Some row"
  obtain i where "raw = rawMeter i" "ri_provider i = provider" "ri_observedAt i = now" "wf_raw i"
    using assms [OF p] raw now by (auto simp: plain_rows_def plain_input_def)
  then show "parsed_row provider now raw row"
    using row by (auto simp: normalizeMeter_raw parsed_row_def raw_row_def split: if_splits)
next
  fix payload now raws
  assume p: "parse payload now = Inr (Some raws)"
  show "raws \<noteq> []" using assms [OF p] by (simp add: plain_rows_def)
next
  fix payload now raws raw
  assume p: "parse payload now = Inr (Some raws)" and now: "live_clock now" and raw: "raw \<in> set raws"
  obtain i where "raw = rawMeter i" "safeMeter (ri_meter i)" "wf_raw i"
    using assms [OF p] raw now by (auto simp: plain_rows_def plain_input_def live_clock_def)
  then show "normalizeMeter raw \<noteq> None" by (simp add: normalizeMeter_raw)
qed

text \<open>The instants of a meter built from the clock of the read are in order.\<close>

lemma short_expiry_order:
  assumes "shortExpiry now = Inr (Some e)"
  shows "iso_instant e" "ms_le (dateParse now) (dateParse e)"
proof -
  obtain current where "dateParse now = Some current" "iso_instant e" "dateParse e = Some (current + 60000)"
    using shortExpiry_Some [OF assms] by blast
  then show "iso_instant e" "ms_le (dateParse now) (dateParse e)" by (simp_all add: ms_le_iff)
qed

lemma parsed_row_raw: "wf_raw i \<Longrightarrow> ri_observedAt i = now \<Longrightarrow> normalizeMeter (rawMeter i) = Some row \<Longrightarrow>
    parsed_row (ri_provider i) now (rawMeter i) row"
  by (auto simp: normalizeMeter_raw parsed_row_def raw_row_def split: if_splits)

lemma parsed_row_literal:
  "wf_fields i \<Longrightarrow> w \<noteq> Undefined \<Longrightarrow> ri_observedAt i = now \<Longrightarrow> normalizeMeter (meter_literal i w u k a) = Some row \<Longrightarrow>
   parsed_row (ri_provider i) now (meter_literal i w u k a) row"
  by (auto simp: normalizeMeter_literal parsed_row_def literal_row_def raw_row_def split: if_splits)

text \<open>The clock of the concrete documents.\<close>

definition sample_now :: string where
  "sample_now = ''2026-07-01T10:00:00.000Z''"

lemma sample_clock:
  "dateParse sample_now = Some 1782900000000"
  "shortExpiry sample_now = Inr (Some ''2026-07-01T10:01:00.000Z'')"
  "iso_instant sample_now"
proof -
  show d: "dateParse sample_now = Some 1782900000000" by (simp add: sample_now_def date_eval cong: bind_weak_cong)
  show "shortExpiry sample_now = Inr (Some ''2026-07-01T10:01:00.000Z'')"
    by (simp add: shortExpiry_def d toISOString_def max_time_def) (simp add: date_eval)
  show "iso_instant sample_now"
    unfolding iso_instant_def isIsoInstant_def by (simp add: d) (simp add: sample_now_def date_eval)
qed

end
