(* ===== verification/Claude.thy ===== *)
theory Claude
  imports Connector "HOL-Library.Multiset"
begin

text \<open>
  The Claude connector (connectors/claude.ts): one reader for the status line payload and for the
  usage document, from a parsed payload to the raw meters. Regular expressions are list
  functions; the two loops over windows carry the codes already seen and whether a weekly window
  was dropped, as the source's \<open>seen\<close> set and \<open>tally\<close> do. \<open>localeCompare\<close> only ever compares
  keys of lower case letters, digits, \<open>_\<close> and \<open>-\<close>, which the root collation orders in the
  order \<open>_\<close>, \<open>-\<close>, digits, letters.
\<close>

section \<open>Constants\<close>

definition claudeLabels :: connector_labels where
  "claudeLabels =
     \<lparr>lab_credentialOrigin = OfficialLocalTool, lab_dataInterfaceStatus = NativeStatuslinePayload,
      lab_automationRisk = LowRisk, lab_verification = UNVERIFIED, lab_verificationEvidence = None\<rparr>"

definition FIVE_HOURS :: int where
  "FIVE_HOURS = 18000"

definition SEVEN_DAYS :: int where
  "SEVEN_DAYS = 604800"

definition CLAUDE_WEEKLY_FAMILIES :: "string list" where
  "CLAUDE_WEEKLY_FAMILIES = [''fable'', ''opus'', ''sonnet'', ''haiku'']"

definition CLAUDE_UNKNOWN_WINDOW_SECONDS :: int where
  "CLAUDE_UNKNOWN_WINDOW_SECONDS = 2678400"

definition KNOWN_WINDOWS :: "(string \<times> string \<times> int) list" where
  "KNOWN_WINDOWS =
     [(''five_hour'', ''FIVE_HOUR'', FIVE_HOURS), (''seven_day'', ''SEVEN_DAY'', SEVEN_DAYS),
      (''seven_day_oauth_apps'', ''SEVEN_DAY_OAUTH_APPS'', SEVEN_DAYS)]"

definition RESERVED_KEYS :: "string list" where
  "RESERVED_KEYS = [''limits'', ''extra_usage'']"

definition CLAUDE_MODEL_WEEKLY_PREFIX :: string where
  "CLAUDE_MODEL_WEEKLY_PREFIX = ''SEVEN_DAY_''"

definition MAX_METER_CODE_SOURCE_CHARS :: nat where
  "MAX_METER_CODE_SOURCE_CHARS = 64"

section \<open>Codes and keys\<close>

definition code_char :: "char \<Rightarrow> bool" where
  "code_char c \<longleftrightarrow> is_upper c \<or> is_digit c"

definition printable :: "char \<Rightarrow> bool" where
  "printable c \<longleftrightarrow> CHR '' '' \<le> c \<and> c \<le> CHR ''~''"

definition meterCode :: "js \<Rightarrow> string option" where
  "meterCode v =
     (case v of
        Str s \<Rightarrow>
          if s = [] \<or> MAX_METER_CODE_SOURCE_CHARS < length s then None
          else if \<not> list_all printable s then None
          else let code = strip_underscores (collapse code_char (toUpperCase s))
               in if safeMeter code then Some code else None
      | _ \<Rightarrow> None)"

definition key_char :: "char \<Rightarrow> bool" where
  "key_char c \<longleftrightarrow> is_lower c \<or> is_digit c"

text \<open>\<open>([_-][a-z0-9]+)*$\<close> after the family.\<close>

function key_segments :: "string \<Rightarrow> bool" where
  "key_segments [] = True"
| "key_segments (c # cs) =
     ((c = CHR ''_'' \<or> c = CHR ''-'') \<and> takeWhile key_char cs \<noteq> [] \<and> key_segments (dropWhile key_char cs))"
  by pat_completeness auto
termination by (relation "measure length") (auto intro: le_imp_less_Suc length_dropWhile_le)

definition family_key :: "string \<Rightarrow> bool" where
  "family_key key \<longleftrightarrow>
     list_ex (\<lambda>family. let prefix = ''seven_day_'' @ family
                       in startsWith key prefix \<and> key_segments (drop (length prefix) key)) CLAUDE_WEEKLY_FAMILIES"

definition claudeWeeklyKey :: "string \<Rightarrow> bool" where
  "claudeWeeklyKey key \<longleftrightarrow> key = ''seven_day'' \<or> key = ''seven_day_oauth_apps'' \<or> family_key (toLowerCase key)"

definition claudeFamilyCode :: "js \<Rightarrow> string option" where
  "claudeFamilyCode v =
     (case meterCode v of
        None \<Rightarrow> None
      | Some code \<Rightarrow>
          if list_ex (\<lambda>family. code = toUpperCase family \<or> startsWith code (toUpperCase family @ ''_'')) CLAUDE_WEEKLY_FAMILIES
          then Some code else None)"

section \<open>One window\<close>

definition statedPercent :: "js \<Rightarrow> rat option" where
  "statedPercent input =
     (case boundedNumber (prop_of input ''used_percentage'') 100 of
        Some r \<Rightarrow> Some r
      | None \<Rightarrow>
          (case boundedNumber (prop_of input ''utilization'') 100 of
             Some r \<Rightarrow> Some r
           | None \<Rightarrow> boundedNumber (prop_of input ''percent'') 100))"

definition quoted_epoch :: "string \<Rightarrow> bool" where
  "quoted_epoch s \<longleftrightarrow> list_all is_digit s \<and> 9 \<le> length s \<and> length s \<le> 13"

definition EPOCH_MILLISECOND_DIGITS :: nat where
  "EPOCH_MILLISECOND_DIGITS = 13"

definition resetInstant :: "js \<Rightarrow> string \<Rightarrow> rat \<Rightarrow> string option" where
  "resetInstant v now maxAhead =
     (case v of
        Num _ \<Rightarrow> futureInstantFromEpochSeconds v now (Some maxAhead)
      | Str s \<Rightarrow>
          let trimmed = trim s
          in if quoted_epoch trimmed
             then let digits = of_nat (number_of_digits trimmed);
                      seconds = (if EPOCH_MILLISECOND_DIGITS \<le> length trimmed then digits / 1000 else digits)
                  in futureInstantFromEpochSeconds (num_js seconds) now (Some maxAhead)
             else futureInstantFromRfc3339 v now (Some maxAhead)
      | _ \<Rightarrow> None)"

definition durationForKey :: "string \<Rightarrow> int option" where
  "durationForKey key =
     (let normalized = toLowerCase key
      in if claudeWeeklyKey normalized then Some SEVEN_DAYS
         else if startsWith normalized ''five_hour'' then Some FIVE_HOURS else None)"

definition windowFor :: "int option \<Rightarrow> snapshot_window" where
  "windowFor duration =
     (case duration of
        None \<Rightarrow> \<lparr>win_kind = UnknownWindow, win_durationSeconds = None\<rparr>
      | Some d \<Rightarrow> \<lparr>win_kind = Rolling, win_durationSeconds = Some d\<rparr>)"

record meter_input =
  mi_meter :: string
  mi_percent :: rat
  mi_durationSeconds :: "int option"
  mi_resetAt :: "string option"
  mi_amounts :: "snapshot_amounts option"

definition meter_raw :: "meter_input \<Rightarrow> string \<Rightarrow> string \<Rightarrow> snapshot_source \<Rightarrow> raw_input" where
  "meter_raw input now expiresAt source =
     \<lparr>ri_provider = CLAUDE, ri_meter = mi_meter input, ri_value = mi_percent input,
      ri_window = windowFor (mi_durationSeconds input), ri_resetAt = mi_resetAt input, ri_source = source,
      ri_precision = Exact, ri_observedAt = now, ri_expiresAt = expiresAt, ri_labels = claudeLabels,
      ri_amounts = mi_amounts input\<rparr>"

definition buildMeter :: "meter_input \<Rightarrow> string \<Rightarrow> string \<Rightarrow> snapshot_source \<Rightarrow> js" where
  "buildMeter input now expiresAt source = rawMeter (meter_raw input now expiresAt source)"

definition reset_bound :: "int option \<Rightarrow> rat" where
  "reset_bound duration =
     (if duration = Some SEVEN_DAYS then of_int SEVEN_DAYS + CLOCK_SKEW_SECONDS
      else plausibleResetHorizon (of_int (case duration of None \<Rightarrow> CLAUDE_UNKNOWN_WINDOW_SECONDS | Some d \<Rightarrow> d)))"

definition parseWindow :: "js \<Rightarrow> string \<Rightarrow> string \<Rightarrow> int option \<Rightarrow> meter_input option" where
  "parseWindow v now meter duration =
     (case record_of v of
        None \<Rightarrow> None
      | Some input \<Rightarrow>
          (case (statedPercent input, resetInstant (prop_of input ''resets_at'') now (reset_bound duration)) of
             (Some percent, Some resetAt) \<Rightarrow>
               Some \<lparr>mi_meter = meter, mi_percent = percent, mi_durationSeconds = duration,
                     mi_resetAt = Some resetAt, mi_amounts = None\<rparr>
           | _ \<Rightarrow> None))"

section \<open>The window table\<close>

definition window_key :: "string \<Rightarrow> bool" where
  "window_key key \<longleftrightarrow>
     (let normalized = toLowerCase key
      in normalized \<notin> set RESERVED_KEYS \<and> (normalized = ''five_hour'' \<or> claudeWeeklyKey normalized))"

text \<open>\<open>localeCompare\<close> on such keys: the comparison of their ranks.\<close>

definition collation :: "string \<Rightarrow> nat list" where
  "collation key = map (\<lambda>c. if c = CHR ''_'' then 0 else if c = CHR ''-'' then 1 else of_char c) key"

definition remaining_keys :: "js \<Rightarrow> (string \<times> string) list" where
  "remaining_keys table =
     fold (\<lambda>key. AList.update (toLowerCase key) key) (filter window_key (keys_of table)) []"

definition orderedWindowKeys :: "js \<Rightarrow> string list" where
  "orderedWindowKeys table =
     (let remaining = remaining_keys table;
          known = map fst KNOWN_WINDOWS
      in List.map_filter (map_of remaining) known @
         map snd (sort_key (\<lambda>entry. collation (fst entry)) (filter (\<lambda>entry. fst entry \<notin> set known) remaining)))"

text \<open>What the loops carry: the codes seen, the meters found so far, and whether a weekly window was
  there and did not hold together.\<close>

record table_state =
  ts_seen :: "string list"
  ts_found :: "meter_input list"
  ts_dropped :: bool

definition keep_window :: "string \<Rightarrow> meter_input \<Rightarrow> table_state \<Rightarrow> table_state" where
  "keep_window meter found s = s\<lparr>ts_seen := meter # ts_seen s, ts_found := ts_found s @ [found]\<rparr>"

definition known_window :: "string \<Rightarrow> (string \<times> int) option" where
  "known_window key = map_of KNOWN_WINDOWS key"

definition table_meter :: "string \<Rightarrow> string option" where
  "table_meter key =
     (case known_window (toLowerCase key) of Some (meter, _) \<Rightarrow> Some meter | None \<Rightarrow> meterCode (Str key))"

definition table_duration :: "string \<Rightarrow> int option" where
  "table_duration key =
     (case known_window (toLowerCase key) of Some (_, d) \<Rightarrow> Some d | None \<Rightarrow> durationForKey (toLowerCase key))"

definition table_step :: "js \<Rightarrow> string \<Rightarrow> string \<Rightarrow> table_state \<Rightarrow> table_state" where
  "table_step table now key s =
     (let v = prop_of table key in
      case table_meter key of
        None \<Rightarrow> s
      | Some meter \<Rightarrow>
          if meter \<in> set (ts_seen s) then s
          else (case parseWindow v now meter (table_duration key) of
                  None \<Rightarrow> if claudeWeeklyKey (toLowerCase key) \<and> v \<noteq> Null \<and> v \<noteq> Undefined then s\<lparr>ts_dropped := True\<rparr> else s
                | Some parsed \<Rightarrow> keep_window meter parsed s))"

definition parseWindowTable :: "js \<Rightarrow> string \<Rightarrow> table_state \<Rightarrow> table_state" where
  "parseWindowTable table now s = fold (table_step table now) (orderedWindowKeys table) s"

section \<open>Scoped limits\<close>

definition scoped_step :: "string \<Rightarrow> js \<Rightarrow> table_state \<Rightarrow> table_state" where
  "scoped_step now limit s =
     (if \<not> isRecord limit \<or> prop_of limit ''kind'' \<noteq> Str ''weekly_scoped'' then s
      else
        (case claudeFamilyCode (prop_of (prop_of (prop_of limit ''scope'') ''model'') ''display_name'') of
           None \<Rightarrow> s
         | Some name \<Rightarrow>
             let meter = CLAUDE_MODEL_WEEKLY_PREFIX @ name
             in if meter \<in> set (ts_seen s) then s
                else (case parseWindow limit now meter (Some SEVEN_DAYS) of
                        None \<Rightarrow> s\<lparr>ts_dropped := True\<rparr>
                      | Some parsed \<Rightarrow> keep_window meter parsed s)))"

definition parseScopedLimits :: "js \<Rightarrow> string \<Rightarrow> table_state \<Rightarrow> table_state" where
  "parseScopedLimits v now s = (case v of Arr entries \<Rightarrow> fold (scoped_step now) entries s | _ \<Rightarrow> s)"

section \<open>Extra usage\<close>

fun amountField :: "js \<Rightarrow> string list \<Rightarrow> rat option" where
  "amountField input [] = None"
| "amountField input (name # names) =
     (case prop_of input name of
        Undefined \<Rightarrow> amountField input names
      | Num (Fin r) \<Rightarrow> if 0 \<le> r then Some r else None
      | _ \<Rightarrow> None)"

definition derived_percent :: "rat option \<Rightarrow> rat option \<Rightarrow> rat option" where
  "derived_percent used limit =
     (case (used, limit) of
        (Some u, Some l) \<Rightarrow> if l \<le> 0 then None else Some (min 100 (u / l * 100))
      | _ \<Rightarrow> None)"

definition usable_currency :: "js \<Rightarrow> bool" where
  "usable_currency v \<longleftrightarrow> v = Undefined \<or> (case v of Str s \<Rightarrow> toUpperCase s = ''USD'' | _ \<Rightarrow> False)"

definition parseExtraUsage :: "js \<Rightarrow> string \<Rightarrow> meter_input option" where
  "parseExtraUsage v now =
     (if \<not> isRecord v \<or> prop_of v ''is_enabled'' = Bool False then None
      else
        let used = amountField v [''used_amount'', ''used_credits'', ''used''];
            limit = amountField v [''limit_amount'', ''limit_credits'', ''monthly_limit'', ''limit'', ''cap'']
        in case (case statedPercent v of Some p \<Rightarrow> Some p | None \<Rightarrow> derived_percent used limit) of
             None \<Rightarrow> None
           | Some percent \<Rightarrow>
               if percent < 0 \<or> 100 < percent then None
               else Some \<lparr>mi_meter = ''EXTRA_USAGE'', mi_percent = percent, mi_durationSeconds = None,
                          mi_resetAt = resetInstant (prop_of v ''resets_at'') now
                            (plausibleResetHorizon (of_int CLAUDE_UNKNOWN_WINDOW_SECONDS)),
                          mi_amounts =
                            (case (used, limit) of
                               (Some u, Some l) \<Rightarrow>
                                 if usable_currency (prop_of v ''currency'')
                                 then Some \<lparr>am_usedAmount = u, am_limitAmount = l, am_currency = USD\<rparr> else None
                             | _ \<Rightarrow> None)\<rparr>)"

definition extra_step :: "js \<Rightarrow> string \<Rightarrow> table_state \<Rightarrow> table_state" where
  "extra_step v now s =
     (case parseExtraUsage v now of
        None \<Rightarrow> s
      | Some extra \<Rightarrow> if mi_meter extra \<in> set (ts_seen s) then s else keep_window (mi_meter extra) extra s)"

section \<open>The document\<close>

definition looksLikeUsageDocument :: "js \<Rightarrow> bool" where
  "looksLikeUsageDocument doc \<longleftrightarrow>
     isArray (prop_of doc ''limits'') \<or> isRecord (prop_of doc ''extra_usage'') \<or>
     list_ex (\<lambda>key. (toLowerCase key = ''five_hour'' \<or> claudeWeeklyKey (toLowerCase key)) \<and> isRecord (prop_of doc key))
       (keys_of doc)"

definition statusline :: "js \<Rightarrow> bool" where
  "statusline payload \<longleftrightarrow> isRecord payload \<and> isRecord (prop_of payload ''rate_limits'')"

definition no_windows :: table_state where
  "no_windows = \<lparr>ts_seen = [], ts_found = [], ts_dropped = False\<rparr>"

definition document_windows :: "js \<Rightarrow> string \<Rightarrow> table_state" where
  "document_windows doc now =
     (if statusline doc
      then (parseWindowTable (Obj [(''five_hour'', prop_of (prop_of doc ''rate_limits'') ''five_hour'')]) now no_windows)
             \<lparr>ts_dropped := False\<rparr>
      else extra_step (prop_of doc ''extra_usage'') now
             (parseScopedLimits (prop_of doc ''limits'') now (parseWindowTable doc now no_windows)))"

text \<open>The meters of a document, or none, and the tally of the read.\<close>

definition parseClaudeDocument :: "js \<Rightarrow> string \<Rightarrow> (js list option \<times> bool) result" where
  "parseClaudeDocument payload now =
     (if \<not> isRecord payload then Inr (None, False)
      else if \<not> statusline payload \<and> \<not> looksLikeUsageDocument payload then Inr (None, False)
      else rbind (shortExpiry now) (\<lambda>expiry.
        case expiry of
          None \<Rightarrow> Inr (None, False)
        | Some expiresAt \<Rightarrow>
            let s = document_windows payload now;
                source = (if statusline payload then NativePayload else InternalPayload)
            in Inr (if ts_found s = [] then None else Some (map (\<lambda>input. buildMeter input now expiresAt source) (ts_found s)),
                    ts_dropped s)))"

definition parseClaudePayload :: "js \<Rightarrow> string \<Rightarrow> js list option result" where
  "parseClaudePayload payload now = map_sum id fst (parseClaudeDocument payload now)"

definition claudeWeeklySetComplete :: "js \<Rightarrow> string \<Rightarrow> bool result" where
  "claudeWeeklySetComplete payload now =
     map_sum id (\<lambda>(meters, dropped). meters \<noteq> None \<and> \<not> statusline payload \<and> \<not> dropped) (parseClaudeDocument payload now)"

definition CLAUDE_TOOL :: "string option" where
  "CLAUDE_TOOL = Some ''Claude Code''"

definition claude_read :: "js \<Rightarrow> string \<Rightarrow> connector_result result" where
  "claude_read = connector_read parseClaudePayload CLAUDE_TOOL"

section \<open>What a window promises\<close>

lemma resetInstant_ahead: "resetInstant v now bound = Some r \<Longrightarrow> ahead_of now (Some bound) r"
  by (auto simp: resetInstant_def Let_def intro: epoch_ahead rfc3339_ahead split: js.splits if_splits)

lemma statedPercent_range: "statedPercent v = Some p \<Longrightarrow> 0 \<le> p \<and> p \<le> 100"
  by (auto simp: statedPercent_def dest!: boundedNumber_range split: option.splits)

lemma derived_percent_range: "derived_percent u l = Some p \<Longrightarrow> p \<le> 100"
  by (auto simp: derived_percent_def split: option.splits if_splits)

text \<open>A meter code a parser may give: one the normalizer keeps, or a model's code behind the prefix.\<close>

definition claude_code :: "string \<Rightarrow> bool" where
  "claude_code meter \<longleftrightarrow> safeMeter meter \<or> (\<exists>name. safeMeter name \<and> meter = CLAUDE_MODEL_WEEKLY_PREFIX @ name)"

definition good_input :: "string \<Rightarrow> meter_input \<Rightarrow> bool" where
  "good_input now i \<longleftrightarrow>
     claude_code (mi_meter i) \<and> 0 \<le> mi_percent i \<and> mi_percent i \<le> 100 \<and>
     mi_durationSeconds i \<in> {None, Some FIVE_HOURS, Some SEVEN_DAYS} \<and>
     (case mi_resetAt i of
        None \<Rightarrow> mi_meter i = ''EXTRA_USAGE''
      | Some r \<Rightarrow> ahead_of now (Some (reset_bound (mi_durationSeconds i))) r)"

lemma parseWindow_good:
  "parseWindow v now meter d = Some i \<Longrightarrow> claude_code meter \<Longrightarrow> d \<in> {None, Some FIVE_HOURS, Some SEVEN_DAYS} \<Longrightarrow>
   good_input now i \<and> mi_meter i = meter"
  by (auto simp: parseWindow_def good_input_def dest: statedPercent_range resetInstant_ahead split: option.splits)

lemma meterCode_safe: "meterCode v = Some code \<Longrightarrow> safeMeter code"
  by (auto simp: meterCode_def Let_def split: js.splits if_splits)

lemma table_meter_code: "table_meter key = Some meter \<Longrightarrow> claude_code meter"
proof (cases "known_window (toLowerCase key)")
  case None
  then show "table_meter key = Some meter \<Longrightarrow> claude_code meter"
    by (auto simp: table_meter_def claude_code_def dest: meterCode_safe)
next
  case (Some p)
  have "safeMeter ''FIVE_HOUR''" "safeMeter ''SEVEN_DAY''" "safeMeter ''SEVEN_DAY_OAUTH_APPS''" by code_simp+
  then show "table_meter key = Some meter \<Longrightarrow> claude_code meter"
    using Some by (auto simp: table_meter_def known_window_def KNOWN_WINDOWS_def claude_code_def split: if_splits)
qed

lemma table_duration_cases: "table_duration key \<in> {None, Some FIVE_HOURS, Some SEVEN_DAYS}"
  by (auto simp: table_duration_def known_window_def KNOWN_WINDOWS_def durationForKey_def Let_def split: option.splits if_splits)

lemma claudeFamilyCode_safe: "claudeFamilyCode v = Some name \<Longrightarrow> safeMeter name"
  by (auto simp: claudeFamilyCode_def dest: meterCode_safe split: option.splits if_splits)

lemma parseExtraUsage_good: "parseExtraUsage v now = Some i \<Longrightarrow> good_input now i"
proof -
  assume p: "parseExtraUsage v now = Some i"
  have "safeMeter ''EXTRA_USAGE''" by code_simp
  moreover have "reset_bound None = plausibleResetHorizon (of_int CLAUDE_UNKNOWN_WINDOW_SECONDS)"
    by (simp add: reset_bound_def)
  ultimately show ?thesis
    using p by (auto simp: parseExtraUsage_def Let_def good_input_def claude_code_def dest: resetInstant_ahead
        split: if_splits option.splits)
qed

text \<open>The invariant of the loops: every meter found is good, and no code appears twice.\<close>

definition good_table :: "string \<Rightarrow> table_state \<Rightarrow> bool" where
  "good_table now s \<longleftrightarrow>
     (\<forall>i \<in> set (ts_found s). good_input now i) \<and> distinct (map mi_meter (ts_found s)) \<and>
     set (ts_seen s) = mi_meter ` set (ts_found s)"

lemma good_keep:
  "good_table now s \<Longrightarrow> good_input now i \<Longrightarrow> mi_meter i \<notin> set (ts_seen s) \<Longrightarrow> good_table now (keep_window (mi_meter i) i s)"
  by (auto simp: good_table_def keep_window_def)

lemma good_drop: "good_table now s \<Longrightarrow> good_table now (s\<lparr>ts_dropped := b\<rparr>)"
  by (simp add: good_table_def)

lemma good_table_step: "good_table now s \<Longrightarrow> good_table now (table_step table now key s)"
  using good_keep parseWindow_good [OF _ table_meter_code table_duration_cases]
  by (force simp: table_step_def Let_def good_drop split: option.splits)

lemma scoped_code: "claudeFamilyCode v = Some name \<Longrightarrow> claude_code (CLAUDE_MODEL_WEEKLY_PREFIX @ name)"
  using claudeFamilyCode_safe by (auto simp: claude_code_def)

lemma good_scoped_step: "good_table now s \<Longrightarrow> good_table now (scoped_step now limit s)"
  using good_keep parseWindow_good [OF _ scoped_code]
  by (force simp: scoped_step_def Let_def good_drop split: option.splits)

lemma good_extra_step: "good_table now s \<Longrightarrow> good_table now (extra_step v now s)"
  by (auto simp: extra_step_def split: option.splits dest: parseExtraUsage_good good_keep)

lemma good_fold: "good_table now s \<Longrightarrow> (\<And>x s. good_table now s \<Longrightarrow> good_table now (f x s)) \<Longrightarrow> good_table now (fold f xs s)"
  by (induction xs arbitrary: s) simp_all

lemma good_document: "good_table now (document_windows doc now)"
proof -
  have start: "good_table now no_windows" by (simp add: good_table_def no_windows_def)
  have table: "good_table now (parseWindowTable table now no_windows)" for table
    unfolding parseWindowTable_def by (intro good_fold good_table_step start)
  have "good_table now (parseScopedLimits v now (parseWindowTable table now no_windows))" for v table
    unfolding parseScopedLimits_def using table by (auto split: js.splits intro: good_fold good_scoped_step)
  with table show ?thesis by (simp add: document_windows_def good_drop good_extra_step)
qed

lemma parseClaudePayload_Some:
  assumes "parseClaudePayload payload now = Inr (Some meters)"
  obtains expiresAt where "shortExpiry now = Inr (Some expiresAt)" "isRecord payload"
    "meters = map (\<lambda>input. buildMeter input now expiresAt (if statusline payload then NativePayload else InternalPayload))
       (ts_found (document_windows payload now))"
  using assms by (auto simp: parseClaudePayload_def parseClaudeDocument_def Let_def map_sum_Inr_iff rbind_Inr_iff
      split: if_splits option.splits)

lemma good_input_wf:
  assumes "good_input now i" "iso_instant now" "shortExpiry now = Inr (Some expiresAt)"
  shows "wf_raw (meter_raw i now expiresAt source)"
proof -
  obtain current where e: "dateParse now = Some current" "iso_instant expiresAt" "dateParse expiresAt = Some (current + 60000)"
    using shortExpiry_Some [OF assms(3)] by blast
  have "wf_window (windowFor (mi_durationSeconds i))"
    using assms(1) by (auto simp: good_input_def windowFor_def wf_window_def FIVE_HOURS_def SEVEN_DAYS_def)
  moreover have "wf_labels claudeLabels" by (simp add: claudeLabels_def wf_labels_def)
  moreover have "case mi_resetAt i of None \<Rightarrow> True | Some r \<Rightarrow> iso_instant r"
    using assms(1) by (auto simp: good_input_def ahead_of_def split: option.splits)
  ultimately show ?thesis
    using assms(1,2) e by (simp add: wf_raw_def wf_fields_def meter_raw_def good_input_def ms_le_iff)
qed

lemma code_length: "claude_code meter \<Longrightarrow> safeMeter meter \<longleftrightarrow> length meter \<le> 32"
proof -
  have prefixed: "safeMeter (CLAUDE_MODEL_WEEKLY_PREFIX @ name) \<longleftrightarrow> length (CLAUDE_MODEL_WEEKLY_PREFIX @ name) \<le> 32"
    if "safeMeter name" for name
  proof -
    have "is_upper CHR ''S''" "list_all (\<lambda>x. is_upper x \<or> is_digit x \<or> x = CHR ''_'') ''EVEN_DAY_''" by code_simp+
    with that show ?thesis
      by (cases name) (simp_all add: safeMeter_def CLAUDE_MODEL_WEEKLY_PREFIX_def)
  qed
  have "safeMeter m \<Longrightarrow> length m \<le> 32" for m by (auto simp: safeMeter_def split: list.splits)
  with prefixed show "claude_code meter \<Longrightarrow> ?thesis" by (auto simp: claude_code_def)
qed

interpretation claude_reader: payload_reader parseClaudePayload CLAUDE
proof unfold_locales
  fix payload now raws raw row
  assume p: "parseClaudePayload payload now = Inr (Some raws)" and now: "iso_instant now" and raw: "raw \<in> set raws"
    and row: "normalizeMeter raw = Some row"
  obtain e source where e: "shortExpiry now = Inr (Some e)"
    "raws = map (\<lambda>input. buildMeter input now e source) (ts_found (document_windows payload now))"
    using parseClaudePayload_Some [OF p] by metis
  then obtain i where i: "i \<in> set (ts_found (document_windows payload now))" "raw = rawMeter (meter_raw i now e source)"
    using raw by (auto simp: buildMeter_def)
  have "good_input now i" using i(1) good_document [of now payload] by (simp add: good_table_def)
  then have "wf_raw (meter_raw i now e source)" by (rule good_input_wf [OF _ now e(1)])
  from parsed_row_raw [OF this _ row [unfolded i(2)]] show "parsed_row CLAUDE now raw row"
    by (simp add: i(2) meter_raw_def)
next
  fix payload now raws
  assume "parseClaudePayload payload now = Inr (Some raws)"
  then show "raws \<noteq> []"
    by (auto simp: parseClaudePayload_def parseClaudeDocument_def Let_def map_sum_Inr_iff rbind_Inr_iff split: if_splits option.splits)
qed

text \<open>Every meter of a Claude document has a code of its own, and the normalizer keeps it, with the
  percentage the document stated and a reset still ahead, exactly when its code has at most 32
  characters.\<close>

theorem claude_meters_kept:
  assumes "parseClaudePayload payload now = Inr (Some meters)" "iso_instant now"
  shows "distinct (map (\<lambda>raw. prop_of raw ''meter'') meters) \<and>
    (\<forall>raw \<in> set meters. \<exists>meter. prop_of raw ''meter'' = Str meter \<and>
       (case normalizeMeter raw of
          None \<Rightarrow> 32 < length meter
        | Some row \<Rightarrow> length meter \<le> 32 \<and> sn_provider row = CLAUDE \<and> sn_meter row = meter \<and>
            num_js (sn_value row) = prop_of raw ''value'' \<and> sn_value row \<le> 100 \<and>
            (\<forall>r. sn_resetAt row = Some r \<longrightarrow> ms_lt (dateParse now) (dateParse r))))"
proof -
  obtain e where e: "shortExpiry now = Inr (Some e)" and meters: "meters = map (\<lambda>input. buildMeter input now e
      (if statusline payload then NativePayload else InternalPayload)) (ts_found (document_windows payload now))"
    using parseClaudePayload_Some [OF assms(1)] by metis
  note good = good_document [of now payload]
  have "distinct (map (\<lambda>raw. prop_of raw ''meter'') meters)"
    using good by (simp add: meters comp_def buildMeter_def meter_raw_def good_table_def distinct_map inj_on_def)
  moreover have "\<exists>meter. prop_of (buildMeter i now e source) ''meter'' = Str meter \<and>
      (case normalizeMeter (buildMeter i now e source) of
          None \<Rightarrow> 32 < length meter
        | Some row \<Rightarrow> length meter \<le> 32 \<and> sn_provider row = CLAUDE \<and> sn_meter row = meter \<and>
            num_js (sn_value row) = prop_of (buildMeter i now e source) ''value'' \<and> sn_value row \<le> 100 \<and>
            (\<forall>r. sn_resetAt row = Some r \<longrightarrow> ms_lt (dateParse now) (dateParse r)))"
    if "i \<in> set (ts_found (document_windows payload now))" for i source
  proof -
    have i: "good_input now i" using good that by (simp add: good_table_def)
    have "ms_lt (dateParse now) (dateParse r)" if "mi_resetAt i = Some r" for r
      using i that by (auto simp: good_input_def ahead_of_def)
    then show ?thesis
      using normalizeMeter_raw [OF good_input_wf [OF i assms(2) e, of source]] i
      by (simp add: buildMeter_def meter_raw_def raw_row_def code_length good_input_def)
  qed
  ultimately show ?thesis by (auto simp: meters)
qed

section \<open>The order of the keys\<close>

lemma lower_char_idem: "lower_char (lower_char c) = lower_char c"
proof (cases "is_upper c")
  case True
  then have "65 \<le> (of_char c :: nat)" "(of_char c :: nat) \<le> 90" by (auto simp: is_upper_def less_eq_char_def)
  then have "\<not> is_upper (char_of (of_char c + 32 :: nat))" by (simp add: is_upper_def less_eq_char_def)
  then show ?thesis by (simp add: lower_char_def)
qed (simp add: lower_char_def)

lemma toLowerCase_idem [simp]: "toLowerCase (toLowerCase s) = toLowerCase s"
  by (simp add: toLowerCase_def lower_char_idem)

definition ranked_char :: "char \<Rightarrow> bool" where
  "ranked_char c \<longleftrightarrow> key_char c \<or> c = CHR ''_'' \<or> c = CHR ''-''"

lemma key_segments_ranked: "key_segments s \<Longrightarrow> list_all ranked_char s"
proof (induction s rule: key_segments.induct)
  case (2 c cs)
  have "list_all ranked_char (takeWhile key_char cs)" by (auto simp: list_all_iff ranked_char_def dest: set_takeWhileD)
  moreover have "list_all ranked_char (dropWhile key_char cs)" "ranked_char c" using 2 by (auto simp: ranked_char_def [of c])
  ultimately have "list_all ranked_char (takeWhile key_char cs @ dropWhile key_char cs)"
    by (simp only: list_all_append simp_thms)
  then show ?case using \<open>ranked_char c\<close> by simp
qed simp

lemma family_key_ranked: "family_key s \<Longrightarrow> list_all ranked_char s"
proof -
  assume "family_key s"
  then obtain family where f: "family \<in> set CLAUDE_WEEKLY_FAMILIES" "startsWith s (''seven_day_'' @ family)"
    "key_segments (drop (length (''seven_day_'' @ family)) s)"
    by (auto simp: family_key_def Let_def list_ex_iff)
  have "list_all (\<lambda>family. list_all ranked_char (''seven_day_'' @ family)) CLAUDE_WEEKLY_FAMILIES" by code_simp
  then have "list_all ranked_char (''seven_day_'' @ family)" using f(1) unfolding list_all_iff [of _ CLAUDE_WEEKLY_FAMILIES] by (rule bspec)
  moreover have "s = (''seven_day_'' @ family) @ drop (length (''seven_day_'' @ family)) s"
    using f(2) unfolding startsWith_def by (metis append_take_drop_id)
  ultimately show ?thesis using key_segments_ranked [OF f(3)] by (metis list_all_append)
qed

lemma window_key_ranked: "window_key key \<Longrightarrow> list_all ranked_char (toLowerCase key)"
proof -
  have "list_all ranked_char ''five_hour''" "list_all ranked_char ''seven_day''" "list_all ranked_char ''seven_day_oauth_apps''"
    by code_simp+
  then show "window_key key \<Longrightarrow> ?thesis"
    by (auto simp: window_key_def claudeWeeklyKey_def Let_def dest!: family_key_ranked)
qed

lemma collation_inject: 
  assumes "list_all ranked_char s" "list_all ranked_char t" "collation s = collation t"
  shows "s = t"
proof -
  have big: "1 < (of_char c :: nat)" if "key_char c" for c
    using that by (auto simp: key_char_def is_lower_def is_digit_def less_eq_char_def)
  have "inj_on (\<lambda>c. if c = CHR ''_'' then 0 else if c = CHR ''-'' then 1 else of_char c :: nat) (Collect ranked_char)"
    by (auto simp: inj_on_def ranked_char_def dest: big)
  then show ?thesis
    using assms unfolding collation_def by (intro map_inj_on [OF assms(3)[unfolded collation_def]]) (auto simp: list_all_iff elim: inj_on_subset)
qed

lemma fold_update_fresh:
  "distinct (map f ks) \<Longrightarrow> f ` set ks \<inter> fst ` set acc = {} \<Longrightarrow>
   fold (\<lambda>k. AList.update (f k) k) ks acc = acc @ map (\<lambda>k. (f k, k)) ks"
proof (induction ks arbitrary: acc)
  case (Cons k ks)
  have "AList.update (f k) k acc = acc @ [(f k, k)]" if "f k \<notin> fst ` set acc" for acc
    using that by (induction acc) auto
  then show ?case using Cons by (auto simp: image_iff)
qed simp

lemma remaining_keys_distinct:
  "distinct (map (toLowerCase \<circ> fst) ps) \<Longrightarrow>
   remaining_keys (Obj ps) = map (\<lambda>key. (toLowerCase key, key)) (filter window_key (map fst ps))"
  unfolding remaining_keys_def 
  by (subst fold_update_fresh) (simp_all add: distinct_map_filter)


lemma map_of_permuted:
  "mset ps = mset qs \<Longrightarrow> distinct (map fst ps) \<Longrightarrow> map_of ps = map_of qs"
  using map_of_inject_set [of ps qs] mset_eq_imp_distinct_iff [of "map fst ps" "map fst qs"]
  by (metis mset_eq_setD mset_map)

lemma orderedWindowKeys_permuted:
  assumes "mset ps = mset qs" "distinct (map (toLowerCase \<circ> fst) ps)"
  shows "orderedWindowKeys (Obj ps) = orderedWindowKeys (Obj qs)"
proof -
  define entries where "entries ps = map (\<lambda>key. (toLowerCase key, key)) (filter window_key (map fst ps))" for ps :: "(string \<times> js) list"
  let ?rest = "\<lambda>ps. filter (\<lambda>entry. fst entry \<notin> set (map fst KNOWN_WINDOWS)) (entries ps)"
  have q: "distinct (map (toLowerCase \<circ> fst) qs)"
    using assms(2) mset_eq_imp_distinct_iff [of "map (toLowerCase \<circ> fst) ps" "map (toLowerCase \<circ> fst) qs"]
    by (simp only: mset_map assms(1))
  have m: "mset (entries ps) = mset (entries qs)"
    by (simp only: entries_def mset_map mset_filter assms(1))
  have d: "distinct (map fst (entries ps))"
    using distinct_map_filter [of toLowerCase "map fst ps" window_key] assms(2) by (simp add: entries_def comp_def)
  have inj: "inj_on (\<lambda>entry. collation (fst entry)) (set (entries ps))"
  proof (rule inj_onI)
    fix a b assume "a \<in> set (entries ps)" "b \<in> set (entries ps)" "collation (fst a) = collation (fst b)"
    then have "fst a = fst b" by (auto simp: entries_def intro!: collation_inject dest: window_key_ranked)
    with d show "a = b" using \<open>a \<in> _\<close> \<open>b \<in> _\<close> by (simp add: distinct_map inj_on_def)
  qed
  have "sort_key (\<lambda>entry. collation (fst entry)) (?rest ps) = sort_key (\<lambda>entry. collation (fst entry)) (?rest qs)"
    by (rule sort_key_inj_key_eq) (use m inj in \<open>auto intro: inj_on_subset simp: mset_filter\<close>)
  moreover have "map_of (entries ps) = map_of (entries qs)" by (rule map_of_permuted [OF m d])
  ultimately show ?thesis
    by (simp add: orderedWindowKeys_def remaining_keys_distinct assms(2) q Let_def flip: entries_def)
qed

text \<open>The meters of a document, their order and the completeness of its weekly set do not depend on the order
  of its keys, as long as no two keys differ in case alone.\<close>

theorem claude_order_free:
  assumes "mset ps = mset qs" "distinct (map (toLowerCase \<circ> fst) ps)"
  shows "parseClaudeDocument (Obj ps) now = parseClaudeDocument (Obj qs) now"
proof -
  have "distinct (map fst ps)" using assms(2) by (simp add: distinct_map inj_on_def)
  then have props: "prop_of (Obj ps) = prop_of (Obj qs)"
    using map_of_permuted [OF assms(1)] by (simp add: fun_eq_iff)
  have keys: "set (map fst ps) = set (map fst qs)"
    using assms(1) by (metis mset_eq_setD mset_map)
  have "table_step (Obj ps) = table_step (Obj qs)" by (simp add: fun_eq_iff table_step_def props del: prop_of.simps)
  then have "document_windows (Obj ps) now = document_windows (Obj qs) now"
    by (simp add: document_windows_def statusline_def parseWindowTable_def orderedWindowKeys_permuted [OF assms] props del: prop_of.simps)
  moreover have "looksLikeUsageDocument (Obj ps) = looksLikeUsageDocument (Obj qs)"
    using keys by (simp add: looksLikeUsageDocument_def list_ex_iff props del: prop_of.simps set_map)
  ultimately show ?thesis by (simp add: parseClaudeDocument_def statusline_def props del: prop_of.simps)
qed

section \<open>The weekly set\<close>

lemma fold_covers:
  assumes "\<And>x s. dropped s \<Longrightarrow> dropped (f x s)" "\<And>x s. seen s \<subseteq> seen (f x s)"
    "\<And>x s. \<not> dropped (f x s) \<Longrightarrow> c x \<Longrightarrow> code x \<in> seen (f x s)"
    "\<not> dropped (fold f xs s)" "x \<in> set xs" "c x"
  shows "code x \<in> seen (fold f xs s)"
proof -
  have drop: "dropped s \<Longrightarrow> dropped (fold f ys s)" for ys s
    by (induction ys arbitrary: s) (simp_all add: assms(1))
  have grow: "seen s \<subseteq> seen (fold f ys s)" for ys s
    by (induction ys arbitrary: s) (auto dest: set_mp [OF assms(2)])
  obtain ys zs where xs: "xs = ys @ x # zs" using assms(5) by (meson split_list)
  have "\<not> dropped (f x (fold f ys s))" using assms(4) drop by (auto simp: xs)
  from assms(3) [OF this assms(6)] grow [of "f x (fold f ys s)" zs] show ?thesis by (auto simp: xs)
qed

text \<open>A weekly key with a code and a value, and a scoped limit of a known family: what the set consists of.\<close>

definition weekly_code_of_key :: "js \<Rightarrow> string \<Rightarrow> string option" where
  "weekly_code_of_key doc key =
     (if claudeWeeklyKey (toLowerCase key) \<and> prop_of doc key \<notin> {Null, Undefined} then table_meter key else None)"

definition weekly_code_of_limit :: "js \<Rightarrow> string option" where
  "weekly_code_of_limit limit =
     (if isRecord limit \<and> prop_of limit ''kind'' = Str ''weekly_scoped''
      then map_option (\<lambda>name. CLAUDE_MODEL_WEEKLY_PREFIX @ name)
             (claudeFamilyCode (prop_of (prop_of (prop_of limit ''scope'') ''model'') ''display_name''))
      else None)"

lemma table_step_facts:
  "ts_dropped s \<Longrightarrow> ts_dropped (table_step doc now key s)"
  "set (ts_seen s) \<subseteq> set (ts_seen (table_step doc now key s))"
  "\<not> ts_dropped (table_step doc now key s) \<Longrightarrow> weekly_code_of_key doc key \<noteq> None \<Longrightarrow>
   the (weekly_code_of_key doc key) \<in> set (ts_seen (table_step doc now key s))"
  by (auto simp: table_step_def keep_window_def Let_def weekly_code_of_key_def split: option.splits if_splits)

lemma scoped_step_facts:
  "ts_dropped s \<Longrightarrow> ts_dropped (scoped_step now limit s)"
  "set (ts_seen s) \<subseteq> set (ts_seen (scoped_step now limit s))"
  "\<not> ts_dropped (scoped_step now limit s) \<Longrightarrow> weekly_code_of_limit limit \<noteq> None \<Longrightarrow>
   the (weekly_code_of_limit limit) \<in> set (ts_seen (scoped_step now limit s))"
  by (auto simp: scoped_step_def keep_window_def Let_def weekly_code_of_limit_def split: option.splits if_splits)

lemma table_covers:
  assumes "\<not> ts_dropped (parseWindowTable doc now s)" "key \<in> set (orderedWindowKeys doc)" "weekly_code_of_key doc key = Some code"
  shows "code \<in> set (ts_seen (parseWindowTable doc now s))"
  using fold_covers [of ts_dropped "table_step doc now" "set \<circ> ts_seen" "\<lambda>key. weekly_code_of_key doc key \<noteq> None"
      "the \<circ> weekly_code_of_key doc" "orderedWindowKeys doc" s key, simplified comp_apply, OF table_step_facts] assms
  by (simp add: parseWindowTable_def)

lemma scoped_covers:
  assumes "\<not> ts_dropped (parseScopedLimits (Arr entries) now s)" "limit \<in> set entries" "weekly_code_of_limit limit = Some code"
  shows "code \<in> set (ts_seen (parseScopedLimits (Arr entries) now s))"
  using fold_covers [of ts_dropped "scoped_step now" "set \<circ> ts_seen" "\<lambda>limit. weekly_code_of_limit limit \<noteq> None"
      "the \<circ> weekly_code_of_limit" entries s limit, simplified comp_apply, OF scoped_step_facts] assms
  by (simp add: parseScopedLimits_def)

lemma scoped_grows:
  "set (ts_seen s) \<subseteq> set (ts_seen (parseScopedLimits v now s)) \<and> (ts_dropped s \<longrightarrow> ts_dropped (parseScopedLimits v now s))"
proof -
  have "set (ts_seen s) \<subseteq> set (ts_seen (fold (scoped_step now) xs s)) \<and> (ts_dropped s \<longrightarrow> ts_dropped (fold (scoped_step now) xs s))" for xs
  proof (induction xs arbitrary: s)
    case (Cons x xs)
    from Cons [of "scoped_step now x s"] scoped_step_facts(1,2) [of s now x] show ?case by auto
  qed simp
  then show ?thesis by (simp add: parseScopedLimits_def split: js.splits)
qed

lemma extra_grows: "set (ts_seen s) \<subseteq> set (ts_seen (extra_step v now s)) \<and> ts_dropped (extra_step v now s) = ts_dropped s"
  by (auto simp: extra_step_def keep_window_def split: option.splits)

text \<open>C15: a weekly set that counts as complete misses no bucket it has a code for. Every weekly key of the table that holds a
  value and has a meter code, and every scoped limit of a known family, is among the meters, and the normalizer keeps its
  row under that code unless the code has more than thirty-two characters.\<close>

theorem complete_set_misses_none:
  assumes "claudeWeeklySetComplete doc now = Inr True"
    "key \<in> set (orderedWindowKeys doc) \<and> weekly_code_of_key doc key = Some code \<or>
     prop_of doc ''limits'' = Arr entries \<and> limit \<in> set entries \<and> weekly_code_of_limit limit = Some code"
    "iso_instant now"
  shows "\<exists>meters raw. parseClaudePayload doc now = Inr (Some meters) \<and> raw \<in> set meters \<and> prop_of raw ''meter'' = Str code \<and>
    (case normalizeMeter raw of
       None \<Rightarrow> 32 < length code
     | Some row \<Rightarrow> sn_provider row = CLAUDE \<and> sn_meter row = code)"
proof -
  obtain meters where m: "parseClaudeDocument doc now = Inr (Some meters, False)" "\<not> statusline doc"
    using assms(1) by (auto simp: claudeWeeklySetComplete_def map_sum_Inr_iff)
  then have p: "parseClaudePayload doc now = Inr (Some meters)" by (simp add: parseClaudePayload_def)
  let ?table = "parseWindowTable doc now no_windows"
  let ?scoped = "parseScopedLimits (prop_of doc ''limits'') now ?table"
  have s: "document_windows doc now = extra_step (prop_of doc ''extra_usage'') now ?scoped"
    using m(2) by (simp add: document_windows_def)
  have kept: "\<not> ts_dropped ?scoped" "\<not> ts_dropped ?table"
    using m extra_grows [of ?scoped] scoped_grows [of ?table]
    by (auto simp: parseClaudeDocument_def rbind_Inr_iff Let_def s split: option.splits if_splits)
  have "code \<in> set (ts_seen ?scoped)"
    using assms(2)
  proof (elim disjE conjE)
    assume "key \<in> set (orderedWindowKeys doc)" "weekly_code_of_key doc key = Some code"
    from table_covers [OF kept(2) this] scoped_grows [of ?table] show ?thesis by blast
  next
    assume "prop_of doc ''limits'' = Arr entries" "limit \<in> set entries" "weekly_code_of_limit limit = Some code"
    with scoped_covers [of entries now ?table limit code] kept(1) show ?thesis by simp
  qed
  then have "code \<in> set (ts_seen (document_windows doc now))" using extra_grows [of ?scoped] s by auto
  then have "code \<in> mi_meter ` set (ts_found (document_windows doc now))"
    using good_document [of now doc] by (simp add: good_table_def)
  then obtain i where i: "i \<in> set (ts_found (document_windows doc now))" "code = mi_meter i" by blast
  obtain e source where "meters = map (\<lambda>input. buildMeter input now e source) (ts_found (document_windows doc now))"
    using parseClaudePayload_Some [OF p] by metis
  then have raw: "buildMeter i now e source \<in> set meters" using i(1) by simp
  have code: "prop_of (buildMeter i now e source) ''meter'' = Str code" by (simp add: i(2) buildMeter_def meter_raw_def)
  have "case normalizeMeter (buildMeter i now e source) of None \<Rightarrow> 32 < length code
      | Some row \<Rightarrow> sn_provider row = CLAUDE \<and> sn_meter row = code"
    using claude_meters_kept [OF p assms(3), THEN conjunct2, rule_format, OF raw] code by (auto split: option.splits)
  then show ?thesis using p raw code by blast
qed

section \<open>A document with one scoped limit\<close>

definition sample_limit :: "string \<Rightarrow> js" where
  "sample_limit name =
     Obj [(''kind'', Str ''weekly_scoped''), (''percent'', Num (Fin 61)), (''resets_at'', Str ''2026-07-06T00:00:00Z''),
          (''scope'', Obj [(''model'', Obj [(''display_name'', Str name)])])]"

definition sample_document :: "string \<Rightarrow> js" where
  "sample_document name = Obj [(''limits'', Arr [sample_limit name])]"

definition long_name :: string where
  "long_name = ''Sonnet 4.5 Long Context''"

lemma sample_monday: "dateParse ''2026-07-06T00:00:00Z'' = Some 1783296000000"
  by (simp add: date_eval cong: bind_weak_cong)

lemma sample_texts:
  "three_digits (trim ''2026-07-06T00:00:00Z'') = ''2026-07-06T00:00:00Z''"
  "states_zone ''2026-07-06T00:00:00Z''"
  "quoted_epoch (trim ''2026-07-06T00:00:00Z'') = False"
  "claudeFamilyCode (Str long_name) = Some ''SONNET_4_5_LONG_CONTEXT''"
  "claudeFamilyCode (Str ''Sonnet'') = Some ''SONNET''"
  "\<not> window_key ''limits''"
  by code_simp+

lemma sample_reset:
  "resetInstant (Str ''2026-07-06T00:00:00Z'') sample_now (reset_bound (Some SEVEN_DAYS)) = Some (iso_text 1783296000000)"
  by (simp add: resetInstant_def futureInstantFromRfc3339_def sample_texts sample_monday sample_clock(1) Let_def
     reset_bound_def SEVEN_DAYS_def CLOCK_SKEW_SECONDS_def too_far_def date_text_eq_Some max_time_def)

lemma sample_windows:
  assumes "claudeFamilyCode (Str name) = Some code"
  shows "document_windows (sample_document name) sample_now =
     \<lparr>ts_seen = [''SEVEN_DAY_'' @ code],
      ts_found = [\<lparr>mi_meter = ''SEVEN_DAY_'' @ code, mi_percent = 61, mi_durationSeconds = Some SEVEN_DAYS,
                   mi_resetAt = Some (iso_text 1783296000000), mi_amounts = None\<rparr>], ts_dropped = False\<rparr>"
proof -
  have "orderedWindowKeys (sample_document name) = []"
    using sample_texts(6) by (simp add: orderedWindowKeys_def remaining_keys_def sample_document_def KNOWN_WINDOWS_def map_filter_def)
  then have table: "parseWindowTable (sample_document name) sample_now no_windows = no_windows" by (simp add: parseWindowTable_def)
  have shape: "\<not> statusline (sample_document name)" "prop_of (sample_document name) ''extra_usage'' = Undefined"
    "prop_of (sample_document name) ''limits'' = Arr [sample_limit name]"
    by (simp_all add: statusline_def sample_document_def)
  have fields: "isRecord (sample_limit name)" "prop_of (sample_limit name) ''kind'' = Str ''weekly_scoped''"
    "prop_of (prop_of (prop_of (sample_limit name) ''scope'') ''model'') ''display_name'' = Str name"
    "prop_of (sample_limit name) ''resets_at'' = Str ''2026-07-06T00:00:00Z''" "statedPercent (sample_limit name) = Some 61"
    by (simp_all add: sample_limit_def statedPercent_def boundedNumber_def)
  have "parseWindow (sample_limit name) sample_now meter (Some SEVEN_DAYS) =
      Some \<lparr>mi_meter = meter, mi_percent = 61, mi_durationSeconds = Some SEVEN_DAYS,
            mi_resetAt = Some (iso_text 1783296000000), mi_amounts = None\<rparr>" for meter
    by (simp add: parseWindow_def record_of_def fields sample_reset)
  then show ?thesis
    using table by (simp add: document_windows_def shape parseScopedLimits_def Let_def scoped_step_def fields assms
        no_windows_def keep_window_def CLAUDE_MODEL_WEEKLY_PREFIX_def extra_step_def parseExtraUsage_def)
qed

lemma sample_parse:
  assumes "claudeFamilyCode (Str name) = Some code"
  shows "parseClaudeDocument (sample_document name) sample_now =
     Inr (Some (map (\<lambda>input. buildMeter input sample_now ''2026-07-01T10:01:00.000Z'' InternalPayload)
       (ts_found (document_windows (sample_document name) sample_now))), False)"
proof -
  have "isRecord (sample_document name)" "\<not> statusline (sample_document name)" "looksLikeUsageDocument (sample_document name)"
    by (simp_all add: statusline_def looksLikeUsageDocument_def sample_document_def)
  then show ?thesis by (simp add: parseClaudeDocument_def sample_windows [OF assms] sample_clock(2))
qed

lemma sample_not_statusline: "\<not> statusline (sample_document name)"
  by (simp add: statusline_def sample_document_def)

lemma sample_complete:
  assumes "claudeFamilyCode (Str name) = Some code"
  shows "claudeWeeklySetComplete (sample_document name) sample_now = Inr True \<and>
    (\<exists>raw. parseClaudePayload (sample_document name) sample_now = Inr (Some [raw]) \<and>
       prop_of raw ''meter'' = Str (''SEVEN_DAY_'' @ code) \<and> (\<not> safeMeter (''SEVEN_DAY_'' @ code) \<longrightarrow> normalizeMeter raw = None))"
  by (simp add: claudeWeeklySetComplete_def parseClaudePayload_def sample_parse [OF assms] sample_windows [OF assms] sample_not_statusline
      buildMeter_def meter_raw_def normalizeMeter_unsafe)

text \<open>Not every meter of a document reaches the cache, whatever the document says of itself: a family name of
  more than 22 characters gives a code the normalizer refuses, and the weekly set still counts as complete.\<close>

theorem long_model_name_lost:
  "claudeWeeklySetComplete (sample_document long_name) sample_now = Inr True \<and>
   (\<exists>raw. parseClaudePayload (sample_document long_name) sample_now = Inr (Some [raw]) \<and>
      prop_of raw ''meter'' = Str ''SEVEN_DAY_SONNET_4_5_LONG_CONTEXT'' \<and> normalizeMeter raw = None)"
proof -
  have "\<not> safeMeter (''SEVEN_DAY_'' @ ''SONNET_4_5_LONG_CONTEXT'')" by code_simp
  then show ?thesis using sample_complete [OF sample_texts(4)] by auto
qed

theorem claude_meters_kept_witness:
  "\<exists>meters. parseClaudePayload (sample_document long_name) sample_now = Inr (Some meters) \<and> length meters = 1 \<and>
     distinct (map (\<lambda>raw. prop_of raw ''meter'') meters)"
  using claude_meters_kept [OF _ sample_clock(3), of "sample_document long_name"] sample_complete [OF sample_texts(4)] by force

text \<open>At a document that states one limit of the family Sonnet, whose row the normalizer keeps.\<close>

theorem complete_set_misses_none_witness:
  "\<exists>meters raw row. parseClaudePayload (sample_document ''Sonnet'') sample_now = Inr (Some meters) \<and> raw \<in> set meters \<and>
    normalizeMeter raw = Some row \<and> sn_meter row = ''SEVEN_DAY_SONNET''"
proof -
  have limit: "prop_of (sample_document ''Sonnet'') ''limits'' = Arr [sample_limit ''Sonnet''] \<and>
      sample_limit ''Sonnet'' \<in> set [sample_limit ''Sonnet''] \<and>
      weekly_code_of_limit (sample_limit ''Sonnet'') = Some ''SEVEN_DAY_SONNET''"
    by (simp add: sample_document_def) (simp add: weekly_code_of_limit_def sample_limit_def sample_texts CLAUDE_MODEL_WEEKLY_PREFIX_def)
  have "claudeWeeklySetComplete (sample_document ''Sonnet'') sample_now = Inr True"
    using sample_complete [OF sample_texts(5)] by blast
  from complete_set_misses_none [OF this disjI2 [OF limit] sample_clock(3)] obtain meters raw
    where "parseClaudePayload (sample_document ''Sonnet'') sample_now = Inr (Some meters)" "raw \<in> set meters"
      "case normalizeMeter raw of None \<Rightarrow> 32 < length ''SEVEN_DAY_SONNET''
       | Some row \<Rightarrow> sn_provider row = CLAUDE \<and> sn_meter row = ''SEVEN_DAY_SONNET''"
    by blast
  then show ?thesis by (cases "normalizeMeter raw") auto
qed

theorem claude_order_free_witness:
  "parseClaudeDocument (Obj [(''limits'', Arr [sample_limit long_name]), (''seven_day'', Null)]) sample_now =
   parseClaudeDocument (Obj [(''seven_day'', Null), (''limits'', Arr [sample_limit long_name])]) sample_now"
proof (rule claude_order_free)
  have "distinct (map toLowerCase [''limits'', ''seven_day''])" by code_simp
  then show "distinct (map (toLowerCase \<circ> fst) [(''limits'', Arr [sample_limit long_name]), (''seven_day'', Null)])" by simp
qed simp

end
