(* ===== verification/Codex.thy ===== *)
theory Codex
  imports Connector
begin

text \<open>
  The Codex connector (connectors/codex.ts): the app server's rate limits by limit id, the older
  document with named windows, the monthly credit limit and the credit balance. A decimal string
  denotes its exact value, where the source rounds it to a double; a value no double reaches is
  infinite and refused.
\<close>

section \<open>Labels and codes\<close>

definition codexLabels :: connector_labels where
  "codexLabels =
     \<lparr>lab_credentialOrigin = OfficialLocalTool, lab_dataInterfaceStatus = DocumentedApiInterface,
      lab_automationRisk = LowRisk, lab_verification = VERIFIED_FIXTURES, lab_verificationEvidence = None\<rparr>"

definition legacyCodexLabels :: connector_labels where
  "legacyCodexLabels =
     \<lparr>lab_credentialOrigin = OfficialLocalTool, lab_dataInterfaceStatus = InternalEndpoint,
      lab_automationRisk = HighRisk, lab_verification = UNVERIFIED, lab_verificationEvidence = None\<rparr>"

definition meterIdForMinutes :: "rat option \<Rightarrow> string \<Rightarrow> string" where
  "meterIdForMinutes minutes slot =
     (case minutes of
        None \<Rightarrow> toUpperCase slot
      | Some m \<Rightarrow> if m = 300 then ''FIVE_HOUR'' else if m = 10080 then ''SEVEN_DAY'' else toUpperCase slot)"

text \<open>An underscore between a lower case letter or digit and the upper case letter behind it.\<close>

fun split_words :: "string \<Rightarrow> string" where
  "split_words (c # d # cs) =
     (if (is_lower c \<or> is_digit c) \<and> is_upper d then c # CHR ''_'' # split_words (d # cs) else c # split_words (d # cs))"
| "split_words cs = cs"

definition alnum :: "char \<Rightarrow> bool" where
  "alnum c \<longleftrightarrow> is_upper c \<or> is_lower c \<or> is_digit c"

definition readableLimitId :: "string \<Rightarrow> string option" where
  "readableLimitId s =
     (let readable = toUpperCase (strip_underscores (collapse alnum (split_words (trim s))))
      in if readable \<noteq> [] then Some readable else None)"

definition strip_trailing :: "string \<Rightarrow> string" where
  "strip_trailing s = rev (dropWhile (\<lambda>c. c = CHR ''_'') (rev s))"

definition prefixedMeter :: "string \<Rightarrow> string \<Rightarrow> string" where
  "prefixedMeter limitId duration =
     (if limitId = ''CODEX'' then duration
      else strip_trailing (take (max 1 (31 - length duration)) limitId) @ ''_'' @ duration)"

definition suffixedMeter :: "string \<Rightarrow> string \<Rightarrow> string" where
  "suffixedMeter meter slot =
     (let suffix = ''_'' @ toUpperCase slot
      in strip_trailing (take (32 - length suffix) meter) @ suffix)"

section \<open>Decimal strings\<close>

definition decimal :: "js \<Rightarrow> rat option" where
  "decimal v =
     (case v of
        Str s \<Rightarrow>
          let whole = takeWhile is_digit s; rest = dropWhile is_digit s
          in if (whole = ''0'' \<or> whole \<noteq> [] \<and> hd whole \<noteq> CHR ''0'') \<and>
                (rest = [] \<or> hd rest = CHR ''.'' \<and> tl rest \<noteq> [] \<and> list_all is_digit (tl rest))
             then let parsed = decimal_value whole (tl rest) in if parsed < infinite_from then Some parsed else None
             else None
      | _ \<Rightarrow> None)"

section \<open>Windows of one limit\<close>

text \<open>\<open>windowDurationMins\<close>: null, or a positive whole number of minutes up to a year; \<open>None\<close> drops the window.\<close>

definition read_minutes :: "js \<Rightarrow> rat option option" where
  "read_minutes v =
     (case v of
        Null \<Rightarrow> Some None
      | Num (Fin r) \<Rightarrow> if is_integer r \<and> 0 < r \<and> r \<le> 525600 then Some (Some r) else None
      | _ \<Rightarrow> None)"

definition minutes_window :: "rat option \<Rightarrow> snapshot_window" where
  "minutes_window minutes =
     (case minutes of
        None \<Rightarrow> \<lparr>win_kind = UnknownWindow, win_durationSeconds = None\<rparr>
      | Some m \<Rightarrow> \<lparr>win_kind = Rolling, win_durationSeconds = Some \<lfloor>m * 60\<rfloor>\<rparr>)"

definition codex_raw :: "string \<Rightarrow> rat \<Rightarrow> snapshot_window \<Rightarrow> string option \<Rightarrow> string \<Rightarrow> string \<Rightarrow> raw_input" where
  "codex_raw meter val window resetAt now expiresAt =
     \<lparr>ri_provider = CODEX, ri_meter = meter, ri_value = val, ri_window = window, ri_resetAt = resetAt,
      ri_source = DocumentedApi, ri_precision = Exact, ri_observedAt = now, ri_expiresAt = expiresAt,
      ri_labels = codexLabels, ri_amounts = None\<rparr>"

definition slot_window :: "js \<Rightarrow> string \<Rightarrow> string \<Rightarrow> string \<Rightarrow> string \<Rightarrow> raw_input option" where
  "slot_window snapshot limitId now expiresAt slot =
     (let window = prop_of snapshot slot;
          resetValue = prop_of window ''resetsAt'';
          resetAt = (if nullish resetValue then None else futureInstantFromEpochSeconds resetValue now None)
      in if \<not> isRecord window then None
         else
           (case (boundedNumber (prop_of window ''usedPercent'') 100, read_minutes (prop_of window ''windowDurationMins'')) of
              (Some percent, Some minutes) \<Rightarrow>
                if \<not> nullish resetValue \<and> resetAt = None then None
                else Some (codex_raw (prefixedMeter limitId (meterIdForMinutes minutes slot)) percent
                             (minutes_window minutes) resetAt now expiresAt)
            | _ \<Rightarrow> None))"

text \<open>Two windows of one limit under one code are told apart by their slot.\<close>

definition windowsFrom :: "js \<Rightarrow> string \<Rightarrow> string \<Rightarrow> string \<Rightarrow> raw_input list" where
  "windowsFrom snapshot limitId now expiresAt =
     (let parsed = List.map_filter (\<lambda>slot. map_option (Pair slot) (slot_window snapshot limitId now expiresAt slot))
                     [''primary'', ''secondary''];
          codes = map (ri_meter \<circ> snd) parsed
      in map (\<lambda>(slot, m). if 1 < count_list codes (ri_meter m) then m\<lparr>ri_meter := suffixedMeter (ri_meter m) slot\<rparr> else m)
           parsed)"

section \<open>Credits\<close>

definition credit_number :: "js \<Rightarrow> rat option" where
  "credit_number v = (case v of Str _ \<Rightarrow> decimal v | _ \<Rightarrow> boundedNumber v TRILLION)"

definition monthlyCreditLimit :: "js \<Rightarrow> string \<Rightarrow> string \<Rightarrow> raw_input option" where
  "monthlyCreditLimit v now expiresAt =
     (if \<not> isRecord v then None
      else
        (case (credit_number (prop_of v ''limit''), credit_number (prop_of v ''used''),
               boundedNumber (prop_of v ''remainingPercent'') 100,
               futureInstantFromEpochSeconds (prop_of v ''resetsAt'') now None) of
           (Some cap, Some used, Some remaining, Some resetAt) \<Rightarrow>
             if cap \<le> 0 \<or> cap < used then None
             else Some (codex_raw ''MONTHLY_CREDIT_LIMIT'' (of_int (math_round ((100 - remaining) * TRILLION)) / TRILLION)
                          \<lparr>win_kind = Fixed, win_durationSeconds = None\<rparr> (Some resetAt) now expiresAt)
         | _ \<Rightarrow> None))"

definition unlimited_raw :: "snapshot_source \<Rightarrow> connector_labels \<Rightarrow> string \<Rightarrow> string \<Rightarrow> raw_input" where
  "unlimited_raw source labels now expiresAt =
     (codex_raw ''CREDITS'' 0 \<lparr>win_kind = UnknownWindow, win_durationSeconds = None\<rparr> None now expiresAt)
       \<lparr>ri_source := source, ri_labels := labels\<rparr>"

definition unlimited_credits :: "snapshot_source \<Rightarrow> connector_labels \<Rightarrow> string \<Rightarrow> string \<Rightarrow> js" where
  "unlimited_credits source labels now expiresAt =
     (let i = unlimited_raw source labels now expiresAt
      in meter_literal i (window_js (ri_window i)) PERCENT None (Some Unlimited))"

definition credit_balance :: "rat \<Rightarrow> string \<Rightarrow> string \<Rightarrow> js" where
  "credit_balance balance now expiresAt =
     (let i = codex_raw ''CREDITS'' balance \<lparr>win_kind = Lifetime, win_durationSeconds = None\<rparr> None now expiresAt
      in meter_literal i (window_js (ri_window i)) CREDITS None None)"

definition credit_meters :: "js \<Rightarrow> string \<Rightarrow> string \<Rightarrow> js list" where
  "credit_meters credits now expiresAt =
     (if prop_of credits ''unlimited'' = Bool True then [unlimited_credits DocumentedApi codexLabels now expiresAt]
      else if prop_of credits ''hasCredits'' = Bool True
      then (case decimal (prop_of credits ''balance'') of None \<Rightarrow> [] | Some b \<Rightarrow> [credit_balance b now expiresAt])
      else [])"

section \<open>The older document\<close>

definition resetFromCountdown :: "js \<Rightarrow> string \<Rightarrow> rat option \<Rightarrow> string option" where
  "resetFromCountdown v now lengthSeconds =
     (case v of
        Num (Fin r) \<Rightarrow>
          if r \<le> 0 \<or> (case lengthSeconds of None \<Rightarrow> False | Some l \<Rightarrow> plausibleResetHorizon l < r) then None
          else instantAfter now r
      | _ \<Rightarrow> None)"

definition window_suffix :: string where
  "window_suffix = ''_window''"

definition endsWith :: "string \<Rightarrow> string \<Rightarrow> bool" where
  "endsWith s e \<longleftrightarrow> startsWith (rev s) (rev e)"

definition meterIdFor :: "rat option \<Rightarrow> string \<Rightarrow> string" where
  "meterIdFor lengthSeconds windowKey =
     (if lengthSeconds = Some 18000 then ''FIVE_HOUR''
      else if lengthSeconds = Some 604800 then ''SEVEN_DAY''
      else toUpperCase (if endsWith windowKey window_suffix then take (length windowKey - length window_suffix) windowKey
                        else windowKey))"

definition legacy_window :: "rat option \<Rightarrow> snapshot_window" where
  "legacy_window lengthSeconds =
     (case lengthSeconds of
        None \<Rightarrow> \<lparr>win_kind = UnknownWindow, win_durationSeconds = None\<rparr>
      | Some l \<Rightarrow> \<lparr>win_kind = Rolling, win_durationSeconds = Some \<lfloor>l\<rfloor>\<rparr>)"

text \<open>The instant form of a reset wins over the countdown; a reset that is there and unreadable drops the
  window, an absent one does not.\<close>

definition legacy_reset :: "js \<Rightarrow> string \<Rightarrow> rat option \<Rightarrow> string option option" where
  "legacy_reset window now lengthSeconds =
     (let at_value = prop_of window ''reset_at''; after = prop_of window ''reset_after_seconds'';
          resetAt = (if \<not> nullish at_value
                     then futureInstantFromEpochSeconds at_value now (map_option plausibleResetHorizon lengthSeconds)
                     else if \<not> nullish after then resetFromCountdown after now lengthSeconds else None)
      in if (\<not> nullish at_value \<or> \<not> nullish after) \<and> resetAt = None then None else Some resetAt)"

definition legacy_meter :: "js \<Rightarrow> string \<Rightarrow> string \<Rightarrow> string \<Rightarrow> raw_input option" where
  "legacy_meter limits now expiresAt windowKey =
     (let window = prop_of limits windowKey; len = windowSeconds (prop_of window ''limit_window_seconds'') in
      if \<not> endsWith windowKey window_suffix \<or> \<not> isRecord window then None
      else
        (case (boundedNumber (prop_of window ''used_percent'') 100, legacy_reset window now len) of
           (Some percent, Some resetAt) \<Rightarrow>
             Some \<lparr>ri_provider = CODEX, ri_meter = meterIdFor len windowKey, ri_value = percent,
                   ri_window = legacy_window len, ri_resetAt = resetAt, ri_source = InternalPayload,
                   ri_precision = Estimated, ri_observedAt = now, ri_expiresAt = expiresAt,
                   ri_labels = legacyCodexLabels, ri_amounts = None\<rparr>
         | _ \<Rightarrow> None))"

definition legacy_meters :: "js \<Rightarrow> string \<Rightarrow> string \<Rightarrow> js list" where
  "legacy_meters doc now expiresAt =
     (let limits = prop_of doc ''rate_limit''
      in map rawMeter (List.map_filter (legacy_meter limits now expiresAt) (keys_of limits)) @
         (if prop_of (prop_of doc ''credits'') ''unlimited'' = Bool True
          then [unlimited_credits InternalPayload legacyCodexLabels now expiresAt] else []))"

section \<open>The document\<close>

definition limit_rows :: "js \<Rightarrow> string \<Rightarrow> string \<Rightarrow> string \<Rightarrow> raw_input list" where
  "limit_rows snapshot limitId now expiresAt =
     windowsFrom snapshot limitId now expiresAt @
     (case monthlyCreditLimit (prop_of snapshot ''individualLimit'') now expiresAt of None \<Rightarrow> [] | Some m \<Rightarrow> [m])"

fun stated_id :: "js \<Rightarrow> string \<Rightarrow> string" where
  "stated_id (Str s) _ = s"
| "stated_id _ fallback = fallback"

text \<open>An entry of \<open>rateLimitsByLimitId\<close> with a readable id.\<close>

definition entry_limit :: "js \<Rightarrow> string \<Rightarrow> (string \<times> js) option" where
  "entry_limit table mapId =
     (let snapshot = prop_of table mapId
      in if isRecord snapshot
         then map_option (\<lambda>limitId. (limitId, snapshot)) (readableLimitId (stated_id (prop_of snapshot ''limitId'') mapId))
         else None)"

definition codex_rows :: "js \<Rightarrow> string \<Rightarrow> string \<Rightarrow> raw_input list" where
  "codex_rows doc now expiresAt =
     (let defaults = prop_of doc ''rateLimits'';
          defaultId = readableLimitId (stated_id (prop_of defaults ''limitId'') ''codex'');
          table = prop_of doc ''rateLimitsByLimitId'';
          entries = List.map_filter (entry_limit table) (keys_of table);
          covered = list_ex (\<lambda>(limitId, snapshot). windowsFrom snapshot limitId now expiresAt \<noteq> [] \<and> Some limitId = defaultId) entries
      in (case defaultId of
            None \<Rightarrow> []
          | Some limitId \<Rightarrow> if covered then [] else limit_rows defaults limitId now expiresAt) @
         concat (map (\<lambda>(limitId, snapshot). limit_rows snapshot limitId now expiresAt) entries))"

definition codex_meters :: "js \<Rightarrow> string \<Rightarrow> string \<Rightarrow> js list" where
  "codex_meters doc now expiresAt =
     map rawMeter (codex_rows doc now expiresAt) @ credit_meters (prop_of (prop_of doc ''rateLimits'') ''credits'') now expiresAt"

definition parseCodexPayload :: "js \<Rightarrow> string \<Rightarrow> js list option result" where
  "parseCodexPayload payload now =
     rbind (shortExpiry now) (\<lambda>expiry.
       case expiry of
         None \<Rightarrow> Inr None
       | Some expiresAt \<Rightarrow>
           if \<not> isRecord payload then Inr None
           else if \<not> isRecord (prop_of payload ''rateLimits'') then Inr (meters_or_null (legacy_meters payload now expiresAt))
           else Inr (meters_or_null (codex_meters payload now expiresAt)))"

definition CODEX_TOOL :: "string option" where
  "CODEX_TOOL = Some ''Codex CLI''"

definition codex_read :: "js \<Rightarrow> string \<Rightarrow> connector_result result" where
  "codex_read = connector_read parseCodexPayload CODEX_TOOL"

section \<open>Codes\<close>

lemma upper_char_lower: "is_lower c \<Longrightarrow> is_upper (upper_char c)"
proof -
  assume c: "is_lower c"
  then have "97 \<le> (of_char c :: nat)" "(of_char c :: nat) \<le> 122" by (auto simp: is_lower_def less_eq_char_def)
  with c show ?thesis by (simp add: upper_char_def is_upper_def less_eq_char_def le_diff_conv2)
qed

lemma upper_char_other: "\<not> is_lower c \<Longrightarrow> upper_char c = c"
  by (simp add: upper_char_def)

definition code_or_line :: "char \<Rightarrow> bool" where
  "code_or_line c \<longleftrightarrow> is_upper c \<or> is_digit c \<or> c = CHR ''_''"

lemma upper_alnum: "alnum c \<Longrightarrow> is_upper (upper_char c) \<or> is_digit (upper_char c)"
  by (cases "is_lower c") (auto simp: alnum_def upper_char_lower upper_char_other)

lemma collapse_chars: "list_all (\<lambda>c. keep c \<or> c = CHR ''_'') (collapse keep s)"
  by (induction keep s rule: collapse.induct) auto

lemma strip_underscores_subset: "set (strip_underscores s) \<subseteq> set s"
  by (auto simp: strip_underscores_def dest!: set_dropWhileD)

lemma strip_underscores_hd: "strip_underscores s \<noteq> [] \<Longrightarrow> hd (strip_underscores s) \<noteq> CHR ''_''"
proof -
  define t where "t = dropWhile (\<lambda>c. c = CHR ''_'') s"
  assume "strip_underscores s \<noteq> []"
  then obtain c cs where u: "strip_underscores s = c # cs" by (cases "strip_underscores s") auto
  have "t = strip_underscores s @ rev (takeWhile (\<lambda>c. c = CHR ''_'') (rev t))"
    unfolding strip_underscores_def t_def [symmetric] by (metis rev_append rev_rev_ident takeWhile_dropWhile_id)
  then obtain r where "t = c # cs @ r" by (simp add: u)
  then have "hd t = c" "t \<noteq> []" by simp_all
  moreover have "hd t \<noteq> CHR ''_''" if "t \<noteq> []"
    using that hd_dropWhile [of "\<lambda>c. c = CHR ''_''" s] by (simp add: t_def)
  ultimately show ?thesis by (simp add: u)
qed

text \<open>A limit id after reading: upper case letters, digits and inner underscores.\<close>

definition limit_code :: "string \<Rightarrow> bool" where
  "limit_code l \<longleftrightarrow> l \<noteq> [] \<and> (is_upper (hd l) \<or> is_digit (hd l)) \<and> list_all code_or_line l"

lemma readableLimitId_code: "readableLimitId s = Some l \<Longrightarrow> limit_code l"
proof -
  define t where "t = strip_underscores (collapse alnum (split_words (trim s)))"
  assume "readableLimitId s = Some l"
  then have l: "l = map upper_char t" "t \<noteq> []" by (auto simp: readableLimitId_def Let_def t_def toUpperCase_def split: if_splits)
  have chars: "alnum c \<or> c = CHR ''_''" if "c \<in> set t" for c
    using that strip_underscores_subset collapse_chars [of alnum "split_words (trim s)"] by (fastforce simp: t_def list_all_iff)
  then have "alnum (hd t)" using strip_underscores_hd l(2) by (metis t_def hd_in_set)
  moreover have "upper_char CHR ''_'' = CHR ''_''" by code_simp
  ultimately show ?thesis
    using l chars by (auto simp: limit_code_def hd_map upper_alnum list_all_iff code_or_line_def dest: upper_alnum)
qed

lemma strip_trailing_prefix: "s = strip_trailing s @ rev (takeWhile (\<lambda>c. c = CHR ''_'') (rev s))"
  unfolding strip_trailing_def by (simp flip: rev_append)

lemma strip_trailing_keeps_hd: "s \<noteq> [] \<Longrightarrow> hd s \<noteq> CHR ''_'' \<Longrightarrow> strip_trailing s \<noteq> [] \<and> hd (strip_trailing s) = hd s"
proof -
  assume s: "s \<noteq> []" "hd s \<noteq> CHR ''_''"
  then have "\<exists>c \<in> set (rev s). c \<noteq> CHR ''_''" by (intro bexI [of _ "hd s"]) simp_all
  then have "strip_trailing s \<noteq> []" by (auto simp: strip_trailing_def dropWhile_eq_Nil_conv)
  then show ?thesis by (metis strip_trailing_prefix hd_append2)
qed

lemma strip_trailing_length: "length (strip_trailing s) \<le> length s"
  unfolding strip_trailing_def by (metis length_dropWhile_le length_rev)

lemma strip_trailing_subset: "set (strip_trailing s) \<subseteq> set s"
  by (auto simp: strip_trailing_def dest!: set_dropWhileD)

text \<open>What the codes of the rows are: at most 32 characters of a code, the first no underscore.\<close>

definition codex_code :: "string \<Rightarrow> bool" where
  "codex_code m \<longleftrightarrow> limit_code m \<and> length m \<le> 32"

lemma codex_code_safe: "codex_code m \<Longrightarrow> safeMeter m \<longleftrightarrow> \<not> is_digit (hd m)"
  by (cases m) (auto simp: codex_code_def limit_code_def safeMeter_def is_upper_def is_digit_def less_eq_char_def list_all_iff code_or_line_def)

abbreviation slots :: "string list" where
  "slots \<equiv> [''primary'', ''secondary'']"

lemma duration_code: "slot \<in> set slots \<Longrightarrow> codex_code (meterIdForMinutes m slot) \<and> length (meterIdForMinutes m slot) \<le> 9"
proof -
  have "codex_code ''FIVE_HOUR''" "codex_code ''SEVEN_DAY''" "codex_code (toUpperCase ''primary'')" "codex_code (toUpperCase ''secondary'')"
    "length (toUpperCase ''primary'') \<le> 9" "length (toUpperCase ''secondary'') \<le> 9" by code_simp+
  then show "slot \<in> set slots \<Longrightarrow> ?thesis" by (auto simp: meterIdForMinutes_def split: option.splits)
qed

lemma trimmed_code:
  assumes "limit_code l" "0 < n" "list_all code_or_line e" "n + length e \<le> 32"
  shows "codex_code (strip_trailing (take n l) @ e)"
proof -
  define p where "p = take n l"
  have p: "p \<noteq> []" "hd p = hd l" "set p \<subseteq> set l" "length p \<le> n"
    using assms by (auto simp: p_def limit_code_def dest: in_set_takeD)
  have "hd l \<noteq> CHR ''_''" using assms(1) by (auto simp: limit_code_def is_upper_def is_digit_def less_eq_char_def)
  then have "strip_trailing p \<noteq> []" "hd (strip_trailing p) = hd l" using strip_trailing_keeps_hd [OF p(1)] p(2) by simp_all
  moreover have "list_all code_or_line (strip_trailing p)"
    using assms(1) p(3) strip_trailing_subset [of p] by (auto simp: limit_code_def list_all_iff)
  moreover have "length (strip_trailing p) \<le> n" using strip_trailing_length [of p] p(4) by simp
  ultimately show ?thesis
    using assms by (simp add: codex_code_def limit_code_def flip: p_def)
qed

lemma prefixedMeter_code:
  assumes "limit_code l" "codex_code d" "length d \<le> 9"
  shows "codex_code (prefixedMeter l d)"
  using assms trimmed_code [OF assms(1), of "31 - length d" "''_'' @ d"]
  by (simp add: prefixedMeter_def codex_code_def limit_code_def code_or_line_def max_absorb2)

lemma suffixedMeter_code:
  assumes "codex_code m" "slot \<in> set slots"
  shows "codex_code (suffixedMeter m slot)"
proof -
  define e where "e = ''_'' @ toUpperCase slot"
  have "list_all code_or_line (''_'' @ toUpperCase ''primary'') \<and> length (''_'' @ toUpperCase ''primary'') \<le> 10"
    "list_all code_or_line (''_'' @ toUpperCase ''secondary'') \<and> length (''_'' @ toUpperCase ''secondary'') \<le> 10" by code_simp+
  then have e: "list_all code_or_line e" "length e \<le> 10" using assms(2) unfolding e_def by auto
  have "suffixedMeter m slot = strip_trailing (take (32 - length e) m) @ e" by (simp add: suffixedMeter_def Let_def e_def)
  then show ?thesis using trimmed_code [OF _ _ e(1), of m "32 - length e"] assms(1) e(2) by (simp add: codex_code_def)
qed

text \<open>Every row of the app server's limits is one the normalizer can only refuse for its code.\<close>

definition good_row :: "string \<Rightarrow> string \<Rightarrow> raw_input \<Rightarrow> bool" where
  "good_row now expiresAt i \<longleftrightarrow>
     ri_provider i = CODEX \<and> ri_observedAt i = now \<and> ri_expiresAt i = expiresAt \<and> 0 \<le> ri_value i \<and> ri_value i \<le> 100 \<and>
     wf_window (ri_window i) \<and> wf_labels (ri_labels i) \<and>
     (case ri_resetAt i of None \<Rightarrow> True | Some r \<Rightarrow> ahead_of now None r)"

lemma codex_labels_wf: "wf_labels codexLabels" "wf_labels legacyCodexLabels"
  by (simp_all add: codexLabels_def legacyCodexLabels_def wf_labels_def)

lemma good_row_wf:
  assumes "good_row now e i" "iso_instant now" "shortExpiry now = Inr (Some e)"
  shows "wf_raw i"
proof -
  obtain current where "dateParse now = Some current" "iso_instant e" "dateParse e = Some (current + 60000)"
    using shortExpiry_Some [OF assms(3)] by blast
  then show ?thesis
    using assms(1,2) by (auto simp: good_row_def wf_raw_def wf_fields_def ms_le_iff ahead_of_def split: option.splits)
qed

lemma minutes_window_wf: "read_minutes v = Some m \<Longrightarrow> wf_window (minutes_window m)"
proof -
  have "0 < \<lfloor>r * 60\<rfloor> \<and> \<lfloor>r * 60\<rfloor> \<le> 31536000" if "is_integer r" "0 < r" "r \<le> 525600" for r :: rat
  proof -
    have "1 \<le> r * 60" "r * 60 \<le> 31536000" using that by (auto simp: is_integer_def elim!: Ints_cases)
    then show ?thesis by linarith
  qed
  then show "read_minutes v = Some m \<Longrightarrow> ?thesis"
    by (auto simp: read_minutes_def minutes_window_def wf_window_def split: js.splits jsnum.splits if_splits)
qed

lemma slot_window_good:
  assumes "slot_window snapshot l now e slot = Some i" "limit_code l" "slot \<in> set slots"
  shows "good_row now e i \<and> codex_code (ri_meter i)"
  using assms duration_code [OF assms(3)] prefixedMeter_code [OF assms(2)] boundedNumber_range epoch_ahead codex_labels_wf(1)
  by (auto simp: slot_window_def Let_def good_row_def codex_raw_def minutes_window_wf split: option.splits if_splits)

lemma windowsFrom_good:
  assumes "i \<in> set (windowsFrom snapshot l now e)" "limit_code l"
  shows "good_row now e i \<and> codex_code (ri_meter i)"
proof -
  let ?f = "\<lambda>slot. map_option (Pair slot) (slot_window snapshot l now e slot)"
  obtain slot m where p: "(slot, m) \<in> set (List.map_filter ?f slots)"
      "i = m \<or> i = m\<lparr>ri_meter := suffixedMeter (ri_meter m) slot\<rparr>"
    using assms(1) unfolding windowsFrom_def Let_def by (auto simp del: map_filter_simps split: if_splits)
  then have m: "slot \<in> set slots" "slot_window snapshot l now e slot = Some m"
      "i = m \<or> i = m\<lparr>ri_meter := suffixedMeter (ri_meter m) slot\<rparr>"
    by (auto simp: set_map_filter simp del: map_filter_simps)
  with slot_window_good [OF m(2) assms(2) m(1)] suffixedMeter_code [of "ri_meter m" slot] show ?thesis
    by (auto simp: good_row_def)
qed

text \<open>Two windows of one limit never share a code.\<close>

theorem slots_told_apart: "distinct (map ri_meter (windowsFrom snapshot limitId now expiresAt))"
proof -
  have ends: "rev (suffixedMeter a ''primary'') ! 3 = CHR ''M''" "rev (suffixedMeter b ''secondary'') ! 3 = CHR ''D''" for a b
  proof -
    have "toUpperCase ''primary'' = ''PRIMARY''" "toUpperCase ''secondary'' = ''SECONDARY''" by code_simp+
    then show "rev (suffixedMeter a ''primary'') ! 3 = CHR ''M''" "rev (suffixedMeter b ''secondary'') ! 3 = CHR ''D''"
      by (simp_all add: suffixedMeter_def Let_def)
  qed
  have "suffixedMeter a ''primary'' \<noteq> suffixedMeter b ''secondary''" for a b
  proof
    assume "suffixedMeter a ''primary'' = suffixedMeter b ''secondary''"
    with ends(1) [of a] ends(2) [of b] show False by simp
  qed
  then show ?thesis
    by (cases "slot_window snapshot limitId now expiresAt ''primary''"; cases "slot_window snapshot limitId now expiresAt ''secondary''")
      (auto simp: windowsFrom_def map_filter_def)
qed

lemma monthly_good:
  assumes "monthlyCreditLimit v now e = Some i"
  shows "good_row now e i \<and> codex_code (ri_meter i)"
proof -
  obtain remaining r where i: "i = codex_raw ''MONTHLY_CREDIT_LIMIT'' (of_int (math_round ((100 - remaining) * TRILLION)) / TRILLION)
        \<lparr>win_kind = Fixed, win_durationSeconds = None\<rparr> (Some r) now e"
      "boundedNumber (prop_of v ''remainingPercent'') 100 = Some remaining" "ahead_of now None r"
    using assms by (auto simp: monthlyCreditLimit_def dest: epoch_ahead split: if_splits option.splits)
  have "0 \<le> (100 - remaining) * TRILLION" "(100 - remaining) * TRILLION \<le> 100000000000000"
    using boundedNumber_range [OF i(2)] by (simp_all add: TRILLION_def)
  then have "0 \<le> math_round ((100 - remaining) * TRILLION)" "math_round ((100 - remaining) * TRILLION) \<le> 100000000000000"
    unfolding math_round_def by linarith+
  then have "0 \<le> (of_int (math_round ((100 - remaining) * TRILLION)) / TRILLION :: rat)"
    "(of_int (math_round ((100 - remaining) * TRILLION)) / TRILLION :: rat) \<le> 100"
    by (simp_all add: TRILLION_def)
  moreover have "codex_code ''MONTHLY_CREDIT_LIMIT''" by code_simp
  ultimately show ?thesis
    using i by (simp add: good_row_def codex_raw_def codex_labels_wf wf_window_def)
qed

lemma limit_rows_good: "limit_code l \<Longrightarrow> i \<in> set (limit_rows snapshot l now e) \<Longrightarrow> good_row now e i \<and> codex_code (ri_meter i)"
  using monthly_good by (auto simp: limit_rows_def dest: windowsFrom_good split: option.splits)

lemma entry_limit_code: "entry_limit table mapId = Some (l, snapshot) \<Longrightarrow> limit_code l"
  by (auto simp: entry_limit_def Let_def dest: readableLimitId_code split: if_splits)

lemma codex_rows_good:
  assumes "i \<in> set (codex_rows doc now e)"
  shows "good_row now e i \<and> codex_code (ri_meter i)"
proof -
  obtain l snapshot where "limit_code l" "i \<in> set (limit_rows snapshot l now e)"
    using assms entry_limit_code readableLimitId_code
    by (fastforce simp: codex_rows_def Let_def set_map_filter split: option.splits if_splits)
  then show ?thesis by (rule limit_rows_good)
qed

lemma legacy_reset_iso: "legacy_reset w now len = Some (Some r) \<Longrightarrow> iso_instant r"
  by (auto simp: legacy_reset_def Let_def resetFromCountdown_def ahead_of_def dest!: epoch_ahead
      intro: instantAfter_ahead split: if_splits js.splits jsnum.splits)

lemma legacy_window_wf: "wf_window (legacy_window (windowSeconds v))"
proof -
  have "0 < \<lfloor>r\<rfloor> \<and> \<lfloor>r\<rfloor> \<le> 31536000" if "is_integer r" "0 < r" "r \<le> MAX_WINDOW_SECONDS" for r :: rat
    using that unfolding is_integer_def MAX_WINDOW_SECONDS_def by linarith
  then show ?thesis
    by (auto simp: windowSeconds_def legacy_window_def wf_window_def split: js.splits jsnum.splits)
qed

lemma legacy_meter_wf:
  assumes "legacy_meter limits now e key = Some i" "iso_instant now" "shortExpiry now = Inr (Some e)"
  shows "wf_raw i \<and> ri_provider i = CODEX \<and> ri_observedAt i = now"
proof -
  obtain current where "dateParse now = Some current" "iso_instant e" "dateParse e = Some (current + 60000)"
    using shortExpiry_Some [OF assms(3)] by blast
  then show ?thesis
    using assms(1,2) codex_labels_wf(2) legacy_window_wf
    by (auto simp: legacy_meter_def Let_def wf_raw_def wf_fields_def ms_le_iff dest: boundedNumber_range legacy_reset_iso
      split: if_splits option.splits)
qed

lemma decimal_nonneg: "decimal v = Some r \<Longrightarrow> 0 \<le> r"
  by (auto simp: decimal_def decimal_value_def Let_def split: js.splits if_splits)

lemma credit_wf:
  assumes "iso_instant now" "shortExpiry now = Inr (Some e)"
  shows "wf_fields (unlimited_raw source codexLabels now e)" "wf_fields (unlimited_raw source legacyCodexLabels now e)"
    "0 \<le> b \<Longrightarrow> wf_fields (codex_raw ''CREDITS'' b w None now e)"
proof -
  obtain current where "dateParse now = Some current" "iso_instant e" "dateParse e = Some (current + 60000)"
    using shortExpiry_Some [OF assms(2)] by blast
  then show "wf_fields (unlimited_raw source codexLabels now e)" "wf_fields (unlimited_raw source legacyCodexLabels now e)"
    "0 \<le> b \<Longrightarrow> wf_fields (codex_raw ''CREDITS'' b w None now e)"
    using assms(1) by (simp_all add: wf_fields_def unlimited_raw_def codex_raw_def codex_labels_wf ms_le_iff)
qed

lemma credit_meters_cases:
  "raw \<in> set (credit_meters credits now e) \<Longrightarrow>
   raw = unlimited_credits DocumentedApi codexLabels now e \<or>
   (\<exists>b. decimal (prop_of credits ''balance'') = Some b \<and> raw = credit_balance b now e)"
  by (cases "prop_of credits ''unlimited'' = Bool True"; cases "prop_of credits ''hasCredits'' = Bool True";
      cases "decimal (prop_of credits ''balance'')") (simp_all add: credit_meters_def)

text \<open>What the meter list of a document is made of.\<close>

lemma codex_raw_cases:
  assumes "parseCodexPayload payload now = Inr (Some raws)" "raw \<in> set raws"
  obtains (Row) e i where "shortExpiry now = Inr (Some e)" "isRecord (prop_of payload ''rateLimits'')"
      "raw = rawMeter i" "good_row now e i" "codex_code (ri_meter i)"
    | (Legacy) e limits key i where "shortExpiry now = Inr (Some e)" "\<not> isRecord (prop_of payload ''rateLimits'')"
      "raw = rawMeter i" "legacy_meter limits now e key = Some i"
    | (Unlimited) e source labels where "shortExpiry now = Inr (Some e)" "labels \<in> {codexLabels, legacyCodexLabels}"
      "raw = unlimited_credits source labels now e"
    | (Balance) e b where "shortExpiry now = Inr (Some e)" "0 \<le> b" "raw = credit_balance b now e"
proof -
  obtain e where e: "shortExpiry now = Inr (Some e)"
    "meters_or_null (if isRecord (prop_of payload ''rateLimits'') then codex_meters payload now e else legacy_meters payload now e) = Some raws"
    using assms(1) unfolding parseCodexPayload_def rbind_Inr_iff by (auto split: option.splits if_splits)
  then have m: "raw \<in> set (if isRecord (prop_of payload ''rateLimits'') then codex_meters payload now e else legacy_meters payload now e)"
    using assms(2) by (simp add: meters_or_null_Some)
  note e = e(1)
  show thesis
  proof (cases "isRecord (prop_of payload ''rateLimits'')")
    case True
    with m consider i where "i \<in> set (codex_rows payload now e)" "raw = rawMeter i"
      | "raw \<in> set (credit_meters (prop_of (prop_of payload ''rateLimits'') ''credits'') now e)"
      by (auto simp: codex_meters_def)
    then show thesis
    proof cases
      case 1
      then show thesis using codex_rows_good Row [OF e True] by blast
    next
      case 2
      then consider "raw = unlimited_credits DocumentedApi codexLabels now e"
        | b where "0 \<le> b" "raw = credit_balance b now e"
        using credit_meters_cases decimal_nonneg by blast
      then show thesis
      proof cases
        case 1
        then show thesis by (intro Unlimited [OF e]) simp_all
      next
        case 2
        then show thesis by (rule Balance [OF e])
      qed
    qed
  next
    case False
    with m consider key i where "legacy_meter (prop_of payload ''rate_limit'') now e key = Some i" "raw = rawMeter i"
      | "raw = unlimited_credits InternalPayload legacyCodexLabels now e"
      by (auto simp: legacy_meters_def Let_def set_map_filter split: if_splits)
    then show thesis
    proof cases
      case 1
      then show thesis by (intro Legacy [OF e False])
    next
      case 2
      then show thesis by (intro Unlimited [OF e]) simp_all
    qed
  qed
qed

lemma credits_safe: "safeMeter ''CREDITS''"
  by code_simp

lemma normalize_unlimited:
  assumes "iso_instant now" "shortExpiry now = Inr (Some e)" "labels \<in> {codexLabels, legacyCodexLabels}"
  shows "normalizeMeter (unlimited_credits source labels now e) =
    Some (literal_row (unlimited_raw source labels now e) PERCENT None (Some Unlimited) (ri_window (unlimited_raw source labels now e)))"
  using assms credit_wf(1,2) [OF assms(1,2)] credits_safe
  by (auto simp: unlimited_credits_def Let_def normalizeMeter_literal window_js_defined unlimited_raw_def codex_raw_def
      above_range_def normalizeWindow_js wf_window_def)

lemma normalize_balance:
  assumes "iso_instant now" "shortExpiry now = Inr (Some e)" "0 \<le> b"
  shows "normalizeMeter (credit_balance b now e) =
    (let i = codex_raw ''CREDITS'' b \<lparr>win_kind = Lifetime, win_durationSeconds = None\<rparr> None now e
     in if b \<le> TRILLION then Some (literal_row i CREDITS None None (ri_window i)) else None)"
  using assms credit_wf(3) [OF assms(1,2,3)] credits_safe
  by (auto simp: credit_balance_def Let_def normalizeMeter_literal window_js_defined codex_raw_def TRILLION_def
      above_range_def normalizeWindow_js wf_window_def)

interpretation codex_reader: payload_reader parseCodexPayload CODEX
proof unfold_locales
  fix payload now raws raw row
  assume p: "parseCodexPayload payload now = Inr (Some raws)" and now: "iso_instant now" and raw: "raw \<in> set raws"
    and row: "normalizeMeter raw = Some row"
  from p raw show "parsed_row CODEX now raw row"
  proof (cases rule: codex_raw_cases)
    case (Row e i)
    then show ?thesis using parsed_row_raw [OF good_row_wf [OF Row(4) now Row(1)]] row by (auto simp: good_row_def)
  next
    case (Legacy e limits key i)
    then show ?thesis using parsed_row_raw [of i now row] legacy_meter_wf [OF Legacy(4) now Legacy(1)] row by auto
  next
    case (Unlimited e source labels)
    then show ?thesis using normalize_unlimited [OF now Unlimited(1,2)] row
      by (auto simp: parsed_row_def literal_row_def raw_row_def unlimited_credits_def Let_def unlimited_raw_def codex_raw_def)
  next
    case (Balance e b)
    then show ?thesis using normalize_balance [OF now Balance(1,2)] row
      by (auto simp: parsed_row_def literal_row_def raw_row_def credit_balance_def Let_def codex_raw_def split: if_splits)
  qed
next
  fix payload now raws
  assume "parseCodexPayload payload now = Inr (Some raws)"
  then show "raws \<noteq> []"
    by (auto simp: parseCodexPayload_def rbind_Inr_iff meters_or_null_Some split: option.splits if_splits)
qed

text \<open>Every meter of an app server document has a code of at most 32 characters, and the normalizer keeps it
  unless the code starts with a digit or the meter is a balance of more than a trillion.\<close>

theorem codex_meters_kept:
  assumes "parseCodexPayload payload now = Inr (Some raws)" "iso_instant now" "isRecord (prop_of payload ''rateLimits'')" "raw \<in> set raws"
  shows "\<exists>code v. prop_of raw ''meter'' = Str code \<and> prop_of raw ''value'' = num_js v \<and> 0 < length code \<and> length code \<le> 32 \<and>
    (normalizeMeter raw = None \<longleftrightarrow> is_digit (hd code) \<or> TRILLION < v)"
  using assms(1,4)
proof (cases rule: codex_raw_cases)
  case (Row e i)
  then show ?thesis
    using good_row_wf [OF Row(4) assms(2) Row(1)] codex_code_safe [OF Row(5)]
    by (auto simp: normalizeMeter_raw codex_code_def limit_code_def good_row_def TRILLION_def)
next
  case (Legacy e limits key i)
  then show ?thesis using assms(3) by simp
next
  case (Unlimited e source labels)
  have "\<not> is_digit CHR ''C''" by code_simp
  then show ?thesis using normalize_unlimited [OF assms(2) Unlimited(1,2)] Unlimited(3)
    by (intro exI [of _ "''CREDITS''"] exI [of _ 0]) (simp add: unlimited_credits_def Let_def unlimited_raw_def codex_raw_def TRILLION_def)
next
  case (Balance e b)
  have "\<not> is_digit CHR ''C''" by code_simp
  then show ?thesis using normalize_balance [OF assms(2) Balance(1,2)] Balance(3)
    by (intro exI [of _ "''CREDITS''"] exI [of _ b]) (simp add: credit_balance_def Let_def codex_raw_def not_less)
qed

section \<open>Two limits with a monthly ceiling\<close>

definition sample_limits :: "rat \<Rightarrow> js" where
  "sample_limits remaining =
     Obj [(''primary'', Obj [(''usedPercent'', Num (Fin 25)), (''windowDurationMins'', Num (Fin 300)),
            (''resetsAt'', Num (Fin 1782910000))]),
          (''individualLimit'', Obj [(''limit'', Str ''100''), (''used'', Str ''40.5''), (''remainingPercent'', Num (Fin remaining)),
            (''resetsAt'', Num (Fin 1784000000))])]"

definition codex_sample :: js where
  "codex_sample =
     Obj [(''rateLimits'', Obj [(''limitId'', Str ''codex'')]),
          (''rateLimitsByLimitId'', Obj [(''codex'', sample_limits 60), (''4o-mini'', sample_limits 90)])]"

definition sample_resets :: "string \<times> string" where
  "sample_resets = (iso_text 1782910000000, iso_text 1784000000000)"

lemma sample_epochs:
  "futureInstantFromEpochSeconds (Num (Fin 1782910000)) sample_now None = Some (fst sample_resets)"
  "futureInstantFromEpochSeconds (Num (Fin 1784000000)) sample_now None = Some (snd sample_resets)"
  by (simp_all add: futureInstantFromEpochSeconds_def MAX_EPOCH_SECONDS_def sample_clock(1) too_far_def Let_def
      date_text_eq_Some max_time_def sample_resets_def)

lemma sample_codes:
  "readableLimitId ''codex'' = Some ''CODEX''" "readableLimitId ''4o-mini'' = Some ''4O_MINI''"
  "prefixedMeter ''CODEX'' ''FIVE_HOUR'' = ''FIVE_HOUR''" "prefixedMeter ''4O_MINI'' ''FIVE_HOUR'' = ''4O_MINI_FIVE_HOUR''"
  by code_simp+

lemma sample_decimals: "decimal (Str ''100'') = Some 100" "decimal (Str ''40.5'') = Some (81 / 2)"
  by (simp_all add: decimal_def decimal_value_def is_digit_def less_eq_char_def number_of_digits_def digit_value_def infinite_from_def Let_def)

lemma sample_limit_rows:
  assumes "0 \<le> r" "r \<le> 100" 
  shows "windowsFrom (sample_limits r) l sample_now e =
    [codex_raw (prefixedMeter l ''FIVE_HOUR'') 25 \<lparr>win_kind = Rolling, win_durationSeconds = Some 18000\<rparr> (Some (fst sample_resets)) sample_now e]"
    "monthlyCreditLimit (prop_of (sample_limits r) ''individualLimit'') sample_now e =
     Some (codex_raw ''MONTHLY_CREDIT_LIMIT'' (of_int (math_round ((100 - r) * TRILLION)) / TRILLION)
        \<lparr>win_kind = Fixed, win_durationSeconds = None\<rparr> (Some (snd sample_resets)) sample_now e)"
  using assms
  by (simp_all add: windowsFrom_def slot_window_def monthlyCreditLimit_def credit_number_def sample_decimals sample_epochs nullish_def
      boundedNumber_def read_minutes_def meterIdForMinutes_def minutes_window_def is_integer_def sample_limits_def Let_def)

lemma sample_limits_record: "isRecord (sample_limits r)" "prop_of (sample_limits r) ''limitId'' = Undefined"
  by (simp_all add: sample_limits_def)

text \<open>The monthly limits of two limit ids share one code, so only one of them can stay in the cache, and a
  limit id that starts with a digit has no row at all.\<close>

theorem monthly_limits_collide:
  "\<exists>raws. parseCodexPayload codex_sample sample_now = Inr (Some raws) \<and>
     map (\<lambda>raw. prop_of raw ''meter'') raws =
       map Str [''FIVE_HOUR'', ''MONTHLY_CREDIT_LIMIT'', ''4O_MINI_FIVE_HOUR'', ''MONTHLY_CREDIT_LIMIT''] \<and>
     map sn_meter (normalizeMeters raws) = [''FIVE_HOUR'', ''MONTHLY_CREDIT_LIMIT'', ''MONTHLY_CREDIT_LIMIT''] \<and>
     map sn_value (normalizeMeters raws) = [25, 40, 10]"
proof -
  define e where "e = ''2026-07-01T10:01:00.000Z''"
  let ?five = "\<lambda>m. codex_raw m 25 \<lparr>win_kind = Rolling, win_durationSeconds = Some 18000\<rparr> (Some (fst sample_resets)) sample_now e"
  let ?month = "\<lambda>v. codex_raw ''MONTHLY_CREDIT_LIMIT'' v \<lparr>win_kind = Fixed, win_durationSeconds = None\<rparr> (Some (snd sample_resets)) sample_now e"
  let ?rows = "[?five ''FIVE_HOUR'', ?month 40, ?five ''4O_MINI_FIVE_HOUR'', ?month 10]"
  have rows: "codex_rows codex_sample sample_now e = ?rows"
    by (simp add: codex_rows_def codex_sample_def entry_limit_def limit_rows_def sample_limit_rows sample_limits_record sample_codes Let_def)
      (simp add: TRILLION_def)
  have shape: "isRecord codex_sample" "isRecord (prop_of codex_sample ''rateLimits'')"
    "prop_of (prop_of codex_sample ''rateLimits'') ''credits'' = Undefined"
    by (simp_all add: codex_sample_def)
  have p: "parseCodexPayload codex_sample sample_now = Inr (Some (map rawMeter ?rows))"
    by (simp add: parseCodexPayload_def sample_clock(2) shape codex_meters_def rows credit_meters_def meters_or_null_def flip: e_def)
  have "good_row sample_now e i" if "i \<in> set ?rows" for i
    using codex_rows_good [of i codex_sample sample_now e] that by (simp only: rows)
  then have wf: "wf_raw i" if "i \<in> set ?rows" for i
    using good_row_wf [OF _ sample_clock(3)] sample_clock(2) that unfolding e_def by blast
  have safe: "safeMeter ''FIVE_HOUR''" "safeMeter ''MONTHLY_CREDIT_LIMIT''" "\<not> safeMeter ''4O_MINI_FIVE_HOUR''" by code_simp+
  have norm: "normalizeMeter (rawMeter i) = (if safeMeter (ri_meter i) then Some (raw_row i) else None)" if "i \<in> set ?rows" for i
    by (rule normalizeMeter_raw [OF wf [OF that]])
  show ?thesis
    unfolding p by (simp add: normalizeMeters_def norm) (simp add: codex_raw_def raw_row_def safe)
qed

theorem codex_meters_kept_witness:
  "\<exists>raws code v. parseCodexPayload codex_sample sample_now = Inr (Some raws) \<and> prop_of (hd raws) ''meter'' = Str code \<and>
     prop_of (hd raws) ''value'' = num_js v \<and> length code \<le> 32 \<and>
     (normalizeMeter (hd raws) = None \<longleftrightarrow> is_digit (hd code) \<or> TRILLION < v)"
proof -
  define e where "e = ''2026-07-01T10:01:00.000Z''"
  have shape: "isRecord codex_sample" "isRecord (prop_of codex_sample ''rateLimits'')" by (simp_all add: codex_sample_def)
  have "windowsFrom (sample_limits 60) ''CODEX'' sample_now e \<noteq> []" by (simp add: sample_limit_rows)
  then have "codex_rows codex_sample sample_now e \<noteq> []"
    by (simp add: codex_rows_def codex_sample_def entry_limit_def limit_rows_def sample_limits_record sample_codes Let_def)
  then obtain raws where r: "parseCodexPayload codex_sample sample_now = Inr (Some raws)" "raws \<noteq> []"
    by (simp add: parseCodexPayload_def sample_clock(2) shape codex_meters_def meters_or_null_def flip: e_def)
  show ?thesis
    using codex_meters_kept [OF r(1) sample_clock(3) shape(2), of "hd raws"] r by auto
qed

end
