(* ===== verification/Json.thy ===== *)
theory Json
  imports Connector
begin

text \<open>
  \<open>JSON.stringify\<close> and \<open>JSON.parse\<close> as functions of texts, for the parts of the source whose
  meaning depends on the text itself: the size limit of an activity event, the keys that sets and
  notifications are told apart by, and the lines of an RPC stream.

  A text is a list of code units below 256. \<open>stringify\<close> has no value on a number that is no
  integer below \<open>10\<^sup>2\<^sup>1\<close> in size: its shortest decimal is the engine's. \<open>JSON_parse\<close> has none on a
  \<open>\u\<close> escape above 255, which no such text could hold; a decimal is the rational it denotes.
\<close>

section \<open>Bytes\<close>

text \<open>\<open>TextEncoder\<close> on a code unit below 256.\<close>

definition utf8_char :: "char \<Rightarrow> nat list" where
  "utf8_char c = (let n = of_char c in if n < 128 then [n] else [192 + n div 64, 128 + n mod 64])"

definition utf8_bytes :: "string \<Rightarrow> nat list" where
  "utf8_bytes s = concat (map utf8_char s)"

lemma utf8_char_bytes: "n \<in> set (utf8_char c) \<Longrightarrow> n < 256"
proof -
  have "(of_char c :: nat) < 256" by simp
  then have "(of_char c :: nat) div 64 < 64" by linarith
  moreover have "(of_char c :: nat) mod 64 < 64" by simp
  ultimately show "n \<in> set (utf8_char c) \<Longrightarrow> ?thesis"
    by (auto simp: utf8_char_def Let_def simp del: of_char_mod_256 split: if_splits)
qed

lemma utf8_bytes_inject:
  "concat (map utf8_char s) = concat (map utf8_char t) \<Longrightarrow> s = t"
proof (induction s arbitrary: t)
  case Nil
  then show ?case by (cases t) (auto simp: utf8_char_def Let_def split: if_splits)
next
  case (Cons c s)
  then obtain d t' where t: "t = d # t'" by (cases t) (auto simp: utf8_char_def Let_def split: if_splits)
  have "of_char c = (of_char d :: nat) \<and> concat (map utf8_char s) = concat (map utf8_char t')"
  proof (cases "(of_char c :: nat) < 128"; cases "(of_char d :: nat) < 128")
    assume "\<not> (of_char c :: nat) < 128" "\<not> (of_char d :: nat) < 128"
    then have "(of_char c :: nat) div 64 = of_char d div 64" "(of_char c :: nat) mod 64 = of_char d mod 64"
      "concat (map utf8_char s) = concat (map utf8_char t')"
      using Cons.prems by (auto simp: t utf8_char_def [of c] utf8_char_def [of d] Let_def)
    then show ?thesis by (metis div_mult_mod_eq)
  qed (use Cons.prems in \<open>auto simp: t utf8_char_def [of c] utf8_char_def [of d] Let_def\<close>)
  then show ?case using Cons.IH [of t'] by (simp add: t)
qed

text \<open>A shape of a fixed text: \<open>d\<close> stands for a digit.\<close>

definition has_shape :: "string \<Rightarrow> string \<Rightarrow> bool" where
  "has_shape shape s \<longleftrightarrow> list_all2 (\<lambda>p c. if p = CHR ''d'' then is_digit c else c = p) shape s"

section \<open>Printing\<close>

definition hex_lower :: "nat \<Rightarrow> char" where
  "hex_lower n = (if n < 10 then char_of (48 + n) else char_of (87 + n))"

definition escape_char :: "char \<Rightarrow> string" where
  "escape_char c =
     (if c = CHR 0x22 then [CHR 0x5C, CHR 0x22]
      else if c = CHR 0x5C then [CHR 0x5C, CHR 0x5C]
      else if c = CHR 0x08 then [CHR 0x5C, CHR ''b'']
      else if c = CHR 0x09 then [CHR 0x5C, CHR ''t'']
      else if c = CHR 0x0A then [CHR 0x5C, CHR ''n'']
      else if c = CHR 0x0C then [CHR 0x5C, CHR ''f'']
      else if c = CHR 0x0D then [CHR 0x5C, CHR ''r'']
      else if of_char c < (32 :: nat)
      then [CHR 0x5C, CHR ''u'', CHR ''0'', CHR ''0'', hex_lower (of_char c div 16), hex_lower (of_char c mod 16)]
      else [c])"

definition quote :: "string \<Rightarrow> string" where
  "quote s = CHR 0x22 # concat (map escape_char s) @ [CHR 0x22]"

definition int_text :: "int \<Rightarrow> string" where
  "int_text n = (if n < 0 then ''-'' @ show_nat (nat (- n)) else show_nat (nat n))"

text \<open>The text of a value \<open>JSON.stringify\<close> keeps, and the values whose text the model has.\<close>

primrec json_text :: "js \<Rightarrow> string" where
  "json_text Undefined = []"
| "json_text Null = ''null''"
| "json_text (Bool b) = (if b then ''true'' else ''false'')"
| "json_text (Num n) = (case n of Fin r \<Rightarrow> int_text \<lfloor>r\<rfloor> | _ \<Rightarrow> ''null'')"
| "json_text (Str s) = quote s"
| "json_text (Arr xs) = ''['' @ join '','' (map json_text xs) @ '']''"
| "json_text (Obj ps) = ''{'' @ join '','' (map (\<lambda>(k, t). quote k @ '':'' @ t) (map (map_prod id json_text) ps)) @ ''}''"

primrec int_numbers :: "js \<Rightarrow> bool" where
  "int_numbers Undefined = True"
| "int_numbers Null = True"
| "int_numbers (Bool b) = True"
| "int_numbers (Num n) = (case n of Fin r \<Rightarrow> is_integer r \<and> \<bar>r\<bar> < 10 ^ 21 | _ \<Rightarrow> True)"
| "int_numbers (Str s) = True"
| "int_numbers (Arr xs) = list_all id (map int_numbers xs)"
| "int_numbers (Obj ps) = list_all snd (map (map_prod id int_numbers) ps)"

definition stringify :: "js \<Rightarrow> string option" where
  "stringify v = (if v \<noteq> Undefined \<and> int_numbers v then Some (json_text (json_value v)) else None)"

section \<open>Parsing\<close>

definition json_space :: "char \<Rightarrow> bool" where
  "json_space c \<longleftrightarrow> c \<in> {CHR '' '', CHR 0x09, CHR 0x0A, CHR 0x0D}"

definition skip :: "string \<Rightarrow> string" where
  "skip s = dropWhile json_space s"

text \<open>What follows a character, when it is the next one that is no white space.\<close>

definition after :: "char \<Rightarrow> string \<Rightarrow> string option" where
  "after c s = (case skip s of [] \<Rightarrow> None | d # rest \<Rightarrow> if d = c then Some rest else None)"

definition hex_code :: "string \<Rightarrow> nat option" where
  "hex_code s = (if list_all (\<lambda>c. hex_value c < 16) s then Some (foldl (\<lambda>n c. 16 * n + hex_value c) 0 s) else None)"

definition unescape :: "char \<Rightarrow> char option" where
  "unescape c =
     map_of [(CHR 0x22, CHR 0x22), (CHR 0x5C, CHR 0x5C), (CHR ''/'', CHR ''/''), (CHR ''b'', CHR 0x08),
             (CHR ''f'', CHR 0x0C), (CHR ''n'', CHR 0x0A), (CHR ''r'', CHR 0x0D), (CHR ''t'', CHR 0x09)] c"

text \<open>The characters of a string literal after its opening quote, and what follows the closing one.\<close>

function read_chars :: "string \<Rightarrow> (string \<times> string) option" where
  "read_chars [] = None"
| "read_chars (c # cs) =
     (if c = CHR 0x22 then Some ([], cs)
      else if c = CHR 0x5C then
        (case cs of
           [] \<Rightarrow> None
         | e # rest \<Rightarrow>
             if e = CHR ''u'' then
               (case hex_code (take 4 rest) of
                  Some n \<Rightarrow> if n < 256 \<and> 4 \<le> length rest then map_option (apfst (Cons (char_of n))) (read_chars (drop 4 rest)) else None
                | None \<Rightarrow> None)
             else (case unescape e of Some x \<Rightarrow> map_option (apfst (Cons x)) (read_chars rest) | None \<Rightarrow> None))
      else if of_char c < (32 :: nat) then None
      else map_option (apfst (Cons c)) (read_chars cs))"
  by pat_completeness auto
termination by (relation "measure length") auto

definition read_exponent :: "rat \<Rightarrow> string \<Rightarrow> (rat \<times> string) option" where
  "read_exponent v tail =
     (if startsWith tail ''e'' \<or> startsWith tail ''E'' then
        let n = (if startsWith (tl tail) ''-'' \<or> startsWith (tl tail) ''+'' then 1 else 0); digits = drop n (tl tail)
        in map_option (\<lambda>w. (w, dropWhile is_digit digits)) (scaled v (take n (tl tail) @ takeWhile is_digit digits))
      else Some (v, tail))"

definition json_number :: "string \<Rightarrow> (jsnum \<times> string) option" where
  "json_number s =
     (let negative = startsWith s ''-''; t = (if negative then tl s else s);
          whole = takeWhile is_digit t; rest = dropWhile is_digit t;
          point = startsWith rest ''.''; decimals = (if point then takeWhile is_digit (tl rest) else []);
          tail = (if point then dropWhile is_digit (tl rest) else rest)
      in if whole = [] \<or> hd whole = CHR ''0'' \<and> 1 < length whole \<or> point \<and> decimals = [] then None
         else map_option
                (apfst (\<lambda>v. if v < infinite_from then Fin (if negative then - v else v) else if negative then NegInf else PosInf))
                (read_exponent (decimal_value whole decimals) tail))"

definition json_literal :: "string \<Rightarrow> (js \<times> string) option" where
  "json_literal s =
     (if startsWith s ''null'' then Some (Null, drop 4 s)
      else if startsWith s ''true'' then Some (Bool True, drop 4 s)
      else if startsWith s ''false'' then Some (Bool False, drop 5 s)
      else map_option (apfst Num) (json_number s))"

text \<open>The parser descends with fuel; \<open>JSON_parse\<close> gives it twice the length of the text, which is
  more than any text can use. A property stated twice keeps its first place and its last value.\<close>

fun parse_value :: "nat \<Rightarrow> string \<Rightarrow> (js \<times> string) option"
  and parse_items :: "nat \<Rightarrow> string \<Rightarrow> (js list \<times> string) option"
  and parse_members :: "nat \<Rightarrow> (string \<times> js) list \<Rightarrow> string \<Rightarrow> ((string \<times> js) list \<times> string) option"
where
  "parse_value 0 s = None"
| "parse_value (Suc n) s =
     (case (after CHR 0x22 s, after CHR ''['' s, after CHR ''{'' s) of
        (Some cs, _, _) \<Rightarrow> map_option (apfst Str) (read_chars cs)
      | (_, Some cs, _) \<Rightarrow>
          (case after CHR '']'' cs of
             Some rest \<Rightarrow> Some (Arr [], rest)
           | None \<Rightarrow> map_option (apfst Arr) (parse_items n cs))
      | (_, _, Some cs) \<Rightarrow>
          (case after CHR ''}'' cs of
             Some rest \<Rightarrow> Some (Obj [], rest)
           | None \<Rightarrow> map_option (apfst Obj) (parse_members n [] cs))
      | _ \<Rightarrow> json_literal (skip s))"
| "parse_items 0 s = None"
| "parse_items (Suc n) s =
     (case parse_value n s of
        None \<Rightarrow> None
      | Some (v, rest) \<Rightarrow>
          (case (after CHR '','' rest, after CHR '']'' rest) of
             (Some cs, _) \<Rightarrow> map_option (apfst (Cons v)) (parse_items n cs)
           | (_, Some cs) \<Rightarrow> Some ([v], cs)
           | _ \<Rightarrow> None))"
| "parse_members 0 ps s = None"
| "parse_members (Suc n) ps s =
     (case Option.bind (after CHR 0x22 s) read_chars of
        None \<Rightarrow> None
      | Some (k, colon) \<Rightarrow>
          (case Option.bind (after CHR '':'' colon) (parse_value n) of
             None \<Rightarrow> None
           | Some (v, rest) \<Rightarrow>
               (case (after CHR '','' rest, after CHR ''}'' rest) of
                  (Some cs, _) \<Rightarrow> parse_members n (AList.update k v ps) cs
                | (_, Some cs) \<Rightarrow> Some (AList.update k v ps, cs)
                | _ \<Rightarrow> None)))"

definition JSON_parse :: "string \<Rightarrow> js option" where
  "JSON_parse s =
     (case parse_value (2 * length s + 2) s of
        Some (v, rest) \<Rightarrow> if skip rest = [] then Some v else None
      | None \<Rightarrow> None)"

section \<open>What a parser leaves is shorter\<close>

lemma after_length: "after c s = Some r \<Longrightarrow> length r < length s"
  using length_dropWhile_le [of json_space s] by (auto simp: after_def skip_def split: list.splits if_splits)

lemma read_chars_length: "read_chars s = Some (x, r) \<Longrightarrow> length r < length s"
proof (induction s arbitrary: x r rule: read_chars.induct)
  case (2 c cs)
  show ?case
  proof (cases "c = CHR 0x22 \<or> c \<noteq> CHR 0x5C")
    case True
    with 2 show ?thesis by (fastforce simp: apfst_def split: if_splits)
  next
    case False
    then obtain e rest where cs: "cs = e # rest" using 2(4) by (cases cs) (simp_all split: if_splits)
    show ?thesis
    proof (cases "e = CHR ''u''")
      case True
      then obtain y where "read_chars (drop 4 rest) = Some (y, r)" "length (drop 4 rest) \<le> length rest"
        using False 2(4) by (auto simp: cs split: option.splits if_splits)
      moreover obtain n where "hex_code (take 4 rest) = Some n" "n < 256 \<and> 4 \<le> length rest"
        using False True 2(4) by (auto simp: cs split: option.splits if_splits)
      ultimately show ?thesis using 2(1) [of e rest n y r] False True by (fastforce simp: cs)
    next
      case notu: False
      then obtain y z where "read_chars rest = Some (y, r)" "unescape e = Some z"
        using False 2(4) by (auto simp: cs split: option.splits if_splits)
      then show ?thesis using 2(2) [of e rest z y r] False notu by (fastforce simp: cs)
    qed
  qed
qed simp

lemma dropWhile_tl_length: "length (dropWhile P (drop n (tl u))) \<le> length u"
  using length_dropWhile_le [of P "drop n (tl u)"] by simp

lemma read_exponent_length: "read_exponent v s = Some (w, r) \<Longrightarrow> length r \<le> length s"
  using dropWhile_tl_length [of is_digit 1 s] dropWhile_tl_length [of is_digit 0 s]
  by (auto simp: read_exponent_def Let_def split: if_split_asm simp del: length_tl)

lemma number_end_length:
  assumes "json_number s = Some (v, r)"
  shows "length r < length s"
proof -
  let ?t = "if startsWith s ''-'' then tl s else s"
  let ?rest = "dropWhile is_digit ?t"
  have w: "takeWhile is_digit ?t \<noteq> []" using assms by (auto simp: json_number_def Let_def split: if_splits)
  have "length (takeWhile is_digit ?t) + length ?rest = length ?t"
    by (metis length_append takeWhile_dropWhile_id)
  then have "length ?rest < length ?t" using w by (cases "takeWhile is_digit ?t") simp_all
  moreover have "length ?t \<le> length s" by simp
  moreover obtain tail u x where "read_exponent u tail = Some (x, r)" "tail = dropWhile is_digit (tl ?rest) \<or> tail = ?rest"
    using assms unfolding json_number_def Let_def by (auto split: if_split_asm)
  moreover from this(2) have "length tail \<le> length ?rest" using dropWhile_tl_length [of is_digit 0 ?rest] by auto
  ultimately show ?thesis using read_exponent_length by (meson le_less_trans less_le_trans order_trans)
qed

lemma json_literal_length: "json_literal s = Some (v, r) \<Longrightarrow> length r < length s"
  using number_end_length [of s] by (cases s) (auto simp: json_literal_def startsWith_def split: if_splits)

lemma parse_length:
  "(\<forall>s v r. parse_value n s = Some (v, r) \<longrightarrow> length r < length s) \<and>
   (\<forall>s vs r. parse_items n s = Some (vs, r) \<longrightarrow> length r < length s) \<and>
   (\<forall>ps s qs r. parse_members n ps s = Some (qs, r) \<longrightarrow> length r < length s)"
proof (induction n)
  case (Suc n)
  note after = after_length order.strict_trans
  have "length r < length s" if "parse_value (Suc n) s = Some (v, r)" for s v r
    using that Suc json_literal_length [of "skip s" v r] length_dropWhile_le [of json_space s]
    by (auto simp: skip_def split: option.splits dest!: after_length read_chars_length)
      (metis order.strict_trans)+
  moreover have "length r < length s" if "parse_items (Suc n) s = Some (vs, r)" for s vs r
    using that Suc by (auto split: option.splits dest!: after_length) (metis order.strict_trans)+
  moreover have "length r < length s" if "parse_members (Suc n) ps s = Some (qs, r)" for ps s qs r
    using that Suc
    by (auto simp: bind_eq_Some_conv split: option.splits dest!: after_length read_chars_length)
      (meson order.strict_trans)+
  ultimately show ?case by blast
qed simp

section \<open>The fuel is enough\<close>

lemma parse_fuel:
  "(\<forall>s m. 2 * length s < n \<longrightarrow> n \<le> m \<longrightarrow> parse_value m s = parse_value n s) \<and>
   (\<forall>s m. 2 * length s + 1 < n \<longrightarrow> n \<le> m \<longrightarrow> parse_items m s = parse_items n s) \<and>
   (\<forall>ps s m. 2 * length s + 1 < n \<longrightarrow> n \<le> m \<longrightarrow> parse_members m ps s = parse_members n ps s)"
proof (induction n)
  case (Suc n)
  have IH: "2 * length s < n \<Longrightarrow> n \<le> m \<Longrightarrow> parse_value m s = parse_value n s"
    "2 * length s + 1 < n \<Longrightarrow> n \<le> m \<Longrightarrow> parse_items m s = parse_items n s"
    "2 * length s + 1 < n \<Longrightarrow> n \<le> m \<Longrightarrow> parse_members m ps s = parse_members n ps s" for ps s m
    using Suc by blast+
  note shorter = parse_length [of n, THEN conjunct1, rule_format]
  have vals: "parse_value (Suc k) s = parse_value (Suc n) s" if b: "2 * length s < Suc n" "n \<le> k" for s k
  proof -
    have less: "2 * length cs + 1 < n" if "after c s = Some cs" for c cs using after_length [OF that] b by linarith
    have "parse_items k cs = parse_items n cs" if "after c s = Some cs" for c cs using IH(2) [OF less [OF that] b(2)] .
    moreover have "parse_members k [] cs = parse_members n [] cs" if "after c s = Some cs" for c cs
      using IH(3) [OF less [OF that] b(2)] .
    ultimately show ?thesis
      by (cases "after CHR 0x22 s"; cases "after CHR ''['' s"; cases "after CHR ''{'' s") (simp_all split: option.split)
  qed
  have items: "parse_items (Suc k) s = parse_items (Suc n) s" if b: "2 * length s + 1 < Suc n" "n \<le> k" for s k
  proof -
    have same: "parse_value k s = parse_value n s" by (rule IH(1)) (use b in simp_all)
    show ?thesis
    proof (cases "parse_value n s")
      case None
      then show ?thesis by (simp add: same)
    next
      case (Some p)
      obtain v rest where p: "p = (v, rest)" by fastforce
      have "parse_items k cs = parse_items n cs" if "after CHR '','' rest = Some cs" for cs
        by (rule IH(2)) (use shorter [OF Some [unfolded p]] after_length [OF that] b in simp_all)
      then show ?thesis by (cases "after CHR '','' rest") (simp_all add: same Some p)
    qed
  qed
  have members: "parse_members (Suc k) ps s = parse_members (Suc n) ps s" if b: "2 * length s + 1 < Suc n" "n \<le> k" for ps s k
  proof (cases "Option.bind (after CHR 0x22 s) read_chars")
    case None
    then show ?thesis by simp
  next
    case key: (Some p)
    obtain name colon where p: "p = (name, colon)" by fastforce
    have c: "length colon < length s"
      using key p by (auto simp: bind_eq_Some_conv dest!: after_length read_chars_length)
    show ?thesis
    proof (cases "after CHR '':'' colon")
      case None
      then show ?thesis by (simp add: key p)
    next
      case cs: (Some cs)
      have "length cs < length s" using after_length [OF cs] c by simp
      then have same: "parse_value k cs = parse_value n cs" by (intro IH(1)) (use b in simp_all)
      show ?thesis
      proof (cases "parse_value n cs")
        case None
        then show ?thesis by (simp add: key p cs same)
      next
        case (Some x)
        obtain v rest where x: "x = (v, rest)" by fastforce
        have "parse_members k qs ds = parse_members n qs ds" if "after CHR '','' rest = Some ds" for qs ds
          by (rule IH(3)) (use shorter [OF Some [unfolded x]] after_length [OF that] \<open>length cs < length s\<close> b in simp_all)
        then show ?thesis by (cases "after CHR '','' rest") (simp_all add: key p cs same Some x)
      qed
    qed
  qed
  show ?case
  proof (intro conjI allI impI)
    fix s :: string and m
    assume "2 * length s < Suc n" "Suc n \<le> m"
    then show "parse_value m s = parse_value (Suc n) s" using vals by (metis Suc_le_D Suc_le_mono)
  next
    fix s :: string and m
    assume "2 * length s + 1 < Suc n" "Suc n \<le> m"
    then show "parse_items m s = parse_items (Suc n) s" using items by (metis Suc_le_D Suc_le_mono)
  next
    fix ps and s :: string and m
    assume "2 * length s + 1 < Suc n" "Suc n \<le> m"
    then show "parse_members m ps s = parse_members (Suc n) ps s" using members by (metis Suc_le_D Suc_le_mono)
  qed
qed simp

text \<open>More fuel than \<open>JSON_parse\<close> has never changes an answer: it is the parser without a limit.\<close>

lemma JSON_parse_fuel:
  "2 * length s + 2 \<le> n \<Longrightarrow>
   JSON_parse s = (case parse_value n s of Some (v, rest) \<Rightarrow> if skip rest = [] then Some v else None | None \<Rightarrow> None)"
  using parse_fuel [of "2 * length s + 2", THEN conjunct1, rule_format, of s n] by (simp add: JSON_parse_def)

section \<open>A printed value reads back\<close>

lemma hex_value_lower: "n < 16 \<Longrightarrow> hex_value (hex_lower n) = n"
proof -
  have "\<forall>n < 16. hex_value (hex_lower n) = n" by code_simp
  then show "n < 16 \<Longrightarrow> ?thesis" by blast
qed

lemma read_escaped: "read_chars (escape_char c @ s) = map_option (apfst (Cons c)) (read_chars s)"
proof (cases "of_char c < (32 :: nat)")
  case True
  let ?n = "of_char c :: nat"
  have "hex_code [CHR ''0'', CHR ''0'', hex_lower (?n div 16), hex_lower (?n mod 16)] = Some ?n"
  proof -
    have z: "hex_value CHR ''0'' = 0" by code_simp
    have "hex_value (hex_lower (?n div 16)) = ?n div 16" "hex_value (hex_lower (?n mod 16)) = ?n mod 16"
      using True by (simp_all add: hex_value_lower del: hex_value.simps)
    moreover have "16 * (?n div 16) + ?n mod 16 = ?n" "?n div 16 < 16" "?n mod 16 < 16" using True by simp_all
    ultimately show ?thesis by (simp add: hex_code_def z del: hex_value.simps)
  qed
  then show ?thesis using True by (simp add: escape_char_def unescape_def)
next
  case False
  then show ?thesis by (simp add: escape_char_def unescape_def)
qed

lemma read_quoted: "read_chars (concat (map escape_char s) @ CHR 0x22 # r) = Some (s, r)"
  by (induction s) (simp_all add: read_escaped)

definition number_ends :: "string \<Rightarrow> bool" where
  "number_ends r \<longleftrightarrow> r = [] \<or> \<not> is_digit (hd r) \<and> hd r \<notin> {CHR ''.'', CHR ''e'', CHR ''E''}"

lemma after_Cons: "after c (d # s) = (if json_space d then after c s else if d = c then Some s else None)"
  by (simp add: after_def skip_def)

lemma show_nat_first: "\<exists>c cs. show_nat n = c # cs \<and> is_digit c \<and> (c = CHR ''0'' \<longrightarrow> cs = [])"
proof (cases "n = 0")
  case True
  have "show_nat 0 = ''0''" "is_digit CHR ''0''" by code_simp+
  then show ?thesis using True by simp
next
  case False
  then obtain c cs where "show_nat n = c # cs" "c \<noteq> CHR ''0''" using show_nat_Cons by blast
  then show ?thesis using show_nat_digits [of n] by simp
qed

lemma json_number_nat:
  assumes "number_ends r" "n < 10 ^ 21"
  shows "json_number (show_nat n @ r) = Some (Fin (of_nat n), r)"
    and "json_number (CHR ''-'' # show_nat n @ r) = Some (Fin (- of_nat n), r)"
proof -
  have t: "takeWhile is_digit (show_nat n @ r) = show_nat n" "dropWhile is_digit (show_nat n @ r) = r"
    using show_nat_digits [of n] assms(1) by (cases r; simp add: number_ends_def list_all_iff)+
  have ends: "\<not> startsWith r ''.''" "read_exponent v r = Some (v, r)" for v
    using assms(1) by (cases r; simp add: number_ends_def read_exponent_def startsWith_def)+
  obtain c cs where c: "show_nat n = c # cs" "is_digit c" "c = CHR ''0'' \<longrightarrow> cs = []" using show_nat_first by blast
  then have sign: "\<not> startsWith (show_nat n @ r) ''-''" by (auto simp: startsWith_def is_digit_def)
  have "(of_nat n :: rat) < of_nat (10 ^ 21)" using assms(2) by (simp only: of_nat_less_iff)
  also have "\<dots> < infinite_from" by (simp add: infinite_from_def)
  finally have small: "decimal_value (show_nat n) [] < infinite_from" "decimal_value (show_nat n) [] = of_nat n"
    by (simp_all add: decimal_value_def number_of_digits_show_nat number_of_digits_def [of "[]"])
  have whole: "show_nat n \<noteq> []" "\<not> (hd (show_nat n) = CHR ''0'' \<and> 1 < length (show_nat n))" using c by auto
  have minus: "startsWith (CHR ''-'' # s) ''-''" for s by (simp add: startsWith_def)
  show "json_number (show_nat n @ r) = Some (Fin (of_nat n), r)"
    using small whole by (simp add: json_number_def Let_def sign t ends)
  show "json_number (CHR ''-'' # show_nat n @ r) = Some (Fin (- of_nat n), r)"
    using small whole by (simp add: json_number_def Let_def minus t ends)
qed

lemma json_number_int:
  assumes "number_ends r" "\<bar>k\<bar> < 10 ^ 21"
  shows "json_number (int_text k @ r) = Some (Fin (of_int k), r)"
proof -
  have "nat \<bar>k\<bar> < 10 ^ 21" using assms(2) by (simp add: nat_less_iff)
  note n = json_number_nat [OF assms(1) this]
  show ?thesis
  proof (cases "k < 0")
    case True
    then show ?thesis using n(2) by (simp add: int_text_def)
  next
    case False
    then show ?thesis using n(1) by (simp add: int_text_def)
  qed
qed

text \<open>No text of a value starts with white space or with the end of a list.\<close>

lemma json_text_first:
  assumes "json_clean v"
  shows "\<exists>c cs. json_text v = c # cs \<and> \<not> json_space c \<and> c \<noteq> CHR '']'' \<and>
    (c = CHR 0x22 \<longrightarrow> (\<exists>s. v = Str s)) \<and> (c = CHR ''['' \<longrightarrow> (\<exists>xs. v = Arr xs)) \<and> (c = CHR ''{'' \<longrightarrow> (\<exists>ps. v = Obj ps))"
proof (cases v)
  case (Num n)
  then obtain r where r: "v = Num (Fin r)" using assms by (cases n) auto
  obtain c cs where "show_nat (nat \<bar>\<lfloor>r\<rfloor>\<bar>) = c # cs" "is_digit c" using show_nat_first by blast
  moreover have "\<not> json_space c" "c \<noteq> CHR '']''" "c \<noteq> CHR 0x22" "c \<noteq> CHR ''[''" "c \<noteq> CHR ''{''"
    using \<open>is_digit c\<close> by (auto simp: json_space_def is_digit_def)
  ultimately show ?thesis by (auto simp: r int_text_def json_space_def)
qed (use assms in \<open>auto simp: quote_def json_space_def\<close>)

lemma update_fresh: "k \<notin> fst ` set ps \<Longrightarrow> AList.update k v ps = ps @ [(k, v)]"
  by (induction ps) auto

definition reads_back :: "js \<Rightarrow> bool" where
  "reads_back v \<longleftrightarrow> (\<forall>r. number_ends r \<longrightarrow> (\<exists>m. \<forall>n \<ge> m. parse_value n (json_text v @ r) = Some (v, r)))"

lemma reads_backE:
  assumes "reads_back v" "number_ends r"
  obtains m where "\<forall>n \<ge> m. parse_value n (json_text v @ r) = Some (v, r)"
  using assms unfolding reads_back_def by blast

lemma comma_ends [simp]: "number_ends (CHR '','' # r)" "number_ends (CHR '']'' # r)" "number_ends (CHR ''}'' # r)"
  by (simp_all add: number_ends_def is_digit_def)

lemma items_back:
  assumes "xs \<noteq> []" "\<forall>v \<in> set xs. reads_back v"
  shows "\<exists>m. \<forall>n \<ge> m. parse_items n (join '','' (map json_text xs) @ CHR '']'' # r) = Some (xs, r)"
  using assms
proof (induction xs rule: induct_list012)
  case (2 v)
  then obtain m where m: "\<forall>n \<ge> m. parse_value n (json_text v @ CHR '']'' # r) = Some (v, CHR '']'' # r)"
    using comma_ends(2) unfolding reads_back_def by (metis list.set_intros(1))
  show ?case
  proof (intro exI [of _ "Suc m"] allI impI)
    fix n assume "Suc m \<le> n"
    then obtain k where "n = Suc k" "m \<le> k" by (cases n) auto
    then show "parse_items n (join '','' (map json_text [v]) @ CHR '']'' # r) = Some ([v], r)"
      using m by (simp add: after_Cons json_space_def)
  qed
next
  case (3 v w xs)
  let ?rest = "join '','' (map json_text (w # xs)) @ CHR '']'' # r"
  obtain m where m: "\<forall>n \<ge> m. parse_value n (json_text v @ CHR '','' # ?rest) = Some (v, CHR '','' # ?rest)"
    using 3(4) comma_ends(1) unfolding reads_back_def by (metis list.set_intros(1))
  obtain m' where m': "\<forall>n \<ge> m'. parse_items n ?rest = Some (w # xs, r)" using 3(2) 3(4) by auto
  show ?case
  proof (intro exI [of _ "Suc (max m m')"] allI impI)
    fix n assume "Suc (max m m') \<le> n"
    then obtain k where "n = Suc k" "m \<le> k" "m' \<le> k" by (cases n) auto
    then show "parse_items n (join '','' (map json_text (v # w # xs)) @ CHR '']'' # r) = Some (v # w # xs, r)"
      using m m' by (simp add: after_Cons json_space_def)
  qed
qed simp

lemma members_back:
  assumes "qs \<noteq> []" "\<forall>(k, v) \<in> set qs. reads_back v" "distinct (map fst (ps @ qs))"
  shows "\<exists>m. \<forall>n \<ge> m. parse_members n ps
    (join '','' (map (\<lambda>(k, t). quote k @ '':'' @ t) (map (map_prod id json_text) qs)) @ CHR ''}'' # r) = Some (ps @ qs, r)"
  using assms
proof (induction qs arbitrary: ps rule: induct_list012)
  case (2 q)
  obtain k v where q: "q = (k, v)" by fastforce
  obtain m where m: "\<forall>n \<ge> m. parse_value n (json_text v @ CHR ''}'' # r) = Some (v, CHR ''}'' # r)"
    by (rule reads_backE [of v "CHR ''}'' # r"]) (use 2(2) q in auto)
  have "AList.update k v ps = ps @ [(k, v)]" using 2(3) q by (simp add: update_fresh)
  show ?case
  proof (intro exI [of _ "Suc m"] allI impI)
    fix n assume "Suc m \<le> n"
    then obtain j where "n = Suc j" "m \<le> j" by (cases n) auto
    then show "parse_members n ps
      (join '','' (map (\<lambda>(k, t). quote k @ '':'' @ t) (map (map_prod id json_text) [q])) @ CHR ''}'' # r) = Some (ps @ [q], r)"
      using m \<open>AList.update k v ps = _\<close> by (simp add: q quote_def after_Cons json_space_def read_quoted)
  qed
next
  case (3 q q' qs)
  obtain k v where q: "q = (k, v)" by fastforce
  let ?rest = "join '','' (map (\<lambda>(k, t). quote k @ '':'' @ t) (map (map_prod id json_text) (q' # qs))) @ CHR ''}'' # r"
  obtain m where m: "\<forall>n \<ge> m. parse_value n (json_text v @ CHR '','' # ?rest) = Some (v, CHR '','' # ?rest)"
    by (rule reads_backE [of v "CHR '','' # ?rest"]) (use 3(4) q in auto)
  have u: "AList.update k v ps = ps @ [(k, v)]" using 3(5) q by (simp add: update_fresh)
  have "distinct (map fst ((ps @ [(k, v)]) @ q' # qs))" using 3(5) q by simp
  from 3(2) [OF _ _ this] 3(4)
  obtain m' where m': "\<forall>n \<ge> m'. parse_members n (ps @ [(k, v)]) ?rest = Some ((ps @ [(k, v)]) @ q' # qs, r)"
    by (metis (no_types, lifting) list.distinct(1) list.set_intros(2))
  show ?case
  proof (intro exI [of _ "Suc (max m m')"] allI impI)
    fix n assume "Suc (max m m') \<le> n"
    then obtain j where "n = Suc j" "m \<le> j" "m' \<le> j" by (cases n) auto
    then show "parse_members n ps
      (join '','' (map (\<lambda>(k, t). quote k @ '':'' @ t) (map (map_prod id json_text) (q # q' # qs))) @ CHR ''}'' # r) = Some (ps @ q # q' # qs, r)"
      using m m' u by (simp add: q quote_def after_Cons json_space_def read_quoted)
  qed
qed simp

lemma literal_back:
  assumes "number_ends r"
  shows "json_literal (''null'' @ r) = Some (Null, r)" "json_literal (''true'' @ r) = Some (Bool True, r)"
    "json_literal (''false'' @ r) = Some (Bool False, r)"
    "\<bar>k\<bar> < 10 ^ 21 \<Longrightarrow> json_literal (int_text k @ r) = Some (Num (Fin (of_int k)), r)"
proof -
  obtain c cs where c: "show_nat (nat \<bar>k\<bar>) = c # cs" "is_digit c" using show_nat_first by blast
  then have "\<not> startsWith (int_text k @ r) s" if "s \<in> {''null'', ''true'', ''false''}" for s
    using that by (cases "k < 0") (auto simp: int_text_def startsWith_def is_digit_def)
  then show "\<bar>k\<bar> < 10 ^ 21 \<Longrightarrow> json_literal (int_text k @ r) = Some (Num (Fin (of_int k)), r)"
    by (simp add: json_literal_def json_number_int [OF assms])
qed (simp_all add: json_literal_def startsWith_def)

lemma literal_back_chars:
  assumes "number_ends r"
  shows "json_literal (CHR ''n'' # CHR ''u'' # CHR ''l'' # CHR ''l'' # r) = Some (Null, r)"
    "json_literal (CHR ''t'' # CHR ''r'' # CHR ''u'' # CHR ''e'' # r) = Some (Bool True, r)"
    "json_literal (CHR ''f'' # CHR ''a'' # CHR ''l'' # CHR ''s'' # CHR ''e'' # r) = Some (Bool False, r)"
  using literal_back [OF assms] by simp_all

lemma parse_literal:
  assumes "s \<noteq> []" "\<not> json_space (hd s)" "hd s \<notin> {CHR 0x22, CHR ''['', CHR ''{''}" "json_literal s = Some x" "0 < n"
  shows "parse_value n s = Some x"
  using assms by (cases n; cases s) (simp_all add: after_Cons skip_def)

lemma reads_back: "json_clean v \<Longrightarrow> int_numbers v \<Longrightarrow> reads_back v"
proof (induction v)
  case Null
  then show ?case
    by (auto simp: reads_back_def literal_back_chars json_space_def intro!: exI [of _ 1] parse_literal)
next
  case (Bool b)
  then show ?case
    by (auto simp: reads_back_def literal_back_chars json_space_def intro!: exI [of _ 1] parse_literal)
next
  case (Num x)
  then obtain q where q: "x = Fin q" "is_integer q" "\<bar>q\<bar> < 10 ^ 21" by (cases x) auto
  define k where "k = \<lfloor>q\<rfloor>"
  have k: "q = of_int k" using q(2) by (simp only: k_def is_integer_def)
  have "\<bar>k\<bar> < 10 ^ 21"
  proof -
    have "(of_int \<bar>k\<bar> :: rat) < of_int (10 ^ 21)" using q(3) k by simp
    then show ?thesis by (simp only: of_int_less_iff)
  qed
  obtain c cs where c: "json_text (Num x) = c # cs" "\<not> json_space c" "c \<notin> {CHR 0x22, CHR ''['', CHR ''{''}"
    using json_text_first [of "Num x"] q(1) by auto
  show ?case
    unfolding reads_back_def
  proof (intro allI impI exI [of _ 1])
    fix r and n :: nat
    assume "number_ends r" "1 \<le> n"
    then show "parse_value n (json_text (Num x) @ r) = Some (Num x, r)"
      using c literal_back(4) [OF \<open>number_ends r\<close> \<open>\<bar>k\<bar> < 10 ^ 21\<close>]
      by (intro parse_literal) (simp_all add: q(1) k)
  qed
next
  case (Str s)
  have "parse_value n (quote s @ r) = Some (Str s, r)" if "1 \<le> n" for n r
    using that by (cases n) (simp_all add: quote_def after_Cons json_space_def read_quoted)
  then show ?case by (auto simp: reads_back_def)
next
  case (Arr xs)
  show ?case
    unfolding reads_back_def
  proof (intro allI impI)
    fix r assume r: "number_ends r"
    show "\<exists>m. \<forall>n \<ge> m. parse_value n (json_text (Arr xs) @ r) = Some (Arr xs, r)"
    proof (cases xs)
      case Nil
      have "parse_value n (json_text (Arr []) @ r) = Some (Arr [], r)" if "1 \<le> n" for n
        using that by (cases n) (simp_all add: after_Cons json_space_def)
      then show ?thesis unfolding Nil by blast
    next
      case (Cons x ys)
      let ?items = "join '','' (map json_text xs) @ CHR '']'' # r"
      have "\<forall>v \<in> set xs. reads_back v" using Arr by (auto simp: list_all_iff)
      from items_back [OF _ this, of r] obtain m where m: "\<forall>n \<ge> m. parse_items n ?items = Some (xs, r)" using Cons by auto
      obtain c cs where "json_text x = c # cs" "\<not> json_space c" "c \<noteq> CHR '']''"
        using json_text_first [of x] Arr(2) Cons by auto
      then have "after CHR '']'' ?items = None" using Cons by (cases ys) (simp_all add: after_Cons)
      then have "parse_value n (json_text (Arr xs) @ r) = Some (Arr xs, r)" if "Suc m \<le> n" for n
        using that m by (cases n) (simp_all add: after_Cons json_space_def)
      then show ?thesis by blast
    qed
  qed
next
  case (Obj ps)
  show ?case
    unfolding reads_back_def
  proof (intro allI impI)
    fix r assume r: "number_ends r"
    show "\<exists>m. \<forall>n \<ge> m. parse_value n (json_text (Obj ps) @ r) = Some (Obj ps, r)"
    proof (cases ps)
      case Nil
      have "parse_value n (json_text (Obj []) @ r) = Some (Obj [], r)" if "1 \<le> n" for n
        using that by (cases n) (simp_all add: after_Cons json_space_def)
      then show ?thesis unfolding Nil by blast
    next
      case (Cons p qs)
      let ?members = "join '','' (map (\<lambda>(k, t). quote k @ '':'' @ t) (map (map_prod id json_text) ps)) @ CHR ''}'' # r"
      have "\<forall>(k, v) \<in> set ps. reads_back v" using Obj by (fastforce simp: list_all_iff)
      from members_back [OF _ this, of "[]" r] obtain m where m: "\<forall>n \<ge> m. parse_members n [] ?members = Some (ps, r)"
        using Cons Obj(2) by auto
      have "after CHR ''}'' ?members = None"
        using Cons by (cases qs; cases p) (simp_all add: quote_def after_Cons json_space_def)
      then have "parse_value n (json_text (Obj ps) @ r) = Some (Obj ps, r)" if "Suc m \<le> n" for n
        using that m by (cases n) (simp_all add: after_Cons json_space_def)
      then show ?thesis by blast
    qed
  qed
qed simp

lemma parse_back:
  assumes "json_clean v" "int_numbers v"
  shows "JSON_parse (json_text v) = Some v"
proof -
  obtain m where m: "\<forall>n \<ge> m. parse_value n (json_text v) = Some (v, [])"
    using reads_backE [OF reads_back [OF assms], of "[]"] by (auto simp: number_ends_def)
  let ?n = "max m (2 * length (json_text v) + 2)"
  show ?thesis using JSON_parse_fuel [of "json_text v" ?n] m by (simp add: skip_def)
qed

lemma json_text_inject:
  "json_clean v \<Longrightarrow> int_numbers v \<Longrightarrow> json_clean w \<Longrightarrow> int_numbers w \<Longrightarrow> json_text v = json_text w \<Longrightarrow> v = w"
  by (metis parse_back option.inject)

text \<open>The text of a value, parsed, is the value: for everything JSON can carry whose numbers are integers.\<close>

theorem parse_stringify:
  assumes "json_clean v" "int_numbers v"
  shows "stringify v = Some (json_text v) \<and> JSON_parse (json_text v) = Some v"
proof -
  have "v \<noteq> Undefined" "json_value v = v" using assms(1) json_value_clean [of v] by auto
  then show ?thesis using assms parse_back [OF assms] by (simp add: stringify_def)
qed

theorem parse_stringify_witness:
  "JSON_parse (json_text (Obj [(''a'', Arr [Num (Fin (- 12)), Str [CHR 0x0A]]), (''b'', Bool True)])) =
     Some (Obj [(''a'', Arr [Num (Fin (- 12)), Str [CHR 0x0A]]), (''b'', Bool True)])"
  using parse_stringify [of "Obj [(''a'', Arr [Num (Fin (- 12)), Str [CHR 0x0A]]), (''b'', Bool True)]"]
  by (simp add: is_integer_def)

end
