(* ===== verification/Google.thy ===== *)
theory Google
  imports Json
begin

text \<open>
  The readers of Google's tools: the Antigravity status line (connectors/antigravity.ts with the
  bucket codes of core/acquire/antigravity-meters.ts) and the Gemini CLI quota summary
  (connectors/gemini-cli.ts). A character of a string is one code unit below 256, so every pool is
  well formed and takes one or two bytes of UTF-8 a character.
\<close>

section \<open>Bucket codes\<close>

definition hex_digit :: "nat \<Rightarrow> char" where
  "hex_digit d = (if d < 10 then char_of (48 + d) else char_of (55 + d))"

definition hex_byte :: "nat \<Rightarrow> string" where
  "hex_byte n = [hex_digit (n div 16), hex_digit (n mod 16)]"

definition encoded_pool :: "string \<Rightarrow> string" where
  "encoded_pool pool = concat (map hex_byte (concat (map utf8_char pool)))"

definition reservedMeters :: "string list" where
  "reservedMeters = [''FIVE_HOUR'', ''SEVEN_DAY'', ''THIRD_PARTY_SESSION'', ''THIRD_PARTY_WEEKLY'']"

text \<open>The parts of a bucket id around its last hyphen, when something is before it.\<close>

definition bucket_parts :: "string \<Rightarrow> (string \<times> string) option" where
  "bucket_parts bucketId =
     (let period = takeWhile (\<lambda>c. c \<noteq> CHR ''-'') (rev bucketId); rest = dropWhile (\<lambda>c. c \<noteq> CHR ''-'') (rev bucketId)
      in if length rest \<le> 1 then None else Some (rev (tl rest), toLowerCase (rev period)))"

definition readable_pool :: "string \<Rightarrow> bool" where
  "readable_pool pool \<longleftrightarrow>
     pool \<noteq> [] \<and> is_lower (hd pool) \<and> list_all (\<lambda>c. is_lower c \<or> is_digit c \<or> c = CHR ''-'') pool"

definition named_pool :: "string \<Rightarrow> string" where
  "named_pool pool = toUpperCase (map (\<lambda>c. if c = CHR ''-'' then CHR ''_'' else c) pool)"

definition cadence :: "bool \<Rightarrow> string" where
  "cadence fiveHour = (if fiveHour then ''SESSION'' else ''WEEKLY'')"

definition pool_code :: "string \<Rightarrow> bool \<Rightarrow> string" where
  "pool_code pool fiveHour =
     (if pool = ''gemini'' then (if fiveHour then ''FIVE_HOUR'' else ''SEVEN_DAY'')
      else if pool = ''3p'' then ''THIRD_PARTY_'' @ cadence fiveHour
      else
        let meter = named_pool pool @ ''_'' @ cadence fiveHour
        in if \<not> readable_pool pool \<or> startsWith (named_pool pool) ''X_'' \<or> meter \<in> set reservedMeters
           then ''X_'' @ encoded_pool pool @ ''_'' @ cadence fiveHour else meter)"

definition antigravityMeter :: "string \<Rightarrow> (string \<times> int) option" where
  "antigravityMeter bucketId =
     (case bucket_parts bucketId of
        None \<Rightarrow> None
      | Some (pool, period) \<Rightarrow>
          if period \<noteq> ''5h'' \<and> period \<noteq> ''weekly'' then None
          else
            let fiveHour = (period = ''5h''); meter = pool_code pool fiveHour
            in if safeMeter meter then Some (meter, if fiveHour then 18000 else 604800) else None)"

section \<open>The Antigravity status line\<close>

definition antigravityLabels :: connector_labels where
  "antigravityLabels =
     \<lparr>lab_credentialOrigin = OfficialLocalTool, lab_dataInterfaceStatus = NativeStatuslinePayload,
      lab_automationRisk = LowRisk, lab_verification = UNVERIFIED, lab_verificationEvidence = None\<rparr>"

text \<open>The first of two properties that has the type.\<close>

definition remainingFraction :: "js \<Rightarrow> rat option" where
  "remainingFraction bucket =
     (case prop_of bucket ''remaining_fraction'' of
        Num n \<Rightarrow> boundedFraction (Num n)
      | _ \<Rightarrow> boundedFraction (prop_of bucket ''remainingFraction''))"

definition bucket_reset :: "js \<Rightarrow> string option" where
  "bucket_reset bucket =
     (case (case prop_of bucket ''reset_time'' of
              Str s \<Rightarrow> Some s
            | _ \<Rightarrow> (case prop_of bucket ''resetTime'' of Str s \<Rightarrow> Some s | _ \<Rightarrow> None)) of
        None \<Rightarrow> None
      | Some s \<Rightarrow> (case dateParse s of None \<Rightarrow> None | Some t \<Rightarrow> date_text (of_int t)))"

definition used_percent :: "rat \<Rightarrow> rat" where
  "used_percent remaining = of_int (math_round ((1 - remaining) * 1000)) / 10"

definition bucket_meter :: "js \<Rightarrow> string \<Rightarrow> string \<Rightarrow> string \<Rightarrow> raw_input option" where
  "bucket_meter quota observedAt expiresAt bucketId =
     (let bucket = prop_of quota bucketId in
      if \<not> isRecord bucket then None
      else
        (case (remainingFraction bucket, antigravityMeter bucketId) of
           (Some remaining, Some (meter, seconds)) \<Rightarrow>
             Some \<lparr>ri_provider = ANTIGRAVITY, ri_meter = meter, ri_value = used_percent remaining,
                   ri_window = \<lparr>win_kind = Rolling, win_durationSeconds = Some seconds\<rparr>, ri_resetAt = bucket_reset bucket,
                   ri_source = NativePayload, ri_precision = Estimated, ri_observedAt = observedAt,
                   ri_expiresAt = expiresAt, ri_labels = antigravityLabels, ri_amounts = None\<rparr>
         | _ \<Rightarrow> None))"

definition parseAntigravityPayload :: "js \<Rightarrow> string \<Rightarrow> js list option result" where
  "parseAntigravityPayload payload observedAt =
     rbind (shortExpiry observedAt) (\<lambda>expiry.
       let quota = prop_of payload ''quota''
       in case expiry of
            None \<Rightarrow> Inr None
          | Some expiresAt \<Rightarrow>
              if \<not> isRecord quota then Inr None
              else Inr (meters_or_null (map rawMeter (List.map_filter (bucket_meter quota observedAt expiresAt) (keys_of quota)))))"

definition ANTIGRAVITY_TOOL :: "string option" where
  "ANTIGRAVITY_TOOL = Some ''Antigravity''"

definition antigravity_read :: "js \<Rightarrow> string \<Rightarrow> connector_result result" where
  "antigravity_read = connector_read parseAntigravityPayload ANTIGRAVITY_TOOL"

section \<open>The Gemini CLI quota summary\<close>

definition geminiCliLabels :: connector_labels where
  "geminiCliLabels =
     \<lparr>lab_credentialOrigin = OfficialLocalTool, lab_dataInterfaceStatus = InternalEndpoint,
      lab_automationRisk = HighRisk, lab_verification = UNVERIFIED, lab_verificationEvidence = None\<rparr>"

definition MAX_MODEL_ID_BYTES :: nat where
  "MAX_MODEL_ID_BYTES = 128"

definition MAX_RESET_HORIZON_SECONDS :: rat where
  "MAX_RESET_HORIZON_SECONDS = 2678400 + 3600"

definition model_char :: "char \<Rightarrow> bool" where
  "model_char c \<longleftrightarrow> is_upper c \<or> is_lower c \<or> is_digit c \<or> c = CHR ''.'' \<or> c = CHR ''_'' \<or> c = CHR ''-''"

definition meterFromModel :: "js \<Rightarrow> string option" where
  "meterFromModel v =
     (case v of
        Str s \<Rightarrow>
          if s = [] \<or> MAX_MODEL_ID_BYTES < length s \<or> \<not> list_all model_char s then None
          else let meter = strip_underscores (collapse (\<lambda>c. is_upper c \<or> is_digit c) (toUpperCase s))
               in if safeMeter meter then Some meter else None
      | _ \<Rightarrow> None)"

definition validTokenType :: "js \<Rightarrow> bool" where
  "validTokenType v =
     (case v of
        Str s \<Rightarrow> s \<noteq> [] \<and> length s \<le> 32 \<and> list_all (\<lambda>c. is_upper c \<or> c = CHR ''_'') s
      | _ \<Rightarrow> False)"

text \<open>One bucket: a code not seen before, a valid token type if any, a fraction and a reset.\<close>

definition gemini_bucket :: "string \<Rightarrow> string \<Rightarrow> string list \<Rightarrow> js \<Rightarrow> raw_input option" where
  "gemini_bucket now expiresAt seen bucket =
     (case meterFromModel (prop_of bucket ''modelId'') of
        None \<Rightarrow> None
      | Some meter \<Rightarrow>
          if \<not> isRecord bucket \<or> meter \<in> set seen then None
          else if prop_of bucket ''tokenType'' \<noteq> Undefined \<and> \<not> validTokenType (prop_of bucket ''tokenType'') then None
          else
            (case (boundedFraction (prop_of bucket ''remainingFraction''),
                   futureInstantFromRfc3339 (prop_of bucket ''resetTime'') now (Some MAX_RESET_HORIZON_SECONDS)) of
               (Some remaining, Some resetAt) \<Rightarrow>
                 Some \<lparr>ri_provider = GEMINI_CLI, ri_meter = meter, ri_value = used_percent remaining,
                       ri_window = \<lparr>win_kind = Fixed, win_durationSeconds = None\<rparr>, ri_resetAt = Some resetAt,
                       ri_source = InternalPayload, ri_precision = Estimated, ri_observedAt = now,
                       ri_expiresAt = expiresAt, ri_labels = geminiCliLabels, ri_amounts = None\<rparr>
             | _ \<Rightarrow> None))"

text \<open>One bad bucket refuses the whole answer.\<close>

fun gemini_buckets :: "string \<Rightarrow> string \<Rightarrow> string list \<Rightarrow> js list \<Rightarrow> raw_input list option" where
  "gemini_buckets now expiresAt seen [] = Some []"
| "gemini_buckets now expiresAt seen (bucket # buckets) =
     (case gemini_bucket now expiresAt seen bucket of
        None \<Rightarrow> None
      | Some i \<Rightarrow> map_option (Cons i) (gemini_buckets now expiresAt (ri_meter i # seen) buckets))"

definition parseGeminiCliPayload :: "js \<Rightarrow> string \<Rightarrow> js list option result" where
  "parseGeminiCliPayload payload now =
     rbind (shortExpiry now) (\<lambda>expiry.
       case (prop_of payload ''buckets'', expiry) of
         (Arr buckets, Some expiresAt) \<Rightarrow>
           if buckets = [] then Inr None
           else Inr (map_option (map rawMeter) (gemini_buckets now expiresAt [] buckets))
       | _ \<Rightarrow> Inr None)"

definition GEMINI_CLI_TOOL :: "string option" where
  "GEMINI_CLI_TOOL = Some ''Gemini CLI''"

definition gemini_read :: "js \<Rightarrow> string \<Rightarrow> connector_result result" where
  "gemini_read = connector_read parseGeminiCliPayload GEMINI_CLI_TOOL"

section \<open>Both readers are kept whole\<close>

lemma used_percent_range: "0 \<le> r \<Longrightarrow> r \<le> 1 \<Longrightarrow> 0 \<le> used_percent r \<and> used_percent r \<le> 100"
proof -
  assume "0 \<le> r" "r \<le> 1"
  then have "0 \<le> (1 - r) * 1000" "(1 - r) * 1000 \<le> 1000" by simp_all
  then have "0 \<le> math_round ((1 - r) * 1000)" "math_round ((1 - r) * 1000) \<le> 1000"
    unfolding math_round_def by linarith+
  then show ?thesis by (simp add: used_percent_def)
qed

lemma boundedFraction_range: "boundedFraction v = Some r \<Longrightarrow> 0 \<le> r \<and> r \<le> 1"
  by (auto simp: boundedFraction_def split: js.splits jsnum.splits if_splits)

lemma remainingFraction_range: "remainingFraction b = Some r \<Longrightarrow> 0 \<le> r \<and> r \<le> 1"
  by (auto simp: remainingFraction_def dest: boundedFraction_range split: js.splits)

lemma bucket_reset_iso: "bucket_reset b = Some r \<Longrightarrow> iso_instant r"
  by (auto simp: bucket_reset_def date_text_eq_Some iso_instant_iso_text split: option.splits)

lemma antigravityMeter_Some: "antigravityMeter b = Some (m, s) \<Longrightarrow> safeMeter m \<and> (s = 18000 \<or> s = 604800)"
  by (auto simp: antigravityMeter_def Let_def split: option.splits if_splits)

lemma google_labels_wf: "wf_labels antigravityLabels" "wf_labels geminiCliLabels"
  by (simp_all add: antigravityLabels_def geminiCliLabels_def wf_labels_def)

lemma antigravity_plain:
  assumes "parseAntigravityPayload payload now = Inr (Some raws)"
  shows "plain_rows ANTIGRAVITY now raws"
proof -
  obtain e where e: "shortExpiry now = Inr (Some e)"
    and raws: "raws = map rawMeter (List.map_filter (bucket_meter (prop_of payload ''quota'') now e) (keys_of (prop_of payload ''quota'')))"
      "raws \<noteq> []"
    using assms by (auto simp: parseAntigravityPayload_def rbind_Inr_iff Let_def meters_or_null_Some split: option.splits if_splits)
  have "plain_input ANTIGRAVITY now i"
    if row: "bucket_meter quota now e key = Some i" for quota key i
  proof -
    obtain r meter seconds where r: "remainingFraction (prop_of quota key) = Some r" "antigravityMeter key = Some (meter, seconds)"
      and i: "i = \<lparr>ri_provider = ANTIGRAVITY, ri_meter = meter, ri_value = used_percent r,
          ri_window = \<lparr>win_kind = Rolling, win_durationSeconds = Some seconds\<rparr>, ri_resetAt = bucket_reset (prop_of quota key),
          ri_source = NativePayload, ri_precision = Estimated, ri_observedAt = now,
          ri_expiresAt = e, ri_labels = antigravityLabels, ri_amounts = None\<rparr>"
      using row by (auto simp: bucket_meter_def Let_def split: if_splits option.splits)
    have "case bucket_reset (prop_of quota key) of None \<Rightarrow> True | Some r \<Rightarrow> iso_instant r"
      using bucket_reset_iso by (simp split: option.split)
    then show ?thesis
      using used_percent_range remainingFraction_range [OF r(1)] antigravityMeter_Some [OF r(2)] short_expiry_order [OF e] google_labels_wf(1)
      by (auto simp: i plain_input_def wf_raw_def wf_fields_def wf_window_def)
  qed
  then show ?thesis using raws by (auto simp: plain_rows_def set_map_filter)
qed

interpretation antigravity_reader: kept_reader parseAntigravityPayload ANTIGRAVITY
  using antigravity_plain by (rule plain_kept_reader)

lemma gemini_bucket_Some:
  assumes "gemini_bucket now e seen b = Some i"
  obtains meter r resetAt where "meterFromModel (prop_of b ''modelId'') = Some meter" "meter \<notin> set seen"
    "boundedFraction (prop_of b ''remainingFraction'') = Some r" "ahead_of now (Some MAX_RESET_HORIZON_SECONDS) resetAt"
    "i = \<lparr>ri_provider = GEMINI_CLI, ri_meter = meter, ri_value = used_percent r,
       ri_window = \<lparr>win_kind = Fixed, win_durationSeconds = None\<rparr>, ri_resetAt = Some resetAt,
       ri_source = InternalPayload, ri_precision = Estimated, ri_observedAt = now,
       ri_expiresAt = e, ri_labels = geminiCliLabels, ri_amounts = None\<rparr>"
  using assms by (auto simp: gemini_bucket_def dest: rfc3339_ahead split: option.splits if_splits)

lemma meterFromModel_safe: "meterFromModel v = Some m \<Longrightarrow> safeMeter m"
  by (auto simp: meterFromModel_def Let_def split: js.splits if_splits)

lemma gemini_bucket_good:
  assumes "gemini_bucket now e seen b = Some i" "shortExpiry now = Inr (Some e)"
  shows "plain_input GEMINI_CLI now i \<and> ri_meter i \<notin> set seen"
proof -
  obtain meter r resetAt where i: "meterFromModel (prop_of b ''modelId'') = Some meter" "meter \<notin> set seen"
    "boundedFraction (prop_of b ''remainingFraction'') = Some r" "ahead_of now (Some MAX_RESET_HORIZON_SECONDS) resetAt"
    "i = \<lparr>ri_provider = GEMINI_CLI, ri_meter = meter, ri_value = used_percent r,
       ri_window = \<lparr>win_kind = Fixed, win_durationSeconds = None\<rparr>, ri_resetAt = Some resetAt,
       ri_source = InternalPayload, ri_precision = Estimated, ri_observedAt = now,
       ri_expiresAt = e, ri_labels = geminiCliLabels, ri_amounts = None\<rparr>"
    by (rule gemini_bucket_Some [OF assms(1)])
  have "0 \<le> used_percent r" "used_percent r \<le> 100"
    using boundedFraction_range [OF i(3)] used_percent_range by auto
  moreover have "iso_instant resetAt" using i(4) by (simp add: ahead_of_def)
  ultimately show ?thesis
    using short_expiry_order [OF assms(2)] google_labels_wf(2) meterFromModel_safe [OF i(1)] i(2)
    by (simp add: i(5) plain_input_def wf_raw_def wf_fields_def wf_window_def)
qed

lemma gemini_buckets_good:
  "gemini_buckets now e seen bs = Some is \<Longrightarrow> shortExpiry now = Inr (Some e) \<Longrightarrow>
   length is = length bs \<and> distinct (map ri_meter is) \<and> set seen \<inter> ri_meter ` set is = {} \<and>
   (\<forall>i \<in> set is. plain_input GEMINI_CLI now i)"
proof (induction now e seen bs arbitrary: "is" rule: gemini_buckets.induct)
  case (2 now e seen b bs)
  then obtain i js where i: "gemini_bucket now e seen b = Some i" "gemini_buckets now e (ri_meter i # seen) bs = Some js" "is = i # js"
    by (auto split: option.splits)
  from gemini_bucket_good [OF i(1) 2(3)] 2(1) [OF i(1,2) 2(3)] show ?case by (auto simp: i(3))
qed simp

lemma gemini_plain:
  assumes "parseGeminiCliPayload payload now = Inr (Some raws)"
  shows "plain_rows GEMINI_CLI now raws"
proof -
  obtain e bs "is" where "shortExpiry now = Inr (Some e)" "gemini_buckets now e [] bs = Some is" "bs \<noteq> []" "raws = map rawMeter is"
    using assms unfolding parseGeminiCliPayload_def rbind_Inr_iff
    by (cases "prop_of payload ''buckets''") (auto split: option.splits if_splits)
  with gemini_buckets_good [of now e "[]" bs "is"] show ?thesis by (auto simp: plain_rows_def)
qed

interpretation gemini_reader: kept_reader parseGeminiCliPayload GEMINI_CLI
  using gemini_plain by (rule plain_kept_reader)

section \<open>Two buckets never share a code\<close>

lemma hex_byte_inject: "a < 256 \<Longrightarrow> b < 256 \<Longrightarrow> hex_byte a = hex_byte b \<Longrightarrow> a = b"
proof -
  assume ab: "a < 256" "b < 256" "hex_byte a = hex_byte b"
  have inj: "m = n" if "m < 16" "n < 16" "hex_digit m = hex_digit n" for m n :: nat
    using that by (auto simp: hex_digit_def char_of_eq_iff take_bit_eq_mod split: if_splits)
  have "a div 16 = b div 16" "a mod 16 = b mod 16"
    using ab by (auto simp: hex_byte_def intro!: inj)
  then show "a = b" by (metis div_mult_mod_eq)
qed

lemma hex_inject:
  "list_all (\<lambda>n. n < 256) xs \<Longrightarrow> list_all (\<lambda>n. n < 256) ys \<Longrightarrow> concat (map hex_byte xs) = concat (map hex_byte ys) \<Longrightarrow> xs = ys"
proof (induction xs arbitrary: ys)
  case Nil
  then show ?case by (cases ys) (auto simp: hex_byte_def)
next
  case (Cons x xs)
  then obtain y ys' where ys: "ys = y # ys'" by (cases ys) (auto simp: hex_byte_def)
  have "hex_byte x = hex_byte y" "concat (map hex_byte xs) = concat (map hex_byte ys')"
    using Cons.prems(3) by (simp_all add: ys hex_byte_def [of x] hex_byte_def [of y])
  then show ?case using Cons hex_byte_inject by (simp add: ys)
qed

lemma encoded_inject: "encoded_pool p = encoded_pool q \<longleftrightarrow> p = q"
proof -
  have "list_all (\<lambda>n. n < 256) (concat (map utf8_char p))" for p by (auto simp: list_all_iff dest: utf8_char_bytes)
  then show ?thesis using hex_inject utf8_bytes_inject unfolding encoded_pool_def by metis
qed

lemma encoded_nonempty: "p \<noteq> [] \<Longrightarrow> encoded_pool p \<noteq> []"
  by (cases p) (auto simp: encoded_pool_def hex_byte_def utf8_char_def Let_def)

lemma named_inject:
  assumes "readable_pool p" "readable_pool q" "named_pool p = named_pool q"
  shows "p = q"
proof -
  define f where "f = (\<lambda>c. upper_char (if c = CHR ''-'' then CHR ''_'' else c))"
  have "upper_char CHR ''_'' = CHR ''_''" by code_simp
  then have f: "f c = (if c = CHR ''-'' then CHR ''_'' else upper_char c)" for c by (simp add: f_def)
  have range: "(97 \<le> (of_char c :: nat) \<and> (of_char c :: nat) \<le> 122) = is_lower c" "(48 \<le> (of_char c :: nat) \<and> (of_char c :: nat) \<le> 57) = is_digit c" for c
    by (auto simp: is_lower_def is_digit_def less_eq_char_def)
  have "inj_on f {c. is_lower c \<or> is_digit c \<or> c = CHR ''-''}"
  proof (rule inj_onI)
    fix c d
    assume c: "c \<in> {c. is_lower c \<or> is_digit c \<or> c = CHR ''-''}" and d: "d \<in> {c. is_lower c \<or> is_digit c \<or> c = CHR ''-''}" and "f c = f d"
    define v where "v c = (if c = CHR ''-'' then 95 else if is_lower c then of_char c - 32 else of_char c :: nat)" for c
    have v: "of_char (f c) = v c" for c
    proof -
      have "(of_char c - 32 :: nat) < 256" by (rule less_imp_diff_less) simp
      then show ?thesis by (simp add: f v_def upper_char_def)
    qed
    have "v c = v d" using \<open>f c = f d\<close> v by metis
    then have "of_char c = (of_char d :: nat)"
      using c d range [of c] range [of d] unfolding v_def by (auto simp del: of_char_eq_iff split: if_splits)
    then show "c = d" by simp
  qed
  moreover have "map f p = map f q" using assms(3) by (simp add: named_pool_def toUpperCase_def f_def comp_def)
  moreover have "set p \<union> set q \<subseteq> {c. is_lower c \<or> is_digit c \<or> c = CHR ''-''}"
    using assms(1,2) by (auto simp: readable_pool_def list_all_iff)
  ultimately show ?thesis using inj_on_subset map_inj_on by blast
qed


text \<open>The ends of the codes: the cadence of a bucket can be read off its code.\<close>

lemma code_end:
  "hd (rev (pool_code p five)) = (if five then if p = ''gemini'' then CHR ''R'' else CHR ''N'' else CHR ''Y'')"
  by (auto simp: pool_code_def cadence_def Let_def)

lemma gemini_code: "pool_code p five = pool_code ''gemini'' five \<Longrightarrow> p = ''gemini''"
proof (rule ccontr)
  assume eq: "pool_code p five = pool_code ''gemini'' five" and p: "p \<noteq> ''gemini''"
  have "rev (pool_code p five) ! 1 = (if five then CHR ''O'' else CHR ''L'')"
    using p by (auto simp: pool_code_def cadence_def Let_def)
  moreover have "rev (pool_code ''gemini'' five) ! 1 = (if five then CHR ''U'' else CHR ''A'')"
    by (simp add: pool_code_def)
  ultimately show False using eq by (auto split: if_splits)
qed

definition code_stem :: "string \<Rightarrow> bool \<Rightarrow> string" where
  "code_stem p five =
     (if p = ''3p'' then ''THIRD_PARTY''
      else if \<not> readable_pool p \<or> startsWith (named_pool p) ''X_'' \<or> named_pool p @ ''_'' @ cadence five \<in> set reservedMeters
      then ''X_'' @ encoded_pool p else named_pool p)"

lemma pool_code_stem: "p \<noteq> ''gemini'' \<Longrightarrow> pool_code p five = code_stem p five @ ''_'' @ cadence five"
  by (simp add: pool_code_def code_stem_def Let_def)

lemma third_party_reserved:
  "named_pool p = ''THIRD_PARTY'' \<Longrightarrow> named_pool p @ ''_'' @ cadence five \<in> set reservedMeters"
  by (simp add: reservedMeters_def cadence_def)

lemma stem_inject:
  assumes "code_stem p five = code_stem q five" "p \<noteq> []" "q \<noteq> []"
  shows "p = q"
proof -
  let ?enc = "\<lambda>p. \<not> readable_pool p \<or> startsWith (named_pool p) ''X_'' \<or> named_pool p @ ''_'' @ cadence five \<in> set reservedMeters"
  consider (third) "p = ''3p'' \<or> q = ''3p''" | (both) "p \<noteq> ''3p''" "q \<noteq> ''3p''" by blast
  then show ?thesis
  proof cases
    case third
    have "code_stem r five \<noteq> ''THIRD_PARTY''" if "r \<noteq> ''3p''" for r
      using that third_party_reserved [of r five] by (auto simp: code_stem_def)
    moreover have "code_stem ''3p'' five = ''THIRD_PARTY''" by (simp add: code_stem_def)
    ultimately show ?thesis using third assms(1) by metis
  next
    case both
    have x: "startsWith (''X_'' @ s) ''X_''" for s by (simp add: startsWith_def)
    show ?thesis
    proof (cases "?enc p"; cases "?enc q")
      assume "?enc p" "?enc q"
      then have "''X_'' @ encoded_pool p = ''X_'' @ encoded_pool q" using assms(1) both by (simp only: code_stem_def if_True if_False simp_thms)
      then show ?thesis by (simp add: encoded_inject)
    next
      assume "?enc p" "\<not> ?enc q"
      then have "''X_'' @ encoded_pool p = named_pool q" using assms(1) both by (simp only: code_stem_def if_True if_False simp_thms)
      then show ?thesis using \<open>\<not> ?enc q\<close> x by metis
    next
      assume "\<not> ?enc p" "?enc q"
      then have "named_pool p = ''X_'' @ encoded_pool q" using assms(1) both by (simp only: code_stem_def if_True if_False simp_thms)
      then show ?thesis using \<open>\<not> ?enc p\<close> x by metis
    next
      assume "\<not> ?enc p" "\<not> ?enc q"
      moreover from this have "named_pool p = named_pool q" using assms(1) both by (simp only: code_stem_def if_True if_False simp_thms)
      ultimately show ?thesis using named_inject by blast
    qed
  qed
qed

lemma bucket_parts_nonempty: "bucket_parts b = Some (p, period) \<Longrightarrow> p \<noteq> []"
  by (cases "dropWhile (\<lambda>c. c \<noteq> CHR ''-'') (rev b)") (auto simp: bucket_parts_def Let_def split: if_splits)

text \<open>The code of a bucket determines its pool and its cadence: two buckets of one status line never meet in a
  row, however their pools are named.\<close>

theorem antigravity_codes_injective:
  assumes "antigravityMeter a = Some (meter, s)" "antigravityMeter b = Some (meter, t)"
  shows "bucket_parts a = bucket_parts b \<and> s = t"
proof -
  obtain p five where p: "bucket_parts a = Some (p, if five then ''5h'' else ''weekly'')" "meter = pool_code p five"
      "s = (if five then 18000 else 604800)" 
    using assms(1) by (fastforce simp: antigravityMeter_def Let_def split: option.splits if_splits prod.splits)
  obtain q six where q: "bucket_parts b = Some (q, if six then ''5h'' else ''weekly'')" "meter = pool_code q six"
      "t = (if six then 18000 else 604800)"
    using assms(2) by (fastforce simp: antigravityMeter_def Let_def split: option.splits if_splits prod.splits)
  have ne: "p \<noteq> []" "q \<noteq> []" using p(1) q(1) bucket_parts_nonempty by blast+
  have "hd (rev (pool_code p five)) = hd (rev (pool_code q six))" using p(2) q(2) by simp
  then have same: "five = six" by (auto simp: code_end split: if_splits)
  have "p = q"
  proof (cases "p = ''gemini'' \<or> q = ''gemini''")
    case True
    moreover have "pool_code p five = pool_code q five" using p(2) q(2) same by simp
    ultimately show ?thesis using gemini_code [of p five] gemini_code [of q five] by auto
  next
    case False
    then have "code_stem p five = code_stem q five" using p(2) q(2) same by (simp add: pool_code_stem)
    then show ?thesis using stem_inject ne by blast
  qed
  with p q same show ?thesis by simp
qed

theorem antigravity_codes_injective_witness:
  "bucket_parts ''my-pool-5h'' = bucket_parts ''my-pool-5H'' \<and> (18000::int) = 18000"
  by (rule antigravity_codes_injective [of _ "''MY_POOL_SESSION''"]) code_simp+

end
