(* ===== verification/Subscriptions.thy ===== *)
theory Subscriptions
  imports Json
begin

text \<open>
  The readers of the other subscriptions: the manual document (connectors/manual.ts), OpenCode
  (opencode.ts), Grok (grok.ts), Kimi (kimi.ts) and Cursor (cursor.ts). All but the manual one
  refuse a whole answer for one bad part.
\<close>

definition unofficial_labels :: connector_labels where
  "unofficial_labels =
     \<lparr>lab_credentialOrigin = OfficialLocalTool, lab_dataInterfaceStatus = InternalEndpoint,
      lab_automationRisk = HighRisk, lab_verification = UNVERIFIED, lab_verificationEvidence = None\<rparr>"

text \<open>A meter of an internal answer: its source and precision are the same for three of the readers.\<close>

definition internal_raw ::
  "provider_code \<Rightarrow> string \<Rightarrow> rat \<Rightarrow> snapshot_window \<Rightarrow> string option \<Rightarrow> string \<Rightarrow> string \<Rightarrow> connector_labels \<Rightarrow> raw_input" where
  "internal_raw provider meter val window resetAt now expiresAt labels =
     \<lparr>ri_provider = provider, ri_meter = meter, ri_value = val, ri_window = window, ri_resetAt = resetAt,
      ri_source = InternalPayload, ri_precision = Estimated, ri_observedAt = now, ri_expiresAt = expiresAt,
      ri_labels = labels, ri_amounts = None\<rparr>"

section \<open>The manual document\<close>

definition manualLabels :: connector_labels where
  "manualLabels =
     \<lparr>lab_credentialOrigin = UserEntered, lab_dataInterfaceStatus = ManualInterface,
      lab_automationRisk = LowRisk, lab_verification = UNVERIFIED, lab_verificationEvidence = None\<rparr>"

definition MAX_ENTRIES :: nat where
  "MAX_ENTRIES = 10"

definition manual_entry :: "string \<Rightarrow> string \<Rightarrow> js \<Rightarrow> raw_input option" where
  "manual_entry now expiresAt entry =
     (case (prop_of entry ''name'', boundedNumber (prop_of entry ''used_percent'') 100, futureInstant (prop_of entry ''reset_at'') now) of
        (Str name, Some percent, Some resetAt) \<Rightarrow>
          if \<not> safeMeter name then None
          else Some \<lparr>ri_provider = MANUAL, ri_meter = name, ri_value = percent,
                     ri_window = \<lparr>win_kind = Fixed, win_durationSeconds = None\<rparr>, ri_resetAt = Some resetAt,
                     ri_source = ManualEntry, ri_precision = ManualPrecision, ri_observedAt = now,
                     ri_expiresAt = expiresAt, ri_labels = manualLabels, ri_amounts = None\<rparr>
      | _ \<Rightarrow> None)"

definition parseManualPayload :: "js \<Rightarrow> string \<Rightarrow> js list option result" where
  "parseManualPayload payload now =
     rbind (shortExpiry now) (\<lambda>expiry.
       case (prop_of payload ''meters'', expiry) of
         (Arr entries, Some expiresAt) \<Rightarrow>
           Inr (meters_or_null (map rawMeter (List.map_filter (manual_entry now expiresAt) (take MAX_ENTRIES entries))))
       | _ \<Rightarrow> Inr None)"

definition manual_read :: "js \<Rightarrow> string \<Rightarrow> connector_result result" where
  "manual_read = connector_read parseManualPayload None"

section \<open>OpenCode\<close>

record opencode_window =
  ow_field :: string
  ow_meter :: string
  ow_seconds :: int
  ow_required :: bool

definition WINDOWS :: "opencode_window list" where
  "WINDOWS =
     [\<lparr>ow_field = ''rolling'', ow_meter = ''FIVE_HOUR'', ow_seconds = 18000, ow_required = True\<rparr>,
      \<lparr>ow_field = ''weekly'', ow_meter = ''SEVEN_DAY'', ow_seconds = 604800, ow_required = True\<rparr>,
      \<lparr>ow_field = ''monthly'', ow_meter = ''MONTHLY'', ow_seconds = 2592000, ow_required = False\<rparr>]"

definition has_key :: "js \<Rightarrow> string \<Rightarrow> bool" where
  "has_key v k \<longleftrightarrow> k \<in> set (keys_of v)"

text \<open>A window of the reply: absent and skipped, refused, or read.\<close>

definition opencode_read_window :: "js \<Rightarrow> string \<Rightarrow> string \<Rightarrow> opencode_window \<Rightarrow> raw_input list option" where
  "opencode_read_window usage now expiresAt w =
     (if \<not> has_key usage (ow_field w) then (if ow_required w then None else Some [])
      else
        let window = prop_of usage (ow_field w); status = prop_of window ''status''
        in if \<not> isRecord window then None
           else if status \<noteq> Str ''ok'' \<and> status \<noteq> Str ''rate-limited'' then None
           else (case boundedNumber (prop_of window ''percent'') 100 of
                   None \<Rightarrow> None
                 | Some percent \<Rightarrow>
                     Some [internal_raw OPENCODE (ow_meter w) percent
                             \<lparr>win_kind = Rolling, win_durationSeconds = Some (ow_seconds w)\<rparr>
                             (futureInstantFromRfc3339 (prop_of window ''resetsAt'') now
                                (Some (plausibleResetHorizon (of_int (ow_seconds w)))))
                             now expiresAt unofficial_labels]))"

text \<open>Every part has to be readable.\<close>

fun all_parts :: "('a \<Rightarrow> 'b list option) \<Rightarrow> 'a list \<Rightarrow> 'b list option" where
  "all_parts f [] = Some []"
| "all_parts f (x # xs) =
     (case f x of None \<Rightarrow> None | Some ys \<Rightarrow> map_option (\<lambda>zs. ys @ zs) (all_parts f xs))"

definition parseOpencodePayload :: "js \<Rightarrow> string \<Rightarrow> js list option result" where
  "parseOpencodePayload payload now =
     rbind (shortExpiry now) (\<lambda>expiry.
       let usage = prop_of payload ''usage''
       in case expiry of
            None \<Rightarrow> Inr None
          | Some expiresAt \<Rightarrow>
              if \<not> isRecord usage then Inr None
              else Inr (map_option (map rawMeter) (all_parts (opencode_read_window usage now expiresAt) WINDOWS)))"

definition OPENCODE_TOOL :: "string option" where
  "OPENCODE_TOOL = Some ''OpenCode''"

definition opencode_read :: "js \<Rightarrow> string \<Rightarrow> connector_result result" where
  "opencode_read = connector_read parseOpencodePayload OPENCODE_TOOL"

section \<open>Grok\<close>

text \<open>A finite number from zero to a trillion, or a string that denotes one and is not blank.\<close>

definition stated_amount :: "js \<Rightarrow> rat option" where
  "stated_amount v =
     (case v of
        Str s \<Rightarrow>
          if trim s = [] then None
          else (case js_number s of None \<Rightarrow> None | Some r \<Rightarrow> if 0 \<le> r \<and> r \<le> TRILLION then Some r else None)
      | _ \<Rightarrow> boundedNumber v TRILLION)"

definition objectValue :: "js \<Rightarrow> rat option" where
  "objectValue v = (if isRecord v then stated_amount (prop_of v ''val'') else None)"

definition percentage :: "rat \<Rightarrow> rat \<Rightarrow> rat option" where
  "percentage used limit =
     (if limit \<le> 0 \<or> limit < used then None
      else let val = used / limit * 100 in if 0 \<le> val \<and> val \<le> 100 then Some val else None)"

definition MONTH_SECONDS :: rat where
  "MONTH_SECONDS = 2678400"

definition currentPeriod :: "js \<Rightarrow> string \<Rightarrow> (string \<times> snapshot_window \<times> string) option" where
  "currentPeriod config now =
     (let period = prop_of config ''currentPeriod''; type = prop_of period ''type'';
          weekly = (type = Str ''USAGE_PERIOD_TYPE_WEEKLY''); monthly = (type = Str ''USAGE_PERIOD_TYPE_MONTHLY'')
      in if \<not> isRecord period \<or> \<not> weekly \<and> \<not> monthly then None
         else
           map_option
             (\<lambda>resetAt. (if weekly then ''WEEKLY'' else ''MONTHLY'',
                         \<lparr>win_kind = Fixed, win_durationSeconds = if weekly then Some 604800 else None\<rparr>, resetAt))
             (futureInstantFromRfc3339 (prop_of period ''end'') now
                (Some (plausibleResetHorizon (if weekly then 604800 else MONTH_SECONDS)))))"

definition grok_raw :: "string \<Rightarrow> rat \<Rightarrow> snapshot_window \<Rightarrow> string option \<Rightarrow> string \<Rightarrow> string \<Rightarrow> raw_input" where
  "grok_raw meter val window resetAt now expiresAt =
     internal_raw GROK meter val window resetAt now expiresAt unofficial_labels"

abbreviation fixed_window :: snapshot_window where
  "fixed_window \<equiv> \<lparr>win_kind = Fixed, win_durationSeconds = None\<rparr>"

text \<open>The included quota: a stated percentage of the current period, or the amounts of the month.\<close>

definition grok_included :: "js \<Rightarrow> string \<Rightarrow> string \<Rightarrow> raw_input option" where
  "grok_included config now expiresAt =
     (case boundedNumber (prop_of config ''creditUsagePercent'') 100 of
        Some stated \<Rightarrow>
          map_option (\<lambda>(meter, window, resetAt). grok_raw meter stated window (Some resetAt) now expiresAt) (currentPeriod config now)
      | None \<Rightarrow>
          (case (objectValue (prop_of config ''monthlyLimit''), objectValue (prop_of config ''used'')) of
             (Some limit, Some used) \<Rightarrow>
               (let end_value = prop_of config ''billingPeriodEnd'';
                    resetAt = (if end_value = Undefined then None
                               else futureInstantFromRfc3339 end_value now (Some (plausibleResetHorizon MONTH_SECONDS)))
                in case percentage used limit of
                     None \<Rightarrow> None
                   | Some val \<Rightarrow>
                       if end_value \<noteq> Undefined \<and> resetAt = None then None
                       else Some (grok_raw ''MONTHLY'' val fixed_window resetAt now expiresAt))
           | _ \<Rightarrow> None))"

definition grok_on_demand :: "js \<Rightarrow> string \<Rightarrow> string \<Rightarrow> raw_input list option" where
  "grok_on_demand config now expiresAt =
     (let cap = objectValue (prop_of config ''onDemandCap''); used = objectValue (prop_of config ''onDemandUsed'') in
      if cap = None \<and> used = None \<or> cap = Some 0 \<and> used = Some 0 then Some []
      else
        (case (cap, used) of
           (Some c, Some u) \<Rightarrow>
             map_option (\<lambda>val. [grok_raw ''ON_DEMAND_MONTHLY'' val fixed_window None now expiresAt]) (percentage u c)
         | _ \<Rightarrow> None))"

definition parseGrokPayload :: "js \<Rightarrow> string \<Rightarrow> js list option result" where
  "parseGrokPayload payload now =
     rbind (shortExpiry now) (\<lambda>expiry.
       let config = prop_of payload ''config''
       in case expiry of
            None \<Rightarrow> Inr None
          | Some expiresAt \<Rightarrow>
              if \<not> isRecord config then Inr None
              else (case (grok_included config now expiresAt, grok_on_demand config now expiresAt) of
                      (Some included, Some extra) \<Rightarrow> Inr (Some (map rawMeter (included # extra)))
                    | _ \<Rightarrow> Inr None))"

definition GROK_TOOL :: "string option" where
  "GROK_TOOL = Some ''Grok Build''"

definition grok_read :: "js \<Rightarrow> string \<Rightarrow> connector_result result" where
  "grok_read = connector_read parseGrokPayload GROK_TOOL"

section \<open>Kimi\<close>

definition kimi_quota :: "js \<Rightarrow> string \<Rightarrow> rat \<Rightarrow> (rat \<times> string) option" where
  "kimi_quota v now horizon =
     (if \<not> isRecord v then None
      else
        (case (stated_amount (prop_of v ''used''), stated_amount (prop_of v ''limit'')) of
           (Some used, Some limit) \<Rightarrow>
             if limit \<le> 0 \<or> limit < used then None
             else map_option (\<lambda>resetAt. (used / limit * 100, resetAt))
                    (futureInstantFromRfc3339 (prop_of v ''resetTime'') now (Some (plausibleResetHorizon horizon)))
         | _ \<Rightarrow> None))"

text \<open>\<open>String\<close> of a time unit, where it can be one of the four: a string, or a list around one.\<close>

fun unit_text :: "js \<Rightarrow> string option" where
  "unit_text (Str s) = Some s"
| "unit_text (Arr [v]) = unit_text v"
| "unit_text _ = None"

definition time_units :: "(string \<times> nat) list" where
  "time_units =
     [(''TIME_UNIT_MINUTE'', 60), (''TIME_UNIT_HOUR'', 3600), (''TIME_UNIT_DAY'', 86400), (''TIME_UNIT_WEEK'', 604800)]"

definition kimi_seconds :: "js \<Rightarrow> nat option" where
  "kimi_seconds v =
     (case (prop_of v ''duration'', Option.bind (unit_text (prop_of v ''timeUnit'')) (map_of time_units)) of
        (Num (Fin r), Some multiplier) \<Rightarrow>
          if is_integer r \<and> 0 < r \<and> nat \<lfloor>r\<rfloor> * multiplier \<le> 31536000 then Some (nat \<lfloor>r\<rfloor> * multiplier) else None
      | _ \<Rightarrow> None)"

definition kimi_base :: "nat \<Rightarrow> string" where
  "kimi_base seconds =
     (if seconds = 300 then ''FIVE_MINUTE''
      else if seconds = 18000 then ''FIVE_HOUR''
      else if seconds = 86400 then ''DAILY''
      else if seconds = 604800 then ''SEVEN_DAY''
      else ''WINDOW_'' @ show_nat seconds)"

definition meterName :: "nat \<Rightarrow> nat \<Rightarrow> string option" where
  "meterName seconds ordinal =
     (let base = kimi_base seconds; meter = (if ordinal = 1 then base else base @ ''_'' @ show_nat ordinal)
      in if safeMeter meter then Some meter else None)"

definition kimi_raw :: "string \<Rightarrow> nat \<Rightarrow> rat \<times> string \<Rightarrow> string \<Rightarrow> string \<Rightarrow> raw_input" where
  "kimi_raw meter seconds reading now expiresAt =
     internal_raw KIMI meter (fst reading) \<lparr>win_kind = Rolling, win_durationSeconds = Some (int seconds)\<rparr>
       (Some (snd reading)) now expiresAt unofficial_labels"

definition has_quota :: "js \<Rightarrow> bool" where
  "has_quota detail \<longleftrightarrow> list_ex (has_key detail) [''used'', ''limit'', ''resetTime'']"

text \<open>The windows after those of the lengths \<open>seen\<close>: a second window of a length gets an ordinal.\<close>

fun kimi_limits :: "string \<Rightarrow> string \<Rightarrow> nat list \<Rightarrow> js list \<Rightarrow> raw_input list option" where
  "kimi_limits now expiresAt seen [] = Some []"
| "kimi_limits now expiresAt seen (entry # entries) =
     (let detail = prop_of entry ''detail'' in
      if \<not> isRecord entry then None
      else if \<not> isRecord detail \<or> \<not> has_quota detail then kimi_limits now expiresAt seen entries
      else
        (case kimi_seconds (prop_of entry ''window'') of
           None \<Rightarrow> None
         | Some seconds \<Rightarrow>
             (case (kimi_quota detail now (of_nat seconds), meterName seconds (Suc (count_list seen seconds))) of
                (Some reading, Some meter) \<Rightarrow>
                  map_option (Cons (kimi_raw meter seconds reading now expiresAt))
                    (kimi_limits now expiresAt (seconds # seen) entries)
              | _ \<Rightarrow> None)))"

definition parseKimiPayload :: "js \<Rightarrow> string \<Rightarrow> js list option result" where
  "parseKimiPayload payload now =
     rbind (shortExpiry now) (\<lambda>expiry.
       let limits = prop_of payload ''limits''
       in case expiry of
            None \<Rightarrow> Inr None
          | Some expiresAt \<Rightarrow>
              (case kimi_quota (prop_of payload ''usage'') now 604800 of
                 None \<Rightarrow> Inr None
               | Some weekly \<Rightarrow>
                   Inr (map_option (\<lambda>rows. map rawMeter (kimi_raw ''WEEKLY'' 604800 weekly now expiresAt # rows))
                          (case limits of
                             Undefined \<Rightarrow> Some []
                           | Arr entries \<Rightarrow> kimi_limits now expiresAt [] entries
                           | _ \<Rightarrow> None))))"

definition KIMI_TOOL :: "string option" where
  "KIMI_TOOL = Some ''Kimi CLI''"

definition kimi_read :: "js \<Rightarrow> string \<Rightarrow> connector_result result" where
  "kimi_read = connector_read parseKimiPayload KIMI_TOOL"

section \<open>Cursor\<close>

definition cursorLabels :: connector_labels where
  "cursorLabels =
     \<lparr>lab_credentialOrigin = OfficialLocalTool, lab_dataInterfaceStatus = InternalEndpoint,
      lab_automationRisk = HighRisk, lab_verification = VERIFIED_FIXTURES, lab_verificationEvidence = None\<rparr>"

text \<open>\<open>dddd-dd-ddTdd:dd:dd\<close>, up to three digits of a fraction, and a zone. A shorter fraction is read as
  engines read it, in tenths or hundredths.\<close>

definition zone_shape :: "string \<Rightarrow> bool" where
  "zone_shape s \<longleftrightarrow> s = ''Z'' \<or> has_shape ''+dd:dd'' s \<or> has_shape ''-dd:dd'' s"

definition cursor_shape :: "string \<Rightarrow> bool" where
  "cursor_shape s \<longleftrightarrow>
     has_shape ''dddd-dd-ddTdd:dd:dd'' (take 19 s) \<and>
     (let rest = drop 19 s; digits = takeWhile is_digit (tl rest)
      in zone_shape rest \<or>
         startsWith rest ''.'' \<and> digits \<noteq> [] \<and> length digits \<le> 3 \<and> zone_shape (drop (Suc (length digits)) rest))"

definition cursor_instant :: "js \<Rightarrow> int option" where
  "cursor_instant v = (case v of Str s \<Rightarrow> if cursor_shape s then dateParse (three_digits s) else None | _ \<Rightarrow> None)"

definition fixed_js :: "rat \<Rightarrow> js" where
  "fixed_js seconds = Obj [(''kind'', Str (window_kind_str Fixed)), (''durationSeconds'', num_js seconds)]"

record billing_cycle =
  bc_now :: string
  bc_current :: int
  bc_start :: int
  bc_end :: int

definition cursor_row :: "billing_cycle \<Rightarrow> string \<Rightarrow> rat \<Rightarrow> snapshot_availability option \<Rightarrow> js result" where
  "cursor_row cycle meter percent availability =
     rbind (toISOString (bc_end cycle)) (\<lambda>resetAt.
     rbind (toISOString (bc_current cycle + 600000)) (\<lambda>expiresAt.
       Inr (meter_literal
              \<lparr>ri_provider = CURSOR, ri_meter = meter, ri_value = min percent 100, ri_window = fixed_window,
               ri_resetAt = Some resetAt, ri_source = InternalPayload,
               ri_precision = (if meter = ''INCLUDED'' then Estimated else Exact),
               ri_observedAt = bc_now cycle, ri_expiresAt = expiresAt, ri_labels = cursorLabels, ri_amounts = None\<rparr>
              (fixed_js (of_int (bc_end cycle - bc_start cycle) / 1000)) PERCENT (Some QuotaPercent) availability)))"

text \<open>Adding a row to the rows so far; \<open>None\<close> is a refused answer.\<close>

definition add_row :: "billing_cycle \<Rightarrow> string \<Rightarrow> rat \<Rightarrow> js list \<Rightarrow> js list option result" where
  "add_row cycle meter percent rows = rbind (cursor_row cycle meter percent None) (\<lambda>row. Inr (Some (rows @ [row])))"

definition and_then :: "'a option result \<Rightarrow> ('a \<Rightarrow> 'b option result) \<Rightarrow> 'b option result" where
  "and_then r f = rbind r (\<lambda>x. case x of None \<Rightarrow> Inr None | Some y \<Rightarrow> f y)"

definition plan_field :: "billing_cycle \<Rightarrow> js \<Rightarrow> string \<Rightarrow> string \<Rightarrow> js list \<Rightarrow> js list option result" where
  "plan_field cycle plan field meter rows =
     (if prop_of plan field = Undefined then Inr (Some rows)
      else case boundedNumber (prop_of plan field) TRILLION of
             None \<Rightarrow> Inr None
           | Some val \<Rightarrow> add_row cycle meter val rows)"

definition overall_row :: "billing_cycle \<Rightarrow> js \<Rightarrow> js list \<Rightarrow> js list option result" where
  "overall_row cycle overall rows =
     (if \<not> isRecord overall \<or> prop_of overall ''isUnlimited'' = Bool True then Inr (Some rows)
      else
        (case (boundedNumber (prop_of overall ''used'') TRILLION, boundedNumber (prop_of overall ''limit'') TRILLION) of
           (Some used, Some limit) \<Rightarrow>
             if limit \<le> 0 \<or> TRILLION < used / limit * 100 then Inr None
             else add_row cycle ''INCLUDED'' (used / limit * 100) rows
         | _ \<Rightarrow> Inr None))"

definition unlimited_row :: "billing_cycle \<Rightarrow> bool \<Rightarrow> js list \<Rightarrow> js list option result" where
  "unlimited_row cycle unlimited rows =
     (if \<not> unlimited then Inr (Some rows)
      else if rows \<noteq> [] then Inr None
      else rbind (cursor_row cycle ''AUTO'' 0 (Some Unlimited)) (\<lambda>row. Inr (Some [row])))"

definition YEAR_MILLISECONDS :: int where
  "YEAR_MILLISECONDS = 366 * 86400000"

definition read_cycle :: "js \<Rightarrow> string \<Rightarrow> billing_cycle option" where
  "read_cycle payload now =
     (case (cursor_instant (Str now), cursor_instant (prop_of payload ''billingCycleStart''),
            cursor_instant (prop_of payload ''billingCycleEnd'')) of
        (Some current, Some start, Some finish) \<Rightarrow>
          if current < start \<or> finish \<le> current \<or> finish \<le> start \<or> YEAR_MILLISECONDS < finish - start then None
          else Some \<lparr>bc_now = now, bc_current = current, bc_start = start, bc_end = finish\<rparr>
      | _ \<Rightarrow> None)"

definition cursor_rows :: "js \<Rightarrow> billing_cycle \<Rightarrow> js list option result" where
  "cursor_rows payload cycle =
     (let individual = prop_of payload ''individualUsage''; plan = prop_of individual ''plan'';
          overall = prop_of individual ''overall'';
          unlimited = (\<exists>v \<in> {payload, individual, overall}. prop_of v ''isUnlimited'' = Bool True)
      in if \<not> isRecord individual then Inr None
         else if plan \<noteq> Undefined \<and> \<not> isRecord plan \<or> overall \<noteq> Undefined \<and> \<not> isRecord overall then Inr None
         else and_then (plan_field cycle plan ''autoPercentUsed'' ''AUTO'' []) (\<lambda>rows.
              and_then (plan_field cycle plan ''apiPercentUsed'' ''API'' rows) (\<lambda>rows.
              and_then (overall_row cycle overall rows) (unlimited_row cycle unlimited))))"

definition parseCursorPayload :: "js \<Rightarrow> string \<Rightarrow> js list option result" where
  "parseCursorPayload payload now =
     (if \<not> isRecord payload \<or> prop_of payload ''error'' \<noteq> Undefined then Inr None
      else case read_cycle payload now of
             None \<Rightarrow> Inr None
           | Some cycle \<Rightarrow> and_then (cursor_rows payload cycle) (\<lambda>rows. Inr (meters_or_null rows)))"

definition cursor_read :: "js \<Rightarrow> string \<Rightarrow> connector_result result" where
  "cursor_read = connector_read parseCursorPayload (Some ''Cursor'')"

section \<open>The readers that are kept whole\<close>

lemma unofficial_wf: "wf_labels unofficial_labels" "wf_labels manualLabels" "wf_labels cursorLabels"
  by (simp_all add: unofficial_labels_def manualLabels_def cursorLabels_def wf_labels_def)

definition iso_or_none :: "string option \<Rightarrow> bool" where
  "iso_or_none r \<longleftrightarrow> (case r of None \<Rightarrow> True | Some s \<Rightarrow> iso_instant s)"

lemma internal_plain:
  assumes "shortExpiry now = Inr (Some e)" "safeMeter meter" "0 \<le> v" "v \<le> 100" "wf_window w" "iso_or_none resetAt"
  shows "plain_input p now (internal_raw p meter v w resetAt now e unofficial_labels)"
  using assms(2-) short_expiry_order [OF assms(1)] unofficial_wf(1)
  by (simp add: plain_input_def internal_raw_def wf_raw_def wf_fields_def iso_or_none_def)

lemma iso_or_none_simps [simp]: "iso_or_none None" "iso_or_none (Some s) \<longleftrightarrow> iso_instant s"
  by (simp_all add: iso_or_none_def)

lemma rfc3339_iso: "iso_or_none (futureInstantFromRfc3339 v now bound)"
  by (cases "futureInstantFromRfc3339 v now bound") (auto dest: rfc3339_ahead simp: ahead_of_def)

lemma futureInstant_iso: "futureInstant v now = Some r \<Longrightarrow> iso_instant r"
  by (auto simp: futureInstant_def date_text_eq_Some iso_instant_iso_text split: js.splits option.splits if_splits)

lemma plain_rows_map: "xs \<noteq> [] \<Longrightarrow> \<forall>i \<in> set xs. plain_input p now i \<Longrightarrow> plain_rows p now (map rawMeter xs)"
  by (auto simp: plain_rows_def)

lemma manual_entry_plain:
  assumes "manual_entry now e entry = Some i" "shortExpiry now = Inr (Some e)"
  shows "plain_input MANUAL now i"
proof -
  obtain name percent resetAt where i: "safeMeter name" "boundedNumber (prop_of entry ''used_percent'') 100 = Some percent" "iso_instant resetAt"
    "i = \<lparr>ri_provider = MANUAL, ri_meter = name, ri_value = percent, ri_window = fixed_window, ri_resetAt = Some resetAt,
       ri_source = ManualEntry, ri_precision = ManualPrecision, ri_observedAt = now, ri_expiresAt = e,
       ri_labels = manualLabels, ri_amounts = None\<rparr>"
    using assms(1) by (auto simp: manual_entry_def dest: futureInstant_iso split: js.splits option.splits if_splits)
  show ?thesis
    using boundedNumber_range [OF i(2)] i(1,3) short_expiry_order [OF assms(2)] unofficial_wf(2)
    by (simp add: i(4) plain_input_def wf_raw_def wf_fields_def wf_window_def)
qed

lemma manual_plain:
  assumes "parseManualPayload payload now = Inr (Some raws)"
  shows "plain_rows MANUAL now raws"
proof -
  obtain e entries where e: "shortExpiry now = Inr (Some e)" "raws \<noteq> []"
    "raws = map rawMeter (List.map_filter (manual_entry now e) (take MAX_ENTRIES entries))"
    using assms unfolding parseManualPayload_def rbind_Inr_iff
    by (cases "prop_of payload ''meters''") (auto simp: meters_or_null_Some split: option.splits)
  show ?thesis
    unfolding e(3) by (rule plain_rows_map) (use e manual_entry_plain in \<open>auto simp: set_map_filter\<close>)
qed

interpretation manual_reader: kept_reader parseManualPayload MANUAL
  using manual_plain by (rule plain_kept_reader)

lemma all_parts_set: "all_parts f xs = Some ys \<Longrightarrow> y \<in> set ys \<Longrightarrow> \<exists>x \<in> set xs. \<exists>zs. f x = Some zs \<and> y \<in> set zs"
  by (induction xs arbitrary: ys) (fastforce split: option.splits)+

lemma opencode_window_plain:
  assumes "opencode_read_window usage now e w = Some is" "i \<in> set is" "w \<in> set WINDOWS" "shortExpiry now = Inr (Some e)"
  shows "plain_input OPENCODE now i"
proof -
  obtain percent where p: "boundedNumber (prop_of (prop_of usage (ow_field w)) ''percent'') 100 = Some percent"
    "i = internal_raw OPENCODE (ow_meter w) percent \<lparr>win_kind = Rolling, win_durationSeconds = Some (ow_seconds w)\<rparr>
        (futureInstantFromRfc3339 (prop_of (prop_of usage (ow_field w)) ''resetsAt'') now
           (Some (plausibleResetHorizon (of_int (ow_seconds w))))) now e unofficial_labels"
    using assms(1,2) by (auto simp: opencode_read_window_def Let_def split: if_splits option.splits)
  have "list_all (\<lambda>w. safeMeter (ow_meter w) \<and> 0 < ow_seconds w \<and> ow_seconds w \<le> 31536000) WINDOWS" by code_simp
  then have "safeMeter (ow_meter w)" "0 < ow_seconds w" "ow_seconds w \<le> 31536000" using assms(3) by (auto simp: list_all_iff)
  then show ?thesis
    unfolding p(2) using boundedNumber_range [OF p(1)] assms(4) rfc3339_iso by (intro internal_plain) (simp_all add: wf_window_def)
qed

lemma opencode_plain:
  assumes "parseOpencodePayload payload now = Inr (Some raws)"
  shows "plain_rows OPENCODE now raws"
proof -
  obtain e rows where e: "shortExpiry now = Inr (Some e)" "raws = map rawMeter rows"
    "all_parts (opencode_read_window (prop_of payload ''usage'') now e) WINDOWS = Some rows"
    using assms by (auto simp: parseOpencodePayload_def rbind_Inr_iff Let_def split: option.splits if_splits)
  have "rows \<noteq> []"
    using e(3) by (auto simp: WINDOWS_def opencode_read_window_def Let_def split: option.splits if_splits)
  then show ?thesis
    unfolding e(2) using all_parts_set [OF e(3)] opencode_window_plain e(1) by (intro plain_rows_map) blast+
qed

interpretation opencode_reader: kept_reader parseOpencodePayload OPENCODE
  using opencode_plain by (rule plain_kept_reader)

lemma percentage_range: "percentage u l = Some v \<Longrightarrow> 0 \<le> v \<and> v \<le> 100"
  by (auto simp: percentage_def Let_def split: if_splits)

lemma grok_codes: "safeMeter ''WEEKLY''" "safeMeter ''MONTHLY''" "safeMeter ''ON_DEMAND_MONTHLY''"
  by code_simp+

lemma currentPeriod_good:
  assumes "currentPeriod c now = Some (meter, w, resetAt)"
  shows "safeMeter meter \<and> wf_window w \<and> iso_instant resetAt"
proof (cases "prop_of (prop_of c ''currentPeriod'') ''type'' = Str ''USAGE_PERIOD_TYPE_WEEKLY''")
  case True
  then have "\<exists>bound. futureInstantFromRfc3339 (prop_of (prop_of c ''currentPeriod'') ''end'') now bound = Some resetAt"
    "meter = ''WEEKLY''" "win_durationSeconds w = Some 604800"
    using assms by (auto simp: currentPeriod_def Let_def split: if_split_asm)
  then show ?thesis using grok_codes by (auto simp: wf_window_def ahead_of_def dest: rfc3339_ahead)
next
  case False
  then have "\<exists>bound. futureInstantFromRfc3339 (prop_of (prop_of c ''currentPeriod'') ''end'') now bound = Some resetAt"
    "meter = ''MONTHLY''" "win_durationSeconds w = None"
    using assms by (auto simp: currentPeriod_def Let_def split: if_split_asm)
  then show ?thesis using grok_codes by (auto simp: wf_window_def ahead_of_def dest: rfc3339_ahead)
qed

lemma grok_included_plain:
  assumes "grok_included c now e = Some i" "shortExpiry now = Inr (Some e)"
  shows "plain_input GROK now i"
proof (cases "boundedNumber (prop_of c ''creditUsagePercent'') 100")
  case (Some stated)
  then obtain meter w resetAt where p: "currentPeriod c now = Some (meter, w, resetAt)" "i = grok_raw meter stated w (Some resetAt) now e"
    using assms(1) by (auto simp: grok_included_def)
  then show ?thesis
    unfolding p(2) grok_raw_def using currentPeriod_good [OF p(1)] boundedNumber_range [OF Some] assms(2)
    by (intro internal_plain) simp_all
next
  case None
  define resetAt where "resetAt = (if prop_of c ''billingPeriodEnd'' = Undefined then None
      else futureInstantFromRfc3339 (prop_of c ''billingPeriodEnd'') now (Some (plausibleResetHorizon MONTH_SECONDS)))"
  from None obtain v u l where p: "percentage u l = Some v" "i = grok_raw ''MONTHLY'' v fixed_window resetAt now e"
    using assms(1) unfolding grok_included_def Let_def resetAt_def [symmetric]
    by (auto split: option.splits if_split_asm)
  have "iso_or_none resetAt" using rfc3339_iso by (simp add: resetAt_def)
  note p = p(1) this p(2)
  show ?thesis
    unfolding p(3) grok_raw_def using percentage_range [OF p(1)] p(2) grok_codes assms(2)
    by (intro internal_plain) (simp_all add: wf_window_def)
qed

lemma grok_on_demand_plain:
  assumes "grok_on_demand c now e = Some is" "i \<in> set is" "shortExpiry now = Inr (Some e)"
  shows "plain_input GROK now i"
proof -
  obtain v u l where p: "percentage u l = Some v" "i = grok_raw ''ON_DEMAND_MONTHLY'' v fixed_window None now e"
    using assms(1,2) by (auto simp: grok_on_demand_def Let_def split: option.splits if_splits)
  show ?thesis
    unfolding p(2) grok_raw_def using percentage_range [OF p(1)] grok_codes assms(3)
    by (intro internal_plain) (simp_all add: wf_window_def)
qed

lemma grok_plain:
  assumes "parseGrokPayload payload now = Inr (Some raws)"
  shows "plain_rows GROK now raws"
proof -
  let ?c = "prop_of payload ''config''"
  have "\<exists>e i is. shortExpiry now = Inr (Some e) \<and> raws = map rawMeter (i # is) \<and>
      grok_included ?c now e = Some i \<and> grok_on_demand ?c now e = Some is"
  proof (cases "shortExpiry now")
    case (Inr x)
    then show ?thesis
      using assms
      by (cases x; cases "grok_included ?c now (the x)"; cases "grok_on_demand ?c now (the x)")
        (auto simp: parseGrokPayload_def Let_def split: if_split_asm)
  qed (use assms in \<open>simp add: parseGrokPayload_def\<close>)
  then obtain e i "is" where e: "shortExpiry now = Inr (Some e)" "raws = map rawMeter (i # is)"
    "grok_included ?c now e = Some i" "grok_on_demand ?c now e = Some is" by blast
  show ?thesis
    unfolding e(2) using grok_included_plain [OF e(3,1)] grok_on_demand_plain [OF e(4) _ e(1)] by (intro plain_rows_map) auto
qed

interpretation grok_reader: kept_reader parseGrokPayload GROK
  using grok_plain by (rule plain_kept_reader)

lemma stated_amount_nonneg: "stated_amount v = Some r \<Longrightarrow> 0 \<le> r"
  by (cases v) (auto simp: stated_amount_def dest!: boundedNumber_range split: if_split_asm option.splits)

lemma kimi_quota_good:
  assumes "kimi_quota v now h = Some (p, r)"
  shows "0 \<le> p \<and> p \<le> 100 \<and> iso_instant r"
proof -
  obtain u l where ul: "stated_amount (prop_of v ''used'') = Some u" "0 < l" "u \<le> l" "p = u / l * 100"
    and "futureInstantFromRfc3339 (prop_of v ''resetTime'') now (Some (plausibleResetHorizon h)) = Some r"
    using assms by (auto simp: kimi_quota_def not_le not_less split: if_split_asm option.splits)
  then have "iso_instant r" by (auto dest: rfc3339_ahead simp: ahead_of_def)
  moreover have "0 \<le> u / l" "u / l \<le> 1" using ul stated_amount_nonneg [OF ul(1)] by (simp_all add: divide_le_eq_1)
  moreover from calculation have "0 * 100 \<le> u / l * 100" "u / l * 100 \<le> 1 * 100" by (intro mult_right_mono; simp)+
  ultimately show ?thesis unfolding ul(4) by simp
qed

lemma kimi_seconds_range: "kimi_seconds v = Some s \<Longrightarrow> 0 < s \<and> s \<le> 31536000"
proof -
  have "0 < m" if "map_of time_units t = Some m" for t m
    using that by (auto simp: time_units_def split: if_split_asm)
  moreover have "0 < nat \<lfloor>r\<rfloor>" if "is_integer r" "0 < r" for r :: rat
    using that by (metis is_integer_def of_int_0_less_iff zero_less_nat_eq)
  ultimately show "kimi_seconds v = Some s \<Longrightarrow> ?thesis"
    by (auto simp: kimi_seconds_def bind_eq_Some_conv split: option.splits js.splits jsnum.splits if_split_asm)
qed

lemma kimi_row_plain:
  assumes "kimi_quota v now h = Some reading" "0 < s" "s \<le> 31536000" "safeMeter meter" "shortExpiry now = Inr (Some e)"
  shows "plain_input KIMI now (kimi_raw meter s reading now e)"
  unfolding kimi_raw_def using assms kimi_quota_good [of v now h "fst reading" "snd reading"]
  by (intro internal_plain) (simp_all add: wf_window_def)

text \<open>One step of the loop that adds a row.\<close>

lemma kimi_limits_Cons:
  assumes "kimi_limits now e seen (entry # entries) = Some rows"
  obtains (Skip) "kimi_limits now e seen entries = Some rows"
    | (Row) s reading meter rest where "kimi_quota (prop_of entry ''detail'') now (of_nat s) = Some reading" "0 < s" "s \<le> 31536000"
      "meterName s (Suc (count_list seen s)) = Some meter" "kimi_limits now e (s # seen) entries = Some rest"
      "rows = kimi_raw meter s reading now e # rest"
proof (cases "isRecord (prop_of entry ''detail'') \<and> has_quota (prop_of entry ''detail'')")
  case False
  then show thesis using assms Skip by (auto simp: Let_def split: if_split_asm)
next
  case True
  then have "\<exists>s reading meter rest. kimi_quota (prop_of entry ''detail'') now (of_nat s) = Some reading \<and> kimi_seconds (prop_of entry ''window'') = Some s \<and>
      meterName s (Suc (count_list seen s)) = Some meter \<and> kimi_limits now e (s # seen) entries = Some rest \<and>
      rows = kimi_raw meter s reading now e # rest"
    using assms by (auto simp: Let_def split: if_split_asm option.splits)
  then show thesis using Row kimi_seconds_range by blast
qed

lemma meterName_safe: "meterName s n = Some m \<Longrightarrow> safeMeter m"
  by (auto simp: meterName_def Let_def split: if_split_asm)

lemma kimi_limits_plain:
  "kimi_limits now e seen entries = Some rows \<Longrightarrow> shortExpiry now = Inr (Some e) \<Longrightarrow> \<forall>i \<in> set rows. plain_input KIMI now i"
proof (induction entries arbitrary: seen rows)
  case (Cons entry entries)
  from Cons.prems(1) show ?case
  proof (cases rule: kimi_limits_Cons)
    case Skip
    then show ?thesis using Cons by blast
  next
    case (Row s reading meter rest)
    then show ?thesis using Cons.IH [OF Row(5)] Cons.prems(2) kimi_row_plain meterName_safe by auto
  qed
qed simp

lemma kimi_weekly_safe: "safeMeter ''WEEKLY''"
  by code_simp

lemma parseKimiPayload_Some:
  assumes "parseKimiPayload payload now = Inr (Some raws)"
  obtains e weekly rows where "shortExpiry now = Inr (Some e)" "kimi_quota (prop_of payload ''usage'') now 604800 = Some weekly"
    "raws = map rawMeter (kimi_raw ''WEEKLY'' 604800 weekly now e # rows)"
    "rows = [] \<or> (\<exists>entries. kimi_limits now e [] entries = Some rows)"
proof -
  let ?q = "kimi_quota (prop_of payload ''usage'') now 604800"
  obtain x where x: "shortExpiry now = Inr x" using assms by (cases "shortExpiry now") (auto simp: parseKimiPayload_def)
  with assms obtain e weekly where e: "x = Some e" "?q = Some weekly"
    by (cases x; cases ?q) (auto simp: parseKimiPayload_def Let_def)
  define found where "found = (case prop_of payload ''limits'' of Undefined \<Rightarrow> Some [] | Arr entries \<Rightarrow> kimi_limits now e [] entries | _ \<Rightarrow> None)"
  have "Inr (map_option (\<lambda>rows. map rawMeter (kimi_raw ''WEEKLY'' 604800 weekly now e # rows)) found) = (Inr (Some raws) :: js list option result)"
    using assms x e by (simp add: parseKimiPayload_def Let_def found_def)
  then obtain rows where rows: "found = Some rows" "raws = map rawMeter (kimi_raw ''WEEKLY'' 604800 weekly now e # rows)" by auto
  then have "rows = [] \<or> (\<exists>entries. kimi_limits now e [] entries = Some rows)"
    unfolding found_def by (auto split: js.splits)
  then show thesis using that x e rows(2) by blast
qed

lemma kimi_plain:
  assumes "parseKimiPayload payload now = Inr (Some raws)"
  shows "plain_rows KIMI now raws"
proof -
  obtain e weekly rows where e: "shortExpiry now = Inr (Some e)" "kimi_quota (prop_of payload ''usage'') now 604800 = Some weekly"
    "raws = map rawMeter (kimi_raw ''WEEKLY'' 604800 weekly now e # rows)"
    "rows = [] \<or> (\<exists>entries. kimi_limits now e [] entries = Some rows)"
    by (rule parseKimiPayload_Some [OF assms])
  have "\<forall>i \<in> set rows. plain_input KIMI now i" using e(4) kimi_limits_plain e(1) by auto
  then show ?thesis
    unfolding e(3) using kimi_row_plain [OF e(2) _ _ kimi_weekly_safe e(1)] by (intro plain_rows_map) simp_all
qed

interpretation kimi_reader: kept_reader parseKimiPayload KIMI
  using kimi_plain by (rule plain_kept_reader)

text \<open>The ordinal keeps windows of one length apart.\<close>

definition ordinal_suffix :: "nat \<Rightarrow> string" where
  "ordinal_suffix n = (if n = 1 then [] else ''_'' @ show_nat n)"

lemma meterName_base: "meterName s n = Some m \<Longrightarrow> m = kimi_base s @ ordinal_suffix n"
  by (auto simp: meterName_def ordinal_suffix_def Let_def split: if_split_asm)

lemma show_nat_inject: "show_nat m = show_nat n \<longleftrightarrow> m = n"
  by (metis number_of_digits_show_nat)

lemma digits_before: "takeWhile is_digit (show_nat s @ ordinal_suffix n) = show_nat s"
proof -
  have "\<not> is_digit CHR ''_''" by code_simp
  then have "takeWhile is_digit (ordinal_suffix n) = []" by (simp add: ordinal_suffix_def)
  then show ?thesis using show_nat_digits [of s] by (simp add: takeWhile_append2 list_all_iff)
qed

lemma named_base_eq:
  assumes "kimi_base s @ ordinal_suffix n = kimi_base t @ ordinal_suffix m"
  shows "s = t"
proof -
  let ?named = "{300, 18000, 86400, 604800}"
  consider "s \<in> ?named" "t \<in> ?named" | "s \<in> ?named" "t \<notin> ?named" | "s \<notin> ?named" "t \<in> ?named" | "s \<notin> ?named" "t \<notin> ?named"
    by blast
  then show ?thesis
  proof cases
    case 1
    then show ?thesis using assms by (auto simp: kimi_base_def)
  next
    case 2
    then show ?thesis using assms by (auto simp: kimi_base_def)
  next
    case 3
    then show ?thesis using assms by (auto simp: kimi_base_def)
  next
    case 4
    then have "show_nat s @ ordinal_suffix n = show_nat t @ ordinal_suffix m" using assms by (simp add: kimi_base_def)
    then have "show_nat s = show_nat t" using digits_before by metis
    then show ?thesis by (simp add: show_nat_inject)
  qed
qed

lemma ordinal_suffix_inject: "ordinal_suffix n = ordinal_suffix m \<Longrightarrow> n = m"
  by (auto simp: ordinal_suffix_def show_nat_inject split: if_split_asm)

lemma meterName_inject: "meterName s n = Some c \<Longrightarrow> meterName t m = Some c \<Longrightarrow> s = t \<and> n = m"
  using named_base_eq ordinal_suffix_inject by (metis append_same_eq meterName_base same_append_eq)

lemma kimi_limits_codes:
  "kimi_limits now e seen entries = Some rows \<Longrightarrow>
   distinct (map ri_meter rows) \<and> (\<forall>i \<in> set rows. \<exists>s n. meterName s n = Some (ri_meter i) \<and> count_list seen s < n)"
proof (induction entries arbitrary: seen rows)
  case (Cons entry entries)
  from Cons.prems show ?case
  proof (cases rule: kimi_limits_Cons)
    case Skip
    then show ?thesis using Cons.IH by blast
  next
    case (Row s reading meter rest)
    have meter: "ri_meter (kimi_raw meter s reading now e) = meter" by (simp add: kimi_raw_def internal_raw_def)
    note ih = Cons.IH [OF Row(5)]
    have later: "\<exists>t n. meterName t n = Some (ri_meter i) \<and> count_list (s # seen) t < n" if "i \<in> set rest" for i
      using ih that by blast
    have "meter \<notin> ri_meter ` set rest"
    proof
      assume "meter \<in> ri_meter ` set rest"
      then obtain i where "i \<in> set rest" "ri_meter i = meter" by blast
      then obtain t n where "meterName t n = Some meter" "count_list (s # seen) t < n" using later by metis
      with meterName_inject [OF Row(4)] show False by fastforce
    qed
    moreover have "\<exists>t n. meterName t n = Some (ri_meter i) \<and> count_list seen t < n" if i: "i \<in> set rest" for i
    proof -
      obtain t n where "meterName t n = Some (ri_meter i)" "count_list (s # seen) t < n" using later [OF i] by blast
      moreover have "count_list seen t \<le> count_list (s # seen) t" by simp
      ultimately show ?thesis by (meson le_less_trans)
    qed
    ultimately show ?thesis using ih Row(4) meter by (auto simp: Row(6))
  qed
qed simp

text \<open>The meters of a Kimi answer have codes of their own: the week, and each window with its length and its
  ordinal.\<close>

theorem kimi_codes_distinct:
  assumes "parseKimiPayload payload now = Inr (Some raws)"
  shows "distinct (map (\<lambda>raw. prop_of raw ''meter'') raws)"
proof -
  obtain e weekly rows where r: "raws = map rawMeter (kimi_raw ''WEEKLY'' 604800 weekly now e # rows)"
    "rows = [] \<or> (\<exists>entries. kimi_limits now e [] entries = Some rows)"
    by (rule parseKimiPayload_Some [OF assms])
  have codes: "distinct (map ri_meter rows)" "\<forall>i \<in> set rows. \<exists>s n. meterName s n = Some (ri_meter i)"
    using r(2) kimi_limits_codes by fastforce+
  have "meterName s n \<noteq> Some ''WEEKLY''" for s n
    by (auto dest!: meterName_base simp: kimi_base_def split: if_split_asm)
  then have "''WEEKLY'' \<notin> ri_meter ` set rows" using codes(2) by fastforce
  moreover have "inj Str" by (simp add: inj_on_def)
  ultimately show ?thesis
    using codes(1) by (auto simp: r(1) kimi_raw_def internal_raw_def comp_def distinct_map inj_on_def)
qed

section \<open>Cursor\<close>

lemma cursor_instant_range: "cursor_instant v = Some t \<Longrightarrow> \<bar>t\<bar> \<le> max_time"
  by (auto simp: cursor_instant_def dest: dateParse_range split: js.splits if_split_asm)

definition cycle_ok :: "billing_cycle \<Rightarrow> bool" where
  "cycle_ok c \<longleftrightarrow>
     cursor_instant (Str (bc_now c)) = Some (bc_current c) \<and> bc_start c \<le> bc_current c \<and> bc_current c < bc_end c \<and>
     bc_end c - bc_start c \<le> YEAR_MILLISECONDS \<and> \<bar>bc_end c\<bar> \<le> max_time"

lemma read_cycle_ok: "read_cycle payload now = Some c \<Longrightarrow> cycle_ok c \<and> bc_now c = now"
  by (auto simp: read_cycle_def cycle_ok_def dest: cursor_instant_range split: option.splits if_split_asm)

text \<open>A row as \<open>cursor_row\<close> writes it.\<close>

definition cursor_made :: "billing_cycle \<Rightarrow> js \<Rightarrow> bool" where
  "cursor_made c raw \<longleftrightarrow>
     (\<exists>meter percent availability. meter \<in> {''AUTO'', ''API'', ''INCLUDED''} \<and> 0 \<le> percent \<and>
        cursor_row c meter percent availability = Inr raw)"

definition made_rows :: "billing_cycle \<Rightarrow> js list option result \<Rightarrow> bool" where
  "made_rows c r \<longleftrightarrow> (\<forall>rows. r = Inr (Some rows) \<longrightarrow> list_all (cursor_made c) rows)"

lemma made_add: "list_all (cursor_made c) rows \<Longrightarrow> meter \<in> {''AUTO'', ''API'', ''INCLUDED''} \<Longrightarrow> 0 \<le> p \<Longrightarrow> made_rows c (add_row c meter p rows)"
  by (fastforce simp: made_rows_def add_row_def rbind_Inr_iff cursor_made_def)

lemma made_and_then: "made_rows c r \<Longrightarrow> (\<And>rows. list_all (cursor_made c) rows \<Longrightarrow> made_rows c (f rows)) \<Longrightarrow> made_rows c (and_then r f)"
  by (auto simp: made_rows_def and_then_def rbind_Inr_iff split: option.splits)

lemma made_plan: "list_all (cursor_made c) rows \<Longrightarrow> meter \<in> {''AUTO'', ''API'', ''INCLUDED''} \<Longrightarrow> made_rows c (plan_field c plan field meter rows)"
  using made_add boundedNumber_range [of "prop_of plan field" TRILLION]
  by (auto simp: plan_field_def made_rows_def [of c "Inr _"] split: option.splits)

lemma made_overall: "list_all (cursor_made c) rows \<Longrightarrow> made_rows c (overall_row c overall rows)"
proof (cases "boundedNumber (prop_of overall ''used'') TRILLION"; cases "boundedNumber (prop_of overall ''limit'') TRILLION")
  fix u l
  assume *: "list_all (cursor_made c) rows" "boundedNumber (prop_of overall ''used'') TRILLION = Some u"
    "boundedNumber (prop_of overall ''limit'') TRILLION = Some l"
  then have "0 \<le> u / l * 100" by (auto dest!: boundedNumber_range)
  then have "made_rows c (add_row c ''INCLUDED'' (u / l * 100) rows)" using made_add [OF *(1)] by blast
  with * show ?thesis by (simp add: overall_row_def made_rows_def)
qed (simp_all add: overall_row_def made_rows_def)

lemma made_unlimited: "list_all (cursor_made c) rows \<Longrightarrow> made_rows c (unlimited_row c unlimited rows)"
  by (fastforce simp: unlimited_row_def made_rows_def rbind_Inr_iff cursor_made_def)

lemma made_cursor_rows: "made_rows c (cursor_rows payload c)"
proof -
  have none: "made_rows c (Inr None)" by (simp add: made_rows_def)
  show ?thesis
    unfolding cursor_rows_def Let_def
    by (auto intro!: made_and_then made_plan made_overall made_unlimited none)
qed

lemma parseCursorPayload_Some:
  assumes "parseCursorPayload payload now = Inr (Some raws)"
  obtains c where "read_cycle payload now = Some c" "raws \<noteq> []" "list_all (cursor_made c) raws"
  using assms made_cursor_rows
  by (auto simp: parseCursorPayload_def and_then_def rbind_Inr_iff meters_or_null_Some made_rows_def split: if_split_asm option.splits)

text \<open>On a canonical instant the repair of the fraction changes nothing.\<close>

lemma three_digits_point:
  "list_all (\<lambda>c. c \<noteq> CHR ''.'') a \<Longrightarrow> three_digits (a @ CHR ''.'' # pad 3 n @ ''Z'') = a @ CHR ''.'' # pad 3 n @ ''Z''"
proof (induction a)
  case Nil
  have "takeWhile is_digit (pad 3 n @ ''Z'') = pad 3 n"
    using pad_digits [of 3 n] by (simp add: takeWhile_append2 list_all_iff is_digit_def)
  moreover have "pad 3 n \<noteq> []" using length_pad [of 3 n] by (metis length_0_conv zero_neq_numeral)
  ultimately show ?case by simp
qed simp

lemma pad_no_point: "list_all (\<lambda>c. c \<noteq> CHR ''.'') (pad k n)"
  using pad_digits [of k n] by (auto simp: list_all_iff is_digit_def less_eq_char_def)

lemma three_digits_iso: "three_digits (iso_text t) = iso_text t"
proof -
  have year: "list_all (\<lambda>c. c \<noteq> CHR ''.'') (show_year y)" for y
    using pad_no_point by (simp add: show_year_def)
  define d y r where "d = t div 86400000" and "y = year_from_day d" and "r = t mod 86400000"
  obtain m k where mk: "month_day (month_lengths y) (d - day_from_year y) 1 = (m, k)" by fastforce
  let ?a = "show_year y @ CHR ''-'' # pad 2 m @ CHR ''-'' # pad 2 k @ CHR ''T'' # pad 2 (nat (r div 3600000)) @ CHR '':'' #
     pad 2 (nat (r div 60000 mod 60)) @ CHR '':'' # pad 2 (nat (r div 1000 mod 60))"
  have a: "iso_text t = ?a @ CHR ''.'' # pad 3 (nat (r mod 1000)) @ ''Z''"
    using mk by (simp add: iso_text_def show_time_def Let_def flip: d_def y_def r_def)
  have "list_all (\<lambda>c. c \<noteq> CHR ''.'') ?a"
    by (simp add: year pad_no_point)
  then show ?thesis unfolding a by (rule three_digits_point)
qed

lemma cursor_now: "iso_instant now \<Longrightarrow> cursor_instant (Str now) = Some t \<Longrightarrow> dateParse now = Some t"
  by (auto simp: cursor_instant_def iso_instant_def isIsoInstant_iff three_digits_iso split: if_split_asm)

definition cycle_seconds :: "billing_cycle \<Rightarrow> rat" where
  "cycle_seconds c = of_int (bc_end c - bc_start c) / 1000"

lemma cycle_seconds_range: "cycle_ok c \<Longrightarrow> 0 < cycle_seconds c \<and> (cycle_seconds c \<le> 31536000 \<or> 31536000 < cycle_seconds c)"
  by (auto simp: cycle_ok_def cycle_seconds_def)

lemma cursor_codes: "meter \<in> {''AUTO'', ''API'', ''INCLUDED''} \<Longrightarrow> safeMeter meter"
proof -
  have "safeMeter ''AUTO''" "safeMeter ''API''" "safeMeter ''INCLUDED''" by code_simp+
  then show "meter \<in> {''AUTO'', ''API'', ''INCLUDED''} \<Longrightarrow> ?thesis" by auto
qed

lemma normalizeWindow_fixed:
  "0 < r \<Longrightarrow> normalizeWindow (fixed_js r) =
     (if is_integer r \<and> r \<le> 31536000 then Some \<lparr>win_kind = Fixed, win_durationSeconds = Some \<lfloor>r\<rfloor>\<rparr> else None)"
  by (simp add: normalizeWindow_def fixed_js_def num_js_def del: window_kind_str.simps)

lemma cursor_made_normal:
  assumes "cursor_made c raw" "cycle_ok c" "iso_instant (bc_now c)"
  obtains i a where "raw = meter_literal i (fixed_js (cycle_seconds c)) PERCENT (Some QuotaPercent) a" "wf_fields i"
    "ri_provider i = CURSOR" "ri_observedAt i = bc_now c" "0 \<le> ri_value i" "ri_value i \<le> 100" "safeMeter (ri_meter i)"
proof -
  obtain meter p a resetAt e where r: "meter \<in> {''AUTO'', ''API'', ''INCLUDED''}" "0 \<le> p" "toISOString (bc_end c) = Inr resetAt"
    "toISOString (bc_current c + 600000) = Inr e"
    "raw = meter_literal
       \<lparr>ri_provider = CURSOR, ri_meter = meter, ri_value = min p 100, ri_window = fixed_window, ri_resetAt = Some resetAt,
        ri_source = InternalPayload, ri_precision = (if meter = ''INCLUDED'' then Estimated else Exact),
        ri_observedAt = bc_now c, ri_expiresAt = e, ri_labels = cursorLabels, ri_amounts = None\<rparr>
       (fixed_js (cycle_seconds c)) PERCENT (Some QuotaPercent) a"
    using assms(1) unfolding cursor_made_def cursor_row_def [folded cycle_seconds_def] rbind_Inr_iff by blast
  have "dateParse (bc_now c) = Some (bc_current c)" using assms(2,3) cursor_now by (simp add: cycle_ok_def)
  moreover have "e = iso_text (bc_current c + 600000)" "\<bar>bc_current c + 600000\<bar> \<le> max_time" "iso_instant resetAt"
    using r(3,4) by (auto simp: toISOString_def iso_instant_iso_text split: if_split_asm)
  ultimately show thesis
    using r(1,2) assms(3) cursor_codes [OF r(1)] unofficial_wf(3)
    by (intro that [OF r(5)]) (auto simp: wf_fields_def dateParse_iso_text iso_instant_iso_text ms_le_iff)
qed

lemma cursor_row_kept:
  assumes "cursor_made c raw" "cycle_ok c" "iso_instant (bc_now c)"
  shows "(normalizeMeter raw \<noteq> None) = (1000 dvd bc_end c - bc_start c \<and> bc_end c - bc_start c \<le> 365 * 86400000)"
proof -
  obtain i a where i: "raw = meter_literal i (fixed_js (cycle_seconds c)) PERCENT (Some QuotaPercent) a" "wf_fields i"
    "0 \<le> ri_value i" "ri_value i \<le> 100" "safeMeter (ri_meter i)"
    using cursor_made_normal [OF assms] by metis
  have pos: "0 < cycle_seconds c" using assms(2) by (simp add: cycle_ok_def cycle_seconds_def)
  have "is_integer (cycle_seconds c) \<longleftrightarrow> 1000 dvd bc_end c - bc_start c"
  proof
    assume "is_integer (cycle_seconds c)"
    then have "of_int (bc_end c - bc_start c) = (of_int (1000 * \<lfloor>cycle_seconds c\<rfloor>) :: rat)"
      by (simp add: is_integer_def cycle_seconds_def)
    then show "1000 dvd bc_end c - bc_start c" by (metis dvd_triv_left of_int_eq_iff)
  next
    assume "1000 dvd bc_end c - bc_start c"
    then obtain k where "bc_end c - bc_start c = 1000 * k" by blast
    then show "is_integer (cycle_seconds c)" by (simp add: is_integer_def cycle_seconds_def)
  qed
  moreover have "cycle_seconds c \<le> 31536000 \<longleftrightarrow> bc_end c - bc_start c \<le> 365 * 86400000"
  proof -
    have "(of_int x / 1000 \<le> (31536000::rat)) \<longleftrightarrow> x \<le> 365 * 86400000" for x by (simp add: divide_le_eq)
    then show ?thesis unfolding cycle_seconds_def by blast
  qed
  moreover have "fixed_js (cycle_seconds c) \<noteq> Undefined" by (simp add: fixed_js_def)
  ultimately show ?thesis
    using i by (simp add: normalizeMeter_literal normalizeWindow_fixed [OF pos] above_range_def)
qed

interpretation cursor_reader: payload_reader parseCursorPayload CURSOR
proof unfold_locales
  fix payload now raws raw row
  assume p: "parseCursorPayload payload now = Inr (Some raws)" and now: "iso_instant now" and raw: "raw \<in> set raws"
    and row: "normalizeMeter raw = Some row"
  obtain c where c: "read_cycle payload now = Some c" "cursor_made c raw"
    using parseCursorPayload_Some [OF p] raw by (metis list_all_iff)
  then have ok: "cycle_ok c" "bc_now c = now" using read_cycle_ok by simp_all
  obtain i a where i: "raw = meter_literal i (fixed_js (cycle_seconds c)) PERCENT (Some QuotaPercent) a" "wf_fields i"
    "ri_provider i = CURSOR" "ri_observedAt i = now"
    using cursor_made_normal [OF c(2) ok(1)] now ok(2) by metis
  have "fixed_js (cycle_seconds c) \<noteq> Undefined" by (simp add: fixed_js_def)
  with parsed_row_literal [OF i(2) _ i(4)] row i(1,3) show "parsed_row CURSOR now raw row" by auto
next
  fix payload now raws
  assume "parseCursorPayload payload now = Inr (Some raws)"
  then show "raws \<noteq> []" using parseCursorPayload_Some by blast
qed

text \<open>The rows of a Cursor answer are kept exactly when its billing cycle is a whole number of seconds and at most
  365 days, although the reader admits a cycle of 366 days.\<close>

theorem cursor_rows_kept:
  assumes "parseCursorPayload payload now = Inr (Some raws)" "iso_instant now" "read_cycle payload now = Some c" "raw \<in> set raws"
  shows "(normalizeMeter raw \<noteq> None) = (1000 dvd bc_end c - bc_start c \<and> bc_end c - bc_start c \<le> 365 * 86400000)"
proof -
  obtain made: "cursor_made c raw"
    using parseCursorPayload_Some [OF assms(1)] assms(3,4) by (metis list_all_iff option.inject)
  have "cycle_ok c" "bc_now c = now" using read_cycle_ok [OF assms(3)] by simp_all
  with cursor_row_kept [OF made] assms(2) show ?thesis by simp
qed

definition leap_document :: js where
  "leap_document =
     Obj [(''billingCycleStart'', Str ''2027-06-01T00:00:00Z''), (''billingCycleEnd'', Str ''2028-06-01T00:00:00Z''),
          (''individualUsage'', Obj [(''plan'', Obj [(''autoPercentUsed'', Num (Fin 40))])])]"

definition leap_now :: string where
  "leap_now = ''2027-07-01T00:00:00.000Z''"

definition leap_cycle :: billing_cycle where
  "leap_cycle = \<lparr>bc_now = leap_now, bc_current = 1814400000000, bc_start = 1811808000000, bc_end = 1843430400000\<rparr>"

lemma leap_instants:
  "cursor_instant (Str leap_now) = Some 1814400000000"
  "cursor_instant (Str ''2027-06-01T00:00:00Z'') = Some 1811808000000"
  "cursor_instant (Str ''2028-06-01T00:00:00Z'') = Some 1843430400000"
proof -
  have shapes: "cursor_shape leap_now" "cursor_shape ''2027-06-01T00:00:00Z''" "cursor_shape ''2028-06-01T00:00:00Z''"
    "three_digits leap_now = leap_now" "three_digits ''2027-06-01T00:00:00Z'' = ''2027-06-01T00:00:00Z''"
    "three_digits ''2028-06-01T00:00:00Z'' = ''2028-06-01T00:00:00Z''"
    by code_simp+
  have "dateParse leap_now = Some 1814400000000" "dateParse ''2027-06-01T00:00:00Z'' = Some 1811808000000"
    "dateParse ''2028-06-01T00:00:00Z'' = Some 1843430400000"
    by (simp_all add: leap_now_def date_eval cong: bind_weak_cong)
  with shapes show
    "cursor_instant (Str leap_now) = Some 1814400000000"
    "cursor_instant (Str ''2027-06-01T00:00:00Z'') = Some 1811808000000"
    "cursor_instant (Str ''2028-06-01T00:00:00Z'') = Some 1843430400000"
    by (simp_all add: cursor_instant_def)
qed

lemma leap_read: "read_cycle leap_document leap_now = Some leap_cycle"
  by (simp add: read_cycle_def leap_document_def leap_instants leap_cycle_def YEAR_MILLISECONDS_def)

lemma leap_parse: "\<exists>raw. parseCursorPayload leap_document leap_now = Inr (Some [raw])"
proof -
  have "\<exists>raw. cursor_row leap_cycle ''AUTO'' 40 None = Inr raw"
    by (simp add: cursor_row_def toISOString_def leap_cycle_def max_time_def)
  then obtain raw where raw: "cursor_row leap_cycle ''AUTO'' 40 None = Inr raw" by blast
  have "cursor_rows leap_document leap_cycle = Inr (Some [raw])"
    by (simp add: cursor_rows_def leap_document_def plan_field_def boundedNumber_def TRILLION_def add_row_def raw and_then_def
        overall_row_def unlimited_row_def)
  then show ?thesis
    using leap_read by (simp add: parseCursorPayload_def and_then_def meters_or_null_def leap_document_def)
qed

lemma leap_iso: "iso_instant leap_now"
proof -
  have "dateParse leap_now = Some 1814400000000" by (simp add: leap_now_def date_eval cong: bind_weak_cong)
  then show ?thesis
    unfolding iso_instant_def isIsoInstant_def by simp (simp add: leap_now_def date_eval)
qed

lemma leap_document_dropped:
  "\<exists>raws. parseCursorPayload leap_document leap_now = Inr (Some raws) \<and> raws \<noteq> [] \<and> normalizeMeters raws = []"
proof -
  obtain raw where raw: "parseCursorPayload leap_document leap_now = Inr (Some [raw])" using leap_parse by blast
  then have "cursor_made leap_cycle raw"
    using parseCursorPayload_Some [OF raw] leap_read by (metis list.set_intros(1) list_all_iff option.inject)
  moreover have "cycle_ok leap_cycle" "bc_now leap_cycle = leap_now" using read_cycle_ok [OF leap_read] by simp_all
  ultimately have "normalizeMeter raw = None"
    using cursor_row_kept [of leap_cycle raw] leap_iso by (simp add: leap_cycle_def)
  then show ?thesis using raw by (simp add: normalizeMeters_def)
qed

text \<open>A yearly cycle over a leap day is read and then dropped as a whole.\<close>

theorem leap_year_cycle_lost:
  "\<exists>raws. parseCursorPayload leap_document leap_now = Inr (Some raws) \<and> raws \<noteq> [] \<and> normalizeMeters raws = []"
  by (rule leap_document_dropped)

theorem cursor_rows_kept_witness:
  "\<exists>raw. parseCursorPayload leap_document leap_now = Inr (Some [raw]) \<and>
     (normalizeMeter raw \<noteq> None) =
       (1000 dvd bc_end leap_cycle - bc_start leap_cycle \<and> bc_end leap_cycle - bc_start leap_cycle \<le> 365 * 86400000)"
proof -
  obtain raw where "parseCursorPayload leap_document leap_now = Inr (Some [raw])" using leap_parse by blast
  with cursor_rows_kept [OF this leap_iso leap_read] show ?thesis by auto
qed

end
