(* ===== verification/OpenRouter.thy ===== *)
theory OpenRouter
  imports Subscriptions
begin

text \<open>
  The OpenRouter reader (connectors/openrouter.ts): the report of a key, with its limit window
  computed from the clock, the report of an account's credits, and the two together. A clock is
  split into its calendar parts with the arithmetic of \<open>Dates\<close>; \<open>Date.UTC\<close> reads the years 0 to
  99 as 1900 to 1999.
\<close>

section \<open>Limit windows\<close>

definition openrouterLabels :: connector_labels where
  "openrouterLabels =
     \<lparr>lab_credentialOrigin = UserKey, lab_dataInterfaceStatus = DocumentedApiInterface,
      lab_automationRisk = LowRisk, lab_verification = UNVERIFIED, lab_verificationEvidence = None\<rparr>"

definition utc_year :: "int \<Rightarrow> int" where
  "utc_year y = (if 0 \<le> y \<and> y \<le> 99 then 1900 + y else y)"

text \<open>The day of \<open>Date.UTC\<close> with a month from 1 to 13 and any day of the month.\<close>

definition utc_day :: "int \<Rightarrow> nat \<Rightarrow> int \<Rightarrow> int" where
  "utc_day y m d =
     (if m \<le> 12 then day_of_date (utc_year y) m 1 else day_of_date (utc_year y + 1) (m - 12) 1) + d - 1"

definition DAY :: int where
  "DAY = 86400000"

text \<open>The day a limit starts again, from the day of the clock.\<close>

definition reset_day :: "string \<Rightarrow> int \<Rightarrow> int option" where
  "reset_day period day =
     (let y = year_from_day day; (m, d) = month_day (month_lengths y) (day - day_from_year y) 1
      in if period = ''daily'' then Some (utc_day y m (int d + 1))
         else if period = ''weekly'' then
           let weekday = (day + 4) mod 7; untilMonday = (8 - weekday) mod 7
           in Some (utc_day y m (int d + (if untilMonday = 0 then 7 else untilMonday)))
         else if period = ''monthly'' then Some (utc_day y (m + 1) 1)
         else None)"

definition finiteLimitWindow :: "js \<Rightarrow> string \<Rightarrow> (snapshot_window \<times> string option) option" where
  "finiteLimitWindow limitReset now =
     (case dateParse now of
        None \<Rightarrow> None
      | Some current \<Rightarrow>
          if nullish limitReset then Some (\<lparr>win_kind = Lifetime, win_durationSeconds = None\<rparr>, None)
          else
            (case limitReset of
               Str period \<Rightarrow>
                 (case reset_day period (current div DAY) of
                    None \<Rightarrow> None
                  | Some day \<Rightarrow>
                      let reset = day * DAY; seconds = \<lceil>of_int (reset - current) / (1000 :: rat)\<rceil>
                      in if \<bar>reset\<bar> \<le> max_time \<and> 0 < seconds
                         then Some (\<lparr>win_kind = Fixed, win_durationSeconds = Some seconds\<rparr>, Some (iso_text reset))
                         else None)
             | _ \<Rightarrow> None))"

section \<open>Reports\<close>

definition roundedAmount :: "rat \<Rightarrow> rat" where
  "roundedAmount v = of_int (math_round (v * TRILLION)) / TRILLION"

definition openrouter_raw ::
  "string \<Rightarrow> rat \<Rightarrow> snapshot_window \<times> string option \<Rightarrow> snapshot_amounts option \<Rightarrow> string \<Rightarrow> string \<Rightarrow> raw_input" where
  "openrouter_raw meter val w amounts now expiresAt =
     \<lparr>ri_provider = OPENROUTER, ri_meter = meter, ri_value = val, ri_window = fst w, ri_resetAt = snd w,
      ri_source = DocumentedApi, ri_precision = Exact, ri_observedAt = now, ri_expiresAt = expiresAt,
      ri_labels = openrouterLabels, ri_amounts = amounts\<rparr>"

abbreviation lifetime_window :: "snapshot_window \<times> string option" where
  "lifetime_window \<equiv> (\<lparr>win_kind = Lifetime, win_durationSeconds = None\<rparr>, None)"

definition bare_meter :: "string \<Rightarrow> snapshot_availability \<Rightarrow> string \<Rightarrow> string \<Rightarrow> js" where
  "bare_meter meter availability now expiresAt =
     (let i = openrouter_raw meter 0 lifetime_window None now expiresAt
      in meter_literal i (window_js (ri_window i)) PERCENT None (Some availability))"

definition unavailableAccountBalance :: "string \<Rightarrow> string \<Rightarrow> js" where
  "unavailableAccountBalance now expiresAt = bare_meter ''ACCOUNT_BALANCE'' MissingCredentials now expiresAt"

definition usd_amounts :: "rat \<Rightarrow> rat \<Rightarrow> snapshot_amounts option" where
  "usd_amounts used limit = Some \<lparr>am_usedAmount = used, am_limitAmount = limit, am_currency = USD\<rparr>"

definition key_report :: "js \<Rightarrow> string \<Rightarrow> string \<Rightarrow> js list option" where
  "key_report data now expiresAt =
     (case (boundedNumber (prop_of data ''limit'') TRILLION, boundedNumber (prop_of data ''limit_remaining'') TRILLION,
            boundedNumber (prop_of data ''usage'') TRILLION, finiteLimitWindow (prop_of data ''limit_reset'') now) of
        (Some credits, Some remaining, Some _, Some reset) \<Rightarrow>
          if credits \<le> 0 \<or> credits < remaining then None
          else
            let used = roundedAmount (credits - remaining); percent = roundedAmount (used / credits * 100)
            in if percent < 0 \<or> 100 < percent then None
               else Some [rawMeter (openrouter_raw ''KEY_LIMIT'' percent reset (usd_amounts used credits) now expiresAt),
                          unavailableAccountBalance now expiresAt]
      | _ \<Rightarrow> None)"

definition unlimited_key_report :: "js \<Rightarrow> string \<Rightarrow> string \<Rightarrow> js list option" where
  "unlimited_key_report data now expiresAt =
     (if boundedNumber (prop_of data ''usage'') TRILLION = None then None
      else Some [bare_meter ''KEY_LIMIT'' Unlimited now expiresAt, unavailableAccountBalance now expiresAt])"

definition credit_report :: "js \<Rightarrow> string \<Rightarrow> string \<Rightarrow> js list option" where
  "credit_report data now expiresAt =
     (case (boundedNumber (prop_of data ''total_credits'') TRILLION, boundedNumber (prop_of data ''total_usage'') TRILLION) of
        (Some credits, Some usage) \<Rightarrow>
          if credits \<le> 0 \<or> credits < usage then None
          else Some [rawMeter (openrouter_raw ''ACCOUNT_BALANCE'' (usage / credits * 100) lifetime_window
                                 (usd_amounts usage credits) now expiresAt)]
      | _ \<Rightarrow> None)"

definition parseOneOpenrouterPayload :: "js \<Rightarrow> string \<Rightarrow> js list option result" where
  "parseOneOpenrouterPayload payload now =
     (let data = prop_of payload ''data''; keyResponse = (\<not> has_key data ''total_credits'' \<and> \<not> has_key data ''total_usage'') in
      if \<not> isRecord data then Inr None
      else rbind (shortExpiry now) (\<lambda>expiry.
        case expiry of
          None \<Rightarrow> Inr None
        | Some expiresAt \<Rightarrow>
            Inr (if keyResponse \<and> prop_of data ''limit'' = Null then unlimited_key_report data now expiresAt
                 else if keyResponse then key_report data now expiresAt
                 else credit_report data now expiresAt)))"

definition measured_balance :: "js \<Rightarrow> bool" where
  "measured_balance meter \<longleftrightarrow>
     prop_of meter ''meter'' = Str ''ACCOUNT_BALANCE'' \<and> prop_of meter ''availability'' = Undefined"

text \<open>With the key report before it, the placeholder balance gives way to the measured one.\<close>

definition parseOpenrouterPayload :: "js \<Rightarrow> string \<Rightarrow> js list option \<Rightarrow> js list option result" where
  "parseOpenrouterPayload payload now previous =
     (case previous of
        Some (key # _ # _) \<Rightarrow>
          rbind (parseOneOpenrouterPayload key now) (\<lambda>keyRows.
          rbind (parseOneOpenrouterPayload payload now) (\<lambda>creditRows.
            let balance = (case creditRows of None \<Rightarrow> [] | Some rows \<Rightarrow> filter measured_balance rows)
            in case keyRows of
                 None \<Rightarrow> Inr None
               | Some rows \<Rightarrow>
                   if balance = [] then Inr (Some rows)
                   else Inr (Some (filter (\<lambda>meter. prop_of meter ''meter'' \<noteq> Str ''ACCOUNT_BALANCE'') rows @ balance))))
      | _ \<Rightarrow> parseOneOpenrouterPayload payload now)"

definition openrouter_read :: "js \<Rightarrow> string \<Rightarrow> connector_result result" where
  "openrouter_read = connector_read (\<lambda>payload now. parseOpenrouterPayload payload now None) None"

section \<open>A limit starts again at the next day, week or month\<close>

lemma day_parts:
  assumes "month_day (month_lengths (year_from_day day)) (day - day_from_year (year_from_day day)) 1 = (m, d)"
  shows "1 \<le> m" "m \<le> 12" "1 \<le> d" "int d \<le> month_lengths (year_from_day day) ! (m - 1)"
    "day_of_date (year_from_day day) m 1 = day - int d + 1"
  using day_of_date_month_day [OF assms year_from_day_spec] by (auto simp: day_of_date_def)

lemma next_month:
  assumes "1 \<le> m" "m \<le> 12"
  shows "(if m < 12 then day_of_date y (m + 1) 1 else day_of_date (y + 1) 1 1) = day_of_date y m 1 + month_lengths y ! (m - 1)"
proof (cases "m < 12")
  case True
  have "length (month_lengths y) = 12" by (simp add: month_lengths_def)
  then have "sum_list (take (Suc (m - 1)) (month_lengths y)) = sum_list (take (m - 1) (month_lengths y)) + month_lengths y ! (m - 1)"
    using True by (simp add: take_Suc_conv_app_nth)
  moreover have "Suc (m - 1) = m" using assms(1) by simp
  ultimately show ?thesis using True by (simp add: day_of_date_def)
next
  case False
  with assms(2) have "m = 12" by simp
  then show ?thesis by (simp add: day_of_date_def day_from_year_step month_lengths_def)
qed

text \<open>The first days of the months follow one another: none lies between the first of a month and the first of the next.\<close>

lemma first_of_month:
  assumes "1 \<le> m" "m \<le> 12"
  shows "day_from_year y \<le> day_of_date y m 1" "day_of_date y m 1 \<le> day_from_year (y + 1)"
proof -
  have "sum_list (take 12 (month_lengths y)) = (if leap_year y then 366 else 365)" by (simp add: month_lengths_def)
  then show "day_from_year y \<le> day_of_date y m 1" "day_of_date y m 1 \<le> day_from_year (y + 1)"
    using month_prefix_mono [of 0 "m - 1" y] month_prefix_mono [of "m - 1" 12 y] assms(2)
    unfolding day_of_date_def day_from_year_step by simp_all
qed

lemma no_month_between:
  assumes "1 \<le> m" "m \<le> 12" "1 \<le> m'" "m' \<le> 12" "day_of_date y m 1 < day_of_date y' m' 1"
  shows "(if m < 12 then day_of_date y (m + 1) 1 else day_of_date (y + 1) 1 1) \<le> day_of_date y' m' 1" (is "?n \<le> _")
proof -
  consider "y' < y" | "y' = y" | "y < y'" by linarith
  then show ?thesis
  proof cases
    case 1
    then have "day_from_year (y' + 1) \<le> day_from_year y" by (intro day_from_year_mono) simp
    then show ?thesis using first_of_month [OF assms(1,2), of y] first_of_month [OF assms(3,4), of y'] assms(5) by linarith
  next
    case 2
    have "m < m'"
    proof (rule ccontr)
      assume "\<not> m < m'"
      then have "day_of_date y m' 1 \<le> day_of_date y m 1"
        using month_prefix_mono [of "m' - 1" "m - 1" y] by (simp add: day_of_date_def)
      then show False using assms(5) 2 by simp
    qed
    then show ?thesis
      using month_prefix_mono [of m "m' - 1" y] assms(4) 2 by (simp add: day_of_date_def)
  next
    case 3
    then have "day_from_year (y + 1) \<le> day_from_year y'" by (intro day_from_year_mono) simp
    moreover have "?n \<le> day_from_year (y + 1)"
      using first_of_month(2) [of "m + 1" y] by (simp add: day_of_date_def [of "y + 1"])
    ultimately show ?thesis using first_of_month(1) [OF assms(3,4), of y'] by linarith
  qed
qed

lemma utc_day_plain: "100 \<le> y \<Longrightarrow> m \<le> 12 \<Longrightarrow> utc_day y m d = day_of_date y m 1 + d - 1"
  by (simp add: utc_day_def utc_year_def)

lemma monday_ahead:
  fixes day :: int
  assumes "next = day + (if (8 - (day + 4) mod 7) mod 7 = 0 then 7 else (8 - (day + 4) mod 7) mod 7)"
  shows "day < next \<and> next \<le> day + 7 \<and> (next + 4) mod 7 = 1"
proof -
  define w k where "w = (day + 4) mod 7" and "k = (if (8 - w) mod 7 = 0 then 7 else (8 - w) mod 7)"
  have "0 \<le> w" "w < 7" by (simp_all add: w_def)
  then consider "w = 0" | "w = 1" | "w = 2" | "w = 3" | "w = 4" | "w = 5" | "w = 6" by linarith
  then have k: "0 < k \<and> k \<le> 7 \<and> (w + k) mod 7 = 1" by cases (simp_all add: k_def)
  have later: "next = day + k" using assms by (simp add: k_def w_def)
  have "(next + 4) mod 7 = (w + k) mod 7" using mod_add_right_eq [of k "day + 4" 7] by (simp add: later w_def algebra_simps)
  with k later show ?thesis by simp
qed

lemma reset_day_ahead:
  assumes "reset_day period day = Some next" "100 \<le> year_from_day day"
  shows "period = ''daily'' \<and> next = day + 1 \<or>
    period = ''weekly'' \<and> day < next \<and> next \<le> day + 7 \<and> (next + 4) mod 7 = 1 \<or>
    period = ''monthly'' \<and> day < next \<and> next \<le> day + 31 \<and> (\<exists>y m. 1 \<le> m \<and> m \<le> 12 \<and> next = day_of_date y m 1) \<and>
      (\<forall>y m. 1 \<le> m \<and> m \<le> 12 \<and> day < day_of_date y m 1 \<longrightarrow> next \<le> day_of_date y m 1)"
proof -
  define y where "y = year_from_day day"
  obtain m d where md: "month_day (month_lengths y) (day - day_from_year y) 1 = (m, d)" by fastforce
  note parts = day_parts [OF md [unfolded y_def], folded y_def]
  have plain: "utc_day y m e = day - int d + e" for e
    using utc_day_plain [of y m e] assms(2) parts by (simp add: y_def)
  have cases: "next = (if period = ''daily'' then utc_day y m (int d + 1)
      else if period = ''weekly'' then utc_day y m (int d + (if (8 - (day + 4) mod 7) mod 7 = 0 then 7 else (8 - (day + 4) mod 7) mod 7))
      else utc_day y (m + 1) 1)" "period \<in> {''daily'', ''weekly'', ''monthly''}"
    using assms(1) md by (auto simp: reset_day_def Let_def simp flip: y_def split: if_split_asm)
  consider "period = ''daily''" | "period = ''weekly''" | "period = ''monthly''" using cases(2) by blast
  then show ?thesis
  proof cases
    case 1
    then show ?thesis using cases(1) plain by simp
  next
    case 2
    then have "next = day + (if (8 - (day + 4) mod 7) mod 7 = 0 then 7 else (8 - (day + 4) mod 7) mod 7)"
      using cases(1) by (simp add: plain)
    from monday_ahead [OF this] 2 show ?thesis by blast
  next
    case 3
    then have "next = utc_day y (m + 1) 1" using cases(1) by simp
    also have "\<dots> = (if m < 12 then day_of_date y (m + 1) 1 else day_of_date (y + 1) 1 1)"
      using assms(2) parts(2) by (auto simp: utc_day_def utc_year_def y_def)
    finally have n: "next = (if m < 12 then day_of_date y (m + 1) 1 else day_of_date (y + 1) 1 1)" .
    then have "next = day - int d + 1 + month_lengths y ! (m - 1)" using next_month [OF parts(1,2), of y] parts(5) by simp
    moreover have "month_lengths y ! (m - 1) \<le> 31" using month_lengths_le [of "m - 1" y] parts(1,2) by simp
    moreover have "\<exists>y m. 1 \<le> m \<and> m \<le> 12 \<and> next = day_of_date y m 1"
    proof (cases "m < 12")
      case True
      then show ?thesis using n by (intro exI [of _ y] exI [of _ "m + 1"]) simp
    next
      case False
      then show ?thesis using n by (intro exI [of _ "y + 1"] exI [of _ 1]) simp
    qed
    moreover have "next \<le> day_of_date y' m' 1" if "1 \<le> m' \<and> m' \<le> 12 \<and> day < day_of_date y' m' 1" for y' m'
      unfolding n by (rule no_month_between [OF parts(1,2)]) (use that parts(3,5) in auto)
    ultimately show ?thesis using 3 parts(3,4) by auto
  qed
qed

lemma finiteLimitWindow_Some:
  assumes "finiteLimitWindow (Str period) now = Some (w, r)"
  obtains t day s where "dateParse now = Some t" "reset_day period (t div DAY) = Some day" "0 < s"
    "s = \<lceil>of_int (day * DAY - t) / (1000 :: rat)\<rceil>" "\<bar>day * DAY\<bar> \<le> max_time"
    "w = \<lparr>win_kind = Fixed, win_durationSeconds = Some s\<rparr>" "r = Some (iso_text (day * DAY))"
proof -
  obtain t where t: "dateParse now = Some t" using assms by (auto simp: finiteLimitWindow_def split: option.splits)
  then obtain day where day: "reset_day period (t div DAY) = Some day"
    using assms by (auto simp: finiteLimitWindow_def nullish_def split: option.splits)
  show thesis
    using assms by (intro that [OF t day]) (simp_all only: finiteLimitWindow_def nullish_def t day option.case js.case js.distinct
        Let_def simp_thms if_False option.inject prod.inject split: if_split_asm, simp_all)
qed

text \<open>C39: a limit window ends at a midnight ahead: the next one, the next Monday, or the next first of a month (no other
  first of a month lies between the clock and it), and its length is the time until then, in whole seconds rounded up.\<close>

theorem limit_resets_ahead:
  assumes "finiteLimitWindow (Str period) now = Some (w, r)" "dateParse now = Some t" "100 \<le> year_from_day (t div DAY)"
  shows "\<exists>day s. r = Some (iso_text (day * DAY)) \<and> t < day * DAY \<and>
    (period = ''daily'' \<and> day = t div DAY + 1 \<or>
     period = ''weekly'' \<and> day * DAY \<le> t + 7 * DAY \<and> (day + 4) mod 7 = 1 \<or>
     period = ''monthly'' \<and> (\<exists>y m. 1 \<le> m \<and> m \<le> 12 \<and> day = day_of_date y m 1) \<and>
       (\<forall>y m. 1 \<le> m \<and> m \<le> 12 \<and> t < day_of_date y m 1 * DAY \<longrightarrow> day \<le> day_of_date y m 1)) \<and>
    w = \<lparr>win_kind = Fixed, win_durationSeconds = Some s\<rparr> \<and> (s - 1) * 1000 < day * DAY - t \<and> day * DAY - t \<le> s * 1000"
proof -
  obtain day s where d: "reset_day period (t div DAY) = Some day" "s = \<lceil>of_int (day * DAY - t) / (1000 :: rat)\<rceil>"
    "w = \<lparr>win_kind = Fixed, win_durationSeconds = Some s\<rparr>" "r = Some (iso_text (day * DAY))"
    by (rule finiteLimitWindow_Some [OF assms(1)]) (use assms(2) in auto)
  have "t = t div DAY * DAY + t mod DAY" "0 \<le> t mod DAY" "t mod DAY < DAY" by (simp_all add: DAY_def)
  then have below: "t div DAY * DAY \<le> t" "t < (t div DAY + 1) * DAY" unfolding distrib_right by linarith+
  have "t div DAY < day" using reset_day_ahead [OF d(1) assms(3)] by auto
  then have "(t div DAY + 1) * DAY \<le> day * DAY" by (simp add: DAY_def)
  then have "t < day * DAY" using below by linarith
  moreover have "(s - 1) * 1000 < day * DAY - t \<and> day * DAY - t \<le> s * 1000"
  proof -
    have "of_int (s - 1) < of_int (day * DAY - t) / (1000 :: rat)" "of_int (day * DAY - t) / (1000 :: rat) \<le> of_int s"
      unfolding d(2) by linarith+
    then have "of_int ((s - 1) * 1000) < (of_int (day * DAY - t) :: rat)" "(of_int (day * DAY - t) :: rat) \<le> of_int (s * 1000)"
      by (simp_all add: field_simps)
    then show ?thesis by (simp only: of_int_less_iff of_int_le_iff)
  qed
  moreover have "day * DAY \<le> t + k * DAY" if "day \<le> t div DAY + k" for k
  proof -
    have "day * DAY \<le> (t div DAY + k) * DAY" using that by (simp add: DAY_def)
    then show ?thesis using below(1) by (simp add: distrib_right)
  qed
  moreover have "t div DAY < x" if "t < x * DAY" for x
  proof (rule ccontr)
    assume "\<not> t div DAY < x"
    then have "x * DAY \<le> t div DAY * DAY" by (simp add: DAY_def)
    then show False using that below(1) by linarith
  qed
  ultimately show ?thesis
    using reset_day_ahead [OF d(1) assms(3)] d(3,4) by blast
qed

theorem limit_resets_ahead_witness:
  "finiteLimitWindow (Str ''weekly'') sample_now =
     Some (\<lparr>win_kind = Fixed, win_durationSeconds = Some 396000\<rparr>, Some (iso_text 1783296000000)) \<and>
   (\<exists>day s. Some (iso_text 1783296000000) = Some (iso_text (day * DAY)) \<and> 1782900000000 < day * DAY \<and> (day + 4) mod 7 = 1 \<and> day * DAY \<le> 1782900000000 + 7 * DAY)"
proof -
  have day: "1782900000000 div DAY = 20635" "DAY \<noteq> 0" by (simp_all add: DAY_def)
  have year: "year_from_day 20635 = 2026" by code_simp
  have "reset_day ''weekly'' 20635 = Some 20640" by code_simp
  then have "finiteLimitWindow (Str ''weekly'') sample_now =
     Some (\<lparr>win_kind = Fixed, win_durationSeconds = Some 396000\<rparr>, Some (iso_text 1783296000000))"
    by (simp add: finiteLimitWindow_def sample_clock(1) nullish_def day(1)) (simp add: DAY_def max_time_def)
  with limit_resets_ahead [OF this sample_clock(1)] show ?thesis by (auto simp: day(1) year)
qed

section \<open>The rows\<close>

lemma openrouter_labels_wf: "wf_labels openrouterLabels"
  by (simp add: openrouterLabels_def wf_labels_def)

lemma openrouter_codes: "safeMeter ''KEY_LIMIT''" "safeMeter ''ACCOUNT_BALANCE''"
  by code_simp+

lemma openrouter_wf:
  assumes "shortExpiry now = Inr (Some e)" "iso_instant now" "0 \<le> v" "iso_or_none (snd w)"
  shows "wf_fields (openrouter_raw meter v w amounts now e)"
  using assms(2-) short_expiry_order [OF assms(1)] openrouter_labels_wf by (simp add: wf_fields_def openrouter_raw_def iso_or_none_def)

text \<open>A row of a report: a bare meter, a measured one, or the limit of a key with its window.\<close>

inductive openrouter_made :: "string \<Rightarrow> js \<Rightarrow> bool" for now where
  bare: "shortExpiry now = Inr (Some e) \<Longrightarrow> meter \<in> {''KEY_LIMIT'', ''ACCOUNT_BALANCE''} \<Longrightarrow>
    openrouter_made now (bare_meter meter a now e)"
| measured: "shortExpiry now = Inr (Some e) \<Longrightarrow> meter \<in> {''KEY_LIMIT'', ''ACCOUNT_BALANCE''} \<Longrightarrow> 0 \<le> v \<Longrightarrow> v \<le> 100 \<Longrightarrow>
    w = lifetime_window \<or> finiteLimitWindow u now = Some w \<Longrightarrow>
    openrouter_made now (rawMeter (openrouter_raw meter v w amounts now e))"

lemma limit_window_wf:
  assumes "finiteLimitWindow v now = Some w"
  shows "iso_or_none (snd w) \<and> (live_clock now \<longrightarrow> wf_window (fst w))"
proof (cases v)
  case (Str period)
  obtain w1 r1 where w: "w = (w1, r1)" by fastforce
  obtain t day s where t: "dateParse now = Some t" "reset_day period (t div DAY) = Some day" "0 < s"
    "s = \<lceil>of_int (day * DAY - t) / (1000 :: rat)\<rceil>" "\<bar>day * DAY\<bar> \<le> max_time"
    "fst w = \<lparr>win_kind = Fixed, win_durationSeconds = Some s\<rparr>" "snd w = Some (iso_text (day * DAY))"
    by (rule finiteLimitWindow_Some [OF assms [unfolded Str w]]) (simp add: w)
  have "wf_window (fst w)" if live: "live_clock now"
  proof -
    have "0 \<le> t" using live t(1) by (simp add: live_clock_def)
    then have "0 \<le> t div DAY" by (simp add: DAY_def)
    have "day_from_year 1970 = 0" by (simp add: day_from_year_def)
    have "1970 \<le> year_from_day (t div DAY)"
    proof (rule ccontr)
      assume "\<not> 1970 \<le> year_from_day (t div DAY)"
      then have "day_from_year (year_from_day (t div DAY) + 1) \<le> day_from_year 1970" by (intro day_from_year_mono) simp
      with year_from_day_spec(2) [of "t div DAY"] \<open>0 \<le> t div DAY\<close> \<open>day_from_year 1970 = 0\<close> show False by simp
    qed
    then have "day \<le> t div DAY + 31" using reset_day_ahead [OF t(2)] by auto
    moreover have "t div DAY * DAY \<le> t" by (simp add: DAY_def)
    ultimately have "day * DAY - t \<le> 31 * DAY" by (simp add: DAY_def) 
    then have "s \<le> 31 * 86400"
      unfolding t(4) ceiling_le_iff by (simp add: DAY_def divide_le_eq)
    then show ?thesis using t(3,6) by (simp add: wf_window_def)
  qed
  then show ?thesis using t(5,7) by (simp add: iso_instant_iso_text)
qed (use assms in \<open>auto simp: finiteLimitWindow_def nullish_def wf_window_def split: option.splits\<close>)

lemma roundedAmount_nonneg: "0 \<le> v \<Longrightarrow> 0 \<le> roundedAmount v"
proof -
  assume "0 \<le> v"
  then have "0 \<le> v * TRILLION" by (simp add: TRILLION_def)
  then have "0 \<le> math_round (v * TRILLION)" unfolding math_round_def by linarith
  then show ?thesis by (simp add: roundedAmount_def TRILLION_def)
qed

lemma key_report_made:
  assumes "key_report data now e = Some raws" "shortExpiry now = Inr (Some e)"
  shows "raws \<noteq> [] \<and> list_all (openrouter_made now) raws"
proof -
  obtain c r u w where b: "boundedNumber (prop_of data ''limit'') TRILLION = Some c" "boundedNumber (prop_of data ''limit_remaining'') TRILLION = Some r"
    "boundedNumber (prop_of data ''usage'') TRILLION = Some u" "finiteLimitWindow (prop_of data ''limit_reset'') now = Some w"
    using assms(1) by (simp add: key_report_def split: option.splits)
  define used v where "used = roundedAmount (c - r)" and "v = roundedAmount (used / c * 100)"
  have "\<not> (v < 0 \<or> 100 < v)"
    "raws = [rawMeter (openrouter_raw ''KEY_LIMIT'' v w (usd_amounts used c) now e), unavailableAccountBalance now e]"
    using assms(1) b by (simp_all add: key_report_def Let_def v_def used_def split: if_split_asm)
  then obtain amounts where k: "0 \<le> v" "v \<le> 100" "finiteLimitWindow (prop_of data ''limit_reset'') now = Some w"
    "raws = [rawMeter (openrouter_raw ''KEY_LIMIT'' v w amounts now e), unavailableAccountBalance now e]"
    using b(4) by (simp add: not_less)
  have "openrouter_made now (rawMeter (openrouter_raw ''KEY_LIMIT'' v w amounts now e))"
    using k(1-3) by (intro measured [OF assms(2)]) auto
  moreover have "openrouter_made now (unavailableAccountBalance now e)"
    unfolding unavailableAccountBalance_def by (intro bare [OF assms(2)]) simp
  ultimately show ?thesis by (simp add: k(4))
qed

lemma credit_report_made:
  assumes "credit_report data now e = Some raws" "shortExpiry now = Inr (Some e)"
  shows "raws \<noteq> [] \<and> list_all (openrouter_made now) raws"
proof -
  obtain c u amounts where k: "boundedNumber (prop_of data ''total_usage'') TRILLION = Some u" "0 < c" "u \<le> c"
    "raws = [rawMeter (openrouter_raw ''ACCOUNT_BALANCE'' (u / c * 100) lifetime_window amounts now e)]"
    using assms(1) by (auto simp: credit_report_def not_le not_less split: option.splits if_split_asm)
  have "0 \<le> u" using boundedNumber_range [OF k(1)] by simp
  then have "0 \<le> u / c * 100" "u / c * 100 \<le> 100" using k(2,3) by (simp_all add: divide_le_eq)
  then have "openrouter_made now (rawMeter (openrouter_raw ''ACCOUNT_BALANCE'' (u / c * 100) lifetime_window amounts now e))"
    by (intro measured [OF assms(2)]) auto
  then show ?thesis by (simp add: k(4))
qed

lemma unlimited_report_made:
  assumes "unlimited_key_report data now e = Some raws" "shortExpiry now = Inr (Some e)"
  shows "raws \<noteq> [] \<and> list_all (openrouter_made now) raws"
proof -
  have "raws = [bare_meter ''KEY_LIMIT'' Unlimited now e, unavailableAccountBalance now e]"
    using assms(1) by (simp add: unlimited_key_report_def split: if_split_asm)
  moreover have "openrouter_made now (bare_meter meter a now e)" if "meter \<in> {''KEY_LIMIT'', ''ACCOUNT_BALANCE''}" for meter a
    by (rule bare [OF assms(2) that])
  ultimately show ?thesis by (simp add: unavailableAccountBalance_def)
qed

lemma parse_one_made:
  assumes "parseOneOpenrouterPayload payload now = Inr (Some raws)"
  shows "raws \<noteq> [] \<and> list_all (openrouter_made now) raws"
proof -
  obtain e data where e: "shortExpiry now = Inr (Some e)"
    and r: "unlimited_key_report data now e = Some raws \<or> key_report data now e = Some raws \<or> credit_report data now e = Some raws"
    using assms by (auto simp: parseOneOpenrouterPayload_def Let_def rbind_Inr_iff split: option.splits if_split_asm)
  show ?thesis using r unlimited_report_made [OF _ e] key_report_made [OF _ e] credit_report_made [OF _ e] by blast
qed

lemma parse_openrouter_made:
  assumes "parseOpenrouterPayload payload now previous = Inr (Some raws)"
  shows "raws \<noteq> [] \<and> list_all (openrouter_made now) raws"
proof (cases "\<exists>key second rest. previous = Some (key # second # rest)")
  case True
  then obtain key second rest where p: "previous = Some (key # second # rest)" by blast
  obtain rows credit where k: "parseOneOpenrouterPayload key now = Inr (Some rows)" "parseOneOpenrouterPayload payload now = Inr credit"
      "raws = rows \<or> (\<exists>balance. credit = Some balance \<and> filter measured_balance balance \<noteq> [] \<and>
         raws = filter (\<lambda>meter. prop_of meter ''meter'' \<noteq> Str ''ACCOUNT_BALANCE'') rows @ filter measured_balance balance)"
    using assms by (auto simp: parseOpenrouterPayload_def p rbind_Inr_iff Let_def split: option.splits if_split_asm)
  note made = parse_one_made [OF k(1)] 
  from k(3) show ?thesis
  proof
    assume "\<exists>balance. credit = Some balance \<and> filter measured_balance balance \<noteq> [] \<and>
         raws = filter (\<lambda>meter. prop_of meter ''meter'' \<noteq> Str ''ACCOUNT_BALANCE'') rows @ filter measured_balance balance"
    then obtain balance where b: "credit = Some balance" "filter measured_balance balance \<noteq> []"
      "raws = filter (\<lambda>meter. prop_of meter ''meter'' \<noteq> Str ''ACCOUNT_BALANCE'') rows @ filter measured_balance balance" by blast
    then show ?thesis using made parse_one_made [of payload now balance] k(2) by (auto simp: list_all_iff)
  qed (use made in simp)
next
  case False
  then have "parseOpenrouterPayload payload now previous = parseOneOpenrouterPayload payload now"
    by (auto simp: parseOpenrouterPayload_def split: option.splits list.splits)
  then show ?thesis using assms parse_one_made by simp
qed

lemma made_normal:
  assumes "openrouter_made now raw" "iso_instant now"
  shows "\<forall>row. normalizeMeter raw = Some row \<longrightarrow> parsed_row OPENROUTER now raw row"
    and "live_clock now \<Longrightarrow> normalizeMeter raw \<noteq> None"
proof -
  obtain i u a where raw: "raw = meter_literal i (window_js (ri_window i)) PERCENT u a" "wf_fields i" "ri_provider i = OPENROUTER"
    "ri_observedAt i = now" "ri_value i \<le> 100" "safeMeter (ri_meter i)" "live_clock now \<longrightarrow> wf_window (ri_window i)"
    using assms(1)
  proof cases
    case (bare e meter a)
    then show thesis
      using openrouter_wf [OF bare(2) assms(2), where v = 0 and w = lifetime_window and amounts = None] openrouter_codes
      by (intro that [of "openrouter_raw meter 0 lifetime_window None now e" None "Some a"])
        (auto simp: bare_meter_def openrouter_raw_def wf_window_def)
  next
    case (measured e meter v w u amounts)
    have "wf_window (fst lifetime_window)" "iso_or_none (snd lifetime_window)" by (simp_all add: wf_window_def)
    with measured(6) have "iso_or_none (snd w) \<and> (live_clock now \<longrightarrow> wf_window (fst w))"
      using limit_window_wf by blast
    with measured show thesis
      using openrouter_wf [OF measured(2) assms(2), where v = v and w = w and amounts = amounts] openrouter_codes
      by (intro that [of "openrouter_raw meter v w amounts now e" None None])
        (auto simp: rawMeter_def openrouter_raw_def)
  qed
  have n: "normalizeMeter raw = map_option (literal_row i PERCENT u a) (normalizeWindow (window_js (ri_window i)))"
    using raw(2,5,6) by (simp add: raw(1) normalizeMeter_literal window_js_defined above_range_def)
  show "\<forall>row. normalizeMeter raw = Some row \<longrightarrow> parsed_row OPENROUTER now raw row"
    using parsed_row_literal [OF raw(2) window_js_defined raw(4)] raw(1,3) by metis
  show "live_clock now \<Longrightarrow> normalizeMeter raw \<noteq> None"
    using raw(7) by (simp add: n normalizeWindow_js)
qed

interpretation openrouter_reader: kept_reader "\<lambda>payload now. parseOpenrouterPayload payload now previous" OPENROUTER for previous
proof unfold_locales
  fix payload now raws raw row
  assume p: "parseOpenrouterPayload payload now previous = Inr (Some raws)" and now: "iso_instant now" and raw: "raw \<in> set raws"
    and row: "normalizeMeter raw = Some row"
  have "openrouter_made now raw" using parse_openrouter_made [OF p] raw by (simp add: list_all_iff)
  then show "parsed_row OPENROUTER now raw row" using made_normal(1) [OF _ now] row by blast
next
  fix payload now raws
  assume "parseOpenrouterPayload payload now previous = Inr (Some raws)"
  then show "raws \<noteq> []" using parse_openrouter_made by blast
next
  fix payload now raws raw
  assume p: "parseOpenrouterPayload payload now previous = Inr (Some raws)" and now: "live_clock now" and raw: "raw \<in> set raws"
  have "openrouter_made now raw" using parse_openrouter_made [OF p] raw by (simp add: list_all_iff)
  then show "normalizeMeter raw \<noteq> None" using made_normal(2) now by (simp add: live_clock_def)
qed

end
