(* ===== verification/Gate.thy ===== *)
theory Gate
  imports Claude Codex Google OpenRouter
begin

text \<open>
  The contract gate (connectors/contract-gate.ts): the one parser each provider's answer may reach,
  and an explicit outcome for every answer. The contracts of the parsers, one interpretation each
  in the theories before, say what the outcome means.
\<close>

datatype contract_unknown_reason = NoPayload | UnknownProvider | GateShapeMismatch | NoBelievableMeter

datatype contract_outcome =
    ContractOk provider_code "js list"
  | ContractUnknown provider_code contract_unknown_reason

fun parser_by_provider :: "provider_code \<Rightarrow> (js \<Rightarrow> string \<Rightarrow> js list option result) option" where
  "parser_by_provider CLAUDE = Some parseClaudePayload"
| "parser_by_provider OPENROUTER = Some (\<lambda>payload now. parseOpenrouterPayload payload now None)"
| "parser_by_provider CODEX = Some parseCodexPayload"
| "parser_by_provider CURSOR = Some parseCursorPayload"
| "parser_by_provider ANTIGRAVITY = Some parseAntigravityPayload"
| "parser_by_provider GEMINI_CLI = Some parseGeminiCliPayload"
| "parser_by_provider OPENCODE = Some parseOpencodePayload"
| "parser_by_provider GROK = Some parseGrokPayload"
| "parser_by_provider KIMI = Some parseKimiPayload"
| "parser_by_provider MANUAL = Some parseManualPayload"

definition checkProviderContract :: "provider_code \<Rightarrow> js \<Rightarrow> string \<Rightarrow> contract_outcome result" where
  "checkProviderContract provider payload now =
     (case parser_by_provider provider of
        None \<Rightarrow> Inr (ContractUnknown provider UnknownProvider)
      | Some parser \<Rightarrow>
          if nullish payload then Inr (ContractUnknown provider NoPayload)
          else rbind (parser payload now) (\<lambda>meters.
            case meters of
              None \<Rightarrow> Inr (ContractUnknown provider GateShapeMismatch)
            | Some raws \<Rightarrow>
                if normalizeMeters raws = [] then Inr (ContractUnknown provider NoBelievableMeter)
                else Inr (ContractOk provider raws)))"

definition isContractUnknown :: "contract_outcome \<Rightarrow> bool" where
  "isContractUnknown outcome = (case outcome of ContractUnknown _ _ \<Rightarrow> True | ContractOk _ _ \<Rightarrow> False)"

section \<open>Every provider has a parser that keeps its contract\<close>

lemma parser_contract: "parser_by_provider p = Some parser \<Longrightarrow> payload_reader parser p"
  by (cases p)
    (auto intro: claude_reader.payload_reader_axioms openrouter_reader.payload_reader_axioms codex_reader.payload_reader_axioms
      cursor_reader.payload_reader_axioms antigravity_reader.payload_reader_axioms gemini_reader.payload_reader_axioms
      opencode_reader.payload_reader_axioms grok_reader.payload_reader_axioms kimi_reader.payload_reader_axioms
      manual_reader.payload_reader_axioms)

lemma parser_kept:
  "parser_by_provider p = Some parser \<Longrightarrow> p \<notin> {CLAUDE, CODEX, CURSOR} \<Longrightarrow> kept_reader parser p"
  by (cases p)
    (auto intro: openrouter_reader.kept_reader_axioms antigravity_reader.kept_reader_axioms gemini_reader.kept_reader_axioms
      opencode_reader.kept_reader_axioms grok_reader.kept_reader_axioms kimi_reader.kept_reader_axioms
      manual_reader.kept_reader_axioms)

lemma checkProviderContract_cases:
  assumes "checkProviderContract p payload now = Inr outcome"
  obtains parser where "parser_by_provider p = Some parser"
    "outcome = ContractUnknown p NoPayload \<and> nullish payload \<or>
     outcome = ContractUnknown p GateShapeMismatch \<and> parser payload now = Inr None \<or>
     (\<exists>raws. parser payload now = Inr (Some raws) \<and>
        (outcome = ContractUnknown p NoBelievableMeter \<and> normalizeMeters raws = [] \<or>
         outcome = ContractOk p raws \<and> normalizeMeters raws \<noteq> []))"
proof -
  obtain parser where parser: "parser_by_provider p = Some parser" by (cases p) auto
  show thesis
  proof (cases "nullish payload")
    case True
    then show thesis using assms parser by (intro that [OF parser]) (simp add: checkProviderContract_def)
  next
    case False
    then obtain meters where "parser payload now = Inr meters"
      using assms parser by (auto simp: checkProviderContract_def rbind_Inr_iff)
    with False show thesis
      using assms parser by (intro that [OF parser], cases meters) (auto simp: checkProviderContract_def split: if_split_asm)
  qed
qed

text \<open>C3: an answer that passes the gate has a row for its own provider, and every row the normalizer makes of it is
  that provider's, observed at the clock of the read and claimed by no account and no writer.\<close>

theorem gate_ok_rows:
  assumes "checkProviderContract p payload now = Inr (ContractOk q raws)" "iso_instant now"
  shows "q = p \<and> normalizeMeters raws \<noteq> [] \<and>
    (\<forall>row \<in> set (normalizeMeters raws).
       sn_provider row = p \<and> sn_observedAt row = now \<and> sn_accountId row = None \<and> sn_writer row = None)"
proof -
  obtain parser where parser: "parser_by_provider p = Some parser" "parser payload now = Inr (Some raws)" "q = p" "normalizeMeters raws \<noteq> []"
    by (rule checkProviderContract_cases [OF assms(1)]) auto
  show ?thesis
    using parser(3,4) payload_reader.rows_of_provider [OF parser_contract [OF parser(1)] parser(2) assms(2)] by blast
qed

text \<open>Only three providers can answer in a shape their parser reads and still have nothing the normalizer keeps:
  for the others the gate's last refusal cannot happen on a clock of the years since 1970.\<close>

theorem unbelievable_answers:
  assumes "checkProviderContract p payload now = Inr (ContractUnknown q NoBelievableMeter)" "live_clock now"
  shows "q = p \<and> p \<in> {CLAUDE, CODEX, CURSOR}"
proof -
  obtain parser raws where parser: "parser_by_provider p = Some parser" "parser payload now = Inr (Some raws)" "q = p" "normalizeMeters raws = []"
    by (rule checkProviderContract_cases [OF assms(1)]) auto
  have "p \<in> {CLAUDE, CODEX, CURSOR}"
  proof (rule ccontr)
    assume "p \<notin> {CLAUDE, CODEX, CURSOR}"
    from kept_reader.kept_some [OF parser_kept [OF parser(1) this] parser(2) assms(2)] parser(4) show False by blast
  qed
  with parser(3) show ?thesis by blast
qed

text \<open>Every provider has a reader, so no answer is unknown for want of one.\<close>

lemma no_unknown_provider: "checkProviderContract p payload now \<noteq> Inr (ContractUnknown q UnknownProvider)"
proof
  assume "checkProviderContract p payload now = Inr (ContractUnknown q UnknownProvider)"
  then show False by (rule checkProviderContract_cases) auto
qed

section \<open>Two answers at the gate\<close>

definition manual_document :: js where
  "manual_document =
     Obj [(''meters'', Arr [Obj [(''name'', Str ''MONTHLY''), (''used_percent'', Num (Fin 35)),
                                (''reset_at'', Str ''2026-07-06T00:00:00Z'')]])]"

lemma manual_document_parsed: "\<exists>raw. parseManualPayload manual_document sample_now = Inr (Some [raw])"
proof -
  have "futureInstant (Str ''2026-07-06T00:00:00Z'') sample_now = Some (iso_text 1783296000000)"
    by (simp add: futureInstant_def sample_monday sample_clock(1) date_text_eq_Some max_time_def)
  moreover have "safeMeter ''MONTHLY''" by code_simp
  ultimately show ?thesis
    by (simp add: parseManualPayload_def sample_clock(2) manual_document_def manual_entry_def boundedNumber_def meters_or_null_def
        MAX_ENTRIES_def)
qed

lemma sample_live: "live_clock sample_now" "live_clock leap_now"
proof -
  have "dateParse leap_now = Some 1814400000000" by (simp add: leap_now_def date_eval cong: bind_weak_cong)
  then show "live_clock leap_now" "live_clock sample_now" by (simp_all add: live_clock_def sample_clock leap_iso)
qed

theorem gate_ok_rows_witness:
  "\<exists>raws. checkProviderContract MANUAL manual_document sample_now = Inr (ContractOk MANUAL raws) \<and>
     normalizeMeters raws \<noteq> [] \<and> (\<forall>row \<in> set (normalizeMeters raws). sn_provider row = MANUAL)"
proof -
  obtain raw where raw: "parseManualPayload manual_document sample_now = Inr (Some [raw])" using manual_document_parsed by blast
  have "normalizeMeters [raw] \<noteq> []" by (rule manual_reader.kept_some [OF raw sample_live(1)])
  then have "checkProviderContract MANUAL manual_document sample_now = Inr (ContractOk MANUAL [raw])"
    by (simp add: checkProviderContract_def raw) (simp add: nullish_def manual_document_def)
  with gate_ok_rows [OF this sample_clock(3)] show ?thesis by blast
qed

theorem unbelievable_answers_witness:
  "checkProviderContract CURSOR leap_document leap_now = Inr (ContractUnknown CURSOR NoBelievableMeter) \<and>
   CURSOR \<in> {CLAUDE, CODEX, CURSOR}"
proof -
  obtain raws where "parseCursorPayload leap_document leap_now = Inr (Some raws)" "normalizeMeters raws = []"
    using leap_document_dropped by blast
  then have "checkProviderContract CURSOR leap_document leap_now = Inr (ContractUnknown CURSOR NoBelievableMeter)"
    by (simp add: checkProviderContract_def) (simp add: nullish_def leap_document_def)
  with unbelievable_answers [OF this sample_live(2)] show ?thesis by blast
qed

end
