(* ===== verification/Galois.thy ===== *)
theory Galois
  imports Prelude "HOL-Library.Word"
begin

text \<open>
  The arithmetic of the QR encoder (qr.ts): the field of 256 elements by its exponential and
  logarithm tables, the generator polynomial, and the error correction codewords of a block.
  The loops that fill the typed arrays are folds over list updates. The laws the coding theory
  needs are the locale \<open>byte_field\<close>, discharged by the code's table multiplication.
\<close>

unbundle bit_operations_syntax

type_synonym byte = "8 word"

section \<open>The tables\<close>

text \<open>A read of a typed array with the fallback \<open>?? 0\<close>.\<close>

definition at0 :: "byte list \<Rightarrow> nat \<Rightarrow> byte" where
  "at0 xs i = (if i < length xs then xs ! i else 0)"

text \<open>The body of the loop over 0 to 254: the current value is a 32 bit integer of JavaScript.\<close>

definition next_value :: "32 word \<Rightarrow> 32 word" where
  "next_value value0 =
     (let value = push_bit 1 value0 in if value AND 0x100 \<noteq> 0 then value XOR 0x11d else value)"

fun table_step :: "nat \<Rightarrow> byte list \<times> byte list \<times> 32 word \<Rightarrow> byte list \<times> byte list \<times> 32 word" where
  "table_step i (exps, logs, value) = (exps[i := ucast value], logs[unat value := of_nat i], next_value value)"

definition tables :: "byte list \<times> byte list \<times> 32 word" where
  "tables = fold table_step [0..<255] (replicate 512 0, replicate 256 0, 1)"

definition EXP :: "byte list" where
  "EXP = fold (\<lambda>i exps. exps[i := at0 exps (i - 255)]) [255..<512] (fst tables)"

definition LOG :: "byte list" where
  "LOG = fst (snd tables)"

definition multiply :: "byte \<Rightarrow> byte \<Rightarrow> byte" where
  "multiply left right =
     (if left = 0 \<or> right = 0 then 0
      else at0 EXP ((unat (at0 LOG (unat left)) + unat (at0 LOG (unat right))) mod 255))"

section \<open>The code\<close>

definition add_product :: "byte list \<Rightarrow> nat \<Rightarrow> nat \<Rightarrow> byte list \<Rightarrow> byte list" where
  "add_product polynomial index position next0 =
     (let coefficient = at0 polynomial position;
          next1 = next0[position := at0 next0 position XOR coefficient]
      in next1[position + 1 := at0 next1 (position + 1) XOR multiply coefficient (at0 EXP index)])"

definition times_root :: "nat \<Rightarrow> byte list \<Rightarrow> byte list" where
  "times_root index polynomial =
     fold (add_product polynomial index) [0..<length polynomial] (replicate (length polynomial + 1) 0)"

definition generatorPolynomial :: "nat \<Rightarrow> byte list" where
  "generatorPolynomial degree = fold times_root [0..<degree] [1]"

text \<open>\<open>copyWithin(0, 1)\<close>: every element but the first moves one place down, the last stays.\<close>

definition copy_down :: "byte list \<Rightarrow> byte list" where
  "copy_down xs = (if xs = [] then [] else tl xs @ [last xs])"

definition take_byte :: "byte list \<Rightarrow> nat \<Rightarrow> byte \<Rightarrow> byte list \<Rightarrow> byte list" where
  "take_byte generator count b remainder =
     (let factor = b XOR at0 remainder 0
      in fold (\<lambda>index r. r[index := at0 r index XOR multiply (at0 generator (index + 1)) factor])
           [0..<count] ((copy_down remainder)[count - 1 := 0]))"

definition errorCorrectionCodewords :: "byte list \<Rightarrow> nat \<Rightarrow> byte list" where
  "errorCorrectionCodewords data count =
     fold (take_byte (generatorPolynomial count) count) data (replicate count 0)"

section \<open>Polynomials over a byte field\<close>

text \<open>A list of bytes is a polynomial with its highest coefficient first; this is its value.\<close>

definition value_at :: "(byte \<Rightarrow> byte \<Rightarrow> byte) \<Rightarrow> byte list \<Rightarrow> byte \<Rightarrow> byte" where
  "value_at mul cs x = foldl (\<lambda>acc c. mul acc x XOR c) 0 cs"

definition xor_list :: "byte list \<Rightarrow> byte list \<Rightarrow> byte list" where
  "xor_list xs ys = map2 (\<lambda>x y. x XOR y) xs ys"

fun power_at :: "(byte \<Rightarrow> byte \<Rightarrow> byte) \<Rightarrow> byte \<Rightarrow> nat \<Rightarrow> byte" where
  "power_at mul x 0 = 1"
| "power_at mul x (Suc n) = mul (power_at mul x n) x"

lemma xor_eq_0: "a XOR b = 0 \<Longrightarrow> a = (b :: byte)"
proof -
  assume "a XOR b = 0"
  then have "(a XOR b) XOR b = 0 XOR b" by simp
  then show "a = b" by (simp only: xor.assoc xor_self_eq xor.left_neutral xor.right_neutral)
qed

text \<open>The laws: what the coding theory asks of a multiplication of bytes.\<close>

locale byte_field =
  fixes mul :: "byte \<Rightarrow> byte \<Rightarrow> byte"
  assumes mul_commute: "mul a b = mul b a"
    and mul_assoc: "mul (mul a b) c = mul a (mul b c)"
    and mul_xor: "mul (a XOR b) c = mul a c XOR mul b c"
    and mul_one: "mul 1 a = a"
begin

lemma mul_zero: "mul 0 a = 0"
  using mul_xor [of 0 0 a] by simp

lemma mul_xor_right: "mul c (a XOR b) = mul c a XOR mul c b"
  by (metis mul_commute mul_xor)

lemma value_Nil [simp]: "value_at mul [] x = 0"
  by (simp add: value_at_def)

lemma value_snoc [simp]: "value_at mul (cs @ [c]) x = mul (value_at mul cs x) x XOR c"
  by (simp add: value_at_def)

lemma value_append:
  "value_at mul (xs @ ys) x = mul (value_at mul xs x) (power_at mul x (length ys)) XOR value_at mul ys x"
proof (induction ys rule: rev_induct)
  case Nil
  then show ?case using mul_commute [of _ 1] mul_one by simp
next
  case (snoc y ys)
  have "value_at mul (xs @ ys @ [y]) x = mul (value_at mul (xs @ ys) x) x XOR y"
    using value_snoc [of "xs @ ys" y x] by simp
  then show ?case by (simp add: snoc mul_xor mul_assoc xor.assoc)
qed

lemma value_Cons:
  "value_at mul (c # cs) x = mul c (power_at mul x (length cs)) XOR value_at mul cs x"
  using value_append [of "[c]" cs x] value_snoc [of "[]" c x] by (simp add: mul_zero)

lemma value_xor:
  "length xs = length ys \<Longrightarrow> value_at mul (xor_list xs ys) x = value_at mul xs x XOR value_at mul ys x"
proof (induction xs ys rule: list_induct2)
  case (Cons a xs b ys)
  then have "length (xor_list xs ys) = length ys" by (simp add: xor_list_def)
  with Cons show ?case
    by (simp add: xor_list_def value_Cons mul_xor xor.assoc xor.left_commute)
qed (simp add: xor_list_def)

lemma value_scaled: "value_at mul (map (\<lambda>c. mul c k) cs) x = mul (value_at mul cs x) k"
  by (induction cs rule: rev_induct)
    (simp_all add: mul_zero mul_xor mul_assoc mul_commute [of k x])

lemma value_zeros [simp]: "value_at mul (replicate n 0) x = 0"
  by (induction n) (simp_all add: value_Cons mul_zero)

lemma value_root_product:
  "value_at mul (xor_list (p @ [0]) (0 # map (\<lambda>c. mul c r) p)) x = mul (value_at mul p x) (x XOR r)"
  by (simp add: value_xor value_Cons value_scaled mul_zero mul_xor_right)

lemma value_division_step:
  assumes root: "value_at mul (1 # g) x = 0" and len: "length r = length g" "r \<noteq> []"
  shows "value_at mul (xor_list (tl r @ [0]) (map (\<lambda>c. mul c (b XOR hd r)) g)) x =
    mul (value_at mul r x) x XOR mul b (power_at mul x (length g))"
proof -
  obtain r0 rs where r: "r = r0 # rs" using len(2) by (cases r) auto
  then have n: "length g = Suc (length rs)" using len(1) by simp
  have g: "value_at mul g x = power_at mul x (length g)"
    by (rule xor_eq_0) (use root in \<open>simp add: value_Cons mul_one xor.commute\<close>)
  define q where "q = mul (power_at mul x (length rs)) x"
  have q: "mul q c = mul c q" for c by (rule mul_commute)
  have "power_at mul x (length g) = q" by (simp add: n q_def)
  moreover have "value_at mul (xor_list (rs @ [0]) (map (\<lambda>c. mul c (b XOR r0)) g)) x =
      mul (value_at mul rs x) x XOR mul q (b XOR r0)"
    using n g calculation by (simp add: value_xor value_scaled)
  moreover have "mul (value_at mul r x) x = mul r0 q XOR mul (value_at mul rs x) x"
    by (simp only: r value_Cons mul_xor mul_assoc q_def)
  ultimately show ?thesis
    by (simp add: r mul_xor_right q xor.assoc xor.left_commute xor.commute)
qed

end

fun power_sum :: "(byte \<Rightarrow> byte \<Rightarrow> byte) \<Rightarrow> nat \<Rightarrow> (byte \<times> byte) list \<Rightarrow> byte" where
  "power_sum mul i [] = 0"
| "power_sum mul i ((e, x) # ps) = mul e (power_at mul x i) XOR power_sum mul i ps"

text \<open>Without zero divisors, power sums over distinct points determine their coefficients.\<close>

locale byte_domain = byte_field +
  assumes no_zero_divisors: "mul a b = 0 \<Longrightarrow> a = 0 \<or> b = 0"
begin

lemma power_sum_eliminate:
  "power_sum mul i (map (\<lambda>(f, y). (mul f (y XOR x), y)) ps) = power_sum mul (Suc i) ps XOR mul (power_sum mul i ps) x"
proof (induction ps)
  case (Cons p ps)
  obtain f y where p: "p = (f, y)" by (cases p)
  have swap: "mul (mul f z) (power_at mul y i) = mul (mul f (power_at mul y i)) z" for z
    by (simp only: mul_assoc mul_commute [of z])
  have "mul (mul f (y XOR x)) (power_at mul y i) =
      mul f (power_at mul y (Suc i)) XOR mul (mul f (power_at mul y i)) x"
    unfolding swap unfolding mul_xor_right by (simp add: mul_assoc)
  with Cons show ?case by (simp add: p mul_xor xor.assoc xor.left_commute)
qed (simp add: mul_zero)

lemma power_sum_of_zeros: "\<forall>p \<in> set ps. fst p = 0 \<Longrightarrow> power_sum mul i ps = 0"
  by (induction ps) (auto simp: mul_zero)

lemma power_sums_zero:
  "distinct (map snd ps) \<Longrightarrow> (\<And>i. i < length ps \<Longrightarrow> power_sum mul i ps = 0) \<Longrightarrow> \<forall>p \<in> set ps. fst p = 0"
proof (induction ps rule: length_induct)
  case (1 ps)
  show ?case
  proof (cases ps)
    case (Cons p qs)
    obtain e x where p: "p = (e, x)" by (cases p)
    let ?rs = "map (\<lambda>(f, y). (mul f (y XOR x), y)) qs"
    have "power_sum mul i ?rs = 0" if "i < length ?rs" for i
    proof -
      have "mul e (power_at mul x j) = power_sum mul j qs" if "j \<le> Suc i" for j
        using 1(3) [of j] that \<open>i < length ?rs\<close> by (auto intro: xor_eq_0 simp: Cons p)
      from this [of i, symmetric] this [of "Suc i", symmetric] show ?thesis
        by (simp add: power_sum_eliminate mul_assoc)
    qed
    moreover have "map snd ?rs = map snd qs" by (induction qs) auto
    then have "distinct (map snd ?rs)" using 1(2) Cons by (simp only: list.map distinct.simps)
    ultimately have "\<forall>p \<in> set ?rs. fst p = 0"
      using 1(1) [rule_format, of ?rs] by (simp only: Cons length_map list.size) simp
    then have qs: "f = 0" if "(f, y) \<in> set qs" for f y
      using that 1(2) no_zero_divisors [of f "y XOR x"] xor_eq_0 [of y x] by (force simp: Cons p)
    then have "power_sum mul i qs = 0" for i by (intro power_sum_of_zeros) auto
    then have "e = 0" using 1(3) [of 0] mul_one [of e] by (simp add: Cons p mul_commute [of e 1])
    with qs show ?thesis by (auto simp: Cons p)
  qed simp
qed

end

section \<open>The powers of two\<close>

text \<open>Multiplication by the generator of the field, on bytes.\<close>

definition xtime :: "byte \<Rightarrow> byte" where
  "xtime v = push_bit 1 v XOR (if bit v 7 then 0x1d else 0)"

definition alpha :: "nat \<Rightarrow> byte" where
  "alpha i = (xtime ^^ i) 1"

lemma xtime_xor: "xtime (a XOR b) = xtime a XOR xtime b"
  by (simp add: xtime_def push_bit_xor bit_xor_iff xor.assoc xor.left_commute xor.commute)

lemma xtime_0 [simp]: "xtime 0 = 0"
  by (simp add: xtime_def)

lemma xtime_pow_xor: "(xtime ^^ n) (a XOR b) = (xtime ^^ n) a XOR (xtime ^^ n) b"
  by (induction n) (simp_all add: xtime_xor)

lemma xtime_pow_0 [simp]: "(xtime ^^ n) 0 = 0"
  by (induction n) simp_all

lemma funpow_numeral_start: "(f ^^ numeral k) x = (f ^^ pred_numeral k) (f x)"
  by (simp add: numeral_eq_Suc funpow_swap1)

lemma alpha_orders: "alpha 15 \<noteq> 1" "alpha 51 \<noteq> 1" "alpha 85 \<noteq> 1" "alpha 255 = 1"
  by (simp_all add: alpha_def xtime_def funpow_numeral_start)

lemma alpha_0 [simp]: "alpha 0 = 1"
  by (simp add: alpha_def)

lemma alpha_Suc: "alpha (Suc i) = xtime (alpha i)"
  by (simp add: alpha_def)

lemma xtime_pow_alpha: "(xtime ^^ m) (alpha n) = alpha (m + n)"
  by (simp add: alpha_def funpow_add)

lemma alpha_multiple: "alpha m = 1 \<Longrightarrow> alpha (k * m + n) = alpha n"
proof (induction k)
  case (Suc k)
  have "alpha (Suc k * m + n) = (xtime ^^ (k * m + n)) (alpha m)"
    by (simp add: xtime_pow_alpha add.commute add.left_commute)
  also have "\<dots> = alpha (k * m + n)" using Suc.prems by (simp add: alpha_def)
  finally show ?case using Suc by simp
qed simp

lemma alpha_mod: "alpha (i mod 255) = alpha i"
  using alpha_multiple [OF alpha_orders(4), of "i div 255" "i mod 255"] by simp

text \<open>No smaller exponent gives one: its greatest common divisor with 255 would divide 15, 51 or 85.\<close>

lemma alpha_gcd:
  assumes "alpha m = 1"
  shows "alpha (gcd m 255) = 1"
proof (cases "m = 0")
  case False
  obtain x y where xy: "m * x = 255 * y + gcd m 255"
    using bezout_nat [OF False, of 255] by auto
  have "alpha (gcd m 255) = alpha (y * 255 + gcd m 255)"
    by (simp add: alpha_multiple [OF alpha_orders(4)])
  also have "\<dots> = alpha (x * m + 0)" using xy by (simp add: mult.commute)
  also have "\<dots> = 1" using alpha_multiple [OF assms, of x 0] by simp
  finally show ?thesis .
qed (use alpha_orders in simp)

lemma divisors_255:
  assumes "d dvd 255" "d < (255::nat)"
  shows "d dvd 15 \<or> d dvd 51 \<or> d dvd 85"
proof -
  have "\<forall>d<255. d dvd 255 \<longrightarrow> d dvd 15 \<or> d dvd 51 \<or> d dvd (85::nat)" by code_simp
  with assms show ?thesis by blast
qed

lemma alpha_order: "0 < m \<Longrightarrow> m < 255 \<Longrightarrow> alpha m \<noteq> 1"
proof
  assume m: "0 < m" "m < 255" and one: "alpha m = 1"
  define d where "d = gcd m 255"
  have "d dvd 255" "d < 255" using m by (auto simp: d_def intro: le_less_trans [OF gcd_le1_nat])
  moreover have "alpha e = 1" if "d dvd e" for e
    using that alpha_multiple [OF alpha_gcd [OF one], of _ 0] by (auto simp: d_def mult.commute elim!: dvdE)
  ultimately show False using divisors_255 [of d] alpha_orders by blast
qed

lemma xtime_inj: "xtime a = xtime b \<Longrightarrow> a = b"
proof -
  assume "xtime a = xtime b"
  then have "xtime (a XOR b) = 0" by (simp add: xtime_xor)
  moreover have "v = 0" if "xtime v = 0" for v
  proof -
    have "bit (xtime v) 0 = bit v 7" by (simp add: xtime_def bit_xor_iff bit_0 even_xor_iff)
    with that have "\<not> bit v 7" by simp
    with that have p: "push_bit 1 v = 0" by (simp add: xtime_def)
    have "bit (push_bit 1 v) (Suc n) = bit v n" if "n < 7" for n
      using that by (simp add: bit_push_bit_iff del: push_bit_Suc push_bit_of_1)
    with p have "\<not> bit v n" if "n < 7" for n using that by simp
    with \<open>\<not> bit v 7\<close> have "\<not> bit v n" if "n < 8" for n using that by (cases "n = 7") auto
    then show "v = 0" by (auto intro!: bit_word_eqI)
  qed
  ultimately have "a XOR b = 0" by blast
  then show "a = b" by (rule xor_eq_0)
qed

lemma alpha_inj: "i < 255 \<Longrightarrow> j < 255 \<Longrightarrow> alpha i = alpha j \<Longrightarrow> i = j"
proof (induction i arbitrary: j)
  case 0
  then show ?case using alpha_order [of j] by force
next
  case (Suc i)
  show ?case
  proof (cases j)
    case 0
    with Suc.prems show ?thesis using alpha_order [of "Suc i"] by simp
  next
    case (Suc j')
    with Suc.IH [of j'] Suc.prems show ?thesis by (auto simp: alpha_Suc dest: xtime_inj)
  qed
qed

lemma alpha_nonzero: "alpha i \<noteq> 0"
proof (induction i)
  case (Suc i)
  then show ?case using xtime_inj [of "alpha i" 0] by (auto simp: alpha_Suc)
qed simp

lemma alpha_onto:
  assumes "v \<noteq> 0"
  obtains i where "i < 255" "v = alpha i"
proof -
  have "inj_on alpha {..<255}" by (auto intro!: inj_onI dest: alpha_inj)
  then have "card (alpha ` {..<255}) = 255" by (simp add: card_image)
  moreover have "alpha ` {..<255} \<subseteq> UNIV - {0}" using alpha_nonzero by auto
  moreover have "card (UNIV - {0 :: byte}) = 255" by (simp add: card_Diff_singleton card_word)
  ultimately have "alpha ` {..<255} = UNIV - {0}" by (intro card_subset_eq) auto
  with assms that show ?thesis by auto
qed

lemma next_value_ucast: "next_value (ucast a) = ucast (xtime a)"
proof -
  define w where "w = push_bit 1 (ucast a :: 32 word)"
  have bits: "bit w n = (0 < n \<and> n < 9 \<and> bit a (n - 1))" for n
    by (auto simp: w_def bit_push_bit_iff bit_unsigned_iff dest: bit_imp_le_length simp del: push_bit_Suc push_bit_of_1)
  have "(w AND 0x100 \<noteq> 0) = bit w 8"
    using bit_iff_and_push_bit_not_eq_0 [of w 8] by simp
  then have test: "(w AND 0x100 \<noteq> 0) = bit a 7" by (simp add: bits)
  have top: "bit (256 :: 32 word) n = (n = 8)" for n
  proof -
    have "(256 :: 32 word) = push_bit 8 1" by simp
    then show ?thesis by (simp only: bit_push_bit_iff bit_1_iff) auto
  qed
  have shifted: "ucast (push_bit 1 a) = w XOR (if bit a 7 then 256 else 0)"
  proof (rule bit_word_eqI)
    fix n
    show "bit (ucast (push_bit 1 a) :: 32 word) n = bit (w XOR (if bit a 7 then 256 else 0)) n"
      unfolding bit_xor_iff bits bit_unsigned_iff bit_push_bit_iff
      using top [of n] by (cases "n = 8") (auto dest: bit_imp_le_length)
  qed
  have "ucast (xtime a) = w XOR (if bit a 7 then 0x11d else 0)"
    unfolding xtime_def unsigned_xor_eq shifted by (simp add: xor.assoc)
  then show ?thesis unfolding next_value_def Let_def w_def [symmetric] using test by simp
qed

text \<open>What the tables hold after the first \<open>n\<close> rounds of the loop.\<close>

definition tables_upto :: "nat \<Rightarrow> byte list \<times> byte list \<times> 32 word \<Rightarrow> bool" where
  "tables_upto n t \<longleftrightarrow>
     length (fst t) = 512 \<and> length (fst (snd t)) = 256 \<and> snd (snd t) = ucast (alpha n) \<and>
     (\<forall>i<n. fst t ! i = alpha i \<and> fst (snd t) ! unat (alpha i) = of_nat i)"

lemma unat_byte_less [simp]: "unat (v :: byte) < 256"
  by (rule less_le_trans [OF unsigned_less]) simp

lemma ucast_ucast_byte: "(ucast (ucast v :: 32 word) :: byte) = v"
  by (rule bit_word_eqI) (simp add: bit_unsigned_iff)

lemma unat_ucast_byte: "unat (ucast (v :: byte) :: 32 word) = unat v"
  by (simp add: unsigned_ucast_eq take_bit_nat_eq_self_iff less_trans [OF unat_byte_less])

lemma tables_upto_step:
  assumes "tables_upto n t" "n < 255"
  shows "tables_upto (Suc n) (table_step n t)"
proof (cases t)
  case (fields exps logs v)
  have v: "v = ucast (alpha n)" using assms fields by (simp add: tables_upto_def)
  have "alpha n \<noteq> alpha i" if "i < n" for i using alpha_inj [of i n] assms that by auto
  with assms fields show ?thesis
    by (auto simp: tables_upto_def v next_value_ucast alpha_Suc ucast_ucast_byte unat_ucast_byte
        less_Suc_eq nth_list_update simp flip: word_unat_eq_iff)
qed

lemma tables_upto_fold: "n \<le> 255 \<Longrightarrow> tables_upto n (fold table_step [0..<n] (replicate 512 0, replicate 256 0, 1))"
proof (induction n)
  case 0
  then show ?case by (simp add: tables_upto_def)
next
  case (Suc n)
  then show ?case using tables_upto_step [of n] by simp
qed

lemma tables_filled: "tables_upto 255 tables"
  unfolding tables_def by (rule tables_upto_fold) simp

lemma LOG_alpha: "i < 255 \<Longrightarrow> at0 LOG (unat (alpha i)) = of_nat i"
  using tables_filled by (simp add: tables_upto_def LOG_def at0_def)

lemma EXP_upper:
  "255 \<le> n \<Longrightarrow> n \<le> 512 \<Longrightarrow> length (fold (\<lambda>i e. e[i := at0 e (i - 255)]) [255..<n] (fst tables)) = 512 \<and>
    (\<forall>i<n. fold (\<lambda>i e. e[i := at0 e (i - 255)]) [255..<n] (fst tables) ! i = alpha i)"
proof (induction n rule: dec_induct)
  case base
  then show ?case using tables_filled by (simp add: tables_upto_def)
next
  case (step n)
  have "alpha (n - 255) = alpha n" using step alpha_mod [of "n - 255"] alpha_mod [of n]
    by (simp add: mod_if [of n])
  with step show ?case by (auto simp: less_Suc_eq at0_def nth_list_update)
qed

lemma EXP_alpha: "i < 512 \<Longrightarrow> at0 EXP i = alpha i"
proof -
  assume "i < 512"
  moreover have "length EXP = 512 \<and> (\<forall>i<512. EXP ! i = alpha i)"
    unfolding EXP_def by (rule EXP_upper) simp_all
  ultimately show ?thesis by (simp add: at0_def)
qed

text \<open>Multiplication by a power of two is repeated doubling.\<close>

lemma multiply_alpha: "multiply a (alpha j) = (xtime ^^ j) a"
proof (cases "a = 0")
  case False
  then obtain i where i: "i < 255" "a = alpha i" by (rule alpha_onto)
  obtain k where k: "k < 255" "alpha k = alpha j" using alpha_mod [of j] by (intro that [of "j mod 255"]) auto
  have "multiply a (alpha j) = at0 EXP ((i + k) mod 255)"
    using i k alpha_nonzero by (simp add: multiply_def LOG_alpha flip: k(2)) (simp add: unat_of_nat)
  also have "\<dots> = alpha (k + i)" by (simp add: EXP_alpha alpha_mod add.commute less_trans [OF mod_less_divisor])
  also have "\<dots> = (xtime ^^ i) (alpha j)" using k by (simp add: add.commute flip: xtime_pow_alpha)
  also have "\<dots> = (xtime ^^ j) a" using i by (simp add: xtime_pow_alpha add.commute)
  finally show ?thesis .
qed (simp add: multiply_def)

lemma xtime_pow_zero: "(xtime ^^ n) a = 0 \<Longrightarrow> a = 0"
proof (induction n)
  case (Suc n)
  then show ?case using xtime_inj [of "(xtime ^^ n) a" 0] by simp
qed simp

lemma multiply_0 [simp]: "multiply a 0 = 0" "multiply 0 a = 0"
  by (simp_all add: multiply_def)

interpretation gf: byte_domain multiply
proof
  fix a b c :: byte
  show commute: "multiply a b = multiply b a" for a b by (simp add: multiply_def add.commute)
  show "multiply (a XOR b) c = multiply a c XOR multiply b c"
    by (cases "c = 0") (auto elim!: alpha_onto simp: multiply_alpha xtime_pow_xor)
  show "multiply 1 a = a"
    using multiply_alpha [of a 0] commute by simp
  show "a = 0 \<or> b = 0" if "multiply a b = 0"
    using that xtime_pow_zero by (cases "b = 0") (auto elim!: alpha_onto simp: multiply_alpha)
  show "multiply (multiply a b) c = multiply a (multiply b c)"
  proof (cases "b = 0 \<or> c = 0")
    case False
    then obtain i j where "b = alpha i" "c = alpha j" by (auto elim!: alpha_onto)
    then show ?thesis by (simp add: multiply_alpha xtime_pow_alpha funpow_add)
  qed auto
qed


section \<open>The codewords of a block\<close>

lemma fold_update_pointwise:
  "n \<le> length r \<Longrightarrow> fold (\<lambda>i r. r[i := h i (at0 r i)]) [0..<n] r = map (\<lambda>i. h i (r ! i)) [0..<n] @ drop n r"
proof (induction n)
  case (Suc n)
  then show ?case
    by (auto simp: at0_def nth_append list_update_append Suc_le_eq simp flip: Cons_nth_drop_Suc)
qed simp

lemma length_xor_list [simp]: "length (xor_list xs ys) = min (length xs) (length ys)"
  by (simp add: xor_list_def)

lemma nth_xor_list: "i < length xs \<Longrightarrow> i < length ys \<Longrightarrow> xor_list xs ys ! i = xs ! i XOR ys ! i"
  by (simp add: xor_list_def)

lemma add_product_fold:
  "n \<le> length p \<Longrightarrow>
   (let q = fold (add_product p k) [0..<n] (replicate (length p + 1) 0) in
     length q = length p + 1 \<and>
     (\<forall>j\<le>length p. q ! j = (if j < n then p ! j else 0) XOR
        (if 0 < j \<and> j \<le> n then multiply (p ! (j - 1)) (at0 EXP k) else 0)))"
proof (induction n)
  case 0
  then show ?case by (auto simp: nth_Cons' simp del: replicate_Suc)
next
  case (Suc n)
  define q where "q = fold (add_product p k) [0..<n] (replicate (length p + 1) 0)"
  let ?m = "\<lambda>j. multiply (p ! j) (at0 EXP k)"
  have len: "length q = length p + 1"
    and val: "j \<le> length p \<Longrightarrow> q ! j = (if j < n then p ! j else 0) XOR (if 0 < j \<and> j \<le> n then ?m (j - 1) else 0)" for j
    using Suc by (simp_all add: q_def Let_def)
  have step: "add_product p k n q = q[n := q ! n XOR p ! n, n + 1 := q ! (n + 1) XOR ?m n]"
    using Suc.prems len by (simp add: add_product_def at0_def Let_def)
  have "add_product p k n q ! j = (if j < Suc n then p ! j else 0) XOR (if 0 < j \<and> j \<le> Suc n then ?m (j - 1) else 0)"
    if "j \<le> length p" for j
  proof (cases "j = n \<or> j = n + 1")
    case True
    then show ?thesis
      using Suc.prems len val [of n] val [of "n + 1"] that
      by (auto simp: step nth_list_update xor.commute)
  next
    case False
    then have "(j < Suc n) = (j < n)" "(j \<le> Suc n) = (j \<le> n)" by auto
    then show ?thesis using False len val [OF that] by (simp add: step)
  qed
  moreover have "fold (add_product p k) [0..<Suc n] (replicate (length p + 1) 0) = add_product p k n q"
    by (simp add: q_def)
  moreover have "length (add_product p k n q) = length p + 1" by (simp add: step len)
  ultimately show ?case by (simp only: Let_def) blast
qed

lemma times_root_eq:
  "times_root k p = xor_list (p @ [0]) (0 # map (\<lambda>c. multiply c (at0 EXP k)) p)"
proof (rule nth_equalityI)
  note q = add_product_fold [of "length p" p k, simplified Let_def, OF order_refl]
  show len: "length (times_root k p) = length (xor_list (p @ [0]) (0 # map (\<lambda>c. multiply c (at0 EXP k)) p))"
    using q by (simp add: times_root_def)
  fix j assume "j < length (times_root k p)"
  then have j: "j \<le> length p" using len by simp
  then show "times_root k p ! j = xor_list (p @ [0]) (0 # map (\<lambda>c. multiply c (at0 EXP k)) p) ! j"
    using q by (auto simp: times_root_def nth_xor_list nth_append nth_Cons')
qed

lemma generator_shape: "\<exists>g. generatorPolynomial n = 1 # g \<and> length g = n"
proof (induction n)
  case (Suc n)
  then obtain g where "generatorPolynomial n = 1 # g" "length g = n" by blast
  then show ?case by (simp add: generatorPolynomial_def times_root_eq xor_list_def)
qed (simp add: generatorPolynomial_def)

lemma generator_root: "i < n \<Longrightarrow> value_at multiply (generatorPolynomial n) (at0 EXP i) = 0"
proof (induction n)
  case (Suc n)
  have "value_at multiply (generatorPolynomial (Suc n)) (at0 EXP i) =
      multiply (value_at multiply (generatorPolynomial n) (at0 EXP i)) (at0 EXP i XOR at0 EXP n)"
    by (simp add: generatorPolynomial_def times_root_eq gf.value_root_product)
  with Suc show ?case by (cases "i = n") auto
qed simp

lemma take_byte_eq:
  assumes "generatorPolynomial n = 1 # g" "length g = n" "length r = n" "0 < n"
  shows "take_byte (generatorPolynomial n) n b r = xor_list (tl r @ [0]) (map (\<lambda>c. multiply c (b XOR hd r)) g)"
proof -
  have "(copy_down r)[n - 1 := 0] = tl r @ [0]"
    using assms(3,4) by (auto simp: copy_down_def list_update_append)
  then have "take_byte (generatorPolynomial n) n b r =
      fold (\<lambda>i r'. r'[i := at0 r' i XOR multiply (at0 (1 # g) (i + 1)) (b XOR hd r)]) [0..<n] (tl r @ [0])"
    using assms by (cases r) (simp_all add: take_byte_def at0_def)
  also have "\<dots> = map (\<lambda>i. (tl r @ [0]) ! i XOR multiply (at0 (1 # g) (i + 1)) (b XOR hd r)) [0..<n]"
    using fold_update_pointwise [of n "tl r @ [0]" "\<lambda>i v. v XOR multiply (at0 (1 # g) (i + 1)) (b XOR hd r)"]
      assms by simp
  also have "\<dots> = xor_list (tl r @ [0]) (map (\<lambda>c. multiply c (b XOR hd r)) g)"
    using assms by (intro nth_equalityI) (auto simp: nth_xor_list at0_def)
  finally show ?thesis .
qed

lemma take_bytes_value:
  assumes "i < n"
  shows "length (fold (take_byte (generatorPolynomial n) n) bytes (replicate n 0)) = n \<and>
    value_at multiply (fold (take_byte (generatorPolynomial n) n) bytes (replicate n 0)) (at0 EXP i) =
    multiply (value_at multiply bytes (at0 EXP i)) (power_at multiply (at0 EXP i) n)"
proof (induction bytes rule: rev_induct)
  case Nil
  then show ?case by simp
next
  case (snoc b bytes)
  obtain g where g: "generatorPolynomial n = 1 # g" "length g = n" using generator_shape by blast
  have "value_at multiply (1 # g) (at0 EXP i) = 0" using generator_root [OF assms] g by simp
  moreover define r where "r = fold (take_byte (generatorPolynomial n) n) bytes (replicate n 0)"
  moreover have "take_byte (generatorPolynomial n) n b r =
      xor_list (tl r @ [0]) (map (\<lambda>c. multiply c (b XOR hd r)) g)"
    by (rule take_byte_eq [OF g]) (use snoc assms in \<open>simp_all add: r_def\<close>)
  moreover have "r \<noteq> []" using snoc assms by (auto simp: r_def)
  ultimately show ?case
    using snoc g by (simp add: gf.value_division_step gf.mul_xor gf.mul_assoc
        gf.mul_commute [of "at0 EXP i" "power_at multiply (at0 EXP i) n"])
qed

text \<open>The bytes of a block followed by its error correction codewords are a codeword of the
  Reed-Solomon code of the standard: as a polynomial they vanish at every root of the generator,
  the consecutive powers of two in the field of 256 elements, for a block of any length.\<close>

theorem codeword_has_no_syndrome:
  assumes "i < count"
  shows "value_at multiply (bytes @ errorCorrectionCodewords bytes count) (at0 EXP i) = 0"
  using take_bytes_value [OF assms, of bytes]
  by (simp add: errorCorrectionCodewords_def gf.value_append)


lemma codeword_has_no_syndrome_witness:
  "value_at multiply ([65, 66] @ errorCorrectionCodewords [65, 66] 10) (at0 EXP 9) = 0"
  using codeword_has_no_syndrome [of 9 10 "[65, 66]"] by simp

section \<open>The distance of the code\<close>

lemma power_alpha: "power_at multiply (alpha i) n = alpha (i * n)"
  by (induction n) (simp_all add: multiply_alpha xtime_pow_alpha)

fun located :: "byte list \<Rightarrow> (byte \<times> byte) list" where
  "located [] = []"
| "located (c # cs) = (c, alpha (length cs)) # located cs"

lemma value_located: "value_at multiply cs (alpha i) = power_sum multiply i (located cs)"
  by (induction cs) (simp_all add: gf.value_Cons power_alpha mult.commute)

lemma snd_located: "set (map snd (located cs)) = alpha ` {..<length cs}"
  by (induction cs) (auto simp: lessThan_Suc)

lemma distinct_located: "length cs \<le> 255 \<Longrightarrow> distinct (map snd (located cs))"
proof (induction cs)
  case (Cons c cs)
  then have "alpha (length cs) \<noteq> alpha j" if "j < length cs" for j
    using alpha_inj [of "length cs" j] that by auto
  then have "alpha (length cs) \<notin> alpha ` {..<length cs}" by auto
  with Cons show ?case using snd_located [of cs] by simp
qed simp

lemma power_sum_nonzero: "power_sum multiply i (filter (\<lambda>p. fst p \<noteq> 0) ps) = power_sum multiply i ps"
  by (induction multiply i ps rule: power_sum.induct) auto

lemma fst_located: "map fst (located cs) = cs"
  by (induction cs) simp_all

definition distance :: "byte list \<Rightarrow> byte list \<Rightarrow> nat" where
  "distance xs ys = length (filter (\<lambda>(x, y). x \<noteq> y) (zip xs ys))"

lemma distance_located:
  "length (filter (\<lambda>p. fst p \<noteq> 0) (located (xor_list xs ys))) = distance xs ys"
proof -
  have "length (filter (\<lambda>p. fst p \<noteq> 0) (located cs)) = length (filter (\<lambda>c. c \<noteq> 0) cs)" for cs
    by (induction cs) simp_all
  moreover have "length (filter (\<lambda>c. c \<noteq> 0) (map2 (\<lambda>x y. x XOR y) xs ys)) = distance xs ys"
    unfolding distance_def by (induction xs ys rule: list_induct2') (auto dest: xor_eq_0)
  ultimately show ?thesis by (simp add: xor_list_def)
qed

lemma distance_zero: "length xs = length ys \<Longrightarrow> distance xs ys = 0 \<Longrightarrow> xs = ys"
  unfolding distance_def by (induction xs ys rule: list_induct2) (auto split: if_splits)

lemma syndromes_determine:
  assumes len: "length xs = length ys" "length xs \<le> 255" and close: "distance xs ys \<le> count" "count \<le> 512"
    and syndromes: "\<And>i. i < count \<Longrightarrow> value_at multiply xs (at0 EXP i) = value_at multiply ys (at0 EXP i)"
  shows "xs = ys"
proof -
  let ?d = "filter (\<lambda>p. fst p \<noteq> 0) (located (xor_list xs ys))"
  have "power_sum multiply i ?d = 0" if "i < length ?d" for i
  proof -
    have "i < count" using that close by (simp add: distance_located)
    then show ?thesis
      using syndromes [of i] close len
      by (simp add: power_sum_nonzero gf.value_xor EXP_alpha flip: value_located)
  qed
  moreover have "distinct (map snd ?d)"
    using len by (intro distinct_map_filter distinct_located) simp
  ultimately have "\<forall>p \<in> set ?d. fst p = 0" by (intro gf.power_sums_zero)
  then have "?d = []" by (auto simp: filter_empty_conv)
  then have "distance xs ys = 0" using distance_located [of xs ys] by simp
  with len show ?thesis by (intro distance_zero)
qed

lemma length_errorCorrection [simp]: "length (errorCorrectionCodewords bytes count) = count"
proof (cases "count = 0")
  case True
  then show ?thesis
    by (induction bytes rule: rev_induct) (simp_all add: errorCorrectionCodewords_def take_byte_def copy_down_def)
qed (use take_bytes_value [of 0 count bytes] in \<open>simp add: errorCorrectionCodewords_def\<close>)

text \<open>C16: two different data blocks of one length are encoded to codewords that differ in more than
  \<open>count\<close> places, as long as a codeword has at most 255 bytes: a scanner can correct any
  \<open>count div 2\<close> wrong bytes of a block.\<close>

theorem codewords_far_apart:
  assumes "length bytes = length bytes'" "bytes \<noteq> bytes'" "length bytes + count \<le> 255"
  shows "count < distance (bytes @ errorCorrectionCodewords bytes count) (bytes' @ errorCorrectionCodewords bytes' count)"
proof (rule ccontr)
  assume close: "\<not> ?thesis"
  have vanish: "value_at multiply (b @ errorCorrectionCodewords b count) (at0 EXP i) = 0" if "i < count" for b i
    using take_bytes_value [OF that, of b] by (simp add: errorCorrectionCodewords_def gf.value_append)
  have "bytes @ errorCorrectionCodewords bytes count = bytes' @ errorCorrectionCodewords bytes' count"
    by (rule syndromes_determine [where count = count]) (use assms close vanish in simp_all)
  with assms show False by simp
qed

lemma codewords_far_apart_witness:
  "10 < distance ([65, 66] @ errorCorrectionCodewords [65, 66] 10) ([65, 67] @ errorCorrectionCodewords [65, 67] 10)"
  using codewords_far_apart [of "[65, 66]" "[65, 67]" 10] by simp

end
