(* ===== verification/QrData.thy ===== *)
theory QrData
  imports Galois
begin

text \<open>
  The data side of the QR encoder (qr.ts): the published structure of versions 1 to 6 at level M,
  the bit writer, the choice of a version, the data codewords of a text and their interleaving
  with the error correction codewords. A bit is a \<open>bool\<close>, a byte an \<open>8 word\<close>, a text the 16 bit
  code units of a JavaScript string, and \<open>TextEncoder\<close> is written out as \<open>utf8\<close>. The reader at the
  end is the specification the encoder is measured against; it is no part of the source.
\<close>

unbundle bit_operations_syntax

section \<open>Versions\<close>

definition MAX_QR_VERSION :: nat where
  "MAX_QR_VERSION = 6"

definition qrSize :: "nat \<Rightarrow> nat" where
  "qrSize version = 17 + version * 4"

record version_spec =
  vs_blocks :: "nat list"
  vs_ecPerBlock :: nat
  vs_remainderBits :: nat
  vs_alignment :: "nat list"

definition VERSIONS :: "version_spec list" where
  "VERSIONS =
     [\<lparr>vs_blocks = [16], vs_ecPerBlock = 10, vs_remainderBits = 0, vs_alignment = []\<rparr>,
      \<lparr>vs_blocks = [28], vs_ecPerBlock = 16, vs_remainderBits = 7, vs_alignment = [6, 18]\<rparr>,
      \<lparr>vs_blocks = [44], vs_ecPerBlock = 26, vs_remainderBits = 7, vs_alignment = [6, 22]\<rparr>,
      \<lparr>vs_blocks = [32, 32], vs_ecPerBlock = 18, vs_remainderBits = 7, vs_alignment = [6, 26]\<rparr>,
      \<lparr>vs_blocks = [43, 43], vs_ecPerBlock = 24, vs_remainderBits = 7, vs_alignment = [6, 30]\<rparr>,
      \<lparr>vs_blocks = [27, 27, 27, 27], vs_ecPerBlock = 16, vs_remainderBits = 7, vs_alignment = [6, 34]\<rparr>]"

definition specFor :: "nat \<Rightarrow> version_spec result" where
  "specFor version =
     (if 1 \<le> version \<and> version \<le> length VERSIONS then Inr (VERSIONS ! (version - 1))
      else Inl (Error ''Unsupported QR version''))"

definition dataCodewords :: "version_spec \<Rightarrow> nat" where
  "dataCodewords spec = foldl (\<lambda>total count. total + count) 0 (vs_blocks spec)"

text \<open>The loop over the versions, from \<open>version\<close> up.\<close>

function choose_from :: "nat \<Rightarrow> nat \<Rightarrow> nat result" where
  "choose_from byteLength version =
     (if version \<le> MAX_QR_VERSION
      then rbind (specFor version) (\<lambda>spec.
        if byteLength + 2 \<le> dataCodewords spec then Inr version else choose_from byteLength (version + 1))
      else Inl (Error ''Text is too long for this QR encoder''))"
  by pat_completeness auto
termination by (relation "measure (\<lambda>(_, version). MAX_QR_VERSION + 1 - version)") auto

declare choose_from.simps [simp del]

definition chooseVersion :: "nat \<Rightarrow> nat result" where
  "chooseVersion byteLength = choose_from byteLength 1"

section \<open>Bits\<close>

type_synonym bits = "bool list"

definition push :: "nat \<Rightarrow> nat \<Rightarrow> bits \<Rightarrow> bits" where
  "push val len bits = fold (\<lambda>index bits. bits @ [bit val index]) (rev [0..<len]) bits"

definition set_bit_of :: "bool \<times> nat \<Rightarrow> byte list \<Rightarrow> byte list" where
  "set_bit_of p bytes =
     (if fst p then bytes[snd p div 8 := at0 bytes (snd p div 8) OR drop_bit (snd p mod 8) 0x80] else bytes)"

definition toBytes :: "bits \<Rightarrow> byte list" where
  "toBytes bits = fold set_bit_of (zip bits [0..<length bits]) (replicate ((length bits + 7) div 8) 0)"

text \<open>The loop that fills the last byte with zero bits.\<close>

function to_byte_boundary :: "bits \<Rightarrow> bits" where
  "to_byte_boundary bits = (if length bits mod 8 \<noteq> 0 then to_byte_boundary (push 0 1 bits) else bits)"
  by pat_completeness auto
termination
proof (relation "measure (\<lambda>bits. (8 - length bits mod 8) mod 8)")
  fix bits :: bits
  assume "length bits mod 8 \<noteq> 0"
  then show "(push 0 1 bits, bits) \<in> measure (\<lambda>bits. (8 - length bits mod 8) mod 8)"
    by (auto simp: push_def mod_Suc)
qed simp

declare to_byte_boundary.simps [simp del]

text \<open>The loop that alternates the two pad codewords up to the capacity.\<close>

function pad_to :: "nat \<Rightarrow> nat \<Rightarrow> byte list \<Rightarrow> byte list" where
  "pad_to capacity filled padded =
     (if length padded < capacity
      then pad_to capacity filled (padded @ [[0xec, 0x11] ! ((length padded - filled) mod 2)])
      else padded)"
  by pat_completeness auto
termination by (relation "measure (\<lambda>(capacity, _, padded). capacity - length padded)") auto

declare pad_to.simps [simp del]

definition buildCodewords :: "byte list \<Rightarrow> nat \<Rightarrow> byte list result" where
  "buildCodewords bytes version =
     rbind (specFor version) (\<lambda>spec.
       let capacity = dataCodewords spec;
           writer = fold (\<lambda>b. push (unat b) 8) bytes (push (length bytes) 8 (push 4 4 []));
           terminated = push 0 (min 4 (capacity * 8 - length writer)) writer;
           padded = toBytes (to_byte_boundary terminated)
       in Inr (pad_to capacity (length padded) padded))"

section \<open>Interleaving\<close>

fun slices :: "nat list \<Rightarrow> byte list \<Rightarrow> byte list list" where
  "slices [] codewords = []"
| "slices (n # ns) codewords = take n codewords # slices ns (drop n codewords)"

text \<open>One round of the two loops that deal the blocks out: a byte of every block that has one.\<close>

definition deal :: "byte list list \<Rightarrow> nat \<Rightarrow> byte list" where
  "deal blocks index = concat (map (\<lambda>block. if index < length block then [block ! index] else []) blocks)"

definition interleave :: "byte list \<Rightarrow> nat \<Rightarrow> byte list result" where
  "interleave codewords version =
     rbind (specFor version) (\<lambda>spec.
       let dataBlocks = slices (vs_blocks spec) codewords;
           ecBlocks = map (\<lambda>block. errorCorrectionCodewords block (vs_ecPerBlock spec)) dataBlocks;
           longest = Max (set (vs_blocks spec))
       in Inr (concat (map (deal dataBlocks) [0..<longest]) @
               concat (map (deal ecBlocks) [0..<vs_ecPerBlock spec])))"

section \<open>Text\<close>

text \<open>The bytes of a code point, and \<open>TextEncoder\<close> on the code units of a string: a surrogate
  without its partner becomes the replacement character.\<close>

definition utf8_point :: "nat \<Rightarrow> byte list" where
  "utf8_point c =
     (if c < 0x80 then [of_nat c]
      else if c < 0x800 then [of_nat (0xc0 + c div 64), of_nat (0x80 + c mod 64)]
      else if c < 0x10000 then
        [of_nat (0xe0 + c div 4096), of_nat (0x80 + c div 64 mod 64), of_nat (0x80 + c mod 64)]
      else
        [of_nat (0xf0 + c div 262144), of_nat (0x80 + c div 4096 mod 64), of_nat (0x80 + c div 64 mod 64),
         of_nat (0x80 + c mod 64)])"

definition high_surrogate :: "nat \<Rightarrow> bool" where
  "high_surrogate u \<longleftrightarrow> 0xd800 \<le> u \<and> u < 0xdc00"

definition low_surrogate :: "nat \<Rightarrow> bool" where
  "low_surrogate u \<longleftrightarrow> 0xdc00 \<le> u \<and> u < 0xe000"

fun utf8 :: "16 word list \<Rightarrow> byte list" where
  "utf8 [] = []"
| "utf8 [u] = utf8_point (if high_surrogate (unat u) \<or> low_surrogate (unat u) then 0xfffd else unat u)"
| "utf8 (u # v # us) =
     (if high_surrogate (unat u) \<and> low_surrogate (unat v)
      then utf8_point (0x10000 + (unat u - 0xd800) * 1024 + (unat v - 0xdc00)) @ utf8 us
      else utf8_point (if high_surrogate (unat u) \<or> low_surrogate (unat u) then 0xfffd else unat u) @ utf8 (v # us))"

section \<open>The reader\<close>

text \<open>The bits of a byte, highest first, and back.\<close>

definition bits_of_byte :: "byte \<Rightarrow> bits" where
  "bits_of_byte b = map (\<lambda>i. bit b (7 - i)) [0..<8]"

fun number_of_bits :: "bits \<Rightarrow> nat" where
  "number_of_bits [] = 0"
| "number_of_bits (b # bs) = of_bool b * 2 ^ length bs + number_of_bits bs"

fun bytes_of_bits :: "bits \<Rightarrow> byte list" where
  "bytes_of_bits (a # b # c # d # e # f # g # h # bs) =
     of_nat (number_of_bits [a, b, c, d, e, f, g, h]) # bytes_of_bits bs"
| "bytes_of_bits _ = []"

text \<open>What a scanner makes of the data codewords: the mode, the length, then as many bytes.\<close>

definition read_codewords :: "byte list \<Rightarrow> byte list option" where
  "read_codewords codewords =
     (let bits = concat (map bits_of_byte codewords);
          n = number_of_bits (take 8 (drop 4 bits))
      in if number_of_bits (take 4 bits) = 4 \<and> 12 + 8 * n \<le> length bits
         then Some (take n (bytes_of_bits (drop 12 bits))) else None)"

text \<open>The data blocks of an interleaved sequence, one after the other, for blocks of one size.\<close>

definition deinterleave :: "version_spec \<Rightarrow> byte list \<Rightarrow> byte list" where
  "deinterleave spec codewords =
     (let k = length (vs_blocks spec)
      in concat (map (\<lambda>b. map (\<lambda>i. at0 codewords (i * k + b)) [0..<hd (vs_blocks spec)]) [0..<k]))"

section \<open>Facts about versions\<close>

lemma specFor_Inr: "specFor version = Inr spec \<Longrightarrow> spec \<in> set VERSIONS"
  by (auto simp: specFor_def split: if_splits)

lemma versions_uniform:
  "spec \<in> set VERSIONS \<Longrightarrow>
   vs_blocks spec = replicate (length (vs_blocks spec)) (hd (vs_blocks spec)) \<and> vs_blocks spec \<noteq> [] \<and>
   dataCodewords spec = length (vs_blocks spec) * hd (vs_blocks spec)"
  by (auto simp: VERSIONS_def dataCodewords_def eval_nat_numeral)

lemma specFor_simps:
  "specFor 1 = Inr (VERSIONS ! 0)" "specFor 2 = Inr (VERSIONS ! 1)" "specFor 3 = Inr (VERSIONS ! 2)"
  "specFor 4 = Inr (VERSIONS ! 3)" "specFor 5 = Inr (VERSIONS ! 4)" "specFor 6 = Inr (VERSIONS ! 5)"
  by (simp_all add: specFor_def VERSIONS_def)

lemma capacities: "map dataCodewords VERSIONS = [16, 28, 44, 64, 86, 108]"
  by (simp add: VERSIONS_def dataCodewords_def)

lemma choose_table:
  "chooseVersion n =
     (if n \<le> 14 then Inr 1 else if n \<le> 26 then Inr 2 else if n \<le> 42 then Inr 3
      else if n \<le> 62 then Inr 4 else if n \<le> 84 then Inr 5 else if n \<le> 106 then Inr 6
      else Inl (Error ''Text is too long for this QR encoder''))"
  unfolding chooseVersion_def
  by (simp add: choose_from.simps [of n] MAX_QR_VERSION_def specFor_def VERSIONS_def dataCodewords_def)

text \<open>The version chosen is the smallest of the six whose data codewords hold the mode, the
  length and the bytes, and a text is refused exactly when it has more than 106 bytes.\<close>

theorem chooseVersion_least:
  "(\<forall>version. chooseVersion n = Inr version \<longleftrightarrow>
      1 \<le> version \<and> version \<le> 6 \<and> n + 2 \<le> dataCodewords (VERSIONS ! (version - 1)) \<and>
      (\<forall>smaller. smaller < version \<longrightarrow> smaller = 0 \<or> dataCodewords (VERSIONS ! (smaller - 1)) < n + 2)) \<and>
   (chooseVersion n = Inl (Error ''Text is too long for this QR encoder'') \<longleftrightarrow> 106 < n)"
proof -
  have versions: "1 \<le> v \<and> v \<le> 6 \<longleftrightarrow> v = 1 \<or> v = 2 \<or> v = 3 \<or> v = 4 \<or> v = 5 \<or> v = 6" for v :: nat by auto
  have caps: "dataCodewords (VERSIONS ! 0) = 16" "dataCodewords (VERSIONS ! Suc 0) = 28"
    "dataCodewords (VERSIONS ! 2) = 44" "dataCodewords (VERSIONS ! 3) = 64"
    "dataCodewords (VERSIONS ! 4) = 86" "dataCodewords (VERSIONS ! 5) = 108"
    by (simp_all add: VERSIONS_def dataCodewords_def)
  have below: "(\<forall>s<1. P s) = P 0" "(\<forall>s<2. P s) = (P 0 \<and> P 1)" "(\<forall>s<3. P s) = (P 0 \<and> P 1 \<and> P 2)"
    "(\<forall>s<4. P s) = (P 0 \<and> P 1 \<and> P 2 \<and> P 3)" "(\<forall>s<5. P s) = (P 0 \<and> P 1 \<and> P 2 \<and> P 3 \<and> P 4)"
    "(\<forall>s<6. P s) = (P 0 \<and> P 1 \<and> P 2 \<and> P 3 \<and> P 4 \<and> P 5)" for P :: "nat \<Rightarrow> bool"
    unfolding eval_nat_numeral One_nat_def BitM.simps All_less_Suc by (simp_all add: conj_ac)
  define least where "least v \<longleftrightarrow> n + 2 \<le> dataCodewords (VERSIONS ! (v - 1)) \<and>
      (\<forall>s<v. s = 0 \<or> dataCodewords (VERSIONS ! (s - 1)) < n + 2)" for v
  have least: "least 1 = (n \<le> 14)" "least 2 = (14 < n \<and> n \<le> 26)" "least 3 = (26 < n \<and> n \<le> 42)"
    "least 4 = (42 < n \<and> n \<le> 62)" "least 5 = (62 < n \<and> n \<le> 84)" "least 6 = (84 < n \<and> n \<le> 106)"
    unfolding least_def below by (auto simp: caps)
  have table: "chooseVersion n = Inr v \<longleftrightarrow>
      v = 1 \<and> n \<le> 14 \<or> v = 2 \<and> 14 < n \<and> n \<le> 26 \<or> v = 3 \<and> 26 < n \<and> n \<le> 42 \<or>
      v = 4 \<and> 42 < n \<and> n \<le> 62 \<or> v = 5 \<and> 62 < n \<and> n \<le> 84 \<or> v = 6 \<and> 84 < n \<and> n \<le> 106" for v
    unfolding choose_table by (simp split: if_split) arith
  have "chooseVersion n = Inr v \<longleftrightarrow> (1 \<le> v \<and> v \<le> 6) \<and> least v" for v
    unfolding versions table by (rule iffI; elim disjE conjE; simp add: least least(1) [unfolded One_nat_def])
  moreover have "chooseVersion n = Inl (Error ''Text is too long for this QR encoder'') \<longleftrightarrow> 106 < n"
    unfolding choose_table by (simp split: if_split)
  ultimately show ?thesis unfolding least_def by blast
qed


lemma chooseVersion_least_witness:
  "chooseVersion 107 = Inl (Error ''Text is too long for this QR encoder'') \<and>
   chooseVersion 55 \<noteq> Inl (Error ''Text is too long for this QR encoder'')"
  using chooseVersion_least [of 107] chooseVersion_least [of 55] by simp

section \<open>Facts about bits\<close>

lemma push_eq: "push val len bits = bits @ map (bit val) (rev [0..<len])"
proof -
  have "fold (\<lambda>index bits. bits @ [bit val index]) js bits = bits @ map (bit val) js" for js bits
    by (induction js arbitrary: bits) simp_all
  then show ?thesis by (simp add: push_def)
qed

lemma push_append: "push val len bits = bits @ push val len []"
  by (simp add: push_eq)

lemma number_of_bits_append: "number_of_bits (xs @ ys) = number_of_bits xs * 2 ^ length ys + number_of_bits ys"
  by (induction xs) (simp_all add: power_add algebra_simps)

lemma number_of_bits_push: "number_of_bits (map (bit val) (rev [0..<len])) = val mod 2 ^ len"
proof (induction len)
  case (Suc len)
  have "of_bool (bit val len) * 2 ^ len + val mod 2 ^ len = val mod 2 ^ Suc len"
    using take_bit_Suc_from_most [of len val] by (simp add: take_bit_eq_mod mult.commute)
  with Suc show ?case by simp
qed simp

lemma bits_of_byte_eq: "bits_of_byte b = map (bit (unat b)) (rev [0..<8])"
proof -
  have "[0..<8] = [0, 1, 2, 3, 4, 5, 6, 7 :: nat]" by (simp add: upt_rec)
  then show ?thesis by (simp add: bits_of_byte_def bit_unsigned_iff)
qed

lemma length_bits_of_byte [simp]: "length (bits_of_byte b) = 8"
  by (simp add: bits_of_byte_def)

lemma bytes_of_bits_byte: "bytes_of_bits (bits_of_byte b @ bs) = b # bytes_of_bits bs"
proof -
  have "number_of_bits (bits_of_byte b) = unat b"
    by (simp add: bits_of_byte_eq number_of_bits_push del: upt_Suc)
  moreover obtain a c d e f g h i where "bits_of_byte b = [a, c, d, e, f, g, h, i]"
    by (simp add: bits_of_byte_def upt_rec)
  ultimately show ?thesis by simp
qed

lemma bytes_of_bits_bytes: "bytes_of_bits (concat (map bits_of_byte bytes) @ bs) = bytes @ bytes_of_bits bs"
  by (induction bytes) (simp_all add: bytes_of_bits_byte)

lemma bit_0x80: "bit (0x80 :: byte) n \<longleftrightarrow> n = 7"
proof -
  have "(0x80 :: byte) = push_bit 7 1" by simp
  then show ?thesis by (simp only: bit_push_bit_iff bit_1_iff) auto
qed


lemma drop_0x80: "i < 8 \<Longrightarrow> bit (drop_bit i (0x80 :: byte)) m \<longleftrightarrow> m = 7 - i"
  by (simp only: bit_drop_bit_eq o_def bit_0x80) auto

lemma toBytes_fold:
  "k \<le> length bits \<Longrightarrow> 8 * n = length bits \<Longrightarrow>
   (let bytes = fold set_bit_of (zip (take k bits) [0..<k]) (replicate n 0) in
     length bytes = n \<and>
     (\<forall>j<n. \<forall>i<8. bit (bytes ! j) (7 - i) = (8 * j + i < k \<and> bits ! (8 * j + i))))"
proof (induction k)
  case (Suc k)
  define bytes where "bytes = fold set_bit_of (zip (take k bits) [0..<k]) (replicate n 0)"
  have len: "length bytes = n"
    and val: "j < n \<Longrightarrow> i < 8 \<Longrightarrow> bit (bytes ! j) (7 - i) = (8 * j + i < k \<and> bits ! (8 * j + i))" for i j
    using Suc by (simp_all add: bytes_def Let_def)
  have k: "k < length bits" "k div 8 < n" using Suc.prems by auto
  have step: "fold set_bit_of (zip (take (Suc k) bits) [0..<Suc k]) (replicate n 0) = set_bit_of (bits ! k, k) bytes"
    using k by (simp add: bytes_def take_Suc_conv_app_nth)
  have "bit (set_bit_of (bits ! k, k) bytes ! j) (7 - i) = (8 * j + i < Suc k \<and> bits ! (8 * j + i))"
    if "j < n" "i < 8" for i j
  proof (cases "bits ! k \<and> j = k div 8")
    case True
    then have "bit (set_bit_of (bits ! k, k) bytes ! j) (7 - i) = (bit (bytes ! j) (7 - i) \<or> 7 - i = 7 - k mod 8)"
      using that k len by (simp add: set_bit_of_def at0_def bit_or_iff drop_0x80)
    moreover have "7 - i = 7 - k mod 8 \<longleftrightarrow> i = k mod 8"
      using \<open>i < 8\<close> pos_mod_bound [of 8 k] by simp arith
    moreover have "i = k mod 8 \<longleftrightarrow> 8 * j + i = k"
      using True mult_div_mod_eq [of 8 k] by arith
    ultimately show ?thesis using True val [OF that] by (auto simp: less_Suc_eq)
  next
    case False
    then have "set_bit_of (bits ! k, k) bytes ! j = bytes ! j" by (auto simp: set_bit_of_def)
    moreover have "\<not> bits ! k" if "8 * j + i = k" using that False \<open>i < 8\<close> by auto
    ultimately show ?thesis using val [OF that] by (auto simp: less_Suc_eq)
  qed
  then show ?case unfolding step Let_def using len by (simp add: set_bit_of_def)
qed (simp add: Let_def)

lemma length_concat_bits [simp]: "length (concat (map bits_of_byte bytes)) = 8 * length bytes"
  by (induction bytes) simp_all

lemma toBytes_bits:
  assumes "length bits mod 8 = 0"
  shows "concat (map bits_of_byte (toBytes bits)) = bits"
proof -
  obtain n where n: "length bits = 8 * n" using assms by auto
  then have whole: "(length bits + 7) div 8 = n" by simp
  have eq: "toBytes bits = fold set_bit_of (zip (take (length bits) bits) [0..<length bits]) (replicate n 0)"
    by (simp add: toBytes_def whole)
  note set = toBytes_fold [OF order_refl n [symmetric], unfolded Let_def, folded eq]
  then have len: "length (toBytes bits) = n" by blast
  have val: "bit (toBytes bits ! j) (7 - i) = bits ! (8 * j + i)" if "j < n" "i < 8" for j i
  proof -
    have "8 * j + i < length bits" using that n by simp
    with set that show ?thesis by blast
  qed
  have "concat (map bits_of_byte bytes) ! (8 * j + i) = bit (bytes ! j) (7 - i)"
    if "j < length bytes" "i < 8" for bytes j i
    using that
  proof (induction bytes arbitrary: j)
    case (Cons b bytes)
    then show ?case by (cases j) (simp_all add: nth_append bits_of_byte_def)
  qed simp
  note concat_nth = this
  have "concat (map bits_of_byte (toBytes bits)) ! p = bits ! p" if "p < 8 * n" for p
  proof -
    have "p div 8 < n" "p mod 8 < 8" using that by auto
    then have "concat (map bits_of_byte (toBytes bits)) ! (8 * (p div 8) + p mod 8) = bits ! (8 * (p div 8) + p mod 8)"
      using concat_nth [of "p div 8" "toBytes bits" "p mod 8"] val [of "p div 8" "p mod 8"] len by simp
    then show ?thesis by (simp only: mult_div_mod_eq)
  qed
  then show ?thesis using n len by (intro nth_equalityI) simp_all
qed

lemma pad_to_extends: "\<exists>pad. pad_to capacity filled padded = padded @ pad \<and>
    length (pad_to capacity filled padded) = max capacity (length padded)"
proof (induction capacity filled padded rule: pad_to.induct)
  case (1 capacity filled padded)
  then show ?case
    by (subst (1 2) pad_to.simps) (auto simp: max_def)
qed

text \<open>The bits the writer holds, for a text that fits.\<close>

lemma written_bits:
  "fold (\<lambda>b. push (unat b) 8) bytes bits = bits @ concat (map bits_of_byte bytes)"
  by (induction bytes arbitrary: bits) (simp_all add: push_eq bits_of_byte_eq)

lemma buildCodewords_eq:
  assumes "specFor version = Inr spec" "length bytes + 2 \<le> dataCodewords spec"
  obtains codewords pad where "buildCodewords bytes version = Inr codewords"
    "length codewords = dataCodewords spec"
    "concat (map bits_of_byte codewords) =
       map (bit (4::nat)) (rev [0..<4]) @ map (bit (length bytes)) (rev [0..<8]) @ concat (map bits_of_byte bytes) @ pad"
proof -
  define header where "header = map (bit (4::nat)) (rev [0..<4]) @ map (bit (length bytes)) (rev [0..<8])"
  define terminated where "terminated = header @ concat (map bits_of_byte bytes) @ map (bit (0::nat)) (rev [0..<4])"
  have lh: "length header = 12" by (simp add: header_def)
  then have len: "length terminated = 8 * (length bytes + 2)" by (simp add: terminated_def)
  then have aligned: "to_byte_boundary terminated = terminated" by (subst to_byte_boundary.simps) simp
  have "push 0 (min 4 (dataCodewords spec * 8 - length (header @ concat (map bits_of_byte bytes))))
      (header @ concat (map bits_of_byte bytes)) = terminated"
    using assms(2) lh by (simp add: push_eq terminated_def)
  then have built: "buildCodewords bytes version =
      Inr (pad_to (dataCodewords spec) (length (toBytes terminated)) (toBytes terminated))"
    by (simp add: buildCodewords_def assms(1) Let_def written_bits push_eq aligned flip: header_def append_assoc)
  obtain pad where pad: "pad_to (dataCodewords spec) (length (toBytes terminated)) (toBytes terminated) = toBytes terminated @ pad"
    "length (toBytes terminated @ pad) = max (dataCodewords spec) (length (toBytes terminated))"
    using pad_to_extends by metis
  have "concat (map bits_of_byte (toBytes terminated)) = terminated" by (rule toBytes_bits) (simp add: len)
  moreover from this have "8 * length (toBytes terminated) = length terminated"
    by (metis length_concat_bits)
  ultimately show thesis
    using that [OF built] pad assms(2) len by (simp add: terminated_def header_def)
qed

lemma read_buildCodewords:
  assumes "specFor version = Inr spec" "length bytes + 2 \<le> dataCodewords spec" "length bytes < 256"
  shows "\<exists>codewords. buildCodewords bytes version = Inr codewords \<and> length codewords = dataCodewords spec \<and>
    read_codewords codewords = Some bytes"
proof -
  obtain codewords pad where c: "buildCodewords bytes version = Inr codewords"
    "length codewords = dataCodewords spec"
    "concat (map bits_of_byte codewords) =
       map (bit (4::nat)) (rev [0..<4]) @ map (bit (length bytes)) (rev [0..<8]) @ concat (map bits_of_byte bytes) @ pad"
    using buildCodewords_eq [OF assms(1,2)] by blast
  have "number_of_bits (map (bit (4::nat)) (rev [0..<4])) = 4" "number_of_bits (map (bit (length bytes)) (rev [0..<8])) = length bytes"
    using assms(3) by (simp_all only: number_of_bits_push) simp_all
  then have "read_codewords codewords = Some bytes"
    by (simp add: read_codewords_def c(3) Let_def bytes_of_bits_bytes del: upt_Suc)
  with c show ?thesis by blast
qed

section \<open>Facts about interleaving\<close>

lemma concat_uniform:
  assumes "\<forall>xs \<in> set xss. length xs = k"
  shows "length (concat xss) = length xss * k"
    and "i < length xss \<Longrightarrow> j < k \<Longrightarrow> concat xss ! (i * k + j) = xss ! i ! j"
  using assms
proof (induction xss arbitrary: i)
  case (Cons xs xss)
  { case 1 then show ?case using Cons by simp }
  { case 2 then show ?case using Cons by (cases i) (simp_all add: nth_append) }
qed simp_all

lemma slices_uniform:
  "length codewords = k * n \<Longrightarrow> length (slices (replicate k n) codewords) = k \<and>
    (\<forall>block \<in> set (slices (replicate k n) codewords). length block = n) \<and> concat (slices (replicate k n) codewords) = codewords"
proof (induction k arbitrary: codewords)
  case (Suc k)
  from Suc.IH [of "drop n codewords"] Suc.prems show ?case by auto
qed simp

lemma deal_uniform: "\<forall>block \<in> set blocks. length block = n \<Longrightarrow> i < n \<Longrightarrow> deal blocks i = map (\<lambda>block. block ! i) blocks"
  unfolding deal_def by (induction blocks) simp_all

lemma dealt_uniform:
  assumes "\<forall>block \<in> set blocks. length block = n"
  shows "length (concat (map (deal blocks) [0..<n])) = n * length blocks"
    and "i < n \<Longrightarrow> b < length blocks \<Longrightarrow> concat (map (deal blocks) [0..<n]) ! (i * length blocks + b) = blocks ! b ! i"
proof -
  have rows: "map (deal blocks) [0..<n] = map (\<lambda>i. map (\<lambda>block. block ! i) blocks) [0..<n]"
    using deal_uniform [OF assms] by simp
  have "\<forall>row \<in> set (map (\<lambda>i. map (\<lambda>block. block ! i) blocks) [0..<n]). length row = length blocks" by simp
  note flat = concat_uniform [OF this]
  show "length (concat (map (deal blocks) [0..<n])) = n * length blocks"
    and "i < n \<Longrightarrow> b < length blocks \<Longrightarrow> concat (map (deal blocks) [0..<n]) ! (i * length blocks + b) = blocks ! b ! i"
    unfolding rows using flat by simp_all
qed

text \<open>Dealing the blocks out and collecting them again gives the data codewords back, and the
  sequence has one error correction block per data block.\<close>

theorem interleave_roundtrip:
  assumes "specFor version = Inr spec" "length codewords = dataCodewords spec"
  shows "\<exists>dealt. interleave codewords version = Inr dealt \<and>
    length dealt = dataCodewords spec + length (vs_blocks spec) * vs_ecPerBlock spec \<and>
    deinterleave spec dealt = codewords"
proof -
  define k n where "k = length (vs_blocks spec)" and "n = hd (vs_blocks spec)"
  have spec: "vs_blocks spec = replicate k n" "0 < k" "dataCodewords spec = k * n"
    using versions_uniform [OF specFor_Inr [OF assms(1)]] by (simp_all add: k_def n_def)
  define blocks where "blocks = slices (replicate k n) codewords"
  have blocks: "length blocks = k" "\<forall>block \<in> set blocks. length block = n" "concat blocks = codewords"
    using slices_uniform [of codewords k n] assms(2) spec by (simp_all add: blocks_def)
  define ec where "ec = map (\<lambda>block. errorCorrectionCodewords block (vs_ecPerBlock spec)) blocks"
  have ec: "length ec = k" "\<forall>block \<in> set ec. length block = vs_ecPerBlock spec"
    by (simp_all add: ec_def blocks)
  have dealt: "interleave codewords version =
      Inr (concat (map (deal blocks) [0..<n]) @ concat (map (deal ec) [0..<vs_ecPerBlock spec]))"
    using spec by (simp add: interleave_def assms(1) Let_def blocks_def ec_def)
  let ?d = "concat (map (deal blocks) [0..<n]) @ concat (map (deal ec) [0..<vs_ecPerBlock spec])"
  have read: "at0 ?d (i * k + b) = blocks ! b ! i" if "i < n" "b < k" for i b
  proof -
    have "i * k + b < n * k" using that by (metis Suc_leI add_less_cancel_left less_le_trans mult_Suc_right mult.commute mult_le_mono1 add.commute)
    then show ?thesis using dealt_uniform [OF blocks(2)] that by (simp add: at0_def nth_append blocks)
  qed
  have "deinterleave spec ?d = concat (map (\<lambda>b. map (\<lambda>i. blocks ! b ! i) [0..<n]) [0..<k])"
    using spec read by (auto simp: deinterleave_def Let_def intro!: arg_cong [where f = concat])
  also have "map (\<lambda>b. map (\<lambda>i. blocks ! b ! i) [0..<n]) [0..<k] = blocks"
    using blocks by (intro nth_equalityI) (auto intro: nth_equalityI)
  finally have "deinterleave spec ?d = codewords" by (simp add: blocks)
  moreover have "length ?d = dataCodewords spec + length (vs_blocks spec) * vs_ecPerBlock spec"
    unfolding length_append dealt_uniform(1) [OF blocks(2)] dealt_uniform(1) [OF ec(2)]
    by (simp add: blocks(1) ec(1) spec)
  ultimately show ?thesis using dealt by blast
qed

end
