(* ===== verification/QrMatrix.thy ===== *)
theory QrMatrix
  imports QrData
begin

text \<open>
  The matrix side of the QR encoder (qr.ts): the function patterns of a version, the walk that
  places the codeword bits, the eight masks, the four penalty rules, the format information, the
  encoder itself and the text it is rendered to. A \<open>Grid\<close> is a list of rows of \<open>-1\<close> (free),
  \<open>0\<close> and \<open>1\<close>; coordinates are integers, as in the source, and a read or write outside the
  grid is the source's \<open>?? -1\<close> and ignored write.
\<close>

unbundle bit_operations_syntax

type_synonym grid = "int list list"
type_synonym modules = "bool list list"

section \<open>The grid\<close>

definition emptyGrid :: "nat \<Rightarrow> grid" where
  "emptyGrid side = replicate side (replicate side (-1))"

definition place :: "int \<Rightarrow> int \<Rightarrow> bool \<Rightarrow> grid \<Rightarrow> grid" where
  "place row column dark grid =
     (if 0 \<le> row \<and> row < int (length grid) \<and> 0 \<le> column
      then grid[nat row := (grid ! nat row)[nat column := of_bool dark]] else grid)"

definition at_grid :: "grid \<Rightarrow> int \<Rightarrow> int \<Rightarrow> int" where
  "at_grid grid row column =
     (if 0 \<le> row \<and> row < int (length grid) \<and> 0 \<le> column \<and> column < int (length (grid ! nat row))
      then grid ! nat row ! nat column else -1)"

section \<open>Function patterns\<close>

text \<open>The pairs a nested loop visits, the outer variable first.\<close>

definition pairs :: "int list \<Rightarrow> int list \<Rightarrow> (int \<times> int) list" where
  "pairs ys xs = concat (map (\<lambda>y. map (Pair y) xs) ys)"

definition finder_module :: "int \<Rightarrow> int \<Rightarrow> bool" where
  "finder_module y x \<longleftrightarrow>
     (0 \<le> y \<and> y \<le> 6 \<and> (x = 0 \<or> x = 6) \<or> 0 \<le> x \<and> x \<le> 6 \<and> (y = 0 \<or> y = 6)) \<or>
     (2 \<le> y \<and> y \<le> 4 \<and> 2 \<le> x \<and> x \<le> 4)"

definition drawFinder :: "int \<Rightarrow> int \<Rightarrow> grid \<Rightarrow> grid" where
  "drawFinder row column =
     fold (\<lambda>(y, x) grid.
         let targetRow = row + y; targetColumn = column + x
         in if targetRow < 0 \<or> targetColumn < 0 \<or> int (length grid) \<le> targetRow \<or> int (length grid) \<le> targetColumn
            then grid else place targetRow targetColumn (finder_module y x) grid)
       (pairs [-1..7] [-1..7])"

definition drawAlignment :: "int \<Rightarrow> int \<Rightarrow> grid \<Rightarrow> grid" where
  "drawAlignment row column =
     fold (\<lambda>(y, x). place (row + y) (column + x) (max \<bar>x\<bar> \<bar>y\<bar> \<noteq> 1)) (pairs [-2..2] [-2..2])"

definition drawTiming :: "int \<Rightarrow> grid \<Rightarrow> grid" where
  "drawTiming side = fold (\<lambda>i grid. place i 6 (i mod 2 = 0) (place 6 i (i mod 2 = 0) grid)) [8..side - 9]"

definition on_finder :: "int \<Rightarrow> int \<Rightarrow> int \<Rightarrow> bool" where
  "on_finder side row column \<longleftrightarrow>
     row = 6 \<and> column = 6 \<or> row = 6 \<and> column = side - 7 \<or> row = side - 7 \<and> column = 6"

definition drawAlignments :: "int \<Rightarrow> nat list \<Rightarrow> grid \<Rightarrow> grid" where
  "drawAlignments side centres =
     fold (\<lambda>(row, column) grid. if \<not> on_finder side row column then drawAlignment row column grid else grid)
       (pairs (map int centres) (map int centres))"

definition reserve :: "int \<Rightarrow> int \<Rightarrow> grid \<Rightarrow> grid" where
  "reserve row column grid = (if at_grid grid row column = -1 then place row column False grid else grid)"

definition reserveFormat :: "int \<Rightarrow> grid \<Rightarrow> grid" where
  "reserveFormat side grid =
     fold (\<lambda>i grid. reserve (side - 1 - i) 8 (reserve 8 (side - 1 - i) grid)) [0..7]
       (fold (\<lambda>i grid. reserve i 8 (reserve 8 i grid)) [0..8] grid)"

definition drawFunctionPatterns :: "nat \<Rightarrow> grid \<Rightarrow> grid result" where
  "drawFunctionPatterns version grid0 =
     (let side = int (length grid0);
          finders = drawFinder (side - 7) 0 (drawFinder 0 (side - 7) (drawFinder 0 0 grid0));
          timed = drawTiming side finders
      in rbind (specFor version) (\<lambda>spec.
           Inr (reserveFormat side (place (side - 8) 8 True (drawAlignments side (vs_alignment spec) timed)))))"

definition functionMask :: "nat \<Rightarrow> modules result" where
  "functionMask version =
     (let side = qrSize version
      in rbind (drawFunctionPatterns version (emptyGrid side)) (\<lambda>grid.
           Inr (map (\<lambda>row. map (\<lambda>column. at_grid grid (int row) (int column) \<noteq> -1) [0..<side]) [0..<side])))"

section \<open>Placing the codewords\<close>

text \<open>\<open>reserved[row]?.[column] === true\<close>, and the same read of any matrix of modules.\<close>

definition module_at :: "modules \<Rightarrow> int \<Rightarrow> int \<Rightarrow> bool" where
  "module_at modules row column \<longleftrightarrow>
     0 \<le> row \<and> row < int (length modules) \<and> 0 \<le> column \<and> column < int (length (modules ! nat row)) \<and>
     modules ! nat row ! nat column"

text \<open>The right column of every pair, shifted once past the timing column.\<close>

function right_columns :: "int \<Rightarrow> int list" where
  "right_columns right0 =
     (if 1 \<le> right0 then let right = (if right0 = 6 then 5 else right0) in right # right_columns (right - 2) else [])"
  by pat_completeness auto
termination by (relation "measure nat") auto

declare right_columns.simps [simp del]

definition walk :: "int \<Rightarrow> (int \<times> int) list" where
  "walk side =
     concat (map (\<lambda>right. concat (map (\<lambda>step. map (\<lambda>offset.
         (if (right + 1) AND 2 = 0 then side - 1 - step else step, right - offset)) [0, 1]) [0..side - 1]))
       (right_columns (side - 1)))"

text \<open>One module of the walk: the grid so far and the number of the next bit.\<close>

definition place_module :: "modules \<Rightarrow> byte list \<Rightarrow> int \<times> int \<Rightarrow> grid \<times> nat \<Rightarrow> grid \<times> nat" where
  "place_module reserved bytes p s =
     (if module_at reserved (fst p) (snd p) then s
      else (place (fst p) (snd p)
              (snd s < length bytes * 8 \<and> bit (at0 bytes (snd s div 8)) (7 - snd s mod 8)) (fst s),
            snd s + 1))"

definition placeData :: "grid \<Rightarrow> modules \<Rightarrow> byte list \<Rightarrow> grid" where
  "placeData grid reserved bytes =
     fst (fold (place_module reserved bytes) (walk (int (length grid))) (grid, 0))"

section \<open>Masks\<close>

definition MASKS :: "(nat \<Rightarrow> nat \<Rightarrow> bool) list" where
  "MASKS =
     [\<lambda>row column. (row + column) mod 2 = 0,
      \<lambda>row column. row mod 2 = 0,
      \<lambda>row column. column mod 3 = 0,
      \<lambda>row column. (row + column) mod 3 = 0,
      \<lambda>row column. (row div 2 + column div 3) mod 2 = 0,
      \<lambda>row column. (row * column) mod 2 + (row * column) mod 3 = 0,
      \<lambda>row column. ((row * column) mod 2 + (row * column) mod 3) mod 2 = 0,
      \<lambda>row column. ((row + column) mod 2 + (row * column) mod 3) mod 2 = 0]"

definition masked :: "grid \<Rightarrow> modules \<Rightarrow> (nat \<Rightarrow> nat \<Rightarrow> bool) \<Rightarrow> nat \<Rightarrow> nat \<Rightarrow> bool" where
  "masked grid reserved rule row column =
     (let val = at_grid grid (int row) (int column) = 1
      in if module_at reserved (int row) (int column) then val
         else if rule row column then \<not> val else val)"

definition applyMask :: "grid \<Rightarrow> modules \<Rightarrow> nat \<Rightarrow> modules result" where
  "applyMask grid reserved maskNo =
     (if maskNo < length MASKS
      then Inr (map (\<lambda>row. map (masked grid reserved (MASKS ! maskNo) row) [0..<length grid]) [0..<length grid])
      else Inl (Error ''Unknown mask''))"

section \<open>Penalties\<close>

text \<open>The loop of \<open>runPenalty\<close>: the penalty so far and the length of the current run.\<close>

fun run_step :: "bool list \<Rightarrow> nat \<Rightarrow> nat \<times> nat \<Rightarrow> nat \<times> nat" where
  "run_step line index (score, run) =
     (if line ! index = line ! (index - 1) then (score, run + 1)
      else (if 5 \<le> run then score + 3 + (run - 5) else score, 1))"

definition runPenalty :: "bool list \<Rightarrow> nat" where
  "runPenalty line =
     (case fold (run_step line) [1..<length line] (0, 1) of
        (score, run) \<Rightarrow> if 5 \<le> run then score + 3 + (run - 5) else score)"

definition FINDER_LIKE :: "bool list" where
  "FINDER_LIKE = [True, False, True, True, True, False, True, False, False, False, False]"

definition finder_like_at :: "bool list \<Rightarrow> nat \<Rightarrow> bool" where
  "finder_like_at line index \<longleftrightarrow>
     list_all (\<lambda>(val, offset). line ! (index + offset) = val) (zip FINDER_LIKE [0..<11]) \<or>
     list_all (\<lambda>(val, offset). line ! (index + 10 - offset) = val) (zip FINDER_LIKE [0..<11])"

definition finderPenalty :: "bool list \<Rightarrow> nat" where
  "finderPenalty line = foldl (\<lambda>score index. if finder_like_at line index then score + 40 else score) 0 [0..<length line - 10]"

definition block_penalty :: "modules \<Rightarrow> nat \<Rightarrow> nat \<Rightarrow> nat" where
  "block_penalty modules row column =
     (let val = module_at modules (int row) (int column);
          up = module_at modules (int row - 1) (int column);
          left = module_at modules (int row) (int column - 1);
          upLeft = module_at modules (int row - 1) (int column - 1)
      in if 0 < row \<and> 0 < column \<and> val = up \<and> val = left \<and> val = upLeft then 3 else 0)"

definition column_of :: "modules \<Rightarrow> nat \<Rightarrow> bool list" where
  "column_of modules column = map (\<lambda>row. module_at modules (int row) (int column)) [0..<length modules]"

definition balance_penalty :: "nat \<Rightarrow> nat \<Rightarrow> nat" where
  "balance_penalty dark side =
     nat \<lfloor>\<bar>(of_nat (dark * 100) / of_nat (side * side) :: rat) - 50\<bar> / 5\<rfloor> * 10"

definition penalty :: "modules \<Rightarrow> nat" where
  "penalty modules =
     (let side = length modules;
          rows = sum_list (map (\<lambda>line. runPenalty line + finderPenalty line) modules);
          blocks = sum_list (map (\<lambda>row. sum_list (map (block_penalty modules row) [0..<side])) [0..<side]);
          dark = sum_list (map (\<lambda>row. sum_list (map (\<lambda>column. of_bool (module_at modules (int row) (int column))) [0..<side])) [0..<side]);
          columns = sum_list (map (\<lambda>column. runPenalty (column_of modules column) + finderPenalty (column_of modules column)) [0..<side])
      in rows + blocks + columns + balance_penalty dark side)"

section \<open>Format information\<close>

text \<open>The division by the format generator, from bit 14 down to bit 10.\<close>

definition format_step :: "nat \<Rightarrow> nat \<Rightarrow> nat" where
  "format_step i remainder = (if bit remainder i then remainder XOR push_bit (i - 10) 0x537 else remainder)"

definition formatBits :: "nat \<Rightarrow> nat" where
  "formatBits maskNo = (push_bit 10 maskNo OR fold format_step [14, 13, 12, 11, 10] (push_bit 10 maskNo)) XOR 0x5412"

definition set_module :: "int \<Rightarrow> int \<Rightarrow> bool \<Rightarrow> modules \<Rightarrow> modules" where
  "set_module row column val modules =
     (if 0 \<le> row \<and> row < int (length modules) \<and> 0 \<le> column
      then modules[nat row := (modules ! nat row)[nat column := val]] else modules)"

text \<open>The writes of \<open>writeFormat\<close> in their order: the row, the column and the number of the bit.\<close>

definition format_places :: "int \<Rightarrow> (int \<times> int \<times> nat) list" where
  "format_places side =
     map (\<lambda>i. (i, 8, nat i)) [0..5] @ [(7, 8, 6), (8, 8, 7), (8, 7, 8)] @
     map (\<lambda>i. (8, 14 - i, nat i)) [9..14] @
     map (\<lambda>i. (8, side - 1 - i, nat i)) [0..7] @
     map (\<lambda>i. (side - 15 + i, 8, nat i)) [8..14]"

definition writeFormat :: "nat \<Rightarrow> modules \<Rightarrow> modules" where
  "writeFormat maskNo modules =
     (let side = int (length modules); bits = formatBits maskNo
      in set_module (side - 8) 8 True
           (fold (\<lambda>(row, column, i). set_module row column (bit bits i)) (format_places side) modules))"

section \<open>The encoder\<close>

record qr_matrix =
  qm_version :: nat
  qm_size :: nat
  qm_mask :: nat
  qm_modules :: modules

text \<open>One round of the loop over the masks: the best matrix so far with its mask and its score.\<close>

definition try_mask :: "grid \<Rightarrow> modules \<Rightarrow> nat \<Rightarrow> (modules \<times> nat \<times> nat) option \<Rightarrow> (modules \<times> nat \<times> nat) option result" where
  "try_mask grid reserved maskNo best =
     rbind (applyMask grid reserved maskNo) (\<lambda>unformatted.
       let candidate = writeFormat maskNo unformatted;
           score = penalty candidate
       in Inr (case best of
                 None \<Rightarrow> Some (candidate, maskNo, score)
               | Some (_, _, bestScore) \<Rightarrow> if score < bestScore then Some (candidate, maskNo, score) else best))"

definition encode_bytes :: "byte list \<Rightarrow> qr_matrix result" where
  "encode_bytes bytes =
     rbind (chooseVersion (length bytes)) (\<lambda>version.
     rbind (buildCodewords bytes version) (\<lambda>built.
     rbind (interleave built version) (\<lambda>codewords.
     rbind (functionMask version) (\<lambda>reserved.
     rbind (drawFunctionPatterns version (emptyGrid (qrSize version))) (\<lambda>patterns.
       let grid = placeData patterns reserved codewords
       in rbind (foldl (\<lambda>best maskNo. rbind best (try_mask grid reserved maskNo)) (Inr None) [0..<length MASKS])
            (\<lambda>best. case best of
               None \<Rightarrow> Inl (Error ''No mask could be chosen'')
             | Some (modules, maskNo, _) \<Rightarrow>
                 Inr \<lparr>qm_version = version, qm_size = qrSize version, qm_mask = maskNo, qm_modules = modules\<rparr>))))))"

definition encodeQr :: "16 word list \<Rightarrow> qr_matrix result" where
  "encodeQr text = encode_bytes (utf8 text)"

section \<open>Squares\<close>

definition square :: "nat \<Rightarrow> 'a list list \<Rightarrow> bool" where
  "square n rows \<longleftrightarrow> length rows = n \<and> (\<forall>row \<in> set rows. length row = n)"

definition onboard :: "nat \<Rightarrow> int \<Rightarrow> int \<Rightarrow> bool" where
  "onboard n row column \<longleftrightarrow> 0 \<le> row \<and> row < int n \<and> 0 \<le> column \<and> column < int n"

lemma square_row: "square n rows \<Longrightarrow> i < n \<Longrightarrow> length (rows ! i) = n"
  by (simp add: square_def)

lemma square_update:
  assumes "square n rows"
  shows "square n (rows[i := (rows ! i)[j := v]])"
proof (cases "i < length rows")
  case True
  with assms show ?thesis by (auto simp: square_def dest!: set_update_subset_insert [THEN subsetD])
next
  case False
  with assms show ?thesis by (simp add: list_update_beyond not_less)
qed

lemma square_place [simp]: "square n grid \<Longrightarrow> square n (place row column dark grid)"
  by (simp add: place_def square_update)

lemma at_square: "square n grid \<Longrightarrow> at_grid grid r c = (if onboard n r c then grid ! nat r ! nat c else -1)"
proof -
  assume sq: "square n grid"
  have "length (grid ! nat r) = n" if "0 \<le> r" "r < int n" using square_row [OF sq, of "nat r"] that by simp
  moreover have "length grid = n" using sq by (simp add: square_def)
  ultimately show ?thesis by (auto simp: at_grid_def onboard_def)
qed

lemma at_place:
  assumes "square n grid"
  shows "at_grid (place row column dark grid) r c =
    (if r = row \<and> c = column \<and> onboard n row column then of_bool dark else at_grid grid r c)"
proof (cases "onboard n row column \<and> onboard n r c")
  case True
  then have b: "0 \<le> row" "row < int n" "0 \<le> column" "column < int n" "0 \<le> r" "r < int n" "0 \<le> c" "c < int n"
    by (simp_all add: onboard_def)
  have "length grid = n" "length (grid ! nat row) = n"
    using assms b square_row [OF assms, of "nat row"] by (simp_all add: square_def)
  then have "place row column dark grid ! nat r ! nat c =
      (if nat r = nat row \<and> nat c = nat column then of_bool dark else grid ! nat r ! nat c)"
    using b by (simp add: place_def nth_list_update)
  then show ?thesis using True b by (simp add: at_square [OF square_place [OF assms]] at_square [OF assms] eq_nat_nat_iff)
next
  case False
  have "length grid = n" using assms by (simp add: square_def)
  moreover have "length (grid ! nat row) = n" if "0 \<le> row" "row < int n"
    using square_row [OF assms, of "nat row"] that by simp
  ultimately have "place row column dark grid = grid" if "\<not> onboard n row column"
    using that by (auto simp: place_def onboard_def list_update_beyond)
  then show ?thesis using False
    by (auto simp: at_square [OF square_place [OF assms]] at_square [OF assms])
qed

lemma at_outside: "square n grid \<Longrightarrow> \<not> onboard n r c \<Longrightarrow> at_grid grid r c = -1"
  by (auto simp: at_grid_def onboard_def square_def)

lemma module_square: "square n modules \<Longrightarrow> module_at modules r c \<longleftrightarrow> onboard n r c \<and> modules ! nat r ! nat c"
proof -
  assume sq: "square n modules"
  have "length (modules ! nat r) = n" if "0 \<le> r" "r < int n" using square_row [OF sq, of "nat r"] that by simp
  moreover have "length modules = n" using sq by (simp add: square_def)
  ultimately show ?thesis by (auto simp: module_at_def onboard_def)
qed

section \<open>The function modules\<close>

text \<open>The cells a drawing step marks, whatever it was before.\<close>

definition marked :: "grid \<Rightarrow> (int \<times> int) set" where
  "marked grid = {(r, c). at_grid grid r c \<noteq> -1}"

definition draws :: "nat \<Rightarrow> (grid \<Rightarrow> grid) \<Rightarrow> (int \<times> int) set \<Rightarrow> bool" where
  "draws n f S \<longleftrightarrow> (\<forall>grid. square n grid \<longrightarrow> square n (f grid) \<and> marked (f grid) = marked grid \<union> S)"

definition board :: "nat \<Rightarrow> (int \<times> int) set" where
  "board n = {(r, c). onboard n r c}"

lemma draws_place: "draws n (place row column dark) ({(row, column)} \<inter> board n)"
  by (auto simp: draws_def marked_def board_def at_place)

lemma draws_comp: "draws n f S \<Longrightarrow> draws n g T \<Longrightarrow> draws n (\<lambda>grid. g (f grid)) (S \<union> T)"
  by (auto simp: draws_def)

lemma draws_fold: "(\<And>x. x \<in> set xs \<Longrightarrow> draws n (f x) (S x)) \<Longrightarrow> draws n (fold f xs) (\<Union>x \<in> set xs. S x)"
proof (induction xs)
  case Nil
  then show ?case by (simp add: draws_def)
next
  case (Cons x xs)
  have "draws n (\<lambda>grid. fold f xs (f x grid)) (S x \<union> (\<Union>x \<in> set xs. S x))"
    using Cons by (intro draws_comp) auto
  then show ?case by (simp add: comp_def)
qed

lemma draws_cong: "draws n f S \<Longrightarrow> (\<And>grid. square n grid \<Longrightarrow> f grid = g grid) \<Longrightarrow> S = T \<Longrightarrow> draws n g T"
  by (simp add: draws_def)

lemma set_pairs: "set (pairs ys xs) = set ys \<times> set xs"
  by (auto simp: pairs_def)

lemma draws_finder:
  "draws n (drawFinder row column) ({row - 1..row + 7} \<times> {column - 1..column + 7} \<inter> board n)"
  unfolding drawFinder_def
proof (rule draws_cong [OF draws_fold])
  show "draws n (case p of (y, x) \<Rightarrow> \<lambda>grid.
      let targetRow = row + y; targetColumn = column + x
      in if targetRow < 0 \<or> targetColumn < 0 \<or> int (length grid) \<le> targetRow \<or> int (length grid) \<le> targetColumn
         then grid else place targetRow targetColumn (finder_module y x) grid)
    ({(row + fst p, column + snd p)} \<inter> board n)" for p
    using draws_place [of n "row + fst p" "column + snd p" "finder_module (fst p) (snd p)"]
    by (auto simp: draws_def case_prod_beta Let_def board_def onboard_def square_def)
  show "(\<Union>p \<in> set (pairs [- 1..7] [- 1..7]). {(row + fst p, column + snd p)} \<inter> board n) =
    {row - 1..row + 7} \<times> {column - 1..column + 7} \<inter> board n"
  proof (intro equalityI subsetI)
    fix q assume "q \<in> {row - 1..row + 7} \<times> {column - 1..column + 7} \<inter> board n"
    then show "q \<in> (\<Union>p \<in> set (pairs [- 1..7] [- 1..7]). {(row + fst p, column + snd p)} \<inter> board n)"
      by (intro UN_I [of "(fst q - row, snd q - column)"]) (auto simp: set_pairs)
  qed (auto simp: set_pairs)
qed simp_all

lemma draws_alignment:
  "draws n (drawAlignment row column) ({row - 2..row + 2} \<times> {column - 2..column + 2} \<inter> board n)"
  unfolding drawAlignment_def
proof (rule draws_cong [OF draws_fold])
  show "draws n (case p of (y, x) \<Rightarrow> place (row + y) (column + x) (max \<bar>x\<bar> \<bar>y\<bar> \<noteq> 1))
    ({(row + fst p, column + snd p)} \<inter> board n)" for p
    using draws_place by (simp add: case_prod_beta)
  show "(\<Union>p \<in> set (pairs [- 2..2] [- 2..2]). {(row + fst p, column + snd p)} \<inter> board n) =
    {row - 2..row + 2} \<times> {column - 2..column + 2} \<inter> board n"
  proof (intro equalityI subsetI)
    fix q assume "q \<in> {row - 2..row + 2} \<times> {column - 2..column + 2} \<inter> board n"
    then show "q \<in> (\<Union>p \<in> set (pairs [- 2..2] [- 2..2]). {(row + fst p, column + snd p)} \<inter> board n)"
      by (intro UN_I [of "(fst q - row, snd q - column)"]) (auto simp: set_pairs)
  qed (auto simp: set_pairs)
qed simp_all

lemma draws_timing:
  "draws n (drawTiming m) (({6} \<times> {8..m - 9} \<union> {8..m - 9} \<times> {6}) \<inter> board n)"
  unfolding drawTiming_def
proof (rule draws_cong [OF draws_fold])
  show "draws n (\<lambda>grid. place i 6 (i mod 2 = 0) (place 6 i (i mod 2 = 0) grid))
    (({(6, i)} \<inter> board n) \<union> ({(i, 6)} \<inter> board n))" for i
    by (intro draws_comp draws_place)
qed auto

lemma draws_reserve: "draws n (reserve row column) ({(row, column)} \<inter> board n)"
  using draws_place [of n row column False] at_outside
  by (auto simp: draws_def reserve_def marked_def board_def)

lemma draws_reserveFormat:
  "draws n (reserveFormat m)
     (({8} \<times> {0..8} \<union> {0..8} \<times> {8} \<union> {8} \<times> {m - 8..m - 1} \<union> {m - 8..m - 1} \<times> {8}) \<inter> board n)"
proof -
  have a: "draws n (fold (\<lambda>i grid. reserve i 8 (reserve 8 i grid)) [0..8]) (({8} \<times> {0..8} \<union> {0..8} \<times> {8}) \<inter> board n)"
  proof (rule draws_cong [OF draws_fold])
    show "draws n (\<lambda>grid. reserve i 8 (reserve 8 i grid)) (({(8, i)} \<inter> board n) \<union> ({(i, 8)} \<inter> board n))" for i
      by (intro draws_comp draws_reserve)
  qed auto
  have b: "draws n (fold (\<lambda>i grid. reserve (m - 1 - i) 8 (reserve 8 (m - 1 - i) grid)) [0..7])
     (({8} \<times> {m - 8..m - 1} \<union> {m - 8..m - 1} \<times> {8}) \<inter> board n)"
  proof (rule draws_cong [OF draws_fold])
    show "draws n (\<lambda>grid. reserve (m - 1 - i) 8 (reserve 8 (m - 1 - i) grid))
        (({(8, m - 1 - i)} \<inter> board n) \<union> ({(m - 1 - i, 8)} \<inter> board n))" for i
      by (intro draws_comp draws_reserve)
    have "j \<in> (\<lambda>i. m - 1 - i) ` {0..7}" if "j \<in> {m - 8..m - 1}" for j
      using that by (intro image_eqI [of _ _ "m - 1 - j"]) auto
    then show "(\<Union>i \<in> set [0..7]. ({(8, m - 1 - i)} \<inter> board n) \<union> ({(m - 1 - i, 8)} \<inter> board n)) =
        ({8} \<times> {m - 8..m - 1} \<union> {m - 8..m - 1} \<times> {8}) \<inter> board n"
      by fastforce
  qed simp
  show ?thesis
    by (rule draws_cong [OF draws_comp [OF a b]]) (auto simp: reserveFormat_def)
qed

text \<open>The function modules of a version: the three corners with their format strips, the two timing
  lines between them, and from version 2 on one alignment pattern.\<close>

definition function_modules :: "nat \<Rightarrow> (int \<times> int) set" where
  "function_modules version =
     (let m = int (qrSize version) in
       {0..8} \<times> {0..8} \<union> {0..8} \<times> {m - 8..m - 1} \<union> {m - 8..m - 1} \<times> {0..8} \<union>
       {6} \<times> {9..m - 9} \<union> {9..m - 9} \<times> {6} \<union>
       (if 2 \<le> version then {m - 9..m - 5} \<times> {m - 9..m - 5} else {}))"

lemma alignment_centres:
  "specFor version = Inr spec \<Longrightarrow>
   vs_alignment spec = (if 2 \<le> version then [6, qrSize version - 7] else []) \<and> 1 \<le> version \<and> version \<le> 6"
proof -
  assume "specFor version = Inr spec"
  moreover from this have "version \<in> {1, 2, 3, 4, 5, 6}"
    by (auto simp: specFor_def VERSIONS_def split: if_splits)
  ultimately show ?thesis by (auto simp: specFor_def VERSIONS_def qrSize_def)
qed


lemma draws_alignments:
  assumes "specFor version = Inr spec"
  shows "draws (qrSize version) (drawAlignments (int (qrSize version)) (vs_alignment spec))
    ((if 2 \<le> version then {int (qrSize version) - 9..int (qrSize version) - 5} \<times> {int (qrSize version) - 9..int (qrSize version) - 5}
      else {}) \<inter> board (qrSize version))"
proof (cases "2 \<le> version")
  case True
  define m where "m = int (qrSize version)"
  have "map int (vs_alignment spec) = [6, m - 7]" "m \<noteq> 13"
    using alignment_centres [OF assms] True by (auto simp: m_def qrSize_def)
  then have "drawAlignments m (vs_alignment spec) = drawAlignment (m - 7) (m - 7)"
    by (simp add: drawAlignments_def pairs_def on_finder_def fun_eq_iff)
  then show ?thesis
    using draws_alignment [of "qrSize version" "m - 7" "m - 7"] True by (simp add: m_def)
next
  case False
  then show ?thesis using alignment_centres [OF assms] by (simp add: drawAlignments_def pairs_def draws_def)
qed

lemma marked_empty: "square n (emptyGrid n)" "marked (emptyGrid n) = {}"
  by (auto simp: square_def emptyGrid_def marked_def at_grid_def)

lemma drawFunctionPatterns_eq:
  assumes "specFor version = Inr spec"
  obtains grid where "drawFunctionPatterns version (emptyGrid (qrSize version)) = Inr grid"
    "square (qrSize version) grid" "marked grid = function_modules version"
proof -
  define n where "n = qrSize version"
  define m where "m = int n"
  define grid where "grid = reserveFormat m (place (m - 8) 8 True (drawAlignments m (vs_alignment spec)
      (drawTiming m (drawFinder (m - 7) 0 (drawFinder 0 (m - 7) (drawFinder 0 0 (emptyGrid n)))))))"
  have built: "drawFunctionPatterns version (emptyGrid n) = Inr grid"
    by (simp add: drawFunctionPatterns_def grid_def assms Let_def m_def emptyGrid_def)
  let ?A = "if 2 \<le> version then {m - 9..m - 5} \<times> {m - 9..m - 5} else {}"
  have "draws n (drawAlignments m (vs_alignment spec)) (?A \<inter> board n)"
    unfolding m_def n_def by (rule draws_alignments [OF assms])
  note aligned = draws_comp [OF draws_comp [OF draws_comp [OF draws_comp [OF draws_finder [of n 0 0]
    draws_finder [of n 0 "m - 7"]] draws_finder [of n "m - 7" 0]] draws_timing [of n m]] this]
  from draws_comp [OF draws_comp [OF aligned draws_place [of n "m - 8" 8 True]] draws_reserveFormat [of n m]]
  have sq: "square n grid" and cells: "marked grid =
      (((((({0 - 1..0 + 7} \<times> {0 - 1..0 + 7} \<inter> board n) \<union> ({0 - 1..0 + 7} \<times> {m - 7 - 1..m - 7 + 7} \<inter> board n)) \<union>
      ({m - 7 - 1..m - 7 + 7} \<times> {0 - 1..0 + 7} \<inter> board n)) \<union> (({6} \<times> {8..m - 9} \<union> {8..m - 9} \<times> {6}) \<inter> board n)) \<union>
      (?A \<inter> board n)) \<union> ({(m - 8, 8)} \<inter> board n) \<union>
      (({8} \<times> {0..8} \<union> {0..8} \<times> {8} \<union> {8} \<times> {m - 8..m - 1} \<union> {m - 8..m - 1} \<times> {8}) \<inter> board n))"
    by (simp_all add: draws_def grid_def marked_empty [of n])
  have big: "21 \<le> m" using alignment_centres [OF assms] by (simp add: m_def n_def qrSize_def)
  define P Q R where "P = {0..8::int} \<times> {0..8::int}" and "Q = {0..8::int} \<times> {m - 8..m - 1}"
    and "R = {m - 8..m - 1} \<times> {0..8::int}"
  define P' Q' R' where "P' = {0 - 1..0 + 7::int} \<times> {0 - 1..0 + 7::int} \<inter> board n"
    and "Q' = {0 - 1..0 + 7} \<times> {m - 7 - 1..m - 7 + 7} \<inter> board n"
    and "R' = {m - 7 - 1..m - 7 + 7} \<times> {0 - 1..0 + 7} \<inter> board n"
  define T T' where "T = {6} \<times> {9..m - 9} \<union> {9..m - 9} \<times> {6}"
    and "T' = ({6} \<times> {8..m - 9} \<union> {8..m - 9} \<times> {6}) \<inter> board n"
  define G where "G = ({8} \<times> {0..8} \<union> {0..8} \<times> {8} \<union> {8} \<times> {m - 8..m - 1} \<union> {m - 8..m - 1} \<times> {8}) \<inter> board n"
  note defs = P_def Q_def R_def P'_def Q'_def R'_def T_def T'_def G_def
  have "P' \<subseteq> P" "Q' \<subseteq> Q" "R' \<subseteq> R" "T' \<subseteq> P \<union> T" "{(m - 8, 8)} \<inter> board n \<subseteq> R" "G \<subseteq> P \<union> Q \<union> R"
    by (auto simp: defs board_def onboard_def m_def)
  moreover have "P \<subseteq> P' \<union> G" "Q \<subseteq> Q' \<union> G" "R \<subseteq> R' \<union> G" "T \<subseteq> T'" "?A \<inter> board n = ?A"
    using big by (auto simp: defs board_def onboard_def m_def)
  moreover define A where "A = ?A"
  moreover define D where "D = {(m - 8, 8)} \<inter> board n"
  moreover have "marked grid = P' \<union> Q' \<union> R' \<union> T' \<union> ?A \<inter> board n \<union> D \<union> G"
    unfolding cells defs D_def ..
  ultimately have cells: "marked grid = P' \<union> Q' \<union> R' \<union> T' \<union> A \<union> D \<union> G"
    and sub: "P' \<subseteq> P" "Q' \<subseteq> Q" "R' \<subseteq> R" "T' \<subseteq> P \<union> T" "D \<subseteq> R" "G \<subseteq> P \<union> Q \<union> R"
      "P \<subseteq> P' \<union> G" "Q \<subseteq> Q' \<union> G" "R \<subseteq> R' \<union> G" "T \<subseteq> T'"
    by simp_all
  have "marked grid = P \<union> Q \<union> R \<union> T \<union> A"
    unfolding cells
  proof (rule equalityI)
    show "P' \<union> Q' \<union> R' \<union> T' \<union> A \<union> D \<union> G \<subseteq> P \<union> Q \<union> R \<union> T \<union> A"
      using sub(1-6) by (intro Un_least) blast+
    show "P \<union> Q \<union> R \<union> T \<union> A \<subseteq> P' \<union> Q' \<union> R' \<union> T' \<union> A \<union> D \<union> G"
      using sub(7-10) by (intro Un_least) blast+
  qed
  then have "marked grid = function_modules version"
    by (simp add: function_modules_def Let_def n_def [symmetric] m_def [symmetric] P_def Q_def R_def T_def A_def Un_assoc)
  with that built sq show thesis by (simp add: n_def)
qed

lemma function_modules_board: "1 \<le> version \<Longrightarrow> function_modules version \<subseteq> board (qrSize version)"
  by (auto simp: function_modules_def Let_def board_def onboard_def qrSize_def split: if_splits)

lemma functionMask_eq:
  assumes "specFor version = Inr spec"
  obtains reserved where "functionMask version = Inr reserved" "square (qrSize version) reserved"
    "\<And>r c. module_at reserved r c \<longleftrightarrow> (r, c) \<in> function_modules version"
proof -
  define n where "n = qrSize version"
  obtain grid where g: "drawFunctionPatterns version (emptyGrid n) = Inr grid" "square n grid"
    "marked grid = function_modules version"
    using drawFunctionPatterns_eq [OF assms] by (auto simp: n_def)
  define reserved where "reserved = map (\<lambda>row. map (\<lambda>column. at_grid grid (int row) (int column) \<noteq> -1) [0..<n]) [0..<n]"
  have "functionMask version = Inr reserved"
    using g by (simp add: functionMask_def reserved_def n_def Let_def)
  moreover have "square n reserved" by (auto simp: square_def reserved_def)
  moreover from this have "module_at reserved r c \<longleftrightarrow> (r, c) \<in> marked grid" for r c
    using at_outside [OF g(2), of r c]
    by (cases "onboard n r c") (simp_all add: module_square, simp_all add: reserved_def marked_def onboard_def nat_less_iff)
  ultimately show thesis using that g(3) by (simp add: n_def)
qed

section \<open>The walk\<close>

lemma right_columns_6: "right_columns 6 = [5, 3, 1]"
  by (simp add: right_columns.simps)

lemma right_columns_even:
  "length (right_columns (6 + 2 * int k)) = k + 3 \<and>
   (\<Union>r \<in> set (right_columns (6 + 2 * int k)). {r, r - 1}) = {0..6 + 2 * int k} - {6}"
proof (induction k)
  case 0
  then show ?case by (auto simp: right_columns_6)
next
  case (Suc k)
  have "right_columns (6 + 2 * int (Suc k)) = (8 + 2 * int k) # right_columns (6 + 2 * int k)"
    by (subst right_columns.simps) (simp add: Let_def algebra_simps)
  moreover have "{0..6 + 2 * int (Suc k)} = {0..6 + 2 * int k} \<union> {8 + 2 * int k, 8 + 2 * int k - 1}" by auto
  ultimately show ?case using Suc by (simp add: insert_Diff_if)
qed

lemma set_walk: "set (walk s) = {0..s - 1} \<times> (\<Union>r \<in> set (right_columns (s - 1)). {r, r - 1})"
proof -
  have rows: "(\<lambda>step. if P then s - 1 - step else step) ` {0..s - 1} = {0..s - 1}" for P
  proof (cases P)
    case True
    have "step \<in> (\<lambda>step. s - 1 - step) ` {0..s - 1}" if "step \<in> {0..s - 1}" for step
      using that by (intro image_eqI [of _ _ "s - 1 - step"]) auto
    with True show ?thesis by auto
  qed simp
  have steps: "set (concat (map (\<lambda>step. map (\<lambda>offset. (row step, right - offset)) [0, 1]) xs)) =
      row ` set xs \<times> {right, right - 1}" for row :: "int \<Rightarrow> int" and right :: int and xs
    by (induction xs) auto
  define pair where "pair right = concat (map (\<lambda>step. map (\<lambda>offset.
    (if (right + 1) AND 2 = 0 then s - 1 - step else step, right - offset)) [0, 1]) [0..s - 1])" for right :: int
  have "set (pair right) = (\<lambda>step. if (right + 1) AND 2 = 0 then s - 1 - step else step) ` {0..s - 1} \<times> {right, right - 1}" for right :: int
    unfolding pair_def steps by simp
  then have "set (pair right) = {0..s - 1} \<times> {right, right - 1}" for right by (simp only: rows)
  then have "set (concat (map pair rights)) = {0..s - 1} \<times> (\<Union>r \<in> set rights. {r, r - 1})" for rights
    by (induction rights) (auto simp del: atLeastAtMost_iff)
  then show ?thesis unfolding walk_def pair_def .
qed

lemma length_walk: "length (walk s) = length (right_columns (s - 1)) * (nat s * 2)"
proof -
  have inner: "length (concat (map (\<lambda>step. map (f step) [0, 1 :: int]) xs)) = length xs * 2"
    for f :: "int \<Rightarrow> int \<Rightarrow> int \<times> int" and xs
    by (induction xs) simp_all
  have outer: "length (concat (map f xs)) = length xs * k" if "\<And>x. length (f x) = k"
    for f :: "int \<Rightarrow> (int \<times> int) list" and xs k
    using that by (induction xs) simp_all
  show ?thesis unfolding walk_def by (rule outer) (subst inner, simp)
qed

lemma walk_whole:
  assumes "s = 7 + 2 * int k"
  shows "set (walk s) = {0..s - 1} \<times> ({0..s - 1} - {6})" "distinct (walk s)"
proof -
  have s: "s - 1 = 6 + 2 * int k" using assms by simp
  show set: "set (walk s) = {0..s - 1} \<times> ({0..s - 1} - {6})"
    unfolding set_walk s using right_columns_even [of k] by simp
  have "card (set (walk s)) = nat s * (nat s - 1)"
    unfolding set using assms by (simp add: card_cartesian_product card_Diff_singleton)
  also have "\<dots> = length (walk s)"
    unfolding length_walk s using right_columns_even [of k] assms by (simp add: nat_add_distrib nat_mult_distrib algebra_simps)
  finally show "distinct (walk s)" by (rule card_distinct)
qed

text \<open>The free modules of a version, in the order of the walk.\<close>

definition free_modules :: "nat \<Rightarrow> modules \<Rightarrow> (int \<times> int) list" where
  "free_modules version reserved = filter (\<lambda>(r, c). \<not> module_at reserved r c) (walk (int (qrSize version)))"

lemma card_function_modules:
  assumes "1 \<le> version"
  shows "card (function_modules version) = 225 + 8 * version + (if 2 \<le> version then 25 else 0)"
proof -
  define m where "m = int (qrSize version)"
  have m: "m = 17 + 4 * int version" by (simp add: m_def qrSize_def)
  define A B C where "A = {0..8::int} \<times> {0..8::int}" and "B = {0..8::int} \<times> {m - 8..m - 1}" and "C = {m - 8..m - 1} \<times> {0..8::int}"
  define D E F where "D = {6::int} \<times> {9..m - 9}" and "E = {9..m - 9} \<times> {6::int}"
    and "F = (if 2 \<le> version then {m - 9..m - 5} \<times> {m - 9..m - 5} else {})"
  note defs = A_def B_def C_def D_def E_def F_def
  have "card (A \<union> B \<union> C \<union> D \<union> E \<union> F) = card A + card B + card C + card D + card E + card F"
  proof -
    have "A \<inter> B = {}" "(A \<union> B) \<inter> C = {}" "(A \<union> B \<union> C) \<inter> D = {}" "(A \<union> B \<union> C \<union> D) \<inter> E = {}"
      "(A \<union> B \<union> C \<union> D \<union> E) \<inter> F = {}"
      using m assms by (auto simp: defs)
    moreover have "finite A" "finite B" "finite C" "finite D" "finite E" "finite F" by (simp_all add: defs)
    ultimately show ?thesis by (simp add: card_Un_disjoint)
  qed
  moreover have "card A = 81" "card B = 72" "card C = 72" "card D = 4 * version" "card E = 4 * version"
    "card F = (if 2 \<le> version then 25 else 0)"
    using m by (simp_all add: defs card_cartesian_product nat_mult_distrib)
  moreover have "function_modules version = A \<union> B \<union> C \<union> D \<union> E \<union> F"
    by (simp add: function_modules_def Let_def m_def [symmetric] defs)
  ultimately show ?thesis by simp
qed

text \<open>Where the walk finds its free modules.\<close>

lemma version_walk:
  assumes "1 \<le> version"
  shows "set (walk (int (qrSize version))) = board (qrSize version) - {0..int (qrSize version) - 1} \<times> {6}"
    and "distinct (walk (int (qrSize version)))"
proof -
  have "int (qrSize version) = 7 + 2 * int (5 + 2 * version)" by (simp add: qrSize_def)
  note w = walk_whole [OF this]
  show "set (walk (int (qrSize version))) = board (qrSize version) - {0..int (qrSize version) - 1} \<times> {6}"
    unfolding w(1) by (auto simp: board_def onboard_def)
  show "distinct (walk (int (qrSize version)))" by (rule w(2))
qed

lemma timing_column: "1 \<le> version \<Longrightarrow> {0..int (qrSize version) - 1} \<times> {6} \<subseteq> function_modules version"
  by (auto simp: function_modules_def Let_def qrSize_def)

lemma free_modules_eq:
  assumes "specFor version = Inr spec" "functionMask version = Inr reserved"
  shows "set (free_modules version reserved) = board (qrSize version) - function_modules version"
    and "distinct (free_modules version reserved)"
    and "length (free_modules version reserved) =
      8 * (dataCodewords spec + length (vs_blocks spec) * vs_ecPerBlock spec) + vs_remainderBits spec"
proof -
  have v: "1 \<le> version" "version \<le> 6" using alignment_centres [OF assms(1)] by simp_all
  have r: "module_at reserved r c \<longleftrightarrow> (r, c) \<in> function_modules version" for r c
    using functionMask_eq [OF assms(1)] assms(2) by auto
  show set: "set (free_modules version reserved) = board (qrSize version) - function_modules version"
    using version_walk(1) [OF v(1)] timing_column [OF v(1)] by (auto simp: free_modules_def r)
  show dist: "distinct (free_modules version reserved)"
    using version_walk(2) [OF v(1)] by (simp add: free_modules_def)
  have board: "board n = {0..int n - 1} \<times> {0..int n - 1}" for n by (auto simp: board_def onboard_def)
  have "length (free_modules version reserved) = card (board (qrSize version) - function_modules version)"
    using distinct_card [OF dist] set by simp
  also have "\<dots> = qrSize version * qrSize version - card (function_modules version)"
    using function_modules_board [OF v(1)]
    by (subst card_Diff_subset) (auto simp: board card_cartesian_product intro: finite_subset)
  also have "\<dots> = qrSize version * qrSize version - (225 + 8 * version + (if 2 \<le> version then 25 else 0))"
    using card_function_modules [OF v(1)] by simp
  also have "\<dots> = 8 * (dataCodewords spec + length (vs_blocks spec) * vs_ecPerBlock spec) + vs_remainderBits spec"
  proof -
    have "version = 1 \<or> version = 2 \<or> version = 3 \<or> version = 4 \<or> version = 5 \<or> version = 6" using v by arith
    then show ?thesis using assms(1)
      by (elim disjE) (auto simp: specFor_def VERSIONS_def dataCodewords_def qrSize_def)
  qed
  finally show "length (free_modules version reserved) =
      8 * (dataCodewords spec + length (vs_blocks spec) * vs_ecPerBlock spec) + vs_remainderBits spec" .
qed

end
