(* ===== verification/QrReader.thy ===== *)
theory QrReader
  imports QrMatrix
begin

text \<open>
  The QR encoder (qr.ts) measured against a reader: the specification of a scanner that knows only
  the modules, the proof that it recovers the text, the choice of the mask, the run penalty against
  the rule of the standard, and the rendering of a symbol as terminal text, with its reader.
\<close>

section \<open>The reader\<close>

text \<open>A scanner without errors to correct: the mask from the first copy of the format bits, the free
  modules in the order of the walk with the mask taken off, and the data codewords of their bytes.\<close>

definition read_format :: "modules \<Rightarrow> nat option" where
  "read_format modules =
     find (\<lambda>m. list_all (\<lambda>(row, column, i). module_at modules row column = bit (formatBits m) i)
         (take 15 (format_places (int (length modules))))) [0..<8]"

definition scan_version :: "modules \<Rightarrow> version_spec \<Rightarrow> modules \<Rightarrow> nat \<Rightarrow> byte list option" where
  "scan_version modules spec reserved version =
     (case read_format modules of
        None \<Rightarrow> None
      | Some m \<Rightarrow>
          read_codewords (deinterleave spec
            (take (dataCodewords spec + length (vs_blocks spec) * vs_ecPerBlock spec)
              (bytes_of_bits (map (\<lambda>(row, column). module_at modules row column \<noteq> (MASKS ! m) (nat row) (nat column))
                (free_modules version reserved))))))"

definition scanQr :: "modules \<Rightarrow> byte list option" where
  "scanQr modules =
     (let version = (length modules - 17) div 4
      in case specFor version of
           Inl _ \<Rightarrow> None
         | Inr spec \<Rightarrow>
             (case functionMask version of
                Inl _ \<Rightarrow> None
              | Inr reserved \<Rightarrow> scan_version modules spec reserved version))"

section \<open>Placed data\<close>

definition data_bit :: "byte list \<Rightarrow> nat \<Rightarrow> bool" where
  "data_bit bytes k \<longleftrightarrow> k < length bytes * 8 \<and> bit (at0 bytes (k div 8)) (7 - k mod 8)"

lemma nth_concat_bits: "k < 8 * length bytes \<Longrightarrow> concat (map bits_of_byte bytes) ! k = data_bit bytes k"
proof -
  assume k: "k < 8 * length bytes"
  have "\<forall>xs \<in> set (map bits_of_byte bytes). length xs = 8" by auto
  from concat_uniform(2) [OF this, of "k div 8" "k mod 8"] k
  have "concat (map bits_of_byte bytes) ! (k div 8 * 8 + k mod 8) = bits_of_byte (bytes ! (k div 8)) ! (k mod 8)"
    by (simp add: less_mult_imp_div_less mult.commute)
  moreover have "bits_of_byte b ! (k mod 8) = bit b (7 - k mod 8)" for b by (simp add: bits_of_byte_def)
  moreover have "k div 8 < length bytes" using k by (simp add: less_mult_imp_div_less mult.commute)
  ultimately show ?thesis using k by (simp add: data_bit_def at0_def mult.commute)
qed

lemma place_modules:
  "square n grid \<Longrightarrow> distinct ps \<Longrightarrow> set ps \<subseteq> board n \<Longrightarrow>
   free = filter (\<lambda>(r, c). \<not> module_at reserved r c) ps \<Longrightarrow>
   fold (place_module reserved bytes) ps (grid, k) = (grid', k') \<Longrightarrow>
   square n grid' \<and>
   (\<forall>j < length free. at_grid grid' (fst (free ! j)) (snd (free ! j)) = of_bool (data_bit bytes (k + j))) \<and>
   (\<forall>r c. (r, c) \<notin> set free \<longrightarrow> at_grid grid' r c = at_grid grid r c)"
proof (induction ps arbitrary: grid k free)
  case (Cons p ps)
  obtain r c where p: "p = (r, c)" by (cases p)
  show ?case
  proof (cases "module_at reserved r c")
    case True
    then show ?thesis using Cons.IH [of grid free k] Cons.prems by (simp add: p place_module_def)
  next
    case False
    define grid1 where "grid1 = place r c (data_bit bytes k) grid"
    define rest where "rest = filter (\<lambda>(r, c). \<not> module_at reserved r c) ps"
    have free: "free = (r, c) # rest" using Cons.prems(4) False by (simp add: p rest_def)
    have sq: "square n grid1" using Cons.prems(1) by (simp add: grid1_def)
    have "place_module reserved bytes p (grid, k) = (grid1, k + 1)"
      using False by (simp add: p place_module_def grid1_def data_bit_def)
    then have "fold (place_module reserved bytes) ps (grid1, k + 1) = (grid', k')"
      using Cons.prems(5) by simp
    from Cons.IH [OF sq _ _ rest_def this] Cons.prems(2,3)
    have ih: "square n grid'"
      "\<And>j. j < length rest \<Longrightarrow> at_grid grid' (fst (rest ! j)) (snd (rest ! j)) = of_bool (data_bit bytes (k + 1 + j))"
      "\<And>r c. (r, c) \<notin> set rest \<Longrightarrow> at_grid grid' r c = at_grid grid1 r c"
      by simp_all
    have on: "onboard n r c" using Cons.prems(3) by (simp add: p board_def)
    have "(r, c) \<notin> set rest" using Cons.prems(2) by (auto simp: p rest_def)
    then have here: "at_grid grid' r c = of_bool (data_bit bytes k)"
      using ih(3) on by (simp add: grid1_def at_place [OF Cons.prems(1)])
    have "at_grid grid' (fst (free ! j)) (snd (free ! j)) = of_bool (data_bit bytes (k + j))" if "j < length free" for j
      using that here ih(2) [of "j - 1"] by (cases j) (simp_all add: free)
    moreover have "at_grid grid' r' c' = at_grid grid r' c'" if "(r', c') \<notin> set free" for r' c'
      using that ih(3) [of r' c'] by (auto simp: free grid1_def at_place [OF Cons.prems(1)])
    ultimately show ?thesis using ih(1) by blast
  qed
qed simp

section \<open>Masks and format\<close>

lemma applyMask_eq:
  assumes "square n grid" "m < 8"
  obtains modules where "applyMask grid reserved m = Inr modules" "square n modules"
    "\<And>r c. onboard n r c \<Longrightarrow> module_at modules r c =
       (if module_at reserved r c then at_grid grid r c = 1
        else (at_grid grid r c = 1) \<noteq> (MASKS ! m) (nat r) (nat c))"
proof -
  define modules where "modules = map (\<lambda>row. map (masked grid reserved (MASKS ! m) row) [0..<n]) [0..<n]"
  have "length grid = n" using assms by (simp add: square_def)
  then have "applyMask grid reserved m = Inr modules"
    using assms(2) by (simp add: applyMask_def modules_def MASKS_def)
  moreover have sq: "square n modules" by (auto simp: square_def modules_def)
  moreover have "module_at modules r c = (if module_at reserved r c then at_grid grid r c = 1
        else (at_grid grid r c = 1) \<noteq> (MASKS ! m) (nat r) (nat c))" if "onboard n r c" for r c
    unfolding module_square [OF sq] using that
    by (auto simp: modules_def masked_def Let_def onboard_def nat_less_iff)
  ultimately show thesis using that by blast
qed

lemma square_set_module [simp]: "square n modules \<Longrightarrow> square n (set_module row column val modules)"
  by (simp add: set_module_def square_update)

lemma module_at_set:
  assumes "square n modules"
  shows "module_at (set_module row column val modules) r c =
    (if r = row \<and> c = column \<and> onboard n row column then val else module_at modules r c)"
proof (cases "onboard n row column \<and> onboard n r c")
  case True
  then have b: "0 \<le> row" "row < int n" "0 \<le> column" "column < int n" "0 \<le> r" "r < int n" "0 \<le> c" "c < int n"
    by (simp_all add: onboard_def)
  have "length modules = n" "length (modules ! nat row) = n"
    using assms b square_row [OF assms, of "nat row"] by (simp_all add: square_def)
  then have "set_module row column val modules ! nat r ! nat c =
      (if nat r = nat row \<and> nat c = nat column then val else modules ! nat r ! nat c)"
    using b by (simp add: set_module_def nth_list_update)
  then show ?thesis using True b
    by (simp add: module_square [OF square_set_module [OF assms]] module_square [OF assms] eq_nat_nat_iff)
next
  case False
  have "length modules = n" using assms by (simp add: square_def)
  moreover have "length (modules ! nat row) = n" if "0 \<le> row" "row < int n"
    using square_row [OF assms, of "nat row"] that by simp
  ultimately have "set_module row column val modules = modules" if "\<not> onboard n row column"
    using that by (auto simp: set_module_def onboard_def list_update_beyond)
  then show ?thesis using False
    by (auto simp: module_square [OF square_set_module [OF assms]] module_square [OF assms])
qed

lemma set_modules:
  "square n modules \<Longrightarrow> distinct (map (\<lambda>(r, c, i). (r, c)) places) \<Longrightarrow> (\<lambda>(r, c, i). (r, c)) ` set places \<subseteq> board n \<Longrightarrow>
   square n (fold (\<lambda>(row, column, i). set_module row column (val i)) places modules) \<and>
   (\<forall>(r, c, i) \<in> set places. module_at (fold (\<lambda>(row, column, i). set_module row column (val i)) places modules) r c = val i) \<and>
   (\<forall>r c. (r, c) \<notin> (\<lambda>(r, c, i). (r, c)) ` set places \<longrightarrow>
      module_at (fold (\<lambda>(row, column, i). set_module row column (val i)) places modules) r c = module_at modules r c)"
proof (induction places arbitrary: modules)
  case (Cons p places)
  obtain r c i where p: "p = (r, c, i)" by (cases p)
  define modules1 where "modules1 = set_module r c (val i) modules"
  have "square n modules1" using Cons.prems(1) by (simp add: modules1_def)
  note ih = Cons.IH [OF this]
  have on: "onboard n r c" using Cons.prems(3) by (auto simp: p board_def)
  have new: "(r, c) \<notin> (\<lambda>(r, c, i). (r, c)) ` set places" using Cons.prems(2) by (simp add: p)
  show ?case
    using ih Cons.prems(2,3) new on
    by (auto simp: p modules1_def [symmetric], auto simp: modules1_def module_at_set [OF Cons.prems(1)])
qed simp

lemma upto_tables:
  "[0..5 :: int] = [0, 1, 2, 3, 4, 5]" "[9..14 :: int] = [9, 10, 11, 12, 13, 14]"
  "[0..7 :: int] = [0, 1, 2, 3, 4, 5, 6, 7]" "[8..14 :: int] = [8, 9, 10, 11, 12, 13, 14]"
  by code_simp+

lemma format_places_distinct: "21 \<le> m \<Longrightarrow> distinct (map (\<lambda>(r, c, i). (r, c)) (format_places m))"
  by (simp add: format_places_def upto_tables)

lemma format_places_reserved:
  assumes "1 \<le> version" "(r, c, i) \<in> set (format_places (int (qrSize version)))"
  shows "(r, c) \<in> function_modules version"
proof -
  define m where "m = int (qrSize version)"
  have "21 \<le> m" using assms by (simp add: m_def qrSize_def)
  have "(r, c) \<in> {0..8} \<times> {0..8} \<union> {0..8} \<times> {m - 8..m - 1} \<union> {m - 8..m - 1} \<times> {0..8}"
    using assms(2) by (auto simp: format_places_def simp flip: m_def)
  then show ?thesis by (auto simp: function_modules_def Let_def simp flip: m_def)
qed

lemma formats:
  "formatBits 0 = 0x5412" "formatBits (Suc 0) = 0x5125" "formatBits 2 = 0x5e7c" "formatBits 3 = 0x5b4b"
  "formatBits 4 = 0x45f9" "formatBits 5 = 0x40ce" "formatBits 6 = 0x4f97" "formatBits 7 = 0x4aa0"
  by (simp_all add: formatBits_def format_step_def bit_0)

lemma less_8: "(m :: nat) < 8 \<longleftrightarrow> m = 0 \<or> m = Suc 0 \<or> m = 2 \<or> m = 3 \<or> m = 4 \<or> m = 5 \<or> m = 6 \<or> m = 7"
  by auto

text \<open>No two of the eight format words agree on their first fifteen bits.\<close>

lemma formats_differ:
  assumes "m < 8" "m' < 8" "\<forall>i < 15. bit (formatBits m) i = bit (formatBits m') i"
  shows "m = m'"
proof -
  have "formatBits k < 2 ^ 15" if "k < 8" for k using that unfolding less_8 by (auto simp: formats)
  then have "formatBits k = take_bit 15 (formatBits k)" if "k < 8" for k
    using that by (intro take_bit_nat_eq_self [symmetric])
  moreover have "take_bit 15 (formatBits m) = take_bit 15 (formatBits m')"
    using assms(3) by (auto intro!: bit_eqI simp: bit_take_bit_iff)
  ultimately have "formatBits m = formatBits m'" using assms by metis
  with assms(1,2) show ?thesis unfolding less_8 by (elim disjE) (simp_all add: formats)
qed

lemma writeFormat_eq:
  assumes "square n modules" "n = qrSize version" "1 \<le> version" "m < 8"
  shows "square n (writeFormat m modules)" "read_format (writeFormat m modules) = Some m"
    "(r, c) \<notin> function_modules version \<Longrightarrow> module_at (writeFormat m modules) r c = module_at modules r c"
proof -
  have len: "length modules = n" using assms(1) by (simp add: square_def)
  define written where "written = fold (\<lambda>(row, column, i). set_module row column (bit (formatBits m) i)) (format_places (int n)) modules"
  have eq: "writeFormat m modules = set_module (int n - 8) 8 True written"
    by (simp add: writeFormat_def Let_def written_def len)
  have n: "21 \<le> int n" using assms(2,3) by (simp add: qrSize_def)
  have "(\<lambda>(r, c, i). (r, c)) ` set (format_places (int n)) \<subseteq> board n"
    using format_places_reserved [OF assms(3)] function_modules_board [OF assms(3)] assms(2) by fastforce
  note w = set_modules [OF assms(1) format_places_distinct [OF n] this, of "bit (formatBits m)", folded written_def]
  then have sq: "square n written" by blast
  show square: "square n (writeFormat m modules)" using sq by (simp add: eq)
  have dark: "(int n - 8, 8) \<in> function_modules version"
    using assms(2,3) by (simp add: function_modules_def Let_def qrSize_def)
  show "module_at (writeFormat m modules) r c = module_at modules r c" if "(r, c) \<notin> function_modules version"
  proof -
    have "(r, c) \<notin> (\<lambda>(r, c, i). (r, c)) ` set (format_places (int n))"
      using that format_places_reserved [OF assms(3)] assms(2) by auto
    then show ?thesis using w that dark by (auto simp: eq module_at_set [OF sq])
  qed
  have first: "(r, c, i) \<in> set (take 15 (format_places (int n))) \<Longrightarrow> module_at (writeFormat m modules) r c = bit (formatBits m) i" for r c i
  proof -
    assume f: "(r, c, i) \<in> set (take 15 (format_places (int n)))"
    then have "r \<le> 8" unfolding format_places_def upto_tables by auto
    with n have "r \<noteq> int n - 8" by simp
    then show ?thesis using w in_set_takeD [OF f] by (auto simp: eq module_at_set [OF sq])
  qed
  have all: "\<exists>r c. (r, c, i) \<in> set (take 15 (format_places (int n)))" if "i < 15" for i
  proof -
    have "map (\<lambda>(r, c, i). i) (take 15 (format_places (int n))) = [0..<15]"
      unfolding format_places_def upto_tables by (simp add: upt_rec)
    then have "i \<in> (\<lambda>(r, c, i). i) ` set (take 15 (format_places (int n)))" using that by (metis atLeastLessThan_iff le0 list.set_map set_upt)
    then show ?thesis by auto
  qed
  have len': "length (writeFormat m modules) = n" using square by (simp add: square_def)
  let ?P = "\<lambda>m'. list_all (\<lambda>(row, column, i). module_at (writeFormat m modules) row column = bit (formatBits m') i)
         (take 15 (format_places (int n)))"
  have "?P m' \<longleftrightarrow> m' = m" if "m' < 8" for m'
  proof
    assume P: "?P m'"
    have "bit (formatBits m') i = bit (formatBits m) i" if "i < 15" for i
      using all [OF that] first P by (fastforce simp: list_all_iff)
    then show "m' = m" using formats_differ [of m' m] \<open>m' < 8\<close> assms(4) by blast
  qed (use first in \<open>auto simp: list_all_iff\<close>)
  then have "find ?P [0..<8] = find (\<lambda>m'. m' = m) [0..<8]" by (intro find_cong) auto
  also have "\<dots> = Some m" using assms(4) unfolding less_8 by (elim disjE) (simp_all add: upt_rec)
  finally show "read_format (writeFormat m modules) = Some m" by (simp add: read_format_def len')
qed

section \<open>The encoder\<close>

text \<open>The candidate of a mask.\<close>

definition candidate :: "grid \<Rightarrow> modules \<Rightarrow> nat \<Rightarrow> modules" where
  "candidate grid reserved m = writeFormat m (projr (applyMask grid reserved m))"

lemma try_masks:
  "k \<le> 8 \<Longrightarrow>
   (\<exists>b. foldl (\<lambda>best m. rbind best (try_mask grid reserved m)) (Inr None) [0..<k] = Inr b \<and>
     (if k = 0 then b = None
      else \<exists>m < k. b = Some (candidate grid reserved m, m, penalty (candidate grid reserved m)) \<and>
        (\<forall>i < k. penalty (candidate grid reserved m) \<le> penalty (candidate grid reserved i)) \<and>
        (\<forall>i < m. penalty (candidate grid reserved m) < penalty (candidate grid reserved i))))"
proof (induction k)
  case (Suc k)
  then obtain b where b: "foldl (\<lambda>best m. rbind best (try_mask grid reserved m)) (Inr None) [0..<k] = Inr b"
    "if k = 0 then b = None
     else \<exists>m < k. b = Some (candidate grid reserved m, m, penalty (candidate grid reserved m)) \<and>
        (\<forall>i < k. penalty (candidate grid reserved m) \<le> penalty (candidate grid reserved i)) \<and>
        (\<forall>i < m. penalty (candidate grid reserved m) < penalty (candidate grid reserved i))"
    by auto
  have "try_mask grid reserved k b = Inr (case b of
      None \<Rightarrow> Some (candidate grid reserved k, k, penalty (candidate grid reserved k))
    | Some (_, _, s) \<Rightarrow> if penalty (candidate grid reserved k) < s
        then Some (candidate grid reserved k, k, penalty (candidate grid reserved k)) else b)"
  proof -
    obtain ms where "applyMask grid reserved k = Inr ms"
      using Suc.prems by (simp add: applyMask_def MASKS_def)
    moreover from this have "candidate grid reserved k = writeFormat k ms" by (simp add: candidate_def)
    ultimately show ?thesis by (simp only: try_mask_def Let_def rbind_simps)
  qed
  note step = this
  show ?case
  proof (cases "k = 0")
    case True
    then show ?thesis using b step by simp
  next
    case False
    with b obtain m where m: "m < k" "b = Some (candidate grid reserved m, m, penalty (candidate grid reserved m))"
      "\<forall>i < k. penalty (candidate grid reserved m) \<le> penalty (candidate grid reserved i)"
      "\<forall>i < m. penalty (candidate grid reserved m) < penalty (candidate grid reserved i)"
      by auto
    show ?thesis
    proof (cases "penalty (candidate grid reserved k) < penalty (candidate grid reserved m)")
      case True
      then show ?thesis using b(1) step m
        by (intro exI [of _ "Some (candidate grid reserved k, k, penalty (candidate grid reserved k))"] conjI)
          (auto simp: less_Suc_eq intro: less_le_trans less_imp_le)
    next
      case False
      then show ?thesis using b(1) step m
        by (intro exI [of _ b] conjI) (auto simp: less_Suc_eq intro!: exI [of _ m])
    qed
  qed
qed simp

lemma encode_bytes_eq:
  assumes "specFor version = Inr spec" "chooseVersion (length bytes) = Inr version"
    "buildCodewords bytes version = Inr built" "interleave built version = Inr codewords"
    "functionMask version = Inr reserved" "drawFunctionPatterns version (emptyGrid (qrSize version)) = Inr patterns"
  obtains m where "m < 8" "encode_bytes bytes = Inr \<lparr>qm_version = version, qm_size = qrSize version, qm_mask = m,
      qm_modules = candidate (placeData patterns reserved codewords) reserved m\<rparr>"
    "\<forall>i < 8. penalty (candidate (placeData patterns reserved codewords) reserved m) \<le>
       penalty (candidate (placeData patterns reserved codewords) reserved i)"
    "\<forall>i < m. penalty (candidate (placeData patterns reserved codewords) reserved m) <
       penalty (candidate (placeData patterns reserved codewords) reserved i)"
proof -
  define grid where "grid = placeData patterns reserved codewords"
  have "length MASKS = 8" by (simp add: MASKS_def)
  moreover obtain m where m: "m < 8"
    "foldl (\<lambda>best m. rbind best (try_mask grid reserved m)) (Inr None) [0..<8] =
       Inr (Some (candidate grid reserved m, m, penalty (candidate grid reserved m)))"
    "\<forall>i < 8. penalty (candidate grid reserved m) \<le> penalty (candidate grid reserved i)"
    "\<forall>i < m. penalty (candidate grid reserved m) < penalty (candidate grid reserved i)"
    using try_masks [of 8 grid reserved] by auto
  ultimately have "encode_bytes bytes = Inr \<lparr>qm_version = version, qm_size = qrSize version, qm_mask = m,
      qm_modules = candidate grid reserved m\<rparr>"
    unfolding encode_bytes_def by (simp add: assms Let_def flip: grid_def)
  with m that show thesis by (simp add: grid_def)
qed

lemma placeData_eq:
  assumes "specFor version = Inr spec" "functionMask version = Inr reserved" "square (qrSize version) grid"
  shows "square (qrSize version) (placeData grid reserved codewords)"
    "j < length (free_modules version reserved) \<Longrightarrow>
      at_grid (placeData grid reserved codewords) (fst (free_modules version reserved ! j)) (snd (free_modules version reserved ! j)) =
      of_bool (data_bit codewords j)"
proof -
  have v: "1 \<le> version" using alignment_centres [OF assms(1)] by simp
  have len: "length grid = qrSize version" using assms(3) by (simp add: square_def)
  obtain grid' k' where run: "fold (place_module reserved codewords) (walk (int (qrSize version))) (grid, 0) = (grid', k')"
    by (cases "fold (place_module reserved codewords) (walk (int (qrSize version))) (grid, 0)")
  have "set (walk (int (qrSize version))) \<subseteq> board (qrSize version)" using version_walk(1) [OF v] by blast
  note placed = place_modules [OF assms(3) version_walk(2) [OF v] this free_modules_def run]
  have eq: "placeData grid reserved codewords = grid'" by (simp add: placeData_def len run)
  show "square (qrSize version) (placeData grid reserved codewords)" using placed by (simp add: eq)
  show "j < length (free_modules version reserved) \<Longrightarrow>
      at_grid (placeData grid reserved codewords) (fst (free_modules version reserved ! j)) (snd (free_modules version reserved ! j)) =
      of_bool (data_bit codewords j)"
    using placed by (simp add: eq)
qed

lemma scan_candidate:
  assumes spec: "specFor version = Inr spec" and mask: "functionMask version = Inr reserved" "m < 8"
    and grid: "square (qrSize version) grid"
    and len: "length codewords = dataCodewords spec + length (vs_blocks spec) * vs_ecPerBlock spec"
  shows "scanQr (candidate (placeData grid reserved codewords) reserved m) = read_codewords (deinterleave spec codewords)"
proof -
  have v: "1 \<le> version" using alignment_centres [OF spec] by simp
  have r: "module_at reserved r c \<longleftrightarrow> (r, c) \<in> function_modules version" for r c
    using functionMask_eq [OF spec] mask(1) by auto
  let ?free = "free_modules version reserved"
  note free = free_modules_eq [OF spec mask(1)]
  note data = placeData_eq [OF spec mask(1) grid, where codewords = codewords]
  obtain ms where ms: "applyMask (placeData grid reserved codewords) reserved m = Inr ms" "square (qrSize version) ms"
    "\<And>r c. onboard (qrSize version) r c \<Longrightarrow> module_at ms r c =
       (if module_at reserved r c then at_grid (placeData grid reserved codewords) r c = 1
        else (at_grid (placeData grid reserved codewords) r c = 1) \<noteq> (MASKS ! m) (nat r) (nat c))"
    using applyMask_eq [OF data(1) mask(2)] by metis
  define cand where "cand = candidate (placeData grid reserved codewords) reserved m"
  have cand: "cand = writeFormat m ms" by (simp add: cand_def candidate_def ms)
  note written = writeFormat_eq [OF ms(2) refl v mask(2), folded cand]
  have bit: "(module_at cand (fst p) (snd p) \<noteq> (MASKS ! m) (nat (fst p)) (nat (snd p))) = data_bit codewords j"
    if "j < length ?free" "p = ?free ! j" for j p
  proof -
    have "p \<in> board (qrSize version) - function_modules version" using that free(1) nth_mem [of j ?free] by simp
    then have on: "onboard (qrSize version) (fst p) (snd p)" and out: "(fst p, snd p) \<notin> function_modules version"
      by (auto simp: board_def)
    have "module_at cand (fst p) (snd p) = module_at ms (fst p) (snd p)"
      using writeFormat_eq(3) [OF ms(2) refl v mask(2) out] by (simp add: cand)
    moreover have "\<not> module_at reserved (fst p) (snd p)" using out by (simp add: r)
    moreover have "(at_grid (placeData grid reserved codewords) (fst p) (snd p) = 1) = data_bit codewords j"
      using data(2) [of j] that by simp
    ultimately show ?thesis using ms(3) [OF on] by auto
  qed
  have bits: "map (\<lambda>(row, column). module_at cand row column \<noteq> (MASKS ! m) (nat row) (nat column)) ?free =
      concat (map bits_of_byte codewords) @ map (data_bit codewords) [8 * length codewords..<length ?free]"
  proof (rule nth_equalityI)
    show "length (map (\<lambda>(row, column). module_at cand row column \<noteq> (MASKS ! m) (nat row) (nat column)) ?free) =
      length (concat (map bits_of_byte codewords) @ map (data_bit codewords) [8 * length codewords..<length ?free])"
      using free(3) len by simp
    fix j assume "j < length (map (\<lambda>(row, column). module_at cand row column \<noteq> (MASKS ! m) (nat row) (nat column)) ?free)"
    then have j: "j < length ?free" by simp
    then have "map (\<lambda>(row, column). module_at cand row column \<noteq> (MASKS ! m) (nat row) (nat column)) ?free ! j = data_bit codewords j"
      using bit [OF j refl] by (simp add: case_prod_beta)
    moreover have "(concat (map bits_of_byte codewords) @ map (data_bit codewords) [8 * length codewords..<length ?free]) ! j =
        data_bit codewords j"
      using j by (cases "j < 8 * length codewords") (simp_all add: nth_append nth_concat_bits)
    ultimately show "map (\<lambda>(row, column). module_at cand row column \<noteq> (MASKS ! m) (nat row) (nat column)) ?free ! j =
      (concat (map bits_of_byte codewords) @ map (data_bit codewords) [8 * length codewords..<length ?free]) ! j" by simp
  qed
  have "length cand = qrSize version" using written(1) by (simp add: square_def)
  then have "(length cand - 17) div 4 = version" by (simp add: qrSize_def)
  then have "scanQr cand = scan_version cand spec reserved version" by (simp add: scanQr_def Let_def spec mask)
  also have "\<dots> = read_codewords (deinterleave spec codewords)"
    unfolding scan_version_def written(2) option.case bits bytes_of_bits_bytes len [symmetric] by simp
  finally show ?thesis by (simp add: cand_def)
qed

lemma capacity_bound: "specFor version = Inr spec \<Longrightarrow> dataCodewords spec \<le> 108"
  using specFor_Inr [of version spec] by (auto simp: VERSIONS_def dataCodewords_def)

lemma chosen_spec:
  assumes "chooseVersion n = Inr version"
  obtains spec where "specFor version = Inr spec" "n + 2 \<le> dataCodewords spec"
  using assms unfolding choose_table
  by (auto simp: specFor_def VERSIONS_def dataCodewords_def split: if_splits)

lemma scan_encode:
  assumes "length bytes \<le> 106"
  shows "\<exists>q. encode_bytes bytes = Inr q \<and> scanQr (qm_modules q) = Some bytes"
proof -
  obtain version where v: "chooseVersion (length bytes) = Inr version"
  proof (cases "chooseVersion (length bytes)")
    case (Inl e)
    with assms show ?thesis by (simp add: choose_table split: if_splits)
  qed
  obtain spec where spec: "specFor version = Inr spec" "length bytes + 2 \<le> dataCodewords spec"
    using chosen_spec [OF v] .
  obtain built where built: "buildCodewords bytes version = Inr built" "length built = dataCodewords spec"
    "read_codewords built = Some bytes"
    using read_buildCodewords [OF spec] assms by auto
  obtain codewords where codewords: "interleave built version = Inr codewords"
    "length codewords = dataCodewords spec + length (vs_blocks spec) * vs_ecPerBlock spec" "deinterleave spec codewords = built"
    using interleave_roundtrip [OF spec(1) built(2)] by auto
  obtain reserved where reserved: "functionMask version = Inr reserved" using functionMask_eq [OF spec(1)] by metis
  obtain patterns where patterns: "drawFunctionPatterns version (emptyGrid (qrSize version)) = Inr patterns"
    "square (qrSize version) patterns"
    using drawFunctionPatterns_eq [OF spec(1)] by metis
  obtain m where "m < 8" "encode_bytes bytes = Inr \<lparr>qm_version = version, qm_size = qrSize version, qm_mask = m,
      qm_modules = candidate (placeData patterns reserved codewords) reserved m\<rparr>"
    using encode_bytes_eq [OF spec(1) v built(1) codewords(1) reserved patterns(1)] by metis
  moreover from this have "scanQr (candidate (placeData patterns reserved codewords) reserved m) = Some bytes"
    using scan_candidate [OF spec(1) reserved _ patterns(2) codewords(2), of m] built(3) codewords(3) by simp
  ultimately show ?thesis by simp
qed

section \<open>Rendering\<close>

text \<open>A text is a list of code points. The upper half block, the lower half block and the full block
  are \<open>0x2580\<close>, \<open>0x2584\<close> and \<open>0x2588\<close>; an escape sequence starts with \<open>0x1b\<close>.\<close>

type_synonym code_points = "nat list"

definition QUIET_ZONE :: nat where
  "QUIET_ZONE = 4"

definition ascii :: "string \<Rightarrow> code_points" where
  "ascii s = map of_char s"

definition render_dark :: "qr_matrix \<Rightarrow> nat \<Rightarrow> nat \<Rightarrow> bool" where
  "render_dark matrix row column =
     (let y = int row - int QUIET_ZONE; x = int column - int QUIET_ZONE
      in if y < 0 \<or> x < 0 \<or> int (qm_size matrix) \<le> y \<or> int (qm_size matrix) \<le> x then False
         else module_at (qm_modules matrix) y x)"

definition half_block :: "bool \<Rightarrow> bool \<Rightarrow> nat" where
  "half_block upper lower = (if upper \<and> lower then 0x2588 else if upper then 0x2580 else if lower then 0x2584 else 0x20)"

definition color_codes :: "bool \<Rightarrow> bool \<Rightarrow> code_points" where
  "color_codes upper lower = ascii (if upper then ''30'' else ''97'') @ ascii '';'' @ ascii (if lower then ''40'' else ''107'')"

text \<open>One character of a line: the line so far and the codes last written.\<close>

fun render_cell :: "bool \<Rightarrow> bool \<times> bool \<Rightarrow> code_points \<times> code_points \<Rightarrow> code_points \<times> code_points" where
  "render_cell color (upper, lower) (line, previous) =
     (if \<not> color then (line @ [half_block upper lower], previous)
      else
        let codes = color_codes upper lower
        in if codes \<noteq> previous then (line @ [0x1b] @ ascii ''['' @ codes @ ascii ''m'' @ [0x2580], codes)
           else (line @ [0x2580], previous))"

definition render_line :: "qr_matrix \<Rightarrow> bool \<Rightarrow> nat \<Rightarrow> nat \<Rightarrow> code_points" where
  "render_line matrix color width row =
     (let cells = map (\<lambda>column. (render_dark matrix row column, row + 1 < width \<and> render_dark matrix (row + 1) column)) [0..<width];
          line = fst (fold (render_cell color) cells ([], []))
      in if color then line @ [0x1b] @ ascii ''[0m'' else line)"

fun join_lines :: "code_points list \<Rightarrow> code_points" where
  "join_lines [] = []"
| "join_lines [line] = line"
| "join_lines (line # lines) = line @ [10] @ join_lines lines"

definition renderQr :: "qr_matrix \<Rightarrow> bool \<Rightarrow> code_points" where
  "renderQr matrix color =
     (let width = qm_size matrix + QUIET_ZONE * 2
      in join_lines (map (\<lambda>i. render_line matrix color width (2 * i)) [0..<(width + 1) div 2]))"

text \<open>What a terminal without colours shows: every character is two modules, one above the other.\<close>

definition read_block :: "nat \<Rightarrow> bool \<times> bool" where
  "read_block c = (c = 0x2588 \<or> c = 0x2580, c = 0x2588 \<or> c = 0x2584)"

fun split_lines :: "code_points \<Rightarrow> code_points list" where
  "split_lines [] = [[]]"
| "split_lines (c # cs) =
     (if c = 10 then [] # split_lines cs
      else case split_lines cs of [] \<Rightarrow> [[c]] | line # lines \<Rightarrow> (c # line) # lines)"

definition shown_at :: "code_points \<Rightarrow> nat \<Rightarrow> nat \<Rightarrow> bool" where
  "shown_at text row column =
     (let block = read_block (split_lines text ! (row div 2) ! column) in if row mod 2 = 0 then fst block else snd block)"

lemma read_half_block: "read_block (half_block upper lower) = (upper, lower)"
  by (simp add: read_block_def half_block_def)

lemma plain_cells: "fst (fold (render_cell False) cells (line, previous)) = line @ map (\<lambda>(upper, lower). half_block upper lower) cells"
  by (induction cells arbitrary: line) auto

lemma split_line: "10 \<notin> set line \<Longrightarrow> split_lines line = [line]"
  by (induction line) auto

lemma split_line_append: "10 \<notin> set line \<Longrightarrow> split_lines (line @ 10 # rest) = line # split_lines rest"
  by (induction line) auto

lemma split_join: "lines \<noteq> [] \<Longrightarrow> \<forall>line \<in> set lines. 10 \<notin> set line \<Longrightarrow> split_lines (join_lines lines) = lines"
  by (induction lines rule: join_lines.induct) (simp_all add: split_line split_line_append)

lemma plain_line:
  "render_line matrix False width row =
     map (\<lambda>column. half_block (render_dark matrix row column) (row + 1 < width \<and> render_dark matrix (row + 1) column)) [0..<width]"
  by (simp add: render_line_def Let_def plain_cells)

lemma half_block_not_newline: "half_block upper lower \<noteq> 10"
  by (simp add: half_block_def)

text \<open>The rendering without colours shows the symbol: reading its half blocks back, two rows to a
  line, gives every module of the symbol and of the quiet zone around it.\<close>

theorem render_shows_symbol:
  assumes "row < qm_size matrix + 8" "column < qm_size matrix + 8"
  shows "shown_at (renderQr matrix False) row column = render_dark matrix row column"
proof -
  define width where "width = qm_size matrix + QUIET_ZONE * 2"
  have width: "width = qm_size matrix + 8" by (simp add: width_def QUIET_ZONE_def)
  let ?lines = "map (\<lambda>i. render_line matrix False width (2 * i)) [0..<(width + 1) div 2]"
  have "split_lines (renderQr matrix False) = ?lines"
    unfolding renderQr_def Let_def width_def [symmetric]
    by (rule split_join) (auto simp: plain_line width half_block_not_newline [symmetric])
  moreover have half: "row div 2 < (width + 1) div 2" using assms width by simp
  ultimately have block: "read_block (split_lines (renderQr matrix False) ! (row div 2) ! column) =
      (render_dark matrix (2 * (row div 2)) column,
       2 * (row div 2) + 1 < width \<and> render_dark matrix (2 * (row div 2) + 1) column)"
    using assms width by (simp add: plain_line read_half_block)
  show ?thesis
  proof (cases "row mod 2 = 0")
    case True
    then have "2 * (row div 2) = row" by auto
    with True block show ?thesis by (simp add: shown_at_def Let_def)
  next
    case False
    then have "2 * (row div 2) + 1 = row" by presburger
    with False block assms width show ?thesis by (simp add: shown_at_def Let_def)
  qed
qed

lemma render_shows_symbol_witness:
  "shown_at (renderQr \<lparr>qm_version = 1, qm_size = 1, qm_mask = 0, qm_modules = [[True]]\<rparr> False) 4 4"
  using render_shows_symbol [of 4 "\<lparr>qm_version = 1, qm_size = 1, qm_mask = 0, qm_modules = [[True]]\<rparr>" 4]
  by (simp add: render_dark_def QUIET_ZONE_def module_at_def)

section \<open>The encoder and its reader\<close>

text \<open>C7: a symbol reads back as the text it was made from: the encoder refuses exactly the texts of more
  than 106 bytes, and every other text becomes a symbol from which the reader, knowing only the modules,
  recovers its bytes.\<close>

theorem encodeQr_scans:
  "case encodeQr text of
     Inr q \<Rightarrow> length (utf8 text) \<le> 106 \<and> scanQr (qm_modules q) = Some (utf8 text)
   | Inl e \<Rightarrow> 106 < length (utf8 text) \<and> e = Error ''Text is too long for this QR encoder''"
proof (cases "length (utf8 text) \<le> 106")
  case True
  with scan_encode [OF True] show ?thesis by (auto simp: encodeQr_def)
next
  case False
  then have "encodeQr text = Inl (Error ''Text is too long for this QR encoder'')"
    by (simp add: encodeQr_def encode_bytes_def choose_table)
  with False show ?thesis by simp
qed

text \<open>The modules the function patterns leave free hold the codewords of the version exactly: eight
  for every data and error correction codeword, and the remainder bits of the published table.\<close>

theorem capacity_exact:
  assumes "specFor version = Inr spec"
  shows "\<exists>reserved. functionMask version = Inr reserved \<and>
    length (free_modules version reserved) =
      8 * (dataCodewords spec + length (vs_blocks spec) * vs_ecPerBlock spec) + vs_remainderBits spec \<and>
    distinct (free_modules version reserved)"
  using functionMask_eq [OF assms] free_modules_eq [OF assms] by metis

lemma capacity_exact_witness:
  "\<exists>reserved. functionMask 6 = Inr reserved \<and> length (free_modules 6 reserved) = 1383"
  using capacity_exact [of 6 "VERSIONS ! 5"] by (simp add: specFor_def VERSIONS_def dataCodewords_def) blast

text \<open>The mask of a symbol is the first of the eight whose candidate has the least penalty.\<close>

theorem mask_least:
  assumes "encode_bytes bytes = Inr q"
  shows "qm_mask q < 8 \<and> (\<exists>grid reserved. functionMask (qm_version q) = Inr reserved \<and>
    qm_modules q = candidate grid reserved (qm_mask q) \<and>
    (\<forall>i < 8. penalty (qm_modules q) \<le> penalty (candidate grid reserved i)) \<and>
    (\<forall>i < qm_mask q. penalty (qm_modules q) < penalty (candidate grid reserved i)))"
proof -
  obtain version where v: "chooseVersion (length bytes) = Inr version"
    using assms by (cases "chooseVersion (length bytes)") (simp_all add: encode_bytes_def)
  obtain spec where spec: "specFor version = Inr spec" "length bytes + 2 \<le> dataCodewords spec"
    using chosen_spec [OF v] .
  obtain built where built: "buildCodewords bytes version = Inr built" "length built = dataCodewords spec"
    using buildCodewords_eq [OF spec] by metis
  obtain codewords where codewords: "interleave built version = Inr codewords"
    using interleave_roundtrip [OF spec(1) built(2)] by auto
  obtain reserved where reserved: "functionMask version = Inr reserved" using functionMask_eq [OF spec(1)] by metis
  obtain patterns where patterns: "drawFunctionPatterns version (emptyGrid (qrSize version)) = Inr patterns"
    using drawFunctionPatterns_eq [OF spec(1)] by metis
  obtain m where m: "m < 8" "encode_bytes bytes = Inr \<lparr>qm_version = version, qm_size = qrSize version, qm_mask = m,
      qm_modules = candidate (placeData patterns reserved codewords) reserved m\<rparr>"
    "\<forall>i < 8. penalty (candidate (placeData patterns reserved codewords) reserved m) \<le>
       penalty (candidate (placeData patterns reserved codewords) reserved i)"
    "\<forall>i < m. penalty (candidate (placeData patterns reserved codewords) reserved m) <
       penalty (candidate (placeData patterns reserved codewords) reserved i)"
    by (rule encode_bytes_eq [OF spec(1) v built(1) codewords reserved patterns])
  from m(2) assms have q: "q = \<lparr>qm_version = version, qm_size = qrSize version, qm_mask = m,
      qm_modules = candidate (placeData patterns reserved codewords) reserved m\<rparr>" by simp
  have "functionMask (qm_version q) = Inr reserved \<and>
      qm_modules q = candidate (placeData patterns reserved codewords) reserved (qm_mask q)"
    by (simp add: q reserved)
  with m(1,3,4) show ?thesis by (auto simp: q)
qed

lemma mask_least_witness: "\<exists>q. encode_bytes [72, 105] = Inr q \<and> qm_mask q < 8"
proof -
  obtain q where q: "encode_bytes [72, 105] = Inr q" using scan_encode [of "[72, 105]"] by auto
  from mask_least [OF q] q show ?thesis by blast
qed

section \<open>The run penalty\<close>

text \<open>The rule as the standard states it: every maximal run of five or more modules of one colour
  counts three and one more for each module beyond the fifth.\<close>

function run_lengths :: "bool list \<Rightarrow> nat list" where
  "run_lengths [] = []"
| "run_lengths (x # xs) = Suc (length (takeWhile (\<lambda>y. y = x) xs)) # run_lengths (dropWhile (\<lambda>y. y = x) xs)"
  by pat_completeness auto
termination by (relation "measure length") (auto intro: le_imp_less_Suc length_dropWhile_le)

definition run_score :: "nat \<Rightarrow> nat" where
  "run_score run = (if 5 \<le> run then 3 + (run - 5) else 0)"

fun scan_runs :: "bool \<Rightarrow> bool list \<Rightarrow> nat \<times> nat \<Rightarrow> nat \<times> nat" where
  "scan_runs x [] s = s"
| "scan_runs x (y # ys) (score, run) = scan_runs y ys (if y = x then (score, run + 1) else (score + run_score run, 1))"

lemma fold_run_step:
  "i < length line \<Longrightarrow> fold (run_step line) [Suc i..<length line] s = scan_runs (line ! i) (drop (Suc i) line) s"
proof (induction "length line - i" arbitrary: i s)
  case (Suc d)
  show ?case
  proof (cases "Suc i < length line")
    case True
    then have "[Suc i..<length line] = Suc i # [Suc (Suc i)..<length line]" by (rule upt_conv_Cons)
    moreover have "drop (Suc i) line = line ! Suc i # drop (Suc (Suc i)) line" using True by (rule Cons_nth_drop_Suc [symmetric])
    ultimately show ?thesis
      using Suc.hyps(1) [of "Suc i" "run_step line (Suc i) s"] Suc.hyps(2) True
      by (cases s) (simp add: run_score_def add.assoc)
  next
    case False
    then show ?thesis by simp
  qed
qed simp

lemma scan_runs_score:
  "(case scan_runs x xs (score, run) of (s, r) \<Rightarrow> s + run_score r) =
   score + run_score (run + length (takeWhile (\<lambda>y. y = x) xs)) +
   sum_list (map run_score (run_lengths (dropWhile (\<lambda>y. y = x) xs)))"
proof (induction xs arbitrary: x score run)
  case (Cons y ys)
  show ?case using Cons.IH [of x score "run + 1"] Cons.IH [of y "score + run_score run" 1] by (cases "y = x") simp_all
qed simp

text \<open>The single pass that scores the runs of a line scores every maximal run as the standard does.\<close>

theorem runPenalty_by_runs: "runPenalty line = sum_list (map run_score (run_lengths line))"
proof (cases line)
  case (Cons x xs)
  have "runPenalty line = (case scan_runs x xs (0, 1) of (s, r) \<Rightarrow> s + run_score r)"
    using fold_run_step [of 0 line "(0, 1)"] Cons by (simp add: runPenalty_def run_score_def split: prod.splits)
  also have "\<dots> = sum_list (map run_score (run_lengths line))"
    unfolding scan_runs_score Cons by simp
  finally show ?thesis .
qed (simp add: runPenalty_def)

end
