(* ===== verification/Sha256.thy ===== *)
theory Sha256
  imports Json "HOL-Library.Word"
begin

text \<open>
  The digest behind the opaque session id (activity/contract.ts, \<open>opaqueSessionId\<close>): the word array
  of the padded message, the message schedule, the rounds and the hexadecimal text, on words of 32
  bits. The second half states SHA-256 as FIPS 180-4 does, with the constants as digits of cube and
  square roots of primes, and proves the code equal to it.
\<close>

unbundle bit_operations_syntax

section \<open>The code\<close>

text \<open>\<open>words[index >>> 2] = words[index >>> 2]! | byte << (24 - (index % 4) * 8)\<close>\<close>

definition put_byte :: "nat \<times> nat \<Rightarrow> 32 word list \<Rightarrow> 32 word list" where
  "put_byte = (\<lambda>(i, b) ws. ws[i div 4 := ws ! (i div 4) OR push_bit (24 - i mod 4 * 8) (of_nat b)])"

definition message_words :: "nat list \<Rightarrow> 32 word list" where
  "message_words bytes =
     (let n = length bytes; empty = replicate ((n + 9 + 63) div 64 * 16) 0;
          filled = put_byte (n, 0x80) (fold put_byte (zip [0..<n] bytes) empty)
      in filled[length filled - 1 := of_nat (n * 8)])"

definition SHA_K :: "32 word list" where
  "SHA_K =
     concat
      [[0x428a2f98, 0x71374491, 0xb5c0fbcf, 0xe9b5dba5, 0x3956c25b, 0x59f111f1, 0x923f82a4, 0xab1c5ed5],
       [0xd807aa98, 0x12835b01, 0x243185be, 0x550c7dc3, 0x72be5d74, 0x80deb1fe, 0x9bdc06a7, 0xc19bf174],
       [0xe49b69c1, 0xefbe4786, 0x0fc19dc6, 0x240ca1cc, 0x2de92c6f, 0x4a7484aa, 0x5cb0a9dc, 0x76f988da],
       [0x983e5152, 0xa831c66d, 0xb00327c8, 0xbf597fc7, 0xc6e00bf3, 0xd5a79147, 0x06ca6351, 0x14292967],
       [0x27b70a85, 0x2e1b2138, 0x4d2c6dfc, 0x53380d13, 0x650a7354, 0x766a0abb, 0x81c2c92e, 0x92722c85],
       [0xa2bfe8a1, 0xa81a664b, 0xc24b8b70, 0xc76c51a3, 0xd192e819, 0xd6990624, 0xf40e3585, 0x106aa070],
       [0x19a4c116, 0x1e376c08, 0x2748774c, 0x34b0bcb5, 0x391c0cb3, 0x4ed8aa4a, 0x5b9cca4f, 0x682e6ff3],
       [0x748f82ee, 0x78a5636f, 0x84c87814, 0x8cc70208, 0x90befffa, 0xa4506ceb, 0xbef9a3f7, 0xc67178f2]]"

definition SHA_H :: "32 word list" where
  "SHA_H = [0x6a09e667, 0xbb67ae85, 0x3c6ef372, 0xa54ff53a, 0x510e527f, 0x9b05688c, 0x1f83d9ab, 0x5be0cd19]"

definition rotate :: "32 word \<Rightarrow> nat \<Rightarrow> 32 word" where
  "rotate n shift = drop_bit shift n OR push_bit (32 - shift) n"

text \<open>The schedule fills an array of 64 words from left to right; an entry reads only earlier ones.\<close>

definition schedule_step :: "32 word list \<Rightarrow> nat \<Rightarrow> 32 word list \<Rightarrow> nat \<Rightarrow> 32 word list" where
  "schedule_step words offset w i =
     (let x = (if 15 \<le> i then w ! (i - 15) else 0); y = (if 2 \<le> i then w ! (i - 2) else 0)
      in w @ [if i < 16 then words ! (offset + i)
              else w ! (i - 16) + (rotate x 7 XOR rotate x 18 XOR drop_bit 3 x) + w ! (i - 7) +
                   (rotate y 17 XOR rotate y 19 XOR drop_bit 10 y)])"

definition schedule :: "32 word list \<Rightarrow> nat \<Rightarrow> 32 word list" where
  "schedule words offset = foldl (schedule_step words offset) [] [0..<64]"

type_synonym chain = "32 word \<times> 32 word \<times> 32 word \<times> 32 word \<times> 32 word \<times> 32 word \<times> 32 word \<times> 32 word"

fun sha_round :: "32 word list \<Rightarrow> chain \<Rightarrow> nat \<Rightarrow> chain" where
  "sha_round w (a, b, c, d, e, f, g, j) i =
     (let t1 = j + (rotate e 6 XOR rotate e 11 XOR rotate e 25) + ((e AND f) XOR (NOT e AND g)) + SHA_K ! i + w ! i;
          t2 = (rotate a 2 XOR rotate a 13 XOR rotate a 22) + ((a AND b) XOR (a AND c) XOR (b AND c))
      in (t1 + t2, a, b, c, d + t1, e, f, g))"

fun chain_of :: "32 word list \<Rightarrow> chain" where
  "chain_of [a, b, c, d, e, f, g, j] = (a, b, c, d, e, f, g, j)"
| "chain_of _ = (0, 0, 0, 0, 0, 0, 0, 0)"

fun chain_words :: "chain \<Rightarrow> 32 word list" where
  "chain_words (a, b, c, d, e, f, g, j) = [a, b, c, d, e, f, g, j]"

definition sha_block :: "32 word list \<Rightarrow> 32 word list \<Rightarrow> nat \<Rightarrow> 32 word list" where
  "sha_block words h offset =
     map2 (+) h (chain_words (foldl (sha_round (schedule words offset)) (chain_of h) [0..<64]))"

text \<open>\<open>value.toString(16).padStart(8, "0")\<close>\<close>

fun show_hex :: "nat \<Rightarrow> string" where
  "show_hex n = (if n < 16 then [hex_lower n] else show_hex (n div 16) @ [hex_lower (n mod 16)])"

declare show_hex.simps [simp del]

definition hex8 :: "32 word \<Rightarrow> string" where
  "hex8 w = (let s = show_hex (unat w) in replicate (8 - length s) (CHR ''0'') @ s)"

definition sha256_text :: "nat list \<Rightarrow> string" where
  "sha256_text bytes =
     (let words = message_words bytes
      in concat (map hex8 (foldl (sha_block words) SHA_H (map (\<lambda>i. 16 * i) [0..<length words div 16]))))"

section \<open>The text of a digest\<close>

lemma show_hex_digits: "list_all (\<lambda>c. is_digit c \<or> CHR ''a'' \<le> c \<and> c \<le> CHR ''f'') (show_hex n)"
proof (induction n rule: show_hex.induct)
  case (1 n)
  have "\<forall>m < 16. is_digit (hex_lower m) \<or> CHR ''a'' \<le> hex_lower m \<and> hex_lower m \<le> CHR ''f''" by code_simp
  then have "m < 16 \<Longrightarrow> is_digit (hex_lower m) \<or> CHR ''a'' \<le> hex_lower m \<and> hex_lower m \<le> CHR ''f''" for m by blast
  then show ?case using 1 by (subst show_hex.simps) (simp split: if_split)
qed

lemma length_show_hex: "n < 16 ^ Suc k \<Longrightarrow> length (show_hex n) \<le> Suc k"
proof (induction k arbitrary: n)
  case (Suc k)
  then have "n div 16 < 16 ^ Suc k" by (simp add: less_mult_imp_div_less mult.commute)
  from Suc.IH [OF this] show ?case by (subst show_hex.simps) simp
qed (simp add: show_hex.simps)

definition hex_text :: "nat \<Rightarrow> string \<Rightarrow> bool" where
  "hex_text n s \<longleftrightarrow> length s = n \<and> list_all (\<lambda>c. is_digit c \<or> CHR ''a'' \<le> c \<and> c \<le> CHR ''f'') s"

lemma hex8_text: "hex_text 8 (hex8 w)"
proof -
  have "unat w < 16 ^ Suc 7" using unsigned_less [of w] by simp
  then have "length (show_hex (unat w)) \<le> 8" using length_show_hex [of "unat w" 7] by simp
  moreover have "is_digit CHR ''0''" by code_simp
  ultimately show ?thesis using show_hex_digits [of "unat w"] by (auto simp: hex_text_def hex8_def Let_def list_all_iff)
qed

lemma length_chain_words [simp]: "length (chain_words c) = 8"
  by (cases c rule: chain_words.cases) simp

lemma length_sha_block [simp]: "length h = 8 \<Longrightarrow> length (sha_block words h i) = 8"
  by (simp add: sha_block_def)

lemma length_sha_blocks: "length h = 8 \<Longrightarrow> length (foldl (sha_block words) h is) = 8"
  by (induction "is" arbitrary: h) simp_all

lemma hex_texts: "hex_text (8 * length ws) (concat (map hex8 ws))"
  by (induction ws) (use hex8_text in \<open>auto simp: hex_text_def\<close>)

lemma sha256_hex: "hex_text 64 (sha256_text bytes)"
proof -
  have "length (foldl (sha_block words) SHA_H is) = 8" for words "is"
    by (rule length_sha_blocks) (simp add: SHA_H_def)
  then show ?thesis using hex_texts by (metis (no_types, lifting) mult_numeral_left_semiring_numeral sha256_text_def
      numeral_times_numeral semiring_norm(12,13,14))
qed

section \<open>SHA-256 as the standard states it\<close>

text \<open>FIPS 180-4, section 5.1.1: one bit, zeros up to eight bytes before a block ends, and the length in bits.\<close>

definition eight_bytes :: "nat \<Rightarrow> nat list" where
  "eight_bytes n = map (\<lambda>i. n div 256 ^ i mod 256) [7, 6, 5, 4, 3, 2, 1, 0]"

definition padded :: "nat list \<Rightarrow> nat list" where
  "padded bytes = bytes @ 0x80 # replicate ((119 - length bytes mod 64) mod 64) 0 @ eight_bytes (8 * length bytes)"

definition block_word :: "nat list \<Rightarrow> nat \<Rightarrow> 32 word" where
  "block_word block t = of_nat (foldl (\<lambda>n b. 256 * n + b) 0 (take 4 (drop (4 * t) block)))"

definition small_sigma :: "nat \<Rightarrow> nat \<Rightarrow> nat \<Rightarrow> 32 word \<Rightarrow> 32 word" where
  "small_sigma a b c x = word_rotr a x XOR word_rotr b x XOR drop_bit c x"

definition big_sigma :: "nat \<Rightarrow> nat \<Rightarrow> nat \<Rightarrow> 32 word \<Rightarrow> 32 word" where
  "big_sigma a b c x = word_rotr a x XOR word_rotr b x XOR word_rotr c x"

fun message_schedule :: "nat list \<Rightarrow> nat \<Rightarrow> 32 word" where
  "message_schedule block t =
     (if t < 16 then block_word block t
      else small_sigma 17 19 10 (message_schedule block (t - 2)) + message_schedule block (t - 7) +
           small_sigma 7 18 3 (message_schedule block (t - 15)) + message_schedule block (t - 16))"

declare message_schedule.simps [simp del]

definition sha_choose :: "32 word \<Rightarrow> 32 word \<Rightarrow> 32 word \<Rightarrow> 32 word" where
  "sha_choose x y z = (x AND y) XOR (NOT x AND z)"

definition majority :: "32 word \<Rightarrow> 32 word \<Rightarrow> 32 word \<Rightarrow> 32 word" where
  "majority x y z = (x AND y) XOR (x AND z) XOR (y AND z)"

fun standard_round :: "nat list \<Rightarrow> chain \<Rightarrow> nat \<Rightarrow> chain" where
  "standard_round block (a, b, c, d, e, f, g, h) t =
     (let t1 = h + big_sigma 6 11 25 e + sha_choose e f g + SHA_K ! t + message_schedule block t;
          t2 = big_sigma 2 13 22 a + majority a b c
      in (t1 + t2, a, b, c, d + t1, e, f, g))"

definition standard_block :: "32 word list \<Rightarrow> nat list \<Rightarrow> 32 word list" where
  "standard_block h block = map2 (+) h (chain_words (foldl (standard_round block) (chain_of h) [0..<64]))"

fun blocks_of :: "nat list \<Rightarrow> nat list list" where
  "blocks_of xs = (if xs = [] then [] else take 64 xs # blocks_of (drop 64 xs))"

declare blocks_of.simps [simp del]

definition standard_sha256 :: "nat list \<Rightarrow> 32 word list" where
  "standard_sha256 bytes = foldl standard_block SHA_H (blocks_of (padded bytes))"

text \<open>The constants are the first 32 bits of the fractional parts of roots of the first primes (sections 4.2.2
  and 5.3.3): \<open>c\<close> is the root times \<open>2\<^sup>3\<^sup>2\<close>, rounded down, and the constant what \<open>c\<close> leaves modulo
  \<open>2\<^sup>3\<^sup>2\<close>.\<close>

definition sha_primes :: "nat list" where
  "sha_primes =
     [2, 3, 5, 7, 11, 13, 17, 19, 23, 29, 31, 37, 41, 43, 47, 53, 59, 61, 67, 71, 73, 79, 83, 89, 97, 101, 103, 107, 109,
      113, 127, 131, 137, 139, 149, 151, 157, 163, 167, 173, 179, 181, 191, 193, 197, 199, 211, 223, 227, 229, 233, 239,
      241, 251, 257, 263, 269, 271, 277, 281, 283, 293, 307, 311]"

definition root_digits :: "nat \<Rightarrow> nat \<Rightarrow> 32 word \<Rightarrow> bool" where
  "root_digits k p w \<longleftrightarrow>
     list_ex (\<lambda>i. let c = i * 2 ^ 32 + unat w in c ^ k \<le> p * 2 ^ (32 * k) \<and> p * 2 ^ (32 * k) < (c + 1) ^ k) [1, 2, 3, 4, 5, 6]"

lemma root_digits_3:
  "root_digits 3 p w \<longleftrightarrow> (\<exists>i \<in> {1, 2, 3, 4, 5, 6}. (i * 4294967296 + unat w) ^ 3 \<le> p * 79228162514264337593543950336 \<and>
     p * 79228162514264337593543950336 < (i * 4294967296 + unat w + 1) ^ 3)"
  by (simp add: root_digits_def Let_def)

lemma root_digits_2:
  "root_digits 2 p w \<longleftrightarrow> (\<exists>i \<in> {1, 2, 3, 4, 5, 6}. (i * 4294967296 + unat w) ^ 2 \<le> p * 18446744073709551616 \<and>
     p * 18446744073709551616 < (i * 4294967296 + unat w + 1) ^ 2)"
  by (simp add: root_digits_def Let_def)

lemma roots_3:
  assumes "list_all (\<lambda>(i, p, w). i \<in> {1, 2, 3, 4, 5, 6} \<and>
      (i * 4294967296 + unat w) ^ 3 \<le> p * 79228162514264337593543950336 \<and>
      p * 79228162514264337593543950336 < (i * 4294967296 + unat w + 1) ^ 3) (zip roots (zip ps ws))"
    and "length roots = length ps" "length ws = length ps"
  shows "list_all2 (root_digits 3) ps ws"
  using assms(2,1,3)
proof (induction roots ps arbitrary: ws rule: list_induct2)
  case (Cons i roots p ps)
  then obtain w vs where ws: "ws = w # vs" by (cases ws) auto
  have "root_digits 3 p w" using Cons.prems(1) unfolding root_digits_3 ws zip_Cons_Cons list.pred_inject prod.case by blast
  then show ?case using Cons.IH [of vs] Cons.prems unfolding ws by simp
qed simp

lemma sha_constants:
  "list_all2 (root_digits 3) sha_primes SHA_K"
  "list_all2 (root_digits 2) (take 8 sha_primes) SHA_H"
proof -
  let ?is = "[1, 1, 1, 1, 2, 2, 2, 2, 2, 3, 3, 3, 3, 3, 3, 3, 3, 3, 4, 4, 4, 4, 4, 4, 4, 4, 4, 4, 4, 4, 5, 5, 5, 5, 5, 5, 5, 5, 5, 5, 5, 5, 5, 5, 5, 5, 5, 6, 6, 6, 6, 6, 6, 6, 6, 6, 6, 6, 6, 6, 6, 6, 6, 6]"
  show "list_all2 (root_digits 3) sha_primes SHA_K"
    by (rule roots_3 [where roots = ?is]) (simp_all add: sha_primes_def SHA_K_def)
  show "list_all2 (root_digits 2) (take 8 sha_primes) SHA_H"
    by (simp add: sha_primes_def SHA_H_def root_digits_2)
qed

section \<open>The code computes the standard's digest\<close>

lemma rotate_rotr: "0 < n \<Longrightarrow> n < 32 \<Longrightarrow> rotate x n = word_rotr n x"
proof (rule bit_word_eqI)
  fix i :: nat assume n: "0 < n" "n < 32" and i: "i < LENGTH(32)"
  have "bit (word_rotr n x) i \<longleftrightarrow> bit x ((i + n) mod 32)"
    using i by (simp add: bit_word_rotr_iff)
  moreover have "bit (rotate x n) i \<longleftrightarrow> bit x (i + n) \<or> 32 \<le> i + n \<and> bit x (i + n - 32)"
    using n i by (auto simp: rotate_def bit_or_iff bit_drop_bit_eq bit_push_bit_iff add.commute)
  moreover have "(i + n) mod 32 = (if i + n < 32 then i + n else i + n - 32)" using n i by (simp add: mod_if)
  ultimately show "bit (rotate x n) i \<longleftrightarrow> bit (word_rotr n x) i"
    using bit_imp_le_length [of x "i + n"] by auto
qed

definition byte_at :: "nat list \<Rightarrow> nat \<Rightarrow> nat" where
  "byte_at xs i = (if i < length xs then xs ! i else 0)"

definition word_at :: "nat list \<Rightarrow> nat \<Rightarrow> 32 word" where
  "word_at xs j =
     push_bit 24 (of_nat (byte_at xs (4 * j))) OR push_bit 16 (of_nat (byte_at xs (4 * j + 1))) OR
     push_bit 8 (of_nat (byte_at xs (4 * j + 2))) OR of_nat (byte_at xs (4 * j + 3))"

lemma byte_at_snoc: "byte_at (xs @ [b]) i = (if i = length xs then b else byte_at xs i)"
  by (simp add: byte_at_def nth_append)

lemma byte_at_append: "byte_at (xs @ ys) i = (if i < length xs then byte_at xs i else byte_at ys (i - length xs))"
  by (auto simp: byte_at_def nth_append)

lemma byte_at_zeros: "byte_at (xs @ replicate k 0) i = byte_at xs i"
  by (simp add: byte_at_append) (simp add: byte_at_def)

lemma word_at_snoc:
  "word_at (xs @ [b]) j =
     (if j = length xs div 4 then word_at xs j OR push_bit (24 - length xs mod 4 * 8) (of_nat b) else word_at xs j)"
proof -
  let ?n = "length xs"
  have beyond: "byte_at xs i = 0" if "?n \<le> i" for i using that by (simp add: byte_at_def)
  have n: "?n = 4 * (?n div 4) + ?n mod 4" by simp
  show ?thesis
  proof (cases "j = ?n div 4")
    case True
    have "?n mod 4 < 4" by simp
    then consider "?n mod 4 = 0" | "?n mod 4 = 1" | "?n mod 4 = 2" | "?n mod 4 = 3" by linarith
    then show ?thesis
      by cases (use n True in \<open>simp_all add: word_at_def byte_at_snoc beyond ac_simps\<close>)
  next
    case False
    then have "4 * j + i \<noteq> ?n" if "i < 4" for i using that by auto
    from this [of 0] this [of 1] this [of 2] this [of 3] show ?thesis
      using False by (simp add: word_at_def byte_at_snoc)
  qed
qed

lemma put_bytes:
  assumes "length xs \<le> 4 * m"
  shows "fold put_byte (zip [0..<length xs] xs) (replicate m 0) = map (word_at xs) [0..<m]"
  using assms
proof (induction xs rule: rev_induct)
  case Nil
  have "word_at [] j = 0" for j by (simp add: word_at_def byte_at_def)
  then show ?case by (simp add: map_replicate_const)
next
  case (snoc b xs)
  then have "fold put_byte (zip [0..<length (xs @ [b])] (xs @ [b])) (replicate m 0) =
      put_byte (length xs, b) (map (word_at xs) [0..<m])"
    by simp
  also have "\<dots> = map (word_at (xs @ [b])) [0..<m]"
  proof (rule nth_equalityI)
    fix j assume "j < length (put_byte (length xs, b) (map (word_at xs) [0..<m]))"
    then have "j < m" by (simp add: put_byte_def)
    then show "put_byte (length xs, b) (map (word_at xs) [0..<m]) ! j = map (word_at (xs @ [b])) [0..<m] ! j"
      using snoc.prems by (cases "j = length xs div 4") (simp_all add: put_byte_def word_at_snoc)
  qed (simp add: put_byte_def)
  finally show ?case .
qed

lemma or_byte: "b < 256 \<Longrightarrow> push_bit 8 w OR of_nat b = 256 * w + (of_nat b :: 32 word)"
proof -
  assume b: "b < 256"
  have "\<not> bit (push_bit 8 w) i \<or> \<not> bit (of_nat b :: 32 word) i" for i
  proof (cases "i < 8")
    case False
    have "take_bit 8 b = b" using b by (simp add: take_bit_nat_eq_self_iff)
    then have "\<not> bit b i" using False by (metis bit_take_bit_iff)
    then show ?thesis by (simp add: bit_of_nat_iff)
  qed (simp add: bit_push_bit_iff)
  then have "push_bit 8 w OR of_nat b = push_bit 8 w + (of_nat b :: 32 word)" by (simp add: disjunctive_add)
  then show ?thesis by (simp add: push_bit_eq_mult)
qed

lemma word_at_value:
  assumes "list_all (\<lambda>b. b < 256) xs" "4 * j + 4 \<le> length xs"
  shows "word_at xs j = of_nat (foldl (\<lambda>n b. 256 * n + b) 0 (take 4 (drop (4 * j) xs)))"
proof -
  have four: "take 4 (drop (4 * j) xs) = [xs ! (4 * j), xs ! (4 * j + 1), xs ! (4 * j + 2), xs ! (4 * j + 3)]"
    using assms(2) by (intro nth_equalityI) (auto simp: less_Suc_eq numeral_eq_Suc)
  have small: "xs ! (4 * j + i) < 256" if "i < 4" for i using assms that by (simp add: list_all_length)
  have "word_at xs j = push_bit 8 (push_bit 8 (push_bit 8 (of_nat (xs ! (4 * j))) OR of_nat (xs ! (4 * j + 1))) OR
      of_nat (xs ! (4 * j + 2))) OR of_nat (xs ! (4 * j + 3))"
    using assms(2) by (simp add: word_at_def byte_at_def push_bit_or ac_simps)
  also have "\<dots> = 256 * (256 * (256 * of_nat (xs ! (4 * j)) + of_nat (xs ! (4 * j + 1))) + of_nat (xs ! (4 * j + 2))) +
      of_nat (xs ! (4 * j + 3))"
    using small [of 1] small [of 2] small [of 3] by (simp only: or_byte)
  finally show ?thesis unfolding four by simp
qed

lemma length_padded:
  "length (padded bytes) = 64 * ((length bytes + 72) div 64)" "length (padded bytes) mod 64 = 0"
proof -
  let ?n = "length bytes"
  have "length (padded bytes) = ?n + 9 + (119 - ?n mod 64) mod 64" by (simp add: padded_def eight_bytes_def)
  moreover have "?n + 9 + (119 - ?n mod 64) mod 64 = 64 * ((?n + 72) div 64)"
  proof -
    obtain q r where r: "?n = 64 * q + r" "r < 64" "?n mod 64 = r" by (metis mod_less_divisor mult_div_mod_eq zero_less_numeral)
    show ?thesis
    proof (cases "r < 56")
      case True
      then have "119 - r = 55 - r + 64" by simp
      then have "(119 - r) mod 64 = 55 - r" by (simp only: mod_add_self2) (use True in simp)
      moreover have "(64 * q + r + 72) div 64 = q + 1" using True by simp
      ultimately show ?thesis using r True by simp
    next
      case False
      then have "(119 - r) mod 64 = 119 - r" by simp
      moreover have "(64 * q + r + 72) div 64 = q + 2" using False r(2) by simp
      ultimately show ?thesis using r False by simp
    qed
  qed
  ultimately show "length (padded bytes) = 64 * ((?n + 72) div 64)" by simp
  then show "length (padded bytes) mod 64 = 0" by simp
qed

lemma four_bytes:
  assumes "l < 4294967296"
  shows "foldl (\<lambda>n b. 256 * n + b) 0 (drop 4 (eight_bytes l)) = l"
proof -
  have "l div 16777216 = l div 65536 div 256" "l div 65536 = l div 256 div 256" by (simp_all flip: div_mult2_eq)
  then have "256 * (l div 16777216) + l div 65536 mod 256 = l div 65536" "256 * (l div 65536) + l div 256 mod 256 = l div 256"
    by (simp_all only: mult_div_mod_eq)
  moreover have "l div 16777216 < 256" using assms by simp
  ultimately show ?thesis by (simp add: eight_bytes_def)
qed

lemma padded_bytes: "list_all (\<lambda>b. b < 256) bytes \<Longrightarrow> list_all (\<lambda>b. b < 256) (padded bytes)"
  by (auto simp: padded_def eight_bytes_def list_all_iff)

lemma message_words_at:
  assumes "list_all (\<lambda>b. b < 256) bytes" "length bytes < 2 ^ 29"
  shows "message_words bytes = map (word_at (padded bytes)) [0..<(length bytes + 72) div 64 * 16]"
proof -
  let ?n = "length bytes"
  let ?m = "(?n + 72) div 64 * 16"
  let ?xs = "bytes @ [0x80]"
  have m: "?n + 9 \<le> 4 * ?m" "0 < ?m" "4 * ?m \<le> ?n + 72" by presburger+
  have "fold put_byte (zip [0..<?n] bytes) (replicate ?m 0) = map (word_at bytes) [0..<?m]"
    by (rule put_bytes) (use m(1) in simp)
  moreover have "put_byte (?n, 0x80) (map (word_at bytes) [0..<?m]) = map (word_at ?xs) [0..<?m]"
    using m(1) by (auto simp: put_byte_def word_at_snoc nth_list_update intro!: nth_equalityI)
  ultimately have words: "message_words bytes = (map (word_at ?xs) [0..<?m])[?m - 1 := of_nat (?n * 8)]"
    by (simp add: message_words_def Let_def add.assoc)
  let ?p = "padded bytes"
  have len: "length ?p = 4 * ?m" using length_padded(1) [of bytes] by simp
  let ?z = "replicate ((119 - ?n mod 64) mod 64) (0 :: nat)"
  have p: "?p = (?xs @ ?z) @ eight_bytes (8 * ?n)" by (simp add: padded_def)
  have lz: "length (?xs @ ?z) = 4 * ?m - 8" using len p by (simp add: eight_bytes_def)
  have eight: "eight_bytes (8 * ?n) =
      [0, 0, 0, 0, ?n div 2097152, 8 * ?n div 65536 mod 256, 8 * ?n div 256 mod 256, 8 * ?n mod 256]"
  proof -
    have n: "?n < 536870912" using assms(2) by simp
    then have "8 * ?n div 16777216 = ?n div 2097152" "?n div 2097152 < 256" by simp_all
    moreover have "8 * ?n div k = 0" if "4294967296 \<le> k" for k using n that by simp
    ultimately show ?thesis by (simp add: eight_bytes_def)
  qed
  have zero: "eight_bytes (8 * ?n) ! i = 0" if "i < 4" for i
  proof -
    have "i = 0 \<or> i = 1 \<or> i = 2 \<or> i = 3" using that by linarith
    then show ?thesis unfolding eight by auto
  qed
  have at: "byte_at ?p i = (if i < 4 * ?m - 8 then byte_at ?xs i else byte_at (eight_bytes (8 * ?n)) (i - (4 * ?m - 8)))" for i
    unfolding p byte_at_append [of "?xs @ ?z"] lz byte_at_zeros by (rule refl)
  have beyond: "byte_at ?xs i = 0" if "4 * ?m - 8 \<le> i" for i
  proof -
    have "length ?xs \<le> i" using that m(1) by simp
    then show ?thesis by (simp add: byte_at_def)
  qed
  have same: "word_at ?p j = word_at ?xs j" if "j < ?m - 1" for j
  proof -
    have "byte_at ?p (4 * j + i) = byte_at ?xs (4 * j + i)" if "i < 4" for i
      using \<open>j < ?m - 1\<close> that beyond [of "4 * j + i"] zero [of "4 * j + i - (4 * ?m - 8)"]
      by (auto simp: at byte_at_def [of "eight_bytes _"])
    from this [of 0] this [of 1] this [of 2] this [of 3] show ?thesis by (simp add: word_at_def)
  qed
  have last: "word_at ?p (?m - 1) = of_nat (?n * 8)"
  proof -
    let ?l = "8 * ?n"
    have byte: "list_all (\<lambda>b. b < 256) ?p" by (rule padded_bytes [OF assms(1)])
    have "take 4 (drop (4 * (?m - 1)) ?p) = drop 4 (eight_bytes ?l)"
    proof -
      have "4 * (?m - 1) = length (?xs @ ?z) + 4" unfolding lz using m(2) by simp
      then have "drop (4 * (?m - 1)) ?p = drop 4 (eight_bytes ?l)" unfolding p by (simp only: drop_append) simp
      then show ?thesis unfolding eight by simp
    qed
    also have "foldl (\<lambda>n b. 256 * n + b) 0 \<dots> = ?l"
      by (rule four_bytes) (use assms(2) in simp)
    finally show ?thesis using word_at_value [OF byte, of "?m - 1"] len m by (simp add: mult.commute)
  qed
  show ?thesis
    unfolding words using same last by (auto simp: nth_list_update intro!: nth_equalityI)
qed

lemma blocks_of_eq: "length xs = 64 * k \<Longrightarrow> blocks_of xs = map (\<lambda>i. take 64 (drop (64 * i) xs)) [0..<k]"
proof (induction k arbitrary: xs)
  case 0
  then show ?case by (simp add: blocks_of.simps)
next
  case (Suc k)
  then have drop: "blocks_of (drop 64 xs) = map (\<lambda>i. take 64 (drop (64 * i) (drop 64 xs))) [0..<k]" by simp
  have "map (\<lambda>i. take 64 (drop (64 * i) xs)) [0..<Suc k] = take 64 xs # map (\<lambda>i. take 64 (drop (64 * i) (drop 64 xs))) [0..<k]"
    unfolding map_upt_Suc by (simp add: add.commute)
  moreover have "blocks_of xs = take 64 xs # blocks_of (drop 64 xs)"
    using Suc.prems by (subst blocks_of.simps) auto
  ultimately show ?case using drop by (simp only:)
qed

lemma schedule_eq:
  assumes "\<And>t. t < 16 \<Longrightarrow> words ! (offset + t) = block_word block t"
  shows "schedule words offset = map (message_schedule block) [0..<64]"
proof -
  have "foldl (schedule_step words offset) [] [0..<k] = map (message_schedule block) [0..<k]" for k
  proof (induction k)
    case (Suc k)
    have "schedule_step words offset (map (message_schedule block) [0..<k]) k = map (message_schedule block) [0..<k] @ [message_schedule block k]"
    proof (cases "k < 16")
      case True
      then show ?thesis using assms by (simp add: schedule_step_def message_schedule.simps [of block k])
    next
      case False
      let ?w = "map (message_schedule block) [0..<k]"
      have earlier: "?w ! (k - n) = message_schedule block (k - n)" if "0 < n" for n using False that by simp
      have "message_schedule block k =
          small_sigma 17 19 10 (message_schedule block (k - 2)) + message_schedule block (k - 7) +
          small_sigma 7 18 3 (message_schedule block (k - 15)) + message_schedule block (k - 16)"
        using False by (subst message_schedule.simps) simp
      also have "\<dots> = ?w ! (k - 16) + small_sigma 7 18 3 (?w ! (k - 15)) + ?w ! (k - 7) + small_sigma 17 19 10 (?w ! (k - 2))"
        by (simp add: earlier del: nth_map)
      finally show ?thesis
        using False by (simp add: schedule_step_def Let_def small_sigma_def rotate_rotr del: nth_map)
    qed
    with Suc show ?case by simp
  qed simp
  then show ?thesis by (simp add: schedule_def)
qed

lemma sha_round_eq: "w ! i = message_schedule block i \<Longrightarrow> sha_round w c i = standard_round block c i"
  by (cases c rule: chain_words.cases)
    (simp add: Let_def rotate_rotr big_sigma_def sha_choose_def majority_def)

lemma sha_block_eq:
  assumes "\<And>t. t < 16 \<Longrightarrow> words ! (offset + t) = block_word block t"
  shows "sha_block words h offset = standard_block h block"
proof -
  have "foldl (sha_round (schedule words offset)) c [0..<k] = foldl (standard_round block) c [0..<k]" if "k \<le> 64" for c k
    using that
  proof (induction k)
    case (Suc k)
    then have "sha_round (schedule words offset) d k = standard_round block d k" for d
      by (intro sha_round_eq) (simp add: schedule_eq [OF assms])
    with Suc show ?case by simp
  qed simp
  then show ?thesis by (simp add: sha_block_def standard_block_def)
qed

lemma sha256_blocks:
  assumes "list_all (\<lambda>b. b < 256) bytes" "length bytes < 2 ^ 29"
  shows "sha256_text bytes = concat (map hex8 (standard_sha256 bytes))"
proof -
  let ?p = "padded bytes"
  let ?b = "(length bytes + 72) div 64"
  have byte: "list_all (\<lambda>b. b < 256) ?p" by (rule padded_bytes [OF assms(1)])
  have words: "message_words bytes = map (word_at ?p) [0..<16 * ?b]"
    using message_words_at [OF assms] by (simp add: mult.commute)
  have len: "length ?p = 64 * ?b" by (rule length_padded)
  have at: "message_words bytes ! (16 * i + t) = block_word (take 64 (drop (64 * i) ?p)) t" if "i < ?b" "t < 16" for i t
  proof -
    have "16 * i + t < 16 * ?b" using that by linarith
    then have "message_words bytes ! (16 * i + t) = word_at ?p (16 * i + t)" by (simp add: words)
    also have "\<dots> = of_nat (foldl (\<lambda>n b. 256 * n + b) 0 (take 4 (drop (4 * (16 * i + t)) ?p)))"
    proof (rule word_at_value [OF byte])
      have "64 * (i + 1) \<le> 64 * ?b" using that(1) by (intro mult_le_mono2) simp
      then show "4 * (16 * i + t) + 4 \<le> length ?p" unfolding len using that(2) by simp
    qed
    also have "take 4 (drop (4 * (16 * i + t)) ?p) = take 4 (drop (4 * t) (take 64 (drop (64 * i) ?p)))"
      using that by (simp add: drop_take add.commute)
    finally show ?thesis by (simp add: block_word_def)
  qed
  have "foldl (sha_block (message_words bytes)) h (map (\<lambda>i. 16 * i) [0..<k]) =
      foldl standard_block h (map (\<lambda>i. take 64 (drop (64 * i) ?p)) [0..<k])" if "k \<le> ?b" for h k
    using that
  proof (induction k)
    case (Suc k)
    then have "sha_block (message_words bytes) g (16 * k) = standard_block g (take 64 (drop (64 * k) ?p))" for g
      by (intro sha_block_eq at) simp_all
    with Suc show ?case by simp
  qed simp
  moreover have "length (message_words bytes) div 16 = ?b" by (simp add: words)
  ultimately show ?thesis
    by (simp add: sha256_text_def Let_def standard_sha256_def blocks_of_eq [OF len])
qed

text \<open>C11: the text the code makes of a message is the SHA-256 digest of the standard, with constants that are what
  the standard says of them, for every message of less than half a gigabyte.\<close>

theorem sha256_standard:
  assumes "list_all (\<lambda>b. b < 256) bytes" "length bytes < 2 ^ 29"
  shows "sha256_text bytes = concat (map hex8 (standard_sha256 bytes)) \<and>
    list_all2 (root_digits 3) sha_primes SHA_K \<and> list_all2 (root_digits 2) (take 8 sha_primes) SHA_H"
  using sha256_blocks [OF assms] sha_constants by blast

theorem sha256_standard_witness:
  "sha256_text [97, 98, 99] = concat (map hex8 (standard_sha256 [97, 98, 99]))"
  using sha256_standard [of "[97, 98, 99]"] by simp

end
