(* ===== verification/Activity.thy ===== *)
theory Activity
  imports Sha256 "HOL-Library.Sublist"
begin

text \<open>
  The activity protocol (activity/contract.ts): the strict reader of an event, the removal of
  duplicates from a batch, the state machine of a session, its retirement, and the records that
  leave the machine. A validated event is an \<open>activity_event\<close>; \<open>event_of\<close> is the view the type
  assertion of the source takes of an accepted value.
\<close>

section \<open>Vocabulary\<close>

datatype activity_agent =
    AgentClaudeCode | AgentCodex | AgentMuse | AgentGeminiCli | AgentCursor | AgentKimi | AgentGrok | AgentAntigravity

fun agent_str :: "activity_agent \<Rightarrow> string" where
  "agent_str AgentClaudeCode = ''claude_code''"
| "agent_str AgentCodex = ''codex''"
| "agent_str AgentMuse = ''muse''"
| "agent_str AgentGeminiCli = ''gemini_cli''"
| "agent_str AgentCursor = ''cursor''"
| "agent_str AgentKimi = ''kimi''"
| "agent_str AgentGrok = ''grok''"
| "agent_str AgentAntigravity = ''antigravity''"

definition ACTIVITY_AGENTS :: "activity_agent list" where
  "ACTIVITY_AGENTS =
     [AgentClaudeCode, AgentCodex, AgentMuse, AgentGeminiCli, AgentCursor, AgentKimi, AgentGrok, AgentAntigravity]"

interpretation agent_words: vocabulary agent_str ACTIVITY_AGENTS
proof unfold_locales
  show "agent_str x = agent_str y \<Longrightarrow> x = y" for x y by (cases x; cases y) simp_all
  show "x \<in> set ACTIVITY_AGENTS" for x by (cases x) (simp_all add: ACTIVITY_AGENTS_def)
qed

datatype activity_state = ActBusy | ActWaiting | ActDone | ActIdle | ActUnknown

fun activity_state_str :: "activity_state \<Rightarrow> string" where
  "activity_state_str ActBusy = ''busy''"
| "activity_state_str ActWaiting = ''waiting''"
| "activity_state_str ActDone = ''done''"
| "activity_state_str ActIdle = ''idle''"
| "activity_state_str ActUnknown = ''unknown''"

definition ACTIVITY_STATES :: "activity_state list" where
  "ACTIVITY_STATES = [ActBusy, ActWaiting, ActDone, ActIdle, ActUnknown]"

interpretation activity_state_words: vocabulary activity_state_str ACTIVITY_STATES
proof unfold_locales
  show "activity_state_str x = activity_state_str y \<Longrightarrow> x = y" for x y by (cases x; cases y) simp_all
  show "x \<in> set ACTIVITY_STATES" for x by (cases x) (simp_all add: ACTIVITY_STATES_def)
qed

datatype activity_source = FromHook | FromRegistry | FromTranscript | FromRollout | FromEditorState

fun activity_source_str :: "activity_source \<Rightarrow> string" where
  "activity_source_str FromHook = ''hook''"
| "activity_source_str FromRegistry = ''registry''"
| "activity_source_str FromTranscript = ''transcript''"
| "activity_source_str FromRollout = ''rollout''"
| "activity_source_str FromEditorState = ''editor_state''"

definition ACTIVITY_SOURCES :: "activity_source list" where
  "ACTIVITY_SOURCES = [FromHook, FromRegistry, FromTranscript, FromRollout, FromEditorState]"

interpretation activity_source_words: vocabulary activity_source_str ACTIVITY_SOURCES
proof unfold_locales
  show "activity_source_str x = activity_source_str y \<Longrightarrow> x = y" for x y by (cases x; cases y) simp_all
  show "x \<in> set ACTIVITY_SOURCES" for x by (cases x) (simp_all add: ACTIVITY_SOURCES_def)
qed

datatype activity_signal = SignalObservation | UserQuestion | ClaudeStop | ProcessVanished | SessionEnded

fun activity_signal_str :: "activity_signal \<Rightarrow> string" where
  "activity_signal_str SignalObservation = ''observation''"
| "activity_signal_str UserQuestion = ''user_question''"
| "activity_signal_str ClaudeStop = ''claude_stop''"
| "activity_signal_str ProcessVanished = ''process_vanished''"
| "activity_signal_str SessionEnded = ''session_ended''"

definition ACTIVITY_SIGNALS :: "activity_signal list" where
  "ACTIVITY_SIGNALS = [SignalObservation, UserQuestion, ClaudeStop, ProcessVanished, SessionEnded]"

interpretation activity_signal_words: vocabulary activity_signal_str ACTIVITY_SIGNALS
proof unfold_locales
  show "activity_signal_str x = activity_signal_str y \<Longrightarrow> x = y" for x y by (cases x; cases y) simp_all
  show "x \<in> set ACTIVITY_SIGNALS" for x by (cases x) (simp_all add: ACTIVITY_SIGNALS_def)
qed

datatype activity_confidence = Explicit | Inferred

fun confidence_str :: "activity_confidence \<Rightarrow> string" where
  "confidence_str Explicit = ''explicit''"
| "confidence_str Inferred = ''inferred''"

interpretation confidence_words: vocabulary confidence_str "[Explicit, Inferred]"
proof unfold_locales
  show "confidence_str x = confidence_str y \<Longrightarrow> x = y" for x y by (cases x; cases y) simp_all
  show "x \<in> set [Explicit, Inferred]" for x by (cases x) simp_all
qed

datatype activity_outcome = OutcomeCancelled | OutcomeFailed

fun activity_outcome_str :: "activity_outcome \<Rightarrow> string" where
  "activity_outcome_str OutcomeCancelled = ''cancelled''"
| "activity_outcome_str OutcomeFailed = ''failed''"

interpretation activity_outcome_words: vocabulary activity_outcome_str "[OutcomeCancelled, OutcomeFailed]"
proof unfold_locales
  show "activity_outcome_str x = activity_outcome_str y \<Longrightarrow> x = y" for x y by (cases x; cases y) simp_all
  show "x \<in> set [OutcomeCancelled, OutcomeFailed]" for x by (cases x) simp_all
qed

section \<open>Events\<close>

definition ACTIVITY_EVENT_VERSION :: rat where
  "ACTIVITY_EVENT_VERSION = 1"

definition MAX_ACTIVITY_EVENT_BYTES :: nat where
  "MAX_ACTIVITY_EVENT_BYTES = 8 * 1024"

definition MAX_ACTIVITY_EVENT_AGE_MS :: int where
  "MAX_ACTIVITY_EVENT_AGE_MS = 24 * 60 * 60 * 1000"

definition ACTIVITY_SESSION_RETIREMENT_MS :: int where
  "ACTIVITY_SESSION_RETIREMENT_MS = 24 * 60 * 60 * 1000"

record activity_process =
  ap_ppid :: "int option"
  ap_pid :: "int option"
  ap_startedAt :: "string option"

record activity_event =
  ae_eventId :: string
  ae_sessionId :: string
  ae_sequence :: int
  ae_agent :: activity_agent
  ae_accountAlias :: "string option"
  ae_observedAt :: string
  ae_state :: activity_state
  ae_outcome :: "activity_outcome option"
  ae_source :: activity_source
  ae_confidence :: activity_confidence
  ae_process :: "activity_process option"
  ae_signal :: "activity_signal option"
  ae_parentSessionId :: "string option"
  ae_isSidechain :: "bool option"

datatype event_origin = HookOrigin | DesktopOrigin

definition isContractInstant :: "js \<Rightarrow> bool" where
  "isContractInstant v =
     (case v of Str s \<Rightarrow> has_shape ''dddd-dd-ddTdd:dd:dd.dddZ'' s \<and> isIsoInstant v | _ \<Rightarrow> False)"

definition hasOnlyContractKeys :: "js \<Rightarrow> string list \<Rightarrow> bool" where
  "hasOnlyContractKeys v keys \<longleftrightarrow> list_all (\<lambda>key. key \<in> set keys) (keys_of v)"

definition is_identifier :: "js \<Rightarrow> bool" where
  "is_identifier v =
     (case v of
        Str s \<Rightarrow> s \<noteq> [] \<and> length s \<le> 256 \<and> list_all (\<lambda>c. 32 \<le> (of_char c :: nat) \<and> (of_char c :: nat) \<noteq> 127) s
      | _ \<Rightarrow> False)"

definition is_pid :: "js \<Rightarrow> bool" where
  "is_pid v = (case v of Num (Fin r) \<Rightarrow> safe_integer r \<and> 0 < r | _ \<Rightarrow> False)"

definition is_member :: "('a \<Rightarrow> string) \<Rightarrow> 'a list \<Rightarrow> js \<Rightarrow> bool" where
  "is_member code words v \<longleftrightarrow> read_word code words v \<noteq> None"

definition EVENT_KEYS :: "string list" where
  "EVENT_KEYS =
     [''version'', ''eventId'', ''sessionId'', ''sequence'', ''agent'', ''accountAlias'', ''observedAt'', ''state'',
      ''outcome'', ''source'', ''confidence'', ''process'', ''signal'', ''parentSessionId'', ''isSidechain'']"

text \<open>The size test. A value whose text the model does not have is refused by the field tests as well
  (\<open>event_numbers\<close> below), so refusing it here changes no answer.\<close>

definition small_event :: "js \<Rightarrow> bool" where
  "small_event v = (case stringify v of Some text \<Rightarrow> length (utf8_bytes text) \<le> MAX_ACTIVITY_EVENT_BYTES | None \<Rightarrow> False)"

definition text_after :: "js \<Rightarrow> js \<Rightarrow> bool" where
  "text_after v w = (case (v, w) of (Str s, Str t) \<Rightarrow> t < s | _ \<Rightarrow> False)"

definition process_ok :: "js \<Rightarrow> js \<Rightarrow> event_origin \<Rightarrow> bool" where
  "process_ok process observedAt origin \<longleftrightarrow>
     (let ppid = prop_of process ''ppid''; pid = prop_of process ''pid''; startedAt = prop_of process ''startedAt''
      in isRecord process \<and> hasOnlyContractKeys process [''ppid'', ''pid'', ''startedAt''] \<and>
         (ppid \<noteq> Undefined \<longrightarrow> is_pid ppid) \<and>
         (origin = HookOrigin \<longrightarrow> ppid \<noteq> Undefined \<and> pid = Undefined \<and> startedAt = Undefined) \<and>
         (pid = Undefined \<longleftrightarrow> startedAt = Undefined) \<and>
         (pid \<noteq> Undefined \<longrightarrow> is_pid pid \<and> isContractInstant startedAt) \<and>
         (isContractInstant startedAt \<longrightarrow> \<not> text_after startedAt observedAt))"

definition event_age_ok :: "js \<Rightarrow> int \<Rightarrow> bool" where
  "event_age_ok observedAt now =
     (case observedAt of
        Str s \<Rightarrow> (case dateParse s of Some t \<Rightarrow> 0 \<le> now - t \<and> now - t \<le> MAX_ACTIVITY_EVENT_AGE_MS | None \<Rightarrow> False)
      | _ \<Rightarrow> False)"

definition event_fields_ok :: "js \<Rightarrow> int \<Rightarrow> event_origin \<Rightarrow> bool" where
  "event_fields_ok v now origin \<longleftrightarrow>
     (let p = prop_of v
      in p ''version'' = Num (Fin ACTIVITY_EVENT_VERSION) \<and> is_identifier (p ''eventId'') \<and> is_identifier (p ''sessionId'') \<and>
         (case p ''sequence'' of Num (Fin r) \<Rightarrow> safe_integer r \<and> 0 \<le> r | _ \<Rightarrow> False) \<and>
         is_member agent_str ACTIVITY_AGENTS (p ''agent'') \<and> is_member activity_state_str ACTIVITY_STATES (p ''state'') \<and>
         is_member activity_source_str ACTIVITY_SOURCES (p ''source'') \<and>
         is_member confidence_str [Explicit, Inferred] (p ''confidence'') \<and>
         isContractInstant (p ''observedAt'') \<and> event_age_ok (p ''observedAt'') now \<and>
         (origin = HookOrigin \<longrightarrow> p ''source'' = Str ''hook'') \<and>
         (p ''accountAlias'' \<noteq> Undefined \<longrightarrow> is_identifier (p ''accountAlias'')) \<and>
         (p ''parentSessionId'' \<noteq> Undefined \<longrightarrow>
            is_identifier (p ''parentSessionId'') \<and> p ''parentSessionId'' \<noteq> p ''sessionId'') \<and>
         (p ''isSidechain'' \<noteq> Undefined \<longrightarrow> p ''isSidechain'' \<in> {Bool True, Bool False}) \<and>
         (p ''signal'' \<noteq> Undefined \<longrightarrow> is_member activity_signal_str ACTIVITY_SIGNALS (p ''signal'')) \<and>
         (p ''signal'' = Str ''claude_stop'' \<longrightarrow> p ''agent'' = Str ''claude_code'') \<and>
         (p ''outcome'' \<noteq> Undefined \<longrightarrow>
            is_member activity_outcome_str [OutcomeCancelled, OutcomeFailed] (p ''outcome'') \<and> p ''state'' \<noteq> Str ''done'') \<and>
         (p ''state'' = Str ''done'' \<or> p ''signal'' = Str ''user_question'' \<or> p ''signal'' = Str ''claude_stop'' \<longrightarrow>
            p ''confidence'' = Str ''explicit'') \<and>
         (p ''process'' \<noteq> Undefined \<longrightarrow> process_ok (p ''process'') (p ''observedAt'') origin))"

definition isActivityEvent :: "js \<Rightarrow> ms \<Rightarrow> event_origin \<Rightarrow> bool" where
  "isActivityEvent v now origin =
     (case now of
        None \<Rightarrow> False
      | Some n \<Rightarrow> isRecord v \<and> hasOnlyContractKeys v EVENT_KEYS \<and> small_event v \<and> event_fields_ok v n origin)"

definition readActivityEvent :: "string \<Rightarrow> ms \<Rightarrow> event_origin \<Rightarrow> js result" where
  "readActivityEvent serialized now origin =
     (if MAX_ACTIVITY_EVENT_BYTES < length (utf8_bytes serialized) then Inl (TypeError ''activity: event too large'')
      else case JSON_parse serialized of
        None \<Rightarrow> Inl (TypeError ''activity: invalid JSON'')
      | Some v \<Rightarrow> if isActivityEvent v now origin then Inr v else Inl (TypeError ''activity: invalid event''))"

text \<open>The typed view of an accepted value.\<close>

fun read_string :: "js \<Rightarrow> string option" where
  "read_string (Str s) = Some s"
| "read_string _ = None"

fun read_int :: "js \<Rightarrow> int option" where
  "read_int (Num (Fin r)) = Some \<lfloor>r\<rfloor>"
| "read_int _ = None"

definition process_of :: "js \<Rightarrow> activity_process option" where
  "process_of v =
     (if isRecord v then
        Some \<lparr>ap_ppid = read_int (prop_of v ''ppid''), ap_pid = read_int (prop_of v ''pid''),
              ap_startedAt = read_string (prop_of v ''startedAt'')\<rparr>
      else None)"

definition event_of :: "js \<Rightarrow> activity_event option" where
  "event_of v =
     (let p = prop_of v
      in case (read_string (p ''eventId''), read_string (p ''sessionId''), read_int (p ''sequence''),
               read_word agent_str ACTIVITY_AGENTS (p ''agent''), read_string (p ''observedAt''),
               read_word activity_state_str ACTIVITY_STATES (p ''state''),
               read_word activity_source_str ACTIVITY_SOURCES (p ''source''),
               read_word confidence_str [Explicit, Inferred] (p ''confidence'')) of
           (Some eventId, Some sessionId, Some sequence, Some agent, Some observedAt, Some state, Some source, Some confidence) \<Rightarrow>
             Some \<lparr>ae_eventId = eventId, ae_sessionId = sessionId, ae_sequence = sequence, ae_agent = agent,
                   ae_accountAlias = read_string (p ''accountAlias''), ae_observedAt = observedAt, ae_state = state,
                   ae_outcome = read_word activity_outcome_str [OutcomeCancelled, OutcomeFailed] (p ''outcome''),
                   ae_source = source, ae_confidence = confidence, ae_process = process_of (p ''process''),
                   ae_signal = read_word activity_signal_str ACTIVITY_SIGNALS (p ''signal''),
                   ae_parentSessionId = read_string (p ''parentSessionId''),
                   ae_isSidechain = (case p ''isSidechain'' of Bool b \<Rightarrow> Some b | _ \<Rightarrow> None)\<rparr>
         | _ \<Rightarrow> None)"

section \<open>Sessions\<close>

record activity_session =
  as_sessionId :: string
  as_agent :: activity_agent
  as_accountAlias :: "string option"
  as_state :: activity_state
  as_confidence :: activity_confidence
  as_outcome :: "activity_outcome option"
  as_firstObservedAt :: string
  as_observedAt :: string
  as_stateChangedAt :: string
  as_endedAt :: "string option"
  as_sequence :: int
  as_seenEventIds :: "string list"
  as_process :: "activity_process option"
  as_awaitingInput :: bool
  as_userProjectLabel :: "string option"

datatype activity_notification = NotifyAgentWaiting | NotifyAgentDone

datatype transition_reason =
  ReasonBaseline | ReasonApplied | ReasonDuplicate | ReasonOutOfOrder | ReasonOtherSession | ReasonChild | ReasonLowerConfidence

record activity_transition =
  at_session :: activity_session
  at_notification :: "activity_notification option"
  at_reason :: transition_reason

text \<open>\<open>dedupeActivityEvents\<close>: a key of the second set is the text of the pair.\<close>

definition sequence_key :: "activity_event \<Rightarrow> string" where
  "sequence_key e = json_text (Arr [Str (ae_sessionId e), Num (Fin (of_int (ae_sequence e)))])"

fun dedupe_from :: "string set \<Rightarrow> string set \<Rightarrow> activity_event list \<Rightarrow> activity_event list" where
  "dedupe_from ids sequences [] = []"
| "dedupe_from ids sequences (e # es) =
     (if ae_eventId e \<in> ids \<or> sequence_key e \<in> sequences then dedupe_from ids sequences es
      else e # dedupe_from (insert (ae_eventId e) ids) (insert (sequence_key e) sequences) es)"

definition dedupeActivityEvents :: "activity_event list \<Rightarrow> activity_event list" where
  "dedupeActivityEvents events = dedupe_from {} {} events"

definition fresh_session :: "activity_event \<Rightarrow> activity_session" where
  "fresh_session e =
     \<lparr>as_sessionId = ae_sessionId e, as_agent = ae_agent e, as_accountAlias = ae_accountAlias e, as_state = ActUnknown,
      as_confidence = Inferred, as_outcome = None, as_firstObservedAt = ae_observedAt e, as_observedAt = ae_observedAt e,
      as_stateChangedAt = ae_observedAt e, as_endedAt = None, as_sequence = ae_sequence e, as_seenEventIds = [],
      as_process = None, as_awaitingInput = False, as_userProjectLabel = None\<rparr>"

definition refusal :: "activity_session \<Rightarrow> activity_event \<Rightarrow> transition_reason option" where
  "refusal previous e =
     (if as_sessionId previous \<noteq> ae_sessionId e \<or> as_agent previous \<noteq> ae_agent e then Some ReasonOtherSession
      else if ae_eventId e \<in> set (as_seenEventIds previous) \<or> as_sequence previous = ae_sequence e then Some ReasonDuplicate
      else if ae_sequence e < as_sequence previous \<or> ae_observedAt e < as_observedAt previous then Some ReasonOutOfOrder
      else None)"

definition observe :: "activity_session \<Rightarrow> activity_event \<Rightarrow> activity_session" where
  "observe base e =
     base\<lparr>as_sequence := ae_sequence e, as_seenEventIds := as_seenEventIds base @ [ae_eventId e], as_observedAt := ae_observedAt e\<rparr>"

definition stated_pid :: "activity_process option \<Rightarrow> int option" where
  "stated_pid p = Option.bind p ap_pid"

definition identity_changed :: "activity_session \<Rightarrow> activity_event \<Rightarrow> bool" where
  "identity_changed base e \<longleftrightarrow>
     stated_pid (as_process base) \<noteq> None \<and> stated_pid (ae_process e) \<noteq> None \<and>
     (stated_pid (as_process base) \<noteq> stated_pid (ae_process e) \<or>
      Option.bind (as_process base) ap_startedAt \<noteq> Option.bind (ae_process e) ap_startedAt)"

definition has_vanished :: "activity_session \<Rightarrow> activity_event \<Rightarrow> bool" where
  "has_vanished base e \<longleftrightarrow> ae_signal e = Some ProcessVanished \<or> ae_signal e = Some SessionEnded \<or> identity_changed base e"

text \<open>The new state and whether an answer of the user is awaited.\<close>

definition claimed_state :: "activity_session \<Rightarrow> activity_event \<Rightarrow> activity_state \<times> bool" where
  "claimed_state base e =
     (let (state, awaiting) =
            (if ae_signal e = Some UserQuestion then (ActWaiting, True) else (ae_state e, as_awaitingInput base));
          state = (if ae_signal e = Some ClaudeStop \<and> awaiting then ActWaiting else state)
      in (state, if state = ActBusy \<and> ae_confidence e = Explicit then False else awaiting))"

definition judged_state :: "activity_session \<Rightarrow> activity_event \<Rightarrow> activity_state \<times> bool" where
  "judged_state base e =
     (let (state, awaiting) = (if has_vanished base e then (ActUnknown, False) else claimed_state base e);
          state = (if ae_outcome e \<noteq> None \<and> state = ActDone then ActUnknown else state);
          state = (if state = ActDone \<and> ae_confidence e \<noteq> Explicit then ActUnknown else state)
      in (state, if state \<noteq> ActWaiting then False else awaiting))"

definition merged_process :: "activity_process option \<Rightarrow> activity_process \<Rightarrow> activity_process" where
  "merged_process base p =
     (let kept = stated_pid base
      in \<lparr>ap_ppid = ap_ppid p, ap_pid = (if ap_pid p = None then kept else ap_pid p),
          ap_startedAt = (if ap_pid p = None then (if kept = None then None else Option.bind base ap_startedAt) else ap_startedAt p)\<rparr>)"

definition judged_session :: "activity_session \<Rightarrow> activity_event \<Rightarrow> activity_session" where
  "judged_session base e =
     (let (state, awaiting) = judged_state base e; vanished = has_vanished base e; changed = identity_changed base e
      in (observe base e)\<lparr>
           as_state := state,
           as_confidence := (if vanished then Inferred else ae_confidence e),
           as_awaitingInput := awaiting,
           as_stateChangedAt := (if state \<noteq> as_state base then ae_observedAt e else as_stateChangedAt base),
           as_outcome := ae_outcome e,
           as_endedAt :=
             (if vanished \<or> state = ActDone \<or> ae_outcome e \<noteq> None then
                (if as_state base = state \<and> as_outcome base = ae_outcome e \<and> as_endedAt base \<noteq> None
                 then as_endedAt base else Some (ae_observedAt e))
              else None),
           as_process :=
             (if changed then None
              else case ae_process e of None \<Rightarrow> as_process base | Some p \<Rightarrow> Some (merged_process (as_process base) p))\<rparr>)"

definition earned_notification :: "activity_session \<Rightarrow> activity_session \<Rightarrow> activity_event \<Rightarrow> activity_notification option" where
  "earned_notification base session e =
     (if as_state base \<noteq> as_state session \<and> ae_outcome e = None \<and> as_confidence session = Explicit then
        (if as_state session = ActWaiting then Some NotifyAgentWaiting
         else if as_state session = ActDone then Some NotifyAgentDone else None)
      else None)"

definition nextSessionState :: "activity_session option \<Rightarrow> activity_event \<Rightarrow> activity_transition" where
  "nextSessionState previous e =
     (case Option.bind previous (\<lambda>p. map_option (Pair p) (refusal p e)) of
        Some (p, reason) \<Rightarrow> \<lparr>at_session = p, at_notification = None, at_reason = reason\<rparr>
      | None \<Rightarrow>
          let base = (case previous of Some p \<Rightarrow> p | None \<Rightarrow> fresh_session e)
          in if ae_isSidechain e = Some True then
               \<lparr>at_session = observe base e, at_notification = None,
                at_reason = (if previous = None then ReasonBaseline else ReasonChild)\<rparr>
             else if \<not> has_vanished base e \<and> previous \<noteq> None \<and> as_confidence base = Explicit \<and> ae_confidence e = Inferred then
               \<lparr>at_session = observe base e, at_notification = None, at_reason = ReasonLowerConfidence\<rparr>
             else
               \<lparr>at_session = judged_session base e,
                at_notification = (if previous = None then None else earned_notification base (judged_session base e) e),
                at_reason = (if previous = None then ReasonBaseline else ReasonApplied)\<rparr>)"

definition shouldRetireActivitySession :: "activity_session \<Rightarrow> ms \<Rightarrow> bool" where
  "shouldRetireActivitySession session now =
     (case (case as_endedAt session of
              Some t \<Rightarrow> Some t
            | None \<Rightarrow> if as_state session = ActIdle then Some (as_stateChangedAt session) else None) of
        None \<Rightarrow> False
      | Some since \<Rightarrow>
          (case (now, dateParse since) of
             (Some n, Some t) \<Rightarrow> ACTIVITY_SESSION_RETIREMENT_MS \<le> n - t
           | _ \<Rightarrow> False))"

section \<open>Records that leave the machine\<close>

definition identity_message :: "activity_agent \<Rightarrow> string \<Rightarrow> nat list" where
  "identity_message agent sessionId =
     utf8_bytes (json_text (Arr [Str ''openlimiter.activity.v1'', Str (agent_str agent), Str sessionId]))"

definition opaqueSessionId :: "activity_agent \<Rightarrow> string \<Rightarrow> string" where
  "opaqueSessionId agent sessionId = sha256_text (identity_message agent sessionId)"

definition UPLOAD_KEYS :: "string list" where
  "UPLOAD_KEYS =
     [''sessionId'', ''agent'', ''state'', ''confidence'', ''firstObservedAt'', ''observedAt'', ''stateChangedAt'', ''userProjectLabel'']"

definition isProjectedActivityRecord :: "js \<Rightarrow> bool \<Rightarrow> bool" where
  "isProjectedActivityRecord v display \<longleftrightarrow>
     (let p = prop_of v
      in isRecord v \<and> hasOnlyContractKeys v (UPLOAD_KEYS @ (if display then [''outcome''] else [])) \<and>
         (case p ''sessionId'' of Str s \<Rightarrow> hex_text 64 s | _ \<Rightarrow> False) \<and>
         is_member agent_str ACTIVITY_AGENTS (p ''agent'') \<and> is_member activity_state_str ACTIVITY_STATES (p ''state'') \<and>
         is_member confidence_str [Explicit, Inferred] (p ''confidence'') \<and> isContractInstant (p ''firstObservedAt'') \<and>
         isContractInstant (p ''observedAt'') \<and> isContractInstant (p ''stateChangedAt'') \<and>
         \<not> text_after (p ''firstObservedAt'') (p ''stateChangedAt'') \<and> \<not> text_after (p ''stateChangedAt'') (p ''observedAt'') \<and>
         (p ''state'' = Str ''done'' \<longrightarrow> p ''confidence'' = Str ''explicit'') \<and>
         (p ''userProjectLabel'' \<noteq> Undefined \<longrightarrow> is_identifier (p ''userProjectLabel'')) \<and>
         (p ''outcome'' = Undefined \<or>
          display \<and> is_member activity_outcome_str [OutcomeCancelled, OutcomeFailed] (p ''outcome'') \<and> p ''state'' \<noteq> Str ''done''))"

definition isActivityUploadRecord :: "js \<Rightarrow> bool" where
  "isActivityUploadRecord v = isProjectedActivityRecord v False"

definition isActivityDisplayRecord :: "js \<Rightarrow> bool" where
  "isActivityDisplayRecord v = isProjectedActivityRecord v True"

definition upload_fields :: "activity_session \<Rightarrow> (string \<times> js) list" where
  "upload_fields s =
     [(''sessionId'', Str (opaqueSessionId (as_agent s) (as_sessionId s))), (''agent'', Str (agent_str (as_agent s))),
      (''state'', Str (activity_state_str (as_state s))), (''confidence'', Str (confidence_str (as_confidence s))),
      (''firstObservedAt'', Str (as_firstObservedAt s)), (''observedAt'', Str (as_observedAt s)),
      (''stateChangedAt'', Str (as_stateChangedAt s)), (''userProjectLabel'', opt_js (map_option Str (as_userProjectLabel s)))]"

definition toUploadRecord :: "activity_session \<Rightarrow> js result" where
  "toUploadRecord s =
     (case as_userProjectLabel s of
        Some label \<Rightarrow>
          if is_identifier (Str label) then Inr (obj (upload_fields s))
          else Inl (TypeError ''activity: invalid user project label'')
      | None \<Rightarrow> Inr (obj (upload_fields s)))"

definition toDisplayRecord :: "activity_session \<Rightarrow> js result" where
  "toDisplayRecord s =
     map_sum id (\<lambda>_. obj (upload_fields s @ [(''outcome'', opt_js (map_option (Str \<circ> activity_outcome_str) (as_outcome s)))]))
       (toUploadRecord s)"

section \<open>Reading an event\<close>

lemma member_cases:
  "is_member code words v \<longleftrightarrow> (\<exists>x. read_word code words v = Some x)"
  by (auto simp: is_member_def)

lemma identifier_Str: "is_identifier v \<Longrightarrow> \<exists>s. v = Str s"
  by (cases v) (simp_all add: is_identifier_def)

lemma instant_Str: "isContractInstant v \<Longrightarrow> \<exists>s. v = Str s"
  by (cases v) (simp_all add: isContractInstant_def)

lemma pid_Num:
  assumes "is_pid v"
  shows "\<exists>k. v = Num (Fin (of_int k)) \<and> safe_integer (of_int k) \<and> 0 < k \<and> read_int v = Some k"
proof -
  obtain r where r: "v = Num (Fin r)" "safe_integer r" "0 < r"
    using assms by (auto simp: is_pid_def split: js.splits jsnum.splits)
  then obtain k where "r = of_int k" by (auto simp: safe_integer_def is_integer_def dest: sym)
  with r show ?thesis by auto
qed

lemma word_Str: "is_member code words v \<Longrightarrow> \<exists>s. v = Str s"
  by (cases v) (simp_all add: is_member_def)

lemma safe_numbers: "safe_integer r \<Longrightarrow> int_numbers (Num (Fin r))"
  by (simp add: safe_integer_def)

lemma obj_numbers:
  assumes "isRecord v" "distinct (keys_of v)" "\<And>key. key \<in> set (keys_of v) \<Longrightarrow> int_numbers (prop_of v key)"
  shows "int_numbers v"
proof -
  obtain ps where v: "v = Obj ps" using assms(1) by (cases v) auto
  have "int_numbers w" if "(key, w) \<in> set ps" for key w
    using assms(2) assms(3) [of key] that image_eqI [OF _ that, of key fst] by (simp add: v)
  then show ?thesis by (auto simp: v list_all_iff)
qed

lemma Str_numbers:
  "is_identifier v \<Longrightarrow> int_numbers v" "isContractInstant v \<Longrightarrow> int_numbers v" "is_member code words v \<Longrightarrow> int_numbers v"
  using identifier_Str [of v] instant_Str [of v] word_Str [of code words v] by auto

lemma pid_numbers: "is_pid v \<Longrightarrow> int_numbers v"
  using pid_Num [of v] by (auto simp: safe_integer_def)

lemma process_numbers:
  assumes "process_ok process observedAt origin" "distinct (keys_of process)"
  shows "int_numbers process"
proof (rule obj_numbers)
  fix key assume "key \<in> set (keys_of process)"
  then have "key = ''ppid'' \<or> key = ''pid'' \<or> key = ''startedAt''"
    using assms(1) unfolding process_ok_def Let_def hasOnlyContractKeys_def list_all_iff by (simp only: list.set) blast
  moreover have "int_numbers (prop_of process ''ppid'')"
    "int_numbers (prop_of process ''pid'') \<and> int_numbers (prop_of process ''startedAt'')"
    using assms(1) pid_numbers Str_numbers(2) int_numbers.simps(1) unfolding process_ok_def Let_def by metis+
  ultimately show "int_numbers (prop_of process key)" by blast
qed (use assms in \<open>unfold process_ok_def Let_def, blast+\<close>)

lemmas event_facts = event_fields_ok_def [unfolded Let_def, THEN iffD1]

lemma sequence_Num:
  assumes "event_fields_ok v now origin"
  shows "\<exists>k. prop_of v ''sequence'' = Num (Fin (of_int k)) \<and> safe_integer (of_int k) \<and> 0 \<le> k"
proof -
  have "case prop_of v ''sequence'' of Num (Fin r) \<Rightarrow> safe_integer r \<and> 0 \<le> r | _ \<Rightarrow> False"
    using event_facts [OF assms] by (elim conjE) assumption
  then obtain r where r: "prop_of v ''sequence'' = Num (Fin r)" "safe_integer r" "0 \<le> r"
    by (cases "prop_of v ''sequence''") (auto split: jsnum.splits)
  then obtain k where "r = of_int k" by (auto simp: safe_integer_def is_integer_def dest: sym)
  with r show ?thesis by auto
qed

text \<open>The fields of an accepted event, by name.\<close>

lemma event_texts:
  assumes "event_fields_ok v now origin"
  shows "is_identifier (prop_of v ''eventId'')" "is_identifier (prop_of v ''sessionId'')"
    "is_member agent_str ACTIVITY_AGENTS (prop_of v ''agent'')"
    "is_member activity_state_str ACTIVITY_STATES (prop_of v ''state'')"
    "is_member activity_source_str ACTIVITY_SOURCES (prop_of v ''source'')"
    "is_member confidence_str [Explicit, Inferred] (prop_of v ''confidence'')"
    "isContractInstant (prop_of v ''observedAt'')"
  by (insert event_facts [OF assms], (elim conjE, assumption)+)

lemma event_options:
  assumes "event_fields_ok v now origin"
  shows "prop_of v ''accountAlias'' \<noteq> Undefined \<longrightarrow> is_identifier (prop_of v ''accountAlias'')"
    "prop_of v ''parentSessionId'' \<noteq> Undefined \<longrightarrow>
       is_identifier (prop_of v ''parentSessionId'') \<and> prop_of v ''parentSessionId'' \<noteq> prop_of v ''sessionId''"
    "prop_of v ''isSidechain'' \<noteq> Undefined \<longrightarrow> prop_of v ''isSidechain'' \<in> {Bool True, Bool False}"
    "prop_of v ''signal'' \<noteq> Undefined \<longrightarrow> is_member activity_signal_str ACTIVITY_SIGNALS (prop_of v ''signal'')"
    "prop_of v ''outcome'' \<noteq> Undefined \<longrightarrow>
       is_member activity_outcome_str [OutcomeCancelled, OutcomeFailed] (prop_of v ''outcome'') \<and>
       prop_of v ''state'' \<noteq> Str ''done''"
    "prop_of v ''process'' \<noteq> Undefined \<longrightarrow> process_ok (prop_of v ''process'') (prop_of v ''observedAt'') origin"
    "prop_of v ''signal'' = Str ''claude_stop'' \<longrightarrow> prop_of v ''agent'' = Str ''claude_code''"
    "prop_of v ''state'' = Str ''done'' \<or> prop_of v ''signal'' = Str ''user_question'' \<or> prop_of v ''signal'' = Str ''claude_stop''
       \<longrightarrow> prop_of v ''confidence'' = Str ''explicit''"
    "prop_of v ''version'' = Num (Fin ACTIVITY_EVENT_VERSION)"
  by (insert event_facts [OF assms], (elim conjE, assumption)+)

lemma event_numbers:
  assumes "isRecord v" "hasOnlyContractKeys v EVENT_KEYS" "event_fields_ok v now origin" "distinct (keys_of v)"
    and "distinct (keys_of (prop_of v ''process''))"
  shows "int_numbers v"
proof (rule obj_numbers)
  fix key assume "key \<in> set (keys_of v)"
  then have key: "key \<in> set EVENT_KEYS" using assms(2) by (simp only: hasOnlyContractKeys_def list_all_iff)
  note texts = event_texts [OF assms(3)] and options = event_options [OF assms(3)]
  have "int_numbers (prop_of v ''sequence'')" using sequence_Num [OF assms(3)] by (auto simp: safe_integer_def)
  moreover have "int_numbers (prop_of v ''version'')"
    using options(9) by (simp add: ACTIVITY_EVENT_VERSION_def is_integer_def)
  moreover have "int_numbers (prop_of v ''isSidechain'')" using options(3) by (cases "prop_of v ''isSidechain''") simp_all
  moreover have "int_numbers (prop_of v ''process'')"
    using options(6) process_numbers assms(5) int_numbers.simps(1) by metis
  moreover have "int_numbers (prop_of v ''eventId'')" "int_numbers (prop_of v ''sessionId'')"
    "int_numbers (prop_of v ''agent'')" "int_numbers (prop_of v ''state'')" "int_numbers (prop_of v ''source'')"
    "int_numbers (prop_of v ''confidence'')" "int_numbers (prop_of v ''observedAt'')"
    using texts by (blast intro: Str_numbers)+
  moreover have "int_numbers (prop_of v ''accountAlias'')" "int_numbers (prop_of v ''parentSessionId'')"
    using options(1,2) Str_numbers(1) int_numbers.simps(1) by metis+
  moreover have "int_numbers (prop_of v ''signal'')" "int_numbers (prop_of v ''outcome'')"
    using options(4,5) Str_numbers(3) int_numbers.simps(1) by metis+
  ultimately have "list_all (\<lambda>k. int_numbers (prop_of v k)) EVENT_KEYS"
    unfolding EVENT_KEYS_def list.pred_inject by (intro conjI list.pred_inject(1))
  then show "int_numbers (prop_of v key)" using key by (simp only: list_all_iff)
qed (fact assms)+

text \<open>What a validated event holds.\<close>

definition wf_process :: "activity_process \<Rightarrow> bool" where
  "wf_process p \<longleftrightarrow> (ap_pid p = None \<longleftrightarrow> ap_startedAt p = None)"

definition wf_event :: "activity_event \<Rightarrow> bool" where
  "wf_event e \<longleftrightarrow>
     0 \<le> ae_sequence e \<and> safe_integer (of_int (ae_sequence e)) \<and> isContractInstant (Str (ae_observedAt e)) \<and> is_identifier (Str (ae_eventId e)) \<and>
     is_identifier (Str (ae_sessionId e)) \<and>
     (ae_outcome e \<noteq> None \<longrightarrow> ae_state e \<noteq> ActDone) \<and>
     (ae_state e = ActDone \<or> ae_signal e = Some UserQuestion \<or> ae_signal e = Some ClaudeStop \<longrightarrow> ae_confidence e = Explicit) \<and>
     (ae_signal e = Some ClaudeStop \<longrightarrow> ae_agent e = AgentClaudeCode) \<and>
     (\<forall>p. ae_process e = Some p \<longrightarrow> wf_process p) \<and> ae_parentSessionId e \<noteq> Some (ae_sessionId e)"

lemma word_iff:
  "read_word agent_str ACTIVITY_AGENTS v = Some a \<longleftrightarrow> v = Str (agent_str a)"
  "read_word activity_state_str ACTIVITY_STATES v = Some st \<longleftrightarrow> v = Str (activity_state_str st)"
  "read_word activity_source_str ACTIVITY_SOURCES v = Some so \<longleftrightarrow> v = Str (activity_source_str so)"
  "read_word activity_signal_str ACTIVITY_SIGNALS v = Some si \<longleftrightarrow> v = Str (activity_signal_str si)"
  "read_word confidence_str [Explicit, Inferred] v = Some c \<longleftrightarrow> v = Str (confidence_str c)"
  "read_word activity_outcome_str [OutcomeCancelled, OutcomeFailed] v = Some oc \<longleftrightarrow> v = Str (activity_outcome_str oc)"
  by (cases v; simp add: agent_words.decode_eq_Some activity_state_words.decode_eq_Some activity_source_words.decode_eq_Some
      activity_signal_words.decode_eq_Some confidence_words.decode_eq_Some activity_outcome_words.decode_eq_Some)+

lemma word_texts [simp]:
  "activity_state_str st = ''done'' \<longleftrightarrow> st = ActDone"
  "activity_signal_str si = ''user_question'' \<longleftrightarrow> si = UserQuestion"
  "activity_signal_str si = ''claude_stop'' \<longleftrightarrow> si = ClaudeStop"
  "confidence_str c = ''explicit'' \<longleftrightarrow> c = Explicit"
  "agent_str a = ''claude_code'' \<longleftrightarrow> a = AgentClaudeCode"
  by (cases st; cases si; cases c; cases a; simp)+

lemma process_of_ok:
  assumes "process_ok process observedAt origin"
  shows "\<exists>p. process_of process = Some p \<and> wf_process p"
proof -
  let ?ppid = "prop_of process ''ppid''" and ?pid = "prop_of process ''pid''" and ?at = "prop_of process ''startedAt''"
  have rec: "isRecord process" and both: "?pid = Undefined \<longleftrightarrow> ?at = Undefined"
    and stated: "?pid \<noteq> Undefined \<longrightarrow> is_pid ?pid \<and> isContractInstant ?at"
    using assms unfolding process_ok_def Let_def by blast+
  have "read_int ?pid = None \<longleftrightarrow> read_string ?at = None"
    using both stated pid_Num [of ?pid] instant_Str [of ?at] by (cases "?pid = Undefined") auto
  then show ?thesis using rec by (simp add: process_of_def wf_process_def)
qed

lemma identifier_text: "is_identifier v \<Longrightarrow> \<exists>s. v = Str s \<and> is_identifier (Str s)"
  using identifier_Str by blast

text \<open>Every accepted value has its typed view, and the view is well formed.\<close>

lemma accepted_event:
  assumes "isActivityEvent v now origin"
  shows "\<exists>e. event_of v = Some e \<and> wf_event e"
proof -
  obtain n where ok: "event_fields_ok v n origin" using assms by (auto simp: isActivityEvent_def split: option.splits)
  note texts = event_texts [OF ok] and options = event_options [OF ok]
  obtain k where k: "prop_of v ''sequence'' = Num (Fin (of_int k))" "0 \<le> k" "safe_integer (of_int k)"
    using sequence_Num [OF ok] by blast
  obtain i t where i: "prop_of v ''eventId'' = Str i" "is_identifier (Str i)"
    and t: "prop_of v ''sessionId'' = Str t" "is_identifier (Str t)"
    using texts(1,2) identifier_text by blast
  obtain seen where seen: "prop_of v ''observedAt'' = Str seen" "isContractInstant (Str seen)"
    using texts(7) instant_Str by fastforce
  obtain a st so c where w: "prop_of v ''agent'' = Str (agent_str a)" "prop_of v ''state'' = Str (activity_state_str st)"
    "prop_of v ''source'' = Str (activity_source_str so)" "prop_of v ''confidence'' = Str (confidence_str c)"
    using texts(3-6) unfolding member_cases word_iff by blast
  have words: "read_word agent_str ACTIVITY_AGENTS (Str (agent_str a)) = Some a"
    "read_word activity_state_str ACTIVITY_STATES (Str (activity_state_str st)) = Some st"
    "read_word activity_source_str ACTIVITY_SOURCES (Str (activity_source_str so)) = Some so"
    "read_word confidence_str [Explicit, Inferred] (Str (confidence_str c)) = Some c"
    by (simp_all only: word_iff)
  obtain e where e: "event_of v = Some e" and fields: "ae_eventId e = i" "ae_sessionId e = t" "ae_sequence e = k" "ae_agent e = a"
    "ae_observedAt e = seen" "ae_state e = st" "ae_confidence e = c"
    "ae_outcome e = read_word activity_outcome_str [OutcomeCancelled, OutcomeFailed] (prop_of v ''outcome'')"
    "ae_process e = process_of (prop_of v ''process'')"
    "ae_signal e = read_word activity_signal_str ACTIVITY_SIGNALS (prop_of v ''signal'')"
    "ae_parentSessionId e = read_string (prop_of v ''parentSessionId'')"
    unfolding event_of_def Let_def k(1) i(1) t(1) seen(1) w words by simp
  have "ae_outcome e \<noteq> None \<Longrightarrow> st \<noteq> ActDone"
    using options(5) w(2) by (cases "prop_of v ''outcome'' = Undefined") (auto simp: fields)
  moreover have "st = ActDone \<or> ae_signal e = Some UserQuestion \<or> ae_signal e = Some ClaudeStop \<Longrightarrow> c = Explicit"
    using options(8) w(2,4) by (auto simp: fields word_iff)
  moreover have "ae_signal e = Some ClaudeStop \<Longrightarrow> a = AgentClaudeCode"
    using options(7) w(1) by (auto simp: fields word_iff)
  moreover have "wf_process p" if "ae_process e = Some p" for p
    using options(6) process_of_ok that by (cases "prop_of v ''process'' = Undefined") (fastforce simp: fields process_of_def)+
  moreover have "ae_parentSessionId e \<noteq> Some t"
    using options(2) t(1) by (cases "prop_of v ''parentSessionId''") (auto simp: fields)
  ultimately have "wf_event e" using k(2,3) seen(2) i(2) t(2) unfolding wf_event_def fields by blast
  with e show ?thesis by blast
qed

section \<open>Sessions\<close>

text \<open>The only other writer of a session sets the label of the project, a preference of the user.\<close>

inductive session_reachable :: "activity_session \<Rightarrow> bool" where
  first: "wf_event e \<Longrightarrow> session_reachable (at_session (nextSessionState None e))"
| event: "session_reachable s \<Longrightarrow> wf_event e \<Longrightarrow> session_reachable (at_session (nextSessionState (Some s) e))"
| label: "session_reachable s \<Longrightarrow> session_reachable (s\<lparr>as_userProjectLabel := label\<rparr>)"

definition wf_times :: "activity_session \<Rightarrow> bool" where
  "wf_times s \<longleftrightarrow>
     isContractInstant (Str (as_firstObservedAt s)) \<and> isContractInstant (Str (as_stateChangedAt s)) \<and>
     isContractInstant (Str (as_observedAt s)) \<and>
     as_firstObservedAt s \<le> as_stateChangedAt s \<and> as_stateChangedAt s \<le> as_observedAt s \<and>
     (case as_endedAt s of None \<Rightarrow> True | Some t \<Rightarrow> isContractInstant (Str t) \<and> t \<le> as_observedAt s)"

definition wf_status :: "activity_session \<Rightarrow> bool" where
  "wf_status s \<longleftrightarrow>
     (as_state s = ActDone \<longrightarrow> as_confidence s = Explicit \<and> as_outcome s = None) \<and>
     (as_awaitingInput s \<longrightarrow> as_state s = ActWaiting) \<and>
     (as_state s = ActDone \<or> as_outcome s \<noteq> None \<longrightarrow> as_endedAt s \<noteq> None) \<and>
     (case as_process s of None \<Rightarrow> True | Some p \<Rightarrow> wf_process p)"

definition wf_session :: "activity_session \<Rightarrow> bool" where
  "wf_session s \<longleftrightarrow> wf_times s \<and> wf_status s \<and> distinct (as_seenEventIds s) \<and> 0 \<le> as_sequence s"

lemma string_order: "\<not> s < t \<longleftrightarrow> t \<le> (s :: string)"
  by (rule not_less)

lemma claimed_done: "fst (claimed_state base e) = ActDone \<Longrightarrow> ae_state e = ActDone"
  by (simp add: claimed_state_def Let_def split: if_splits)

lemma judged_cases:
  assumes "judged_state base e = (state, awaiting)"
  shows "(state = ActDone \<longrightarrow> ae_confidence e = Explicit \<and> ae_outcome e = None \<and> \<not> has_vanished base e \<and> ae_state e = ActDone) \<and>
    (awaiting \<longrightarrow> state = ActWaiting) \<and> (has_vanished base e \<longrightarrow> state = ActUnknown)"
  using assms claimed_done [of base e]
  by (cases "claimed_state base e"; cases "ae_confidence e") (auto simp: judged_state_def Let_def split: if_splits)

lemma merged_process_wf:
  assumes "case base of None \<Rightarrow> True | Some q \<Rightarrow> wf_process q" "wf_process p"
  shows "wf_process (merged_process base p)"
proof (cases "ap_pid p")
  case None
  then show ?thesis using assms by (cases base) (simp_all add: merged_process_def wf_process_def stated_pid_def)
next
  case (Some k)
  then show ?thesis using assms(2) by (simp add: merged_process_def wf_process_def)
qed

lemma wf_fresh: "wf_event e \<Longrightarrow> wf_session (fresh_session e)"
  by (simp add: wf_session_def wf_times_def wf_status_def wf_event_def fresh_session_def)

lemma ended_later:
  assumes "case ended of None \<Rightarrow> True | Some t \<Rightarrow> isContractInstant (Str t) \<and> t \<le> latest" "latest \<le> (now :: string)"
  shows "case ended of None \<Rightarrow> True | Some t \<Rightarrow> isContractInstant (Str t) \<and> t \<le> now"
  using assms by (cases ended) (simp_all, elim conjE, erule (1) order_trans)

lemma times_later:
  assumes "wf_times s" "isContractInstant (Str (ae_observedAt e))" "as_observedAt s \<le> ae_observedAt e"
  shows "wf_times (observe s e)" "as_stateChangedAt s \<le> ae_observedAt e" "as_firstObservedAt s \<le> ae_observedAt e"
proof -
  note t = assms(1) [unfolded wf_times_def]
  show changed: "as_stateChangedAt s \<le> ae_observedAt e" using t assms(3) by (meson order_trans)
  then show "as_firstObservedAt s \<le> ae_observedAt e" using t by (meson order_trans)
  have "case as_endedAt s of None \<Rightarrow> True | Some t \<Rightarrow> isContractInstant (Str t) \<and> t \<le> ae_observedAt e"
    using t assms(3) by (elim conjE) (rule ended_later)
  then show "wf_times (observe s e)" using t assms(2) changed by (simp add: wf_times_def observe_def cong: option.case_cong)
qed

lemma wf_observe:
  assumes s: "wf_session s" and e: "wf_event e" and fresh: "ae_eventId e \<notin> set (as_seenEventIds s)"
    and later: "as_observedAt s \<le> ae_observedAt e"
  shows "wf_session (observe s e)"
proof -
  have "wf_times (observe s e)" using times_later(1) [of s e] s e later by (simp add: wf_session_def wf_event_def)
  moreover have "wf_status (observe s e)" using s by (simp add: wf_session_def wf_status_def observe_def)
  moreover have "distinct (as_seenEventIds (observe s e))" "0 \<le> as_sequence (observe s e)"
    using s e fresh by (simp_all add: wf_session_def wf_event_def observe_def)
  ultimately show ?thesis by (simp add: wf_session_def)
qed

lemma judged_session_fields:
  assumes "judged_state s e = (state, awaiting)"
  shows "as_state (judged_session s e) = state" "as_awaitingInput (judged_session s e) = awaiting"
    "as_confidence (judged_session s e) = (if has_vanished s e then Inferred else ae_confidence e)"
    "as_outcome (judged_session s e) = ae_outcome e" "as_observedAt (judged_session s e) = ae_observedAt e"
    "as_firstObservedAt (judged_session s e) = as_firstObservedAt s"
    "as_stateChangedAt (judged_session s e) = (if state \<noteq> as_state s then ae_observedAt e else as_stateChangedAt s)"
    "as_seenEventIds (judged_session s e) = as_seenEventIds s @ [ae_eventId e]" "as_sequence (judged_session s e) = ae_sequence e"
    "as_process (judged_session s e) =
       (if identity_changed s e then None
        else case ae_process e of None \<Rightarrow> as_process s | Some p \<Rightarrow> Some (merged_process (as_process s) p))"
    "as_endedAt (judged_session s e) =
       (if has_vanished s e \<or> state = ActDone \<or> ae_outcome e \<noteq> None then
          (if as_state s = state \<and> as_outcome s = ae_outcome e \<and> as_endedAt s \<noteq> None
           then as_endedAt s else Some (ae_observedAt e))
        else None)"
  by (simp_all add: judged_session_def assms Let_def observe_def)

lemma wf_judged:
  assumes s: "wf_session s" and e: "wf_event e" and fresh: "ae_eventId e \<notin> set (as_seenEventIds s)"
    and later: "as_observedAt s \<le> ae_observedAt e"
  shows "wf_session (judged_session s e)"
proof -
  obtain state awaiting where j: "judged_state s e = (state, awaiting)" by fastforce
  note cases = judged_cases [OF j] and fields = judged_session_fields [OF j]
  have times: "wf_times s" and status: "wf_status s" and now: "isContractInstant (Str (ae_observedAt e))"
    using s e by (simp_all add: wf_session_def wf_event_def)
  note t = times [unfolded wf_times_def] and later' = times_later [OF times now later]
  have ended: "case as_endedAt s of None \<Rightarrow> True | Some t \<Rightarrow> isContractInstant (Str t) \<and> t \<le> ae_observedAt e"
    using t later by (elim conjE) (rule ended_later)
  have "wf_times (judged_session s e)"
    unfolding wf_times_def fields using t now later' ended by simp
  moreover have "case as_process (judged_session s e) of None \<Rightarrow> True | Some p \<Rightarrow> wf_process p"
    using merged_process_wf [of "as_process s"] status e unfolding fields
    by (cases "ae_process e") (simp_all add: wf_status_def wf_event_def)
  then have "wf_status (judged_session s e)"
    unfolding wf_status_def using cases unfolding fields by auto
  moreover have "distinct (as_seenEventIds (judged_session s e))" "0 \<le> as_sequence (judged_session s e)"
    using s e fresh unfolding fields by (simp_all add: wf_session_def wf_event_def)
  ultimately show ?thesis by (simp add: wf_session_def)
qed

lemma wf_next_first: "wf_event e \<Longrightarrow> wf_session (at_session (nextSessionState None e))"
  using wf_observe [OF wf_fresh, of e e] wf_judged [OF wf_fresh, of e e]
  by (simp add: nextSessionState_def Let_def fresh_session_def)

lemma accepted_order:
  "refusal s e = None \<Longrightarrow>
     ae_eventId e \<notin> set (as_seenEventIds s) \<and> as_observedAt s \<le> ae_observedAt e \<and> as_sequence s < ae_sequence e \<and>
     as_sessionId s = ae_sessionId e \<and> as_agent s = ae_agent e"
  by (auto simp: refusal_def not_less split: if_splits)

lemma wf_next:
  assumes "wf_session s" "wf_event e"
  shows "wf_session (at_session (nextSessionState (Some s) e))"
proof (cases "refusal s e")
  case None
  then show ?thesis
    using accepted_order [OF None] wf_observe [OF assms] wf_judged [OF assms] by (simp add: nextSessionState_def Let_def)
qed (simp add: nextSessionState_def assms)

lemma reachable_wf: "session_reachable s \<Longrightarrow> wf_session s"
proof (induction rule: session_reachable.induct)
  case (label s label)
  then show ?case by (simp add: wf_session_def wf_times_def wf_status_def cong: option.case_cong)
qed (simp_all add: wf_next_first wf_next)

text \<open>C9: the state of a session, however its events and the user's preference interleave.\<close>

theorem activity_session_invariant:
  assumes "session_reachable s"
  shows "(as_state s = ActDone \<longrightarrow> as_confidence s = Explicit \<and> as_outcome s = None) \<and>
    (as_awaitingInput s \<longrightarrow> as_state s = ActWaiting) \<and>
    (as_state s = ActDone \<or> as_outcome s \<noteq> None \<longrightarrow> as_endedAt s \<noteq> None) \<and>
    as_firstObservedAt s \<le> as_stateChangedAt s \<and> as_stateChangedAt s \<le> as_observedAt s \<and>
    distinct (as_seenEventIds s)"
  using reachable_wf [OF assms] unfolding wf_session_def wf_times_def wf_status_def by (elim conjE) (intro conjI)

definition sample_event :: activity_event where
  "sample_event =
     \<lparr>ae_eventId = ''a'', ae_sessionId = ''s'', ae_sequence = 1, ae_agent = AgentClaudeCode, ae_accountAlias = None,
      ae_observedAt = ''2026-01-01T00:00:00.000Z'', ae_state = ActBusy, ae_outcome = None, ae_source = FromHook,
      ae_confidence = Explicit, ae_process = None, ae_signal = None, ae_parentSessionId = None, ae_isSidechain = None\<rparr>"

definition sample_done :: activity_event where
  "sample_done =
     sample_event\<lparr>ae_eventId := ''b'', ae_sequence := 2, ae_observedAt := ''2026-01-01T00:01:00.000Z'', ae_state := ActDone\<rparr>"

lemma sample_instants:
  "isContractInstant (Str ''2026-01-01T00:00:00.000Z'')" "isContractInstant (Str ''2026-01-01T00:01:00.000Z'')"
proof -
  have dates: "dateParse ''2026-01-01T00:00:00.000Z'' = Some 1767225600000"
    "dateParse ''2026-01-01T00:01:00.000Z'' = Some 1767225660000"
    by (simp_all add: date_eval cong: bind_weak_cong)
  show "isContractInstant (Str ''2026-01-01T00:00:00.000Z'')"
    unfolding isContractInstant_def isIsoInstant_def using dates
    by simp (simp add: has_shape_def is_digit_def less_eq_char_def date_eval)
  show "isContractInstant (Str ''2026-01-01T00:01:00.000Z'')"
    unfolding isContractInstant_def isIsoInstant_def using dates
    by simp (simp add: has_shape_def is_digit_def less_eq_char_def date_eval)
qed

lemma sample_identifiers: "is_identifier (Str ''a'')" "is_identifier (Str ''b'')" "is_identifier (Str ''s'')"
  by (simp_all add: is_identifier_def)

lemma sample_wf: "wf_event sample_event" "wf_event sample_done"
  using sample_instants sample_identifiers by (simp_all add: wf_event_def sample_event_def sample_done_def safe_integer_def is_integer_def)

definition sample_session :: activity_session where
  "sample_session = at_session (nextSessionState (Some (at_session (nextSessionState None sample_event))) sample_done)"

lemma sample_reachable: "session_reachable sample_session"
  unfolding sample_session_def by (intro session_reachable.intros sample_wf)

theorem activity_session_invariant_witness:
  "as_state sample_session = ActDone \<and> as_confidence sample_session = Explicit"
proof -
  have "as_state sample_session = ActDone" by code_simp
  with activity_session_invariant [OF sample_reachable] show ?thesis by blast
qed

section \<open>Transitions\<close>

lemma next_applied:
  assumes "at_notification (nextSessionState previous e) = Some n"
  shows "\<exists>s. previous = Some s \<and> refusal s e = None \<and> ae_isSidechain e \<noteq> Some True \<and>
    earned_notification s (judged_session s e) e = Some n \<and>
    nextSessionState previous e =
      \<lparr>at_session = judged_session s e, at_notification = Some n, at_reason = ReasonApplied\<rparr>"
proof (cases previous)
  case None
  then show ?thesis using assms by (simp add: nextSessionState_def Let_def split: if_splits)
next
  case (Some s)
  then show ?thesis using assms by (cases "refusal s e") (simp_all add: nextSessionState_def Let_def split: if_splits)
qed

lemma earned_cases:
  assumes "earned_notification s (judged_session s e) e = Some n"
  shows "ae_confidence e = Explicit \<and> ae_outcome e = None \<and> \<not> has_vanished s e \<and> as_state (judged_session s e) \<noteq> as_state s \<and>
    as_state (judged_session s e) = (case n of NotifyAgentWaiting \<Rightarrow> ActWaiting | NotifyAgentDone \<Rightarrow> ActDone) \<and>
    (n = NotifyAgentDone \<longrightarrow> ae_state e = ActDone)"
proof -
  obtain state awaiting where j: "judged_state s e = (state, awaiting)" by fastforce
  note fields = judged_session_fields [OF j] and finished = judged_cases [OF j]
  have "as_state s \<noteq> state" "ae_outcome e = None" "\<not> has_vanished s e \<and> ae_confidence e = Explicit"
    "state = ActWaiting \<and> n = NotifyAgentWaiting \<or> state = ActDone \<and> n = NotifyAgentDone"
    using assms by (simp_all add: earned_notification_def fields split: if_splits)
  then show ?thesis using finished by (auto simp: fields)
qed

text \<open>C13: a notification is earned by an explicit observation of the session itself that changes its state, that
  reports no outcome and no end of the process; a session the code sees for the first time never notifies, and
  \<open>agent_done\<close> stands for a finished turn the source itself reported.\<close>

theorem notification_is_earned:
  assumes "at_notification (nextSessionState previous e) = Some n"
  shows "\<exists>s. previous = Some s \<and> refusal s e = None \<and> ae_isSidechain e \<noteq> Some True \<and> ae_confidence e = Explicit \<and>
    ae_outcome e = None \<and> ae_signal e \<noteq> Some ProcessVanished \<and> ae_signal e \<noteq> Some SessionEnded \<and>
    at_reason (nextSessionState previous e) = ReasonApplied \<and>
    as_state (at_session (nextSessionState previous e)) \<noteq> as_state s \<and>
    as_state (at_session (nextSessionState previous e)) = (case n of NotifyAgentWaiting \<Rightarrow> ActWaiting | NotifyAgentDone \<Rightarrow> ActDone) \<and>
    (n = NotifyAgentDone \<longrightarrow> ae_state e = ActDone)"
proof -
  obtain s where s: "previous = Some s" "refusal s e = None" "ae_isSidechain e \<noteq> Some True"
    "earned_notification s (judged_session s e) e = Some n"
    "nextSessionState previous e = \<lparr>at_session = judged_session s e, at_notification = Some n, at_reason = ReasonApplied\<rparr>"
    using next_applied [OF assms] by blast
  show ?thesis using s(1-3) earned_cases [OF s(4)] unfolding s(5) has_vanished_def by simp metis
qed

theorem notification_is_earned_witness:
  "at_notification (nextSessionState (Some (at_session (nextSessionState None sample_event))) sample_done) = Some NotifyAgentDone \<and>
   ae_confidence sample_done = Explicit"
proof -
  have "at_notification (nextSessionState (Some (at_session (nextSessionState None sample_event))) sample_done) =
      Some NotifyAgentDone" by code_simp
  with notification_is_earned [OF this] show ?thesis by blast
qed

abbreviation next_session :: "activity_session \<Rightarrow> activity_event \<Rightarrow> activity_session" where
  "next_session s e \<equiv> at_session (nextSessionState (Some s) e)"

text \<open>C21: evidence never gets weaker and never runs backwards. An accepted event is new, of the same session, later in
  the sequence and not earlier in time; an inferred observation leaves what explicit evidence established, unless it
  reports that the process or the session is gone or that the process behind the session is another one, and a refused event leaves the session as it is.\<close>

theorem evidence_never_weakens:
  "(refusal s e \<noteq> None \<longrightarrow> next_session s e = s \<and> at_notification (nextSessionState (Some s) e) = None) \<and>
    (refusal s e = None \<longrightarrow>
       as_sequence s < as_sequence (next_session s e) \<and> as_observedAt s \<le> as_observedAt (next_session s e) \<and>
       as_seenEventIds (next_session s e) = as_seenEventIds s @ [ae_eventId e] \<and> ae_eventId e \<notin> set (as_seenEventIds s)) \<and>
    (as_confidence s = Explicit \<and> ae_confidence e = Inferred \<and> \<not> has_vanished s e \<longrightarrow>
       as_state (next_session s e) = as_state s \<and> as_confidence (next_session s e) = Explicit \<and> as_outcome (next_session s e) = as_outcome s \<and>
       as_process (next_session s e) = as_process s \<and> as_stateChangedAt (next_session s e) = as_stateChangedAt s)"
proof (cases "refusal s e")
  case None
  obtain state awaiting where j: "judged_state s e = (state, awaiting)" by fastforce
  note fields = judged_session_fields [OF j]
  show ?thesis
    using accepted_order [OF None]
    by (simp add: nextSessionState_def None Let_def fields) (simp add: observe_def)
qed (simp add: nextSessionState_def)

theorem evidence_never_weakens_witness:
  "as_state (next_session sample_session (sample_event\<lparr>ae_eventId := ''c'', ae_sequence := 3, ae_confidence := Inferred,
     ae_observedAt := ''2026-01-01T00:01:00.000Z''\<rparr>)) = ActDone"
proof -
  let ?e = "sample_event\<lparr>ae_eventId := ''c'', ae_sequence := 3, ae_confidence := Inferred,
     ae_observedAt := ''2026-01-01T00:01:00.000Z''\<rparr>"
  have "as_state sample_session = ActDone" "as_confidence sample_session = Explicit" "ae_confidence ?e = Inferred"
    "\<not> has_vanished sample_session ?e" by code_simp+
  with evidence_never_weakens [of sample_session ?e] show ?thesis by simp
qed

section \<open>Batches\<close>

definition same_event :: "activity_event \<Rightarrow> activity_event \<Rightarrow> bool" where
  "same_event d e \<longleftrightarrow> ae_eventId d = ae_eventId e \<or> ae_sessionId d = ae_sessionId e \<and> ae_sequence d = ae_sequence e"

lemma sequence_key_inject:
  assumes "wf_event d" "wf_event e"
  shows "sequence_key d = sequence_key e \<longleftrightarrow> ae_sessionId d = ae_sessionId e \<and> ae_sequence d = ae_sequence e"
proof
  let ?v = "\<lambda>x. Arr [Str (ae_sessionId x), Num (Fin (of_int (ae_sequence x)))]"
  have ok: "json_clean (?v x) \<and> int_numbers (?v x)" if "wf_event x" for x
  proof -
    have "\<bar>rat_of_int (ae_sequence x)\<bar> \<le> 9007199254740991" using that unfolding wf_event_def safe_integer_def by blast
    then have "\<bar>rat_of_int (ae_sequence x)\<bar> < 10 ^ 21" by simp
    then show ?thesis by simp
  qed
  assume "sequence_key d = sequence_key e"
  then have "?v d = ?v e" using json_text_inject [of "?v d" "?v e"] ok [OF assms(1)] ok [OF assms(2)] unfolding sequence_key_def by blast
  then show "ae_sessionId d = ae_sessionId e \<and> ae_sequence d = ae_sequence e" by simp
qed (simp add: sequence_key_def)

text \<open>The reference: an event stays when nothing kept before it is the same event.\<close>

fun keep_first :: "('a \<Rightarrow> 'a \<Rightarrow> bool) \<Rightarrow> 'a list \<Rightarrow> 'a list \<Rightarrow> 'a list" where
  "keep_first same kept [] = []"
| "keep_first same kept (e # es) =
     (if list_ex (\<lambda>d. same d e) kept then keep_first same kept es else e # keep_first same (e # kept) es)"

lemma keep_first_apart:
  "sorted_wrt (\<lambda>d e. \<not> same d e) (keep_first same kept es) \<and>
   (\<forall>d \<in> set kept. \<forall>e \<in> set (keep_first same kept es). \<not> same d e)"
proof (induction es arbitrary: kept)
  case (Cons x es)
  show ?case
  proof (cases "list_ex (\<lambda>d. same d x) kept")
    case False
    then have "\<forall>d \<in> set kept. \<not> same d x" by (simp add: list_ex_iff)
    then show ?thesis using Cons.IH [of "x # kept"] False by simp
  qed (use Cons.IH [of kept] in simp)
qed simp

lemma keep_first_covers:
  assumes "\<And>e. same e e"
  shows "e \<in> set es \<Longrightarrow> \<exists>d \<in> set kept \<union> set (keep_first same kept es). same d e"
proof (induction es arbitrary: kept)
  case (Cons x es)
  show ?case
  proof (cases "list_ex (\<lambda>d. same d x) kept")
    case True
    then show ?thesis using Cons by (cases "e = x") (auto simp: list_ex_iff)
  next
    case False
    then show ?thesis using Cons.prems Cons.IH [of "x # kept"] assms by (cases "e = x") auto
  qed
qed simp

lemma keep_first_subseq: "subseq (keep_first same kept es) es"
  by (induction same kept es rule: keep_first.induct) auto

lemma seen_before:
  assumes "list_all wf_event kept" "wf_event e"
  shows "ae_eventId e \<in> ae_eventId ` set kept \<or> sequence_key e \<in> sequence_key ` set kept \<longleftrightarrow> list_ex (\<lambda>d. same_event d e) kept"
  using assms
proof (induction kept)
  case (Cons d kept)
  have "sequence_key e = sequence_key d \<longleftrightarrow> ae_sessionId d = ae_sessionId e \<and> ae_sequence d = ae_sequence e"
    using sequence_key_inject [of d e] Cons.prems by (metis list.pred_inject(2))
  moreover have "ae_eventId e \<in> ae_eventId ` set kept \<or> sequence_key e \<in> sequence_key ` set kept \<longleftrightarrow>
      list_ex (\<lambda>d. same_event d e) kept"
    using Cons by (simp only: list.pred_inject)
  ultimately show ?case unfolding same_event_def list.set image_insert insert_iff list_ex_iff bex_simps(5) by metis
qed simp

lemma dedupe_from_keep:
  assumes "list_all wf_event kept" "list_all wf_event es"
  shows "dedupe_from (ae_eventId ` set kept) (sequence_key ` set kept) es = keep_first same_event kept es"
  using assms
proof (induction es arbitrary: kept)
  case (Cons e es)
  have e: "wf_event e" "list_all wf_event es" using Cons.prems(2) by simp_all
  have "dedupe_from (insert (ae_eventId e) (ae_eventId ` set kept)) (insert (sequence_key e) (sequence_key ` set kept)) es =
      keep_first same_event (e # kept) es"
    using Cons.IH [of "e # kept"] Cons.prems(1) e by simp
  then show ?case
    by (simp only: dedupe_from.simps keep_first.simps seen_before [OF Cons.prems(1) e(1)] Cons.IH [OF Cons.prems(1) e(2)])
qed simp

lemma same_event_refl: "same_event e e"
  by (simp add: same_event_def)

lemma keep_first_append:
  "keep_first same kept (es @ fs) = keep_first same kept es @ keep_first same (rev (keep_first same kept es) @ kept) fs"
  by (induction same kept es rule: keep_first.induct) simp_all

lemma dedupe_keep:
  assumes "list_all wf_event events"
  shows "dedupeActivityEvents events = keep_first same_event [] events"
  using dedupe_from_keep [of "[]" events] assms by (simp add: dedupeActivityEvents_def)

lemma dedupe_next:
  assumes "list_all wf_event (es @ e # fs)"
  shows "\<exists>ds. dedupeActivityEvents (es @ e # fs) = dedupeActivityEvents es @
    (if \<exists>d \<in> set (dedupeActivityEvents es). same_event d e then [] else [e]) @ ds"
proof -
  have es: "dedupeActivityEvents es = keep_first same_event [] es" by (rule dedupe_keep) (use assms in simp)
  show ?thesis
    unfolding dedupe_keep [OF assms] es keep_first_append [of _ _ es "e # fs"] keep_first.simps append_Nil2
    by (auto simp: list_ex_iff)
qed

text \<open>C30: the removal of duplicates keeps the first. What stays are events of the batch in their order, no two of them with
  one event id or with one place in one session; every event of the batch is represented; and the events are decided one
  after the other: what stays of a beginning of the batch is not changed by what follows, and the next event stays exactly
  when nothing that stayed before it has its id or its place, so of several duplicates it is the first that stays.\<close>

theorem dedupe_exact:
  assumes "list_all wf_event events"
  shows "subseq (dedupeActivityEvents events) events \<and>
    sorted_wrt (\<lambda>d e. \<not> same_event d e) (dedupeActivityEvents events) \<and>
    (\<forall>e \<in> set events. \<exists>d \<in> set (dedupeActivityEvents events). same_event d e) \<and>
    (\<forall>es e fs. events = es @ e # fs \<longrightarrow>
       (\<exists>ds. dedupeActivityEvents events = dedupeActivityEvents es @
          (if \<exists>d \<in> set (dedupeActivityEvents es). same_event d e then [] else [e]) @ ds))"
proof (intro conjI allI impI)
  show "subseq (dedupeActivityEvents events) events"
    unfolding dedupe_keep [OF assms] by (rule keep_first_subseq)
  show "sorted_wrt (\<lambda>d e. \<not> same_event d e) (dedupeActivityEvents events)"
    unfolding dedupe_keep [OF assms] using keep_first_apart [of same_event "[]" events] by blast
  show "\<forall>e \<in> set events. \<exists>d \<in> set (dedupeActivityEvents events). same_event d e"
    unfolding dedupe_keep [OF assms]
    using keep_first_covers [where same = same_event and kept = "[]", OF same_event_refl] by (simp only: list.set Un_empty_left) blast
  show "\<exists>ds. dedupeActivityEvents events = dedupeActivityEvents es @
      (if \<exists>d \<in> set (dedupeActivityEvents es). same_event d e then [] else [e]) @ ds" if "events = es @ e # fs" for es e fs
    unfolding that by (rule dedupe_next) (use assms that in blast)
qed

theorem dedupe_exact_witness:
  "sorted_wrt (\<lambda>d e. \<not> same_event d e) (dedupeActivityEvents [sample_event, sample_done, sample_event])"
  using dedupe_exact [of "[sample_event, sample_done, sample_event]"] sample_wf by (simp only: list.pred_inject)

section \<open>Retirement and projection\<close>

text \<open>An idle poll: it reports that the session is idle and nothing else.\<close>

definition idle_poll :: "activity_event \<Rightarrow> bool" where
  "idle_poll e \<longleftrightarrow>
     ae_state e = ActIdle \<and> ae_outcome e = None \<and> ae_signal e \<in> {None, Some SignalObservation} \<and> ae_process e = None"

definition resting :: "activity_session \<Rightarrow> bool" where
  "resting s \<longleftrightarrow> as_state s = ActIdle \<and> as_outcome s = None \<and> as_endedAt s = None"

definition run_events :: "activity_session \<Rightarrow> activity_event list \<Rightarrow> activity_session" where
  "run_events s events = foldl next_session s events"

lemma idle_poll_judged:
  assumes "resting s" "idle_poll e"
  shows "judged_state s e = (ActIdle, False) \<and> \<not> has_vanished s e"
proof -
  have "\<not> has_vanished s e" using assms(2) by (auto simp: idle_poll_def has_vanished_def identity_changed_def stated_pid_def)
  moreover have "fst (claimed_state s e) = ActIdle" using assms(2) by (auto simp: idle_poll_def claimed_state_def Let_def)
  ultimately show ?thesis using assms(2) by (simp add: judged_state_def idle_poll_def Let_def split_def)
qed

lemma idle_poll_step:
  assumes "resting s" "idle_poll e"
  shows "resting (next_session s e) \<and> as_stateChangedAt (next_session s e) = as_stateChangedAt s"
proof (cases "refusal s e")
  case None
  note poll = idle_poll_judged [OF assms]
  note fields = judged_session_fields [OF poll [THEN conjunct1]]
  have "ae_outcome e = None" using assms(2) by (simp add: idle_poll_def)
  then have judged: "resting (judged_session s e) \<and> as_stateChangedAt (judged_session s e) = as_stateChangedAt s"
    using assms(1) poll by (simp add: resting_def fields)
  have observed: "resting (observe s e) \<and> as_stateChangedAt (observe s e) = as_stateChangedAt s"
    using assms(1) by (simp add: resting_def observe_def)
  show ?thesis
    using judged observed by (simp add: nextSessionState_def None Let_def)
qed (simp add: nextSessionState_def assms)

text \<open>Repeated idle polls cannot keep a session alive: after any number of them it is retired exactly when it
  would have been without them.\<close>

theorem idle_polls_do_not_revive:
  assumes "resting s" "list_all idle_poll events"
  shows "shouldRetireActivitySession (run_events s events) now = shouldRetireActivitySession s now"
proof -
  have "resting (run_events s events) \<and> as_stateChangedAt (run_events s events) = as_stateChangedAt s"
    using assms
  proof (induction events arbitrary: s)
    case (Cons e es)
    then have "list_all idle_poll es" "idle_poll e" by simp_all
    then show ?case using Cons.IH [of "next_session s e"] idle_poll_step [OF Cons.prems(1)] by (simp add: run_events_def)
  qed (simp add: run_events_def)
  then show ?thesis using assms(1) by (simp add: shouldRetireActivitySession_def resting_def)
qed

definition idle_event :: "string \<Rightarrow> int \<Rightarrow> activity_event" where
  "idle_event i n = sample_event\<lparr>ae_eventId := i, ae_sequence := n, ae_state := ActIdle, ae_confidence := Inferred\<rparr>"

theorem idle_polls_do_not_revive_witness:
  "shouldRetireActivitySession
     (run_events (at_session (nextSessionState None (idle_event ''a'' 1))) [idle_event ''b'' 2, idle_event ''c'' 3]) (Some 1767400000000) =
   shouldRetireActivitySession (at_session (nextSessionState None (idle_event ''a'' 1))) (Some 1767400000000)"
proof (rule idle_polls_do_not_revive)
  have "as_state (at_session (nextSessionState None (idle_event ''a'' 1))) = ActIdle"
    "as_outcome (at_session (nextSessionState None (idle_event ''a'' 1))) = None"
    "as_endedAt (at_session (nextSessionState None (idle_event ''a'' 1))) = None" by code_simp+
  then show "resting (at_session (nextSessionState None (idle_event ''a'' 1)))" by (simp add: resting_def)
  show "list_all idle_poll [idle_event ''b'' 2, idle_event ''c'' 3]"
    by (simp add: idle_poll_def idle_event_def sample_event_def)
qed

text \<open>The keys and the fields of the records the session becomes.\<close>

lemma filter_keys: "set (keys_of (obj ps)) \<subseteq> fst ` set ps"
  by (auto simp: obj_def)

lemma projected_record:
  assumes s: "wf_session s" and label: "case as_userProjectLabel s of None \<Rightarrow> True | Some l \<Rightarrow> is_identifier (Str l)"
    and extra: "outcome = None \<or> display \<and> outcome = as_outcome s"
  shows "isProjectedActivityRecord
    (obj (upload_fields s @ [(''outcome'', opt_js (map_option (Str \<circ> activity_outcome_str) outcome))])) display"
    (is "isProjectedActivityRecord ?r display")
proof -
  have props: "prop_of ?r ''sessionId'' = Str (opaqueSessionId (as_agent s) (as_sessionId s))"
    "prop_of ?r ''agent'' = Str (agent_str (as_agent s))" "prop_of ?r ''state'' = Str (activity_state_str (as_state s))"
    "prop_of ?r ''confidence'' = Str (confidence_str (as_confidence s))"
    "prop_of ?r ''firstObservedAt'' = Str (as_firstObservedAt s)" "prop_of ?r ''observedAt'' = Str (as_observedAt s)"
    "prop_of ?r ''stateChangedAt'' = Str (as_stateChangedAt s)"
    "prop_of ?r ''userProjectLabel'' = opt_js (map_option Str (as_userProjectLabel s))"
    "prop_of ?r ''outcome'' = opt_js (map_option (Str \<circ> activity_outcome_str) outcome)"
    by (simp_all add: upload_fields_def)
  have words: "is_member agent_str ACTIVITY_AGENTS (Str (agent_str a))"
    "is_member activity_state_str ACTIVITY_STATES (Str (activity_state_str st))"
    "is_member confidence_str [Explicit, Inferred] (Str (confidence_str c))"
    "is_member activity_outcome_str [OutcomeCancelled, OutcomeFailed] (Str (activity_outcome_str oc))" for a st c oc
    unfolding member_cases word_iff by blast+
  have names: "fst ` set (upload_fields s) = set UPLOAD_KEYS" by (simp add: upload_fields_def UPLOAD_KEYS_def)
  have keys: "hasOnlyContractKeys ?r (UPLOAD_KEYS @ (if display then [''outcome''] else []))"
  proof (cases display)
    case True
    have "set (keys_of ?r) \<subseteq> set (UPLOAD_KEYS @ [''outcome''])"
      using filter_keys [of "upload_fields s @ [(''outcome'', opt_js (map_option (Str \<circ> activity_outcome_str) outcome))]"]
      unfolding set_append image_Un names by simp
    then show ?thesis unfolding hasOnlyContractKeys_def list_all_iff if_P [OF True] by blast
  next
    case False
    then have "?r = obj (upload_fields s)" using extra by (simp add: obj_def)
    then have "set (keys_of ?r) \<subseteq> set UPLOAD_KEYS" using filter_keys [of "upload_fields s"] unfolding names by simp
    then show ?thesis unfolding hasOnlyContractKeys_def list_all_iff if_not_P [OF False] append_Nil2 by blast
  qed
  have digest: "hex_text 64 (opaqueSessionId (as_agent s) (as_sessionId s))" by (simp add: opaqueSessionId_def sha256_hex)
  have times: "isContractInstant (Str (as_firstObservedAt s))" "isContractInstant (Str (as_stateChangedAt s))"
    "isContractInstant (Str (as_observedAt s))" "\<not> as_stateChangedAt s < as_firstObservedAt s"
    "\<not> as_observedAt s < as_stateChangedAt s"
    using s unfolding wf_session_def wf_times_def by (simp_all add: not_less)
  have finished: "as_state s = ActDone \<longrightarrow> as_confidence s = Explicit \<and> as_outcome s = None"
    using s by (simp add: wf_session_def wf_status_def)
  have ok_label: "opt_js (map_option Str (as_userProjectLabel s)) \<noteq> Undefined \<longrightarrow>
      is_identifier (opt_js (map_option Str (as_userProjectLabel s)))"
    using label by (cases "as_userProjectLabel s") simp_all
  have ok_outcome: "opt_js (map_option (Str \<circ> activity_outcome_str) outcome) = Undefined \<or>
      display \<and> is_member activity_outcome_str [OutcomeCancelled, OutcomeFailed]
        (opt_js (map_option (Str \<circ> activity_outcome_str) outcome)) \<and> as_state s \<noteq> ActDone"
    using extra finished words(4) by (cases outcome; cases "as_outcome s") auto
  show ?thesis
    unfolding isProjectedActivityRecord_def Let_def props
    using keys digest words times finished ok_label ok_outcome by (simp add: text_after_def)
qed

lemma upload_projected:
  "obj (upload_fields s) = obj (upload_fields s @ [(''outcome'', opt_js (map_option (Str \<circ> activity_outcome_str) None))])"
  by (simp add: obj_def)

text \<open>C22: what leaves the machine. A session the state machine can reach gives an upload record and a display record
  that the receiving side accepts, with the digest in the place of the session's own name and nothing outside the list
  of fields; a label of the user that is no identifier stops both.\<close>

theorem records_are_accepted:
  assumes "session_reachable s"
  shows "case as_userProjectLabel s of
      Some l \<Rightarrow> (if is_identifier (Str l)
        then (\<exists>r d. toUploadRecord s = Inr r \<and> isActivityUploadRecord r \<and> toDisplayRecord s = Inr d \<and> isActivityDisplayRecord d)
        else isl (toUploadRecord s) \<and> isl (toDisplayRecord s))
    | None \<Rightarrow>
        (\<exists>r d. toUploadRecord s = Inr r \<and> isActivityUploadRecord r \<and> toDisplayRecord s = Inr d \<and> isActivityDisplayRecord d)"
proof -
  note s = reachable_wf [OF assms]
  have "isActivityUploadRecord (obj (upload_fields s))"
    "isActivityDisplayRecord (obj (upload_fields s @ [(''outcome'', opt_js (map_option (Str \<circ> activity_outcome_str) (as_outcome s)))]))"
    if "case as_userProjectLabel s of None \<Rightarrow> True | Some l \<Rightarrow> is_identifier (Str l)"
    using projected_record [OF s that, of None] projected_record [OF s that, of "as_outcome s" True]
    unfolding isActivityUploadRecord_def isActivityDisplayRecord_def upload_projected by simp_all
  then show ?thesis
    by (cases "as_userProjectLabel s") (simp_all add: toUploadRecord_def toDisplayRecord_def)
qed

theorem records_are_accepted_witness:
  "\<exists>r. toUploadRecord sample_session = Inr r \<and> isActivityUploadRecord r"
proof -
  have "as_userProjectLabel sample_session = None" by code_simp
  with records_are_accepted [OF sample_reachable] show ?thesis by auto
qed

text \<open>The pseudonym is the SHA-256 digest of a message that determines the agent and the session: two sessions
  can share a pseudonym only when the digests of two different messages collide.\<close>

theorem pseudonym_separates:
  assumes "length (identity_message a s) < 2 ^ 29"
  shows "opaqueSessionId a s = concat (map hex8 (standard_sha256 (identity_message a s))) \<and>
    (\<forall>b t. identity_message b t = identity_message a s \<longleftrightarrow> b = a \<and> t = s)"
proof -
  let ?v = "\<lambda>a s. Arr [Str ''openlimiter.activity.v1'', Str (agent_str a), Str s]"
  have "list_all (\<lambda>b. b < 256) (identity_message a s)"
    by (auto simp: identity_message_def utf8_bytes_def list_all_iff dest: utf8_char_bytes)
  then have "opaqueSessionId a s = concat (map hex8 (standard_sha256 (identity_message a s)))"
    unfolding opaqueSessionId_def by (rule sha256_blocks) (rule assms)
  moreover have "b = a \<and> t = s" if "identity_message b t = identity_message a s" for b t
  proof -
    have "json_text (?v b t) = json_text (?v a s)" using that unfolding identity_message_def utf8_bytes_def by (rule utf8_bytes_inject)
    moreover have "json_clean (?v a s)" "int_numbers (?v a s)" for a s by simp_all
    ultimately have "?v b t = ?v a s" using json_text_inject by blast
    then show ?thesis using agent_words.code_eq_iff by simp
  qed
  ultimately show ?thesis by blast
qed

theorem pseudonym_separates_witness:
  "opaqueSessionId AgentCodex ''x'' = concat (map hex8 (standard_sha256 (identity_message AgentCodex ''x'')))"
proof -
  have "length (identity_message AgentCodex ''x'') = 39" by code_simp
  with pseudonym_separates [of AgentCodex "''x''"] show ?thesis by simp
qed

end
