(* ===== verification/Surfaces.thy ===== *)
theory Surfaces
  imports Activity "HOL-Library.Signed_Division"
begin

text \<open>
  The contracts of the surfaces (contracts/notify.ts and contracts/surfaces.ts): the keys under which a notification is
  sent once, the check of a submission and of the preferences, the quiet hours, the check of an account row and the
  tray's choice of one row. The checks take values of type \<open>unknown\<close>, as the source's do.
\<close>

section \<open>Notifications\<close>

datatype notification_provider = Metered provider_code | Muse | CursorEditor

fun notification_provider_str :: "notification_provider \<Rightarrow> string" where
  "notification_provider_str (Metered p) = provider_str p"
| "notification_provider_str Muse = ''MUSE''"
| "notification_provider_str CursorEditor = ''CURSOR''"

definition NOTIFICATION_PROVIDERS :: "notification_provider list" where
  "NOTIFICATION_PROVIDERS = map Metered PROVIDER_CODES @ [Muse, CursorEditor]"

datatype threshold_kind = ThresholdCrossed | LimitReached | ResetSeen

datatype notification_kind = QuotaNews threshold_kind | AgentNews activity_notification

fun notification_kind_str :: "notification_kind \<Rightarrow> string" where
  "notification_kind_str (QuotaNews ThresholdCrossed) = ''threshold''"
| "notification_kind_str (QuotaNews LimitReached) = ''limit_reached''"
| "notification_kind_str (QuotaNews ResetSeen) = ''reset''"
| "notification_kind_str (AgentNews NotifyAgentWaiting) = ''agent_waiting''"
| "notification_kind_str (AgentNews NotifyAgentDone) = ''agent_done''"

definition NOTIFICATION_KINDS :: "notification_kind list" where
  "NOTIFICATION_KINDS =
     [QuotaNews ThresholdCrossed, QuotaNews LimitReached, QuotaNews ResetSeen, AgentNews NotifyAgentWaiting, AgentNews NotifyAgentDone]"

interpretation notification_kind_words: vocabulary notification_kind_str NOTIFICATION_KINDS
proof unfold_locales
  show "notification_kind_str x = notification_kind_str y \<Longrightarrow> x = y" for x y
    by (cases x rule: notification_kind_str.cases; cases y rule: notification_kind_str.cases) simp_all
  show "x \<in> set NOTIFICATION_KINDS" for x by (cases x rule: notification_kind_str.cases) (simp_all add: NOTIFICATION_KINDS_def)
qed

datatype usage_threshold = At60 | At80 | At90

fun threshold_value :: "usage_threshold \<Rightarrow> int" where
  "threshold_value At60 = 60"
| "threshold_value At80 = 80"
| "threshold_value At90 = 90"

definition textId :: "js \<Rightarrow> bool" where
  "textId v =
     (case v of
        Str s \<Rightarrow> s \<noteq> [] \<and> length s \<le> 256 \<and> list_all (\<lambda>c. 32 \<le> (of_char c :: nat) \<and> (of_char c :: nat) \<noteq> 127) s
      | _ \<Rightarrow> False)"

definition account_ok :: "js \<Rightarrow> bool" where
  "account_ok v \<longleftrightarrow> v = Null \<or> textId v"

definition nullable :: "js option \<Rightarrow> js" where
  "nullable v = (case v of None \<Rightarrow> Null | Some x \<Rightarrow> x)"

definition thresholdDedupeKey ::
    "notification_provider \<Rightarrow> string option \<Rightarrow> string \<Rightarrow> string \<Rightarrow> threshold_kind \<Rightarrow> usage_threshold option \<Rightarrow> string result" where
  "thresholdDedupeKey provider account meterId cycleId kind threshold =
     (if (kind = ThresholdCrossed) \<noteq> (threshold \<noteq> None)
      then Inl (TypeError ''notify: threshold required only for threshold kind'')
      else Inr (''threshold:'' @
        json_text (Arr [Str (notification_provider_str provider), nullable (map_option Str account), Str meterId, Str cycleId,
          Str (notification_kind_str (QuotaNews kind)),
          nullable (map_option (\<lambda>t. Num (Fin (of_int (threshold_value t)))) threshold)])))"

definition activityDedupeKey ::
    "notification_provider \<Rightarrow> string option \<Rightarrow> string \<Rightarrow> int \<Rightarrow> activity_notification \<Rightarrow> string" where
  "activityDedupeKey provider account sessionId sequence kind =
     ''activity:'' @
     json_text (Arr [Str (notification_provider_str provider), nullable (map_option Str account), Str sessionId,
       Num (Fin (of_int sequence)), Str (notification_kind_str (AgentNews kind))])"

definition dedupe_parts_ok :: "js \<Rightarrow> bool \<Rightarrow> string \<Rightarrow> string \<Rightarrow> js list \<Rightarrow> bool" where
  "dedupe_parts_ok v activity lead key parts \<longleftrightarrow>
     length parts = (if activity then 5 else 6) \<and> parts ! 0 = prop_of v ''provider'' \<and> parts ! 1 = prop_of v ''account'' \<and>
     parts ! 4 = prop_of v ''kind'' \<and> textId (parts ! 2) \<and>
     (case stringify (Arr parts) of Some text \<Rightarrow> key = lead @ text | None \<Rightarrow> False) \<and>
     (if activity then (case parts ! 3 of Num (Fin r) \<Rightarrow> safe_integer r \<and> 0 \<le> r | _ \<Rightarrow> False)
      else textId (parts ! 3) \<and>
        (if prop_of v ''kind'' = Str ''threshold'' then parts ! 5 \<in> {Num (Fin 60), Num (Fin 80), Num (Fin 90)}
         else parts ! 5 = Null))"

definition agent_kind :: "js \<Rightarrow> bool" where
  "agent_kind v \<longleftrightarrow> prop_of v ''kind'' \<in> {Str ''agent_waiting'', Str ''agent_done''}"

definition validDedupeKey :: "js \<Rightarrow> bool" where
  "validDedupeKey v =
     (case prop_of v ''dedupeKey'' of
        Str key \<Rightarrow>
          length key \<le> 2048 \<and>
          (let activity = agent_kind v;
               lead = (if activity then ''activity:'' else ''threshold:'')
           in startsWith key lead \<and>
              (case JSON_parse (drop (length lead) key) of
                 Some (Arr parts) \<Rightarrow> dedupe_parts_ok v activity lead key parts
               | _ \<Rightarrow> False))
      | _ \<Rightarrow> False)"

definition SUBMISSION_KEYS :: "string list" where
  "SUBMISSION_KEYS = [''kind'', ''dedupeKey'', ''provider'', ''account'', ''localChannel'', ''remoteChannel'']"

definition isNotificationSubmission :: "js \<Rightarrow> bool" where
  "isNotificationSubmission v \<longleftrightarrow>
     isRecord v \<and> hasOnlyContractKeys v SUBMISSION_KEYS \<and>
     is_member notification_kind_str NOTIFICATION_KINDS (prop_of v ''kind'') \<and>
     is_member notification_provider_str NOTIFICATION_PROVIDERS (prop_of v ''provider'') \<and>
     account_ok (prop_of v ''account'') \<and> prop_of v ''localChannel'' \<in> {Str ''popup'', Str ''none''} \<and>
     prop_of v ''remoteChannel'' \<in> {Bool True, Bool False} \<and> validDedupeKey v"

definition integer_between :: "rat \<Rightarrow> rat \<Rightarrow> js \<Rightarrow> bool" where
  "integer_between lo hi v = (case v of Num (Fin r) \<Rightarrow> is_integer r \<and> lo \<le> r \<and> r \<le> hi | _ \<Rightarrow> False)"

definition quiet_hours_ok :: "js \<Rightarrow> bool" where
  "quiet_hours_ok q \<longleftrightarrow>
     isRecord q \<and> hasOnlyContractKeys q [''startMinute'', ''endMinute'', ''utcOffsetMinutes''] \<and>
     integer_between 0 1439 (prop_of q ''startMinute'') \<and> integer_between 0 1439 (prop_of q ''endMinute'') \<and>
     integer_between (- 840) 840 (prop_of q ''utcOffsetMinutes'')"

definition isChannelPreferences :: "js \<Rightarrow> bool" where
  "isChannelPreferences v \<longleftrightarrow>
     isRecord v \<and> hasOnlyContractKeys v [''enabled'', ''quietHours'', ''snoozedUntil'', ''mutedProviders''] \<and>
     prop_of v ''enabled'' \<in> {Bool True, Bool False} \<and>
     (prop_of v ''snoozedUntil'' = Null \<or> isContractInstant (prop_of v ''snoozedUntil'')) \<and>
     (case prop_of v ''mutedProviders'' of
        Arr ps \<Rightarrow> list_all (is_member notification_provider_str NOTIFICATION_PROVIDERS) ps | _ \<Rightarrow> False) \<and>
     (prop_of v ''quietHours'' = Null \<or> quiet_hours_ok (prop_of v ''quietHours''))"

definition isNotificationPreferences :: "js \<Rightarrow> bool" where
  "isNotificationPreferences v \<longleftrightarrow>
     isRecord v \<and> hasOnlyContractKeys v [''local'', ''remote''] \<and>
     isChannelPreferences (prop_of v ''local'') \<and> isChannelPreferences (prop_of v ''remote'')"

text \<open>The minute of the day at the user's place, and whether it is quiet.\<close>

definition local_minute :: "int \<Rightarrow> int \<Rightarrow> int" where
  "local_minute now offset = ((now div 60000 + offset) smod 1440 + 1440) smod 1440"

definition in_quiet_hours :: "int \<Rightarrow> int \<Rightarrow> int \<Rightarrow> bool" where
  "in_quiet_hours start end minute =
     (if start < end then start \<le> minute \<and> minute < end else start \<le> minute \<or> minute < end)"

definition minute_of :: "js \<Rightarrow> string \<Rightarrow> int" where
  "minute_of q key = (case read_int (prop_of q key) of Some n \<Rightarrow> n | None \<Rightarrow> 0)"

definition quiet_now :: "js \<Rightarrow> int \<Rightarrow> bool" where
  "quiet_now q now \<longleftrightarrow>
     q \<noteq> Null \<and> minute_of q ''startMinute'' \<noteq> minute_of q ''endMinute'' \<and>
     in_quiet_hours (minute_of q ''startMinute'') (minute_of q ''endMinute'') (local_minute now (minute_of q ''utcOffsetMinutes''))"

definition snoozed :: "js \<Rightarrow> int \<Rightarrow> bool" where
  "snoozed v now = (case v of Str s \<Rightarrow> (case dateParse s of Some t \<Rightarrow> now < t | None \<Rightarrow> False) | _ \<Rightarrow> False)"

definition muted :: "js \<Rightarrow> js \<Rightarrow> bool" where
  "muted providers provider = (case providers of Arr ps \<Rightarrow> provider \<in> set ps | _ \<Rightarrow> False)"

definition permits :: "js \<Rightarrow> js \<Rightarrow> ms \<Rightarrow> bool" where
  "permits submission preferences now =
     (case now of
        None \<Rightarrow> False
      | Some n \<Rightarrow>
          isNotificationSubmission submission \<and> isChannelPreferences preferences \<and> prop_of preferences ''enabled'' = Bool True \<and>
          \<not> muted (prop_of preferences ''mutedProviders'') (prop_of submission ''provider'') \<and>
          \<not> snoozed (prop_of preferences ''snoozedUntil'') n \<and> \<not> quiet_now (prop_of preferences ''quietHours'') n)"

definition shouldNotifyLocally :: "js \<Rightarrow> js \<Rightarrow> ms \<Rightarrow> bool" where
  "shouldNotifyLocally submission preferences now \<longleftrightarrow>
     prop_of submission ''localChannel'' = Str ''popup'' \<and> permits submission (prop_of preferences ''local'') now"

definition shouldSendRemote :: "js \<Rightarrow> js \<Rightarrow> ms \<Rightarrow> bool \<Rightarrow> bool" where
  "shouldSendRemote submission preferences now remoteNotifications \<longleftrightarrow>
     remoteNotifications \<and> prop_of submission ''remoteChannel'' = Bool True \<and> permits submission (prop_of preferences ''remote'') now"

section \<open>Rows and the tray\<close>

datatype surface_band = BandGreen | BandYellow | BandOrange | BandRed | BandStale

fun band_str :: "surface_band \<Rightarrow> string" where
  "band_str BandGreen = ''green''"
| "band_str BandYellow = ''yellow''"
| "band_str BandOrange = ''orange''"
| "band_str BandRed = ''red''"
| "band_str BandStale = ''stale''"

datatype surface_freshness = FreshRow | StaleRow | UnknownRow

definition usageBand :: "jsnum \<Rightarrow> surface_freshness \<Rightarrow> surface_band" where
  "usageBand used fresh =
     (case used of
        Fin r \<Rightarrow>
          if fresh \<noteq> FreshRow \<or> r < 0 \<or> 100 < r then BandStale
          else if 90 \<le> r then BandRed else if 80 \<le> r then BandOrange else if 60 \<le> r then BandYellow else BandGreen
      | _ \<Rightarrow> BandStale)"

definition usedPercent :: "js \<Rightarrow> rat option" where
  "usedPercent row =
     (if prop_of row ''kind'' \<noteq> Str ''quota_percent'' \<or> prop_of row ''availability'' \<noteq> Str ''available'' \<or>
         prop_of row ''freshness'' \<noteq> Str ''fresh'' then None
      else case prop_of row ''value'' of
        Num (Fin r) \<Rightarrow>
          if r < 0 \<or> 100 < r then None else if prop_of row ''meaning'' = Str ''remaining'' then Some (100 - r) else Some r
      | _ \<Rightarrow> None)"

definition text_in :: "string list \<Rightarrow> js \<Rightarrow> bool" where
  "text_in words v = (case v of Str s \<Rightarrow> s \<in> set words | _ \<Rightarrow> False)"

definition ROW_KEYS :: "string list" where
  "ROW_KEYS =
     [''provider'', ''account'', ''headlineMeterId'', ''kind'', ''value'', ''meaning'', ''windowLabel'', ''resetAt'', ''freshness'',
      ''availability'', ''band'', ''precision'', ''fidelityMarker'', ''sessions'']"

definition row_words_ok :: "js \<Rightarrow> bool" where
  "row_words_ok v \<longleftrightarrow>
     is_member provider_str PROVIDER_CODES (prop_of v ''provider'') \<and> account_ok (prop_of v ''account'') \<and>
     textId (prop_of v ''headlineMeterId'') \<and> textId (prop_of v ''windowLabel'') \<and>
     (prop_of v ''resetAt'' = Null \<or> isContractInstant (prop_of v ''resetAt'')) \<and>
     text_in (map kind_str SNAPSHOT_KINDS @ [''unknown'']) (prop_of v ''kind'') \<and>
     text_in [''used'', ''remaining''] (prop_of v ''meaning'') \<and>
     text_in [''fresh'', ''stale'', ''unknown''] (prop_of v ''freshness'') \<and>
     text_in (''available'' # map availability_str SNAPSHOT_AVAILABILITIES) (prop_of v ''availability'') \<and>
     text_in [''exact'', ''estimated'', ''manual'', ''unknown''] (prop_of v ''precision'')"

definition row_value_ok :: "js \<Rightarrow> bool" where
  "row_value_ok v \<longleftrightarrow>
     (case prop_of v ''value'' of
        Null \<Rightarrow> True
      | Num (Fin r) \<Rightarrow>
          0 \<le> r \<and> prop_of v ''availability'' = Str ''available'' \<and> (prop_of v ''kind'' = Str ''quota_percent'' \<longrightarrow> r \<le> 100)
      | _ \<Rightarrow> False) \<and>
     prop_of v ''fidelityMarker'' = (if prop_of v ''precision'' = Str ''exact'' then Null else prop_of v ''precision'')"

definition SESSION_COUNTS :: "string list" where
  "SESSION_COUNTS = [''busy'', ''waiting'', ''done'', ''idle'', ''unknown'']"

definition MAX_LIVE_ACTIVITY_SESSIONS :: int where
  "MAX_LIVE_ACTIVITY_SESSIONS = 64"

definition session_counts_ok :: "js \<Rightarrow> bool" where
  "session_counts_ok sessions \<longleftrightarrow>
     isRecord sessions \<and> hasOnlyContractKeys sessions SESSION_COUNTS \<and>
     list_all (\<lambda>key. case prop_of sessions key of Num (Fin r) \<Rightarrow> safe_integer r \<and> 0 \<le> r | _ \<Rightarrow> False) SESSION_COUNTS \<and>
     foldl (\<lambda>total key. total + minute_of sessions key) 0 SESSION_COUNTS \<le> MAX_LIVE_ACTIVITY_SESSIONS"

definition isSurfaceAccountRow :: "js \<Rightarrow> bool" where
  "isSurfaceAccountRow v \<longleftrightarrow>
     isRecord v \<and> hasOnlyContractKeys v ROW_KEYS \<and> row_words_ok v \<and> row_value_ok v \<and>
     session_counts_ok (prop_of v ''sessions'') \<and>
     prop_of v ''band'' =
       Str (band_str (case usedPercent v of None \<Rightarrow> BandStale | Some used \<Rightarrow> usageBand (Fin used) FreshRow))"

datatype tray_summary =
    TrayNumeric (tray_selected: js) (tray_value: rat) (tray_band: surface_band) (tray_partial: bool) (tray_included: nat)
      (tray_excluded: nat)
  | TrayUnknown (tray_partial: bool) (tray_excluded: nat)

definition tray_step :: "js option \<times> rat \<times> nat \<Rightarrow> js \<Rightarrow> js option \<times> rat \<times> nat" where
  "tray_step st row =
     (case st of (selected, maximum, included) \<Rightarrow>
        if \<not> isSurfaceAccountRow row then st
        else case usedPercent row of
          None \<Rightarrow> st
        | Some used \<Rightarrow>
            if maximum < used then (Some row, used, included + 1) else (selected, maximum, included + 1))"

definition traySummary :: "js list \<Rightarrow> tray_summary" where
  "traySummary rows =
     (case foldl tray_step (None, - 1, 0) rows of (selected, maximum, included) \<Rightarrow>
        let excluded = length rows - included; partial = (0 < included \<and> 0 < excluded)
        in case selected of
             None \<Rightarrow> TrayUnknown partial excluded
           | Some row \<Rightarrow> TrayNumeric row maximum (usageBand (Fin maximum) FreshRow) partial included excluded)"

section \<open>The tray shows the highest comparable consumption\<close>

definition comparable :: "js list \<Rightarrow> (js \<times> rat) list" where
  "comparable rows =
     List.map_filter (\<lambda>row. if isSurfaceAccountRow row then map_option (Pair row) (usedPercent row) else None) rows"

definition pick :: "js option \<times> rat \<Rightarrow> js \<times> rat \<Rightarrow> js option \<times> rat" where
  "pick st c = (if snd st < snd c then (Some (fst c), snd c) else st)"

lemma pick_if: "pick st (row, u) = (if snd st < u then (Some row, u) else st)"
  by (simp add: pick_def)

lemma tray_scan:
  "foldl tray_step (selected, maximum, included) rows =
     (case foldl pick (selected, maximum) (comparable rows) of (s, m) \<Rightarrow> (s, m, included + length (comparable rows)))"
proof (induction rows arbitrary: selected maximum included)
  case (Cons row rows)
  show ?case
    using Cons.IH
    by (cases "isSurfaceAccountRow row"; cases "usedPercent row")
      (simp_all add: tray_step_def comparable_def map_filter_simps pick_def split: prod.split)
qed (simp add: comparable_def map_filter_simps)

lemma used_bounds: "usedPercent row = Some u \<Longrightarrow> 0 \<le> u \<and> u \<le> 100"
  by (auto simp: usedPercent_def split: if_splits js.splits jsnum.splits)

lemma comparable_in: "(row, u) \<in> set (comparable rows) \<Longrightarrow> row \<in> set rows \<and> isSurfaceAccountRow row \<and> usedPercent row = Some u"
  by (induction rows) (auto simp: comparable_def map_filter_simps split: option.splits if_splits)

lemma pick_first:
  assumes "foldl pick (selected, maximum) cs = (s, m)"
  shows "maximum \<le> m \<and> (\<forall>c \<in> set cs. snd c \<le> m) \<and>
    (s = selected \<and> m = maximum \<or> (\<exists>row. s = Some row \<and> maximum < m \<and> find (\<lambda>c. snd c = m) cs = Some (row, m)))"
  using assms
proof (induction cs arbitrary: selected maximum)
  case (Cons c cs)
  obtain row u where c: "c = (row, u)" by (cases c)
  show ?case
  proof (cases "maximum < u")
    case True
    then have "foldl pick (Some row, u) cs = (s, m)" using Cons.prems by (simp add: c pick_if)
    note later = Cons.IH [OF this]
    show ?thesis
    proof (cases "m = u")
      case True
      then show ?thesis using later \<open>maximum < u\<close> by (elim conjE disjE) (simp_all add: c)
    next
      case False
      then obtain r where "s = Some r" "u < m" "find (\<lambda>c. snd c = m) cs = Some (r, m)" using later by blast
      then show ?thesis using later \<open>maximum < u\<close> by (simp add: c)
    qed
  next
    case False
    then have "foldl pick (selected, maximum) cs = (s, m)" using Cons.prems by (simp add: c pick_if)
    note later = Cons.IH [OF this]
    then have "u \<le> m" using False by linarith
    with later False show ?thesis by (elim conjE disjE exE) (simp_all add: c)
  qed
qed simp

text \<open>C23: the tray. Nothing comparable gives the unknown summary; otherwise the first row of the highest consumption,
  with its own band, never a stale one, and exact counts of the rows that took part.\<close>

theorem tray_selects_maximum:
  "if comparable rows = [] then traySummary rows = TrayUnknown False (length rows)
   else \<exists>row u. traySummary rows =
       TrayNumeric row u (usageBand (Fin u) FreshRow) (length (comparable rows) < length rows) (length (comparable rows))
         (length rows - length (comparable rows)) \<and>
     find (\<lambda>c. snd c = u) (comparable rows) = Some (row, u) \<and> (\<forall>c \<in> set (comparable rows). snd c \<le> u) \<and>
     row \<in> set rows \<and> prop_of row ''band'' = Str (band_str (usageBand (Fin u) FreshRow)) \<and> usageBand (Fin u) FreshRow \<noteq> BandStale"
proof (cases "comparable rows = []")
  case True
  then show ?thesis using tray_scan [of None "- 1" 0 rows] by (simp add: traySummary_def)
next
  case False
  obtain s m where scan: "foldl pick (None, - 1) (comparable rows) = (s, m)" by fastforce
  obtain c where "c \<in> set (comparable rows)" using False by (cases "comparable rows") auto
  then have "usedPercent (fst c) = Some (snd c)" using comparable_in [of "fst c" "snd c" rows] by simp
  then have "0 \<le> snd c" using used_bounds [of "fst c" "snd c"] by simp
  then have "\<not> (\<forall>c \<in> set (comparable rows). snd c \<le> - 1)" using \<open>c \<in> _\<close> by fastforce
  then obtain row where row: "s = Some row" "find (\<lambda>c. snd c = m) (comparable rows) = Some (row, m)"
    and top: "\<forall>c \<in> set (comparable rows). snd c \<le> m"
    using pick_first [OF scan] by blast
  have "(row, m) \<in> set (comparable rows)" using row(2) by (auto simp: find_Some_iff)
  then have own: "row \<in> set rows" "isSurfaceAccountRow row" "usedPercent row = Some m" using comparable_in by blast+
  have "length (comparable rows) \<le> length rows" by (simp add: comparable_def List.map_filter_def)
  then have "traySummary rows =
      TrayNumeric row m (usageBand (Fin m) FreshRow) (length (comparable rows) < length rows) (length (comparable rows))
        (length rows - length (comparable rows))"
    using False tray_scan [of None "- 1" 0 rows] by (auto simp: traySummary_def scan row(1) Let_def)
  moreover have "prop_of row ''band'' = Str (band_str (usageBand (Fin m) FreshRow))"
    using own(2,3) by (simp add: isSurfaceAccountRow_def)
  moreover have "usageBand (Fin m) FreshRow \<noteq> BandStale" using used_bounds [OF own(3)] by (simp add: usageBand_def)
  ultimately show ?thesis using False row(2) top own(1) by auto
qed

definition tray_row :: "string \<Rightarrow> int \<Rightarrow> string \<Rightarrow> js" where
  "tray_row meter used band =
     Obj [(''provider'', Str ''CODEX''), (''account'', Null), (''headlineMeterId'', Str meter), (''kind'', Str ''quota_percent''),
          (''value'', Num (Fin (of_int used))), (''meaning'', Str ''used''), (''windowLabel'', Str ''5h''), (''resetAt'', Null),
          (''freshness'', Str ''fresh''), (''availability'', Str ''available''), (''band'', Str band), (''precision'', Str ''exact''),
          (''fidelityMarker'', Null),
          (''sessions'', Obj [(''busy'', Num (Fin 0)), (''waiting'', Num (Fin 0)), (''done'', Num (Fin 0)), (''idle'', Num (Fin 0)),
             (''unknown'', Num (Fin 0))])]"

theorem tray_selects_maximum_witness:
  "\<exists>row. tray_selected (traySummary [tray_row ''A'' 10 ''green'', tray_row ''B'' 85 ''orange'']) = row \<and>
     prop_of row ''band'' \<noteq> Str ''stale''"
proof -
  let ?rows = "[tray_row ''A'' 10 ''green'', tray_row ''B'' 85 ''orange'']"
  have "comparable ?rows \<noteq> []" by code_simp
  then obtain row u where "tray_selected (traySummary ?rows) = row" "prop_of row ''band'' = Str (band_str (usageBand (Fin u) FreshRow))"
    "usageBand (Fin u) FreshRow \<noteq> BandStale"
    using tray_selects_maximum [of ?rows] by auto
  then show ?thesis by (cases "usageBand (Fin u) FreshRow") simp_all
qed

section \<open>Quiet hours\<close>

lemma local_minute_mod: "local_minute now offset = (now div 60000 + offset) mod 1440"
proof -
  let ?k = "now div 60000 + offset"
  have "(?k smod 1440 + 1440) smod 1440 = ?k mod 1440"
  proof (cases "0 \<le> ?k")
    case True
    then have "?k smod 1440 = ?k mod 1440" by (simp add: smod_int_alt_def sgn_if)
    then show ?thesis by (simp add: smod_int_alt_def sgn_if)
  next
    case False
    then have k: "?k smod 1440 = - ((- ?k) mod 1440)" by (simp add: smod_int_alt_def sgn_if)
    have "0 < 1440 - (- ?k) mod 1440" using pos_mod_bound [of 1440 "- ?k"] by simp
    moreover have "(1440 - (- ?k) mod 1440) mod 1440 = ?k mod 1440"
      using mod_diff_right_eq [of 1440 "- ?k" 1440] mod_add_self1 [of 1440 ?k] by (simp only: diff_minus_eq_add)
    ultimately have "(1440 - (- ?k) mod 1440) smod 1440 = ?k mod 1440" by (simp add: smod_int_alt_def sgn_if)
    then show ?thesis unfolding k by (simp only: add.commute [of "- _" 1440] diff_conv_add_uminus)
  qed
  then show ?thesis by (simp add: local_minute_def)
qed

lemma quiet_mod:
  assumes "0 \<le> start" "start < 1440" "0 \<le> end" "end < 1440" "start \<noteq> end" "0 \<le> minute" "minute < (1440 :: int)"
  shows "in_quiet_hours start end minute \<longleftrightarrow> (minute - start) mod 1440 < (end - start) mod 1440"
proof -
  have wrap: "(a - b) mod 1440 = (if a < b then a - b + 1440 else a - b)" if "0 \<le> a" "a < 1440" "0 \<le> b" "b < 1440" for a b :: int
    using that mod_add_self2 [of "a - b" 1440] mod_pos_pos_trivial [of "a - b + 1440" 1440] mod_pos_pos_trivial [of "a - b" 1440]
    by (cases "a < b") simp_all
  show ?thesis using assms by (auto simp: in_quiet_hours_def wrap)
qed

lemma minute_field:
  assumes "integer_between lo hi (prop_of q key)"
  shows "lo \<le> of_int (minute_of q key) \<and> of_int (minute_of q key) \<le> hi"
proof -
  obtain r where r: "prop_of q key = Num (Fin r)" "is_integer r" "lo \<le> r" "r \<le> hi"
    using assms by (auto simp: integer_between_def split: js.splits jsnum.splits)
  then obtain k where "r = of_int k" by (metis is_integer_def)
  then show ?thesis using r by (simp add: minute_of_def)
qed

text \<open>The quiet hours. They are the minutes of the day from the start up to the end, past midnight when the end is
  the earlier one, at the user's offset; equal endpoints leave none.\<close>

theorem quiet_hours_exact:
  assumes "quiet_hours_ok q"
  shows "quiet_now q now \<longleftrightarrow>
    (now div 60000 + minute_of q ''utcOffsetMinutes'' - minute_of q ''startMinute'') mod 1440 <
    (minute_of q ''endMinute'' - minute_of q ''startMinute'') mod 1440"
proof -
  let ?m = "minute_of q" and ?t = "now div 60000 + minute_of q ''utcOffsetMinutes''"
  have q: "q \<noteq> Null" using assms by (cases q) (simp_all add: quiet_hours_ok_def)
  have "(0 :: rat) \<le> of_int (?m ''startMinute'') \<and> of_int (?m ''startMinute'') \<le> (1439 :: rat)"
    "(0 :: rat) \<le> of_int (?m ''endMinute'') \<and> of_int (?m ''endMinute'') \<le> (1439 :: rat)"
    using assms minute_field unfolding quiet_hours_ok_def by blast+
  then have b: "0 \<le> ?m ''startMinute''" "?m ''startMinute'' < 1440" "0 \<le> ?m ''endMinute''" "?m ''endMinute'' < 1440"
    by linarith+
  show ?thesis
  proof (cases "?m ''startMinute'' = ?m ''endMinute''")
    case True
    then show ?thesis by (simp add: quiet_now_def not_less)
  next
    case False
    have "(?t mod 1440 - ?m ''startMinute'') mod 1440 = (?t - ?m ''startMinute'') mod 1440" by (rule mod_diff_left_eq)
    then show ?thesis using quiet_mod [OF b False, of "?t mod 1440"] q False by (simp add: quiet_now_def local_minute_mod)
  qed
qed

theorem quiet_hours_exact_witness:
  "quiet_now (Obj [(''startMinute'', Num (Fin 1320)), (''endMinute'', Num (Fin 420)), (''utcOffsetMinutes'', Num (Fin (- 60)))]) 0"
proof -
  let ?q = "Obj [(''startMinute'', Num (Fin 1320)), (''endMinute'', Num (Fin 420)), (''utcOffsetMinutes'', Num (Fin (- 60)))]"
  have "quiet_hours_ok ?q" by (simp add: quiet_hours_ok_def hasOnlyContractKeys_def integer_between_def is_integer_def)
  from quiet_hours_exact [OF this, of 0] show ?thesis by (simp add: minute_of_def)
qed

section \<open>The keys\<close>

lemma textId_Str: "textId v \<Longrightarrow> \<exists>s. v = Str s"
  by (cases v) (simp_all add: textId_def)

lemma quote_length:
  assumes "textId (Str s)"
  shows "length (quote s) \<le> 514"
proof -
  have "length (escape_char c) \<le> 2" if "32 \<le> (of_char c :: nat)" for c
    using that by (simp add: escape_char_def)
  then have "length (concat (map escape_char t)) \<le> 2 * length t" if "list_all (\<lambda>c. 32 \<le> (of_char c :: nat)) t" for t
    using that by (induction t) fastforce+
  moreover have "list_all (\<lambda>c. 32 \<le> (of_char c :: nat)) s" "length s \<le> 256"
    using assms by (auto simp: textId_def list_all_iff)
  ultimately show ?thesis by (fastforce simp: quote_def)
qed

lemma provider_text: "textId (Str (notification_provider_str p)) \<and> length (quote (notification_provider_str p)) \<le> 24"
  by (cases p rule: notification_provider_str.cases; cases "case p of Metered c \<Rightarrow> c | _ \<Rightarrow> CODEX")
    (simp_all add: textId_def quote_def escape_char_def)

lemma kind_text: "length (quote (notification_kind_str k)) \<le> 24"
  by (cases k rule: notification_kind_str.cases) (simp_all add: quote_def escape_char_def)

lemma provider_member: "is_member notification_provider_str NOTIFICATION_PROVIDERS (Str (notification_provider_str p))"
proof -
  have "p \<in> set NOTIFICATION_PROVIDERS"
    by (cases p) (simp_all add: NOTIFICATION_PROVIDERS_def provider_code_words.words_complete)
  then show ?thesis by (auto simp: is_member_def decode_def find_None_iff)
qed

lemma kind_member: "is_member notification_kind_str NOTIFICATION_KINDS (Str (notification_kind_str k))"
  using notification_kind_words.decode_code [of k] by (simp add: is_member_def)

definition submission :: "notification_kind \<Rightarrow> string \<Rightarrow> notification_provider \<Rightarrow> string option \<Rightarrow> bool \<Rightarrow> bool \<Rightarrow> js" where
  "submission kind key provider account popup remote =
     Obj [(''kind'', Str (notification_kind_str kind)), (''dedupeKey'', Str key), (''provider'', Str (notification_provider_str provider)),
          (''account'', nullable (map_option Str account)), (''localChannel'', Str (if popup then ''popup'' else ''none'')),
          (''remoteChannel'', Bool remote)]"

lemma submission_props [simp]:
  "prop_of (submission kind key provider account popup remote) ''kind'' = Str (notification_kind_str kind)"
  "prop_of (submission kind key provider account popup remote) ''dedupeKey'' = Str key"
  "prop_of (submission kind key provider account popup remote) ''provider'' = Str (notification_provider_str provider)"
  "prop_of (submission kind key provider account popup remote) ''account'' = nullable (map_option Str account)"
  "prop_of (submission kind key provider account popup remote) ''localChannel'' = Str (if popup then ''popup'' else ''none'')"
  "prop_of (submission kind key provider account popup remote) ''remoteChannel'' = Bool remote"
  by (simp_all add: submission_def)

lemma submission_accepted:
  assumes "account_ok (nullable (map_option Str account))" "validDedupeKey (submission kind key provider account popup remote)"
  shows "isNotificationSubmission (submission kind key provider account popup remote)"
  using assms provider_member kind_member
  by (simp add: isNotificationSubmission_def hasOnlyContractKeys_def SUBMISSION_KEYS_def)
    (simp add: submission_def)

fun agent_news :: "notification_kind \<Rightarrow> bool" where
  "agent_news (AgentNews news) = True"
| "agent_news (QuotaNews kind) = False"

lemma stringify_back:
  assumes "json_clean v" "int_numbers v"
  shows "stringify v = Some (json_text v)"
proof -
  have "v \<noteq> Undefined" "json_value v = v" using assms(1) json_value_clean [of v] by auto
  then show ?thesis using assms(2) by (simp add: stringify_def)
qed

lemma key_valid:
  assumes parts: "json_clean (Arr parts)" "int_numbers (Arr parts)"
    and lead: "lead = (if agent_news kind then ''activity:'' else ''threshold:'')"
    and key: "key = lead @ json_text (Arr parts)" "length key \<le> 2048"
    and ok: "dedupe_parts_ok (submission kind key provider account popup remote) (agent_news kind) lead key parts"
  shows "validDedupeKey (submission kind key provider account popup remote)"
proof -
  have agent: "agent_kind (submission kind key provider account popup remote) \<longleftrightarrow> agent_news kind"
    by (cases kind rule: notification_kind_str.cases) (simp_all add: agent_kind_def)
  have "startsWith key lead" "drop (length lead) key = json_text (Arr parts)" by (simp_all add: key startsWith_def)
  then show ?thesis
    using ok key(2) parse_back [OF parts] unfolding validDedupeKey_def submission_props agent Let_def lead [symmetric] by simp
qed

text \<open>The size of a key: three texts of the user's length, two words and a number.\<close>

lemma texts_size:
  assumes "textId (Str a)" "textId (Str b)" "account_ok (nullable (map_option Str account))"
  shows "length (quote a) \<le> 514" "length (quote b) \<le> 514" "length (json_text (nullable (map_option Str account))) \<le> 514"
proof -
  show "length (quote a) \<le> 514" "length (quote b) \<le> 514" using assms(1,2) by (simp_all add: quote_length)
  show "length (json_text (nullable (map_option Str account))) \<le> 514"
    using assms(3) quote_length by (cases account) (simp_all add: nullable_def account_ok_def)
qed

lemma show_nat_length: "n < 10 ^ Suc k \<Longrightarrow> length (show_nat n) \<le> Suc k"
proof (induction k arbitrary: n)
  case (Suc k)
  then show ?case by (cases "n < 10") (simp_all add: show_nat.simps [of n])
qed (simp add: show_nat.simps)

lemma nullable_clean:
  "json_clean (nullable (map_option Str account))" "int_numbers (nullable (map_option Str account))"
  "json_clean (nullable (map_option (\<lambda>t. Num (Fin (of_int (threshold_value t)))) th))"
  "int_numbers (nullable (map_option (\<lambda>t. Num (Fin (of_int (threshold_value t)))) th))"
  "length (json_text (nullable (map_option (\<lambda>t. Num (Fin (of_int (threshold_value t)))) th))) \<le> 4"
  by (cases account; cases th; cases "the th"; simp add: nullable_def int_text_def; code_simp)+

lemma threshold_key_valid:
  assumes "textId (Str meterId)" "textId (Str cycleId)" "account_ok (nullable (map_option Str account))"
    and "(kind = ThresholdCrossed) = (threshold \<noteq> None)"
    and "thresholdDedupeKey provider account meterId cycleId kind threshold = Inr key"
  shows "validDedupeKey (submission (QuotaNews kind) key provider account popup remote)"
proof -
  note size = texts_size [OF assms(1-3)] and psize = provider_text [of provider, THEN conjunct2]
  let ?t = "nullable (map_option (\<lambda>t. Num (Fin (of_int (threshold_value t)))) threshold)"
  let ?ps = "[Str (notification_provider_str provider), nullable (map_option Str account), Str meterId, Str cycleId,
     Str (notification_kind_str (QuotaNews kind)), ?t]"
  have key: "key = ''threshold:'' @ json_text (Arr ?ps)" using assms(4,5) by (simp add: thresholdDedupeKey_def)
  have clean: "json_clean (Arr ?ps)" "int_numbers (Arr ?ps)" using nullable_clean by simp_all
  have "length (''threshold:'' @ json_text (Arr ?ps)) \<le> 2048"
    using size psize kind_text [of "QuotaNews kind"] nullable_clean(5) [of threshold] by simp
  then have len: "length key \<le> 2048" unfolding key .
  have printed: "stringify (Arr ?ps) = Some (json_text (Arr ?ps))" by (rule stringify_back [OF clean])
  have th: "if kind = ThresholdCrossed then ?t \<in> {Num (Fin 60), Num (Fin 80), Num (Fin 90)} else ?t = Null"
    using assms(4) by (cases threshold; cases "the threshold") (simp_all add: nullable_def)
  have word: "Str (notification_kind_str (QuotaNews kind)) = Str ''threshold'' \<longleftrightarrow> kind = ThresholdCrossed" by (cases kind) simp_all
  have parts: "dedupe_parts_ok (submission (QuotaNews kind) key provider account popup remote) False ''threshold:'' key ?ps"
    using assms(1,2) th unfolding dedupe_parts_ok_def printed submission_props word
    by (cases "kind = ThresholdCrossed") (simp_all add: key)
  show ?thesis by (rule key_valid [OF clean _ key len]) (simp_all only: agent_news.simps if_False parts)
qed

lemma activity_key_valid:
  assumes "textId (Str sessionId)" "account_ok (nullable (map_option Str account))" "0 \<le> sequence" "sequence \<le> 9007199254740991"
    and "activityDedupeKey provider account sessionId sequence news = key"
  shows "validDedupeKey (submission (AgentNews news) key provider account popup remote)"
proof -
  note size = texts_size [OF assms(1,1,2)] and psize = provider_text [of provider, THEN conjunct2]
  let ?ps = "[Str (notification_provider_str provider), nullable (map_option Str account), Str sessionId,
     Num (Fin (of_int sequence)), Str (notification_kind_str (AgentNews news))]"
  have key: "key = ''activity:'' @ json_text (Arr ?ps)" using assms(5) by (simp add: activityDedupeKey_def)
  have safe: "safe_integer (rat_of_int sequence)" using assms(3,4) by (simp add: safe_integer_def)
  have clean: "json_clean (Arr ?ps)" "int_numbers (Arr ?ps)" using nullable_clean assms(3,4) by simp_all
  have digits: "length (int_text sequence) \<le> 16"
    using show_nat_length [of "nat sequence" 15] assms(3,4) by (simp add: int_text_def)
  have "length (''activity:'' @ json_text (Arr ?ps)) \<le> 2048" using size psize kind_text [of "AgentNews news"] digits by simp
  then have len: "length key \<le> 2048" unfolding key .
  have printed: "stringify (Arr ?ps) = Some (json_text (Arr ?ps))" by (rule stringify_back [OF clean])
  have parts: "dedupe_parts_ok (submission (AgentNews news) key provider account popup remote) True ''activity:'' key ?ps"
    using assms(1,3) safe unfolding dedupe_parts_ok_def printed submission_props by (simp add: key)
  show ?thesis by (rule key_valid [OF clean _ key len]) (simp_all only: agent_news.simps if_True parts)
qed

text \<open>Every key the two builders make from valid names belongs to a submission the check accepts, however the names
  are quoted: the limit of 2048 is never met.\<close>

theorem built_key_accepted:
  assumes "textId (Str meterId)" "textId (Str cycleId)" "account_ok (nullable (map_option Str account))"
    and "(kind = ThresholdCrossed) = (threshold \<noteq> None)" "0 \<le> sequence" "sequence \<le> 9007199254740991"
  shows "(case thresholdDedupeKey provider account meterId cycleId kind threshold of
      Inr key \<Rightarrow> isNotificationSubmission (submission (QuotaNews kind) key provider account popup remote) | Inl _ \<Rightarrow> False) \<and>
    isNotificationSubmission
      (submission (AgentNews news) (activityDedupeKey provider account meterId sequence news) provider account popup remote)"
proof -
  obtain key where key: "thresholdDedupeKey provider account meterId cycleId kind threshold = Inr key"
    using assms(4) by (simp add: thresholdDedupeKey_def)
  show ?thesis
    unfolding key sum.case
    using submission_accepted [OF assms(3)] threshold_key_valid [OF assms(1-4) key] activity_key_valid [OF assms(1,3,5,6) refl]
    by blast
qed

theorem built_key_accepted_witness:
  "isNotificationSubmission
     (submission (AgentNews NotifyAgentDone) (activityDedupeKey Muse None ''s'' 4 NotifyAgentDone) Muse None True False)"
proof -
  have "textId (Str ''s'')" by (simp add: textId_def)
  moreover have "account_ok (nullable (map_option Str None))" by (simp add: account_ok_def nullable_def)
  ultimately show ?thesis using built_key_accepted [of "''s''" "''s''" None LimitReached None 4] by simp
qed

text \<open>C29: one key, one kind of news about one account: two accepted submissions under the same key agree in kind,
  provider and account, so a delivery that was made once is never taken for another's.\<close>

theorem equal_keys_agree:
  assumes "isNotificationSubmission v" "isNotificationSubmission w" "prop_of v ''dedupeKey'' = prop_of w ''dedupeKey''"
  shows "prop_of v ''kind'' = prop_of w ''kind'' \<and> prop_of v ''provider'' = prop_of w ''provider'' \<and>
    prop_of v ''account'' = prop_of w ''account''"
proof -
  obtain key where key: "prop_of v ''dedupeKey'' = Str key"
    using assms(1) by (auto simp: isNotificationSubmission_def validDedupeKey_def split: js.splits)
  let ?l = "\<lambda>v. if agent_kind v then ''activity:'' else ''threshold:''"
  have ok: "startsWith key (?l v) \<and> (\<exists>parts. JSON_parse (drop (length (?l v)) key) = Some (Arr parts) \<and>
      parts ! 0 = prop_of v ''provider'' \<and> parts ! 1 = prop_of v ''account'' \<and> parts ! 4 = prop_of v ''kind'')"
    if "isNotificationSubmission v" "prop_of v ''dedupeKey'' = Str key" for v
  proof -
    have valid: "startsWith key (?l v) \<and> (case JSON_parse (drop (length (?l v)) key) of
        Some (Arr parts) \<Rightarrow> dedupe_parts_ok v (agent_kind v) (?l v) key parts | _ \<Rightarrow> False)"
      using that unfolding isNotificationSubmission_def validDedupeKey_def Let_def by (simp only: js.case)
    then obtain parts where "JSON_parse (drop (length (?l v)) key) = Some (Arr parts)" "dedupe_parts_ok v (agent_kind v) (?l v) key parts"
      by (elim conjE) (simp split: option.splits js.splits del: insert_iff)
    then show ?thesis using valid unfolding dedupe_parts_ok_def by blast
  qed
  have w: "prop_of w ''dedupeKey'' = Str key" using assms(3) key by simp
  have same: "agent_kind v \<longleftrightarrow> agent_kind w"
  proof (rule ccontr)
    assume "(agent_kind v) \<noteq> (agent_kind w)"
    then have "startsWith key ''activity:''" "startsWith key ''threshold:''"
      using ok [OF assms(1) key] ok [OF assms(2) w] by (cases "agent_kind v"; simp)+
    then show False by (cases key) (simp_all add: startsWith_def)
  qed
  obtain ps where v: "JSON_parse (drop (length (?l v)) key) = Some (Arr ps)" "ps ! 0 = prop_of v ''provider''"
    "ps ! 1 = prop_of v ''account''" "ps ! 4 = prop_of v ''kind''" using ok [OF assms(1) key] by blast
  obtain qs where "JSON_parse (drop (length (?l w)) key) = Some (Arr qs)" "qs ! 0 = prop_of w ''provider''"
    "qs ! 1 = prop_of w ''account''" "qs ! 4 = prop_of w ''kind''" using ok [OF assms(2) w] by blast
  moreover from this(1) v(1) have "qs = ps" unfolding same by simp
  ultimately show ?thesis using v(2-4) by simp
qed

theorem equal_keys_agree_witness:
  "prop_of (submission (AgentNews NotifyAgentDone) (activityDedupeKey Muse None ''s'' 4 NotifyAgentDone) Muse None True False) ''kind'' =
   prop_of (submission (AgentNews NotifyAgentDone) (activityDedupeKey Muse None ''s'' 4 NotifyAgentDone) Muse None False True) ''kind''"
proof -
  have a: "account_ok (nullable (map_option Str None))" by (simp add: account_ok_def nullable_def)
  have "isNotificationSubmission (submission (AgentNews NotifyAgentDone)
      (activityDedupeKey Muse None ''s'' 4 NotifyAgentDone) Muse None popup remote)" for popup remote
    by (rule submission_accepted [OF a]) (rule activity_key_valid; simp add: textId_def account_ok_def nullable_def)
  then show ?thesis by (intro equal_keys_agree [THEN conjunct1]) simp_all
qed

end
