(* ===== verification/Wire.thy ===== *)
theory Wire
  imports Connector
begin

text \<open>
  The wire contract (contracts/wire.ts): the check of a usage sample, field by field in the order of the code and with
  its messages, the local view of a received sample, and the sample a snapshot or a local view becomes. A check that
  throws is the left side of a result; the first failing one decides.
\<close>

section \<open>Checks\<close>

definition wire_fail :: "string \<Rightarrow> string \<Rightarrow> 'a result" where
  "wire_fail field reason = Inl (TypeError (''Invalid wire sample: '' @ field @ '' '' @ reason))"

definition require :: "bool \<Rightarrow> string \<Rightarrow> string \<Rightarrow> unit result" where
  "require ok field reason = (if ok then Inr () else wire_fail field reason)"

fun first_failure :: "unit result list \<Rightarrow> unit result" where
  "first_failure [] = Inr ()"
| "first_failure (r # rs) = (case r of Inl e \<Rightarrow> Inl e | Inr _ \<Rightarrow> first_failure rs)"

definition wire_record :: "js \<Rightarrow> string \<Rightarrow> unit result" where
  "wire_record v field = require (isRecord v) field ''must be an object''"

definition closed_checks :: "js \<Rightarrow> string list \<Rightarrow> string \<Rightarrow> unit result list" where
  "closed_checks row keys field =
     concat (map (\<lambda>key.
       [require (key \<in> set keys) (field @ ''.'' @ key) ''is an unknown key'',
        require (prop_of row key \<noteq> Undefined) (field @ ''.'' @ key) ''must not be undefined; omit it instead'']) (keys_of row))"

definition wire_instant :: "js \<Rightarrow> string \<Rightarrow> unit result" where
  "wire_instant v field = require (isIsoInstant v) field ''must be a canonical ISO instant''"

definition in_limit :: "js \<Rightarrow> rat \<Rightarrow> bool \<Rightarrow> bool" where
  "in_limit v limit exclusive =
     (case v of Num (Fin r) \<Rightarrow> 0 \<le> r \<and> (if exclusive then r < limit else r \<le> limit) | _ \<Rightarrow> False)"

definition percent_limit :: "js \<Rightarrow> string \<Rightarrow> unit result" where
  "percent_limit v field = require (in_limit v 100000 False) field ''must be a finite number from 0 to 100000''"

definition amount_limit :: "js \<Rightarrow> unit result" where
  "amount_limit v =
     require (in_limit v 100000000000000 True) ''amount'' ''must be a finite number from 0 to 100000000000000 (exclusive)''"

definition wire_member :: "js \<Rightarrow> string list \<Rightarrow> string \<Rightarrow> unit result" where
  "wire_member v values field =
     require (case v of Str s \<Rightarrow> s \<in> set values | _ \<Rightarrow> False) field (''must be one of '' @ join '', '' values)"

definition optional :: "js \<Rightarrow> unit result \<Rightarrow> unit result" where
  "optional v check = (if v = Undefined then Inr () else check)"

definition nullable_check :: "js \<Rightarrow> unit result \<Rightarrow> unit result" where
  "nullable_check v check = (if nullish v then Inr () else check)"

text \<open>\<open>===\<close> between two properties of one parsed value: two objects are never one.\<close>

fun strict_equal :: "js \<Rightarrow> js \<Rightarrow> bool" where
  "strict_equal (Arr xs) w = False"
| "strict_equal (Obj ps) w = False"
| "strict_equal (Num NaN) w = False"
| "strict_equal v w = (v = w)"

section \<open>A sample\<close>

definition LOCAL_KEYS :: "(string \<times> string) list" where
  "LOCAL_KEYS =
     [(''account_id'', ''accountId''), (''provider'', ''provider''), (''window_id'', ''windowId''),
      (''observed_at'', ''observedAt''), (''stale'', ''stale''), (''meter'', ''meter''), (''code'', ''code''),
      (''usage_percent'', ''usagePercent''), (''percent'', ''percent''), (''reset_at'', ''resetAt''),
      (''resets_at'', ''resetsAt''), (''amount'', ''amount''), (''currency'', ''currency''),
      (''source_period'', ''sourcePeriod''), (''source'', ''source''), (''precision'', ''precision''),
      (''verification'', ''verification''), (''verification_evidence'', ''verificationEvidence''),
      (''kind'', ''kind''), (''availability'', ''availability''), (''retry_at'', ''retryAt'')]"

definition WIRE_KEYS :: "string list" where
  "WIRE_KEYS = map fst LOCAL_KEYS"

definition WIRE_SOURCES :: "string list" where
  "WIRE_SOURCES = [''native_payload'', ''documented_api'', ''internal_payload'', ''authenticated_page'', ''manual_entry'']"

definition WIRE_PRECISIONS :: "string list" where
  "WIRE_PRECISIONS = [''exact'', ''estimated'', ''manual'']"

definition WIRE_CURRENCIES :: "string list" where
  "WIRE_CURRENCIES = [''USD'', ''CNY'']"

definition WIRE_AVAILABILITIES :: "string list" where
  "WIRE_AVAILABILITIES =
     map availability_str
       [NetworkFailure, MissingCredentials, ExpiredCredentials, AccessDenied, MissingSubscription, Unlimited,
        QuotaUnavailable, RateLimited, SchemaDrift]"

definition EVIDENCE_KEYS :: "string list" where
  "EVIDENCE_KEYS = [''provider_version'', ''account_shape'', ''os'', ''date'']"

definition nonempty_text :: "js \<Rightarrow> bool" where
  "nonempty_text v = (case v of Str s \<Rightarrow> s \<noteq> [] | _ \<Rightarrow> False)"

definition is_text :: "js \<Rightarrow> bool" where
  "is_text v = (case v of Str s \<Rightarrow> True | _ \<Rightarrow> False)"

definition is_number :: "js \<Rightarrow> bool" where
  "is_number v = (case v of Num n \<Rightarrow> True | _ \<Rightarrow> False)"

definition identity_checks :: "js \<Rightarrow> unit result list" where
  "identity_checks row =
     map (\<lambda>key. require (nonempty_text (prop_of row key)) key ''must be a nonempty string'') [''account_id'', ''provider'', ''window_id''] @
     [require (case prop_of row ''account_id'' of Str s \<Rightarrow> account_id_pattern s | _ \<Rightarrow> False) ''account_id'' ''must be a valid account alias'',
      wire_instant (prop_of row ''observed_at'') ''observed_at'',
      require (prop_of row ''stale'' \<in> {Bool True, Bool False}) ''stale'' ''must be a boolean''] @
     map (\<lambda>key. optional (prop_of row key) (require (nonempty_text (prop_of row key)) key ''must be a nonempty string'')) [''meter'', ''code''] @
     [require (prop_of row ''meter'' \<noteq> Undefined \<or> prop_of row ''code'' \<noteq> Undefined) ''meter/code'' ''requires a meter identifier'']"

definition alias_checks :: "js \<Rightarrow> unit result list" where
  "alias_checks row =
     map (\<lambda>(left, right).
       require (prop_of row left = Undefined \<or> prop_of row right = Undefined \<or> strict_equal (prop_of row left) (prop_of row right))
         (left @ ''/'' @ right) ''aliases must agree'')
     [(''meter'', ''code''), (''usage_percent'', ''percent''), (''reset_at'', ''resets_at'')]"

definition amount_checks :: "js \<Rightarrow> unit result list" where
  "amount_checks row =
     (let amount = prop_of row ''amount''; currency = prop_of row ''currency'';
          codexCredits = prop_of row ''provider'' = Str ''CODEX'' \<and> prop_of row ''window_id'' = Str ''CREDITS''
      in map (\<lambda>key. nullable_check (prop_of row key) (wire_instant (prop_of row key) key)) [''reset_at'', ''resets_at''] @
         map (\<lambda>key. nullable_check (prop_of row key) (percent_limit (prop_of row key) key)) [''usage_percent'', ''percent''] @
         [nullable_check amount (amount_limit amount), nullable_check currency (wire_member currency WIRE_CURRENCIES ''currency''),
          require (\<not> (\<not> nullish currency \<and> nullish amount \<or> \<not> nullish amount \<and> nullish currency \<and> \<not> codexCredits))
            ''amount/currency'' ''must be supplied together except for Codex credits''])"

definition period_ordered :: "js \<Rightarrow> js \<Rightarrow> bool" where
  "period_ordered v w =
     (case (v, w) of
        (Str s, Str t) \<Rightarrow> (case (dateParse s, dateParse t) of (Some a, Some b) \<Rightarrow> a \<le> b | _ \<Rightarrow> True)
      | _ \<Rightarrow> True)"

definition period_checks :: "js \<Rightarrow> unit result list" where
  "period_checks period =
     (case period of
        Undefined \<Rightarrow> []
      | Arr [s, t] \<Rightarrow>
          [wire_instant s ''source_period[0]'', wire_instant t ''source_period[1]'',
           require (period_ordered s t) ''source_period'' ''must be ordered'']
      | _ \<Rightarrow> [wire_fail ''source_period'' ''must contain two ISO instants''])"

definition word_checks :: "js \<Rightarrow> unit result list" where
  "word_checks row =
     map (\<lambda>(key, values). optional (prop_of row key) (wire_member (prop_of row key) values key))
       [(''source'', WIRE_SOURCES), (''precision'', WIRE_PRECISIONS),
        (''verification'', map verification_str CONNECTOR_VERIFICATIONS), (''kind'', map kind_str SNAPSHOT_KINDS),
        (''availability'', WIRE_AVAILABILITIES)]"

definition evidence_checks :: "js \<Rightarrow> unit result list" where
  "evidence_checks row =
     (let evidence = prop_of row ''verification_evidence''
      in if evidence = Undefined then []
         else [require (prop_of row ''verification'' = Str ''VERIFIED_LIVE'') ''verification_evidence'' ''requires VERIFIED_LIVE'',
               wire_record evidence ''verification_evidence''] @
              closed_checks evidence EVIDENCE_KEYS ''verification_evidence'' @
              map (\<lambda>key. require (is_text (prop_of evidence key)) (''verification_evidence.'' @ key) ''must be a string'')
                [''provider_version'', ''account_shape'', ''os''] @
              [wire_instant (prop_of evidence ''date'') ''verification_evidence.date''])"

definition value_checks :: "js \<Rightarrow> unit result list" where
  "value_checks row =
     (let availability = prop_of row ''availability''; retry = prop_of row ''retry_at''
      in [require (\<not> (availability \<noteq> Undefined \<and> (is_number (prop_of row ''usage_percent'') \<or> is_number (prop_of row ''percent''))))
            ''availability'' ''cannot accompany a numeric percent'',
          require (\<not> (availability = Undefined \<and> nullish (prop_of row ''usage_percent'') \<and> nullish (prop_of row ''percent'') \<and>
                    nullish (prop_of row ''amount'')))
            ''sample'' ''requires a numeric percent, an amount, or availability'',
          optional retry (require (availability = Str ''rate_limited'') ''retry_at'' ''requires rate_limited availability''),
          optional retry (wire_instant retry ''retry_at'')])"

definition sample_checks :: "js \<Rightarrow> unit result list" where
  "sample_checks row =
     wire_record row ''sample'' # closed_checks row WIRE_KEYS ''sample'' @ identity_checks row @ alias_checks row @ amount_checks row @
     period_checks (prop_of row ''source_period'') @ word_checks row @ evidence_checks row @ value_checks row"

definition validateSample :: "js \<Rightarrow> js result" where
  "validateSample v = rbind (first_failure (sample_checks v)) (\<lambda>_. Inr v)"

section \<open>The local view\<close>

definition local_key :: "string \<Rightarrow> string" where
  "local_key key = (case map_of LOCAL_KEYS key of Some k \<Rightarrow> k | None \<Rightarrow> ''undefined'')"

definition local_evidence :: "js \<Rightarrow> js" where
  "local_evidence evidence =
     obj [(''providerVersion'', prop_of evidence ''provider_version''), (''accountShape'', prop_of evidence ''account_shape''),
          (''os'', prop_of evidence ''os''), (''date'', prop_of evidence ''date'')]"

definition wire_evidence :: "js \<Rightarrow> js" where
  "wire_evidence evidence =
     obj [(''provider_version'', prop_of evidence ''providerVersion''), (''account_shape'', prop_of evidence ''accountShape''),
          (''os'', prop_of evidence ''os''), (''date'', prop_of evidence ''date'')]"

definition readWireSample :: "js \<Rightarrow> js result" where
  "readWireSample v =
     rbind (validateSample v) (\<lambda>wire.
       Inr (Obj (map (\<lambda>key. (local_key key,
         if key = ''verification_evidence'' then local_evidence (prop_of wire key) else prop_of wire key)) (keys_of wire))))"

definition to_wire_local :: "js \<Rightarrow> js result" where
  "to_wire_local local =
     validateSample (obj (map (\<lambda>(key, name).
       (key, if key = ''verification_evidence'' \<and> prop_of local name \<noteq> Undefined then wire_evidence (prop_of local name)
             else prop_of local name)) LOCAL_KEYS))"

definition codex_credits :: "snapshot \<Rightarrow> bool" where
  "codex_credits s \<longleftrightarrow> sn_provider s = CODEX \<and> sn_meter s = ''CREDITS'' \<and> sn_unit s = CREDITS"

definition snapshot_evidence :: "verification_evidence \<Rightarrow> js" where
  "snapshot_evidence e =
     obj [(''provider_version'', Str (ev_providerVersion e)), (''account_shape'', Str (ev_accountShape e)),
          (''os'', Str (ev_os e)), (''date'', Str (ev_date e))]"

definition is_stale :: "string \<Rightarrow> string \<Rightarrow> bool" where
  "is_stale expiresAt now = ms_le (dateParse expiresAt) (dateParse now)"

definition snapshot_sample :: "snapshot \<Rightarrow> string \<Rightarrow> js" where
  "snapshot_sample s now =
     obj [(''account_id'', Str (case sn_accountId s of Some a \<Rightarrow> a | None \<Rightarrow> ''default'')), (''provider'', Str (provider_str (sn_provider s))),
          (''meter'', Str (sn_meter s)), (''window_id'', Str (sn_meter s)), (''observed_at'', Str (sn_observedAt s)),
          (''reset_at'', case sn_resetAt s of None \<Rightarrow> Null | Some r \<Rightarrow> Str r), (''stale'', Bool (is_stale (sn_expiresAt s) now)),
          (''source'', Str (source_str (sn_source s))), (''precision'', Str (precision_str (sn_precision s))),
          (''verification'', Str (verification_str (lab_verification (sn_labels s)))),
          (''usage_percent'', if sn_availability s = None \<and> sn_unit s = PERCENT then num_js (sn_value s) else Undefined),
          (''amount'', case sn_usedAmount s of Some a \<Rightarrow> num_js a
             | None \<Rightarrow> if codex_credits s \<and> sn_availability s = None then num_js (sn_value s) else Undefined),
          (''currency'', opt_js (map_option (Str \<circ> currency_str) (sn_currency s))),
          (''kind'', opt_js (map_option (Str \<circ> kind_str) (sn_kind s))),
          (''availability'', opt_js (map_option (Str \<circ> availability_str) (sn_availability s))),
          (''retry_at'', opt_js (map_option Str (sn_retryAt s))),
          (''verification_evidence'', opt_js (map_option snapshot_evidence (lab_verificationEvidence (sn_labels s))))]"

definition to_wire_snapshot :: "snapshot \<Rightarrow> string \<Rightarrow> js result" where
  "to_wire_snapshot s now =
     rbind (wire_instant (Str (sn_expiresAt s)) ''expiresAt'') (\<lambda>_.
     rbind (wire_instant (Str now) ''now'') (\<lambda>_.
       if sn_unit s \<noteq> PERCENT \<and> sn_availability s = None \<and> sn_usedAmount s = None \<and> \<not> codex_credits s
       then wire_fail ''unit'' ''has no v2 usage representation; use an explicit amount projection''
       else validateSample (snapshot_sample s now)))"

definition chooseWireVersion :: "rat list \<Rightarrow> int" where
  "chooseWireVersion serverAccepted = (if 3 \<in> set serverAccepted then 3 else 2)"

section \<open>Passing\<close>

abbreviation passes :: "unit result list \<Rightarrow> bool" where
  "passes checks \<equiv> list_all (\<lambda>r. r = Inr ()) checks"

lemma first_failure_ok: "first_failure rs = Inr () \<longleftrightarrow> passes rs"
  by (induction rs) (auto split: sum.splits)

lemma check_ok [simp]:
  "require ok field reason = Inr () \<longleftrightarrow> ok"
  "wire_fail field reason \<noteq> (Inr x :: 'a result)"
  "wire_record v field = Inr () \<longleftrightarrow> isRecord v"
  "wire_instant v field = Inr () \<longleftrightarrow> isIsoInstant v"
  "percent_limit v field = Inr () \<longleftrightarrow> in_limit v 100000 False"
  "amount_limit v = Inr () \<longleftrightarrow> in_limit v 100000000000000 True"
  "wire_member v values field = Inr () \<longleftrightarrow> (case v of Str s \<Rightarrow> s \<in> set values | _ \<Rightarrow> False)"
  "optional v check = Inr () \<longleftrightarrow> v = Undefined \<or> check = Inr ()"
  "nullable_check v check = Inr () \<longleftrightarrow> nullish v \<or> check = Inr ()"
  by (simp_all add: require_def wire_fail_def wire_record_def wire_instant_def percent_limit_def amount_limit_def wire_member_def
      optional_def nullable_check_def)

lemma closed_ok [simp]:
  "passes (closed_checks row keys field) \<longleftrightarrow> (\<forall>key \<in> set (keys_of row). key \<in> set keys \<and> prop_of row key \<noteq> Undefined)"
  by (auto simp: closed_checks_def list_all_iff)

lemma validateSample_ok: "validateSample v = Inr w \<longleftrightarrow> w = v \<and> passes (sample_checks v)"
  by (auto simp: validateSample_def rbind_Inr_iff first_failure_ok)

lemma obj_keys:
  "(\<forall>key \<in> set (keys_of (obj ps)). P key \<and> prop_of (obj ps) key \<noteq> Undefined) \<longleftrightarrow> (\<forall>key \<in> set (keys_of (obj ps)). P key)"
proof -
  have "prop_of (obj ps) key \<noteq> Undefined" if "key \<in> set (keys_of (obj ps))" for key
  proof -
    have "key \<in> fst ` set (filter (\<lambda>(k, v). v \<noteq> Undefined) ps)" using that by (simp add: obj_def)
    then obtain v where v: "map_of (filter (\<lambda>(k, v). v \<noteq> Undefined) ps) key = Some v"
      by (metis map_of_eq_None_iff not_None_eq)
    then have "v \<noteq> Undefined" by (auto dest: map_of_SomeD)
    then show ?thesis using v by (simp add: obj_def)
  qed
  then show ?thesis by blast
qed

lemma obj_names: "set (keys_of (obj ps)) \<subseteq> fst ` set ps"
  by (auto simp: obj_def)

section \<open>A snapshot on the wire\<close>

definition representable :: "snapshot \<Rightarrow> bool" where
  "representable s \<longleftrightarrow> sn_unit s = PERCENT \<or> sn_availability s \<noteq> None \<or> sn_usedAmount s \<noteq> None \<or> codex_credits s"

lemma snapshot_sample_props:
  "prop_of (snapshot_sample s now) ''account_id'' = Str (case sn_accountId s of Some a \<Rightarrow> a | None \<Rightarrow> ''default'')"
  "prop_of (snapshot_sample s now) ''provider'' = Str (provider_str (sn_provider s))"
  "prop_of (snapshot_sample s now) ''meter'' = Str (sn_meter s)"
  "prop_of (snapshot_sample s now) ''code'' = Undefined"
  "prop_of (snapshot_sample s now) ''window_id'' = Str (sn_meter s)"
  "prop_of (snapshot_sample s now) ''observed_at'' = Str (sn_observedAt s)"
  "prop_of (snapshot_sample s now) ''reset_at'' = (case sn_resetAt s of None \<Rightarrow> Null | Some r \<Rightarrow> Str r)"
  "prop_of (snapshot_sample s now) ''resets_at'' = Undefined"
  "prop_of (snapshot_sample s now) ''stale'' = Bool (is_stale (sn_expiresAt s) now)"
  "prop_of (snapshot_sample s now) ''source'' = Str (source_str (sn_source s))"
  "prop_of (snapshot_sample s now) ''precision'' = Str (precision_str (sn_precision s))"
  "prop_of (snapshot_sample s now) ''verification'' = Str (verification_str (lab_verification (sn_labels s)))"
  "prop_of (snapshot_sample s now) ''percent'' = Undefined"
  "prop_of (snapshot_sample s now) ''source_period'' = Undefined"
  "prop_of (snapshot_sample s now) ''usage_percent'' =
     (if sn_availability s = None \<and> sn_unit s = PERCENT then num_js (sn_value s) else Undefined)"
  "prop_of (snapshot_sample s now) ''amount'' = (case sn_usedAmount s of Some a \<Rightarrow> num_js a
     | None \<Rightarrow> if codex_credits s \<and> sn_availability s = None then num_js (sn_value s) else Undefined)"
  "prop_of (snapshot_sample s now) ''currency'' = opt_js (map_option (Str \<circ> currency_str) (sn_currency s))"
  "prop_of (snapshot_sample s now) ''kind'' = opt_js (map_option (Str \<circ> kind_str) (sn_kind s))"
  "prop_of (snapshot_sample s now) ''availability'' = opt_js (map_option (Str \<circ> availability_str) (sn_availability s))"
  "prop_of (snapshot_sample s now) ''retry_at'' = opt_js (map_option Str (sn_retryAt s))"
  "prop_of (snapshot_sample s now) ''verification_evidence'' =
     opt_js (map_option snapshot_evidence (lab_verificationEvidence (sn_labels s)))"
  by (simp_all add: snapshot_sample_def)

lemma sample_words:
  "source_str so \<in> set WIRE_SOURCES" "precision_str pr \<in> set WIRE_PRECISIONS" "currency_str cu \<in> set WIRE_CURRENCIES"
  "availability_str av \<in> set WIRE_AVAILABILITIES" "kind_str ki \<in> kind_str ` set SNAPSHOT_KINDS"
  "verification_str ve \<in> verification_str ` set CONNECTOR_VERIFICATIONS"
proof -
  show "source_str so \<in> set WIRE_SOURCES" by (cases so) (simp_all add: WIRE_SOURCES_def)
  show "precision_str pr \<in> set WIRE_PRECISIONS" by (cases pr) (simp_all add: WIRE_PRECISIONS_def)
  show "currency_str cu \<in> set WIRE_CURRENCIES" by (cases cu) (simp_all add: WIRE_CURRENCIES_def)
  show "availability_str av \<in> set WIRE_AVAILABILITIES" by (cases av) (simp_all add: WIRE_AVAILABILITIES_def)
  show "kind_str ki \<in> kind_str ` set SNAPSHOT_KINDS" using snapshot_kind_words.words_complete by blast
  show "verification_str ve \<in> verification_str ` set CONNECTOR_VERIFICATIONS"
    using connector_verification_words.words_complete by blast
qed

lemma provider_nonempty: "provider_str p \<noteq> []"
  by (cases p) simp_all

lemma snapshot_identity:
  assumes "wf_snapshot s"
  shows "passes (identity_checks (snapshot_sample s now))"
proof -
  have "sn_meter s \<noteq> []" "isIsoInstant (Str (sn_observedAt s))"
    using assms by (auto simp: wf_snapshot_def safeMeter_def wf_instants_def iso_instant_def split: list.splits)
  moreover have "account_id_pattern (case sn_accountId s of Some a \<Rightarrow> a | None \<Rightarrow> ''default'')"
    using assms by (cases "sn_accountId s") (simp_all add: wf_snapshot_def wf_account_def account_id_pattern_def is_lower_def)
  moreover from this have "(case sn_accountId s of Some a \<Rightarrow> a | None \<Rightarrow> ''default'') \<noteq> []"
    by (auto simp: account_id_pattern_def)
  ultimately show ?thesis by (simp add: identity_checks_def snapshot_sample_props nonempty_text_def provider_nonempty)
qed

lemma snapshot_alias: "passes (alias_checks (snapshot_sample s now))"
  by (simp add: alias_checks_def snapshot_sample_props)

lemma codex_words: "provider_str CODEX = ''CODEX''"
  by simp

lemma snapshot_amounts:
  assumes "wf_snapshot s"
  shows "passes (amount_checks (snapshot_sample s now))"
proof -
  have reset: "nullish (case sn_resetAt s of None \<Rightarrow> Null | Some r \<Rightarrow> Str r) \<or>
      isIsoInstant (case sn_resetAt s of None \<Rightarrow> Null | Some r \<Rightarrow> Str r)"
    using assms by (cases "sn_resetAt s") (simp_all add: wf_snapshot_def wf_instants_def iso_instant_def nullish_def)
  have bounds: "0 \<le> sn_value s" "sn_value s \<le> 1000000000000" "sn_unit s = PERCENT \<longrightarrow> sn_value s \<le> 100"
    using assms by (simp_all add: wf_snapshot_def wf_value_def)
  have pair: "sn_usedAmount s = None \<longleftrightarrow> sn_currency s = None"
    and amount: "\<forall>a. sn_usedAmount s = Some a \<longrightarrow> 0 \<le> a \<and> a \<le> 1000000"
    using assms by (auto simp: wf_snapshot_def wf_amounts_def wf_amount_def MAX_SNAPSHOT_AMOUNT_def split: option.splits)
  show ?thesis
    using reset bounds pair amount sample_words(3)
    by (cases "sn_usedAmount s"; cases "sn_currency s")
      (auto simp: amount_checks_def snapshot_sample_props Let_def nullish_def in_limit_def num_js_def codex_credits_def)
qed

lemma optional_word:
  assumes "\<And>x. code x \<in> set words"
  shows "opt_js (map_option (Str \<circ> code) v) = Undefined \<or>
    (case opt_js (map_option (Str \<circ> code) v) of Str s \<Rightarrow> s \<in> set words | _ \<Rightarrow> False)"
  using assms by (cases v) simp_all

lemma snapshot_words: "passes (word_checks (snapshot_sample s now))"
  using sample_words(1,2,6) optional_word [of kind_str "map kind_str SNAPSHOT_KINDS" "sn_kind s"] sample_words(5)
    optional_word [of availability_str WIRE_AVAILABILITIES "sn_availability s"] sample_words(4)
  by (simp add: word_checks_def snapshot_sample_props)

lemma snapshot_evidence_passes:
  assumes "wf_snapshot s"
  shows "passes (evidence_checks (snapshot_sample s now))"
proof (cases "lab_verificationEvidence (sn_labels s)")
  case None
  then show ?thesis by (simp add: evidence_checks_def snapshot_sample_props)
next
  case (Some e)
  have "lab_verification (sn_labels s) = VERIFIED_LIVE" "isIsoInstant (Str (ev_date e))"
    using assms Some by (simp_all add: wf_snapshot_def wf_labels_def wf_evidence_def iso_instant_def)
  moreover have props: "prop_of (snapshot_evidence e) ''provider_version'' = Str (ev_providerVersion e)"
    "prop_of (snapshot_evidence e) ''account_shape'' = Str (ev_accountShape e)" "prop_of (snapshot_evidence e) ''os'' = Str (ev_os e)"
    "prop_of (snapshot_evidence e) ''date'' = Str (ev_date e)" "isRecord (snapshot_evidence e)"
    by (simp_all add: snapshot_evidence_def)
  moreover have "\<forall>key \<in> set (keys_of (snapshot_evidence e)). key \<in> set EVIDENCE_KEYS \<and> prop_of (snapshot_evidence e) key \<noteq> Undefined"
    by (simp add: snapshot_evidence_def EVIDENCE_KEYS_def obj_def)
  moreover have "snapshot_evidence e \<noteq> Undefined" by (simp add: snapshot_evidence_def)
  ultimately show ?thesis by (simp add: evidence_checks_def snapshot_sample_props Some is_text_def Let_def)
qed

lemma snapshot_values:
  assumes "wf_snapshot s" "representable s"
  shows "passes (value_checks (snapshot_sample s now))"
proof -
  have retry: "\<forall>r. sn_retryAt s = Some r \<longrightarrow> sn_availability s = Some RateLimited \<and> isIsoInstant (Str r)"
    using assms(1) by (cases "sn_retryAt s") (simp_all add: wf_snapshot_def wf_instants_def iso_instant_def)
  show ?thesis
    using retry assms(2)
    by (cases "sn_retryAt s"; cases "sn_availability s"; cases "sn_usedAmount s")
      (auto simp: value_checks_def snapshot_sample_props Let_def nullish_def is_number_def num_js_def representable_def)
qed

lemma snapshot_closed:
  "\<forall>key \<in> set (keys_of (snapshot_sample s now)). key \<in> set WIRE_KEYS \<and> prop_of (snapshot_sample s now) key \<noteq> Undefined"
  unfolding snapshot_sample_def obj_keys using obj_names by (fastforce simp: WIRE_KEYS_def LOCAL_KEYS_def)

text \<open>C27: a snapshot the normalizer lets through is refused on the wire in one case only, a unit the wire cannot express;
  every other one becomes a sample the receiver's check accepts as it is.\<close>

theorem snapshot_on_the_wire:
  assumes "wf_snapshot s" "iso_instant now"
  shows "to_wire_snapshot s now =
    (if representable s then Inr (snapshot_sample s now)
     else Inl (TypeError ''Invalid wire sample: unit has no v2 usage representation; use an explicit amount projection''))"
proof -
  have "isIsoInstant (Str (sn_expiresAt s))" "isIsoInstant (Str now)"
    using assms by (simp_all add: wf_snapshot_def wf_instants_def iso_instant_def)
  moreover have "validateSample (snapshot_sample s now) = Inr (snapshot_sample s now)" if "representable s"
    unfolding validateSample_ok sample_checks_def
    using snapshot_identity [OF assms(1)] snapshot_alias snapshot_amounts [OF assms(1)] snapshot_words
      snapshot_evidence_passes [OF assms(1)] snapshot_values [OF assms(1) that] snapshot_closed
    by (simp add: snapshot_sample_props period_checks_def) (simp add: snapshot_sample_def)
  ultimately show ?thesis
    by (auto simp: to_wire_snapshot_def representable_def wire_fail_def wire_instant_def require_def)
qed

theorem snapshot_on_the_wire_witness:
  "to_wire_snapshot sample_row ''2026-07-01T10:00:00.000Z'' = Inr (snapshot_sample sample_row ''2026-07-01T10:00:00.000Z'')"
proof -
  have "representable sample_row" by (simp add: representable_def sample_row_def)
  then show ?thesis using snapshot_on_the_wire [OF wf_sample_row sample_dates(3)] by simp
qed

section \<open>The round trip\<close>

lemma map_of_renamed:
  assumes "inj_on g (insert k (set ks))"
  shows "map_of (map (\<lambda>k. (g k, f k)) ks) (g k) = (if k \<in> set ks then Some (f k) else None)"
  using assms
proof (induction ks)
  case (Cons x ks)
  then have "inj_on g (insert k (set ks))" by (auto simp: inj_on_def)
  moreover have "g k = g x \<longleftrightarrow> k = x" using Cons.prems by (auto simp: inj_on_def)
  ultimately show ?case using Cons.IH by auto
qed simp

lemma local_key_names: "(key, name) \<in> set LOCAL_KEYS \<Longrightarrow> local_key key = name"
proof -
  have "distinct (map fst LOCAL_KEYS)" by (simp add: LOCAL_KEYS_def)
  then show "(key, name) \<in> set LOCAL_KEYS \<Longrightarrow> local_key key = name" by (simp add: local_key_def)
qed

lemma local_key_inj: "inj_on local_key (set WIRE_KEYS)"
proof -
  have "map local_key WIRE_KEYS = map snd LOCAL_KEYS" using local_key_names by (auto simp: WIRE_KEYS_def)
  moreover have "distinct (map snd LOCAL_KEYS)" by (simp add: LOCAL_KEYS_def)
  ultimately show ?thesis by (metis distinct_map)
qed

lemma missing_prop: "key \<notin> set (keys_of v) \<Longrightarrow> prop_of v key = Undefined"
proof (cases v)
  case (Obj ps)
  assume "key \<notin> set (keys_of v)"
  then have "map_of ps key = None" by (simp add: Obj map_of_eq_None_iff)
  then show ?thesis by (simp add: Obj)
qed simp_all

text \<open>The local view of an accepted sample, property by property.\<close>

definition local_view :: "js \<Rightarrow> js" where
  "local_view v =
     Obj (map (\<lambda>key. (local_key key,
       if key = ''verification_evidence'' then local_evidence (prop_of v key) else prop_of v key)) (keys_of v))"

lemma local_view_prop:
  assumes "set (keys_of v) \<subseteq> set WIRE_KEYS" "key \<in> set WIRE_KEYS"
  shows "prop_of (local_view v) (local_key key) =
    (if key \<notin> set (keys_of v) then Undefined
     else if key = ''verification_evidence'' then local_evidence (prop_of v key) else prop_of v key)"
proof -
  have "insert key (set (keys_of v)) \<subseteq> set WIRE_KEYS" using assms by blast
  then have "inj_on local_key (insert key (set (keys_of v)))" using local_key_inj inj_on_subset by blast
  from map_of_renamed [OF this, of "\<lambda>key. if key = ''verification_evidence'' then local_evidence (prop_of v key) else prop_of v key"]
  show ?thesis by (simp add: local_view_def)
qed

definition returned_value :: "js \<Rightarrow> string \<Rightarrow> js" where
  "returned_value v key =
     (if key = ''verification_evidence'' \<and> prop_of v key \<noteq> Undefined then wire_evidence (local_evidence (prop_of v key))
      else prop_of v key)"

definition returned_sample :: "js \<Rightarrow> js" where
  "returned_sample v = obj (map (\<lambda>key. (key, returned_value v key)) WIRE_KEYS)"

lemma map_of_self: "map_of (filter (\<lambda>(k, v). v \<noteq> Undefined) (map (\<lambda>k. (k, f k)) ks)) k =
    (if k \<in> set ks \<and> f k \<noteq> Undefined then Some (f k) else None)"
  by (induction ks) auto

lemma returned_prop: "key \<in> set WIRE_KEYS \<Longrightarrow> prop_of (returned_sample v) key = returned_value v key"
  by (simp add: returned_sample_def obj_def map_of_self)

lemma back_on_the_wire:
  assumes "set (keys_of v) \<subseteq> set WIRE_KEYS" "\<forall>key \<in> set (keys_of v). prop_of v key \<noteq> Undefined"
  shows "to_wire_local (local_view v) = validateSample (returned_sample v)"
proof -
  have "(if key = ''verification_evidence'' \<and> prop_of (local_view v) (local_key key) \<noteq> Undefined
       then wire_evidence (prop_of (local_view v) (local_key key)) else prop_of (local_view v) (local_key key)) = returned_value v key"
    if "key \<in> set WIRE_KEYS" for key
    using assms(2) missing_prop [of key v] unfolding local_view_prop [OF assms(1) that] returned_value_def
    by (auto simp: local_evidence_def)
  then have "map (\<lambda>key. (key, if key = ''verification_evidence'' \<and> prop_of (local_view v) (local_key key) \<noteq> Undefined
       then wire_evidence (prop_of (local_view v) (local_key key)) else prop_of (local_view v) (local_key key))) WIRE_KEYS =
     map (\<lambda>key. (key, returned_value v key)) WIRE_KEYS"
    by simp
  moreover have "map (\<lambda>(key, name). (key, if key = ''verification_evidence'' \<and> prop_of (local_view v) name \<noteq> Undefined
       then wire_evidence (prop_of (local_view v) name) else prop_of (local_view v) name)) LOCAL_KEYS =
     map (\<lambda>key. (key, if key = ''verification_evidence'' \<and> prop_of (local_view v) (local_key key) \<noteq> Undefined
       then wire_evidence (prop_of (local_view v) (local_key key)) else prop_of (local_view v) (local_key key))) WIRE_KEYS"
    unfolding WIRE_KEYS_def map_map by (rule map_cong [OF refl]) (auto dest!: local_key_names)
  ultimately show ?thesis by (simp only: to_wire_local_def returned_sample_def)
qed

lemma returned_evidence:
  assumes "isRecord e" "\<forall>key \<in> set EVIDENCE_KEYS. prop_of e key \<noteq> Undefined"
  shows "\<forall>key \<in> set EVIDENCE_KEYS. prop_of (wire_evidence (local_evidence e)) key = prop_of e key"
    and "set (keys_of (wire_evidence (local_evidence e))) = set EVIDENCE_KEYS"
    and "isRecord (wire_evidence (local_evidence e))" "wire_evidence (local_evidence e) \<noteq> Undefined"
  using assms by (simp_all add: EVIDENCE_KEYS_def wire_evidence_def local_evidence_def) (simp_all add: obj_def insert_commute)

lemma evidence_returns:
  assumes "passes (evidence_checks v)" "prop_of v ''verification_evidence'' \<noteq> Undefined"
  shows "isRecord (prop_of v ''verification_evidence'')"
    "\<forall>key \<in> set EVIDENCE_KEYS. prop_of (prop_of v ''verification_evidence'') key \<noteq> Undefined"
proof -
  let ?e = "prop_of v ''verification_evidence''"
  have p: "isRecord ?e" "is_text (prop_of ?e ''provider_version'')" "is_text (prop_of ?e ''account_shape'')"
    "is_text (prop_of ?e ''os'')" "isIsoInstant (prop_of ?e ''date'')"
    using assms by (simp_all add: evidence_checks_def Let_def)
  then show "isRecord ?e" by simp
  show "\<forall>key \<in> set EVIDENCE_KEYS. prop_of ?e key \<noteq> Undefined"
    using p(2-5) by (auto simp: EVIDENCE_KEYS_def is_text_def isIsoInstant_def)
qed

lemma returned_checks:
  assumes "passes (evidence_checks v)"
  shows "identity_checks (returned_sample v) = identity_checks v" "alias_checks (returned_sample v) = alias_checks v"
    "amount_checks (returned_sample v) = amount_checks v" "word_checks (returned_sample v) = word_checks v"
    "value_checks (returned_sample v) = value_checks v"
    "prop_of (returned_sample v) ''source_period'' = prop_of v ''source_period''" "passes (evidence_checks (returned_sample v))"
proof -
  have keys: "key \<in> set WIRE_KEYS" if "key \<in> {''account_id'', ''provider'', ''window_id'', ''observed_at'', ''stale'', ''meter'', ''code'',
     ''usage_percent'', ''percent'', ''reset_at'', ''resets_at'', ''amount'', ''currency'', ''source_period'', ''source'', ''precision'',
     ''verification'', ''verification_evidence'', ''kind'', ''availability'', ''retry_at''}" for key
    using that by (simp add: WIRE_KEYS_def LOCAL_KEYS_def)
  note props = returned_prop [OF keys]
  show "identity_checks (returned_sample v) = identity_checks v" by (simp add: identity_checks_def props returned_value_def)
  show "alias_checks (returned_sample v) = alias_checks v" by (simp add: alias_checks_def props returned_value_def)
  show "amount_checks (returned_sample v) = amount_checks v" by (simp add: amount_checks_def props returned_value_def)
  show "word_checks (returned_sample v) = word_checks v" by (simp add: word_checks_def props returned_value_def)
  show "value_checks (returned_sample v) = value_checks v" by (simp add: value_checks_def props returned_value_def)
  show "prop_of (returned_sample v) ''source_period'' = prop_of v ''source_period''" by (simp add: props returned_value_def)
  show "passes (evidence_checks (returned_sample v))"
  proof (cases "prop_of v ''verification_evidence'' = Undefined")
    case True
    then show ?thesis by (simp add: evidence_checks_def props returned_value_def)
  next
    case False
    note again = returned_evidence [OF evidence_returns [OF assms False]]
    have "\<forall>key \<in> set (keys_of (wire_evidence (local_evidence (prop_of v ''verification_evidence'')))). key \<in> set EVIDENCE_KEYS \<and>
        prop_of (wire_evidence (local_evidence (prop_of v ''verification_evidence''))) key \<noteq> Undefined"
      using again(1,2) evidence_returns(2) [OF assms False] by simp
    then show ?thesis
      using assms False again(1,3,4)
      by (simp add: evidence_checks_def props returned_value_def Let_def EVIDENCE_KEYS_def)
  qed
qed

text \<open>C12: nothing is lost between the wire and the local view: an accepted sample has a local view, and what is sent
  from it is accepted again, with the same value under every key, the evidence field by field.\<close>

theorem wire_round_trip:
  assumes "validateSample v = Inr v'"
  shows "\<exists>local w. readWireSample v = Inr local \<and> to_wire_local local = Inr w \<and>
    (\<forall>key \<in> set WIRE_KEYS. key \<noteq> ''verification_evidence'' \<longrightarrow> prop_of w key = prop_of v key) \<and>
    (\<forall>key \<in> set EVIDENCE_KEYS. prop_of (prop_of w ''verification_evidence'') key = prop_of (prop_of v ''verification_evidence'') key)"
proof -
  have ok: "passes (sample_checks v)" "validateSample v = Inr v" using assms validateSample_ok by blast+
  then have keys: "set (keys_of v) \<subseteq> set WIRE_KEYS" "\<forall>key \<in> set (keys_of v). prop_of v key \<noteq> Undefined"
    and evidence: "passes (evidence_checks v)"
    by (auto simp: sample_checks_def)
  have read: "readWireSample v = Inr (local_view v)" using ok(2) by (simp add: readWireSample_def local_view_def)
  have closed: "\<forall>key \<in> set (keys_of (returned_sample v)). key \<in> set WIRE_KEYS \<and> prop_of (returned_sample v) key \<noteq> Undefined"
    unfolding returned_sample_def obj_keys using obj_names by fastforce
  have "passes (sample_checks (returned_sample v))"
    using ok(1) closed unfolding sample_checks_def returned_checks(1-6) [OF evidence]
    by (simp add: returned_checks(7) [OF evidence]) (simp add: returned_sample_def)
  then have sent: "to_wire_local (local_view v) = Inr (returned_sample v)"
    unfolding back_on_the_wire [OF keys] validateSample_ok by simp
  have ve: "''verification_evidence'' \<in> set WIRE_KEYS" by (simp add: WIRE_KEYS_def LOCAL_KEYS_def)
  have "prop_of (returned_sample v) key = prop_of v key" if "key \<in> set WIRE_KEYS" "key \<noteq> ''verification_evidence''" for key
    using returned_prop [OF that(1)] that(2) by (simp add: returned_value_def)
  moreover have "\<forall>key \<in> set EVIDENCE_KEYS.
      prop_of (prop_of (returned_sample v) ''verification_evidence'') key = prop_of (prop_of v ''verification_evidence'') key"
    using returned_evidence(1) [OF evidence_returns [OF evidence]]
    by (cases "prop_of v ''verification_evidence'' = Undefined") (simp_all add: returned_prop [OF ve] returned_value_def)
  ultimately show ?thesis using read sent by blast
qed

theorem wire_round_trip_witness:
  "\<exists>local w. readWireSample (snapshot_sample sample_row ''2026-07-01T10:00:00.000Z'') = Inr local \<and> to_wire_local local = Inr w \<and>
     prop_of w ''usage_percent'' = Num (Fin 50)"
proof -
  let ?v = "snapshot_sample sample_row ''2026-07-01T10:00:00.000Z''"
  have "validateSample ?v = Inr ?v"
    unfolding validateSample_ok sample_checks_def
    using snapshot_identity [OF wf_sample_row] snapshot_alias snapshot_amounts [OF wf_sample_row] snapshot_words
      snapshot_evidence_passes [OF wf_sample_row] snapshot_values [OF wf_sample_row] snapshot_closed
    by (simp add: snapshot_sample_props period_checks_def representable_def) (simp add: snapshot_sample_def sample_row_def)
  from wire_round_trip [OF this] show ?thesis
    by (fastforce simp: WIRE_KEYS_def LOCAL_KEYS_def snapshot_sample_props sample_row_def num_js_def)
qed

end
