(* ===== verification/Requests.thy ===== *)
theory Requests
  imports Sha256
begin

text \<open>
  What an acquisition sends and under whose name: the identities (acquire/identity.ts), the reading of a stored login
  (the pure part of acquire/credentials.ts), the builders of the requests and the gate every request passes
  (acquire/transport.ts), and the steps of each provider (acquire/providers.ts). \<open>createHash("sha256")\<close> of Node is the
  digest of the standard, \<open>standard_sha256\<close>; \<open>Buffer.from(s, "base64url")\<close> skips characters outside its alphabet; its
  bytes are read as characters one by one, which changes no number and no ASCII key of the JSON they hold.
\<close>

section \<open>Identities\<close>

definition ACQUISITION_CLIENT_VERSION :: string where
  "ACQUISITION_CLIENT_VERSION = ''2.1.13''"

definition OPENLIMITER_USER_AGENT :: string where
  "OPENLIMITER_USER_AGENT = ''OpenLimiter/'' @ ACQUISITION_CLIENT_VERSION @ '' (+https://openlimiter.com)''"

definition node_sha256 :: "nat list \<Rightarrow> string" where
  "node_sha256 bytes = concat (map hex8 (standard_sha256 bytes))"

definition provider_slug :: "provider_code \<Rightarrow> string" where
  "provider_slug p = map (\<lambda>c. if c = CHR ''_'' then CHR ''-'' else c) (toLowerCase (provider_str p))"

definition account_message :: "provider_code \<Rightarrow> string \<Rightarrow> nat list" where
  "account_message p material = utf8_bytes (provider_slug p) @ 0 # utf8_bytes material"

definition opaqueAccountId :: "provider_code \<Rightarrow> string \<Rightarrow> string" where
  "opaqueAccountId p material = provider_slug p @ ''-'' @ take 24 (node_sha256 (account_message p material))"

definition PROVIDER_SINGLETON_MATERIAL :: string where
  "PROVIDER_SINGLETON_MATERIAL = ''one-active-account-without-stable-identity''"

definition credentialRevision :: "string \<Rightarrow> string" where
  "credentialRevision secret = node_sha256 (utf8_bytes secret)"

definition control_char :: "char \<Rightarrow> bool" where
  "control_char c \<longleftrightarrow> (of_char c :: nat) < 32 \<or> (of_char c :: nat) = 127"

definition identity_text :: "js \<Rightarrow> string option" where
  "identity_text v =
     (case v of
        Str s \<Rightarrow>
          if trim s \<noteq> [] \<and> length (utf8_bytes (trim s)) \<le> 512 \<and> \<not> list_ex control_char s then Some (trim s) else None
      | _ \<Rightarrow> None)"

fun first_some :: "('a \<Rightarrow> 'b option) \<Rightarrow> 'a list \<Rightarrow> 'b option" where
  "first_some f [] = None"
| "first_some f (x # xs) = (case f x of Some y \<Rightarrow> Some y | None \<Rightarrow> first_some f xs)"

definition identity_field :: "js \<Rightarrow> string list \<Rightarrow> string option" where
  "identity_field v names = first_some (\<lambda>name. identity_text (prop_of v name)) names"

fun or_else :: "'a option \<Rightarrow> 'a option \<Rightarrow> 'a option" where
  "or_else (Some x) y = Some x"
| "or_else None y = y"

fun split_on :: "char \<Rightarrow> string \<Rightarrow> string list" where
  "split_on c [] = [[]]"
| "split_on c (d # s) = (if d = c then [] # split_on c s else (d # hd (split_on c s)) # tl (split_on c s))"

definition base64_value :: "char \<Rightarrow> nat option" where
  "base64_value c =
     (if is_upper c then Some (of_char c - 65) else if is_lower c then Some (of_char c - 71)
      else if is_digit c then Some (of_char c + 4) else if c \<in> {CHR ''-'', CHR ''+''} then Some 62
      else if c \<in> {CHR ''_'', CHR 0x2F} then Some 63 else None)"

fun base64_bytes :: "nat list \<Rightarrow> nat list" where
  "base64_bytes (a # b # c # d # rest) =
     (4 * a + b div 16) # (16 * (b mod 16) + c div 4) # (64 * (c mod 4) + d) # base64_bytes rest"
| "base64_bytes [a, b, c] = [4 * a + b div 16, 16 * (b mod 16) + c div 4]"
| "base64_bytes [a, b] = [4 * a + b div 16]"
| "base64_bytes _ = []"

definition base64url_text :: "string \<Rightarrow> string" where
  "base64url_text s = map char_of (base64_bytes (List.map_filter base64_value s))"

definition token_claims :: "string \<Rightarrow> js option" where
  "token_claims token =
     (let parts = split_on CHR ''.'' token
      in if length parts \<noteq> 3 \<or> 4096 < length token then None else JSON_parse (base64url_text (parts ! 1)))"

definition jwtIdentity :: "string \<Rightarrow> string option" where
  "jwtIdentity token =
     Option.bind (token_claims token) (\<lambda>claims.
       or_else (identity_field claims
           [''chatgpt_account_id'', ''account_id'', ''accountId'', ''organization_id'', ''organizationId''])
         (identity_field claims [''sub'', ''user_id'', ''userId'']))"

definition ACCOUNT_NAMES :: "string list" where
  "ACCOUNT_NAMES = [''account_id'', ''accountId'', ''accountUuid'', ''workspace_id'', ''workspaceId'', ''user_id'', ''userId'']"

definition credentialProviderAccount :: "provider_code \<Rightarrow> js \<Rightarrow> js \<Rightarrow> string \<Rightarrow> string option" where
  "credentialProviderAccount provider container whole secret =
     (case or_else (identity_field container ACCOUNT_NAMES) (identity_field whole ACCOUNT_NAMES) of
        Some explicit \<Rightarrow> Some explicit
      | None \<Rightarrow>
          Option.bind (token_claims secret) (\<lambda>claims.
            if provider = CODEX then identity_field claims [''chatgpt_account_id'', ''account_id'']
            else if provider = GROK then identity_field claims [''user_id'', ''userId'', ''sub''] else None))"

definition credentialIdentityMaterial :: "js \<Rightarrow> js \<Rightarrow> string \<Rightarrow> string option \<Rightarrow> string option" where
  "credentialIdentityMaterial container whole secret hint =
     or_else (identity_field container ACCOUNT_NAMES)
       (or_else (identity_field whole ACCOUNT_NAMES)
         (or_else hint
           (or_else (jwtIdentity secret)
             (jwtIdentity (case identity_field container [''id_token'', ''idToken''] of Some t \<Rightarrow> t | None \<Rightarrow> [])))))"

section \<open>A stored login\<close>

datatype credential_failure = CredentialAbsent | CredentialUnreadable | CredentialInvalid | CredentialExpired | KeychainNotRead

fun failure_sentence :: "credential_failure \<Rightarrow> string" where
  "failure_sentence CredentialAbsent = ''no local login found for this provider''"
| "failure_sentence CredentialUnreadable = ''the local login file could not be read''"
| "failure_sentence CredentialInvalid = ''the local login file was not in a shape this build understands''"
| "failure_sentence CredentialExpired =
     ''the local login has expired, open the provider'' @ [CHR 0x27] @ ''s own tool once to refresh it''"
| "failure_sentence KeychainNotRead = ''the login is in the macOS keychain, which this command does not open''"

datatype stored_origin = VendorStore | VendorFile | UserKey

record acquired_credential =
  ac_secret :: string
  ac_accountId :: "string option"
  ac_identityMaterial :: "string option"
  ac_expiresAt :: "rat option"
  ac_origin :: stored_origin
  ac_codexHome :: "string option"
  ac_executable :: "string option"

type_synonym credential_result = "credential_failure + acquired_credential"

definition acquisitionAccountId :: "provider_code \<Rightarrow> acquired_credential \<Rightarrow> string" where
  "acquisitionAccountId provider credential =
     (if provider = ANTIGRAVITY \<and> ac_origin credential = VendorStore then opaqueAccountId provider PROVIDER_SINGLETON_MATERIAL
      else opaqueAccountId provider
        (case or_else (ac_identityMaterial credential) (or_else (ac_accountId credential) (jwtIdentity (ac_secret credential))) of
           Some material \<Rightarrow> material | None \<Rightarrow> PROVIDER_SINGLETON_MATERIAL))"

fun containers :: "provider_code \<Rightarrow> string list" where
  "containers CLAUDE = [''claudeAiOauth'', ''oauth'', ''credentials'']"
| "containers CODEX = [''tokens'', ''oauth'', ''credentials'']"
| "containers GEMINI_CLI = [''oauth'', ''tokens'', ''credentials'']"
| "containers GROK = [''credentials'', ''auth'', ''tokens'']"
| "containers KIMI = [''credentials'', ''oauth'', ''tokens'']"
| "containers OPENROUTER = [''credentials'']"
| "containers _ = []"

fun secret_fields :: "provider_code \<Rightarrow> string list" where
  "secret_fields CLAUDE = [''accessToken'', ''access_token'', ''token'']"
| "secret_fields CODEX = [''access_token'', ''accessToken'']"
| "secret_fields GEMINI_CLI = [''access_token'', ''accessToken'']"
| "secret_fields GROK = [''access_token'', ''accessToken'', ''key'']"
| "secret_fields KIMI = [''access_token'', ''accessToken'']"
| "secret_fields OPENROUTER = [''key'', ''api_key'', ''apiKey'']"
| "secret_fields _ = []"

definition EXPIRY_FIELDS :: "string list" where
  "EXPIRY_FIELDS = [''expiresAt'', ''expires_at'', ''expiry_date'', ''expiry'', ''expires'']"

definition GROK_PREFERRED_ISSUER :: string where
  "GROK_PREFERRED_ISSUER = ''https://auth.x.ai''"

definition stringField :: "js \<Rightarrow> string list \<Rightarrow> string option" where
  "stringField source names =
     first_some (\<lambda>name. case prop_of source name of Str s \<Rightarrow> if s \<noteq> [] then Some s else None | _ \<Rightarrow> None) names"

definition expiry_number :: "rat \<Rightarrow> int" where
  "expiry_number r = (if r < 1000000000000 then math_round (r * 1000) else math_round r)"

definition expiryMilliseconds :: "js \<Rightarrow> int option" where
  "expiryMilliseconds v =
     (case v of
        Num (Fin r) \<Rightarrow> if 0 < r then Some (expiry_number r) else None
      | Str s \<Rightarrow>
          if s = [] \<or> 64 < length s then None
          else let trimmed = trim s
               in if 9 \<le> length trimmed \<and> length trimmed \<le> 14 \<and> list_all is_digit trimmed
                  then (let n = number_of_digits trimmed in if 0 < n then Some (expiry_number (of_nat n)) else None)
                  else dateParse trimmed
      | _ \<Rightarrow> None)"

definition document_containers :: "provider_code \<Rightarrow> js \<Rightarrow> js list" where
  "document_containers provider whole =
     (let nested = filter isRecord (map (prop_of whole) (containers provider)) @ [whole];
          issuers = (if isRecord (prop_of whole ''issuers'') then prop_of whole ''issuers'' else whole)
      in if provider = GROK \<and> isRecord (prop_of issuers GROK_PREFERRED_ISSUER)
         then prop_of issuers GROK_PREFERRED_ISSUER # nested else nested)"

definition stated_expiry :: "js \<Rightarrow> js \<Rightarrow> int option" where
  "stated_expiry container whole =
     (let own = (case find (\<lambda>v. v \<noteq> Undefined) (map (prop_of container) EXPIRY_FIELDS) of Some v \<Rightarrow> v | None \<Rightarrow> Undefined)
      in expiryMilliseconds
           (if \<not> nullish own then own
            else if \<not> nullish (prop_of whole ''expiresAt'') then prop_of whole ''expiresAt'' else prop_of whole ''expires_at''))"

definition credential_from :: "provider_code \<Rightarrow> js \<Rightarrow> int \<Rightarrow> stored_origin \<Rightarrow> string option \<Rightarrow> js \<Rightarrow> string \<Rightarrow> credential_result" where
  "credential_from provider whole now origin hint container secret =
     (let expiry = stated_expiry container whole
      in if (case expiry of Some t \<Rightarrow> t \<le> now | None \<Rightarrow> False) then Inl CredentialExpired
         else let accountId = credentialProviderAccount provider container whole secret;
                  material = credentialIdentityMaterial container whole secret hint
              in if provider = GEMINI_CLI \<and> material = None then Inl CredentialInvalid
                 else Inr \<lparr>ac_secret = secret, ac_accountId = accountId,
                   ac_identityMaterial = (if material \<noteq> accountId then material else None),
                   ac_expiresAt = map_option of_int expiry, ac_origin = origin, ac_codexHome = None, ac_executable = None\<rparr>)"

definition readCredentialDocument :: "provider_code \<Rightarrow> js \<Rightarrow> int \<Rightarrow> stored_origin \<Rightarrow> string option \<Rightarrow> credential_result" where
  "readCredentialDocument provider document now origin hint =
     (if \<not> isRecord document then Inl CredentialInvalid
      else case first_some (\<lambda>container. map_option (Pair container) (stringField container (secret_fields provider)))
                  (document_containers provider document) of
        None \<Rightarrow> Inl CredentialInvalid
      | Some (container, secret) \<Rightarrow> credential_from provider document now origin hint container secret)"

text \<open>The loop over the candidate files of a client: each one is missing, unreadable or a document with the account its
  neighbour names; the first usable login wins, the first failure is reported.\<close>

datatype login_candidate = CandidateMissing | CandidateUnreadable | CandidateDocument string js "string option"

fun read_candidates :: "provider_code \<Rightarrow> int \<Rightarrow> login_candidate list \<Rightarrow> credential_failure option \<Rightarrow> bool \<Rightarrow> credential_result" where
  "read_candidates provider clock [] firstFailure darwin =
     (case firstFailure of
        Some reason \<Rightarrow> Inl reason
      | None \<Rightarrow> Inl (if provider = CLAUDE \<and> darwin then KeychainNotRead else CredentialAbsent))"
| "read_candidates provider clock (CandidateMissing # rest) firstFailure darwin =
     read_candidates provider clock rest firstFailure darwin"
| "read_candidates provider clock (CandidateUnreadable # rest) firstFailure darwin =
     read_candidates provider clock rest (or_else firstFailure (Some CredentialUnreadable)) darwin"
| "read_candidates provider clock (CandidateDocument directory document hint # rest) firstFailure darwin =
     (case readCredentialDocument provider document clock VendorFile (if provider = CLAUDE then hint else None) of
        Inr credential \<Rightarrow> Inr (if provider = CODEX then credential\<lparr>ac_codexHome := Some directory\<rparr> else credential)
      | Inl reason \<Rightarrow> read_candidates provider clock rest (or_else firstFailure (Some reason)) darwin)"

section \<open>Requests\<close>

datatype endpoint =
    ClaudeUsage | CodeAssistLoad | CodeAssistQuota | GrokBilling | KimiUsage | CursorUsage | OpenrouterKey | OpenrouterCredits

datatype http_method = GET | POST

fun endpoint_url :: "endpoint \<Rightarrow> string" where
  "endpoint_url ClaudeUsage = ''https://api.anthropic.com/api/oauth/usage''"
| "endpoint_url CodeAssistLoad = ''https://cloudcode-pa.googleapis.com/v1internal:loadCodeAssist''"
| "endpoint_url CodeAssistQuota = ''https://cloudcode-pa.googleapis.com/v1internal:retrieveUserQuota''"
| "endpoint_url GrokBilling = ''https://cli-chat-proxy.grok.com/v1/billing?format=credits''"
| "endpoint_url KimiUsage = ''https://api.kimi.com/coding/v1/usages''"
| "endpoint_url CursorUsage = ''https://cursor.com/api/usage-summary''"
| "endpoint_url OpenrouterKey = ''https://openrouter.ai/api/v1/key''"
| "endpoint_url OpenrouterCredits = ''https://openrouter.ai/api/v1/credits''"

fun endpoint_method :: "endpoint \<Rightarrow> http_method" where
  "endpoint_method CodeAssistLoad = POST"
| "endpoint_method CodeAssistQuota = POST"
| "endpoint_method _ = GET"

record http_request =
  rq_endpoint :: endpoint
  rq_url :: string
  rq_method :: http_method
  rq_headers :: "(string \<times> string) list"
  rq_body :: "string option"

text \<open>The request of the Codex app server: executable, home and expected account.\<close>

datatype acquisition_request = Http http_request | CodexServer string string string

definition CODE_ASSIST_LOAD_BODY :: string where
  "CODE_ASSIST_LOAD_BODY =
     json_text (Obj [(''metadata'', Obj [(''ideType'', Str ''IDE_UNSPECIFIED''), (''platform'', Str ''PLATFORM_UNSPECIFIED''),
       (''pluginType'', Str ''GEMINI'')])])"

definition header_char :: "char \<Rightarrow> bool" where
  "header_char c \<longleftrightarrow> 32 \<le> (of_char c :: nat) \<and> (of_char c :: nat) \<le> 126"

definition alnum_char :: "char \<Rightarrow> bool" where
  "alnum_char c \<longleftrightarrow> is_upper c \<or> is_lower c \<or> is_digit c"

definition usableHeaderSecret :: "string \<Rightarrow> bool" where
  "usableHeaderSecret s \<longleftrightarrow> 0 < length s \<and> length s \<le> 8192 \<and> list_all header_char s"

text \<open>\<open>/^[A-Za-z0-9][A-Za-z0-9_.:-]{0,127}$/u\<close>, the shape of an account and of a companion project.\<close>

definition usableHeaderAccountId :: "string \<Rightarrow> bool" where
  "usableHeaderAccountId s =
     (case s of
        [] \<Rightarrow> False
      | c # cs \<Rightarrow> alnum_char c \<and> length cs \<le> 127 \<and> list_all (\<lambda>x. alnum_char x \<or> x \<in> {CHR ''_'', CHR ''.'', CHR '':'', CHR ''-''}) cs)"

definition cookie_part :: "string \<Rightarrow> bool" where
  "cookie_part s \<longleftrightarrow>
     0 < length s \<and> length s \<le> 16384 \<and> list_all (\<lambda>x. alnum_char x \<or> x \<in> {CHR ''.'', CHR ''_'', CHR ''-''}) s"

definition bearer :: "string \<Rightarrow> (string \<times> string) list" where
  "bearer secret =
     [(''authorization'', ''Bearer '' @ secret), (''user-agent'', OPENLIMITER_USER_AGENT), (''accept'', ''application/json'')]"

text \<open>A request takes its address from the table of endpoints; its method is the literal of the builder.\<close>

definition endpoint_request :: "endpoint \<Rightarrow> http_method \<Rightarrow> (string \<times> string) list \<Rightarrow> string option \<Rightarrow> http_request" where
  "endpoint_request e meth headers body =
     \<lparr>rq_endpoint = e, rq_url = endpoint_url e, rq_method = meth, rq_headers = headers, rq_body = body\<rparr>"

definition claudeUsageRequest :: "string \<Rightarrow> http_request option" where
  "claudeUsageRequest secret =
     (if \<not> usableHeaderSecret secret then None
      else Some (endpoint_request ClaudeUsage GET (bearer secret @ [(''anthropic-beta'', ''oauth-2025-04-20'')]) None))"

definition codeAssistLoadRequest :: "string \<Rightarrow> http_request option" where
  "codeAssistLoadRequest secret =
     (if \<not> usableHeaderSecret secret then None
      else Some (endpoint_request CodeAssistLoad POST (bearer secret @ [(''content-type'', ''application/json'')])
        (Some CODE_ASSIST_LOAD_BODY)))"

definition codeAssistQuotaRequest :: "string \<Rightarrow> string \<Rightarrow> http_request option" where
  "codeAssistQuotaRequest secret project =
     (if \<not> usableHeaderSecret secret \<or> \<not> usableHeaderAccountId project then None
      else Some (endpoint_request CodeAssistQuota POST (bearer secret @ [(''content-type'', ''application/json'')])
        (Some (json_text (Obj [(''project'', Str project), (''userAgent'', Str OPENLIMITER_USER_AGENT)])))))"

definition grokBillingRequest :: "string \<Rightarrow> string option \<Rightarrow> http_request option" where
  "grokBillingRequest secret accountId =
     (if \<not> usableHeaderSecret secret then None
      else Some (endpoint_request GrokBilling GET
        (bearer secret @
         (case accountId of Some a \<Rightarrow> if usableHeaderAccountId a then [(''x-userid'', a)] else [] | None \<Rightarrow> [])) None))"

definition bearer_request :: "endpoint \<Rightarrow> string \<Rightarrow> http_request option" where
  "bearer_request e secret = (if \<not> usableHeaderSecret secret then None else Some (endpoint_request e GET (bearer secret) None))"

definition kimiUsageRequest :: "string \<Rightarrow> http_request option" where
  "kimiUsageRequest = bearer_request KimiUsage"

definition openrouterKeyRequest :: "string \<Rightarrow> http_request option" where
  "openrouterKeyRequest = bearer_request OpenrouterKey"

definition openrouterCreditsRequest :: "string \<Rightarrow> http_request option" where
  "openrouterCreditsRequest = bearer_request OpenrouterCredits"

definition cursorUsageRequest :: "string \<Rightarrow> string \<Rightarrow> http_request option" where
  "cursorUsageRequest secret authId =
     (if \<not> cookie_part secret \<or> \<not> cookie_part authId then None
      else Some (endpoint_request CursorUsage GET
        [(''user-agent'', OPENLIMITER_USER_AGENT), (''accept'', ''application/json''),
         (''cookie'', ''WorkosCursorSessionToken='' @ authId @ ''::'' @ secret)] None))"

definition codexAppServerRequest :: "string \<Rightarrow> string \<Rightarrow> string \<Rightarrow> acquisition_request option" where
  "codexAppServerRequest executable codexHome expectedAccountId =
     (if executable = [] \<or> codexHome = [] \<or> expectedAccountId = [] then None
      else Some (CodexServer executable codexHome expectedAccountId))"

section \<open>The gate\<close>

definition ALLOWED_REQUEST_HEADERS :: "string list" where
  "ALLOWED_REQUEST_HEADERS =
     [''authorization'', ''cookie'', ''accept'', ''user-agent'', ''content-type'', ''anthropic-beta'', ''x-userid'']"

text \<open>The cookie: the name of the session, two bounded parts and \<open>::\<close> between them.\<close>

definition cookie_value :: "string \<Rightarrow> bool" where
  "cookie_value v \<longleftrightarrow>
     startsWith v ''WorkosCursorSessionToken='' \<and>
     (let pair = drop 25 v; authId = takeWhile (\<lambda>c. c \<noteq> CHR '':'') pair; rest = dropWhile (\<lambda>c. c \<noteq> CHR '':'') pair
      in cookie_part authId \<and> startsWith rest ''::'' \<and> cookie_part (drop 2 rest))"

definition validHeaderValue :: "string \<Rightarrow> string \<Rightarrow> http_method \<Rightarrow> bool" where
  "validHeaderValue name value meth =
     (if value = [] \<or> \<not> list_all header_char value then False
      else if name = ''user-agent'' then value = OPENLIMITER_USER_AGENT
      else if name = ''accept'' then value = ''application/json''
      else if name = ''cookie'' then cookie_value value
      else if name = ''content-type'' then value = ''application/json'' \<and> meth = POST
      else if name = ''authorization'' then startsWith value ''Bearer '' \<and> usableHeaderSecret (drop 7 value)
      else if name = ''anthropic-beta'' then value = ''oauth-2025-04-20''
      else if name = ''x-userid'' then usableHeaderAccountId value
      else False)"

definition validRequestBody :: "http_request \<Rightarrow> bool" where
  "validRequestBody request =
     (if rq_endpoint request = CodeAssistLoad then rq_body request = Some CODE_ASSIST_LOAD_BODY
      else if rq_endpoint request = CodeAssistQuota then
        (case Option.bind (rq_body request) JSON_parse of
           Some sent \<Rightarrow>
             isRecord sent \<and> sort (keys_of sent) = [''project'', ''userAgent''] \<and>
             (case prop_of sent ''project'' of Str project \<Rightarrow> usableHeaderAccountId project | _ \<Rightarrow> False) \<and>
             prop_of sent ''userAgent'' = Str OPENLIMITER_USER_AGENT
         | None \<Rightarrow> False)
      else rq_body request = None \<and> rq_method request = GET)"

definition validAcquisitionRequest :: "http_request \<Rightarrow> bool" where
  "validAcquisitionRequest request \<longleftrightarrow>
     rq_url request = endpoint_url (rq_endpoint request) \<and> rq_method request = endpoint_method (rq_endpoint request) \<and>
     map_of (rq_headers request) ''user-agent'' = Some OPENLIMITER_USER_AGENT \<and>
     (if rq_endpoint request = CursorUsage
      then join '','' (sort (map fst (rq_headers request))) = ''accept,cookie,user-agent''
      else map_of (rq_headers request) ''cookie'' = None) \<and>
     list_all (\<lambda>(name, value). name \<in> set ALLOWED_REQUEST_HEADERS \<and> validHeaderValue name value (rq_method request)) (rq_headers request) \<and>
     validRequestBody request"

definition outcomeForStatus :: "int \<Rightarrow> acquisition_outcome" where
  "outcomeForStatus code =
     (if 200 \<le> code \<and> code < 300 then AcqOk else if code = 401 then Unauthorized else if code = 403 then Blocked
      else if code = 429 then AcqRateLimited else RemoteError)"

definition retryAfterSeconds :: "(string \<Rightarrow> ms) \<Rightarrow> string option \<Rightarrow> int \<Rightarrow> int option" where
  "retryAfterSeconds httpDate header now =
     (case header of
        None \<Rightarrow> None
      | Some text \<Rightarrow>
          let trimmed = trim text
          in if trimmed \<noteq> [] \<and> list_all is_digit trimmed
             then (let n = number_of_digits trimmed in if n \<le> 9007199254740991 then Some (int n) else None)
             else if http_date_shape trimmed
             then map_option (\<lambda>deadline. max 0 \<lceil>rat_of_int (deadline - now) / 1000\<rceil>) (httpDate trimmed) else None)"

section \<open>The steps of the providers\<close>

datatype step_result = AskFor acquisition_request | StopWith acquisition_outcome

type_synonym acquisition_step = "acquired_credential \<Rightarrow> js list \<Rightarrow> step_result option"

definition ask :: "http_request option \<Rightarrow> step_result option" where
  "ask request = map_option (AskFor \<circ> Http) request"

definition RETIRED_TIERS :: "string list" where
  "RETIRED_TIERS = [''free-tier'', ''g1-pro-tier'', ''g1-ultra-tier'']"

definition tierId :: "js \<Rightarrow> string option" where
  "tierId v = (case prop_of v ''id'' of Str s \<Rightarrow> Some s | _ \<Rightarrow> None)"

definition isRetiredGeminiCliTier :: "js \<Rightarrow> bool" where
  "isRetiredGeminiCliTier v \<longleftrightarrow>
     isRecord v \<and>
     (case or_else (tierId (prop_of v ''paidTier'')) (tierId (prop_of v ''currentTier'')) of
        Some t \<Rightarrow> t \<in> set RETIRED_TIERS | None \<Rightarrow> False)"

definition load_step :: acquisition_step where
  "load_step credential previous = ask (codeAssistLoadRequest (ac_secret credential))"

definition quota_step :: "bool \<Rightarrow> acquisition_step" where
  "quota_step retireConsumerTiers credential previous =
     (let bootstrap = (case previous of b # _ \<Rightarrow> b | [] \<Rightarrow> Undefined)
      in if \<not> isRecord bootstrap then None
         else if retireConsumerTiers \<and> isRetiredGeminiCliTier bootstrap then Some (StopWith AcqQuotaUnavailable)
         else case prop_of bootstrap ''cloudaicompanionProject'' of
           Str project \<Rightarrow> ask (codeAssistQuotaRequest (ac_secret credential) project)
         | _ \<Rightarrow> if isArray (prop_of bootstrap ''allowedTiers'') then Some (StopWith IdentityRefused) else None)"

definition codeAssistSteps :: "bool \<Rightarrow> acquisition_step list" where
  "codeAssistSteps retireConsumerTiers = [load_step, quota_step retireConsumerTiers]"

definition codex_step :: acquisition_step where
  "codex_step credential previous =
     (case (ac_accountId credential, ac_codexHome credential, ac_executable credential) of
        (Some _, Some home, Some executable) \<Rightarrow>
          map_option AskFor (codexAppServerRequest executable home (acquisitionAccountId CODEX credential))
      | _ \<Rightarrow> None)"

definition cursor_step :: acquisition_step where
  "cursor_step credential previous =
     (case ac_accountId credential of None \<Rightarrow> None | Some a \<Rightarrow> ask (cursorUsageRequest (ac_secret credential) a))"

text \<open>The steps of a provider, and where its optional steps begin.\<close>

fun provider_steps :: "provider_code \<Rightarrow> acquisition_step list" where
  "provider_steps CLAUDE = [\<lambda>credential previous. ask (claudeUsageRequest (ac_secret credential))]"
| "provider_steps CODEX = [codex_step]"
| "provider_steps CURSOR = [cursor_step]"
| "provider_steps GEMINI_CLI = codeAssistSteps True"
| "provider_steps GROK = [\<lambda>credential previous. ask (grokBillingRequest (ac_secret credential) (ac_accountId credential))]"
| "provider_steps KIMI = [\<lambda>credential previous. ask (kimiUsageRequest (ac_secret credential))]"
| "provider_steps OPENROUTER =
     [\<lambda>credential previous. ask (openrouterKeyRequest (ac_secret credential)),
      \<lambda>credential previous. ask (openrouterCreditsRequest (ac_secret credential))]"
| "provider_steps _ = []"

definition optional_from :: "provider_code \<Rightarrow> nat option" where
  "optional_from provider = (if provider = OPENROUTER then Some 1 else None)"

section \<open>Every step passes the gate\<close>

lemma printable_alnum: "alnum_char c \<Longrightarrow> header_char c"
  by (auto simp: alnum_char_def header_char_def is_upper_def is_lower_def is_digit_def less_eq_char_def)

lemma printable_all:
  assumes "list_all (\<lambda>x. alnum_char x \<or> x \<in> S) s" "\<forall>x \<in> S. header_char x"
  shows "list_all header_char s"
  using assms printable_alnum by (auto simp: list_all_iff)

lemma account_printable: "usableHeaderAccountId s \<Longrightarrow> s \<noteq> [] \<and> list_all header_char s"
  using printable_all [of "{CHR ''_'', CHR ''.'', CHR '':'', CHR ''-''}" "tl s"] printable_alnum [of "hd s"]
  by (cases s) (simp_all add: usableHeaderAccountId_def header_char_def)

lemma cookie_printable: "cookie_part s \<Longrightarrow> list_all header_char s"
  by (rule printable_all [of "{CHR ''.'', CHR ''_'', CHR ''-''}"]) (simp_all add: cookie_part_def header_char_def)

lemma agent_valid: "validHeaderValue ''user-agent'' OPENLIMITER_USER_AGENT m" "validHeaderValue ''accept'' ''application/json'' m"
  by (simp_all add: validHeaderValue_def OPENLIMITER_USER_AGENT_def ACQUISITION_CLIENT_VERSION_def header_char_def)

lemma bearer_valid: "usableHeaderSecret secret \<Longrightarrow> validHeaderValue ''authorization'' (''Bearer '' @ secret) m"
  by (simp add: validHeaderValue_def usableHeaderSecret_def header_char_def startsWith_def)

lemma content_valid: "validHeaderValue ''content-type'' ''application/json'' POST"
  by (simp add: validHeaderValue_def header_char_def)

lemma bearer_headers:
  assumes "usableHeaderSecret secret"
  shows "list_all (\<lambda>(name, value). name \<in> set ALLOWED_REQUEST_HEADERS \<and> validHeaderValue name value m) (bearer secret)"
    "map_of (bearer secret @ extra) ''user-agent'' = Some OPENLIMITER_USER_AGENT" "map_of (bearer secret @ extra) ''cookie'' = map_of extra ''cookie''"
  using bearer_valid [OF assms] agent_valid by (simp_all add: bearer_def ALLOWED_REQUEST_HEADERS_def)

lemma bearer_request_valid:
  assumes "usableHeaderSecret secret" "e \<noteq> CursorUsage" "map_of extra ''cookie'' = None"
    and "list_all (\<lambda>(name, value). name \<in> set ALLOWED_REQUEST_HEADERS \<and> validHeaderValue name value m) extra"
    and "validRequestBody (endpoint_request e m (bearer secret @ extra) body)" and "m = endpoint_method e"
  shows "validAcquisitionRequest (endpoint_request e m (bearer secret @ extra) body)"
  using bearer_headers [OF assms(1)] assms(2-6)
  unfolding validAcquisitionRequest_def by (simp add: endpoint_request_def)

lemma plain_body: "e \<notin> {CodeAssistLoad, CodeAssistQuota} \<Longrightarrow> validRequestBody (endpoint_request e GET headers None)"
  by (cases e) (simp_all add: validRequestBody_def endpoint_request_def)

lemma quota_body:
  assumes "usableHeaderAccountId project"
  shows "validRequestBody (endpoint_request CodeAssistQuota POST headers
    (Some (json_text (Obj [(''project'', Str project), (''userAgent'', Str OPENLIMITER_USER_AGENT)]))))"
proof -
  let ?o = "Obj [(''project'', Str project), (''userAgent'', Str OPENLIMITER_USER_AGENT)]"
  have "JSON_parse (json_text ?o) = Some ?o" by (rule parse_back) simp_all
  moreover have "sort [''project'', ''userAgent''] = [''project'', ''userAgent'']" by (simp add: less_eq_char_def)
  ultimately show ?thesis using assms by (simp add: validRequestBody_def endpoint_request_def del: json_text.simps)
qed

lemma cursor_valid:
  assumes "cookie_part secret" "cookie_part authId"
  shows "validAcquisitionRequest (endpoint_request CursorUsage GET
    [(''user-agent'', OPENLIMITER_USER_AGENT), (''accept'', ''application/json''),
     (''cookie'', ''WorkosCursorSessionToken='' @ authId @ ''::'' @ secret)] None)"
proof -
  let ?cookie = "''WorkosCursorSessionToken='' @ authId @ ''::'' @ secret"
  have no: "\<forall>c \<in> set authId. c \<noteq> CHR '':''"
    using assms(2) by (auto simp: cookie_part_def list_all_iff alnum_char_def is_upper_def is_lower_def is_digit_def less_eq_char_def)
  have "takeWhile (\<lambda>c. c \<noteq> CHR '':'') (authId @ ''::'' @ secret) = authId"
    "dropWhile (\<lambda>c. c \<noteq> CHR '':'') (authId @ ''::'' @ secret) = ''::'' @ secret"
    using no by (simp_all add: takeWhile_append2 dropWhile_append2)
  then have "cookie_value ?cookie" using assms by (simp add: cookie_value_def startsWith_def Let_def)
  moreover have "list_all header_char ?cookie"
    using cookie_printable [OF assms(1)] cookie_printable [OF assms(2)] by (simp add: header_char_def)
  ultimately have "validHeaderValue ''cookie'' ?cookie GET" by (simp add: validHeaderValue_def)
  moreover have "sort [''user-agent'', ''accept'', ''cookie''] = [''accept'', ''cookie'', ''user-agent'']"
    by (simp add: less_eq_char_def)
  ultimately show ?thesis
    using agent_valid [of GET] by (simp add: validAcquisitionRequest_def endpoint_request_def validRequestBody_def ALLOWED_REQUEST_HEADERS_def)
qed

lemma header_printable: "validHeaderValue name value m \<Longrightarrow> list_all header_char value"
  by (simp add: validHeaderValue_def split: if_splits)

lemma ask_eq [simp]: "ask x = Some (AskFor (Http r)) \<longleftrightarrow> x = Some r"
  by (auto simp: ask_def)

lemma quota_asks:
  assumes "quota_step b credential previous = Some (AskFor (Http r))"
  shows "\<exists>project. codeAssistQuotaRequest (ac_secret credential) project = Some r"
proof -
  obtain bootstrap where "bootstrap = (case previous of b # _ \<Rightarrow> b | [] \<Rightarrow> Undefined)" by blast
  then show ?thesis
    using assms by (cases "prop_of bootstrap ''cloudaicompanionProject''") (auto simp: quota_step_def Let_def split: if_splits)
qed

lemma codex_asks: "codex_step credential previous \<noteq> Some (AskFor (Http r))"
  by (auto simp: codex_step_def codexAppServerRequest_def split: option.splits if_splits)

lemma cursor_asks:
  "cursor_step credential previous = Some (AskFor (Http r)) \<Longrightarrow> \<exists>a. cursorUsageRequest (ac_secret credential) a = Some r"
  by (auto simp: cursor_step_def split: option.splits)

text \<open>What each builder makes passes the gate.\<close>

lemma plain_valid:
  "usableHeaderSecret s \<Longrightarrow> e \<notin> {CodeAssistLoad, CodeAssistQuota, CursorUsage} \<Longrightarrow>
   validAcquisitionRequest (endpoint_request e GET (bearer s) None)"
  using bearer_request_valid [of s e "[]" GET None] plain_body [of e "bearer s"] by (cases e) simp_all

lemma claude_valid: "claudeUsageRequest s = Some r \<Longrightarrow> validAcquisitionRequest r"
  using bearer_request_valid [of s ClaudeUsage "[(''anthropic-beta'', ''oauth-2025-04-20'')]" GET None] plain_body
  by (auto simp: claudeUsageRequest_def ALLOWED_REQUEST_HEADERS_def validHeaderValue_def header_char_def split: if_splits)

lemma grok_valid:
  assumes "grokBillingRequest s a = Some r"
  shows "validAcquisitionRequest r"
proof -
  have s: "usableHeaderSecret s" using assms by (simp add: grokBillingRequest_def split: if_splits)
  show ?thesis
  proof (cases "\<exists>b. a = Some b \<and> usableHeaderAccountId b")
    case True
    then obtain b where b: "a = Some b" "usableHeaderAccountId b" by blast
    have "validAcquisitionRequest (endpoint_request GrokBilling GET (bearer s @ [(''x-userid'', b)]) None)"
      by (rule bearer_request_valid [OF s])
         (use b(2) account_printable [OF b(2)] plain_body in \<open>simp_all add: ALLOWED_REQUEST_HEADERS_def validHeaderValue_def\<close>)
    then show ?thesis using assms s b by (simp add: grokBillingRequest_def)
  next
    case False
    then have "r = endpoint_request GrokBilling GET (bearer s) None"
      using assms s by (auto simp: grokBillingRequest_def split: option.splits if_splits)
    then show ?thesis using plain_valid [OF s, of GrokBilling] by simp
  qed
qed

lemma assist_valid:
  assumes "codeAssistLoadRequest s = Some r \<or> codeAssistQuotaRequest s project = Some r"
  shows "validAcquisitionRequest r"
  using assms content_valid quota_body [of project]
    bearer_request_valid [of s CodeAssistLoad "[(''content-type'', ''application/json'')]" POST "Some CODE_ASSIST_LOAD_BODY"]
    bearer_request_valid [of s CodeAssistQuota "[(''content-type'', ''application/json'')]" POST]
  by (auto simp: codeAssistLoadRequest_def codeAssistQuotaRequest_def ALLOWED_REQUEST_HEADERS_def validRequestBody_def
      endpoint_request_def split: if_splits)

lemma cursor_request_valid: "cursorUsageRequest s a = Some r \<Longrightarrow> validAcquisitionRequest r"
  using cursor_valid by (auto simp: cursorUsageRequest_def split: if_splits)

lemma bearer_only_valid:
  "bearer_request e s = Some r \<Longrightarrow> e \<notin> {CodeAssistLoad, CodeAssistQuota, CursorUsage} \<Longrightarrow> validAcquisitionRequest r"
  using plain_valid by (auto simp: bearer_request_def split: if_splits)

lemma step_valid:
  assumes "step \<in> set (provider_steps p)" "step credential previous = Some (AskFor (Http r))"
  shows "validAcquisitionRequest r"
proof (cases p)
  case CLAUDE
  then show ?thesis using assms claude_valid by simp
next
  case CODEX
  then show ?thesis using assms codex_asks by simp
next
  case CURSOR
  then show ?thesis using assms cursor_asks cursor_request_valid by fastforce
next
  case GEMINI_CLI
  then have "step = load_step \<or> step = quota_step True" using assms(1) by (simp add: codeAssistSteps_def)
  moreover have "codeAssistLoadRequest (ac_secret credential) = Some r" if "step = load_step"
    using assms(2) that by (simp add: load_step_def)
  moreover have "\<exists>project. codeAssistQuotaRequest (ac_secret credential) project = Some r" if "step = quota_step True"
    using assms(2) that quota_asks by blast
  ultimately show ?thesis using assist_valid by blast
next
  case GROK
  then show ?thesis using assms grok_valid by simp
next
  case KIMI
  then show ?thesis using assms bearer_only_valid by (auto simp: kimiUsageRequest_def)
next
  case OPENROUTER
  then show ?thesis
    using assms bearer_only_valid by (auto simp: openrouterKeyRequest_def openrouterCreditsRequest_def)
qed (use assms in simp_all)

text \<open>C5: whatever a stored login holds and whatever a provider answered before, a request a step makes passes the gate:
  it goes to the address of its endpoint, under the product's own name, with headers that can carry no second one.\<close>

theorem every_step_passes_the_gate:
  assumes "step \<in> set (provider_steps p)" "step credential previous = Some (AskFor (Http r))"
  shows "validAcquisitionRequest r \<and> list_all (\<lambda>(name, value). list_all header_char value) (rq_headers r)"
proof (intro conjI)
  show valid: "validAcquisitionRequest r" using step_valid [OF assms] .
  show "list_all (\<lambda>(name, value). list_all header_char value) (rq_headers r)"
  proof (rule list.pred_mono_strong)
    show "list_all (\<lambda>(name, value). name \<in> set ALLOWED_REQUEST_HEADERS \<and> validHeaderValue name value (rq_method r)) (rq_headers r)"
      using valid unfolding validAcquisitionRequest_def by blast
  qed (use header_printable in blast)
qed

definition sample_credential :: acquired_credential where
  "sample_credential =
     \<lparr>ac_secret = ''token'', ac_accountId = Some ''user-1'', ac_identityMaterial = None, ac_expiresAt = None, ac_origin = VendorFile,
      ac_codexHome = None, ac_executable = None\<rparr>"

theorem every_step_passes_the_gate_witness:
  "\<exists>r. grokBillingRequest ''token'' (Some ''user-1'') = Some r \<and> validAcquisitionRequest r"
proof -
  have "\<exists>r. grokBillingRequest ''token'' (Some ''user-1'') = Some r"
    by (simp add: grokBillingRequest_def usableHeaderSecret_def header_char_def)
  then obtain r where r: "grokBillingRequest ''token'' (Some ''user-1'') = Some r" by blast
  have "validAcquisitionRequest r \<and> list_all (\<lambda>(name, value). list_all header_char value) (rq_headers r)"
    by (rule every_step_passes_the_gate [where p = GROK and credential = sample_credential and previous = "[]" and
        step = "\<lambda>credential previous. ask (grokBillingRequest (ac_secret credential) (ac_accountId credential))"])
      (use r in \<open>simp_all add: sample_credential_def\<close>)
  then show ?thesis using r by blast
qed

section \<open>The account a login is filed under\<close>

lemma node_sha256_hex: "hex_text 64 (node_sha256 bytes)"
proof -
  have step: "length h = 8 \<Longrightarrow> length (standard_block h b) = 8" for h b by (simp add: standard_block_def)
  have "length h = 8 \<Longrightarrow> length (foldl standard_block h bs) = 8" for h bs
    by (induction bs arbitrary: h) (simp_all add: step)
  then have "length (standard_sha256 bytes) = 8" by (simp add: standard_sha256_def SHA_H_def)
  then show ?thesis using hex_texts [of "standard_sha256 bytes"] by (simp add: node_sha256_def)
qed

lemma provider_slugs:
  "provider_slug CLAUDE = ''claude''" "provider_slug OPENROUTER = ''openrouter''" "provider_slug CODEX = ''codex''"
  "provider_slug ANTIGRAVITY = ''antigravity''" "provider_slug GEMINI_CLI = ''gemini-cli''" "provider_slug OPENCODE = ''opencode''"
  "provider_slug GROK = ''grok''" "provider_slug KIMI = ''kimi''" "provider_slug CURSOR = ''cursor''" "provider_slug MANUAL = ''manual''"
  by code_simp+

lemma provider_slug_text:
  "provider_slug p \<noteq> []" "length (provider_slug p) \<le> 11" "is_lower (hd (provider_slug p))"
  "list_all (\<lambda>x. is_lower x \<or> x = CHR ''-'') (provider_slug p)"
  by (cases p; simp add: provider_slugs is_lower_def less_eq_char_def)+

lemma slug_inject: "provider_slug p = provider_slug q \<Longrightarrow> p = q"
  by (cases p; cases q; simp add: provider_slugs)

lemma slug_bytes: "0 \<notin> set (utf8_bytes (provider_slug p))"
  by (cases p; simp add: provider_slugs utf8_bytes_def utf8_char_def)

text \<open>The name an account is filed under is one every reader of an account accepts, the normalizer and the wire
  alike, and it is made from a message that determines the provider and the identity of the account.\<close>

theorem account_id_is_usable:
  "account_id_pattern (opaqueAccountId p material) \<and> revision_pattern (credentialRevision secret) \<and>
   (account_message p material = account_message q other \<longleftrightarrow> p = q \<and> material = other)"
proof (intro conjI)
  let ?h = "take 24 (node_sha256 (account_message p material))"
  have hex: "list_all (\<lambda>c. is_digit c \<or> CHR ''a'' \<le> c \<and> c \<le> CHR ''f'') ?h" "length ?h = 24"
    using node_sha256_hex [of "account_message p material"] by (auto simp: hex_text_def list_all_iff dest: in_set_takeD)
  then have tail: "list_all (\<lambda>x. is_lower x \<or> is_digit x \<or> x = CHR ''-'') ?h"
    by (auto simp: list_all_iff is_lower_def less_eq_char_def)
  obtain c cs where slug: "provider_slug p = c # cs" using provider_slug_text(1) by (cases "provider_slug p") auto
  then show "account_id_pattern (opaqueAccountId p material)"
    using provider_slug_text(2-4) [of p] hex(2) tail
    by (auto simp: opaqueAccountId_def account_id_pattern_def list_all_iff)
  show "revision_pattern (credentialRevision secret)"
    using node_sha256_hex [of "utf8_bytes secret"] by (simp add: credentialRevision_def hex_text_def revision_pattern_def)
  show "account_message p material = account_message q other \<longleftrightarrow> p = q \<and> material = other"
  proof
    assume eq: "account_message p material = account_message q other"
    have split: "takeWhile (\<lambda>b. b \<noteq> 0) (utf8_bytes (provider_slug p) @ 0 # bs) = utf8_bytes (provider_slug p)"
      "dropWhile (\<lambda>b. b \<noteq> 0) (utf8_bytes (provider_slug p) @ 0 # bs) = 0 # bs" for p bs
      using slug_bytes [of p] by (auto simp: takeWhile_append2 dropWhile_append2 takeWhile_append dropWhile_append)
    have "utf8_bytes (provider_slug p) = utf8_bytes (provider_slug q)" "0 # utf8_bytes material = 0 # utf8_bytes other"
      using eq split unfolding account_message_def by metis+
    then show "p = q \<and> material = other" using utf8_bytes_inject slug_inject unfolding utf8_bytes_def by blast
  qed simp
qed

section \<open>What a stored login may give\<close>

lemma first_some_in: "first_some f xs = Some y \<Longrightarrow> \<exists>x \<in> set xs. f x = Some y"
  by (induction xs) (auto split: option.splits)

lemma string_field_nonempty: "stringField v names = Some s \<Longrightarrow> s \<noteq> []"
  by (auto simp: stringField_def dest!: first_some_in split: js.splits if_splits)

definition live_credential :: "int \<Rightarrow> acquired_credential \<Rightarrow> bool" where
  "live_credential now c \<longleftrightarrow>
     ac_secret c \<noteq> [] \<and> (case ac_expiresAt c of Some t \<Rightarrow> of_int now < t | None \<Rightarrow> True) \<and> ac_origin c = VendorFile \<and>
     (ac_identityMaterial c = None \<or> ac_identityMaterial c \<noteq> ac_accountId c)"

lemma document_live:
  assumes "readCredentialDocument provider document now VendorFile hint = Inr c"
  shows "live_credential now c"
proof -
  obtain container secret where found: "stringField container (secret_fields provider) = Some secret"
    and c: "credential_from provider document now VendorFile hint container secret = Inr c"
    using assms by (auto simp: readCredentialDocument_def split: if_splits option.splits dest!: first_some_in)
  have secret: "secret \<noteq> []" by (rule string_field_nonempty [OF found])
  show ?thesis
    using c secret by (auto simp: credential_from_def Let_def live_credential_def split: if_splits option.splits)
qed

lemma candidates_live:
  assumes "read_candidates provider now docs firstFailure darwin = Inr c"
  shows "live_credential now c"
  using assms
proof (induction docs arbitrary: firstFailure)
  case (Cons d docs)
  then show ?case
    by (cases d) (auto simp: live_credential_def split: sum.splits if_splits dest!: document_live)
qed (simp split: option.splits)

lemma candidates_absent:
  "read_candidates provider now docs firstFailure darwin = Inl CredentialAbsent \<Longrightarrow>
   firstFailure \<noteq> Some CredentialAbsent \<Longrightarrow> firstFailure = None \<and> set docs \<subseteq> {CandidateMissing}"
proof (induction docs arbitrary: firstFailure)
  case (Cons d docs)
  show ?case
  proof (cases d)
    case CandidateMissing
    then show ?thesis using Cons by auto
  next
    case CandidateUnreadable
    then show ?thesis using Cons.IH [of "or_else firstFailure (Some CredentialUnreadable)"] Cons.prems by (cases firstFailure) auto
  next
    case (CandidateDocument directory document hint)
    have "readCredentialDocument provider document now VendorFile h \<noteq> Inl CredentialAbsent" for h
      by (auto simp: readCredentialDocument_def credential_from_def Let_def split: if_splits option.splits)
    then show ?thesis
      using Cons.IH Cons.prems CandidateDocument by (cases firstFailure) (auto split: sum.splits)
  qed
qed (auto split: option.splits if_splits)

text \<open>The search for a login. What it hands on has a secret, has not expired at the clock it was given and states an
  identity only where that says more than the account; \<open>absent\<close> is answered only when no candidate file exists.\<close>

theorem login_search:
  "case read_candidates provider now docs None darwin of
     Inr c \<Rightarrow> live_credential now c
   | Inl reason \<Rightarrow> reason = CredentialAbsent \<longrightarrow> set docs \<subseteq> {CandidateMissing}"
  using candidates_live [of provider now docs None darwin] candidates_absent [of provider now docs None darwin]
  by (auto split: sum.splits)

theorem login_search_witness:
  "live_credential 0 (sample_credential\<lparr>ac_accountId := None\<rparr>) \<and>
   (case read_candidates CLAUDE 0 [CandidateMissing] None False of
      Inr c \<Rightarrow> live_credential 0 c | Inl reason \<Rightarrow> reason = CredentialAbsent \<longrightarrow> set [CandidateMissing] \<subseteq> {CandidateMissing})"
  using login_search [where provider = CLAUDE and now = 0 and docs = "[CandidateMissing]" and darwin = False] by (simp add: live_credential_def sample_credential_def)

end
