(* ===== verification/Runner.thy ===== *)
theory Runner
  imports Requests Collection
begin

text \<open>
  One round of acquisition (acquire/runner.ts). The answers of everything outside the round are a \<open>world\<close>: what each
  reading of the credential gave, what the transport answered to each request, whether the shared lease was still owned,
  what the writer of a report said; every one of them may throw, and so may the steps, the parser and the names a spec
  brings and the stamp of the caller. Parsers, the clock and the writer are injected into the round by its caller, as in
  the source. The specs of acquire/providers.ts close the model.
\<close>

section \<open>Specs and worlds\<close>

fun outcome_sentence :: "acquisition_outcome \<Rightarrow> string" where
  "outcome_sentence AcqOk = ''read''"
| "outcome_sentence Unauthorized = ''the provider refused this login, open its own tool once to refresh it''"
| "outcome_sentence AcqRateLimited = ''the provider asked for fewer requests, so this one is waiting''"
| "outcome_sentence Blocked = ''the provider refused this client, so this one is waiting a day''"
| "outcome_sentence acquisition_outcome.RemoteError = ''the provider could not answer this time''"
| "outcome_sentence Transport = ''this machine could not reach the provider''"
| "outcome_sentence TooLarge = ''the provider'' @ [CHR 0x27] @ ''s answer was larger than this build accepts''"
| "outcome_sentence AcqDrift = ''the provider answered in a shape this build does not understand''"
| "outcome_sentence IdentityRefused = ''the provider serves this reading only to its own tools''"
| "outcome_sentence AcqQuotaUnavailable = ''Google ended Gemini CLI sign in for this plan on June 18, 2026.''"
| "outcome_sentence NotRunning =
     ''the provider'' @ [CHR 0x27] @ ''s app is not running on this machine, so nothing was read''"

text \<open>What was thrown: a system error has a code, an instance of \<open>Error\<close> a name.\<close>

datatype thrown = Thrown (thrown_code: "string option") (thrown_name: string)

type_synonym 'a attempted = "thrown + 'a"

fun thrown_of :: "js_error \<Rightarrow> thrown" where
  "thrown_of (RangeError m) = Thrown None ''RangeError''"
| "thrown_of (TypeError m) = Thrown None ''TypeError''"
| "thrown_of (Error m) = Thrown None ''Error''"

definition error_code :: "string \<Rightarrow> bool" where
  "error_code s =
     (case s of
        [] \<Rightarrow> False
      | c # cs \<Rightarrow> c = CHR ''E'' \<and> 1 \<le> length cs \<and> length cs \<le> 30 \<and>
          list_all (\<lambda>x. is_upper x \<or> is_digit x \<or> x = CHR ''_'') cs)"

definition error_name :: "string \<Rightarrow> bool" where
  "error_name s \<longleftrightarrow>
     6 \<le> length s \<and> length s \<le> 32 \<and> drop (length s - 5) s = ''Error'' \<and> is_upper (hd s) \<and>
     list_all (\<lambda>x. is_upper x \<or> is_lower x) s"

definition errorClassOf :: "thrown \<Rightarrow> string" where
  "errorClassOf e =
     (case thrown_code e of
        Some code \<Rightarrow> if error_code code then code else if error_name (thrown_name e) then thrown_name e else ''exception''
      | None \<Rightarrow> if error_name (thrown_name e) then thrown_name e else ''exception'')"

text \<open>Everything a spec brings may throw: its steps, its parser, the names it gives an account.\<close>

type_synonym runner_step = "acquired_credential \<Rightarrow> js list \<Rightarrow> step_result option attempted"

record acquisition_spec =
  sp_provider :: provider_code
  sp_steps :: "runner_step list"
  sp_optionalFrom :: "nat option"
  sp_parse :: "js \<Rightarrow> string \<Rightarrow> js list \<Rightarrow> js list option attempted"
  sp_complete :: "(js \<Rightarrow> string \<Rightarrow> bool attempted) option"
  sp_disclosure :: "string option"
  sp_enabled :: bool
  sp_disabledReason :: "string option"
  sp_accountIdFor :: "acquired_credential \<Rightarrow> string option attempted"
  sp_disclosureFor :: "acquired_credential \<Rightarrow> string option attempted"
  sp_accountLabelFor :: "acquired_credential \<Rightarrow> string option attempted"
  sp_outcomeSentence :: "acquisition_outcome \<Rightarrow> string option"

datatype acquisition_status = StatusRead | StatusStale | StatusWaiting | StatusNotDetected | StatusOff

record acquisition_row =
  ar_provider :: provider_code
  ar_accountId :: "string option"
  ar_detected :: bool
  ar_status :: acquisition_status
  ar_reason :: "string option"
  ar_nextAttemptAt :: "string option"
  ar_disclosure :: "string option"
  ar_availability :: "snapshot_availability option"
  ar_retryAt :: "string option"

record acquisition_reply =
  rep_status :: int
  rep_body :: string
  rep_retryAfter :: "jsnum option"
  rep_outcome :: "acquisition_outcome option"
  rep_missing :: bool

text \<open>One attempt: the instant before each step, whether the lease was owned then and when the answer came (always, when
  the round has no lease), and the answer, \<open>None\<close> for a transport that threw.\<close>

record attempt_world =
  aw_at :: "nat \<Rightarrow> int"
  aw_ownedBefore :: "nat \<Rightarrow> bool attempted"
  aw_ownedAfter :: "nat \<Rightarrow> bool attempted"
  aw_answer :: "nat \<Rightarrow> acquisition_request \<Rightarrow> acquisition_reply option"

type_synonym credential_answer = "credential_result attempted"

record read_world =
  rw_revision :: credential_answer
  rw_credential :: credential_answer
  rw_reread :: credential_answer
  rw_first :: attempt_world
  rw_second :: attempt_world
  rw_attemptedAt :: "string attempted"

record run_options =
  op_now :: string
  op_httpDate :: "string \<Rightarrow> ms"
  op_stamp :: "js list \<Rightarrow> acquired_credential \<Rightarrow> js list attempted"

definition in_phase :: "acquisition_phase \<Rightarrow> 'a attempted \<Rightarrow> (acquisition_phase \<times> thrown) + 'a" where
  "in_phase phase r = map_sum (Pair phase) id r"

definition and_next :: "'e + 'a \<Rightarrow> ('a \<Rightarrow> 'e + 'b) \<Rightarrow> 'e + 'b" where
  "and_next r f = (case r of Inl e \<Rightarrow> Inl e | Inr x \<Rightarrow> f x)"

section \<open>One attempt\<close>

definition claimed_expiry :: "string \<Rightarrow> rat option" where
  "claimed_expiry secret =
     (case split_on CHR ''.'' secret of
        _ # part # _ \<Rightarrow>
          if part = [] then None
          else (case JSON_parse (base64url_text part) of
                  Some payload \<Rightarrow> (case prop_of payload ''exp'' of Num (Fin r) \<Rightarrow> Some (r * 1000) | _ \<Rightarrow> None)
                | None \<Rightarrow> None)
      | _ \<Rightarrow> None)"

definition passed :: "rat option \<Rightarrow> ms \<Rightarrow> bool" where
  "passed expiry now = (case (expiry, now) of (Some t, Some n) \<Rightarrow> t \<le> of_int n | _ \<Rightarrow> False)"

definition credentialExpired :: "acquired_credential \<Rightarrow> ms \<Rightarrow> bool" where
  "credentialExpired credential now \<longleftrightarrow>
     passed (ac_expiresAt credential) now \<or> passed (claimed_expiry (ac_secret credential)) now"

record attempt_result =
  tr_outcome :: acquisition_outcome
  tr_meters :: "js list"
  tr_retryAfter :: "jsnum option"
  tr_complete :: "bool option"
  tr_phase :: "acquisition_phase option"
  tr_expired :: bool
  tr_missing :: bool

definition failed_attempt :: "acquisition_outcome \<Rightarrow> jsnum option \<Rightarrow> acquisition_phase \<Rightarrow> attempt_result" where
  "failed_attempt outcome retryAfter phase =
     \<lparr>tr_outcome = outcome, tr_meters = [], tr_retryAfter = retryAfter, tr_complete = None, tr_phase = Some phase,
      tr_expired = False, tr_missing = False\<rparr>"

definition expired_attempt :: attempt_result where
  "expired_attempt = (failed_attempt Unauthorized None RequestPhase)\<lparr>tr_phase := None, tr_expired := True\<rparr>"

definition missing_attempt :: attempt_result where
  "missing_attempt = (failed_attempt Transport None RequestPhase)\<lparr>tr_missing := True\<rparr>"

text \<open>The parser's turn: a throw, no answer and an empty answer are that provider's drift.\<close>

definition parse_bodies :: "acquisition_spec \<Rightarrow> string \<Rightarrow> js list \<Rightarrow> jsnum option \<Rightarrow> attempt_result" where
  "parse_bodies spec now previous retryAfter =
     (let payload = (if previous = [] then Undefined else last previous);
          drift = failed_attempt AcqDrift retryAfter ParsePhase
      in case sp_parse spec payload now previous of
           Inl _ \<Rightarrow> drift
         | Inr meters \<Rightarrow>
             (case (case sp_complete spec of None \<Rightarrow> Inr None | Some f \<Rightarrow> map_sum id Some (f payload now)) of
                Inl _ \<Rightarrow> drift
              | Inr wholeSet \<Rightarrow>
                  (case meters of
                     None \<Rightarrow> drift
                   | Some [] \<Rightarrow> drift
                   | Some (m # ms) \<Rightarrow>
                       \<lparr>tr_outcome = AcqOk, tr_meters = m # ms, tr_retryAfter = retryAfter, tr_complete = wholeSet,
                        tr_phase = None, tr_expired = False, tr_missing = False\<rparr>)))"

definition reply_outcome :: "acquisition_reply \<Rightarrow> acquisition_outcome" where
  "reply_outcome reply = (case rep_outcome reply of Some outcome \<Rightarrow> outcome | None \<Rightarrow> outcomeForStatus (rep_status reply))"

definition bad_reply :: "acquisition_reply \<Rightarrow> bool" where
  "bad_reply reply \<longleftrightarrow> rep_missing reply \<or> rep_status reply = 0 \<or> reply_outcome reply \<noteq> AcqOk"

definition refused_reply :: "acquisition_reply \<Rightarrow> attempt_result" where
  "refused_reply reply =
     (if rep_missing reply then missing_attempt
      else if rep_status reply = 0 then failed_attempt TooLarge (rep_retryAfter reply) RequestPhase
      else failed_attempt (reply_outcome reply) (rep_retryAfter reply) RequestPhase)"

fun attempt_steps ::
    "acquisition_spec \<Rightarrow> acquired_credential \<Rightarrow> attempt_world \<Rightarrow> string \<Rightarrow> runner_step list \<Rightarrow> nat \<Rightarrow> js list \<Rightarrow>
     jsnum option \<Rightarrow> attempt_result attempted" where
  "attempt_steps spec credential world now [] index previous retryAfter = Inr (parse_bodies spec now previous retryAfter)"
| "attempt_steps spec credential world now (step # steps) index previous retryAfter =
     (let optional = (previous \<noteq> [] \<and> (case sp_optionalFrom spec of Some k \<Rightarrow> k \<le> index | None \<Rightarrow> False));
          enough = Inr (parse_bodies spec now previous retryAfter)
      in if credentialExpired credential (Some (aw_at world index)) then Inr expired_attempt
         else case aw_ownedBefore world index of
           Inl e \<Rightarrow> Inl e
         | Inr False \<Rightarrow> Inr (failed_attempt Transport None RequestPhase)
         | Inr True \<Rightarrow>
             (case step credential previous of
                Inl e \<Rightarrow> Inl e
              | Inr None \<Rightarrow> if optional then enough else Inr (failed_attempt AcqDrift None RequestPhase)
              | Inr (Some (StopWith outcome)) \<Rightarrow> if optional then enough else Inr (failed_attempt outcome retryAfter RequestPhase)
              | Inr (Some (AskFor request)) \<Rightarrow>
                  (case aw_answer world index request of
                     None \<Rightarrow> if optional then enough else Inr (failed_attempt Transport None RequestPhase)
                   | Some reply \<Rightarrow>
                       (case aw_ownedAfter world index of
                          Inl e \<Rightarrow> Inl e
                        | Inr False \<Rightarrow> Inr (failed_attempt Transport None RequestPhase)
                        | Inr True \<Rightarrow>
                            if bad_reply reply then (if optional then enough else Inr (refused_reply reply))
                            else case JSON_parse (rep_body reply) of
                              None \<Rightarrow> if optional then enough
                                else Inr (failed_attempt AcqDrift (rep_retryAfter reply) ParsePhase)
                            | Some body \<Rightarrow>
                                attempt_steps spec credential world now steps (index + 1) (previous @ [body]) (rep_retryAfter reply)))))"

definition attempt :: "acquisition_spec \<Rightarrow> acquired_credential \<Rightarrow> attempt_world \<Rightarrow> string \<Rightarrow> attempt_result attempted" where
  "attempt spec credential world now = attempt_steps spec credential world now (sp_steps spec) 0 [] None"

section \<open>One provider\<close>

definition refused :: "acquisition_outcome \<Rightarrow> bool" where
  "refused outcome \<longleftrightarrow> outcome \<in> {Unauthorized, Blocked, IdentityRefused, AcqQuotaUnavailable}"

definition outcomeAvailability :: "acquisition_outcome \<Rightarrow> snapshot_availability option" where
  "outcomeAvailability outcome =
     (if outcome = AcqQuotaUnavailable then Some QuotaUnavailable else if outcome = Unauthorized then Some ExpiredCredentials
      else if outcome = Blocked \<or> outcome = IdentityRefused then Some AccessDenied else None)"

record one_read =
  or_row :: acquisition_row
  or_entry :: "schedule_entry option"
  or_report :: "collection_report option"

definition plain_row :: "acquisition_spec \<Rightarrow> acquisition_status \<Rightarrow> bool \<Rightarrow> string option \<Rightarrow> acquisition_row" where
  "plain_row spec shown detected reason =
     \<lparr>ar_provider = sp_provider spec, ar_accountId = None, ar_detected = detected, ar_status = shown, ar_reason = reason,
      ar_nextAttemptAt = None, ar_disclosure = sp_disclosure spec, ar_availability = None, ar_retryAt = None\<rparr>"

text \<open>What a reading is filed under, decided by the login that was sent: the account, its name for people, the sentence of
  the row.\<close>

record read_names =
  nm_account :: string
  nm_label :: "string option"
  nm_disclosure :: "string option"

definition sent_account :: "acquisition_spec \<Rightarrow> acquired_credential \<Rightarrow> string attempted" where
  "sent_account spec sent =
     map_sum id (\<lambda>named. case named of Some a \<Rightarrow> a | None \<Rightarrow> acquisitionAccountId (sp_provider spec) sent) (sp_accountIdFor spec sent)"

definition sent_names :: "acquisition_spec \<Rightarrow> acquired_credential \<Rightarrow> read_names attempted" where
  "sent_names spec sent =
     and_next (sent_account spec sent) (\<lambda>account.
     and_next (sp_accountLabelFor spec sent) (\<lambda>label.
     and_next (sp_disclosureFor spec sent) (\<lambda>disclosed.
       Inr \<lparr>nm_account = account, nm_label = label, nm_disclosure = or_else disclosed (sp_disclosure spec)\<rparr>)))"

text \<open>Every meter carries the account of the login it was read with.\<close>

definition with_account :: "string \<Rightarrow> string option \<Rightarrow> js \<Rightarrow> js" where
  "with_account accountId label meter =
     (case meter of
        Obj ps \<Rightarrow>
          Obj ((case label of None \<Rightarrow> id | Some l \<Rightarrow> AList.update ''accountLabel'' (Str l)) (AList.update ''accountId'' (Str accountId) ps))
      | _ \<Rightarrow> meter)"

definition read_rows :: "run_options \<Rightarrow> read_names \<Rightarrow> acquired_credential \<Rightarrow> attempt_result \<Rightarrow> snapshot list attempted" where
  "read_rows options names sent result =
     (if tr_outcome result = AcqOk
      then map_sum id (\<lambda>meters. normalizeMeters (map (with_account (nm_account names) (nm_label names)) meters))
             (op_stamp options (tr_meters result) sent)
      else Inr [])"

definition failure_entry ::
    "run_options \<Rightarrow> int \<Rightarrow> string option \<Rightarrow> string option \<Rightarrow> acquisition_outcome \<Rightarrow> acquisition_phase \<Rightarrow> schedule_entry" where
  "failure_entry options attempts revision nextAttemptAt outcome phase =
     \<lparr>se_refusalRevision = revision, se_attempts = Some attempts, se_lastAttemptAt = op_now options,
      se_nextAttemptAt = (case nextAttemptAt of Some t \<Rightarrow> t | None \<Rightarrow> op_now options), se_outcome = outcome,
      se_phase = Some phase, se_errorClass = Some (outcome_str outcome)\<rparr>"

definition believed_read ::
    "run_options \<Rightarrow> acquisition_spec \<Rightarrow> read_names \<Rightarrow> attempt_result \<Rightarrow> snapshot list \<Rightarrow> string option \<Rightarrow> one_read" where
  "believed_read options spec names result snapshots nextAttemptAt =
     \<lparr>or_row = (plain_row spec StatusRead True None)
        \<lparr>ar_accountId := Some (nm_account names), ar_nextAttemptAt := nextAttemptAt, ar_disclosure := nm_disclosure names\<rparr>,
      or_entry = Some \<lparr>se_refusalRevision = None, se_attempts = Some 0, se_lastAttemptAt = op_now options,
        se_nextAttemptAt = (case nextAttemptAt of Some t \<Rightarrow> t | None \<Rightarrow> op_now options), se_outcome = AcqOk,
        se_phase = None, se_errorClass = None\<rparr>,
      or_report = Some (ReportOk (sp_provider spec) (Some (nm_account names)) (op_now options) snapshots (tr_complete result))\<rparr>"

definition failed_availability ::
    "acquisition_spec \<Rightarrow> acquisition_outcome \<Rightarrow> string option \<Rightarrow> snapshot_availability option \<times> string option" where
  "failed_availability spec outcome nextAttemptAt =
     (if outcome = AcqRateLimited \<and> nextAttemptAt \<noteq> None then (Some RateLimited, nextAttemptAt)
      else if sp_provider spec = CLAUDE \<and> outcome = AcqDrift then (Some SchemaDrift, None)
      else (outcomeAvailability outcome, None))"

definition failed_read ::
    "run_options \<Rightarrow> acquisition_spec \<Rightarrow> read_names \<Rightarrow> acquired_credential \<Rightarrow> attempt_result \<Rightarrow> int \<Rightarrow> string option \<Rightarrow> one_read" where
  "failed_read options spec names sent result attempts nextAttemptAt =
     (let outcome = (if tr_outcome result = AcqOk then AcqDrift else tr_outcome result);
          phase = (if tr_outcome result = AcqOk then ParsePhase else case tr_phase result of Some p \<Rightarrow> p | None \<Rightarrow> RequestPhase);
          (availability, retryAt) = failed_availability spec outcome nextAttemptAt
      in \<lparr>or_row = (plain_row spec StatusStale True
            (Some (case sp_outcomeSentence spec outcome of Some s \<Rightarrow> s | None \<Rightarrow> outcome_sentence outcome)))
            \<lparr>ar_accountId := Some (nm_account names), ar_nextAttemptAt := nextAttemptAt, ar_disclosure := nm_disclosure names,
             ar_availability := availability, ar_retryAt := retryAt\<rparr>,
          or_entry = Some (failure_entry options (attempts + 1)
            (if refused outcome then Some (credentialRevision (ac_secret sent)) else None) nextAttemptAt outcome phase),
          or_report = None\<rparr>)"

definition prior_attempts :: "schedule_entry option \<Rightarrow> int option \<Rightarrow> int" where
  "prior_attempts existing leaseAttempts =
     (case Option.bind existing se_attempts of Some n \<Rightarrow> n | None \<Rightarrow> (case leaseAttempts of Some n \<Rightarrow> n | None \<Rightarrow> 0))"

definition conclude ::
    "run_options \<Rightarrow> read_world \<Rightarrow> acquisition_spec \<Rightarrow> int \<Rightarrow> acquired_credential \<Rightarrow> attempt_result \<Rightarrow>
     (acquisition_phase \<times> thrown) + one_read" where
  "conclude options world spec attempts sent result =
     and_next (in_phase RequestPhase (sent_names spec sent)) (\<lambda>names.
       if tr_missing result then
         Inr \<lparr>or_row = (plain_row spec StatusNotDetected False (Some (failure_sentence CredentialAbsent)))
                \<lparr>ar_disclosure := nm_disclosure names\<rparr>, or_entry = None, or_report = None\<rparr>
       else if tr_expired result then
         Inr \<lparr>or_row = (plain_row spec StatusStale True (Some (failure_sentence CredentialExpired)))
                \<lparr>ar_accountId := Some (acquisitionAccountId (sp_provider spec) sent), ar_disclosure := nm_disclosure names,
                 ar_availability := Some ExpiredCredentials\<rparr>, or_entry = None, or_report = None\<rparr>
       else
         and_next (in_phase RequestPhase (read_rows options names sent result)) (\<lambda>snapshots.
         let believed = (tr_outcome result = AcqOk \<and> snapshots \<noteq> [])
         in and_next (in_phase RequestPhase (rw_attemptedAt world)) (\<lambda>attemptedAt.
            and_next (in_phase RequestPhase (map_sum thrown_of id
                (if believed then nextSuccessInstant (op_httpDate options) (sp_provider spec) attemptedAt (map sn_resetAt snapshots)
                 else nextAttemptInstant (op_httpDate options) (tr_outcome result) attemptedAt (tr_retryAfter result) attempts)))
              (\<lambda>nextAttemptAt.
                Inr (if believed then believed_read options spec names result snapshots nextAttemptAt
                     else failed_read options spec names sent result attempts nextAttemptAt)))))"

text \<open>A 401 can race the vendor's own refresh: when the store now holds another, unexpired login it is asked once more.\<close>

definition reread_allowed :: "attempt_result \<Rightarrow> bool" where
  "reread_allowed result \<longleftrightarrow>
     tr_outcome result = Unauthorized \<and> \<not> tr_expired result \<and> \<not> tr_missing result"

definition take_reread :: "run_options \<Rightarrow> acquired_credential \<Rightarrow> credential_result \<Rightarrow> acquired_credential option" where
  "take_reread options sent reread =
     (case reread of
        Inr c \<Rightarrow> if ac_secret c \<noteq> ac_secret sent \<and> \<not> credentialExpired c (dateParse (op_now options)) then Some c else None
      | Inl _ \<Rightarrow> None)"

definition ask_provider ::
    "run_options \<Rightarrow> read_world \<Rightarrow> acquisition_spec \<Rightarrow> acquired_credential \<Rightarrow>
     (acquisition_phase \<times> thrown) + acquired_credential \<times> attempt_result" where
  "ask_provider options world spec held =
     and_next (in_phase RequestPhase (attempt spec held (rw_first world) (op_now options))) (\<lambda>result.
       if \<not> reread_allowed result then Inr (held, result)
       else and_next (in_phase CredentialPhase (rw_reread world)) (\<lambda>reread.
         case take_reread options held reread of
           None \<Rightarrow> Inr (held, result)
         | Some sent \<Rightarrow>
             and_next (in_phase RequestPhase (attempt spec sent (rw_second world) (op_now options))) (\<lambda>again. Inr (sent, again))))"

definition read_due ::
    "run_options \<Rightarrow> read_world \<Rightarrow> acquisition_spec \<Rightarrow> int \<Rightarrow> (acquisition_phase \<times> thrown) + one_read" where
  "read_due options world spec attempts =
     and_next (in_phase CredentialPhase (rw_credential world)) (\<lambda>credential.
       case credential of
         Inl reason \<Rightarrow>
           Inr \<lparr>or_row = (plain_row spec (if reason = CredentialAbsent then StatusNotDetected else StatusStale)
                  (reason \<noteq> CredentialAbsent) (Some (failure_sentence reason)))
                  \<lparr>ar_availability := (if reason = CredentialExpired then Some ExpiredCredentials else None)\<rparr>,
                or_entry = None, or_report = None\<rparr>
       | Inr held \<Rightarrow>
           if credentialExpired held (dateParse (op_now options)) then
             Inr \<lparr>or_row = (plain_row spec StatusStale True (Some (failure_sentence CredentialExpired)))
                    \<lparr>ar_accountId := Some (acquisitionAccountId (sp_provider spec) held), ar_availability := Some ExpiredCredentials\<rparr>,
                  or_entry = None, or_report = None\<rparr>
           else and_next (ask_provider options world spec held) (\<lambda>(sent, result). conclude options world spec attempts sent result))"

definition revision_of :: "credential_result \<Rightarrow> string option" where
  "revision_of credential = (case credential of Inr c \<Rightarrow> Some (credentialRevision (ac_secret c)) | Inl _ \<Rightarrow> None)"

definition recorded_refusal :: "schedule_entry option \<Rightarrow> string option" where
  "recorded_refusal existing = Option.bind existing (\<lambda>e. if refused (se_outcome e) then se_refusalRevision e else None)"

text \<open>Only a recorded refusal has the store looked at before its time: another login than the refused one is asked now.\<close>

definition refusal_changed :: "read_world \<Rightarrow> schedule_entry option \<Rightarrow> (acquisition_phase \<times> thrown) + bool" where
  "refusal_changed world existing =
     (case recorded_refusal existing of
        None \<Rightarrow> Inr False
      | Some recorded \<Rightarrow>
          map_sum id (\<lambda>credential. revision_of credential \<noteq> None \<and> revision_of credential \<noteq> Some recorded)
            (in_phase CredentialPhase (rw_revision world)))"

definition off_read :: "acquisition_spec \<Rightarrow> schedule_entry option \<Rightarrow> one_read" where
  "off_read spec existing =
     \<lparr>or_row = plain_row spec StatusOff False
        (Some (case sp_disabledReason spec of Some r \<Rightarrow> r | None \<Rightarrow> ''this provider'' @ [CHR 0x27] @ ''s poll is off'')),
      or_entry = existing, or_report = None\<rparr>"

definition not_due_read :: "acquisition_spec \<Rightarrow> schedule_entry option \<Rightarrow> one_read" where
  "not_due_read spec existing =
     \<lparr>or_row = (plain_row spec StatusWaiting True (map_option (outcome_sentence \<circ> se_outcome) existing))
        \<lparr>ar_nextAttemptAt := map_option se_nextAttemptAt existing,
         ar_availability := Option.bind existing (outcomeAvailability \<circ> se_outcome)\<rparr>,
      or_entry = existing, or_report = None\<rparr>"

definition readOne ::
    "run_options \<Rightarrow> read_world \<Rightarrow> acquisition_spec \<Rightarrow> schedule_entry option \<Rightarrow> int option \<Rightarrow>
     (acquisition_phase \<times> thrown) + one_read" where
  "readOne options world spec existing leaseAttempts =
     (if \<not> sp_enabled spec then Inr (off_read spec existing)
      else and_next (refusal_changed world existing) (\<lambda>changed.
        if \<not> isProviderDue existing (op_now options) \<and> \<not> changed then Inr (not_due_read spec existing)
        else read_due options world spec (prior_attempts existing leaseAttempts)))"

section \<open>A round\<close>

text \<open>The turn of one provider: the lease it asked for (it threw, another process has it, or the attempts it carries), the
  instant of the inner round, whether the lease was lost before the result is kept and when something threw, and what
  completing the lease, writing the report and flagging the cache gave.\<close>

record provider_world =
  pw_lease :: "int option attempted"
  pw_read :: read_world
  pw_now :: string
  pw_lostBeforeKeeping :: bool
  pw_lostOnThrow :: bool
  pw_complete :: "unit attempted"
  pw_persist :: "unit attempted option"
  pw_record :: "unit attempted"
  pw_failedAt :: string
  pw_innerFailedAt :: string

record round_state =
  rs_rows :: "acquisition_row list"
  rs_reports :: "collection_report list"
  rs_schedule :: acquisition_schedule

definition entry_of :: "acquisition_spec \<Rightarrow> acquisition_schedule \<Rightarrow> schedule_entry option" where
  "entry_of spec table = map_of table (provider_str (sp_provider spec))"

definition put_entry :: "acquisition_spec \<Rightarrow> schedule_entry option \<Rightarrow> acquisition_schedule \<Rightarrow> acquisition_schedule" where
  "put_entry spec entry table =
     (case entry of
        Some e \<Rightarrow> AList.update (provider_str (sp_provider spec)) e table
      | None \<Rightarrow> AList.delete (provider_str (sp_provider spec)) table)"

definition waiting_row :: "acquisition_spec \<Rightarrow> acquisition_row" where
  "waiting_row spec =
     plain_row spec StatusWaiting True (Some ''another acquisition owns this provider or its retry deadline is pending'')"

text \<open>The last line of defence: a throw is that provider's drift. The next instant of a drift is computed without a throw
  (\<open>drift_instant_total\<close>), so the branch \<open>Inl\<close> of its result is never taken.\<close>

lemma drift_instant_total: "\<exists>instant. nextAttemptInstant httpDate AcqDrift failedAt None 0 = Inr instant"
  using nextAttemptInstant_eq by (cases "dateParse failedAt") (auto simp: nextAttemptInstant_def)

definition drift_read :: "run_options \<Rightarrow> acquisition_spec \<Rightarrow> string \<Rightarrow> acquisition_phase \<Rightarrow> thrown \<Rightarrow> one_read" where
  "drift_read options spec failedAt phase e =
     \<lparr>or_row = plain_row spec StatusStale True (Some (outcome_sentence AcqDrift)),
      or_entry = Some \<lparr>se_refusalRevision = None, se_attempts = None, se_lastAttemptAt = failedAt,
        se_nextAttemptAt =
          (case nextAttemptInstant (op_httpDate options) AcqDrift failedAt None 0 of Inr (Some t) \<Rightarrow> t | _ \<Rightarrow> failedAt),
        se_outcome = AcqDrift, se_phase = Some phase, se_errorClass = Some (errorClassOf e)\<rparr>,
      or_report = None\<rparr>"

definition settle :: "run_options \<Rightarrow> acquisition_spec \<Rightarrow> string \<Rightarrow> (acquisition_phase \<times> thrown) + one_read \<Rightarrow> one_read" where
  "settle options spec failedAt r = (case r of Inl (phase, e) \<Rightarrow> drift_read options spec failedAt phase e | Inr x \<Rightarrow> x)"

definition keep_read :: "acquisition_spec \<Rightarrow> one_read \<Rightarrow> round_state \<Rightarrow> round_state" where
  "keep_read spec r st =
     \<lparr>rs_rows = rs_rows st @ [or_row r],
      rs_reports = rs_reports st @ (case or_report r of None \<Rightarrow> [] | Some report \<Rightarrow> [report]),
      rs_schedule = put_entry spec (or_entry r) (rs_schedule st)\<rparr>"

text \<open>A report is written with the freshness of the policy; without a writer nothing happens.\<close>

fun those_results :: "'a result list \<Rightarrow> 'a list result" where
  "those_results [] = Inr []"
| "those_results (r # rs) = rbind r (\<lambda>x. map_sum id (Cons x) (those_results rs))"

fun withFreshness :: "collection_report \<Rightarrow> collection_report result" where
  "withFreshness (ReportOk p a t rows wholeSet) =
     map_sum id (\<lambda>rows. ReportOk p a t rows wholeSet) (those_results (map withPolicyFreshness rows))"
| "withFreshness report = Inr report"

definition write_report :: "one_read \<Rightarrow> unit attempted option \<Rightarrow> unit attempted" where
  "write_report r persist =
     (case (or_report r, persist) of
        (Some report, Some written) \<Rightarrow> and_next (map_sum thrown_of id (withFreshness report)) (\<lambda>_. written)
      | _ \<Rightarrow> Inr ())"

definition flag_cache :: "one_read \<Rightarrow> unit attempted \<Rightarrow> unit attempted" where
  "flag_cache r recorded = (if ar_availability (or_row r) = None then Inr () else recorded)"

definition on_throw ::
    "run_options \<Rightarrow> provider_world \<Rightarrow> acquisition_spec \<Rightarrow> bool \<Rightarrow> acquisition_phase \<Rightarrow> thrown \<Rightarrow> round_state \<Rightarrow> round_state" where
  "on_throw options world spec leased phase e st =
     (if leased \<and> pw_lostOnThrow world then st\<lparr>rs_rows := rs_rows st @ [waiting_row spec]\<rparr>
      else keep_read spec (drift_read options spec (pw_failedAt world) phase e) st)"

text \<open>The report of an inner round leaves it with the freshness of the policy.\<close>

definition inner_read :: "one_read \<Rightarrow> one_read attempted" where
  "inner_read r =
     (case or_report r of
        None \<Rightarrow> Inr r
      | Some report \<Rightarrow> map_sum thrown_of (\<lambda>report. r\<lparr>or_report := Some report\<rparr>) (withFreshness report))"

definition lease_entry :: "int \<Rightarrow> schedule_entry \<Rightarrow> schedule_entry" where
  "lease_entry attempts e = e\<lparr>se_attempts := Some (max (case se_attempts e of Some n \<Rightarrow> n | None \<Rightarrow> 0) attempts)\<rparr>"

text \<open>The order of the turn with a state directory: lease, read, still ours, complete, keep, write, flag.\<close>

definition shared_turn :: "run_options \<Rightarrow> provider_world \<Rightarrow> acquisition_spec \<Rightarrow> round_state \<Rightarrow> round_state" where
  "shared_turn options world spec st =
     (case pw_lease world of
        Inl e \<Rightarrow> on_throw options world spec False LeasePhase e st
      | Inr None \<Rightarrow> st\<lparr>rs_rows := rs_rows st @ [waiting_row spec]\<rparr>
      | Inr (Some attempts) \<Rightarrow>
          (let existing = map_option (lease_entry attempts) (entry_of spec (rs_schedule st));
               inner = options\<lparr>op_now := pw_now world\<rparr>
           in case inner_read (settle inner spec (pw_innerFailedAt world) (readOne inner (pw_read world) spec existing (Some attempts))) of
             Inl e \<Rightarrow> on_throw options world spec True LeasePhase e st
           | Inr r \<Rightarrow>
               if pw_lostBeforeKeeping world then st\<lparr>rs_rows := rs_rows st @ [waiting_row spec]\<rparr>
               else case (if or_entry r = None then Inr () else pw_complete world) of
                 Inl e \<Rightarrow> on_throw options world spec True PersistPhase e st
               | Inr _ \<Rightarrow>
                   (case and_next (write_report r (pw_persist world)) (\<lambda>_. flag_cache r (pw_record world)) of
                      Inl e \<Rightarrow> on_throw options world spec True PersistPhase e (keep_read spec r st)
                    | Inr _ \<Rightarrow> keep_read spec r st)))"

definition local_turn :: "run_options \<Rightarrow> provider_world \<Rightarrow> acquisition_spec \<Rightarrow> round_state \<Rightarrow> round_state" where
  "local_turn options world spec st =
     (case readOne options (pw_read world) spec (entry_of spec (rs_schedule st)) None of
        Inl (phase, e) \<Rightarrow> on_throw options world spec False phase e st
      | Inr r \<Rightarrow>
          (case write_report r (pw_persist world) of
             Inl e \<Rightarrow> on_throw options world spec False RequestPhase e (keep_read spec r st)
           | Inr _ \<Rightarrow> keep_read spec r st))"

definition provider_turn :: "run_options \<Rightarrow> bool \<Rightarrow> provider_world \<Rightarrow> acquisition_spec \<Rightarrow> round_state \<Rightarrow> round_state" where
  "provider_turn options stateDirectory world spec st =
     (if stateDirectory \<and> sp_enabled spec then shared_turn options world spec st else local_turn options world spec st)"

definition runAcquisition ::
    "run_options \<Rightarrow> bool \<Rightarrow> (acquisition_spec \<times> provider_world) list \<Rightarrow> acquisition_schedule \<Rightarrow> round_state attempted" where
  "runAcquisition options stateDirectory turns table =
     (let st = foldl (\<lambda>st (spec, world). provider_turn options stateDirectory world spec st)
                 \<lparr>rs_rows = [], rs_reports = [], rs_schedule = table\<rparr> turns
      in map_sum thrown_of (\<lambda>reports. st\<lparr>rs_reports := reports\<rparr>) (those_results (map withFreshness (rs_reports st))))"

section \<open>The specs of the providers (acquire/providers.ts)\<close>

text \<open>What the row of a provider discloses about how it is read.\<close>

fun disclosure_text :: "provider_code \<Rightarrow> string option" where
  "disclosure_text CLAUDE = Some ''polls Anthropic with the token Claude Code stored on this machine, only once you turn it on''"
| "disclosure_text CODEX = Some ''reads the login the Codex CLI stored, may break when OpenAI changes it''"
| "disclosure_text GEMINI_CLI = Some ''reads the login the Gemini CLI stored, may break when Google changes it''"
| "disclosure_text GROK =
     Some (''reads the login the Grok CLI stored, without the client marker xAI'' @ [CHR 0x27] @
       ''s own tool sends, so this request is verified on the first install that has a Grok login'')"
| "disclosure_text KIMI = Some ''reads the login the Kimi CLI stored, may break when Moonshot changes it''"
| "disclosure_text OPENROUTER = Some (''reads OpenRouter'' @ [CHR 0x27] @ ''s documented key report with your own key'')"
| "disclosure_text CURSOR = Some ''Experimental: parser tested on fixtures; live acquisition unverified''"
| "disclosure_text _ = None"

declare disclosure_text.simps [simp del]

type_synonym payload_parser = "js \<Rightarrow> string \<Rightarrow> js list \<Rightarrow> js list option attempted"

definition provider_spec :: "provider_code \<Rightarrow> payload_parser \<Rightarrow> acquisition_spec" where
  "provider_spec provider parse =
     \<lparr>sp_provider = provider, sp_steps = map (\<lambda>step credential previous. Inr (step credential previous)) (provider_steps provider), sp_optionalFrom = optional_from provider, sp_parse = parse,
      sp_complete = None, sp_disclosure = disclosure_text provider, sp_enabled = True, sp_disabledReason = None,
      sp_accountIdFor = (\<lambda>_. Inr None), sp_disclosureFor = (\<lambda>_. Inr None), sp_accountLabelFor = (\<lambda>_. Inr None),
      sp_outcomeSentence = (\<lambda>_. None)\<rparr>"

definition claudeSpec :: "payload_parser \<Rightarrow> bool \<Rightarrow> (js \<Rightarrow> string \<Rightarrow> bool attempted) option \<Rightarrow> acquisition_spec" where
  "claudeSpec parse enabled wholeSet =
     (provider_spec CLAUDE parse)\<lparr>sp_complete := wholeSet, sp_enabled := enabled,
       sp_disabledReason := Some ''the Anthropic poll is off, so this shows what Claude Code last reported''\<rparr>"

definition codexSpec :: "payload_parser \<Rightarrow> acquisition_spec" where
  "codexSpec parse = provider_spec CODEX parse"

definition cursorAccountId :: "string \<Rightarrow> string" where
  "cursorAccountId authId = opaqueAccountId CURSOR authId"

definition cursorSpec :: "payload_parser \<Rightarrow> acquisition_spec" where
  "cursorSpec parse =
     (provider_spec CURSOR parse)\<lparr>sp_accountIdFor := (\<lambda>credential. Inr (map_option cursorAccountId (ac_accountId credential)))\<rparr>"

definition codeAssistSentences :: "acquisition_outcome \<Rightarrow> string option" where
  "codeAssistSentences outcome =
     (if outcome = IdentityRefused
      then Some ''Google answers this quota only to its own tools, so it is read here only when another tool on this machine has written it''
      else if outcome = AcqQuotaUnavailable then Some ''Google ended Gemini CLI sign in for this plan on June 18, 2026.''
      else None)"

definition geminiCliSpec :: "payload_parser \<Rightarrow> acquisition_spec" where
  "geminiCliSpec parse = (provider_spec GEMINI_CLI parse)\<lparr>sp_outcomeSentence := codeAssistSentences\<rparr>"

definition grokSpec :: "payload_parser \<Rightarrow> acquisition_spec" where
  "grokSpec parse = provider_spec GROK parse"

definition kimiSpec :: "payload_parser \<Rightarrow> acquisition_spec" where
  "kimiSpec parse = provider_spec KIMI parse"

definition openrouterSpec :: "payload_parser \<Rightarrow> acquisition_spec" where
  "openrouterSpec parse = provider_spec OPENROUTER parse"

declare failure_sentence.simps [simp del] outcome_sentence.simps [simp del]

section \<open>What a read publishes\<close>

lemma and_next_Inr: "and_next r f = Inr y \<longleftrightarrow> (\<exists>x. r = Inr x \<and> f x = Inr y)"
  by (cases r) (simp_all add: and_next_def)

lemma map_sum_eq_Inr: "map_sum f g x = Inr y \<longleftrightarrow> (\<exists>z. x = Inr z \<and> g z = y)"
  by (cases x) simp_all

lemma in_phase_Inr [simp]: "in_phase phase r = Inr x \<longleftrightarrow> r = Inr x"
  by (cases r) (simp_all add: in_phase_def)

lemma read_rows_good:
  assumes "read_rows options names sent result = Inr rows" and "row \<in> set rows"
  shows "wf_snapshot row \<and> sn_accountId row = Some (nm_account names)"
proof -
  obtain meter where meter: "normalizeMeter (with_account (nm_account names) (nm_label names) meter) = Some row"
    using assms by (auto simp: read_rows_def set_normalizeMeters map_sum_eq_Inr split: if_splits)
  obtain ps where ps: "meter = Obj ps"
    using normalizeMeterD(1) [OF meter] by (cases meter) (simp_all add: with_account_def)
  have "prop_of (with_account (nm_account names) (nm_label names) meter) ''accountId'' = Str (nm_account names)"
    by (simp add: ps with_account_def update_conv split: option.split)
  then have "sn_accountId row = Some (nm_account names)"
    using normalizeMeterD(16) [OF meter] by (simp add: readAccountId_def split: if_splits)
  then show ?thesis using normalizeMeter_wf [OF meter] by blast
qed

lemma sent_names_account: "sent_names spec sent = Inr names \<Longrightarrow> sent_account spec sent = Inr (nm_account names)"
  by (auto simp: sent_names_def and_next_Inr)

text \<open>The three ways a turn that asked its provider ends.\<close>

lemma conclude_cases:
  assumes "conclude options world spec attempts sent result = Inr r"
  obtains "or_report r = None" "or_entry r = None" "ar_status (or_row r) \<noteq> StatusRead" "ar_provider (or_row r) = sp_provider spec"
  | names rows t where "sent_names spec sent = Inr names" "read_rows options names sent result = Inr rows"
      "tr_outcome result = AcqOk" "rows \<noteq> []" "r = believed_read options spec names result rows t"
  | names rows t where "sent_names spec sent = Inr names" "read_rows options names sent result = Inr rows"
      "tr_outcome result = AcqOk \<longrightarrow> rows = []" "r = failed_read options spec names sent result attempts t"
proof -
  obtain names where names: "sent_names spec sent = Inr names"
    using assms by (auto simp: conclude_def and_next_Inr)
  show thesis
  proof (cases "tr_missing result \<or> tr_expired result")
    case True
    then show thesis using assms names that(1) by (auto simp: conclude_def and_next_Inr plain_row_def split: if_splits)
  next
    case False
    then obtain rows where rows: "read_rows options names sent result = Inr rows"
      using assms names by (auto simp: conclude_def and_next_Inr)
    show thesis
    proof (cases "tr_outcome result = AcqOk \<and> rows \<noteq> []")
      case True
      then show thesis
        using assms names rows False that(2) [OF names rows] by (auto simp: conclude_def and_next_Inr Let_def split: if_splits)
    next
      case failed: False
      then show thesis
        using assms names rows False that(3) [OF names rows] by (auto simp: conclude_def and_next_Inr Let_def split: if_splits)
    qed
  qed
qed

text \<open>The login the provider was last asked with, and what that attempt gave: the one the store held, when no second look
  was due or the second look found no other valid login, or else that other login.\<close>

definition asked_with :: "run_options \<Rightarrow> read_world \<Rightarrow> acquisition_spec \<Rightarrow> acquired_credential \<Rightarrow> attempt_result \<Rightarrow> bool" where
  "asked_with options world spec sent result \<longleftrightarrow>
     \<not> credentialExpired sent (dateParse (op_now options)) \<and>
     (rw_credential world = Inr (Inr sent) \<and> attempt spec sent (rw_first world) (op_now options) = Inr result \<and>
        (reread_allowed result \<longrightarrow>
           (\<exists>again. rw_reread world = Inr again \<and>
              \<not> (\<exists>other. again = Inr other \<and> ac_secret other \<noteq> ac_secret sent \<and>
                   \<not> credentialExpired other (dateParse (op_now options))))) \<or>
      (\<exists>held first. rw_credential world = Inr (Inr held) \<and> \<not> credentialExpired held (dateParse (op_now options)) \<and>
         attempt spec held (rw_first world) (op_now options) = Inr first \<and> reread_allowed first \<and>
         rw_reread world = Inr (Inr sent) \<and> ac_secret sent \<noteq> ac_secret held \<and>
         attempt spec sent (rw_second world) (op_now options) = Inr result))"

lemma take_reread_Some:
  "take_reread options sent reread = Some c \<longleftrightarrow>
     reread = Inr c \<and> ac_secret c \<noteq> ac_secret sent \<and> \<not> credentialExpired c (dateParse (op_now options))"
  by (cases reread) (auto simp: take_reread_def)

lemma take_reread_None:
  "take_reread options sent reread = None \<longleftrightarrow>
     \<not> (\<exists>c. reread = Inr c \<and> ac_secret c \<noteq> ac_secret sent \<and> \<not> credentialExpired c (dateParse (op_now options)))"
  by (cases reread) (auto simp: take_reread_def)

lemma ask_provider_asked:
  assumes "rw_credential world = Inr (Inr held)" "\<not> credentialExpired held (dateParse (op_now options))"
    and "ask_provider options world spec held = Inr (sent, result)"
  shows "asked_with options world spec sent result"
  using assms
  by (auto simp: ask_provider_def asked_with_def and_next_Inr take_reread_Some take_reread_None split: if_splits option.splits)

lemma read_due_cases:
  assumes "read_due options world spec attempts = Inr r"
  obtains "or_report r = None" "or_entry r = None" "ar_status (or_row r) \<noteq> StatusRead" "ar_provider (or_row r) = sp_provider spec"
  | sent result where "asked_with options world spec sent result" "conclude options world spec attempts sent result = Inr r"
proof -
  obtain credential where c: "rw_credential world = Inr credential"
    using assms by (auto simp: read_due_def and_next_Inr)
  show thesis
  proof (cases "\<exists>held. credential = Inr held \<and> \<not> credentialExpired held (dateParse (op_now options))")
    case True
    then obtain held where held: "credential = Inr held" "\<not> credentialExpired held (dateParse (op_now options))" by blast
    then obtain sent result where asked: "ask_provider options world spec held = Inr (sent, result)"
      and ended: "conclude options world spec attempts sent result = Inr r"
      using assms c by (auto simp: read_due_def and_next_Inr)
    show thesis using that(2) [OF ask_provider_asked [OF _ held(2) asked] ended] c held(1) by blast
  next
    case False
    then show thesis
      using assms c that(1) by (cases credential) (auto simp: read_due_def and_next_Inr plain_row_def split: if_splits)
  qed
qed

text \<open>How a read may end.\<close>

definition published :: "run_options \<Rightarrow> read_world \<Rightarrow> acquisition_spec \<Rightarrow> one_read \<Rightarrow> bool" where
  "published options world spec r \<longleftrightarrow>
     (case or_report r of
        None \<Rightarrow> ar_status (or_row r) \<noteq> StatusRead
      | Some report \<Rightarrow>
          ar_status (or_row r) = StatusRead \<and> ar_provider (or_row r) = sp_provider spec \<and>
          successful report \<and> rp_provider report = sp_provider spec \<and> rp_accountId report = ar_accountId (or_row r) \<and>
          (\<exists>sent result account. asked_with options world spec sent result \<and> tr_outcome result = AcqOk \<and>
             sent_account spec sent = Inr account \<and> rp_accountId report = Some account) \<and>
          rp_snapshots report \<noteq> [] \<and>
          list_all (\<lambda>row. wf_snapshot row \<and> sn_accountId row = ar_accountId (or_row r)) (rp_snapshots report) \<and>
          (case or_entry r of Some e \<Rightarrow> se_outcome e = AcqOk \<and> se_attempts e = Some 0 \<and> se_refusalRevision e = None | None \<Rightarrow> False))"

lemma early_published:
  assumes "or_report r = None" and "ar_status (or_row r) \<noteq> StatusRead"
  shows "published options world spec r"
  using assms by (simp add: published_def)

lemma conclude_published:
  assumes "asked_with options world spec sent result" and "conclude options world spec attempts sent result = Inr r"
  shows "published options world spec r"
  using assms(2)
proof (cases rule: conclude_cases)
  case (2 names rows t)
  have "list_all (\<lambda>row. wf_snapshot row \<and> sn_accountId row = Some (nm_account names)) rows"
    using read_rows_good [OF 2(2)] by (simp add: list_all_iff)
  then show ?thesis
    using 2 assms(1) sent_names_account [OF 2(1)]
    by (auto simp: published_def believed_read_def plain_row_def)
next
  case (3 names rows t)
  then show ?thesis by (simp add: published_def failed_read_def plain_row_def Let_def split: prod.split)
qed (rule early_published)

lemma read_due_published:
  assumes "read_due options world spec attempts = Inr r"
  shows "published options world spec r"
  using assms by (cases rule: read_due_cases) (auto intro: early_published conclude_published)

lemma readOne_cases:
  assumes "readOne options world spec existing leaseAttempts = Inr r"
  obtains "\<not> sp_enabled spec" "r = off_read spec existing"
  | "sp_enabled spec" "r = not_due_read spec existing" "\<not> isProviderDue existing (op_now options)"
  | "sp_enabled spec" "read_due options world spec (prior_attempts existing leaseAttempts) = Inr r"
  using assms by (auto simp: readOne_def and_next_Inr split: if_splits)

lemma readOne_published:
  assumes "readOne options world spec existing leaseAttempts = Inr r"
  shows "published options world spec r"
  using assms
proof (cases rule: readOne_cases)
  case 3
  then show ?thesis by (rule_tac read_due_published)
qed (auto intro!: early_published simp: off_read_def not_due_read_def plain_row_def)

text \<open>C2: only a successful read publishes. A row says \<open>read\<close> exactly when there is a report, and then the report is a
  success of that provider with at least one row, every row well formed and filed under the account of the login the
  provider was last asked with, that attempt ended in a reading, and the schedule starts afresh; every failure leaves the
  cache as it was.\<close>

theorem only_success_publishes:
  assumes "readOne options world spec existing leaseAttempts = Inr r"
  shows "case or_report r of
      None \<Rightarrow> ar_status (or_row r) \<noteq> StatusRead
    | Some report \<Rightarrow>
        ar_status (or_row r) = StatusRead \<and> successful report \<and> rp_provider report = sp_provider spec \<and>
        (\<exists>sent result account. asked_with options world spec sent result \<and> tr_outcome result = AcqOk \<and>
           sent_account spec sent = Inr account \<and> rp_accountId report = Some account) \<and>
        rp_accountId report = ar_accountId (or_row r) \<and> rp_snapshots report \<noteq> [] \<and>
        (\<forall>row \<in> set (rp_snapshots report). wf_snapshot row \<and> sn_accountId row = rp_accountId report) \<and>
        (\<exists>e. or_entry r = Some e \<and> se_outcome e = AcqOk \<and> se_attempts e = Some 0 \<and> se_refusalRevision e = None)"
  using readOne_published [OF assms] by (auto simp: published_def list_all_iff split: option.splits) metis

definition sample_spec :: acquisition_spec where
  "sample_spec =
     \<lparr>sp_provider = GROK, sp_steps = [], sp_optionalFrom = None,
      sp_parse = (\<lambda>_ _ _. Inr (Some [snapshot_js (sample_row\<lparr>sn_accountId := Some ''acct''\<rparr>)])),
      sp_complete = None, sp_disclosure = None, sp_enabled = True, sp_disabledReason = None,
      sp_accountIdFor = (\<lambda>_. Inr (Some ''acct'')), sp_disclosureFor = (\<lambda>_. Inr None), sp_accountLabelFor = (\<lambda>_. Inr None),
      sp_outcomeSentence = (\<lambda>_. None)\<rparr>"

definition sample_attempt :: attempt_world where
  "sample_attempt =
     \<lparr>aw_at = (\<lambda>_. 0), aw_ownedBefore = (\<lambda>_. Inr True), aw_ownedAfter = (\<lambda>_. Inr True), aw_answer = (\<lambda>_ _. None)\<rparr>"

definition sample_read :: read_world where
  "sample_read =
     \<lparr>rw_revision = Inr (Inr sample_credential), rw_credential = Inr (Inr sample_credential), rw_reread = Inr (Inr sample_credential),
      rw_first = sample_attempt, rw_second = sample_attempt, rw_attemptedAt = Inr ''2026-07-01T10:00:00.000Z''\<rparr>"

definition sample_options :: run_options where
  "sample_options = \<lparr>op_now = ''2026-07-01T10:00:00.000Z'', op_httpDate = (\<lambda>_. None), op_stamp = (\<lambda>meters _. Inr meters)\<rparr>"

lemma read_due_sent:
  assumes "rw_credential world = Inr (Inr held)" and "\<not> credentialExpired held (dateParse (op_now options))"
    and "ask_provider options world spec held = Inr (sent, result)"
  shows "read_due options world spec attempts = conclude options world spec attempts sent result"
  using assms by (simp add: read_due_def and_next_def in_phase_def)

lemma sample_login_stands: "\<not> credentialExpired sample_credential now"
  by (simp add: credentialExpired_def sample_credential_def claimed_expiry_def passed_def)

definition sample_grok :: snapshot where
  "sample_grok = sample_row\<lparr>sn_accountId := Some ''acct''\<rparr>"

lemma sample_grok_rows: "normalizeMeters [with_account ''acct'' None (snapshot_js sample_grok)] = [sample_grok]"
proof -
  have "wf_snapshot sample_grok"
    by (simp add: sample_grok_def sample_row_def wf_snapshot_def wf_value_def wf_window_def wf_labels_def sample_labels_def
        wf_instants_def sample_dates wf_account_def wf_amounts_def safeMeter_def is_upper_def account_id_pattern_def is_lower_def)
  moreover have "with_account ''acct'' None (snapshot_js sample_grok) = snapshot_js sample_grok"
    by (simp add: sample_grok_def sample_row_def snapshot_js_def obj_def with_account_def num_js_def)
  ultimately show ?thesis by (simp add: normalizeMeters_def normalizeMeter_snapshot_js)
qed

definition sample_names :: read_names where
  "sample_names = \<lparr>nm_account = ''acct'', nm_label = None, nm_disclosure = None\<rparr>"

lemma sample_sent_names: "sent_names sample_spec sent = Inr sample_names"
  by (simp add: sent_names_def sent_account_def sample_spec_def sample_names_def and_next_def)

lemma sample_read_good:
  "\<exists>r t. readOne sample_options sample_read sample_spec None None =
     Inr (believed_read sample_options sample_spec sample_names r [sample_grok] t) \<and> tr_complete r = None"
proof -
  let ?r = "\<lparr>tr_outcome = AcqOk, tr_meters = [snapshot_js sample_grok], tr_retryAfter = None, tr_complete = None,
    tr_phase = None, tr_expired = False, tr_missing = False\<rparr>"
  have attempt: "attempt sample_spec sample_credential sample_attempt now = Inr ?r" for now
    by (simp add: attempt_def sample_spec_def parse_bodies_def sample_grok_def)
  then have asked: "ask_provider sample_options sample_read sample_spec sample_credential = Inr (sample_credential, ?r)"
    by (simp add: ask_provider_def sample_read_def in_phase_def and_next_def reread_allowed_def)
  have rows: "read_rows sample_options sample_names sample_credential ?r = Inr [sample_grok]"
    using sample_grok_rows by (simp add: read_rows_def sample_options_def sample_names_def)
  obtain t where t: "nextSuccessInstant (op_httpDate sample_options) GROK ''2026-07-01T10:00:00.000Z'' [sn_resetAt sample_grok] = Inr t"
    using nextAttemptInstant_eq [OF sample_dates(1)] by (simp add: nextSuccessInstant_def)
  have "conclude sample_options sample_read sample_spec n sample_credential ?r =
      Inr (believed_read sample_options sample_spec sample_names ?r [sample_grok] t)" for n
    using t by (simp add: conclude_def sample_sent_names rows Let_def in_phase_def and_next_def sample_read_def) (simp add: sample_spec_def)
  then have "read_due sample_options sample_read sample_spec n =
      Inr (believed_read sample_options sample_spec sample_names ?r [sample_grok] t)" for n
    using read_due_sent [OF _ sample_login_stands asked] by (simp add: sample_read_def)
  moreover have "isProviderDue None (op_now sample_options)"
    by (simp add: isProviderDue_def sample_options_def sample_dates)
  ultimately have "readOne sample_options sample_read sample_spec None None =
      Inr (believed_read sample_options sample_spec sample_names ?r [sample_grok] t)"
    by (simp add: readOne_def refusal_changed_def recorded_refusal_def and_next_def) (simp add: sample_spec_def)
  then show ?thesis by (intro exI [of _ ?r] exI [of _ t]) simp
qed

theorem only_success_publishes_witness:
  "\<exists>r report. readOne sample_options sample_read sample_spec None None = Inr r \<and> or_report r = Some report \<and>
     rp_accountId report = Some ''acct'' \<and> successful report"
proof -
  obtain r t where r: "readOne sample_options sample_read sample_spec None None =
      Inr (believed_read sample_options sample_spec sample_names r [sample_grok] t)"
    using sample_read_good by blast
  show ?thesis
    using only_success_publishes [OF r] r by (simp add: believed_read_def sample_names_def)
qed

section \<open>When nobody is asked\<close>

text \<open>A provider that is not due is left alone. Unless the store holds another login than the one its provider
  refused, its turn reads no login and sends nothing: whatever the world would have answered, it only waits, and its
  schedule stands.\<close>

theorem not_due_asks_nobody:
  assumes "sp_enabled spec" and "\<not> isProviderDue existing (op_now options)"
    and "recorded_refusal existing = None \<or>
      (\<exists>credential. rw_revision world = Inr credential \<and> revision_of credential \<in> {None, recorded_refusal existing})"
  shows "readOne options world spec existing leaseAttempts = Inr (not_due_read spec existing) \<and>
    or_entry (not_due_read spec existing) = existing \<and> or_report (not_due_read spec existing) = None"
  using assms by (auto simp: readOne_def refusal_changed_def and_next_def in_phase_def not_due_read_def split: option.split)

definition unclocked_options :: run_options where
  "unclocked_options = sample_options\<lparr>op_now := []\<rparr>"

theorem not_due_asks_nobody_witness:
  "readOne unclocked_options sample_read sample_spec None None = Inr (not_due_read sample_spec None) \<and>
   sp_enabled sample_spec"
proof -
  have "sp_enabled sample_spec" "\<not> isProviderDue None (op_now unclocked_options)" "recorded_refusal None = None"
    by (simp_all add: sample_spec_def isProviderDue_def recorded_refusal_def unclocked_options_def date_eval)
  then show ?thesis using not_due_asks_nobody [of sample_spec None unclocked_options sample_read None] by simp
qed

section \<open>Refusals\<close>

lemma failed_read_entry:
  assumes "outcome = (if tr_outcome result = AcqOk then AcqDrift else tr_outcome result)"
    and "phase = (if tr_outcome result = AcqOk then ParsePhase else case tr_phase result of Some p \<Rightarrow> p | None \<Rightarrow> RequestPhase)"
  shows "or_entry (failed_read options spec names sent result attempts t) =
     Some (failure_entry options (attempts + 1)
       (if refused outcome then Some (credentialRevision (ac_secret sent)) else None) t outcome phase)"
  unfolding failed_read_def Let_def assms [symmetric] by (simp split: prod.split)

lemma conclude_revision:
  assumes "conclude options world spec attempts sent result = Inr r" "or_entry r = Some e" "se_refusalRevision e = Some revision"
  shows "refused (tr_outcome result) \<and> se_outcome e = tr_outcome result \<and> revision = credentialRevision (ac_secret sent) \<and>
    se_attempts e = Some (attempts + 1)"
  using assms(1)
proof (cases rule: conclude_cases)
  case (3 names rows t)
  then show ?thesis
    using failed_read_entry [OF refl refl, of options spec names sent result attempts t] assms(2,3)
    by (auto simp: failure_entry_def refused_def split: if_splits)
qed (use assms(2,3) in \<open>auto simp: believed_read_def\<close>)

text \<open>C19: a refusal names the login that was refused. A revision that appears in the schedule a turn leaves is the
  revision of the login the provider was last asked with (the one the store held, or the other, still valid one the second
  look found), the recorded outcome is the one that attempt ended in and a refusal, and the count of attempts went up by
  one.\<close>

theorem refusal_names_the_login:
  assumes "readOne options world spec existing leaseAttempts = Inr r"
    and "or_entry r = Some e" and "se_refusalRevision e = Some revision" and "or_entry r \<noteq> existing"
  shows "\<exists>sent result. asked_with options world spec sent result \<and> revision = credentialRevision (ac_secret sent) \<and>
    refused (tr_outcome result) \<and> se_outcome e = tr_outcome result \<and>
    se_attempts e = Some (prior_attempts existing leaseAttempts + 1)"
  using assms(1)
proof (cases rule: readOne_cases)
  case 3
  from 3(2) show ?thesis
  proof (cases rule: read_due_cases)
    case (2 sent result)
    then show ?thesis using conclude_revision [OF 2(2) assms(2,3)] by blast
  qed (use assms(2) in simp)
qed (use assms(4) in \<open>simp_all add: off_read_def not_due_read_def\<close>)

text \<open>A provider that answers 401 to the login the store held and to the one found on the second look.\<close>

definition refusing_spec :: acquisition_spec where
  "refusing_spec = sample_spec\<lparr>sp_steps := [\<lambda>credential _. Inr (ask (kimiUsageRequest (ac_secret credential)))]\<rparr>"

definition refusing_attempt :: attempt_world where
  "refusing_attempt =
     sample_attempt\<lparr>aw_answer := (\<lambda>_ _. Some \<lparr>rep_status = 401, rep_body = [], rep_retryAfter = None, rep_outcome = None,
       rep_missing = False\<rparr>)\<rparr>"

definition other_credential :: acquired_credential where
  "other_credential = sample_credential\<lparr>ac_secret := ''other''\<rparr>"

definition refusing_world :: read_world where
  "refusing_world = sample_read\<lparr>rw_reread := Inr (Inr other_credential), rw_first := refusing_attempt, rw_second := refusing_attempt\<rparr>"

lemma other_login_stands: "\<not> credentialExpired other_credential now"
  by (simp add: credentialExpired_def other_credential_def sample_credential_def claimed_expiry_def passed_def)

lemma sample_secrets_usable: "usableHeaderSecret ''token''" "usableHeaderSecret ''other''"
  by (simp_all add: usableHeaderSecret_def header_char_def)

lemma refusing_attempt_ends:
  assumes "\<not> credentialExpired credential (Some 0)" and "usableHeaderSecret (ac_secret credential)"
  shows "attempt refusing_spec credential refusing_attempt now = Inr (failed_attempt Unauthorized None RequestPhase)"
  using assms
  by (simp add: attempt_def refusing_spec_def refusing_attempt_def sample_attempt_def kimiUsageRequest_def bearer_request_def ask_def
      bad_reply_def reply_outcome_def refused_reply_def outcomeForStatus_def)

lemma refusing_read:
  "\<exists>t. readOne sample_options refusing_world refusing_spec None None =
     Inr (failed_read sample_options refusing_spec sample_names other_credential (failed_attempt Unauthorized None RequestPhase) 0 t)"
proof -
  let ?r = "failed_attempt Unauthorized None RequestPhase"
  have "attempt refusing_spec sample_credential refusing_attempt now = Inr ?r"
    "attempt refusing_spec other_credential refusing_attempt now = Inr ?r" for now
    using refusing_attempt_ends [OF sample_login_stands] refusing_attempt_ends [OF other_login_stands] sample_secrets_usable
    by (simp_all add: sample_credential_def other_credential_def)
  moreover have "reread_allowed ?r" by (simp add: reread_allowed_def failed_attempt_def)
  moreover have "take_reread sample_options sample_credential (Inr other_credential) = Some other_credential"
    by (simp add: take_reread_Some other_login_stands) (simp add: other_credential_def sample_credential_def)
  ultimately have asked: "ask_provider sample_options refusing_world refusing_spec sample_credential = Inr (other_credential, ?r)"
    by (simp add: ask_provider_def refusing_world_def in_phase_def and_next_def)
  obtain t where t: "nextAttemptInstant (op_httpDate sample_options) Unauthorized ''2026-07-01T10:00:00.000Z'' None 0 = Inr t"
    using nextAttemptInstant_eq [OF sample_dates(1)] by simp
  have "sent_names refusing_spec other_credential = Inr sample_names"
    using sample_sent_names by (simp add: refusing_spec_def sent_names_def sent_account_def sample_spec_def)
  then have "conclude sample_options refusing_world refusing_spec 0 other_credential ?r =
      Inr (failed_read sample_options refusing_spec sample_names other_credential ?r 0 t)"
    using t
    by (simp add: conclude_def read_rows_def failed_attempt_def Let_def in_phase_def and_next_def refusing_world_def sample_read_def)
  moreover have "isProviderDue None (op_now sample_options)"
    by (simp add: isProviderDue_def sample_options_def sample_dates)
  moreover have "rw_credential refusing_world = Inr (Inr sample_credential)" "sp_enabled refusing_spec"
    by (simp_all add: refusing_world_def sample_read_def refusing_spec_def sample_spec_def)
  ultimately show ?thesis
    using read_due_sent [OF _ sample_login_stands asked]
    by (intro exI [of _ t]) (simp add: readOne_def refusal_changed_def recorded_refusal_def and_next_def prior_attempts_def)
qed

theorem refusal_names_the_login_witness:
  "\<exists>r e. readOne sample_options refusing_world refusing_spec None None = Inr r \<and> or_entry r = Some e \<and>
     se_refusalRevision e = Some (credentialRevision ''other'') \<and> se_attempts e = Some 1"
proof -
  obtain t where t: "readOne sample_options refusing_world refusing_spec None None =
     Inr (failed_read sample_options refusing_spec sample_names other_credential (failed_attempt Unauthorized None RequestPhase) 0 t)"
    using refusing_read by blast
  let ?e = "failure_entry sample_options 1 (Some (credentialRevision ''other'')) t Unauthorized RequestPhase"
  have entry: "or_entry (failed_read sample_options refusing_spec sample_names other_credential
      (failed_attempt Unauthorized None RequestPhase) 0 t) = Some ?e"
    by (subst failed_read_entry [OF refl refl]) (simp add: failed_attempt_def refused_def other_credential_def)
  have revision: "se_refusalRevision ?e = Some (credentialRevision ''other'')"
    by (simp add: failure_entry_def)
  have "se_attempts ?e = Some 1"
    using refusal_names_the_login [OF t entry revision] entry by (auto simp: prior_attempts_def)
  then show ?thesis using t entry revision by blast
qed

section \<open>An optional request\<close>

text \<open>What the remaining steps read when nothing about them may fail the attempt: the body of a good answer, an answer with
  a login, a status, the outcome \<open>ok\<close> and a readable body; and the longest run of steps that ask and are answered well,
  each with its body and its retry hint.\<close>

definition good_body :: "acquisition_reply \<Rightarrow> js option" where
  "good_body reply =
     (if \<not> rep_missing reply \<and> rep_status reply \<noteq> 0 \<and>
         rep_outcome reply \<in> {None, Some AcqOk} \<and> (rep_outcome reply = None \<longrightarrow> outcomeForStatus (rep_status reply) = AcqOk)
      then JSON_parse (rep_body reply) else None)"

fun good_run ::
    "acquired_credential \<Rightarrow> attempt_world \<Rightarrow> runner_step list \<Rightarrow> nat \<Rightarrow> js list \<Rightarrow> (js \<times> jsnum option) list" where
  "good_run credential world [] index bodies = []"
| "good_run credential world (step # steps) index bodies =
     (case step credential bodies of
        Inr (Some (AskFor request)) \<Rightarrow>
          (case aw_answer world index request of
             None \<Rightarrow> []
           | Some reply \<Rightarrow>
               (case good_body reply of
                  None \<Rightarrow> []
                | Some body \<Rightarrow>
                    (body, rep_retryAfter reply) # good_run credential world steps (index + 1) (bodies @ [body])))
      | _ \<Rightarrow> [])"

lemma good_body_eq: "good_body reply = (if bad_reply reply then None else JSON_parse (rep_body reply))"
  by (cases "rep_outcome reply") (auto simp: good_body_def bad_reply_def reply_outcome_def)

text \<open>C28: an optional request never fails a reading already made. From the step the provider calls optional on, once a
  body was read, and while the lease is owned, the login stands and no step throws, the attempt ends in what the parser
  makes of exactly the bodies read so far and the longest run of good answers that still came, with the retry hint of the
  last good answer: neither the body nor the hint of an answer that failed is carried, whatever the transport says.\<close>

theorem optional_step_never_fails:
  assumes "sp_optionalFrom spec = Some k" and "k \<le> index" and "previous \<noteq> []"
    and "\<forall>i. aw_ownedBefore world i = Inr True" and "\<forall>i. aw_ownedAfter world i = Inr True"
    and "\<forall>i. \<not> credentialExpired credential (Some (aw_at world i))"
    and "\<forall>step \<in> set steps. \<forall>bodies. \<exists>decided. step credential bodies = Inr decided"
  shows "attempt_steps spec credential world now steps index previous retryAfter =
    (let run = good_run credential world steps index previous
     in Inr (parse_bodies spec now (previous @ map fst run) (if run = [] then retryAfter else snd (last run))))"
  using assms(2,3,7)
proof (induction steps arbitrary: index previous retryAfter)
  case (Cons step steps)
  obtain decided where decided: "step credential previous = Inr decided" using Cons.prems(3) by fastforce
  have next_steps: "attempt_steps spec credential world now steps (index + 1) (previous @ [body]) retry =
      (let run = good_run credential world steps (index + 1) (previous @ [body])
       in Inr (parse_bodies spec now ((previous @ [body]) @ map fst run) (if run = [] then retry else snd (last run))))" for body retry
    by (rule Cons.IH) (use Cons.prems in simp_all)
  have optional: "previous \<noteq> [] \<and> (case sp_optionalFrom spec of Some k \<Rightarrow> k \<le> index | None \<Rightarrow> False)"
    using assms(1) Cons.prems by simp
  then show ?case
    using assms(4,5,6) decided next_steps
    by (simp add: Let_def good_body_eq split: option.split step_result.split)
qed simp

definition optional_attempt :: attempt_world where
  "optional_attempt =
     sample_attempt\<lparr>aw_answer := (\<lambda>index _. Some (if index = 1
       then \<lparr>rep_status = 200, rep_body = json_text (Str ''good''), rep_retryAfter = Some (Fin 5), rep_outcome = None, rep_missing = False\<rparr>
       else \<lparr>rep_status = 429, rep_body = json_text (Str ''bad''), rep_retryAfter = Some (Fin 60), rep_outcome = None, rep_missing = False\<rparr>))\<rparr>"

definition optional_step :: runner_step where
  "optional_step = (\<lambda>credential _. Inr (ask (openrouterCreditsRequest (ac_secret credential))))"

lemma optional_run:
  "good_run sample_credential optional_attempt [optional_step, optional_step] 1 [Null] = [(Str ''good'', Some (Fin 5))]"
proof -
  obtain request where "openrouterCreditsRequest (ac_secret sample_credential) = Some request"
    using sample_secrets_usable by (simp add: openrouterCreditsRequest_def bearer_request_def sample_credential_def)
  moreover have "JSON_parse (json_text (Str ''good'')) = Some (Str ''good'')" by (rule parse_back) simp_all
  ultimately show ?thesis
    by (simp add: optional_attempt_def optional_step_def ask_def good_body_eq bad_reply_def reply_outcome_def outcomeForStatus_def)
qed

theorem optional_step_never_fails_witness:
  "attempt_steps (sample_spec\<lparr>sp_optionalFrom := Some 1\<rparr>) sample_credential optional_attempt []
       [optional_step, optional_step] 1 [Null] None =
     Inr (parse_bodies (sample_spec\<lparr>sp_optionalFrom := Some 1\<rparr>) [] [Null, Str ''good''] (Some (Fin 5)))"
proof -
  have "\<forall>i. aw_ownedBefore optional_attempt i = Inr True" "\<forall>i. aw_ownedAfter optional_attempt i = Inr True"
    "\<forall>step \<in> set [optional_step, optional_step]. \<forall>bodies. \<exists>decided. step sample_credential bodies = Inr decided"
    by (simp_all add: optional_attempt_def sample_attempt_def optional_step_def)
  from optional_step_never_fails [OF _ _ _ this(1,2) _ this(3), of "sample_spec\<lparr>sp_optionalFrom := Some 1\<rparr>" 1 1 "[Null]" "[]" None]
  show ?thesis using optional_run by (simp add: sample_login_stands)
qed

section \<open>A round keeps its providers apart\<close>

lemma readOne_provider:
  assumes "readOne options world spec existing leaseAttempts = Inr r"
  shows "ar_provider (or_row r) = sp_provider spec \<and> (\<forall>report. or_report r = Some report \<longrightarrow> rp_provider report = sp_provider spec)"
proof -
  have conclude_provider: "ar_provider (or_row r) = sp_provider spec" if "conclude options world spec attempts sent result = Inr r"
    for attempts sent result
    using that
  proof (cases rule: conclude_cases)
    case (3 names rows t)
    then show ?thesis by (simp add: failed_read_def plain_row_def Let_def split: prod.split)
  qed (simp_all add: believed_read_def plain_row_def)
  have "ar_provider (or_row r) = sp_provider spec"
    using assms
  proof (cases rule: readOne_cases)
    case 3
    from 3(2) show ?thesis by (cases rule: read_due_cases) (simp_all add: conclude_provider)
  qed (simp_all add: off_read_def not_due_read_def plain_row_def)
  then show ?thesis using readOne_published [OF assms] by (auto simp: published_def)
qed

text \<open>What one turn does to the round, given the entry its provider had: it appends the same rows and reports of its own
  provider to whatever was there, one or two rows and at most one report, and sets its own entry and no other.\<close>

definition turn_effect ::
    "acquisition_spec \<Rightarrow> schedule_entry option \<Rightarrow> (round_state \<Rightarrow> round_state) \<Rightarrow> acquisition_row list \<Rightarrow> collection_report list \<Rightarrow>
     schedule_entry option \<Rightarrow> bool" where
  "turn_effect spec old turn rows reports entry \<longleftrightarrow>
     1 \<le> length rows \<and> length rows \<le> 2 \<and>
     list_all (\<lambda>row. ar_provider row = sp_provider spec) rows \<and> list_all (\<lambda>report. rp_provider report = sp_provider spec) reports \<and>
     (\<forall>st. entry_of spec (rs_schedule st) = old \<longrightarrow>
        rs_rows (turn st) = rs_rows st @ rows \<and> rs_reports (turn st) = rs_reports st @ reports \<and>
        map_of (rs_schedule (turn st)) = (map_of (rs_schedule st))(provider_str (sp_provider spec) := entry))"

definition own_turn :: "acquisition_spec \<Rightarrow> schedule_entry option \<Rightarrow> (round_state \<Rightarrow> round_state) \<Rightarrow> bool" where
  "own_turn spec old turn \<longleftrightarrow> (\<exists>rows reports entry. turn_effect spec old turn rows reports entry)"

lemma own_turnI: "turn_effect spec old turn rows reports entry \<Longrightarrow> own_turn spec old turn"
  by (auto simp: own_turn_def)

lemma own_turn_cong:
  assumes "own_turn spec old turn" and "\<And>st. entry_of spec (rs_schedule st) = old \<Longrightarrow> turn' st = turn st"
  shows "own_turn spec old turn'"
  using assms by (auto simp: own_turn_def turn_effect_def)

lemma put_entry_map: "map_of (put_entry spec entry table) = (map_of table)(provider_str (sp_provider spec) := entry)"
  by (auto simp: put_entry_def update_conv' delete_conv' fun_eq_iff split: option.split)

definition own_read :: "acquisition_spec \<Rightarrow> one_read \<Rightarrow> bool" where
  "own_read spec r \<longleftrightarrow>
     ar_provider (or_row r) = sp_provider spec \<and> (\<forall>report. or_report r = Some report \<longrightarrow> rp_provider report = sp_provider spec)"

lemma own_drift: "own_read spec (drift_read options spec failedAt phase e)"
  by (simp add: own_read_def drift_read_def plain_row_def)

lemma withFreshness_provider: "withFreshness report = Inr fresh \<Longrightarrow> rp_provider fresh = rp_provider report"
  by (cases report) (auto simp: map_sum_eq_Inr)

lemma own_settled: "own_read spec (settle options spec failedAt (readOne options world spec existing leaseAttempts))"
proof (cases "readOne options world spec existing leaseAttempts")
  case (Inl thrown)
  then show ?thesis by (cases thrown) (simp add: settle_def own_drift)
next
  case (Inr r)
  then show ?thesis using readOne_provider by (simp add: settle_def own_read_def)
qed

lemma own_inner: "own_read spec r \<Longrightarrow> inner_read r = Inr r' \<Longrightarrow> own_read spec r'"
  by (auto simp: own_read_def inner_read_def map_sum_eq_Inr withFreshness_provider split: option.splits)

lemma own_wait: "own_turn spec old (\<lambda>st. st\<lparr>rs_rows := rs_rows st @ [waiting_row spec]\<rparr>)"
  by (rule own_turnI [of _ _ _ "[waiting_row spec]" "[]" old])
     (auto simp: turn_effect_def waiting_row_def plain_row_def entry_of_def)

lemma own_keep: "own_read spec r \<Longrightarrow> own_turn spec old (keep_read spec r)"
  by (rule own_turnI [of _ _ _ "[or_row r]" "case or_report r of None \<Rightarrow> [] | Some report \<Rightarrow> [report]" "or_entry r"])
     (auto simp: turn_effect_def own_read_def keep_read_def put_entry_map split: option.split)

lemma own_throw: "own_turn spec old (on_throw options world spec leased phase e)"
proof (cases "leased \<and> pw_lostOnThrow world")
  case True
  show ?thesis by (rule own_turn_cong [OF own_wait]) (simp add: on_throw_def True)
next
  case False
  show ?thesis by (rule own_turn_cong [OF own_keep [OF own_drift]]) (simp only: on_throw_def False if_False)
qed

lemma own_keep_throw:
  assumes "own_read spec r"
  shows "own_turn spec old (\<lambda>st. on_throw options world spec leased phase e (keep_read spec r st))"
proof -
  let ?drift = "drift_read options spec (pw_failedAt world) phase e"
  let ?lost = "leased \<and> pw_lostOnThrow world"
  show ?thesis
    by (rule own_turnI [of _ _ _ "[or_row r, if ?lost then waiting_row spec else or_row ?drift]"
          "case or_report r of None \<Rightarrow> [] | Some report \<Rightarrow> [report]" "if ?lost then or_entry r else or_entry ?drift"])
       (use assms own_drift [of spec options "pw_failedAt world" phase e] in
         \<open>auto simp: turn_effect_def own_read_def on_throw_def keep_read_def put_entry_map waiting_row_def plain_row_def
            drift_read_def split: option.split\<close>)
qed

lemma own_local: "own_turn spec old (local_turn options world spec)"
proof (cases "readOne options (pw_read world) spec old None")
  case (Inl thrown)
  obtain phase e where thrown: "thrown = (phase, e)" by (cases thrown)
  show ?thesis by (rule own_turn_cong [OF own_throw]) (simp add: local_turn_def Inl thrown)
next
  case (Inr r)
  then have r: "own_read spec r" using readOne_provider by (simp add: own_read_def)
  show ?thesis
  proof (cases "write_report r (pw_persist world)")
    case (Inl e)
    show ?thesis by (rule own_turn_cong [OF own_keep_throw [OF r]]) (simp add: local_turn_def Inr Inl)
  next
    case written: (Inr _)
    show ?thesis by (rule own_turn_cong [OF own_keep [OF r]]) (simp add: local_turn_def Inr written)
  qed
qed

lemma own_kept:
  assumes "own_read spec r"
  shows "own_turn spec old (\<lambda>st. case written of Inl e \<Rightarrow> on_throw options world spec leased phase e (keep_read spec r st)
    | Inr _ \<Rightarrow> keep_read spec r st)"
  using own_keep_throw [OF assms] own_keep [OF assms] by (cases written) simp_all

lemma own_shared: "own_turn spec old (shared_turn options world spec)"
proof (cases "pw_lease world")
  case (Inl e)
  show ?thesis by (rule own_turn_cong [OF own_throw]) (simp add: shared_turn_def Inl)
next
  case leased: (Inr lease)
  show ?thesis
  proof (cases lease)
    case None
    show ?thesis by (rule own_turn_cong [OF own_wait]) (simp add: shared_turn_def leased None)
  next
    case (Some attempts)
    define inner where "inner = options\<lparr>op_now := pw_now world\<rparr>"
    define read where "read = inner_read (settle inner spec (pw_innerFailedAt world)
      (readOne inner (pw_read world) spec (map_option (lease_entry attempts) old) (Some attempts)))"
    note turn = shared_turn_def leased Some inner_def [symmetric] read_def [symmetric] Let_def
    show ?thesis
    proof (cases read)
      case (Inl e)
      show ?thesis by (rule own_turn_cong [OF own_throw]) (simp add: turn Inl)
    next
      case (Inr r)
      then have r: "own_read spec r" using own_inner [OF own_settled] by (auto simp: read_def)
      show ?thesis
      proof (cases "pw_lostBeforeKeeping world")
        case True
        show ?thesis by (rule own_turn_cong [OF own_wait]) (simp add: turn Inr True)
      next
        case held: False
        show ?thesis
        proof (cases "if or_entry r = None then Inr () else pw_complete world")
          case (Inl e)
          show ?thesis by (rule own_turn_cong [OF own_throw]) (simp add: turn Inr held Inl)
        next
          case completed: (Inr _)
          show ?thesis by (rule own_turn_cong [OF own_kept [OF r]]) (simp add: turn Inr held completed)
        qed
      qed
    qed
  qed
qed

lemma provider_own: "own_turn spec old (provider_turn options stateDirectory world spec)"
proof (cases "stateDirectory \<and> sp_enabled spec")
  case True
  show ?thesis by (rule own_turn_cong [OF own_shared]) (simp add: provider_turn_def True)
next
  case False
  show ?thesis by (rule own_turn_cong [OF own_local]) (simp only: provider_turn_def False if_False)
qed

text \<open>What a round holds of one provider: its rows, its reports, its schedule.\<close>

definition part_of :: "provider_code \<Rightarrow> round_state \<Rightarrow> acquisition_row list \<times> collection_report list \<times> schedule_entry option" where
  "part_of p st =
     (filter (\<lambda>row. ar_provider row = p) (rs_rows st), filter (\<lambda>report. rp_provider report = p) (rs_reports st),
      map_of (rs_schedule st) (provider_str p))"

definition round_turns ::
    "run_options \<Rightarrow> bool \<Rightarrow> (acquisition_spec \<times> provider_world) list \<Rightarrow> round_state \<Rightarrow> round_state" where
  "round_turns options stateDirectory turns st =
     foldl (\<lambda>st (spec, world). provider_turn options stateDirectory world spec st) st turns"

definition turns_of :: "provider_code \<Rightarrow> (acquisition_spec \<times> provider_world) list \<Rightarrow> (acquisition_spec \<times> provider_world) list" where
  "turns_of p turns = filter (\<lambda>turn. sp_provider (fst turn) = p) turns"

lemma provider_str_eq: "provider_str p = provider_str q \<longleftrightarrow> p = q"
  by (simp add: provider_code_words.code_eq_iff)

lemma list_all_filter_all: "list_all P xs \<Longrightarrow> filter P xs = xs"
  by (induction xs) simp_all

lemma list_all_filter_none: "list_all (\<lambda>x. f x = q) xs \<Longrightarrow> p \<noteq> q \<Longrightarrow> filter (\<lambda>x. f x = p) xs = []"
  by (induction xs) simp_all

lemma other_turn_part:
  assumes "sp_provider spec \<noteq> p"
  shows "part_of p (provider_turn options stateDirectory world spec st) = part_of p st"
proof -
  obtain rows reports entry where "turn_effect spec (entry_of spec (rs_schedule st)) (provider_turn options stateDirectory world spec) rows reports entry"
    using provider_own [unfolded own_turn_def] by blast
  then show ?thesis
    using assms list_all_filter_none [of ar_provider "sp_provider spec" rows p]
      list_all_filter_none [of rp_provider "sp_provider spec" reports p]
    by (simp add: turn_effect_def part_of_def provider_str_eq)
qed

lemma own_turn_part:
  assumes "part_of p st = part_of p st'" and "sp_provider spec = p"
  shows "part_of p (provider_turn options stateDirectory world spec st) = part_of p (provider_turn options stateDirectory world spec st') \<and>
    (\<exists>rows. fst (part_of p (provider_turn options stateDirectory world spec st)) = fst (part_of p st) @ rows \<and>
      1 \<le> length rows \<and> length rows \<le> 2)"
proof -
  obtain rows reports entry where effect: "turn_effect spec (entry_of spec (rs_schedule st)) (provider_turn options stateDirectory world spec)
      rows reports entry"
    using provider_own [unfolded own_turn_def] by blast
  have "entry_of spec (rs_schedule st') = entry_of spec (rs_schedule st)"
    using assms by (simp add: part_of_def entry_of_def)
  then show ?thesis
    using effect assms list_all_filter_all [of "\<lambda>row. ar_provider row = p" rows]
    by (auto simp: turn_effect_def part_of_def)
qed

lemma round_turns_part:
  assumes "part_of p st = part_of p st'"
  shows "part_of p (round_turns options stateDirectory turns st) =
      part_of p (round_turns options stateDirectory (turns_of p turns) st') \<and>
    (\<exists>rows. fst (part_of p (round_turns options stateDirectory turns st)) = fst (part_of p st) @ rows \<and>
      length (turns_of p turns) \<le> length rows \<and> length rows \<le> 2 * length (turns_of p turns))"
  using assms
proof (induction turns arbitrary: st st')
  case Nil
  then show ?case by (simp add: round_turns_def turns_of_def)
next
  case (Cons turn turns)
  obtain spec world where turn: "turn = (spec, world)" by (cases turn)
  let ?one = "provider_turn options stateDirectory world spec"
  show ?case
  proof (cases "sp_provider spec = p")
    case True
    from own_turn_part [OF Cons.prems True, of options stateDirectory world] obtain rows
      where rows: "fst (part_of p (?one st)) = fst (part_of p st) @ rows" "1 \<le> length rows" "length rows \<le> 2"
        and same: "part_of p (?one st) = part_of p (?one st')" by blast
    from Cons.IH [OF same] obtain rest
      where rest: "fst (part_of p (round_turns options stateDirectory turns (?one st))) = fst (part_of p (?one st)) @ rest"
        "length (turns_of p turns) \<le> length rest" "length rest \<le> 2 * length (turns_of p turns)"
        and last: "part_of p (round_turns options stateDirectory turns (?one st)) =
          part_of p (round_turns options stateDirectory (turns_of p turns) (?one st'))" by blast
    show ?thesis
      using rows rest last True turn
      by (intro conjI exI [of _ "rows @ rest"]) (simp_all add: round_turns_def turns_of_def)
  next
    case False
    have "part_of p (?one st) = part_of p st'" using other_turn_part [OF False] Cons.prems by simp
    moreover have "fst (part_of p (?one st)) = fst (part_of p st)" using other_turn_part [OF False] by simp
    moreover have "round_turns options stateDirectory (turn # turns) st = round_turns options stateDirectory turns (?one st)"
      "turns_of p (turn # turns) = turns_of p turns"
      using turn False by (simp_all add: round_turns_def turns_of_def)
    ultimately show ?thesis using Cons.IH by metis
  qed
qed

lemma those_results_filter:
  assumes "those_results (map f xs) = Inr ys" and "\<And>x y. f x = Inr y \<Longrightarrow> Q y = P x"
  shows "those_results (map f (filter P xs)) = Inr (filter Q ys)"
  using assms(1)
proof (induction xs arbitrary: ys)
  case (Cons x xs)
  then obtain y rest where y: "f x = Inr y" "those_results (map f xs) = Inr rest" "ys = y # rest"
    by (auto simp: rbind_def map_sum_eq_Inr split: sum.splits)
  then show ?case using Cons.IH [OF y(2)] assms(2) [OF y(1)] by (simp add: rbind_def)
qed simp

lemma ended_part:
  assumes "those_results (map withFreshness (rs_reports st)) = Inr fresh"
    and "part_of p st = part_of p st'" and "list_all (\<lambda>report. rp_provider report = p) (rs_reports st')"
  shows "those_results (map withFreshness (rs_reports st')) = Inr (filter (\<lambda>report. rp_provider report = p) fresh)"
proof -
  have "those_results (map withFreshness (filter (\<lambda>report. rp_provider report = p) (rs_reports st))) =
      Inr (filter (\<lambda>report. rp_provider report = p) fresh)"
    by (rule those_results_filter [OF assms(1)]) (simp add: withFreshness_provider)
  moreover have "filter (\<lambda>report. rp_provider report = p) (rs_reports st) = rs_reports st'"
    using assms(2) list_all_filter_all [OF assms(3)] by (simp add: part_of_def)
  ultimately show ?thesis by simp
qed

lemma own_round_reports:
  "list_all (\<lambda>report. rp_provider report = p) (rs_reports st) \<Longrightarrow>
   list_all (\<lambda>report. rp_provider report = p) (rs_reports (round_turns options stateDirectory (turns_of p turns) st))"
proof (induction turns arbitrary: st)
  case (Cons turn turns)
  obtain spec world where turn: "turn = (spec, world)" by (cases turn)
  obtain rows reports entry where "turn_effect spec (entry_of spec (rs_schedule st)) (provider_turn options stateDirectory world spec)
      rows reports entry"
    using provider_own [unfolded own_turn_def] by blast
  then show ?case
    using Cons by (auto simp: turn turns_of_def round_turns_def turn_effect_def)
qed (simp add: turns_of_def round_turns_def)

text \<open>C20: one provider's trouble stays its own. Whatever throws in whatever order, a round that ends holds of each provider
  exactly what a round of that provider's turns alone would hold, its rows, its reports and its schedule; for each
  provider it has at least one row and at most two for every turn of that provider, so none for a provider it was not
  given, whose schedule stands as it was.\<close>

theorem round_keeps_providers_apart:
  assumes "runAcquisition options stateDirectory turns table = Inr st"
  shows "(\<exists>alone. runAcquisition options stateDirectory (turns_of p turns) table = Inr alone \<and> part_of p st = part_of p alone) \<and>
    length (turns_of p turns) \<le> length (filter (\<lambda>row. ar_provider row = p) (rs_rows st)) \<and>
    length (filter (\<lambda>row. ar_provider row = p) (rs_rows st)) \<le> 2 * length (turns_of p turns) \<and>
    (turns_of p turns = [] \<longrightarrow> map_of (rs_schedule st) (provider_str p) = map_of table (provider_str p))"
proof -
  let ?start = "\<lparr>rs_rows = [], rs_reports = [], rs_schedule = table\<rparr>"
  let ?all = "round_turns options stateDirectory turns ?start"
  let ?own = "round_turns options stateDirectory (turns_of p turns) ?start"
  let ?fresh = "\<lambda>fresh. filter (\<lambda>report. rp_provider report = p) fresh"
  obtain fresh where fresh: "those_results (map withFreshness (rs_reports ?all)) = Inr fresh" and st: "st = ?all\<lparr>rs_reports := fresh\<rparr>"
    using assms by (auto simp: runAcquisition_def round_turns_def Let_def map_sum_eq_Inr)
  have part: "part_of p ?all = part_of p ?own"
    and rows: "length (turns_of p turns) \<le> length (fst (part_of p ?all))" "length (fst (part_of p ?all)) \<le> 2 * length (turns_of p turns)"
    using round_turns_part [of p ?start ?start options stateDirectory turns] by (auto simp: part_of_def)
  have "those_results (map withFreshness (rs_reports ?own)) = Inr (?fresh fresh)"
    by (rule ended_part [OF fresh part]) (rule own_round_reports, simp)
  then have alone: "runAcquisition options stateDirectory (turns_of p turns) table = Inr (?own\<lparr>rs_reports := ?fresh fresh\<rparr>)"
    by (simp add: runAcquisition_def round_turns_def Let_def)
  moreover have "part_of p st = part_of p (?own\<lparr>rs_reports := ?fresh fresh\<rparr>)"
    using part by (simp add: st part_of_def)
  moreover have "map_of (rs_schedule st) (provider_str p) = map_of table (provider_str p)" if "turns_of p turns = []"
    using part that by (simp add: st part_of_def round_turns_def)
  ultimately show ?thesis using rows by (auto simp: st part_of_def)
qed

definition sample_turn :: provider_world where
  "sample_turn =
     \<lparr>pw_lease = Inr None, pw_read = sample_read, pw_now = ''2026-07-01T10:00:00.000Z'', pw_lostBeforeKeeping = False,
      pw_lostOnThrow = False, pw_complete = Inr (), pw_persist = Some (Inl (Thrown (Some ''EIO'') ''Error'')),
      pw_record = Inr (), pw_failedAt = ''2026-07-01T10:00:00.000Z'', pw_innerFailedAt = ''2026-07-01T10:00:00.000Z''\<rparr>"

text \<open>One provider's lease throws, another provider's turn waits.\<close>

definition sample_turns :: "(acquisition_spec \<times> provider_world) list" where
  "sample_turns =
     [(sample_spec, sample_turn\<lparr>pw_lease := Inl (Thrown (Some ''EIO'') ''Error'')\<rparr>), (sample_spec\<lparr>sp_provider := KIMI\<rparr>, sample_turn)]"

lemma sample_turns_end: "\<exists>st. runAcquisition sample_options True sample_turns [] = Inr st"
  by (simp add: runAcquisition_def sample_turns_def provider_turn_def shared_turn_def sample_turn_def on_throw_def keep_read_def
      drift_read_def Let_def) (simp add: sample_spec_def)

theorem round_keeps_providers_apart_witness:
  "\<exists>st. runAcquisition sample_options True sample_turns [] = Inr st \<and>
     1 \<le> length (filter (\<lambda>row. ar_provider row = GROK) (rs_rows st)) \<and>
     1 \<le> length (filter (\<lambda>row. ar_provider row = KIMI) (rs_rows st)) \<and>
     length (filter (\<lambda>row. ar_provider row = CURSOR) (rs_rows st)) = 0"
proof -
  obtain st where st: "runAcquisition sample_options True sample_turns [] = Inr st" using sample_turns_end by blast
  note kept = round_keeps_providers_apart [OF st]
  from kept [where p = GROK] kept [where p = KIMI] kept [where p = CURSOR] st
  show ?thesis by (simp add: turns_of_def sample_turns_def sample_spec_def)
qed

section \<open>Failing writers\<close>




end
