(* ===== verification/Spec2Isabelle.thy ===== *)
theory Spec2Isabelle
  imports Advice Lock Lease Coordination Gate QrReader Surfaces Wire Runner
begin

text \<open>
  OpenLimiter reads how much of a subscription's quota is left from several AI providers, keeps
  the readings in a cache on the machine and shows them in a status line, a terminal and a
  desktop application. This development models the core of the TypeScript packages: the rules
  every reading passes through on its way from a provider's answer to a surface, the files and
  locks that let several processes share one cache, and the QR encoder of the pairing screen.

  \<^bold>\<open>The parts and how they interact.\<close> A round of acquisition (core/acquire/runner.ts) asks every provider
  that is due, through requests built and checked by core/acquire/transport.ts, with a login found by
  core/acquire/credentials.ts. A connector turns an answer into raw rows.
  \<open>normalizeMeter\<close> (core/normalizer.ts) admits a row or drops it. A \<open>collection_report\<close>
  (core/collection.ts) carries the rows of one provider and account, or a failure; applying it to
  a \<open>cache_state\<close> merges the rows (core/merge.ts), retains those of the last seven days
  (core/data-rules.ts) and records or clears suppressions. core/cache.ts performs that fold on the
  documents of the state directory, under the state lock, and serves surfaces and writers from
  them. core/acquire/cadence.ts and core/schedule.ts say when a provider may be asked again, the
  machine lease of core/cache.ts who may ask, and core/acquire/coordination.ts when a render
  starts a refresh. What a surface shows is a projection of the visible rows (core/data-rules.ts,
  core/provider-presentation.ts), an advice (core/policy.ts) and a forecast (core/forecast.ts). The
  contracts of core/activity and core/contracts say what may be told about the sessions of agents,
  when a notification is due and what the tray and the hub receive.

  \<^bold>\<open>Theories and sources.\<close>
  \<^item> \<open>Prelude\<close>: values of JavaScript (\<open>js\<close>), thrown errors as the left side of a sum
    (\<open>result\<close>), instants as \<open>int option\<close> with \<open>None\<close> for \<open>NaN\<close>, insertion-ordered
    maps, closed vocabularies of words and the lemma collections.
  \<^item> \<open>Dates\<close>: \<open>Date.parse\<close> and \<open>toISOString\<close> on the instants the code accepts, with the
    calendar proved: \<open>toISOString\<close> and \<open>dateParse\<close> are inverse and monotone.
  \<^item> \<open>Types\<close>: the records of core/types.ts and their JSON form.
  \<^item> \<open>Normalizer\<close>: core/normalizer.ts, reader by reader. It admits exactly the well-formed
    snapshots; canonical JSON survives a second normalization.
  \<^item> \<open>ConnectionState\<close>: core/connection-state.ts, the state machine with its histories as an
    inductive relation, and the provider catalogue.
  \<^item> \<open>Presentation\<close>: core/provider-presentation.ts; regular expressions are list functions.
  \<^item> \<open>DataRules\<close>: core/freshness.ts and core/data-rules.ts, from retention to the projection.
  \<^item> \<open>Merge\<close>, \<open>Collection\<close>: core/merge.ts and core/collection.ts. The invariant of a state
    (one row and one suppression per identity, within the bounds) is preserved by every report;
    a suppression hides its rows over any sequence of reports without a success for its identity,
    as long as no more than sixty-four identities are concerned.
  \<^item> \<open>Advice\<close>: core/policy.ts, core/forecast.ts, core/failures.ts.
  \<^item> \<open>Files\<close>: the JSON documents of a directory, read safely and replaced atomically, with the
    interfaces \<open>document_store\<close> and \<open>stored_document\<close> that the cache, the schedule and the
    lease instantiate.
  \<^item> \<open>Schedule\<close>: core/schedule.ts, core/acquire/cadence.ts and the pure policies of
    core/cache.ts. Every delay is bounded; a written schedule reads back.
  \<^item> \<open>Cache\<close>: the readers and writers of core/cache.ts. The file operation of a report refines
    the pure fold of \<open>Collection\<close>; what reaches a surface is valid and, but for Claude, whose failures
    are flags, unsuppressed.
  \<^item> \<open>Lock\<close>: the lock directory of core/cache.ts, one step for each system call, for any
    number of processes, with a call that fails, a crash and the passing of time as steps of their own.
    The exclusion holds without crashes within a minute; two theorems show how it breaks after a crash
    and how a release between two calls of another writer ends that writer with an error.
  \<^item> \<open>Lease\<close>: acquireMachineLease, its completion, wait and release in core/cache.ts.
  \<^item> \<open>Coordination\<close>: the first part of core/acquire/coordination.ts, from the age of the
    cache to the start token of a window and the detached spawn.
  \<^item> \<open>Galois\<close>, \<open>QrData\<close>, \<open>QrMatrix\<close>, \<open>QrReader\<close>: cli/qr.ts. The table multiplication is
    a field (\<open>byte_field\<close>, \<open>byte_domain\<close>), its codewords have the distance of a Reed-Solomon
    code, and a reader that sees only the modules recovers the bytes of every text that fits.
  \<^item> \<open>Connector\<close>: connectors/shared.ts. The locales \<open>kept_reader\<close> and \<open>payload_reader\<close> state
    what a parser promises, that every row it makes passes the normalizer, and every parser below
    that keeps the promise interprets them.
  \<^item> \<open>Claude\<close>, \<open>Codex\<close>, \<open>Google\<close>, \<open>Subscriptions\<close>, \<open>OpenRouter\<close>: the parsers of connectors/claude.ts,
    codex.ts, antigravity.ts and gemini-cli.ts with core/acquire/antigravity-meters.ts, of manual.ts,
    opencode.ts, grok.ts, kimi.ts and cursor.ts, and of openrouter.ts. \<open>Gate\<close>: connectors/contract-gate.ts,
    which picks the parser and calls an answer read only when the normalizer keeps a row of it.
  \<^item> \<open>Json\<close>: \<open>JSON.parse\<close> and \<open>JSON.stringify\<close> of the language, and UTF-8. A printed value reads back as
    itself (\<open>parse_stringify\<close>), so a printed text determines its value.
  \<^item> \<open>Sha256\<close>: the digest of core/activity/contract.ts on 32 bit words, equal to the standard's
    definition, whose constants are checked to be the digits of the roots of the primes.
  \<^item> \<open>Activity\<close>: the rest of core/activity/contract.ts: the check of an event, the session machine with
    its reachable sessions, deduplication, retirement and the records that leave the machine.
  \<^item> \<open>Surfaces\<close>: core/contracts/notify.ts and surfaces.ts; \<open>Wire\<close>: core/contracts/wire.ts, where the
    throwing checks are a list of results and the first failure is the one reported.
  \<^item> \<open>Requests\<close>: core/acquire/identity.ts, the pure part of credentials.ts, the builders and the gate of
    transport.ts and the steps of providers.ts.
  \<^item> \<open>Runner\<close>: core/acquire/runner.ts. A \<open>read_world\<close> holds what the stores, the transport and the lease
    answered one provider, a \<open>provider_world\<close> what the lease, the writer and the flag of a turn answered;
    any of them may throw, and so may what a spec brings, its steps, its parser and the names it gives an
    account. Only a success publishes, a refusal names the login it was given to, and a round holds of
    each provider what its turns alone would give.

  \<^bold>\<open>Bounds and termination.\<close> Only \<open>JSON_parse\<close> uses fuel, twice the length of the
  text and two more, and \<open>JSON_parse_fuel\<close> shows that more never changes its answer. The loops of the
  source recurse structurally or with a measure (the walk over the columns of a symbol, the loops that fill its
  bytes, the decimal printing of numbers); the state machines are step relations, and the one
  claim of progress, that an abandoned lock is taken, counts its steps. Bytes and code units are
  words of their width, the shifts of the table loop 32 bit words; a finite number of JavaScript
  elsewhere is the rational it denotes, so sums and differences of amounts and of percentages are exact where
  the source rounds, and a decimal of a JSON text is its exact value. \<open>canonicalJson\<close> is the value its text denotes. A character of a string is a code unit below 256.

  \<^bold>\<open>Parameters.\<close> Random numbers, the clock, process identifiers, fresh tokens and the result of
  a system call are arguments of the definitions that use them. The SHA-256 of Node's crypto module is
  the standard's own definition, its base64url decoder skips the characters outside the alphabet. A document of the state directory
  is a \<open>json_file\<close>: missing, unreadable, a link, or a parsed value.

  \<^bold>\<open>Not modelled.\<close> The fetch of a request with its timeout and body limit (transport.ts), the child
  process of the Codex app server, the SQLite file of Cursor, the paths and registries of credentials.ts
  and the Windows credential reader, the refresh lock file and its heartbeat (the rest of
  coordination.ts), the activity spool, the command line around the encoder, the adapters that install
  hooks, and the views of the desktop and the web application: input and output around the modelled
  rules. Files under a generated directory are copies of the packages. The release of a lease at the
  end of a turn has no result the round reads.
\<close>

end
